(* ===== verification/Prelude.thy ===== *)
theory Prelude
  imports Main "HOL-Library.AList" "HOL-Library.Char_ord" "HOL-Library.List_Lexorder"
    "HOL-Library.Word" "HOL-Library.Multiset"
    "HOL-Library.Product_Lexorder"
begin

text \<open>
  Shared vocabulary of the development. A Rust \<open>String\<close> and a \<open>Vec<u8>\<close> are both lists
  of bytes here (\<^typ>\<open>char\<close> is a byte in HOL); a \<open>HashMap\<close> is an association list whose keys
  are distinct, its order standing for the unspecified iteration order; a \<open>usize\<close> or \<open>u64\<close>
  is a \<^typ>\<open>nat\<close> below \<open>2 ^ 64\<close> with the overflow written out where it can happen. The theory
  holds the pieces of the Rust standard library the sources use (decimal and hexadecimal text,
  ASCII case folding, trimming, splitting, UTF-8 validity), the table operations with their
  lemmas, and the three contracts several components share, as locales: a state machine with an
  invariant, a table that evicts down to a ceiling, and a counted admission ceiling.
\<close>

named_theorems table_simps "rewriting lookups in association-list tables"
named_theorems machine_defs "the step functions of the state machines"

type_synonym bytes = "char list"

abbreviation u64_bound :: nat where
  "u64_bound \<equiv> 2 ^ 64"

section \<open>Results\<close>

text \<open>The \<open>?\<close> operator of Rust on \<open>Result\<close>, with \<^const>\<open>Inl\<close> for \<open>Err\<close>.\<close>

fun and_then :: "'e + 'a \<Rightarrow> ('a \<Rightarrow> 'e + 'b) \<Rightarrow> 'e + 'b" where
  "and_then (Inl e) f = Inl e"
| "and_then (Inr x) f = f x"

lemma and_then_Inr_iff: "and_then r f = Inr y \<longleftrightarrow> (\<exists>x. r = Inr x \<and> f x = Inr y)"
  by (cases r) auto

fun map_ok :: "('a \<Rightarrow> 'b) \<Rightarrow> 'e + 'a \<Rightarrow> 'e + 'b" where
  "map_ok f (Inl e) = Inl e"
| "map_ok f (Inr x) = Inr (f x)"

definition ok_or :: "'e \<Rightarrow> 'a option \<Rightarrow> 'e + 'a" where
  "ok_or e m = (case m of None \<Rightarrow> Inl e | Some x \<Rightarrow> Inr x)"

lemma ok_or_simps [simp]: "ok_or e None = Inl e" "ok_or e (Some x) = Inr x"
  by (simp_all add: ok_or_def)

lemma ok_or_eq_iff:
  "ok_or e m = Inr x \<longleftrightarrow> m = Some x"
  "ok_or e m = Inl e' \<longleftrightarrow> m = None \<and> e' = e"
  by (auto simp: ok_or_def split: option.splits)

section \<open>Text of the standard library\<close>

subsection \<open>Decimal and hexadecimal\<close>

definition digit_char :: "nat \<Rightarrow> char" where
  "digit_char d = char_of (48 + d)"

definition is_ascii_digit :: "char \<Rightarrow> bool" where
  "is_ascii_digit c \<longleftrightarrow> 48 \<le> (of_char c :: nat) \<and> (of_char c :: nat) \<le> 57"

definition digit_val :: "char \<Rightarrow> nat" where
  "digit_val c = of_char c - 48"

fun show_nat :: "nat \<Rightarrow> string" where
  "show_nat n = (if n < 10 then [digit_char n] else show_nat (n div 10) @ [digit_char (n mod 10)])"

declare show_nat.simps [simp del]

definition show_int :: "int \<Rightarrow> string" where
  "show_int i = (if i < 0 then ''-'' @ show_nat (nat (- i)) else show_nat (nat i))"

definition read_digits :: "string \<Rightarrow> nat" where
  "read_digits s = foldl (\<lambda>n c. 10 * n + digit_val c) 0 s"

text \<open>
  \<open>str::parse::<usize>\<close>: an optional \<open>+\<close>, then at least one digit, then nothing, and the
  value has to fit.
\<close>

definition parse_uint :: "nat \<Rightarrow> string \<Rightarrow> nat option" where
  "parse_uint bound s =
     (let ds = (case s of c # cs \<Rightarrow> if c = CHR ''+'' then cs else s | [] \<Rightarrow> [])
      in if ds \<noteq> [] \<and> list_all is_ascii_digit ds \<and> read_digits ds < bound
         then Some (read_digits ds) else None)"

text \<open>The \<open>{:0w}\<close> format of a non-negative integer.\<close>

definition show_padded :: "nat \<Rightarrow> nat \<Rightarrow> string" where
  "show_padded w n = replicate (w - length (show_nat n)) (CHR ''0'') @ show_nat n"

definition hex_char :: "nat \<Rightarrow> char" where
  "hex_char d = (if d < 10 then char_of (48 + d) else char_of (87 + d))"

text \<open>The \<open>{:02x}\<close> format of a byte.\<close>

definition show_hex_byte :: "8 word \<Rightarrow> string" where
  "show_hex_byte b = [hex_char (unat b div 16), hex_char (unat b mod 16)]"

lemma is_ascii_digit_digit_char [simp]: "d < 10 \<Longrightarrow> is_ascii_digit (digit_char d)"
  by (simp add: is_ascii_digit_def digit_char_def)

lemma digit_val_digit_char [simp]: "d < 10 \<Longrightarrow> digit_val (digit_char d) = d"
  by (simp add: digit_val_def digit_char_def)

lemma show_nat_digits: "list_all is_ascii_digit (show_nat n)"
proof (induction n rule: show_nat.induct)
  case (1 n)
  then show ?case by (subst show_nat.simps) auto
qed

lemma show_nat_nonempty [simp]: "show_nat n \<noteq> []"
  by (subst show_nat.simps) simp

lemma read_digits_append:
  "read_digits (s @ [c]) = 10 * read_digits s + digit_val c"
  by (simp add: read_digits_def)

lemma read_digits_show_nat [simp]: "read_digits (show_nat n) = n"
proof (induction n rule: show_nat.induct)
  case (1 n)
  show ?case
  proof (cases "n < 10")
    case True
    then show ?thesis by (simp add: show_nat.simps [of n] read_digits_def)
  next
    case False
    with 1 have "read_digits (show_nat (n div 10)) = n div 10" by simp
    with False show ?thesis
      by (simp add: show_nat.simps [of n] read_digits_append)
  qed
qed

lemma plus_not_digit [simp]: "\<not> is_ascii_digit CHR ''+''"
  by (simp add: is_ascii_digit_def)

lemma parse_uint_show_nat [simp]:
  "parse_uint bound (show_nat n) = (if n < bound then Some n else None)"
proof -
  obtain c cs where s: "show_nat n = c # cs" using show_nat_nonempty by (cases "show_nat n") auto
  have d: "list_all is_ascii_digit (c # cs)" using show_nat_digits [of n] by (simp add: s)
  then have "c \<noteq> CHR ''+''" using plus_not_digit by auto
  moreover have "read_digits (c # cs) = n" using read_digits_show_nat [of n] by (simp add: s)
  ultimately show ?thesis using d by (simp add: parse_uint_def s Let_def)
qed

lemma show_nat_inject [simp]: "show_nat m = show_nat n \<longleftrightarrow> m = n"
  using read_digits_show_nat by metis

lemma parse_uint_less: "parse_uint bound s = Some n \<Longrightarrow> n < bound"
  by (auto simp: parse_uint_def Let_def split: if_splits list.splits)

lemma hex_char_inject: "a < 16 \<Longrightarrow> b < 16 \<Longrightarrow> hex_char a = hex_char b \<longleftrightarrow> a = b"
  by (auto simp: hex_char_def split: if_splits)

lemma show_hex_byte_inject: "show_hex_byte a = show_hex_byte b \<longleftrightarrow> a = b"
proof
  assume "show_hex_byte a = show_hex_byte b"
  moreover have "unat a < 256" "unat b < 256" using unsigned_less [of a, where ?'a = nat] unsigned_less [of b, where ?'a = nat] by simp_all
  ultimately have "unat a div 16 = unat b div 16" "unat a mod 16 = unat b mod 16"
    by (simp_all add: show_hex_byte_def hex_char_inject less_mult_imp_div_less)
  then have "unat a = unat b" by (metis div_mult_mod_eq)
  then show "a = b" by (simp add: unsigned_word_eqI [where ?'a = nat])
qed simp

lemma length_show_hex_byte [simp]: "length (show_hex_byte b) = 2"
  by (simp add: show_hex_byte_def)


subsection \<open>ASCII\<close>

definition is_ascii_upper :: "char \<Rightarrow> bool" where
  "is_ascii_upper c \<longleftrightarrow> 65 \<le> (of_char c :: nat) \<and> (of_char c :: nat) \<le> 90"

definition is_ascii_lower :: "char \<Rightarrow> bool" where
  "is_ascii_lower c \<longleftrightarrow> 97 \<le> (of_char c :: nat) \<and> (of_char c :: nat) \<le> 122"

definition is_ascii_alphabetic :: "char \<Rightarrow> bool" where
  "is_ascii_alphabetic c \<longleftrightarrow> is_ascii_upper c \<or> is_ascii_lower c"

definition is_ascii_alphanumeric :: "char \<Rightarrow> bool" where
  "is_ascii_alphanumeric c \<longleftrightarrow> is_ascii_alphabetic c \<or> is_ascii_digit c"

definition is_ascii_hexdigit :: "char \<Rightarrow> bool" where
  "is_ascii_hexdigit c \<longleftrightarrow> is_ascii_digit c \<or>
     (65 \<le> (of_char c :: nat) \<and> (of_char c :: nat) \<le> 70) \<or>
     (97 \<le> (of_char c :: nat) \<and> (of_char c :: nat) \<le> 102)"

definition ascii_lower :: "char \<Rightarrow> char" where
  "ascii_lower c = (if is_ascii_upper c then char_of (of_char c + 32 :: nat) else c)"

definition to_ascii_lowercase :: "string \<Rightarrow> string" where
  "to_ascii_lowercase s = map ascii_lower s"

definition eq_ignore_ascii_case :: "string \<Rightarrow> string \<Rightarrow> bool" where
  "eq_ignore_ascii_case s t \<longleftrightarrow> to_ascii_lowercase s = to_ascii_lowercase t"

lemma of_char_ascii_lower:
  "(of_char (ascii_lower c) :: nat) = (if is_ascii_upper c then of_char c + 32 else of_char c)"
  by (auto simp: ascii_lower_def is_ascii_upper_def)

lemma ascii_lower_idem [simp]: "ascii_lower (ascii_lower c) = ascii_lower c"
proof (cases "is_ascii_upper c")
  case True
  then have "\<not> is_ascii_upper (ascii_lower c)"
    using of_char_ascii_lower [of c] by (auto simp: is_ascii_upper_def)
  then show ?thesis by (simp add: ascii_lower_def)
next
  case False
  then show ?thesis by (simp add: ascii_lower_def)
qed

lemma to_ascii_lowercase_idem [simp]:
  "to_ascii_lowercase (to_ascii_lowercase s) = to_ascii_lowercase s"
  by (simp add: to_ascii_lowercase_def)

lemma to_ascii_lowercase_append [simp]:
  "to_ascii_lowercase (s @ t) = to_ascii_lowercase s @ to_ascii_lowercase t"
  by (simp add: to_ascii_lowercase_def)

subsection \<open>Splitting and trimming\<close>

text \<open>\<open>str::strip_prefix\<close> and \<open>str::strip_suffix\<close>.\<close>

fun strip_prefix :: "'a list \<Rightarrow> 'a list \<Rightarrow> 'a list option" where
  "strip_prefix [] s = Some s"
| "strip_prefix (p # ps) [] = None"
| "strip_prefix (p # ps) (c # cs) = (if p = c then strip_prefix ps cs else None)"

definition strip_suffix :: "'a list \<Rightarrow> 'a list \<Rightarrow> 'a list option" where
  "strip_suffix p s = map_option rev (strip_prefix (rev p) (rev s))"

lemma strip_prefix_iff: "strip_prefix p s = Some r \<longleftrightarrow> s = p @ r"
  by (induction p s rule: strip_prefix.induct) auto

lemma strip_prefix_append [simp]: "strip_prefix p (p @ r) = Some r"
  by (simp add: strip_prefix_iff)

lemma strip_suffix_iff: "strip_suffix p s = Some r \<longleftrightarrow> s = r @ p"
proof -
  have "strip_suffix p s = Some r \<longleftrightarrow> strip_prefix (rev p) (rev s) = Some (rev r)"
    by (auto simp: strip_suffix_def)
  also have "\<dots> \<longleftrightarrow> rev s = rev (r @ p)" by (simp add: strip_prefix_iff)
  finally show ?thesis by (simp only: rev_is_rev_conv)
qed

text \<open>\<open>str::starts_with\<close> and \<open>str::ends_with\<close>.\<close>

definition starts_with :: "'a list \<Rightarrow> 'a list \<Rightarrow> bool" where
  "starts_with p s \<longleftrightarrow> strip_prefix p s \<noteq> None"

definition ends_with :: "'a list \<Rightarrow> 'a list \<Rightarrow> bool" where
  "ends_with p s \<longleftrightarrow> strip_suffix p s \<noteq> None"

lemma starts_with_iff: "starts_with p s \<longleftrightarrow> (\<exists>r. s = p @ r)"
  by (auto simp: starts_with_def strip_prefix_iff)

lemma ends_with_iff: "ends_with p s \<longleftrightarrow> (\<exists>r. s = r @ p)"
  by (auto simp: ends_with_def strip_suffix_iff)

text \<open>\<open>str::split_once\<close>: at the first occurrence of a separator.\<close>

fun split_once :: "'a list \<Rightarrow> 'a list \<Rightarrow> ('a list \<times> 'a list) option" where
  "split_once p s =
     (case strip_prefix p s of
        Some r \<Rightarrow> Some ([], r)
      | None \<Rightarrow>
          (case s of
             [] \<Rightarrow> None
           | c # cs \<Rightarrow> map_option (\<lambda>(l, r). (c # l, r)) (split_once p cs)))"

declare split_once.simps [simp del]

lemma split_once_Some: "split_once p s = Some (l, r) \<Longrightarrow> s = l @ p @ r"
proof (induction s arbitrary: l)
  case Nil
  then show ?case
    by (simp add: split_once.simps [of p "[]"] strip_prefix_iff split: option.splits)
next
  case (Cons c cs)
  then show ?case
    by (auto simp: split_once.simps [of p "c # cs"] strip_prefix_iff split: option.splits)
qed

lemma split_once_append: "p \<noteq> [] \<Longrightarrow> hd p \<notin> set l \<Longrightarrow> split_once p (l @ p @ r) = Some (l, r)"
proof (induction l)
  case Nil
  then show ?case by (simp add: split_once.simps [of p "p @ r"])
next
  case (Cons c l)
  then have "strip_prefix p ((c # l) @ p @ r) = None" by (cases p) auto
  with Cons show ?case by (simp add: split_once.simps [of p "c # l @ p @ r"])
qed

lemma split_once_None: "p \<noteq> [] \<Longrightarrow> hd p \<notin> set s \<Longrightarrow> split_once p s = None"
proof (induction s)
  case Nil
  then show ?case by (cases p) (simp_all add: split_once.simps [of _ "[]"])
next
  case (Cons c s)
  then have "strip_prefix p (c # s) = None" by (cases p) auto
  with Cons show ?case by (simp add: split_once.simps [of p "c # s"])
qed

text \<open>\<open>str::split\<close> on a single byte: always at least one piece.\<close>

fun split_on :: "char \<Rightarrow> string \<Rightarrow> string list" where
  "split_on d [] = [[]]"
| "split_on d (c # cs) =
     (if c = d then [] # split_on d cs
      else (case split_on d cs of [] \<Rightarrow> [[c]] | p # ps \<Rightarrow> (c # p) # ps))"

fun join :: "string \<Rightarrow> string list \<Rightarrow> string" where
  "join sep [] = []"
| "join sep [x] = x"
| "join sep (x # y # ys) = x @ sep @ join sep (y # ys)"

text \<open>
  The UTF-8 encodings of the Unicode \<open>White_Space\<close> characters, which is what \<open>str::trim\<close>
  removes from both ends.
\<close>

definition whitespace_encodings :: "string list" where
  "whitespace_encodings =
     [[CHR 0x09], [CHR 0x0A], [CHR 0x0B], [CHR 0x0C], [CHR 0x0D], [CHR 0x20],
      [CHR 0xC2, CHR 0x85], [CHR 0xC2, CHR 0xA0], [CHR 0xE1, CHR 0x9A, CHR 0x80],
      [CHR 0xE2, CHR 0x80, CHR 0x80], [CHR 0xE2, CHR 0x80, CHR 0x81],
      [CHR 0xE2, CHR 0x80, CHR 0x82], [CHR 0xE2, CHR 0x80, CHR 0x83],
      [CHR 0xE2, CHR 0x80, CHR 0x84], [CHR 0xE2, CHR 0x80, CHR 0x85],
      [CHR 0xE2, CHR 0x80, CHR 0x86], [CHR 0xE2, CHR 0x80, CHR 0x87],
      [CHR 0xE2, CHR 0x80, CHR 0x88], [CHR 0xE2, CHR 0x80, CHR 0x89],
      [CHR 0xE2, CHR 0x80, CHR 0x8A], [CHR 0xE2, CHR 0x80, CHR 0xA8],
      [CHR 0xE2, CHR 0x80, CHR 0xA9], [CHR 0xE2, CHR 0x80, CHR 0xAF],
      [CHR 0xE2, CHR 0x81, CHR 0x9F], [CHR 0xE3, CHR 0x80, CHR 0x80]]"

fun strip_any :: "'a list list \<Rightarrow> 'a list \<Rightarrow> 'a list option" where
  "strip_any [] s = None"
| "strip_any (p # ps) s =
     (case strip_prefix p s of Some r \<Rightarrow> Some r | None \<Rightarrow> strip_any ps s)"

fun strip_all :: "nat \<Rightarrow> 'a list list \<Rightarrow> 'a list \<Rightarrow> 'a list" where
  "strip_all 0 ps s = s"
| "strip_all (Suc n) ps s = (case strip_any ps s of Some r \<Rightarrow> strip_all n ps r | None \<Rightarrow> s)"

definition trim_start :: "string \<Rightarrow> string" where
  "trim_start s = strip_all (length s) whitespace_encodings s"

definition trim_end :: "string \<Rightarrow> string" where
  "trim_end s = rev (strip_all (length s) (map rev whitespace_encodings) (rev s))"

definition trim :: "string \<Rightarrow> string" where
  "trim s = trim_end (trim_start s)"

text \<open>Trimming leaves a text alone that starts and ends with a visible ASCII character.\<close>

definition is_graphic :: "char \<Rightarrow> bool" where
  "is_graphic c \<longleftrightarrow> 33 \<le> (of_char c :: nat) \<and> (of_char c :: nat) \<le> 126"

lemma strip_any_None: "\<forall>p \<in> set ps. p \<noteq> [] \<and> hd p \<noteq> c \<Longrightarrow> strip_any ps (c # s) = None"
proof (induction ps)
  case (Cons p ps)
  then have "strip_prefix p (c # s) = None" by (cases p) auto
  with Cons show ?case by simp
qed simp

lemma whitespace_not_graphic:
  "\<forall>p \<in> set whitespace_encodings. p \<noteq> [] \<and> \<not> is_graphic (hd p) \<and> \<not> is_graphic (last p)"
  by (simp add: whitespace_encodings_def is_graphic_def)

lemma trim_graphic:
  assumes "s \<noteq> []" and "is_graphic (hd s)" and "is_graphic (last s)"
  shows "trim s = s"
proof -
  obtain c cs where s: "s = c # cs" using assms(1) by (cases s) auto
  have "strip_any whitespace_encodings (c # cs) = None"
    by (rule strip_any_None) (use whitespace_not_graphic assms(2) s in auto)
  then have start: "trim_start s = s" by (simp add: trim_start_def s)
  obtain d ds where r: "rev s = d # ds" using assms(1) by (cases "rev s") auto
  then have d: "d = last s" by (metis last_rev list.sel(1) rev_rev_ident hd_rev)
  have "strip_any (map rev whitespace_encodings) (d # ds) = None"
    by (rule strip_any_None) (use whitespace_not_graphic assms(3) d in \<open>auto simp: hd_rev\<close>)
  then have "strip_all n (map rev whitespace_encodings) (d # ds) = d # ds" for n by (cases n) simp_all
  then have "trim_end s = rev (rev s)" by (simp only: trim_end_def r)
  then have "trim_end s = s" by simp
  with start show ?thesis by (simp add: trim_def)
qed

subsection \<open>UTF-8\<close>

text \<open>
  \<open>String::from_utf8\<close>: the well-formed byte sequences of the Unicode standard, so no overlong
  forms, no surrogates and nothing above \<open>U+10FFFF\<close>.
\<close>

definition byte_in :: "nat \<Rightarrow> nat \<Rightarrow> char \<Rightarrow> bool" where
  "byte_in lo hi c \<longleftrightarrow> lo \<le> (of_char c :: nat) \<and> (of_char c :: nat) \<le> hi"

definition utf8_pair :: "char \<Rightarrow> char \<Rightarrow> bool" where
  "utf8_pair a b \<longleftrightarrow> byte_in 0xC2 0xDF a \<and> byte_in 0x80 0xBF b"

definition utf8_triple :: "char \<Rightarrow> char \<Rightarrow> char \<Rightarrow> bool" where
  "utf8_triple a b c \<longleftrightarrow> byte_in 0x80 0xBF c \<and>
     (byte_in 0xE0 0xE0 a \<and> byte_in 0xA0 0xBF b \<or>
      byte_in 0xE1 0xEC a \<and> byte_in 0x80 0xBF b \<or>
      byte_in 0xED 0xED a \<and> byte_in 0x80 0x9F b \<or>
      byte_in 0xEE 0xEF a \<and> byte_in 0x80 0xBF b)"

definition utf8_quad :: "char \<Rightarrow> char \<Rightarrow> char \<Rightarrow> char \<Rightarrow> bool" where
  "utf8_quad a b c d \<longleftrightarrow> byte_in 0x80 0xBF c \<and> byte_in 0x80 0xBF d \<and>
     (byte_in 0xF0 0xF0 a \<and> byte_in 0x90 0xBF b \<or>
      byte_in 0xF1 0xF3 a \<and> byte_in 0x80 0xBF b \<or>
      byte_in 0xF4 0xF4 a \<and> byte_in 0x80 0x8F b)"

fun utf8_valid :: "bytes \<Rightarrow> bool" where
  "utf8_valid [] = True"
| "utf8_valid [a] = byte_in 0 0x7F a"
| "utf8_valid [a, b] =
     (if byte_in 0 0x7F a then utf8_valid [b] else utf8_pair a b)"
| "utf8_valid [a, b, c] =
     (if byte_in 0 0x7F a then utf8_valid [b, c]
      else if utf8_pair a b then utf8_valid [c]
      else utf8_triple a b c)"
| "utf8_valid (a # b # c # d # s) =
     (if byte_in 0 0x7F a then utf8_valid (b # c # d # s)
      else if utf8_pair a b then utf8_valid (c # d # s)
      else if utf8_triple a b c then utf8_valid (d # s)
      else utf8_quad a b c d \<and> utf8_valid s)"

lemma utf8_valid_ascii: "list_all (byte_in 0 0x7F) s \<Longrightarrow> utf8_valid s"
  by (induction s rule: utf8_valid.induct) auto

lemma is_ascii_digit_ascii: "is_ascii_digit c \<Longrightarrow> byte_in 0 0x7F c"
  by (simp add: is_ascii_digit_def byte_in_def)

lemma utf8_valid_show_nat [simp]: "utf8_valid (show_nat n)"
proof (rule utf8_valid_ascii)
  show "list_all (byte_in 0 0x7F) (show_nat n)"
    using show_nat_digits [of n] by (auto simp: list_all_iff is_ascii_digit_ascii)
qed

section \<open>Tables\<close>

text \<open>
  \<open>HashMap\<close> operations on association lists. The keys of a table are distinct; the order of
  its entries is the iteration order, which the code may not depend on.
\<close>

type_synonym ('k, 'v) table = "('k \<times> 'v) list"

definition wf_table :: "('k, 'v) table \<Rightarrow> bool" where
  "wf_table t \<longleftrightarrow> distinct (map fst t)"

definition table_retain :: "('k \<Rightarrow> 'v \<Rightarrow> bool) \<Rightarrow> ('k, 'v) table \<Rightarrow> ('k, 'v) table" where
  "table_retain P t = filter (\<lambda>(k, v). P k v) t"

abbreviation table_get :: "('k, 'v) table \<Rightarrow> 'k \<Rightarrow> 'v option" where
  "table_get \<equiv> map_of"

abbreviation table_insert :: "'k \<Rightarrow> 'v \<Rightarrow> ('k, 'v) table \<Rightarrow> ('k, 'v) table" where
  "table_insert \<equiv> AList.update"

abbreviation table_remove :: "'k \<Rightarrow> ('k, 'v) table \<Rightarrow> ('k, 'v) table" where
  "table_remove \<equiv> AList.delete"

lemma wf_table_Nil [simp]: "wf_table []"
  by (simp add: wf_table_def)

lemma wf_table_insert [simp]: "wf_table t \<Longrightarrow> wf_table (table_insert k v t)"
  by (simp add: wf_table_def distinct_update)

lemma wf_table_remove [simp]: "wf_table t \<Longrightarrow> wf_table (table_remove k t)"
  by (simp add: wf_table_def distinct_delete)

lemma wf_table_retain [simp]: "wf_table t \<Longrightarrow> wf_table (table_retain P t)"
  by (simp add: wf_table_def table_retain_def distinct_map_filter)

lemma table_get_insert [table_simps]:
  "table_get (table_insert k v t) x = (if x = k then Some v else table_get t x)"
  by (simp add: update_conv)

lemma table_get_remove [table_simps]:
  "table_get (table_remove k t) x = (if x = k then None else table_get t x)"
  by (simp add: delete_conv)

lemma table_get_retain [table_simps]:
  "wf_table t \<Longrightarrow> table_get (table_retain P t) x =
     (case table_get t x of None \<Rightarrow> None | Some v \<Rightarrow> if P x v then Some v else None)"
proof (induction t)
  case Nil
  then show ?case by (simp add: table_retain_def)
next
  case (Cons e t)
  obtain k v where e: "e = (k, v)" by (cases e)
  from Cons.prems e have "wf_table t" and k: "k \<notin> fst ` set t"
    by (auto simp: wf_table_def)
  then have IH: "table_get (table_retain P t) x =
      (case table_get t x of None \<Rightarrow> None | Some v \<Rightarrow> if P x v then Some v else None)"
    by (simp add: Cons.IH)
  have "table_get t k = None" using k by (simp add: map_of_eq_None_iff)
  then have "x = k \<Longrightarrow> table_get (table_retain P t) x = None" using IH by simp
  with IH e show ?case by (auto simp: table_retain_def split: option.splits)
qed

lemma table_get_in_set: "wf_table t \<Longrightarrow> table_get t k = Some v \<longleftrightarrow> (k, v) \<in> set t"
  by (simp add: wf_table_def map_of_eq_Some_iff)

lemma length_table_insert:
  "length (table_insert k v t) = (if k \<in> fst ` set t then length t else Suc (length t))"
  by (induction t) auto

lemma length_table_remove:
  "wf_table t \<Longrightarrow> k \<in> fst ` set t \<Longrightarrow> Suc (length (table_remove k t)) = length t"
proof (induction t)
  case (Cons e t)
  show ?case
  proof (cases "fst e = k")
    case True
    with Cons.prems have "k \<notin> fst ` set t" by (auto simp: wf_table_def)
    then have "table_remove k t = t" by (induction t) auto
    with True show ?thesis by (cases e) simp
  next
    case False
    with Cons show ?thesis by (cases e) (auto simp: wf_table_def)
  qed
qed simp

lemma set_table_remove: "set (table_remove k t) = {e \<in> set t. fst e \<noteq> k}"
  by (auto simp: AList.delete_eq)

lemma length_table_retain [simp]: "length (table_retain P t) \<le> length t"
  by (simp add: table_retain_def)

text \<open>Counting entries across an insertion.\<close>

lemma length_filter_insert:
  "length (filter P (table_insert k v t)) \<le> Suc (length (filter P t))"
  by (induction t) auto

lemma length_filter_insert_le:
  "table_get t k = Some v \<Longrightarrow> (P (k, v') \<Longrightarrow> P (k, v)) \<Longrightarrow>
     length (filter P (table_insert k v' t)) \<le> length (filter P t)"
  by (induction t) (auto split: if_splits)

lemma length_filter_insert_other:
  "\<not> P (k, v) \<Longrightarrow> length (filter P (table_insert k v t)) \<le> length (filter P t)"
  by (induction t) auto

lemma map_insert_same:
  "table_get t k = Some v \<Longrightarrow> f v' = f v \<Longrightarrow>
     map (\<lambda>(_, v). f v) (table_insert k v' t) = map (\<lambda>(_, v). f v) t"
  by (induction t) (auto split: if_splits)

lemma table_insert_cases:
  "wf_table t \<Longrightarrow> (x, w) \<in> set (table_insert k v t) \<Longrightarrow> (x = k \<and> w = v) \<or> (x \<noteq> k \<and> (x, w) \<in> set t)"
  using table_get_in_set [of "table_insert k v t" x w] table_get_in_set [of t x w]
  by (auto simp: table_simps split: if_splits)

section \<open>Minima and sorting\<close>

text \<open>\<open>Iterator::min_by_key\<close>: the first of the smallest.\<close>

fun min_by_key :: "('a \<Rightarrow> 'r :: linorder) \<Rightarrow> 'a list \<Rightarrow> 'a option" where
  "min_by_key f [] = None"
| "min_by_key f (x # xs) =
     (case min_by_key f xs of
        None \<Rightarrow> Some x
      | Some y \<Rightarrow> if f x \<le> f y then Some x else Some y)"

lemma min_by_key_None [simp]: "min_by_key f xs = None \<longleftrightarrow> xs = []"
  by (cases xs) (auto split: option.splits)

lemma min_by_key_Some: "min_by_key f xs = Some y \<Longrightarrow> y \<in> set xs \<and> (\<forall>x \<in> set xs. f y \<le> f x)"
proof (induction xs arbitrary: y)
  case (Cons x xs)
  then show ?case by (cases "min_by_key f xs") (auto split: if_splits)
qed simp

text \<open>\<open>slice::sort_by\<close>: stable, by a comparison.\<close>

fun insert_by :: "('a \<Rightarrow> 'a \<Rightarrow> bool) \<Rightarrow> 'a \<Rightarrow> 'a list \<Rightarrow> 'a list" where
  "insert_by le x [] = [x]"
| "insert_by le x (y # ys) = (if le x y then x # y # ys else y # insert_by le x ys)"

definition sort_by :: "('a \<Rightarrow> 'a \<Rightarrow> bool) \<Rightarrow> 'a list \<Rightarrow> 'a list" where
  "sort_by le xs = foldr (insert_by le) xs []"

lemma mset_insert_by [simp]: "mset (insert_by le x xs) = add_mset x (mset xs)"
  by (induction xs) auto

lemma mset_sort_by [simp]: "mset (sort_by le xs) = mset xs"
  by (induction xs) (auto simp: sort_by_def)

lemma set_sort_by [simp]: "set (sort_by le xs) = set xs"
  using mset_sort_by [of le xs] by (metis set_mset_mset)

lemma length_sort_by [simp]: "length (sort_by le xs) = length xs"
  using mset_sort_by [of le xs] by (metis size_mset)

lemma sorted_insert_by:
  assumes "\<And>a b. le a b \<or> le b a" and "\<And>a b c. le a b \<Longrightarrow> le b c \<Longrightarrow> le a c"
    and "sorted_wrt le xs"
  shows "sorted_wrt le (insert_by le x xs)"
  using assms(3)
proof (induction xs)
  case (Cons y ys)
  have "set (insert_by le x ys) = insert x (set ys)"
    using mset_insert_by [of le x ys] by (metis set_mset_add_mset_insert set_mset_mset)
  with Cons assms(1,2) show ?case by auto
qed simp

lemma sorted_sort_by:
  assumes "\<And>a b. le a b \<or> le b a" and "\<And>a b c. le a b \<Longrightarrow> le b c \<Longrightarrow> le a c"
  shows "sorted_wrt le (sort_by le xs)"
proof (induction xs)
  case (Cons x xs)
  have "sorted_wrt le (insert_by le x (sort_by le xs))"
    by (rule sorted_insert_by [OF assms(1) _ Cons.IH]) (use assms(2) in blast)
  then show ?case by (simp add: sort_by_def)
qed (simp add: sort_by_def)

text \<open>Two lists sorted by a strict order with the same elements are the same list.\<close>

lemma sorted_wrt_unique:
  assumes "\<And>a. \<not> lt a a" and "\<And>a b c. lt a b \<Longrightarrow> lt b c \<Longrightarrow> lt a c"
  shows "sorted_wrt lt xs \<Longrightarrow> sorted_wrt lt ys \<Longrightarrow> set xs = set ys \<Longrightarrow> xs = ys"
proof (induction xs arbitrary: ys)
  case Nil
  then show ?case by simp
next
  case (Cons x xs)
  then obtain y ys' where ys: "ys = y # ys'" by (cases ys) auto
  have "x = y"
  proof (rule ccontr)
    assume "x \<noteq> y"
    with Cons.prems ys have "lt x y" "lt y x" by auto
    with assms show False by blast
  qed
  moreover have "x \<notin> set xs" "y \<notin> set ys'" using Cons.prems ys assms(1) by auto
  ultimately have "set xs = set ys'" using Cons.prems(3) ys by auto
  with Cons ys \<open>x = y\<close> show ?case by simp
qed

section \<open>Contracts shared by several components\<close>

subsection \<open>A state machine with an invariant\<close>

text \<open>
  A component is driven by a sequence of calls; \<open>step\<close> is one call, and the code that uses the
  component relies on \<open>inv\<close> at every moment.
\<close>

locale machine =
  fixes step :: "'s \<Rightarrow> 'e \<Rightarrow> 's"
    and inv :: "'s \<Rightarrow> bool"
  assumes step_inv: "inv s \<Longrightarrow> inv (step s e)"
begin

lemma run_inv: "inv s \<Longrightarrow> inv (foldl step s es)"
  by (induction es arbitrary: s) (auto intro: step_inv)

lemma run_inv_prefix: "inv s \<Longrightarrow> inv (foldl step s (take n es))"
  by (rule run_inv)

end

text \<open>
  A machine whose steps only ever move forward in \<open>progress\<close>, so that what was true of an
  earlier state constrains every later one.
\<close>

locale monotone_machine = machine step inv
  for step :: "'s \<Rightarrow> 'e \<Rightarrow> 's" and inv :: "'s \<Rightarrow> bool" +
  fixes progress :: "'s \<Rightarrow> 's \<Rightarrow> bool"
  assumes progress_refl: "progress s s"
    and progress_trans: "progress a b \<Longrightarrow> progress b c \<Longrightarrow> progress a c"
    and step_progress: "inv s \<Longrightarrow> progress s (step s e)"
begin

lemma run_progress: "inv s \<Longrightarrow> progress s (foldl step s es)"
proof (induction es arbitrary: s)
  case Nil
  then show ?case by (simp add: progress_refl)
next
  case (Cons e es)
  then have "progress (step s e) (foldl step (step s e) es)" by (simp add: step_inv)
  with step_progress [OF Cons.prems] show ?case by (auto intro: progress_trans)
qed

end

subsection \<open>A queue inside a machine\<close>

text \<open>What a run produces, step by step, when \<open>out\<close> is what one step produces.\<close>

fun collect :: "('s \<Rightarrow> 'e \<Rightarrow> 's) \<Rightarrow> ('s \<Rightarrow> 'e \<Rightarrow> 'a list) \<Rightarrow> 's \<Rightarrow> 'e list \<Rightarrow> 'a list" where
  "collect step out s [] = []"
| "collect step out s (e # es) = out s e @ collect step out (step s e) es"

text \<open>
  A component holds a queue: whatever a step takes in goes to the back and whatever it hands out
  comes from the front. Then a whole run loses nothing, repeats nothing and keeps the order.
\<close>

locale fifo =
  fixes step :: "'s \<Rightarrow> 'e \<Rightarrow> 's"
    and queue :: "'s \<Rightarrow> 'a list"
    and taken_in :: "'s \<Rightarrow> 'e \<Rightarrow> 'a list"
    and handed_out :: "'s \<Rightarrow> 'e \<Rightarrow> 'a list"
  assumes step_conserves: "handed_out s e @ queue (step s e) = queue s @ taken_in s e"
begin

lemma run_conserves:
  "collect step handed_out s es @ queue (foldl step s es) = queue s @ collect step taken_in s es"
proof (induction es arbitrary: s)
  case (Cons e es)
  have "collect step handed_out s (e # es) @ queue (foldl step s (e # es)) =
      handed_out s e @ queue (step s e) @ collect step taken_in (step s e) es"
    using Cons by simp
  also have "\<dots> = queue s @ collect step taken_in s (e # es)"
    using step_conserves [of s e] by (metis append.assoc collect.simps(2))
  finally show ?case .
qed simp

end

subsection \<open>A table that evicts down to a ceiling\<close>

text \<open>
  The task store and the session table make room the same way: while there are too many
  records, ask \<open>pick\<close> for one to drop. Both promise the same things: what \<open>pick\<close> may not
  choose survives, and what goes is older in \<open>rank\<close> than every candidate that stays.
\<close>

locale evicting =
  fixes evict :: "('k, 'v) table \<Rightarrow> 'e + ('k, 'v) table"
    and pick :: "('k, 'v) table \<Rightarrow> 'k option"
    and candidate :: "'v \<Rightarrow> bool"
    and rank :: "'k \<Rightarrow> 'v \<Rightarrow> 'r :: linorder"
    and bound :: nat
    and err :: 'e
  assumes evict_unfold:
      "wf_table t \<Longrightarrow> evict t =
         (if length t < bound then Inr t
          else case pick t of None \<Rightarrow> Inl err | Some k \<Rightarrow> evict (table_remove k t))"
    and pick_Some: "wf_table t \<Longrightarrow> pick t = Some k \<Longrightarrow>
         \<exists>v. (k, v) \<in> set t \<and> candidate v \<and>
             (\<forall>(k', v') \<in> set t. candidate v' \<and> k' \<noteq> k \<longrightarrow> rank k v < rank k' v')"
    and pick_None: "wf_table t \<Longrightarrow> pick t = None \<Longrightarrow> (\<forall>(k, v) \<in> set t. \<not> candidate v)"
begin

lemma remove_less: "wf_table t \<Longrightarrow> pick t = Some k \<Longrightarrow> length (table_remove k t) < length t"
  using pick_Some [of t k] length_table_remove [of t k] by force

text \<open>
  The induction every fact about a successful eviction goes by: nothing to do, or one victim
  (the oldest candidate) removed first.
\<close>

lemma evict_induct [consumes 2, case_names enough victim]:
  assumes "wf_table t" and "evict t = Inr t'"
    and enough: "length t' < bound \<Longrightarrow> P t'"
    and victim: "\<And>t k v. wf_table t \<Longrightarrow> (k, v) \<in> set t \<Longrightarrow> candidate v \<Longrightarrow>
        (\<forall>(k', v') \<in> set t. candidate v' \<and> k' \<noteq> k \<longrightarrow> rank k v < rank k' v') \<Longrightarrow>
        evict (table_remove k t) = Inr t' \<Longrightarrow> P (table_remove k t) \<Longrightarrow> P t"
  shows "P t"
  using assms(1,2)
proof (induction "length t" arbitrary: t rule: less_induct)
  case less
  show ?case
  proof (cases "length t < bound")
    case True
    with less.prems enough show ?thesis by (auto simp: evict_unfold)
  next
    case False
    with less.prems obtain k where k: "pick t = Some k" "evict (table_remove k t) = Inr t'"
      by (auto simp: evict_unfold [of t] split: option.splits)
    have "P (table_remove k t)"
      by (rule less.hyps [OF remove_less [OF less.prems(1) k(1)] wf_table_remove [OF less.prems(1)] k(2)])
    with pick_Some [OF less.prems(1) k(1)] victim less.prems(1) k(2) show ?thesis by blast
  qed
qed

lemma evict_bound: "wf_table t \<Longrightarrow> evict t = Inr t' \<Longrightarrow> length t' < bound"
  by (induction t rule: evict_induct) auto

lemma evict_subset: "wf_table t \<Longrightarrow> evict t = Inr t' \<Longrightarrow> set t' \<subseteq> set t"
  by (induction t rule: evict_induct) (auto simp: set_table_remove)

lemma evict_wf: "wf_table t \<Longrightarrow> evict t = Inr t' \<Longrightarrow> wf_table t'"
proof (induction "length t" arbitrary: t rule: less_induct)
  case less
  then show ?case
    using remove_less [of t] less.hyps [of "table_remove _ t"]
    by (auto simp: evict_unfold [of t] split: if_splits option.splits)
qed

lemma evict_keeps:
  "wf_table t \<Longrightarrow> evict t = Inr t' \<Longrightarrow> \<forall>(k, v) \<in> set t. \<not> candidate v \<longrightarrow> (k, v) \<in> set t'"
proof (induction t rule: evict_induct)
  case (victim t x w)
  have "k \<noteq> x" if "(k, v) \<in> set t" "\<not> candidate v" for k v
    using that victim.hyps(1-3) by (metis option.inject table_get_in_set)
  with victim.IH show ?case by (auto simp: set_table_remove)
qed auto

lemma evict_oldest_first:
  "wf_table t \<Longrightarrow> evict t = Inr t' \<Longrightarrow>
     \<forall>(k, v) \<in> set t - set t'. \<forall>(k', v') \<in> set t'. candidate v' \<longrightarrow> rank k v < rank k' v'"
proof (induction t rule: evict_induct)
  case (victim t x w)
  have sub: "set t' \<subseteq> {e \<in> set t. fst e \<noteq> x}"
    using evict_subset [OF wf_table_remove [OF victim.hyps(1)] victim.hyps(5)]
    by (simp add: set_table_remove)
  have "rank k v < rank k' v'"
    if kv: "(k, v) \<in> set t - set t'" and kv': "(k', v') \<in> set t'" "candidate v'" for k v k' v'
  proof (cases "k = x")
    case True
    with kv victim.hyps(1,2) have "v = w" by (metis DiffD1 option.inject table_get_in_set)
    with True sub kv' victim.hyps(4) show ?thesis by force
  next
    case False
    with kv have "(k, v) \<in> set (table_remove x t) - set t'" by (simp add: set_table_remove)
    with kv' victim.IH show ?thesis by fast
  qed
  then show ?case by blast
qed auto

lemma evict_fails_only_without_candidates:
  "wf_table t \<Longrightarrow> evict t = Inl e \<Longrightarrow> bound \<le> card {k. \<exists>v. (k, v) \<in> set t \<and> \<not> candidate v}"
proof (induction "length t" arbitrary: t rule: less_induct)
  case less
  then have big: "\<not> length t < bound" by (auto simp: evict_unfold)
  show ?case
  proof (cases "pick t")
    case None
    have "\<forall>(k, v) \<in> set t. \<not> candidate v" by (rule pick_None [OF less.prems(1) None])
    then have "{k. \<exists>v. (k, v) \<in> set t \<and> \<not> candidate v} = fst ` set t" by force
    moreover have "card (fst ` set t) = length t"
      using less.prems(1) distinct_card [of "map fst t"] by (simp add: wf_table_def)
    ultimately show ?thesis using big by simp
  next
    case (Some x)
    with less.prems big have "evict (table_remove x t) = Inl e" by (simp add: evict_unfold [of t])
    then have "bound \<le> card {k. \<exists>v. (k, v) \<in> set (table_remove x t) \<and> \<not> candidate v}"
      using less Some remove_less by simp
    also have "\<dots> \<le> card {k. \<exists>v. (k, v) \<in> set t \<and> \<not> candidate v}"
    proof (rule card_mono)
      have "{k. \<exists>v. (k, v) \<in> set t \<and> \<not> candidate v} \<subseteq> fst ` set t" by force
      then show "finite {k. \<exists>v. (k, v) \<in> set t \<and> \<not> candidate v}" by (rule finite_subset) simp
    qed (auto simp: set_table_remove)
    finally show ?thesis .
  qed
qed

lemma evict_total: "wf_table t \<Longrightarrow> length t < bound \<Longrightarrow> evict t = Inr t"
  by (simp add: evict_unfold)

end

subsection \<open>A counted admission ceiling\<close>

text \<open>
  The daemon's connection table and the HTTP server's live-connection counter make the same
  promise: however claims and releases interleave, no more than \<open>max\<close> are held at once.
\<close>

locale admission =
  fixes claim :: "'s \<Rightarrow> 's option"
    and release :: "'s \<Rightarrow> 's"
    and active :: "'s \<Rightarrow> nat"
    and max :: nat
  assumes claim_Some: "claim s = Some s' \<Longrightarrow> active s < max \<and> active s' = Suc (active s)"
    and release_active: "active (release s) = active s - 1"

begin

definition admission_step :: "'s \<Rightarrow> bool \<Rightarrow> 's" where
  "admission_step s claims =
     (if claims then (case claim s of Some s' \<Rightarrow> s' | None \<Rightarrow> s) else release s)"

sublocale held: machine admission_step "\<lambda>s. active s \<le> max"
proof
  fix s claims assume "active s \<le> max"
  then show "active (admission_step s claims) \<le> max"
    by (cases "claim s")
       (auto simp: admission_step_def release_active dest: claim_Some)
qed

lemma never_over_ceiling: "active s \<le> max \<Longrightarrow> active (foldl admission_step s es) \<le> max"
  by (rule held.run_inv)

end

end
