(* ===== verification/Json.thy ===== *)
theory Json
  imports Prelude
begin

text \<open>
  The JSON values the program passes around (\<open>serde_json::Value\<close>), as data. Numbers keep the
  distinction the code makes: an integer that fits \<open>u64\<close> or \<open>i64\<close>, or a float, which the code
  never looks inside and which is therefore its bit pattern. An object is a list of entries in
  increasing key order, the order of the library's default map. The decoder and the printer of
  JSON text are not part of this repository and stay parameters of the definitions that call
  them.
\<close>

datatype number = JInt int | JFloat "64 word"

datatype json =
    JNull
  | JBool bool
  | JNumber number
  | JString string
  | JArray "json list"
  | JObject "(string \<times> json) list"

text \<open>\<open>Map::insert\<close> on the sorted map.\<close>

fun obj_insert :: "string \<Rightarrow> json \<Rightarrow> (string \<times> json) list \<Rightarrow> (string \<times> json) list" where
  "obj_insert k v [] = [(k, v)]"
| "obj_insert k v ((k', v') # r) =
     (if k < k' then (k, v) # (k', v') # r
      else if k = k' then (k, v) # r
      else (k', v') # obj_insert k v r)"

text \<open>\<open>Value::get\<close> by key: nothing but an object has one.\<close>

fun json_get :: "string \<Rightarrow> json \<Rightarrow> json option" where
  "json_get k (JObject fields) = map_of fields k"
| "json_get k _ = None"

text \<open>The \<open>json!\<close> macro on an object literal.\<close>

definition jobject :: "(string \<times> json) list \<Rightarrow> json" where
  "jobject kvs = JObject (foldl (\<lambda>fields (k, v). obj_insert k v fields) [] kvs)"

definition jstr :: "string \<Rightarrow> json" where
  "jstr s = JString s"

text \<open>\<open>skip_serializing_if = "Option::is_none"\<close>.\<close>

definition opt_field :: "string \<Rightarrow> json option \<Rightarrow> (string \<times> json) list" where
  "opt_field k m = (case m of None \<Rightarrow> [] | Some v \<Rightarrow> [(k, v)])"

lemma opt_field_simps [simp]: "opt_field k None = []" "opt_field k (Some v) = [(k, v)]"
  by (simp_all add: opt_field_def)

lemma map_of_obj_insert [table_simps]: "map_of (obj_insert k v r) = (map_of r)(k \<mapsto> v)"
proof (induction r)
  case Nil
  show ?case by simp
next
  case (Cons e r)
  then show ?case by (cases e) (auto simp: fun_upd_twist)
qed

lemma map_of_foldl_insert:
  "map_of (foldl (\<lambda>fields (k, v). obj_insert k v fields) r kvs) = map_of r ++ map_of (rev kvs)"
proof (induction kvs arbitrary: r)
  case Nil
  show ?case by simp
next
  case (Cons e kvs)
  obtain k v where e: "e = (k, v)" by (cases e)
  have "map_of (foldl (\<lambda>fields (k, v). obj_insert k v fields) r (e # kvs))
      = map_of (obj_insert k v r) ++ map_of (rev kvs)"
    using Cons by (simp add: e)
  also have "\<dots> = map_of r ++ map_of (rev (e # kvs))"
    by (simp add: e map_of_obj_insert map_add_def fun_eq_iff split: option.splits)
  finally show ?case .
qed

lemma json_get_jobject [simp]:
  "json_get k (jobject kvs) = map_of (rev kvs) k"
  by (simp add: jobject_def map_of_foldl_insert)

text \<open>The sorted-entries invariant, kept by insertion.\<close>

definition sorted_fields :: "(string \<times> json) list \<Rightarrow> bool" where
  "sorted_fields fields \<longleftrightarrow> sorted_wrt (<) (map fst fields)"

lemma set_obj_insert: "fst ` set (obj_insert k v r) = insert k (fst ` set r)"
  by (induction r rule: obj_insert.induct) (simp_all add: insert_commute)

lemma sorted_fields_obj_insert:
  "sorted_fields r \<Longrightarrow> sorted_fields (obj_insert k v r)"
proof (induction r)
  case Nil
  show ?case by (simp add: sorted_fields_def)
next
  case (Cons e r)
  obtain k' v' where e: "e = (k', v')" by (cases e)
  from Cons.prems e have r: "sorted_fields r" and lt: "\<forall>x \<in> fst ` set r. k' < x"
    by (auto simp: sorted_fields_def)
  have "sorted_fields (obj_insert k v r)" by (rule Cons.IH [OF r])
  moreover have "\<forall>x \<in> fst ` set (obj_insert k v r). x = k \<or> k' < x"
    using lt set_obj_insert [of k v r] by auto
  ultimately show ?case
    using Cons.prems lt e by (auto simp: sorted_fields_def)
qed

end
