(* ===== verification/JsonRpc.thy ===== *)
theory JsonRpc
  imports Json
begin

text \<open>
  The JSON-RPC envelope and the error taxonomy (\<open>types/jsonrpc.rs\<close>, \<open>types/error.rs\<close>): ids,
  requests, responses and notifications, their wire form, the classification of a JSON value as
  one of them, and the mapping of every program error to a JSON-RPC error object. The derived
  deserializers are written out from the structs they are derived for: fields in the order a
  sorted object delivers them, \<open>Option\<close> fields absent or null, \<open>default\<close> fields absent,
  unknown keys ignored. The wording of a deserialization complaint belongs to the JSON library,
  so it is a parameter (\<open>render\<close>); so is the decoder of JSON text (\<open>from_str\<close>).
\<close>

section \<open>Ids, messages, errors\<close>

datatype request_id = IdNumber int | IdString string | IdNull

record jsonrpc_error =
  code :: int
  message :: string
  data :: "json option"

text \<open>
  The \<open>jsonrpc\<close> field of the three structs is left out: its type admits the value
  \<^verbatim>\<open>2.0\<close> only, by construction and by its deserializer.
\<close>

record jsonrpc_request =
  rq_id :: request_id
  rq_method :: string
  rq_params :: "json option"

record jsonrpc_response =
  rs_id :: request_id
  rs_result :: "json option"
  rs_error :: "jsonrpc_error option"

record jsonrpc_notification =
  nt_method :: string
  nt_params :: "json option"

datatype jsonrpc_message =
    Request jsonrpc_request
  | Notification jsonrpc_notification
  | Response jsonrpc_response

datatype mcp_error =
    Io string
  | Json string
  | TransportClosed
  | Timeout string
  | InvalidMessage string
  | InvalidRequest request_id string
  | MethodNotFound string
  | InvalidParams string
  | Internal string
  | ToolError string
  | ResourceNotFound string
  | PromptNotFound string
  | Passthrough jsonrpc_error
  | Auth string

type_synonym 'a result = "mcp_error + 'a"

definition JSONRPC_VERSION :: string where
  "JSONRPC_VERSION = ''2.0''"

text \<open>\<open>Display for RequestId\<close>.\<close>

fun show_request_id :: "request_id \<Rightarrow> string" where
  "show_request_id (IdNumber n) = show_int n"
| "show_request_id (IdString s) = s"
| "show_request_id IdNull = ''null''"

section \<open>Constructors\<close>

definition request :: "request_id \<Rightarrow> string \<Rightarrow> json option \<Rightarrow> jsonrpc_message" where
  "request i m ps = Request \<lparr>rq_id = i, rq_method = m, rq_params = ps\<rparr>"

definition response :: "request_id \<Rightarrow> json \<Rightarrow> jsonrpc_message" where
  "response i r = Response \<lparr>rs_id = i, rs_result = Some r, rs_error = None\<rparr>"

definition error :: "request_id \<Rightarrow> jsonrpc_error \<Rightarrow> jsonrpc_message" where
  "error i e = Response \<lparr>rs_id = i, rs_result = None, rs_error = Some e\<rparr>"

definition notification :: "string \<Rightarrow> json option \<Rightarrow> jsonrpc_message" where
  "notification m ps = Notification \<lparr>nt_method = m, nt_params = ps\<rparr>"

definition new_error :: "int \<Rightarrow> string \<Rightarrow> jsonrpc_error" where
  "new_error c m = \<lparr>code = c, message = m, data = None\<rparr>"

definition with_data :: "jsonrpc_error \<Rightarrow> json \<Rightarrow> jsonrpc_error" where
  "with_data e d = e\<lparr>data := Some d\<rparr>"

definition parse_error :: "string \<Rightarrow> jsonrpc_error" where
  "parse_error m = new_error (-32700) m"

definition invalid_request :: "string \<Rightarrow> jsonrpc_error" where
  "invalid_request m = new_error (-32600) m"

definition method_not_found :: "string \<Rightarrow> jsonrpc_error" where
  "method_not_found m = new_error (-32601) m"

definition invalid_params :: "string \<Rightarrow> jsonrpc_error" where
  "invalid_params m = new_error (-32602) m"

definition internal_error :: "string \<Rightarrow> jsonrpc_error" where
  "internal_error m = new_error (-32603) m"

lemmas error_constructors = new_error_def with_data_def parse_error_def invalid_request_def
  method_not_found_def invalid_params_def internal_error_def

section \<open>Errors on the wire\<close>

definition RESOURCE_NOT_FOUND :: int where
  "RESOURCE_NOT_FOUND = -32002"

definition AUTH_ERROR :: int where
  "AUTH_ERROR = -32003"

definition TIMEOUT_REASON :: string where
  "TIMEOUT_REASON = ''timeout''"

definition OVERLOADED_REASON :: string where
  "OVERLOADED_REASON = ''overloaded''"

fun to_jsonrpc_error :: "mcp_error \<Rightarrow> jsonrpc_error" where
  "to_jsonrpc_error (Json e) = parse_error e"
| "to_jsonrpc_error (InvalidMessage msg) = invalid_request msg"
| "to_jsonrpc_error (InvalidRequest i msg) = invalid_request msg"
| "to_jsonrpc_error (MethodNotFound m) = method_not_found (''Method not found: '' @ m)"
| "to_jsonrpc_error (InvalidParams msg) = invalid_params msg"
| "to_jsonrpc_error (Internal msg) = internal_error msg"
| "to_jsonrpc_error (ToolError msg) = new_error (-32000) msg"
| "to_jsonrpc_error (ResourceNotFound uri) =
     with_data (new_error RESOURCE_NOT_FOUND (''Resource not found: '' @ uri))
       (jobject [(''uri'', JString uri)])"
| "to_jsonrpc_error (PromptNotFound name) =
     with_data (invalid_params (''Prompt not found: '' @ name)) (jobject [(''name'', JString name)])"
| "to_jsonrpc_error (Passthrough e) = e"
| "to_jsonrpc_error (Io e) = internal_error e"
| "to_jsonrpc_error TransportClosed = internal_error ''Transport closed''"
| "to_jsonrpc_error (Timeout msg) =
     with_data (internal_error (''Timed out: '' @ msg))
       (jobject [(''reason'', JString TIMEOUT_REASON)])"
| "to_jsonrpc_error (Auth msg) = new_error AUTH_ERROR (''Auth error: '' @ msg)"

text \<open>\<open>Display for McpError\<close>, from the \<open>thiserror\<close> attributes.\<close>

fun show_error :: "mcp_error \<Rightarrow> string" where
  "show_error (Io e) = ''IO error: '' @ e"
| "show_error (Json e) = ''JSON error: '' @ e"
| "show_error TransportClosed = ''Transport closed''"
| "show_error (Timeout m) = ''Timed out: '' @ m"
| "show_error (InvalidMessage m) = ''Invalid message: '' @ m"
| "show_error (InvalidRequest i m) = ''Invalid message: '' @ m"
| "show_error (MethodNotFound m) = ''Method not found: '' @ m"
| "show_error (InvalidParams m) = ''Invalid params: '' @ m"
| "show_error (Internal m) = ''Internal error: '' @ m"
| "show_error (ToolError m) = ''Tool error: '' @ m"
| "show_error (ResourceNotFound m) = ''Resource not found: '' @ m"
| "show_error (PromptNotFound m) = ''Prompt not found: '' @ m"
| "show_error (Passthrough e) = message e"
| "show_error (Auth m) = ''Auth error: '' @ m"

section \<open>Serialization\<close>

fun id_to_value :: "request_id \<Rightarrow> json" where
  "id_to_value (IdNumber n) = JNumber (JInt n)"
| "id_to_value (IdString s) = JString s"
| "id_to_value IdNull = JNull"

definition error_to_value :: "jsonrpc_error \<Rightarrow> json" where
  "error_to_value e =
     jobject ([(''code'', JNumber (JInt (code e))), (''message'', JString (message e))]
              @ opt_field ''data'' (data e))"

definition version_field :: "string \<times> json" where
  "version_field = (''jsonrpc'', JString JSONRPC_VERSION)"

fun message_to_value :: "jsonrpc_message \<Rightarrow> json" where
  "message_to_value (Request r) =
     jobject ([(''id'', id_to_value (rq_id r)), (''method'', JString (rq_method r))]
              @ opt_field ''params'' (rq_params r) @ [version_field])"
| "message_to_value (Notification n) =
     jobject ([(''method'', JString (nt_method n))]
              @ opt_field ''params'' (nt_params n) @ [version_field])"
| "message_to_value (Response r) =
     jobject ([(''id'', id_to_value (rs_id r))] @ opt_field ''result'' (rs_result r)
              @ opt_field ''error'' (map_option error_to_value (rs_error r)) @ [version_field])"

section \<open>Deserialization\<close>

text \<open>What a derived deserializer can complain about.\<close>

datatype de_error =
    MissingField string
  | InvalidType string
  | InvalidLength nat
  | UnsupportedVersion string

text \<open>
  A derived struct reads an object, or an array of its fields in declaration order: that one has
  at least the fields up to the last without a \<open>default\<close> and no more than the struct. The
  result is the object the field readers below look into.
\<close>

definition as_struct :: "string list \<Rightarrow> nat \<Rightarrow> json \<Rightarrow> de_error + json" where
  "as_struct names least v =
     (case v of
        JObject _ \<Rightarrow> Inr v
      | JArray xs \<Rightarrow>
          if least \<le> length xs \<and> length xs \<le> length names then Inr (JObject (zip names xs))
          else Inl (InvalidLength (length xs))
      | _ \<Rightarrow> Inl (InvalidType ''struct''))"

text \<open>
  \<open>RequestId\<close> is untagged: an integer that fits \<open>i64\<close>, a string, or null; a float or a larger
  integer matches no variant.
\<close>

fun request_id_of :: "json \<Rightarrow> request_id option" where
  "request_id_of (JNumber (JInt n)) =
     (if - (2 ^ 63) \<le> n \<and> n < 2 ^ 63 then Some (IdNumber n) else None)"
| "request_id_of (JString s) = Some (IdString s)"
| "request_id_of JNull = Some IdNull"
| "request_id_of _ = None"

text \<open>\<open>impl Deserialize for JsonRpcVersion\<close>, and \<open>#[serde(default)]\<close> on the field.\<close>

definition version_of :: "json \<Rightarrow> de_error + unit" where
  "version_of v =
     (case json_get ''jsonrpc'' v of
        None \<Rightarrow> Inr ()
      | Some (JString s) \<Rightarrow>
          if s = JSONRPC_VERSION then Inr () else Inl (UnsupportedVersion s)
      | Some _ \<Rightarrow> Inl (InvalidType ''jsonrpc''))"

text \<open>An \<open>Option<Value>\<close> field: null reads as absent.\<close>

definition optional_value :: "string \<Rightarrow> json \<Rightarrow> json option" where
  "optional_value k v =
     (case json_get k v of None \<Rightarrow> None | Some JNull \<Rightarrow> None | Some x \<Rightarrow> Some x)"

definition id_field :: "json \<Rightarrow> de_error + request_id option" where
  "id_field v =
     (case json_get ''id'' v of
        None \<Rightarrow> Inr None
      | Some x \<Rightarrow>
          (case request_id_of x of
             None \<Rightarrow> Inl (InvalidType ''id'') | Some i \<Rightarrow> Inr (Some i)))"

definition string_field :: "string \<Rightarrow> json \<Rightarrow> de_error + string option" where
  "string_field k v =
     (case json_get k v of
        None \<Rightarrow> Inr None
      | Some (JString s) \<Rightarrow> Inr (Some s)
      | Some _ \<Rightarrow> Inl (InvalidType k))"

definition required :: "string \<Rightarrow> 'a option \<Rightarrow> de_error + 'a" where
  "required k m = ok_or (MissingField k) m"

definition request_of :: "json \<Rightarrow> de_error + jsonrpc_request" where
  "request_of v =
     and_then (id_field v) (\<lambda>i. and_then (version_of v) (\<lambda>_.
     and_then (string_field ''method'' v) (\<lambda>m.
     and_then (required ''id'' i) (\<lambda>i. and_then (required ''method'' m) (\<lambda>m.
       Inr \<lparr>rq_id = i, rq_method = m, rq_params = optional_value ''params'' v\<rparr>)))))"

definition notification_of :: "json \<Rightarrow> de_error + jsonrpc_notification" where
  "notification_of v =
     and_then (version_of v) (\<lambda>_. and_then (string_field ''method'' v) (\<lambda>m.
     and_then (required ''method'' m) (\<lambda>m.
       Inr \<lparr>nt_method = m, nt_params = optional_value ''params'' v\<rparr>)))"

text \<open>\<open>JsonRpcError\<close>: an \<open>i32\<close> code, a message, optional data.\<close>

definition code_field :: "json \<Rightarrow> de_error + int option" where
  "code_field v =
     (case json_get ''code'' v of
        None \<Rightarrow> Inr None
      | Some (JNumber (JInt n)) \<Rightarrow>
          if - (2 ^ 31) \<le> n \<and> n < 2 ^ 31 then Inr (Some n) else Inl (InvalidType ''code'')
      | Some _ \<Rightarrow> Inl (InvalidType ''code''))"

definition error_of :: "json \<Rightarrow> de_error + jsonrpc_error" where
  "error_of v =
     and_then (as_struct [''code'', ''message'', ''data''] 3 v) (\<lambda>v.
     and_then (code_field v) (\<lambda>c. and_then (string_field ''message'' v) (\<lambda>m.
     and_then (required ''code'' c) (\<lambda>c. and_then (required ''message'' m) (\<lambda>m.
       Inr \<lparr>code = c, message = m, data = optional_value ''data'' v\<rparr>)))))"

definition error_field :: "json \<Rightarrow> de_error + jsonrpc_error option" where
  "error_field v =
     (case json_get ''error'' v of
        None \<Rightarrow> Inr None
      | Some JNull \<Rightarrow> Inr None
      | Some x \<Rightarrow> map_ok Some (error_of x))"

definition response_of :: "json \<Rightarrow> de_error + jsonrpc_response" where
  "response_of v =
     and_then (error_field v) (\<lambda>e. and_then (id_field v) (\<lambda>i. and_then (version_of v) (\<lambda>_.
     and_then (required ''id'' i) (\<lambda>i.
       Inr \<lparr>rs_id = i, rs_result = optional_value ''result'' v, rs_error = e\<rparr>))))"

section \<open>Classification\<close>

fun type_name_of :: "json \<Rightarrow> string" where
  "type_name_of JNull = ''null''"
| "type_name_of (JBool _) = ''a boolean''"
| "type_name_of (JNumber _) = ''a number''"
| "type_name_of (JString _) = ''a string''"
| "type_name_of (JArray _) = ''an array''"
| "type_name_of (JObject _) = ''an object''"

definition from_value :: "(de_error \<Rightarrow> string) \<Rightarrow> json \<Rightarrow> jsonrpc_message result" where
  "from_value render v =
     (case v of
        JObject kvs \<Rightarrow>
          (case (map_of kvs ''method'', map_of kvs ''id'') of
             (Some _, Some JNull) \<Rightarrow> Inl (InvalidMessage ''request id must not be null'')
           | (Some _, Some i) \<Rightarrow>
               (case request_id_of i of
                  None \<Rightarrow> Inl (InvalidMessage ''request id must be a string or an integer'')
                | Some i \<Rightarrow>
                    (case request_of v of
                       Inl e \<Rightarrow> Inl (InvalidRequest i (''invalid request: '' @ render e))
                     | Inr r \<Rightarrow> Inr (Request r)))
           | (Some _, None) \<Rightarrow>
               (case notification_of v of
                  Inl e \<Rightarrow> Inl (InvalidMessage (''invalid notification: '' @ render e))
                | Inr n \<Rightarrow> Inr (Notification n))
           | (None, Some _) \<Rightarrow>
               (case response_of v of
                  Inl e \<Rightarrow> Inl (InvalidMessage (''invalid response: '' @ render e))
                | Inr r \<Rightarrow> Inr (Response r))
           | (None, None) \<Rightarrow>
               Inl (InvalidMessage (''a JSON-RPC message needs either `method` '' @
                 ''(request/notification) or `id` (response)'')))
      | _ \<Rightarrow> Inl (InvalidMessage (''a JSON-RPC message must be a JSON object, got '' @ type_name_of v)))"

definition parse :: "(string \<Rightarrow> string + json) \<Rightarrow> (de_error \<Rightarrow> string) \<Rightarrow> string \<Rightarrow>
    jsonrpc_message result" where
  "parse from_str render t =
     (if starts_with ''['' (trim_start t)
      then Inl (InvalidMessage (''JSON-RPC batching is not supported; send a single request, '' @
        ''notification, or response per message''))
      else (case from_str t of Inl e \<Rightarrow> Inl (Json e) | Inr v \<Rightarrow> from_value render v))"

section \<open>Properties\<close>

lemmas field_defs = id_field_def version_of_def version_field_def string_field_def
  optional_value_def required_def code_field_def error_field_def

lemma json_get_JObject_jobject:
  "jobject kvs = JObject fs \<Longrightarrow> map_of fs k = map_of (rev kvs) k"
  using json_get_jobject [of k kvs] by simp

lemma jobject_is_object: "\<exists>fs. jobject kvs = JObject fs"
  by (simp add: jobject_def)

text \<open>A message the program can hold: every number in its Rust range, and no null where a
  missing field and a null are the same thing on the wire.\<close>

fun wf_id :: "request_id \<Rightarrow> bool" where
  "wf_id (IdNumber n) \<longleftrightarrow> - (2 ^ 63) \<le> n \<and> n < 2 ^ 63"
| "wf_id _ \<longleftrightarrow> True"

definition wf_error :: "jsonrpc_error \<Rightarrow> bool" where
  "wf_error e \<longleftrightarrow> - (2 ^ 31) \<le> code e \<and> code e < 2 ^ 31 \<and> data e \<noteq> Some JNull"

fun wf_message :: "jsonrpc_message \<Rightarrow> bool" where
  "wf_message (Request r) \<longleftrightarrow>
     wf_id (rq_id r) \<and> rq_id r \<noteq> IdNull \<and> rq_params r \<noteq> Some JNull"
| "wf_message (Notification n) \<longleftrightarrow> nt_params n \<noteq> Some JNull"
| "wf_message (Response r) \<longleftrightarrow>
     wf_id (rs_id r) \<and> rs_result r \<noteq> Some JNull \<and> (\<forall>e. rs_error r = Some e \<longrightarrow> wf_error e)"

lemma request_id_of_id_to_value: "wf_id i \<Longrightarrow> request_id_of (id_to_value i) = Some i"
  by (cases i) auto

lemma id_to_value_JNull: "id_to_value i = JNull \<longleftrightarrow> i = IdNull"
  by (cases i) auto

lemma error_to_value_object: "\<exists>fs. error_to_value e = JObject fs"
  by (simp add: error_to_value_def jobject_is_object)

lemma json_get_error_to_value:
  "json_get ''code'' (error_to_value e) = Some (JNumber (JInt (code e)))"
  "json_get ''message'' (error_to_value e) = Some (JString (message e))"
  "json_get ''data'' (error_to_value e) = data e"
  by (cases "data e"; simp add: error_to_value_def)+

lemma error_of_error_to_value:
  assumes "wf_error e"
  shows "error_of (error_to_value e) = Inr e"
proof -
  obtain fs where fs: "error_to_value e = JObject fs" using error_to_value_object by blast
  have "code_field (error_to_value e) = Inr (Some (code e))"
    using assms by (simp add: code_field_def json_get_error_to_value wf_error_def)
  moreover have "string_field ''message'' (error_to_value e) = Inr (Some (message e))"
    by (simp add: string_field_def json_get_error_to_value)
  moreover have "optional_value ''data'' (error_to_value e) = data e"
    using assms
    by (auto simp: optional_value_def json_get_error_to_value wf_error_def split: option.splits json.splits)
  ultimately show ?thesis
    by (simp add: error_of_def as_struct_def fs required_def)
qed

lemma optional_value_eq:
  "json_get k v = m \<Longrightarrow> m \<noteq> Some JNull \<Longrightarrow> optional_value k v = m"
  by (auto simp: optional_value_def split: option.splits json.splits)

lemma from_value_request:
  assumes "wf_message (Request r)"
  shows "from_value render (message_to_value (Request r)) = Inr (Request r)"
proof -
  define v where "v = message_to_value (Request r)"
  obtain fs where fs: "v = JObject fs" using jobject_is_object by (auto simp: v_def)
  have get: "json_get ''id'' v = Some (id_to_value (rq_id r))"
    "json_get ''method'' v = Some (JString (rq_method r))"
    "json_get ''params'' v = rq_params r"
    "json_get ''jsonrpc'' v = Some (JString JSONRPC_VERSION)"
    by (cases "rq_params r"; simp add: v_def version_field_def)+
  have "request_of v = Inr r"
    using assms optional_value_eq [OF get(3)]
    by (simp add: request_of_def id_field_def version_of_def string_field_def required_def get
        request_id_of_id_to_value)
  moreover have "map_of fs ''method'' = Some (JString (rq_method r))"
    "map_of fs ''id'' = Some (id_to_value (rq_id r))"
    using get(1,2) by (simp_all only: fs json_get.simps)
  ultimately show ?thesis
    unfolding v_def [symmetric] using assms request_id_of_id_to_value [of "rq_id r"]
    by (cases "rq_id r") (simp_all add: from_value_def fs)
qed

lemma from_value_notification:
  assumes "wf_message (Notification n)"
  shows "from_value render (message_to_value (Notification n)) = Inr (Notification n)"
proof -
  define v where "v = message_to_value (Notification n)"
  obtain fs where fs: "v = JObject fs" using jobject_is_object by (auto simp: v_def)
  have get: "json_get ''id'' v = None"
    "json_get ''method'' v = Some (JString (nt_method n))"
    "json_get ''params'' v = nt_params n"
    "json_get ''jsonrpc'' v = Some (JString JSONRPC_VERSION)"
    by (cases "nt_params n"; simp add: v_def version_field_def)+
  have "notification_of v = Inr n"
    using assms optional_value_eq [OF get(3)]
    by (simp add: notification_of_def version_of_def string_field_def required_def get)
  moreover have "map_of fs ''method'' = Some (JString (nt_method n))" "map_of fs ''id'' = None"
    using get(1,2) by (simp_all only: fs json_get.simps)
  ultimately show ?thesis unfolding v_def [symmetric] by (simp add: from_value_def fs)
qed

lemma from_value_response:
  assumes "wf_message (Response r)"
  shows "from_value render (message_to_value (Response r)) = Inr (Response r)"
proof -
  define v where "v = message_to_value (Response r)"
  obtain fs where fs: "v = JObject fs" using jobject_is_object by (auto simp: v_def)
  have get: "json_get ''id'' v = Some (id_to_value (rs_id r))"
    "json_get ''method'' v = None"
    "json_get ''result'' v = rs_result r"
    "json_get ''error'' v = map_option error_to_value (rs_error r)"
    "json_get ''jsonrpc'' v = Some (JString JSONRPC_VERSION)"
    by (cases "rs_result r"; cases "rs_error r"; simp add: v_def version_field_def)+
  have "error_field v = Inr (rs_error r)"
  proof (cases "rs_error r")
    case (Some e)
    obtain es where "error_to_value e = JObject es" using error_to_value_object by blast
    moreover have "error_of (error_to_value e) = Inr e"
      using assms Some by (simp add: error_of_error_to_value)
    ultimately show ?thesis by (simp add: error_field_def get(4) Some)
  qed (simp add: error_field_def get(4))
  then have "response_of v = Inr r"
    using assms optional_value_eq [OF get(3)]
    by (simp add: response_of_def id_field_def version_of_def required_def get
        request_id_of_id_to_value)
  moreover have "map_of fs ''method'' = None" "map_of fs ''id'' = Some (id_to_value (rs_id r))"
    using get(1,2) by (simp_all only: fs json_get.simps)
  ultimately show ?thesis unfolding v_def [symmetric] by (simp add: from_value_def fs)
qed

text \<open>what one side serializes the other classifies back as the same message: a request
  stays a request, a notification a notification and a response a response, with every field
  intact.\<close>

theorem from_value_to_value:
  "wf_message m \<Longrightarrow> from_value render (message_to_value m) = Inr m"
  by (cases m) (simp_all only: from_value_request from_value_notification from_value_response)

theorem from_value_to_value_witness:
  "from_value (\<lambda>_. ''?'')
     (message_to_value (request (IdNumber 7) ''tools/list'' (Some (jobject [(''cursor'', JString ''MQ'')]))))
   = Inr (request (IdNumber 7) ''tools/list'' (Some (jobject [(''cursor'', JString ''MQ'')])))"
  unfolding request_def
  by (rule from_value_to_value) (simp add: jobject_def)

lemma from_value_request_branch:
  assumes "map_of kvs ''method'' = Some m" and "map_of kvs ''id'' = Some j"
    and "request_id_of j = Some i" and "i \<noteq> IdNull"
  shows "from_value render (JObject kvs) =
    (case request_of (JObject kvs) of
       Inl e \<Rightarrow> Inl (InvalidRequest i (''invalid request: '' @ render e))
     | Inr r \<Rightarrow> Inr (Request r))"
  using assms by (cases j) (auto simp: from_value_def)

lemma request_of_keeps_id:
  "request_of v = Inr r \<Longrightarrow> json_get ''id'' v = Some j \<Longrightarrow> request_id_of j = Some i \<Longrightarrow> rq_id r = i"
  by (auto simp: request_of_def and_then_Inr_iff id_field_def required_def ok_or_eq_iff)

text \<open>a request whose id can be read is never answered without it. Whatever else is wrong
  with the message (a wrong protocol version, a method that is not a string), the outcome is
  either a request carrying that id or an error carrying that id; it is never downgraded to a
  notification or to an error with a null id.\<close>

theorem from_value_keeps_id:
  assumes "map_of kvs ''method'' = Some m" and "map_of kvs ''id'' = Some j"
    and "request_id_of j = Some i" and "i \<noteq> IdNull"
  shows "(\<exists>r. from_value render (JObject kvs) = Inr (Request r) \<and> rq_id r = i) \<or>
         (\<exists>msg. from_value render (JObject kvs) = Inl (InvalidRequest i msg))"
proof (cases "request_of (JObject kvs)")
  case (Inl e)
  then show ?thesis by (simp add: from_value_request_branch [OF assms])
next
  case (Inr r)
  then have "rq_id r = i" using assms(2,3) by (auto intro: request_of_keeps_id)
  with Inr show ?thesis by (simp add: from_value_request_branch [OF assms])
qed

theorem from_value_keeps_id_witness:
  "(\<exists>r. from_value (\<lambda>_. ''?'')
        (JObject [(''id'', JNumber (JInt 3)), (''method'', JNumber (JInt 123))]) = Inr (Request r)
      \<and> rq_id r = IdNumber 3) \<or>
   (\<exists>msg. from_value (\<lambda>_. ''?'')
        (JObject [(''id'', JNumber (JInt 3)), (''method'', JNumber (JInt 123))])
      = Inl (InvalidRequest (IdNumber 3) msg))"
  by (rule from_value_keeps_id [where j = "JNumber (JInt 3)"]) simp_all

lemma from_value_error:
  "from_value render v = Inl e \<Longrightarrow> (\<exists>m. e = InvalidMessage m) \<or> (\<exists>i m. e = InvalidRequest i m)"
  by (auto simp: from_value_def split: json.splits option.splits sum.splits)

text \<open>the two error classes of the parser stay apart on the wire. Text that is not JSON is
  answered with \<open>-32700\<close>, and only that is; JSON that is not a message, a batch included, is
  answered with \<open>-32600\<close>.\<close>

theorem parse_error_codes:
  assumes "parse from_str render t = Inl e"
  shows "code (to_jsonrpc_error e) =
    (if \<not> starts_with ''['' (trim_start t) \<and> (\<exists>m. from_str t = Inl m) then -32700 else -32600)"
proof (cases "starts_with ''['' (trim_start t)")
  case True
  with assms show ?thesis by (auto simp: parse_def error_constructors)
next
  case False
  show ?thesis
  proof (cases "from_str t")
    case (Inl m)
    with assms False show ?thesis by (auto simp: parse_def error_constructors)
  next
    case (Inr v)
    with assms False have "from_value render v = Inl e" by (simp add: parse_def)
    with Inr False show ?thesis by (auto dest!: from_value_error simp: error_constructors)
  qed
qed

theorem parse_error_codes_witness:
  "code (to_jsonrpc_error (InvalidMessage ''a JSON-RPC message must be a JSON object, got null''))
   = -32600"
proof -
  have nb: "\<not> starts_with ''['' (trim_start ''null'')" by code_simp
  have "parse (\<lambda>_. Inr JNull) (\<lambda>_. ''?'') ''null''
      = Inl (InvalidMessage ''a JSON-RPC message must be a JSON object, got null'')"
    using nb by (simp add: parse_def from_value_def)
  from parse_error_codes [OF this] show ?thesis by simp
qed

text \<open>resource-not-found is the only error of the program with code \<open>-32002\<close>; the one
  other way to send it is to replay a task's own error verbatim.\<close>

theorem resource_not_found_code:
  "code (to_jsonrpc_error e) = RESOURCE_NOT_FOUND \<longleftrightarrow>
     (\<exists>uri. e = ResourceNotFound uri) \<or>
     (\<exists>err. e = Passthrough err \<and> code err = RESOURCE_NOT_FOUND)"
  by (cases e) (auto simp: error_constructors RESOURCE_NOT_FOUND_def AUTH_ERROR_def)

end
