(* ===== verification/Tasks.thy ===== *)
theory Tasks
  imports JsonRpc
begin

text \<open>
  The task store (\<open>tasks.rs\<close>): records of background work with a lifecycle, an owner, a
  lifetime and an outcome. The store is the locked table plus the heap of cancellation flags the
  records share with their workers (an \<open>Arc<AtomicBool>\<close> is an index into \<open>flags\<close>); every
  operation returns its result and the store it leaves behind, error paths included. Clock
  readings and entropy are arguments, in the order the code takes them; the condition variable
  carries no state, so signalling it does not appear. A \<open>SystemTime\<close> is in nanoseconds since the
  Unix epoch. The properties: the lifecycle is a state machine whose terminal states absorb, the
  ceilings on running and on retained tasks hold at all times, requestors are isolated, lifetimes
  are clamped, eviction spares running work and drops the oldest finished task first, and
  waiting with a deadline ends.
\<close>

section \<open>Data\<close>

definition RELATED_TASK :: string where
  "RELATED_TASK = ''io.modelcontextprotocol/related-task''"

definition MODEL_IMMEDIATE_RESPONSE :: string where
  "MODEL_IMMEDIATE_RESPONSE = ''io.modelcontextprotocol/model-immediate-response''"

datatype task_status = Working | InputRequired | Completed | Failed | Cancelled

fun is_terminal :: "task_status \<Rightarrow> bool" where
  "is_terminal Completed = True"
| "is_terminal Failed = True"
| "is_terminal Cancelled = True"
| "is_terminal _ = False"

fun can_transition_to :: "task_status \<Rightarrow> task_status \<Rightarrow> bool" where
  "can_transition_to Working nxt = (nxt \<noteq> Working)"
| "can_transition_to InputRequired nxt = (nxt \<noteq> InputRequired)"
| "can_transition_to _ nxt = False"

type_synonym system_time = int

record task =
  task_id :: string
  status :: task_status
  status_message :: "string option"
  created_at :: string
  last_updated_at :: string
  ttl :: "nat option"
  poll_interval :: "nat option"

record task_config =
  default_ttl_ms :: nat
  max_ttl_ms :: nat
  poll_interval_ms :: nat
  max_concurrent :: nat
  max_records :: nat

definition default_task_config :: task_config where
  "default_task_config = \<lparr>default_ttl_ms = 300000, max_ttl_ms = 3600000, poll_interval_ms = 1000,
     max_concurrent = 16, max_records = 1024\<rparr>"

datatype task_outcome = Value json | Error jsonrpc_error

record task_record =
  rtask :: task
  outcome :: "task_outcome option"
  created :: system_time
  cancelled :: nat
  owner :: "string option"

record task_store =
  inner :: "(string, task_record) table"
  flags :: "bool list"
  config :: task_config
  poisoned :: bool

abbreviation rstatus :: "task_record \<Rightarrow> task_status" where
  "rstatus r \<equiv> status (rtask r)"

definition belongs_to :: "task_record \<Rightarrow> string option \<Rightarrow> bool" where
  "belongs_to r requestor \<longleftrightarrow> owner r = requestor"

text \<open>A clock that went backwards (\<open>duration_since\<close> fails) expires nothing.\<close>

definition expired :: "task_record \<Rightarrow> system_time \<Rightarrow> bool" where
  "expired r now =
     (case ttl (rtask r) of
        None \<Rightarrow> False
      | Some t \<Rightarrow> created r \<le> now \<and> now - created r \<ge> int t * 1000000)"

section \<open>Identifiers and timestamps\<close>

text \<open>\<open>random_bytes\<close> draws 16 bytes from the platform; they are an argument here.\<close>

definition random_hex_id :: "8 word list \<Rightarrow> string" where
  "random_hex_id bs = concat (map show_hex_byte bs)"

definition new_task_id :: "8 word list \<Rightarrow> string" where
  "new_task_id bs = random_hex_id bs"

text \<open>Rust's \<open>/\<close> on \<open>i64\<close> truncates towards zero; the divisors here are positive.\<close>

definition quot :: "int \<Rightarrow> int \<Rightarrow> int" where
  "quot a b = (if a < 0 then - ((- a) div b) else a div b)"

definition civil_from_days :: "int \<Rightarrow> int \<times> nat \<times> nat" where
  "civil_from_days days =
     (let z = days + 719468;
          era = quot (if z \<ge> 0 then z else z - 146096) 146097;
          doe = z - era * 146097;
          yoe = quot (doe - quot doe 1460 + quot doe 36524 - quot doe 146096) 365;
          y = yoe + era * 400;
          doy = doe - (365 * yoe + quot yoe 4 - quot yoe 100);
          mp = quot (5 * doy + 2) 153;
          d = nat (doy - quot (153 * mp + 2) 5 + 1);
          m = nat (if mp < 10 then mp + 3 else mp - 9)
      in (if m \<le> 2 then y + 1 else y, m, d))"

definition iso8601 :: "system_time \<Rightarrow> string" where
  "iso8601 time =
     (let total_secs = (if 0 \<le> time then time div 1000000000 else 0);
          days = total_secs div 86400;
          seconds_of_day = total_secs mod 86400;
          (year, month, day) = civil_from_days days
      in show_padded 4 (nat year) @ ''-'' @ show_padded 2 month @ ''-'' @ show_padded 2 day @ ''T'' @
         show_padded 2 (nat (seconds_of_day div 3600)) @ '':'' @
         show_padded 2 (nat (seconds_of_day mod 3600 div 60)) @ '':'' @
         show_padded 2 (nat (seconds_of_day mod 60)) @ ''Z'')"

definition not_found :: "string \<Rightarrow> mcp_error" where
  "not_found tid = InvalidParams (''Failed to retrieve task: Task not found: '' @ tid)"

fun status_name :: "task_status \<Rightarrow> string" where
  "status_name Working = ''working''"
| "status_name InputRequired = ''input_required''"
| "status_name Completed = ''completed''"
| "status_name Failed = ''failed''"
| "status_name Cancelled = ''cancelled''"

definition related_task_meta :: "string \<Rightarrow> json" where
  "related_task_meta tid = jobject [(RELATED_TASK, jobject [(''taskId'', JString tid)])]"

section \<open>The store\<close>

definition new_store :: "task_config \<Rightarrow> task_store" where
  "new_store c = \<lparr>inner = [], flags = [], config = c, poisoned = False\<rparr>"

definition lock :: "task_store \<Rightarrow> (string, task_record) table result" where
  "lock s = (if poisoned s then Inl (Internal ''Task store lock poisoned'') else Inr (inner s))"

definition sweep :: "(string, task_record) table \<Rightarrow> system_time \<Rightarrow> (string, task_record) table" where
  "sweep tasks now = table_retain (\<lambda>_ r. \<not> expired r now) tasks"

definition oldest_terminal :: "(string, task_record) table \<Rightarrow> string option" where
  "oldest_terminal tasks =
     map_option fst
       (min_by_key (\<lambda>(k, r). (created r, k)) (filter (\<lambda>(_, r). is_terminal (rstatus r)) tasks))"

lemma oldest_terminal_key: "oldest_terminal tasks = Some k \<Longrightarrow> k \<in> fst ` set tasks"
  by (force simp: oldest_terminal_def dest!: min_by_key_Some)

lemma length_remove_key: "k \<in> fst ` set tasks \<Longrightarrow> length (table_remove k tasks) < length tasks"
  by (auto simp: AList.delete_eq intro!: length_filter_less)

text \<open>Evictions happen in place, so they stand even when making room fails.\<close>

function make_room :: "(string, task_record) table \<Rightarrow> nat \<Rightarrow> unit result \<times> (string, task_record) table" where
  "make_room tasks cap =
     (if max cap 1 \<le> length tasks
      then (case oldest_terminal tasks of
              Some k \<Rightarrow> make_room (table_remove k tasks) cap
            | None \<Rightarrow>
                (Inl (Internal (''the task store is full ('' @ show_nat cap @ '' records)'')), tasks))
      else (Inr (), tasks))"
  by pat_completeness auto
termination
  by (relation "measure (\<lambda>(tasks, cap). length tasks)")
     (auto intro!: length_remove_key oldest_terminal_key)

declare make_room.simps [simp del]

definition is_empty :: "task_store \<Rightarrow> system_time \<Rightarrow> bool result \<times> task_store" where
  "is_empty s now =
     (case lock s of
        Inl e \<Rightarrow> (Inl e, s)
      | Inr tasks \<Rightarrow> let tasks = sweep tasks now in (Inr (tasks = []), s\<lparr>inner := tasks\<rparr>))"

definition running_tasks :: "(string, task_record) table \<Rightarrow> (string \<times> task_record) list" where
  "running_tasks tasks = filter (\<lambda>(_, r). \<not> is_terminal (rstatus r)) tasks"

definition running :: "task_store \<Rightarrow> system_time \<Rightarrow> nat result \<times> task_store" where
  "running s now =
     (case lock s of
        Inl e \<Rightarrow> (Inl e, s)
      | Inr tasks \<Rightarrow>
          let tasks = sweep tasks now in (Inr (length (running_tasks tasks)), s\<lparr>inner := tasks\<rparr>))"

definition running_for :: "string option \<Rightarrow> (string, task_record) table \<Rightarrow> nat" where
  "running_for requestor tasks =
     length (filter (\<lambda>(_, r). belongs_to r requestor) (running_tasks tasks))"

definition create :: "task_store \<Rightarrow> system_time \<Rightarrow> 8 word list \<Rightarrow> nat option \<Rightarrow> string option \<Rightarrow>
    (task \<times> nat) result \<times> task_store" where
  "create s now entropy requested_ttl own =
     (case lock s of
        Inl e \<Rightarrow> (Inl e, s)
      | Inr tasks \<Rightarrow>
          let tasks = sweep tasks now;
              n = running_for own tasks
          in if max_concurrent (config s) \<le> n
             then (Inl (Internal (''too many tasks in flight ('' @ show_nat n @ ''/'' @
                     show_nat (max_concurrent (config s)) @ '')'')), s\<lparr>inner := tasks\<rparr>)
             else (case make_room tasks (max_records (config s)) of
                     (Inl e, tasks) \<Rightarrow> (Inl e, s\<lparr>inner := tasks\<rparr>)
                   | (Inr _, tasks) \<Rightarrow>
                       let lifetime = min (case requested_ttl of
                                             None \<Rightarrow> default_ttl_ms (config s) | Some t \<Rightarrow> t)
                                          (max_ttl_ms (config s));
                           timestamp = iso8601 now;
                           t = \<lparr>task_id = new_task_id entropy, status = Working,
                                status_message = None, created_at = timestamp,
                                last_updated_at = timestamp, ttl = Some lifetime,
                                poll_interval = Some (poll_interval_ms (config s))\<rparr>;
                           flag = length (flags s)
                       in (Inr (t, flag),
                           s\<lparr>inner := table_insert (task_id t)
                               \<lparr>rtask = t, outcome = None, created = now, cancelled = flag, owner = own\<rparr>
                               tasks,
                             flags := flags s @ [False]\<rparr>)))"

text \<open>\<open>tasks.get(id).filter(belongs_to)\<close>, the lookup every requestor-facing operation uses.\<close>

definition find_owned :: "(string, task_record) table \<Rightarrow> string \<Rightarrow> string option \<Rightarrow> task_record option" where
  "find_owned tasks tid requestor =
     (case table_get tasks tid of
        Some r \<Rightarrow> if belongs_to r requestor then Some r else None
      | None \<Rightarrow> None)"

definition get :: "task_store \<Rightarrow> system_time \<Rightarrow> string \<Rightarrow> string option \<Rightarrow> task result \<times> task_store" where
  "get s now tid requestor =
     (case lock s of
        Inl e \<Rightarrow> (Inl e, s)
      | Inr tasks \<Rightarrow>
          let tasks = sweep tasks now
          in (ok_or (not_found tid) (map_option rtask (find_owned tasks tid requestor)),
              s\<lparr>inner := tasks\<rparr>))"

text \<open>Newest first, ties by id.\<close>

definition task_before :: "task \<Rightarrow> task \<Rightarrow> bool" where
  "task_before a b \<longleftrightarrow>
     created_at b < created_at a \<or> (created_at a = created_at b \<and> task_id a \<le> task_id b)"

definition list_tasks :: "task_store \<Rightarrow> system_time \<Rightarrow> string option \<Rightarrow> task list result \<times> task_store" where
  "list_tasks s now requestor =
     (case lock s of
        Inl e \<Rightarrow> (Inl e, s)
      | Inr tasks \<Rightarrow>
          let tasks = sweep tasks now;
              mine = map (\<lambda>(_, r). rtask r) (filter (\<lambda>(_, r). belongs_to r requestor) tasks)
          in (Inr (sort_by task_before mine), s\<lparr>inner := tasks\<rparr>))"

definition finish :: "task_store \<Rightarrow> system_time \<Rightarrow> string \<Rightarrow> task_status \<Rightarrow> task_outcome \<Rightarrow>
    unit result \<times> task_store" where
  "finish s now tid st out =
     (case lock s of
        Inl e \<Rightarrow> (Inl e, s)
      | Inr tasks \<Rightarrow>
          (case table_get tasks tid of
             None \<Rightarrow> (Inr (), s)
           | Some r \<Rightarrow>
               if is_terminal (rstatus r) then (Inr (), s)
               else
                 let t = (rtask r)\<lparr>status := st, last_updated_at := iso8601 now\<rparr>;
                     t = (case out of
                            Error err \<Rightarrow> t\<lparr>status_message := Some (message err)\<rparr>
                          | Value _ \<Rightarrow> t)
                 in (Inr (), s\<lparr>inner := table_insert tid (r\<lparr>rtask := t, outcome := Some out\<rparr>) tasks\<rparr>)))"

definition set_status :: "task_store \<Rightarrow> system_time \<Rightarrow> string \<Rightarrow> task_status \<Rightarrow> bool result \<times> task_store" where
  "set_status s now tid st =
     (if is_terminal st
      then (Inl (Internal (''use finish() to move task '' @ tid @ '' to a terminal status'')), s)
      else (case lock s of
              Inl e \<Rightarrow> (Inl e, s)
            | Inr tasks \<Rightarrow>
                (case table_get tasks tid of
                   None \<Rightarrow> (Inr False, s)
                 | Some r \<Rightarrow>
                     if \<not> can_transition_to (rstatus r) st then (Inr False, s)
                     else (Inr True,
                           s\<lparr>inner := table_insert tid
                               (r\<lparr>rtask := (rtask r)\<lparr>status := st, last_updated_at := iso8601 now\<rparr>\<rparr>)
                               tasks\<rparr>))))"

definition set_status_message :: "task_store \<Rightarrow> system_time \<Rightarrow> string \<Rightarrow> string \<Rightarrow> unit result \<times> task_store" where
  "set_status_message s now tid msg =
     (case lock s of
        Inl e \<Rightarrow> (Inl e, s)
      | Inr tasks \<Rightarrow>
          (case table_get tasks tid of
             None \<Rightarrow> (Inr (), s)
           | Some r \<Rightarrow>
               if is_terminal (rstatus r) then (Inr (), s)
               else (Inr (),
                     s\<lparr>inner := table_insert tid
                         (r\<lparr>rtask := (rtask r)\<lparr>status_message := Some msg,
                                            last_updated_at := iso8601 now\<rparr>\<rparr>)
                         tasks\<rparr>)))"

definition cancel :: "task_store \<Rightarrow> system_time \<Rightarrow> system_time \<Rightarrow> string \<Rightarrow> string option \<Rightarrow>
    task result \<times> task_store" where
  "cancel s now now' tid requestor =
     (case lock s of
        Inl e \<Rightarrow> (Inl e, s)
      | Inr tasks \<Rightarrow>
          let tasks = sweep tasks now; s = s\<lparr>inner := tasks\<rparr>
          in (case find_owned tasks tid requestor of
                None \<Rightarrow> (Inl (not_found tid), s)
              | Some r \<Rightarrow>
                  if is_terminal (rstatus r)
                  then (Inl (InvalidParams (''Cannot cancel task: already in terminal status '' @
                          [CHR 0x27] @ status_name (rstatus r) @ [CHR 0x27])), s)
                  else
                    let t = (rtask r)\<lparr>status := Cancelled,
                              status_message := Some ''The task was cancelled by request.'',
                              last_updated_at := iso8601 now'\<rparr>;
                        r' = r\<lparr>rtask := t, outcome := Some (Error (new_error (-32603) ''Task was cancelled''))\<rparr>
                    in (Inr t, s\<lparr>inner := table_insert tid r' tasks,
                                flags := (flags s)[cancelled r := True]\<rparr>)))"

text \<open>The outcome of a terminal record; a terminal record without one is an internal error.\<close>

definition terminal_outcome :: "string \<Rightarrow> task_record \<Rightarrow> task_outcome result" where
  "terminal_outcome tid r =
     ok_or (Internal (''task '' @ tid @ '' is terminal but has no result'')) (outcome r)"

definition try_result :: "task_store \<Rightarrow> system_time \<Rightarrow> string \<Rightarrow> string option \<Rightarrow>
    task_outcome option result \<times> task_store" where
  "try_result s now tid requestor =
     (case lock s of
        Inl e \<Rightarrow> (Inl e, s)
      | Inr tasks \<Rightarrow>
          let tasks = sweep tasks now; s = s\<lparr>inner := tasks\<rparr>
          in (case find_owned tasks tid requestor of
                None \<Rightarrow> (Inl (not_found tid), s)
              | Some r \<Rightarrow>
                  if \<not> is_terminal (rstatus r) then (Inr None, s)
                  else (map_ok Some (terminal_outcome tid r), s)))"

text \<open>
  The blocking wait. One element of the trace is one pass of the loop: the two clock readings it
  takes and, when it goes to sleep on the condition variable, the store it finds on waking, which
  other threads have been at. \<^const>\<open>None\<close> is a wait that is still going on at the end of the
  trace.
\<close>

fun await_loop :: "string \<Rightarrow> string option \<Rightarrow> nat option \<Rightarrow> task_store \<Rightarrow>
    (system_time \<times> nat \<times> task_store) list \<Rightarrow> task_outcome result option" where
  "await_loop tid requestor deadline s [] = None"
| "await_loop tid requestor deadline s ((now, instant, woken) # passes) =
     (case lock s of
        Inl e \<Rightarrow> Some (Inl e)
      | Inr tasks \<Rightarrow>
          (case find_owned (sweep tasks now) tid requestor of
             None \<Rightarrow> Some (Inl (not_found tid))
           | Some r \<Rightarrow>
               if is_terminal (rstatus r) then Some (terminal_outcome tid r)
               else (case deadline of
                       Some dl \<Rightarrow>
                         if dl \<le> instant
                         then Some (Inl (Timeout (''task '' @ tid @
                                '' is still running; poll `tasks/get` and call `tasks/result` again'')))
                         else await_loop tid requestor deadline woken passes
                     | None \<Rightarrow> await_loop tid requestor deadline woken passes)))"

definition await_result :: "string \<Rightarrow> string option \<Rightarrow> nat option \<Rightarrow> nat \<Rightarrow> task_store \<Rightarrow>
    (system_time \<times> nat \<times> task_store) list \<Rightarrow> task_outcome result option" where
  "await_result tid requestor patience start s passes =
     await_loop tid requestor (map_option (\<lambda>p. start + p) patience) s passes"

section \<open>Making room\<close>

text \<open>The store is one of the tables that evict down to a ceiling: finished tasks are the
  candidates, their age the rank.\<close>

definition make_room_result :: "nat \<Rightarrow> (string, task_record) table \<Rightarrow> (string, task_record) table result" where
  "make_room_result cap tasks =
     (case make_room tasks cap of (Inl e, _) \<Rightarrow> Inl e | (Inr _, tasks') \<Rightarrow> Inr tasks')"

lemma oldest_terminal_Some:
  assumes "wf_table t" and "oldest_terminal t = Some k"
  shows "\<exists>v. (k, v) \<in> set t \<and> is_terminal (rstatus v) \<and>
     (\<forall>(k', v') \<in> set t. is_terminal (rstatus v') \<and> k' \<noteq> k \<longrightarrow> (created v, k) < (created v', k'))"
proof -
  from assms(2) obtain v where
    m: "min_by_key (\<lambda>(k, r). (created r, k)) (filter (\<lambda>(_, r). is_terminal (rstatus r)) t) = Some (k, v)"
    by (auto simp: oldest_terminal_def)
  from min_by_key_Some [OF m] show ?thesis by (force simp: order.order_iff_strict)
qed

lemma oldest_terminal_None: "oldest_terminal t = None \<longleftrightarrow> (\<forall>(k, v) \<in> set t. \<not> is_terminal (rstatus v))"
  by (auto simp: oldest_terminal_def filter_empty_conv)

interpretation room: evicting "make_room_result cap" oldest_terminal "\<lambda>r. is_terminal (rstatus r)"
  "\<lambda>k r. (created r, k)" "max cap 1"
  "Internal (''the task store is full ('' @ show_nat cap @ '' records)'')" for cap
proof
  fix t :: "(string, task_record) table"
  show "make_room_result cap t =
      (if length t < max cap 1 then Inr t
       else case oldest_terminal t of
              None \<Rightarrow> Inl (Internal (''the task store is full ('' @ show_nat cap @ '' records)''))
            | Some k \<Rightarrow> make_room_result cap (table_remove k t))"
    unfolding make_room_result_def
    by (subst make_room.simps) (simp add: not_le [symmetric] del: max.bounded_iff split: option.split)
qed (use oldest_terminal_Some oldest_terminal_None in \<open>auto split: prod.splits\<close>)

lemma make_room_Inr: "make_room t cap = (Inr u, t') \<Longrightarrow> make_room_result cap t = Inr t'"
  by (simp add: make_room_result_def)

lemma make_room_subset: "wf_table t \<Longrightarrow> make_room t cap = (res, t') \<Longrightarrow> wf_table t' \<and> set t' \<subseteq> set t"
proof (induction t cap arbitrary: t' rule: make_room.induct)
  case (1 t cap)
  show ?case
  proof (cases "max cap 1 \<le> length t \<and> oldest_terminal t \<noteq> None")
    case True
    then obtain k where k: "oldest_terminal t = Some k" by auto
    with True "1.prems"(2) have "make_room (table_remove k t) cap = (res, t')"
      by (simp add: make_room.simps [of t])
    with "1.IH" [OF _ k] True "1.prems"(1) show ?thesis by (auto simp: set_table_remove)
  next
    case False
    with "1.prems" show ?thesis by (auto simp: make_room.simps [of t] split: if_splits option.splits)
  qed
qed

section \<open>The store invariant\<close>

text \<open>
  What every record of a store satisfies: filed under its own id, within the configured
  lifetime, with a result once it is terminal, and holding a flag of its own.
\<close>

definition record_ok :: "task_config \<Rightarrow> nat \<Rightarrow> string \<Rightarrow> task_record \<Rightarrow> bool" where
  "record_ok c nflags k r \<longleftrightarrow>
     task_id (rtask r) = k \<and> cancelled r < nflags \<and>
     (\<exists>t. ttl (rtask r) = Some t \<and> t \<le> max_ttl_ms c) \<and>
     (is_terminal (rstatus r) \<longrightarrow> outcome r \<noteq> None)"

definition tasks_ok :: "task_config \<Rightarrow> nat \<Rightarrow> (string, task_record) table \<Rightarrow> bool" where
  "tasks_ok c nflags tasks \<longleftrightarrow>
     wf_table tasks \<and> (\<forall>(k, r) \<in> set tasks. record_ok c nflags k r) \<and>
     distinct (map (\<lambda>(_, r). cancelled r) tasks) \<and>
     length tasks \<le> max (max_records c) 1 \<and>
     (\<forall>own. running_for own tasks \<le> max_concurrent c)"

definition store_inv :: "task_store \<Rightarrow> bool" where
  "store_inv s \<longleftrightarrow> tasks_ok (config s) (length (flags s)) (inner s)"

lemma running_for_filter:
  "running_for own tasks = length (filter (\<lambda>(_, r). \<not> is_terminal (rstatus r) \<and> owner r = own) tasks)"
  unfolding running_for_def running_tasks_def belongs_to_def filter_filter
  by (rule arg_cong [where f = length], rule filter_cong) auto

lemma tasks_ok_wf: "tasks_ok c n t \<Longrightarrow> wf_table t"
  by (simp add: tasks_ok_def)

lemma tasks_ok_record: "tasks_ok c n t \<Longrightarrow> table_get t k = Some r \<Longrightarrow> record_ok c n k r"
  by (auto simp: tasks_ok_def table_get_in_set)

lemma tasks_ok_sub:
  assumes "tasks_ok c n t" and "wf_table t'" and "set t' \<subseteq> set t"
  shows "tasks_ok c n t'"
proof -
  have d: "distinct t" "distinct t'"
    using assms(1,2) by (auto simp: tasks_ok_def wf_table_def distinct_map)
  have inj: "inj_on (\<lambda>(_, r). cancelled r) (set t)"
    using assms(1) by (auto simp: tasks_ok_def distinct_map)
  have "length (filter P t') \<le> length (filter P t)" for P
  proof -
    have "length (filter P t') = card (set (filter P t'))"
      using d(2) by (simp only: distinct_card distinct_filter)
    also have "\<dots> \<le> card (set (filter P t))" using assms(3) by (intro card_mono) auto
    also have "\<dots> = length (filter P t)" using d(1) by (simp only: distinct_card distinct_filter)
    finally show ?thesis .
  qed
  from this [of "\<lambda>_. True"] this have
    "length t' \<le> length t" "\<forall>own. running_for own t' \<le> running_for own t"
    by (simp_all add: running_for_filter)
  moreover have "distinct (map (\<lambda>(_, r). cancelled r) t')"
    using d(2) inj_on_subset [OF inj assms(3)] by (simp add: distinct_map)
  ultimately show ?thesis
    using assms unfolding tasks_ok_def by (auto intro: order_trans dest: order_trans)
qed

lemma tasks_ok_sweep: "tasks_ok c n t \<Longrightarrow> tasks_ok c n (sweep t now)"
  by (rule tasks_ok_sub) (auto simp: sweep_def tasks_ok_wf table_retain_def intro: wf_table_retain [unfolded table_retain_def])

text \<open>A record may be replaced by one of the same identity as long as it was not terminal.\<close>

lemma tasks_ok_replace:
  assumes ok: "tasks_ok c n t" and get: "table_get t k = Some r"
    and live: "\<not> is_terminal (rstatus r)" and ok': "record_ok c n k r'"
    and same: "cancelled r' = cancelled r" "owner r' = owner r"
  shows "tasks_ok c n (table_insert k r' t)"
proof -
  have k: "k \<in> fst ` set t" using get by (force dest: map_of_SomeD)
  have run: "running_for own (table_insert k r' t) \<le> running_for own t" for own
    unfolding running_for_filter
    by (rule length_filter_insert_le [OF get]) (use live same(2) in auto)
  have "\<forall>(x, w) \<in> set (table_insert k r' t). record_ok c n x w"
    using ok ok' by (auto simp: tasks_ok_def dest!: table_insert_cases [rotated])
  moreover have "map (\<lambda>(_, r). cancelled r) (table_insert k r' t) = map (\<lambda>(_, r). cancelled r) t"
    using map_insert_same [where f = cancelled, OF get same(1)] .
  ultimately show ?thesis
    using ok k order_trans [OF run] by (auto simp: tasks_ok_def length_table_insert)
qed

lemma tasks_ok_flags: "tasks_ok c n t \<Longrightarrow> n \<le> n' \<Longrightarrow> tasks_ok c n' t"
  by (fastforce simp: tasks_ok_def record_ok_def)

lemma tasks_ok_add:
  assumes ok: "tasks_ok c n t" and room: "length t < max (max_records c) 1"
    and free: "running_for own t < max_concurrent c"
    and ok': "record_ok c (Suc n) k r" and r: "cancelled r = n" "owner r = own"
  shows "tasks_ok c (Suc n) (table_insert k r t)"
proof -
  have wf: "wf_table t" by (rule tasks_ok_wf [OF ok])
  have run: "running_for o' (table_insert k r t) \<le> max_concurrent c" for o'
  proof (cases "o' = own")
    case True
    then show ?thesis
      using free length_filter_insert [of _ k r t]
      unfolding running_for_filter by (metis (no_types, lifting) Suc_leI order_trans)
  next
    case False
    then have "running_for o' (table_insert k r t) \<le> running_for o' t"
      unfolding running_for_filter by (intro length_filter_insert_other) (simp add: r)
    then show ?thesis using ok by (auto simp: tasks_ok_def intro: order_trans)
  qed
  have cells: "\<forall>(x, w) \<in> set (table_insert k r t). record_ok c (Suc n) x w"
    using tasks_ok_flags [OF ok, of "Suc n"] ok'
    by (auto simp: tasks_ok_def dest!: table_insert_cases [rotated])
  have "inj_on (\<lambda>(_, r). cancelled r) (set (table_insert k r t))"
  proof (rule inj_onI, clarify)
    fix a b x y
    assume "(a, x) \<in> set (table_insert k r t)" "(b, y) \<in> set (table_insert k r t)"
      and eq: "cancelled x = cancelled y"
    then have "(a = k \<and> x = r) \<or> (a \<noteq> k \<and> (a, x) \<in> set t)" "(b = k \<and> y = r) \<or> (b \<noteq> k \<and> (b, y) \<in> set t)"
      using table_insert_cases [OF wf] by blast+
    moreover have "(a, x) \<in> set t \<Longrightarrow> cancelled x < n" "(b, y) \<in> set t \<Longrightarrow> cancelled y < n"
      using ok by (auto simp: tasks_ok_def record_ok_def)
    moreover have "(a, x) \<in> set t \<Longrightarrow> (b, y) \<in> set t \<Longrightarrow> a = b \<and> x = y"
      using ok eq inj_onD [of "\<lambda>(_, r). cancelled r" "set t" "(a, x)" "(b, y)"]
      by (simp add: tasks_ok_def distinct_map)
    ultimately show "a = b \<and> x = y" using eq r by auto
  qed
  moreover have "distinct (table_insert k r t)"
    using wf_table_insert [OF wf] by (simp add: wf_table_def distinct_map)
  ultimately have "distinct (map (\<lambda>(_, r). cancelled r) (table_insert k r t))"
    by (simp add: distinct_map)
  with run cells wf room show ?thesis
    by (auto simp: tasks_ok_def length_table_insert)
qed

lemma tasks_ok_make_room: "tasks_ok c n t \<Longrightarrow> make_room t cap = (res, t') \<Longrightarrow> tasks_ok c n t'"
  using make_room_subset tasks_ok_sub tasks_ok_wf by blast

section \<open>The store as a state machine\<close>

datatype task_op =
    Create system_time "8 word list" "nat option" "string option"
  | Get system_time string "string option"
  | ListTasks system_time "string option"
  | Finish system_time string task_status task_outcome
  | SetStatus system_time string task_status
  | SetStatusMessage system_time string string
  | Cancel system_time system_time string "string option"
  | TryResult system_time string "string option"
  | IsEmpty system_time
  | Running system_time

fun task_step :: "task_store \<Rightarrow> task_op \<Rightarrow> task_store" where
  "task_step s (Create now entropy lifetime own) = snd (create s now entropy lifetime own)"
| "task_step s (Get now tid requestor) = snd (get s now tid requestor)"
| "task_step s (ListTasks now requestor) = snd (list_tasks s now requestor)"
| "task_step s (Finish now tid st out) = snd (finish s now tid st out)"
| "task_step s (SetStatus now tid st) = snd (set_status s now tid st)"
| "task_step s (SetStatusMessage now tid msg) = snd (set_status_message s now tid msg)"
| "task_step s (Cancel now now' tid requestor) = snd (cancel s now now' tid requestor)"
| "task_step s (TryResult now tid requestor) = snd (try_result s now tid requestor)"
| "task_step s (IsEmpty now) = snd (is_empty s now)"
| "task_step s (Running now) = snd (running s now)"

text \<open>
  A step is one of four things to the store: nothing, some records dropped, one live record
  replaced by a record of the same identity (perhaps after a drop), or a new record under a
  fresh flag (again after a drop). Everything the properties need about the ten operations is in
  this one case analysis.
\<close>

definition dropped :: "(string, task_record) table \<Rightarrow> (string, task_record) table \<Rightarrow> bool" where
  "dropped t t' \<longleftrightarrow> wf_table t' \<and> set t' \<subseteq> set t"

inductive store_change :: "task_store \<Rightarrow> task_store \<Rightarrow> bool" where
  drop: "dropped (inner s) t \<Longrightarrow> store_change s (s\<lparr>inner := t\<rparr>)"
| replace: "dropped (inner s) t \<Longrightarrow> table_get t k = Some r \<Longrightarrow> \<not> is_terminal (rstatus r) \<Longrightarrow>
     task_id (rtask r') = task_id (rtask r) \<Longrightarrow> ttl (rtask r') = ttl (rtask r) \<Longrightarrow>
     created_at (rtask r') = created_at (rtask r) \<Longrightarrow> created r' = created r \<Longrightarrow>
     cancelled r' = cancelled r \<Longrightarrow> owner r' = owner r \<Longrightarrow>
     (is_terminal (rstatus r') \<Longrightarrow> outcome r' \<noteq> None) \<Longrightarrow>
     fs = flags s \<or> (fs = (flags s)[cancelled r := True] \<and> rstatus r' = Cancelled) \<Longrightarrow>
     store_change s (s\<lparr>inner := table_insert k r' t, flags := fs\<rparr>)"
| add: "dropped (inner s) t \<Longrightarrow> length t < max (max_records (config s)) 1 \<Longrightarrow>
     running_for (owner r) t < max_concurrent (config s) \<Longrightarrow>
     cancelled r = length (flags s) \<Longrightarrow> \<not> is_terminal (rstatus r) \<Longrightarrow>
     ttl (rtask r) = Some lifetime \<Longrightarrow> lifetime \<le> max_ttl_ms (config s) \<Longrightarrow>
     store_change s (s\<lparr>inner := table_insert (task_id (rtask r)) r t, flags := flags s @ [False]\<rparr>)"

lemma dropped_refl: "wf_table t \<Longrightarrow> dropped t t"
  by (simp add: dropped_def)

lemma dropped_sweep: "wf_table t \<Longrightarrow> dropped t (sweep t now)"
  by (auto simp: dropped_def sweep_def table_retain_def intro: wf_table_retain [unfolded table_retain_def])

lemma dropped_get: "wf_table t \<Longrightarrow> dropped t t' \<Longrightarrow> table_get t' k = Some r \<Longrightarrow> table_get t k = Some r"
  unfolding dropped_def by (metis subsetD table_get_in_set)

lemma store_change_refl: "wf_table (inner s) \<Longrightarrow> store_change s s"
  using store_change.drop [OF dropped_refl, of s] by simp

lemma store_change_sweep: "wf_table (inner s) \<Longrightarrow> store_change s (s\<lparr>inner := sweep (inner s) now\<rparr>)"
  by (rule store_change.drop) (rule dropped_sweep)

lemma lock_simps [simp]:
  "lock s = Inr t \<longleftrightarrow> \<not> poisoned s \<and> t = inner s"
  "lock s = Inl e \<longleftrightarrow> poisoned s \<and> e = Internal ''Task store lock poisoned''"
  by (auto simp: lock_def)

lemma find_owned_Some:
  "find_owned t tid requestor = Some r \<longleftrightarrow> table_get t tid = Some r \<and> owner r = requestor"
  by (auto simp: find_owned_def belongs_to_def split: option.splits if_splits)

lemma can_transition_live: "can_transition_to a b \<Longrightarrow> \<not> is_terminal a \<and> a \<noteq> b"
  by (cases a) auto

lemma store_change_update:
  assumes "wf_table (inner s)" and "table_get (inner s) k = Some r" and "\<not> is_terminal (rstatus r)"
    and "rtask r' = (rtask r)\<lparr>status := st, status_message := msg, last_updated_at := upd\<rparr>"
    and "created r' = created r" and "cancelled r' = cancelled r" and "owner r' = owner r"
    and "is_terminal st \<Longrightarrow> outcome r' \<noteq> None"
  shows "store_change s (s\<lparr>inner := table_insert k r' (inner s)\<rparr>)"
proof -
  have "store_change s (s\<lparr>inner := table_insert k r' (inner s), flags := flags s\<rparr>)"
    by (rule store_change.replace [OF dropped_refl assms(2)]) (use assms in auto)
  then show ?thesis by simp
qed

lemma store_change_finish:
  assumes wf: "wf_table (inner s)"
  shows "store_change s (snd (finish s now tid st out))"
proof (cases "poisoned s \<or> table_get (inner s) tid = None \<or> is_terminal (rstatus (the (table_get (inner s) tid)))")
  case True
  then show ?thesis
    using store_change_refl [OF wf] by (auto simp: finish_def lock_def split: option.split)
next
  case False
  then obtain r where r: "table_get (inner s) tid = Some r" "\<not> is_terminal (rstatus r)" "\<not> poisoned s"
    by auto
  show ?thesis
    using r store_change_update [OF wf r(1,2), where st = st and upd = "iso8601 now" and
        msg = "case out of Error err \<Rightarrow> Some (message err) | Value _ \<Rightarrow> status_message (rtask r)"]
    by (auto simp: finish_def lock_def Let_def split: task_outcome.splits)
qed

lemma store_change_set_status:
  assumes wf: "wf_table (inner s)"
  shows "store_change s (snd (set_status s now tid st))"
proof (cases "is_terminal st \<or> poisoned s \<or> table_get (inner s) tid = None \<or>
    \<not> can_transition_to (rstatus (the (table_get (inner s) tid))) st")
  case True
  then show ?thesis
    using store_change_refl [OF wf] by (auto simp: set_status_def lock_def split: option.split)
next
  case False
  then obtain r where r: "table_get (inner s) tid = Some r" "can_transition_to (rstatus r) st"
      "\<not> poisoned s" "\<not> is_terminal st"
    by auto
  show ?thesis
    using r store_change_update [OF wf r(1) can_transition_live [OF r(2), THEN conjunct1],
        where st = st and msg = "status_message (rtask r)" and upd = "iso8601 now"]
    by (auto simp: set_status_def lock_def Let_def)
qed

lemma store_change_set_status_message:
  assumes wf: "wf_table (inner s)"
  shows "store_change s (snd (set_status_message s now tid msg))"
proof (cases "poisoned s \<or> table_get (inner s) tid = None \<or> is_terminal (rstatus (the (table_get (inner s) tid)))")
  case True
  then show ?thesis
    using store_change_refl [OF wf] by (auto simp: set_status_message_def lock_def split: option.split)
next
  case False
  then obtain r where r: "table_get (inner s) tid = Some r" "\<not> is_terminal (rstatus r)" "\<not> poisoned s"
    by auto
  show ?thesis
    using r store_change_update [OF wf r(1,2), where st = "rstatus r" and msg = "Some msg" and upd = "iso8601 now"]
    by (auto simp: set_status_message_def lock_def Let_def)
qed

lemma store_change_cancel:
  assumes "wf_table (inner s)"
  shows "store_change s (snd (cancel s now now' tid requestor))"
proof (cases "poisoned s \<or> find_owned (sweep (inner s) now) tid requestor = None")
  case True
  with assms show ?thesis
    by (auto simp: cancel_def lock_def Let_def intro: store_change_refl store_change_sweep)
next
  case False
  then obtain r where r: "find_owned (sweep (inner s) now) tid requestor = Some r" and np: "\<not> poisoned s"
    by auto
  show ?thesis
  proof (cases "is_terminal (rstatus r)")
    case True
    with r np assms show ?thesis
      by (auto simp: cancel_def lock_def Let_def intro: store_change_sweep)
  next
    case False
    let ?r' = "r\<lparr>rtask := (rtask r)\<lparr>status := Cancelled,
        status_message := Some ''The task was cancelled by request.'', last_updated_at := iso8601 now'\<rparr>,
        outcome := Some (Error (new_error (-32603) ''Task was cancelled''))\<rparr>"
    have "store_change s (s\<lparr>inner := table_insert tid ?r' (sweep (inner s) now),
        flags := (flags s)[cancelled r := True]\<rparr>)"
      by (rule store_change.replace [OF dropped_sweep [OF assms]])
         (use r False in \<open>auto simp: find_owned_Some\<close>)
    with False r np show ?thesis by (simp add: cancel_def lock_def Let_def)
  qed
qed

lemma store_change_create:
  assumes "wf_table (inner s)"
  shows "store_change s (snd (create s now entropy requested own))"
proof (cases "poisoned s \<or> max_concurrent (config s) \<le> running_for own (sweep (inner s) now)")
  case True
  with assms show ?thesis
    by (auto simp: create_def lock_def Let_def intro: store_change_refl store_change_sweep)
next
  case False
  obtain res t where room: "make_room (sweep (inner s) now) (max_records (config s)) = (res, t)"
    by (cases "make_room (sweep (inner s) now) (max_records (config s))")
  have wf: "wf_table (sweep (inner s) now)" using assms dropped_sweep dropped_def by blast
  have t: "dropped (sweep (inner s) now) t" "dropped (inner s) t"
    using make_room_subset [OF wf room] dropped_sweep [OF assms, of now] by (auto simp: dropped_def)
  show ?thesis
  proof (cases res)
    case (Inl e)
    with False room t(2) show ?thesis
      by (auto simp: create_def lock_def Let_def intro: store_change.drop)
  next
    case (Inr u)
    have len: "length t < max (max_records (config s)) 1"
      using room.evict_bound [OF wf make_room_Inr] room Inr by blast
    have "running_for own t \<le> running_for own (sweep (inner s) now)"
    proof -
      have d: "distinct t" "distinct (sweep (inner s) now)"
        using t(1) wf by (auto simp: dropped_def wf_table_def distinct_map)
      show ?thesis
        unfolding running_for_filter distinct_card [OF distinct_filter [OF d(1)], symmetric]
          distinct_card [OF distinct_filter [OF d(2)], symmetric]
        using t(1) by (intro card_mono) (auto simp: dropped_def)
    qed
    with False have free: "running_for own t < max_concurrent (config s)" by simp
    let ?life = "min (case requested of None \<Rightarrow> default_ttl_ms (config s) | Some t \<Rightarrow> t) (max_ttl_ms (config s))"
    let ?t = "\<lparr>task_id = new_task_id entropy, status = Working, status_message = None,
        created_at = iso8601 now, last_updated_at = iso8601 now, ttl = Some ?life,
        poll_interval = Some (poll_interval_ms (config s))\<rparr>"
    let ?r = "\<lparr>rtask = ?t, outcome = None, created = now, cancelled = length (flags s), owner = own\<rparr>"
    have "store_change s (s\<lparr>inner := table_insert (task_id (rtask ?r)) ?r t, flags := flags s @ [False]\<rparr>)"
      by (rule store_change.add [OF t(2) len]) (use free in auto)
    with False room Inr show ?thesis by (simp add: create_def lock_def Let_def)
  qed
qed

lemma store_change_step: "wf_table (inner s) \<Longrightarrow> store_change s (task_step s e)"
proof (cases e)
  case (Get now tid requestor)
  assume "wf_table (inner s)"
  with Get show ?thesis
    by (auto simp: get_def lock_def Let_def intro: store_change_refl store_change_sweep)
next
  case (ListTasks now requestor)
  assume "wf_table (inner s)"
  with ListTasks show ?thesis
    by (auto simp: list_tasks_def lock_def Let_def intro: store_change_refl store_change_sweep)
next
  case (TryResult now tid requestor)
  assume "wf_table (inner s)"
  with TryResult show ?thesis
    by (auto simp: try_result_def lock_def Let_def split: option.splits
        intro: store_change_refl store_change_sweep)
qed (auto simp: is_empty_def running_def lock_def Let_def
    intro: store_change_create store_change_finish store_change_set_status
      store_change_set_status_message store_change_cancel store_change_refl store_change_sweep)


lemma store_inv_new: "store_inv (new_store c)"
  by (simp add: store_inv_def new_store_def tasks_ok_def running_for_filter)

lemma store_change_inv: "store_change s s' \<Longrightarrow> store_inv s \<Longrightarrow> store_inv s' \<and> config s' = config s"
proof (induction rule: store_change.induct)
  case (drop s t)
  then show ?case by (auto simp: store_inv_def dropped_def intro: tasks_ok_sub)
next
  case (replace s t k r r' fs)
  have ok: "tasks_ok (config s) (length (flags s)) t"
    using replace by (auto simp: store_inv_def dropped_def intro: tasks_ok_sub)
  have "tasks_ok (config s) (length (flags s)) (table_insert k r' t)"
    by (rule tasks_ok_replace [OF ok replace.hyps(2,3)])
       (use replace tasks_ok_record [OF ok replace.hyps(2)] in \<open>auto simp: record_ok_def\<close>)
  moreover have "length fs = length (flags s)" using replace.hyps(11) by auto
  ultimately show ?case by (simp add: store_inv_def)
next
  case (add s t r lifetime)
  have ok: "tasks_ok (config s) (length (flags s)) t"
    using add by (auto simp: store_inv_def dropped_def intro: tasks_ok_sub)
  show ?case
    using tasks_ok_add [OF ok add.hyps(2,3)] add.hyps by (auto simp: store_inv_def record_ok_def)
qed

lemma store_inv_wf: "store_inv s \<Longrightarrow> wf_table (inner s)"
  by (simp add: store_inv_def tasks_ok_def)

text \<open>
  What a step may do to what was there before: a cancellation flag is never lowered, a record
  still holding an old flag is the same task under the same key, and a terminal record is left
  exactly as it was.
\<close>

definition store_progress :: "task_store \<Rightarrow> task_store \<Rightarrow> bool" where
  "store_progress s s' \<longleftrightarrow>
     config s' = config s \<and> length (flags s) \<le> length (flags s') \<and>
     (\<forall>i < length (flags s). flags s ! i \<longrightarrow> flags s' ! i) \<and>
     (\<forall>(k, r') \<in> set (inner s'). cancelled r' < length (flags s) \<longrightarrow>
        (\<exists>r. (k, r) \<in> set (inner s) \<and> cancelled r = cancelled r' \<and> owner r' = owner r \<and>
             created r' = created r \<and> ttl (rtask r') = ttl (rtask r) \<and>
             (is_terminal (rstatus r) \<longrightarrow> r' = r)))"

lemma store_progressD:
  assumes "store_progress s s'" and "(k, r') \<in> set (inner s')" and "cancelled r' < length (flags s)"
  obtains r where "(k, r) \<in> set (inner s)" "cancelled r = cancelled r'" "owner r' = owner r"
    "created r' = created r" "ttl (rtask r') = ttl (rtask r)" "is_terminal (rstatus r) \<longrightarrow> r' = r"
  using assms by (auto simp: store_progress_def)

lemma store_progress_trans:
  assumes ab: "store_progress a b" and bc: "store_progress b c"
  shows "store_progress a c"
proof -
  have len: "length (flags a) \<le> length (flags b)" using ab by (simp add: store_progress_def)
  have "\<exists>r. (k, r) \<in> set (inner a) \<and> cancelled r = cancelled r' \<and> owner r' = owner r \<and>
      created r' = created r \<and> ttl (rtask r') = ttl (rtask r) \<and> (is_terminal (rstatus r) \<longrightarrow> r' = r)"
    if r': "(k, r') \<in> set (inner c)" and lt: "cancelled r' < length (flags a)" for k r'
  proof (rule store_progressD [OF bc r'])
    show "cancelled r' < length (flags b)" using lt len by simp
    fix r1 assume r1: "(k, r1) \<in> set (inner b)" "cancelled r1 = cancelled r'" "owner r' = owner r1"
        "created r' = created r1" "ttl (rtask r') = ttl (rtask r1)" "is_terminal (rstatus r1) \<longrightarrow> r' = r1"
    show ?thesis
      by (rule store_progressD [OF ab r1(1)]) (use r1 lt in auto)
  qed
  moreover have "\<forall>i < length (flags a). flags a ! i \<longrightarrow> flags c ! i"
    using ab bc len by (simp add: store_progress_def)
  ultimately show ?thesis using ab bc by (auto simp: store_progress_def)
qed

lemma store_change_progress: "store_change s s' \<Longrightarrow> store_inv s \<Longrightarrow> store_progress s s'"
proof (induction rule: store_change.induct)
  case (drop s t)
  then show ?case by (auto simp: store_progress_def dropped_def)
next
  case (replace s t k r r' fs)
  have wf: "wf_table t" and sub: "set t \<subseteq> set (inner s)" using replace.hyps(1) by (auto simp: dropped_def)
  have "(k, r) \<in> set (inner s)" using replace.hyps(2) sub by (auto dest: map_of_SomeD)
  then have "\<exists>q. (x, q) \<in> set (inner s) \<and> cancelled q = cancelled w \<and> owner w = owner q \<and>
      created w = created q \<and> ttl (rtask w) = ttl (rtask q) \<and> (is_terminal (rstatus q) \<longrightarrow> w = q)"
    if "(x, w) \<in> set (table_insert k r' t)" for x w
    using table_insert_cases [OF wf that] replace.hyps(3-9) sub by auto
  moreover have "\<forall>i < length (flags s). flags s ! i \<longrightarrow> fs ! i" "length fs = length (flags s)"
    using replace.hyps(11) by (auto, metis nth_list_update_eq nth_list_update_neq)
  ultimately show ?case by (auto simp: store_progress_def)
next
  case (add s t r lifetime)
  then show ?case
    by (auto simp: store_progress_def dropped_def nth_append dest!: table_insert_cases [rotated])
qed

interpretation store: monotone_machine task_step store_inv store_progress
proof
  show "store_inv (task_step s e)" if "store_inv s" for s e
    using store_change_inv [OF store_change_step [OF store_inv_wf]] that by blast
  show "store_progress s s" for s by (auto simp: store_progress_def)
  show "store_progress a b \<Longrightarrow> store_progress b c \<Longrightarrow> store_progress a c" for a b c
    by (rule store_progress_trans)
  show "store_progress s (task_step s e)" if "store_inv s" for s e
    using store_change_progress [OF store_change_step [OF store_inv_wf]] that by blast
qed

lemma config_step: "store_inv s \<Longrightarrow> config (foldl task_step s es) = config s"
  using store.run_progress [of s es] by (simp add: store_progress_def)

section \<open>Properties\<close>

text \<open>
  C16: After any sequence of calls on a fresh store the ceilings hold: at most
  \<open>max_records\<close> records (one when that is zero), at most \<open>max_concurrent\<close> unfinished tasks for
  each requestor; and every record is filed under its own task id, has a lifetime no longer than
  \<open>max_ttl_ms\<close>, and has a result if its status is terminal.
\<close>

theorem task_store_ceilings:
  "let s = foldl task_step (new_store c) es in
     length (inner s) \<le> max (max_records c) 1 \<and>
     (\<forall>own. length (filter (\<lambda>(_, r). \<not> is_terminal (rstatus r) \<and> owner r = own) (inner s)) \<le> max_concurrent c) \<and>
     list_all (\<lambda>(k, r). task_id (rtask r) = k \<and> (\<exists>t. ttl (rtask r) = Some t \<and> t \<le> max_ttl_ms c) \<and>
        \<not> (is_terminal (rstatus r) \<and> outcome r = None)) (inner s)"
proof -
  have "store_inv (foldl task_step (new_store c) es)" "config (foldl task_step (new_store c) es) = c"
    using store.run_inv [OF store_inv_new] config_step [OF store_inv_new] by (auto simp: new_store_def)
  then have "tasks_ok c (length (flags (foldl task_step (new_store c) es))) (inner (foldl task_step (new_store c) es))"
    by (simp add: store_inv_def)
  then show ?thesis
    unfolding tasks_ok_def record_ok_def running_for_filter Let_def list_all_iff
    by (intro conjI) (blast, blast, force)
qed

text \<open>
  C8: A finished task never changes again. Whatever calls follow, a record that is still held
  under the flag of a terminal record is that record, bit for bit (status, message, timestamps
  and outcome included), and a raised cancellation flag stays raised.
\<close>

theorem terminal_is_final:
  assumes "store_inv s" and "table_get (inner s) k = Some r" and "is_terminal (rstatus r)"
  shows "let s' = foldl task_step s es in
     list_all (\<lambda>(k', r'). cancelled r' \<noteq> cancelled r \<or> k' = k \<and> r' = r) (inner s') \<and>
     \<not> (flags s ! cancelled r \<and> \<not> flags s' ! cancelled r)"
proof -
  let ?s' = "foldl task_step s es"
  have p: "store_progress s ?s'" by (rule store.run_progress [OF assms(1)])
  have r: "(k, r) \<in> set (inner s)" using assms(2) by (rule map_of_SomeD)
  then have lt: "cancelled r < length (flags s)"
    using assms(1) by (auto simp: store_inv_def tasks_ok_def record_ok_def)
  have "k' = k \<and> r' = r" if old: "(k', r') \<in> set (inner ?s')" "cancelled r' = cancelled r" for k' r'
  proof -
    obtain q where q: "(k', q) \<in> set (inner s)" "cancelled q = cancelled r'" "is_terminal (rstatus q) \<longrightarrow> r' = q"
      by (rule store_progressD [OF p old(1)]) (use old(2) lt in auto)
    have "inj_on (\<lambda>(_, r). cancelled r) (set (inner s))"
      using assms(1) by (auto simp: store_inv_def tasks_ok_def distinct_map)
    then have "(k', q) = (k, r)" by (rule inj_onD) (use q r old in auto)
    with q(3) assms(3) show ?thesis by simp
  qed
  moreover have "\<forall>i < length (flags s). flags s ! i \<longrightarrow> flags ?s' ! i"
    using p by (simp add: store_progress_def)
  ultimately show ?thesis using lt by (auto simp: list_all_iff)
qed


text \<open>One unfinished and one finished task, of two requestors, for the examples below.\<close>

definition sample_task :: "string \<Rightarrow> task_status \<Rightarrow> task" where
  "sample_task tid st = \<lparr>task_id = tid, status = st, status_message = None, created_at = ''t'',
     last_updated_at = ''t'', ttl = Some 1000, poll_interval = Some 1000\<rparr>"

definition sample_store :: task_store where
  "sample_store = \<lparr>inner =
       [(''a'', \<lparr>rtask = sample_task ''a'' Working, outcome = None, created = 5, cancelled = 0, owner = None\<rparr>),
        (''b'', \<lparr>rtask = sample_task ''b'' Completed, outcome = Some (Value JNull), created = 0,
                cancelled = 1, owner = Some ''bob''\<rparr>)],
     flags = [False, False], config = default_task_config\<lparr>max_records := 2\<rparr>, poisoned = False\<rparr>"

lemmas sample_defs = sample_store_def sample_task_def default_task_config_def

lemma sample_store_inv: "store_inv sample_store"
  by (auto simp: sample_defs store_inv_def tasks_ok_def record_ok_def wf_table_def running_for_filter)

theorem terminal_is_final_witness:
  "list_all (\<lambda>(k', r'). cancelled r' \<noteq> 1 \<or> rstatus r' = Completed)
     (inner (foldl task_step sample_store [Finish 9 ''b'' Failed (Value JNull)]))"
proof -
  obtain r where r: "table_get (inner sample_store) ''b'' = Some r" "rstatus r = Completed" "cancelled r = 1"
    by (simp add: sample_defs)
  then show ?thesis
    using terminal_is_final [OF sample_store_inv r(1), of "[Finish 9 ''b'' Failed (Value JNull)]"]
    by (auto simp: Let_def list_all_iff)
qed

definition view_of :: "string option \<Rightarrow> task_store \<Rightarrow> task_store" where
  "view_of requestor s = s\<lparr>inner := table_retain (\<lambda>_ r. belongs_to r requestor) (inner s)\<rparr>"

lemma sweep_retain: "sweep (table_retain P t) now = table_retain P (sweep t now)"
  unfolding sweep_def table_retain_def filter_filter by (rule filter_cong) auto

lemma find_owned_view:
  "wf_table t \<Longrightarrow> find_owned (table_retain (\<lambda>_ r. belongs_to r q) t) tid q = find_owned t tid q"
  by (auto simp: find_owned_def table_get_retain split: option.splits)

lemma wf_sweep [simp]: "wf_table t \<Longrightarrow> wf_table (sweep t now)"
  by (simp add: sweep_def)

lemma view_of_simps [simp]:
  "inner (view_of q s) = table_retain (\<lambda>_ r. belongs_to r q) (inner s)"
  "poisoned (view_of q s) = poisoned s"
  by (simp_all add: view_of_def)

lemma retain_insert_other:
  "\<not> P k v \<Longrightarrow> (\<forall>w. (k, w) \<in> set t \<longrightarrow> \<not> P k w) \<Longrightarrow> table_retain P (table_insert k v t) = table_retain P t"
  by (induction t) (auto simp: table_retain_def)

lemma view_cancel_other:
  assumes wf: "wf_table (inner s)" and q: "q' \<noteq> q"
  shows "inner (view_of q' (snd (cancel s now now' tid q))) =
     (if poisoned s then inner (view_of q' s) else sweep (inner (view_of q' s)) now)"
proof (cases "find_owned (sweep (inner s) now) tid q")
  case (Some r)
  have r: "table_get (sweep (inner s) now) tid = Some r" "owner r = q"
    using Some by (simp_all add: find_owned_Some)
  have "\<forall>w. (tid, w) \<in> set (sweep (inner s) now) \<longrightarrow> w = r"
    using r(1) wf by (metis option.inject table_get_in_set wf_sweep)
  then have "table_retain (\<lambda>_ r. belongs_to r q') (table_insert tid r' (sweep (inner s) now)) =
      table_retain (\<lambda>_ r. belongs_to r q') (sweep (inner s) now)" if "owner r' = q" for r'
    using that q r(2) by (intro retain_insert_other) (auto simp: belongs_to_def)
  with Some r q show ?thesis
    by (auto simp: cancel_def lock_def Let_def view_of_def sweep_retain)
qed (auto simp: cancel_def lock_def Let_def view_of_def sweep_retain)

text \<open>Making room fails exactly if the unfinished tasks alone fill the store.\<close>

lemma running_remove:
  assumes "wf_table t" and "(k, r) \<in> set t" and "is_terminal (rstatus r)"
  shows "running_tasks (table_remove k t) = running_tasks t"
proof -
  have "x = r" if "(k, x) \<in> set t" for x
    using that assms(1,2) by (auto simp: wf_table_def dest: eq_key_imp_eq_value)
  with assms(3) show ?thesis
    unfolding running_tasks_def AList.delete_eq filter_filter by (intro filter_cong) auto
qed

lemma make_room_answer:
  "wf_table t \<Longrightarrow> fst (make_room t cap) =
     (if max cap 1 \<le> length (running_tasks t)
      then Inl (Internal (''the task store is full ('' @ show_nat cap @ '' records)'')) else Inr ())"
proof (induction t cap rule: make_room.induct)
  case (1 t cap)
  have le: "length (running_tasks t) \<le> length t" by (simp add: running_tasks_def)
  show ?case
  proof (cases "max cap 1 \<le> length t")
    case crowded: True
    show ?thesis
    proof (cases "oldest_terminal t")
      case None
      then have "running_tasks t = t" by (auto simp: oldest_terminal_None running_tasks_def filter_id_conv)
      with crowded None show ?thesis by (simp add: make_room.simps [of t])
    next
      case (Some k)
      from oldest_terminal_Some [OF "1.prems" Some] obtain r where "(k, r) \<in> set t" "is_terminal (rstatus r)" by auto
      with running_remove [OF "1.prems"] have "running_tasks (table_remove k t) = running_tasks t" by blast
      with "1.IH" [OF crowded Some] "1.prems" crowded Some show ?thesis by (simp add: make_room.simps [of t])
    qed
  next
    case False
    with le have "\<not> max cap 1 \<le> length (running_tasks t)" by linarith
    with False show ?thesis by (simp add: make_room.simps [of t] del: max.bounded_iff)
  qed
qed

lemma running_for_view: "running_for q (table_retain (\<lambda>_ r. belongs_to r q) t) = running_for q t"
  unfolding running_for_def running_tasks_def table_retain_def filter_filter
  by (rule arg_cong [where f = length], rule filter_cong) auto

lemma running_view: "length (running_tasks (table_retain (\<lambda>_ r. belongs_to r q) t)) \<le> length (running_tasks t)"
  unfolding running_tasks_def table_retain_def filter_filter by (induction t) auto

text \<open>
  What \<open>create\<close> answers: what it would if the requestor were alone, unless the store is full, which it is
  when the unfinished tasks of all requestors fill it.
\<close>

definition store_full :: "task_store \<Rightarrow> system_time \<Rightarrow> bool" where
  "store_full s now \<longleftrightarrow> max (max_records (config s)) 1 \<le> length (running_tasks (sweep (inner s) now))"

lemma create_view:
  assumes wf: "wf_table (inner s)"
  shows "fst (create s now entropy lifetime q) =
    (if \<not> poisoned s \<and> running_for q (sweep (inner s) now) < max_concurrent (config s) \<and> store_full s now
     then Inl (Internal (''the task store is full ('' @ show_nat (max_records (config s)) @ '' records)''))
     else fst (create (view_of q s) now entropy lifetime q))"
proof -
  let ?t = "sweep (inner s) now" and ?v = "table_retain (\<lambda>_ r. belongs_to r q) (sweep (inner s) now)"
  let ?cap = "max_records (config s)"
  have same: "config (view_of q s) = config s" "flags (view_of q s) = flags s" by (simp_all add: view_of_def)
  have wfs: "wf_table ?t" "wf_table ?v" using wf by (simp_all add: wf_table_retain)
  note rooms = make_room_answer [OF wfs(1), of ?cap] make_room_answer [OF wfs(2), of ?cap] running_view [of q ?t]
  obtain a t b v where ab: "make_room ?t ?cap = (a, t)" "make_room ?v ?cap = (b, v)" by fastforce
  show ?thesis
  proof (cases "poisoned s \<or> max_concurrent (config s) \<le> running_for q ?t")
    case True
    then show ?thesis by (auto simp: create_def lock_def Let_def same sweep_retain running_for_view)
  next
    case False
    show ?thesis
    proof (cases "store_full s now")
      case True
      with False rooms(1) ab(1) show ?thesis by (simp add: create_def lock_def Let_def store_full_def)
    next
      case room: False
      with rooms ab have "a = Inr ()" "b = Inr ()" by (auto simp: store_full_def)
      with False room ab show ?thesis by (simp add: create_def lock_def Let_def same sweep_retain running_for_view split: option.split)
    qed
  qed
qed

text \<open>A wait looks at the store only through the requestor's own records.\<close>

definition views_of :: "string option \<Rightarrow> (system_time \<times> nat \<times> task_store) list \<Rightarrow> (system_time \<times> nat \<times> task_store) list" where
  "views_of q passes = map (\<lambda>(now, instant, woken). (now, instant, view_of q woken)) passes"

lemma own_view:
  "wf_table (inner s) \<Longrightarrow> find_owned (sweep (table_retain (\<lambda>_ r. belongs_to r q) (inner s)) now) tid q =
    find_owned (sweep (inner s) now) tid q"
  by (simp add: sweep_retain find_owned_view)

lemma await_loop_view:
  "wf_table (inner s) \<Longrightarrow> list_all (\<lambda>(_, _, woken). wf_table (inner woken)) passes \<Longrightarrow>
    await_loop tid q deadline s passes = await_loop tid q deadline (view_of q s) (views_of q passes)"
  by (induction tid q deadline s passes rule: await_loop.induct)
     (auto simp: views_of_def lock_def own_view split: option.split)

text \<open>
  C11: Requestors are isolated. What \<open>tasks/get\<close>, \<open>tasks/list\<close>, \<open>tasks/cancel\<close> and \<open>tasks/result\<close> (the look at
  a task and the wait for it) answer depends only on the requestor's own records, so another
  requestor's task is indistinguishable from one that never existed. Creating a task answers so too,
  with one exception: the store may be full, which it says exactly when the requestor's own quota is
  not used up but the unfinished tasks of all requestors fill the store. A cancellation changes nothing
  of another requestor's records beyond the expiry every call performs.
\<close>

theorem requestors_are_isolated:
  assumes wf: "wf_table (inner s)"
  shows "fst (get s now tid q) = fst (get (view_of q s) now tid q) \<and>
    fst (list_tasks s now q) = fst (list_tasks (view_of q s) now q) \<and>
    fst (try_result s now tid q) = fst (try_result (view_of q s) now tid q) \<and>
    (list_all (\<lambda>(_, _, woken). wf_table (inner woken)) passes \<longrightarrow>
       await_result tid q patience start s passes = await_result tid q patience start (view_of q s) (views_of q passes)) \<and>
    fst (cancel s now now' tid q) = fst (cancel (view_of q s) now now' tid q) \<and>
    fst (create s now entropy lifetime q) =
      (if \<not> poisoned s \<and> running_for q (sweep (inner s) now) < max_concurrent (config s) \<and> store_full s now
       then Inl (Internal (''the task store is full ('' @ show_nat (max_records (config s)) @ '' records)''))
       else fst (create (view_of q s) now entropy lifetime q)) \<and>
    (q' \<noteq> q \<longrightarrow> inner (view_of q' (snd (cancel s now now' tid q))) =
       (if poisoned s then inner (view_of q' s) else sweep (inner (view_of q' s)) now))"
proof (intro conjI impI)
  note own = own_view [OF wf]
  show "fst (get s now tid q) = fst (get (view_of q s) now tid q)"
    by (auto simp: get_def Let_def own lock_def)
  show "fst (try_result s now tid q) = fst (try_result (view_of q s) now tid q)"
    by (auto simp: try_result_def Let_def own lock_def split: option.split)
  show "fst (cancel s now now' tid q) = fst (cancel (view_of q s) now now' tid q)"
    by (auto simp: cancel_def Let_def own lock_def split: option.split)
  have "filter (\<lambda>(_, r). belongs_to r q) (sweep (table_retain (\<lambda>_ r. belongs_to r q) (inner s)) now) =
      filter (\<lambda>(_, r). belongs_to r q) (sweep (inner s) now)"
    unfolding sweep_def table_retain_def filter_filter by (rule filter_cong) auto
  then show "fst (list_tasks s now q) = fst (list_tasks (view_of q s) now q)"
    by (simp add: list_tasks_def Let_def lock_def)
qed (simp_all only: create_view [OF wf] await_result_def await_loop_view [OF wf] view_cancel_other [OF wf] not_False_eq_True)

text \<open>Bob's finished task does not exist for anyone else, however long they wait for it.\<close>

theorem requestors_are_isolated_witness:
  "fst (get sample_store 7 ''b'' None) = Inl (not_found ''b'') \<and>
   await_result ''b'' None None 0 sample_store [(7, 0, sample_store)] = Some (Inl (not_found ''b''))"
proof -
  have "inner (view_of None sample_store) = [hd (inner sample_store)]" "poisoned (view_of None sample_store) = False"
    by (simp_all add: sample_defs table_retain_def belongs_to_def)
  moreover have "list_all (\<lambda>(_, _, woken). wf_table (inner woken)) [(7, 0, sample_store)]" "wf_table (inner sample_store)"
    by (simp_all add: sample_defs wf_table_def)
  ultimately show ?thesis
    using requestors_are_isolated [of sample_store 7 "''b''" None "[(7, 0, sample_store)]" None 0]
    by (simp add: views_of_def await_result_def get_def lock_def Let_def find_owned_def)
       (simp add: sample_defs sweep_def table_retain_def expired_def)
qed

definition listed_before :: "task \<Rightarrow> task \<Rightarrow> bool" where
  "listed_before a b \<longleftrightarrow>
     created_at b < created_at a \<or> (created_at a = created_at b \<and> task_id a < task_id b)"

lemma task_before_total: "task_before a b \<or> task_before b a"
  by (auto simp: task_before_def)

lemma task_before_trans: "task_before a b \<Longrightarrow> task_before b c \<Longrightarrow> task_before a c"
  by (auto simp: task_before_def)

lemma listed_before_trans: "listed_before a b \<Longrightarrow> listed_before b c \<Longrightarrow> listed_before a c"
  by (auto simp: listed_before_def)

lemma sort_tasks_strict:
  assumes "distinct (map task_id xs)"
  shows "sorted_wrt listed_before (sort_by task_before xs)"
proof -
  have "mset (map task_id (sort_by task_before xs)) = mset (map task_id xs)" by simp
  then have "distinct (map task_id (sort_by task_before xs))"
    using assms by (metis mset_eq_imp_distinct_iff)
  moreover have "sorted_wrt task_before (sort_by task_before xs)"
    by (rule sorted_sort_by) (use task_before_total task_before_trans in blast)+
  ultimately show ?thesis
    by (auto simp: sorted_wrt_iff_nth_less distinct_conv_nth task_before_def listed_before_def
        order.order_iff_strict)
qed

definition own_tasks :: "task_store \<Rightarrow> system_time \<Rightarrow> string option \<Rightarrow> task list" where
  "own_tasks s now q = map (\<lambda>(_, r). rtask r) (filter (\<lambda>(_, r). owner r = q \<and> \<not> expired r now) (inner s))"

lemma list_tasks_own:
  "\<not> poisoned s \<Longrightarrow> fst (list_tasks s now q) = Inr (sort_by task_before (own_tasks s now q))"
  unfolding list_tasks_def lock_def own_tasks_def sweep_def table_retain_def belongs_to_def Let_def
  by (simp add: filter_filter) (rule arg_cong [where f = "\<lambda>l. sort_by _ (map _ l)"], rule filter_cong, auto)

lemma own_tasks_distinct:
  assumes "store_inv s"
  shows "distinct (map task_id (own_tasks s now q))"
proof -
  have "map task_id (own_tasks s now q) =
      map fst (filter (\<lambda>(_, r). owner r = q \<and> \<not> expired r now) (inner s))"
    using assms by (auto simp: own_tasks_def store_inv_def tasks_ok_def record_ok_def)
  with store_inv_wf [OF assms] show ?thesis by (simp add: wf_table_def distinct_map_filter)
qed

text \<open>
  \<open>tasks/list\<close> is exactly the requestor's unexpired tasks, newest first and by id among
  equals, whatever the iteration order of the hash table: permuting the table changes nothing.
\<close>

theorem list_tasks_newest_first:
  assumes inv: "store_inv s" and up: "\<not> poisoned s"
  shows "\<exists>xs. fst (list_tasks s now q) = Inr xs \<and> sorted_wrt listed_before xs \<and>
     set xs = {rtask r |k r. (k, r) \<in> set (inner s) \<and> owner r = q \<and> \<not> expired r now} \<and>
     (\<forall>t. mset t = mset (inner s) \<longrightarrow> fst (list_tasks (s\<lparr>inner := t\<rparr>) now q) = Inr xs)"
proof (intro exI conjI allI impI)
  let ?xs = "sort_by task_before (own_tasks s now q)"
  show "fst (list_tasks s now q) = Inr ?xs" by (rule list_tasks_own [OF up])
  show sorted: "sorted_wrt listed_before ?xs" by (rule sort_tasks_strict [OF own_tasks_distinct [OF inv]])
  show "set ?xs = {rtask r |k r. (k, r) \<in> set (inner s) \<and> owner r = q \<and> \<not> expired r now}"
    by (force simp: own_tasks_def)
  fix t assume t: "mset t = mset (inner s)"
  let ?s = "s\<lparr>inner := t\<rparr>"
  have m: "mset (own_tasks ?s now q) = mset (own_tasks s now q)"
    using t by (simp add: own_tasks_def mset_filter)
  then have "mset (map task_id (own_tasks ?s now q)) = mset (map task_id (own_tasks s now q))"
    by (metis mset_map)
  then have "distinct (map task_id (own_tasks ?s now q))"
    using own_tasks_distinct [OF inv] by (metis mset_eq_imp_distinct_iff)
  then have "sort_by task_before (own_tasks ?s now q) = ?xs"
    by (intro sorted_wrt_unique [of listed_before] sorted sort_tasks_strict)
       (use m in \<open>auto simp: listed_before_def dest: mset_eq_setD\<close>)
  then show "fst (list_tasks ?s now q) = Inr ?xs" using list_tasks_own [of ?s now q] up by simp
qed

theorem list_tasks_newest_first_witness:
  "fst (list_tasks (sample_store\<lparr>inner := rev (inner sample_store)\<rparr>) 7 None) =
     fst (list_tasks sample_store 7 None)"
proof -
  have "\<not> poisoned sample_store" by (simp add: sample_defs)
  from list_tasks_newest_first [OF sample_store_inv this, of 7 None] show ?thesis by force
qed


text \<open>
  Making room evicts finished tasks only, oldest first, and stops below the ceiling; it
  refuses only when unfinished tasks alone fill the store.
\<close>

theorem make_room_spares_running:
  assumes wf: "wf_table t" and room: "make_room t cap = (res, t')"
  shows "case res of
      Inr _ \<Rightarrow> length t' < max cap 1 \<and>
        (\<forall>(k, r) \<in> set t. \<not> is_terminal (rstatus r) \<longrightarrow> (k, r) \<in> set t') \<and>
        (\<forall>(k, r) \<in> set t - set t'. \<forall>(k', r') \<in> set t'. is_terminal (rstatus r') \<longrightarrow>
           (created r, k) < (created r', k'))
    | Inl _ \<Rightarrow> max cap 1 \<le> card {k. \<exists>r. (k, r) \<in> set t \<and> \<not> is_terminal (rstatus r)}"
proof (cases res)
  case (Inr u)
  then have ok: "make_room_result cap t = Inr t'" using room make_room_Inr by simp
  show ?thesis
    using room.evict_bound [OF wf ok] room.evict_keeps [OF wf ok] room.evict_oldest_first [OF wf ok] Inr
    by simp
next
  case (Inl e)
  then have "make_room_result cap t = Inl e" using room by (simp add: make_room_result_def)
  with room.evict_fails_only_without_candidates [OF wf] Inl show ?thesis by simp
qed

theorem make_room_spares_running_witness:
  "make_room (inner sample_store) 2 = (Inr (), [hd (inner sample_store)]) \<and>
     is_terminal (rstatus (snd (inner sample_store ! 1)))"
proof -
  have room: "make_room (inner sample_store) 2 = (Inr (), [hd (inner sample_store)])"
    by (simp add: sample_defs make_room.simps oldest_terminal_def)
  have "wf_table (inner sample_store)" by (rule store_inv_wf [OF sample_store_inv])
  from make_room_spares_running [OF this room] room show ?thesis by (auto simp: sample_defs)
qed

lemma await_loop_deadline:
  "\<exists>(now, instant, woken) \<in> set passes. dl \<le> instant \<Longrightarrow>
     \<exists>r. await_loop tid q (Some dl) s passes = Some r"
proof (induction passes arbitrary: s)
  case (Cons pass passes)
  obtain now instant woken where "pass = (now, instant, woken)" by (cases pass)
  then show ?case
    using Cons.prems Cons.IH [of woken]
    by (cases "dl \<le> instant") (auto split: sum.split option.split)
qed simp

text \<open>
  Waiting for a result with a deadline ends: as soon as one pass of the loop reads the clock
  at or after the deadline, the wait has returned, whatever other threads did to the store.
\<close>

theorem await_result_deadline_ends:
  assumes "\<exists>(now, instant, woken) \<in> set passes. start + patience \<le> instant"
  shows "\<exists>r. await_result tid q (Some patience) start s passes = Some r"
  using await_loop_deadline [OF assms] by (simp add: await_result_def)

theorem await_result_deadline_ends_witness:
  "\<exists>r. await_result ''a'' None (Some 10) 3 sample_store [(7, 4, sample_store), (8, 13, sample_store)] = Some r"
  using await_result_deadline_ends
    [of "[(7, 4, sample_store), (8, 13, sample_store)]" 3 10 "''a''" None sample_store] by simp

lemma await_loop_outcome:
  "await_loop tid q dl s passes = Some (Inr out) \<Longrightarrow>
     \<exists>st \<in> insert s ((\<lambda>(_, _, woken). woken) ` set passes). \<exists>now r. table_get (sweep (inner st) now) tid = Some r \<and>
       owner r = q \<and> is_terminal (rstatus r) \<and> outcome r = Some out"
proof (induction tid q dl s passes rule: await_loop.induct)
  case (2 tid q dl s now instant woken passes)
  show ?case
  proof (cases "\<exists>r. find_owned (sweep (inner s) now) tid q = Some r \<and> is_terminal (rstatus r)")
    case True
    with "2.prems" show ?thesis
      by (auto simp: lock_def find_owned_Some terminal_outcome_def ok_or_eq_iff split: if_splits option.splits)
  next
    case False
    then have "await_loop tid q dl woken passes = Some (Inr out)"
      using "2.prems" by (auto simp: lock_def split: if_splits option.splits)
    moreover have "\<not> poisoned s" "find_owned (sweep (inner s) now) tid q \<noteq> None"
      using "2.prems" by (auto simp: lock_def split: if_splits option.splits)
    moreover have "\<And>x. dl = Some x \<Longrightarrow> \<not> x \<le> instant"
      using "2.prems" False by (auto simp: lock_def split: if_splits option.splits)
    ultimately have "\<exists>st \<in> insert woken ((\<lambda>(_, _, w). w) ` set passes). \<exists>now r. table_get (sweep (inner st) now) tid = Some r \<and>
       owner r = q \<and> is_terminal (rstatus r) \<and> outcome r = Some out"
      using "2.IH" False by (cases dl) (auto simp: lock_def)
    then show ?thesis by auto
  qed
qed simp

text \<open>
  A wait that returns a value returns the outcome of a terminal task of that id, owned by
  the waiter, in one of the stores it looked at.
\<close>

theorem await_result_returns_outcome:
  assumes "await_result tid q patience start s passes = Some (Inr out)"
  shows "\<exists>st \<in> insert s ((\<lambda>(_, _, woken). woken) ` set passes). \<exists>now r. table_get (sweep (inner st) now) tid = Some r \<and>
       owner r = q \<and> is_terminal (rstatus r) \<and> outcome r = Some out"
  using await_loop_outcome assms unfolding await_result_def .

theorem await_result_returns_outcome_witness:
  "\<exists>st \<in> insert sample_store {sample_store}. \<exists>now r. table_get (sweep (inner st) now) ''b'' = Some r \<and>
     outcome r = Some (Value JNull)"
proof -
  have "await_result ''b'' (Some ''bob'') None 0 sample_store [(7, 0, sample_store)] = Some (Inr (Value JNull))"
    by (simp add: sample_defs await_result_def lock_def sweep_def table_retain_def expired_def find_owned_def
        belongs_to_def terminal_outcome_def)
  from await_result_returns_outcome [OF this] show ?thesis by auto
qed

lemma create_Inr:
  assumes "create s now entropy requested own = (Inr (t, flag), s')"
  obtains tasks where "\<not> poisoned s" "make_room (sweep (inner s) now) (max_records (config s)) = (Inr (), tasks)"
    "running_for own (sweep (inner s) now) < max_concurrent (config s)"
    "t = \<lparr>task_id = new_task_id entropy, status = Working, status_message = None,
        created_at = iso8601 now, last_updated_at = iso8601 now,
        ttl = Some (min (case requested of None \<Rightarrow> default_ttl_ms (config s) | Some t \<Rightarrow> t) (max_ttl_ms (config s))),
        poll_interval = Some (poll_interval_ms (config s))\<rparr>"
    "flag = length (flags s)"
    "s' = s\<lparr>inner := table_insert (task_id t)
        \<lparr>rtask = t, outcome = None, created = now, cancelled = flag, owner = own\<rparr> tasks,
        flags := flags s @ [False]\<rparr>"
  using assms by (auto simp: create_def Let_def lock_def split: if_splits prod.splits sum.splits)

text \<open>
  What \<open>create\<close> hands out is what \<open>tasks/get\<close> then shows the same requestor, until the
  task's lifetime is over and no longer: a working task whose lifetime is the requested one (or
  the default) clamped to the maximum, with a lowered cancellation flag.
\<close>

theorem create_then_get:
  assumes inv: "store_inv s" and "create s now entropy requested own = (Inr (t, flag), s')"
  shows "fst (get s' now' (task_id t) own) =
      (if now + int (the (ttl t)) * 1000000 \<le> now' \<and> now \<le> now' then Inl (not_found (task_id t)) else Inr t) \<and>
    ttl t = Some (min (case requested of None \<Rightarrow> default_ttl_ms (config s) | Some t \<Rightarrow> t) (max_ttl_ms (config s))) \<and>
    status t = Working \<and> \<not> flags s' ! flag"
  using assms(2)
proof (rule create_Inr)
  fix tasks
  assume up: "\<not> poisoned s"
    and room: "make_room (sweep (inner s) now) (max_records (config s)) = (Inr (), tasks)"
    and t: "t = \<lparr>task_id = new_task_id entropy, status = Working, status_message = None,
        created_at = iso8601 now, last_updated_at = iso8601 now,
        ttl = Some (min (case requested of None \<Rightarrow> default_ttl_ms (config s) | Some t \<Rightarrow> t) (max_ttl_ms (config s))),
        poll_interval = Some (poll_interval_ms (config s))\<rparr>"
    and flag: "flag = length (flags s)"
    and s': "s' = s\<lparr>inner := table_insert (task_id t)
        \<lparr>rtask = t, outcome = None, created = now, cancelled = flag, owner = own\<rparr> tasks,
        flags := flags s @ [False]\<rparr>"
  have "wf_table tasks" using make_room_subset [OF wf_sweep [OF store_inv_wf [OF inv]] room] by simp
  then have "table_get (sweep (inner s') now') (task_id t) =
      (if now + int (the (ttl t)) * 1000000 \<le> now' \<and> now \<le> now' then None
       else Some \<lparr>rtask = t, outcome = None, created = now, cancelled = flag, owner = own\<rparr>)"
    unfolding s' sweep_def by (simp add: table_get_retain table_get_insert expired_def t)
  then show ?thesis
    using up unfolding s' by (simp add: get_def lock_def Let_def find_owned_def belongs_to_def t flag)
qed

theorem create_then_get_witness:
  "\<exists>t flag s'. create sample_store 9 [255, 1] None None = (Inr (t, flag), s') \<and>
     fst (get s' 10 (task_id t) None) = Inr t"
proof -
  obtain t flag s' where c: "create sample_store 9 [255, 1] None None = (Inr (t, flag), s')"
    by (simp add: sample_defs create_def lock_def Let_def sweep_def table_retain_def expired_def
        running_for_def running_tasks_def belongs_to_def make_room.simps oldest_terminal_def)
  with create_then_get [OF sample_store_inv c, of 10] show ?thesis
    by (auto simp: sample_defs)
qed

text \<open>
  A cancellation that is acknowledged sticks: the worker's flag is raised, the task is
  cancelled with its outcome set, the worker's own later \<open>finish\<close> changes nothing, so a
  cancelled task cannot turn into a completed one, and a second cancellation is refused.
\<close>

theorem cancel_beats_finish:
  assumes inv: "store_inv s" and c: "cancel s now now' tid q = (Inr t, s')"
  shows "\<exists>r. table_get (inner s') tid = Some r \<and> rtask r = t \<and> status t = Cancelled \<and> owner r = q \<and>
      outcome r = Some (Error (new_error (-32603) ''Task was cancelled'')) \<and>
      flags s' ! cancelled r \<and>
      finish s' now'' tid st out = (Inr (), s') \<and>
      (\<forall>n. \<exists>e. fst (cancel s' n n tid q) = Inl e)"
proof -
  obtain r where r: "find_owned (sweep (inner s) now) tid q = Some r" "\<not> poisoned s" "\<not> is_terminal (rstatus r)"
    using c by (auto simp: cancel_def lock_def Let_def split: if_splits option.splits)
  have own: "table_get (sweep (inner s) now) tid = Some r" "owner r = q" using r(1) by (simp_all add: find_owned_Some)
  have "tasks_ok (config s) (length (flags s)) (sweep (inner s) now)"
    using inv by (simp add: store_inv_def tasks_ok_sweep)
  then have "cancelled r < length (flags s)" using tasks_ok_record own(1) by (fastforce simp: record_ok_def)
  moreover have "wf_table (inner s')"
    using c r store_inv_wf [OF inv] by (auto simp: cancel_def lock_def Let_def)
  ultimately show ?thesis
    using c r own
    by (auto simp: cancel_def lock_def Let_def table_get_insert finish_def table_get_retain sweep_def
        find_owned_def split: option.splits if_splits)
qed

theorem cancel_beats_finish_witness:
  "\<exists>t s'. cancel sample_store 7 8 ''a'' None = (Inr t, s') \<and>
     finish s' 9 ''a'' Completed (Value JNull) = (Inr (), s')"
proof -
  obtain t s' where c: "cancel sample_store 7 8 ''a'' None = (Inr t, s')"
    by (simp add: sample_defs cancel_def lock_def Let_def sweep_def table_retain_def expired_def
        find_owned_def belongs_to_def)
  with cancel_beats_finish [OF sample_store_inv c] show ?thesis by blast
qed

lemma random_hex_id_inject:
  "length a = length b \<Longrightarrow> random_hex_id a = random_hex_id b \<longleftrightarrow> a = b"
  by (induction a b rule: list_induct2)
     (auto simp: random_hex_id_def show_hex_byte_inject append_eq_append_conv)

text \<open>
  Task ids carry all of their entropy: sixteen random bytes give 32 hexadecimal digits, and
  two draws give the same id only when every byte is the same.
\<close>

theorem new_task_id_unique:
  assumes "length a = 16" and "length b = 16"
  shows "length (new_task_id a) = 32 \<and> (new_task_id a = new_task_id b \<longleftrightarrow> a = b)"
  using assms random_hex_id_inject [of a b]
  by (simp add: new_task_id_def random_hex_id_def length_concat sum_list_replicate o_def sum_list_triv)

theorem new_task_id_unique_witness:
  "new_task_id (replicate 16 0) \<noteq> new_task_id (replicate 15 0 @ [1])"
  using new_task_id_unique [of "replicate 16 0" "replicate 15 0 @ [1]"] by (simp add: numeral_eq_Suc)

end
