(* ===== verification/Protocol.thy ===== *)
theory Protocol
  imports Tasks
begin

text \<open>
  The protocol's data types (\<open>types/protocol.rs\<close>, with the capability types of
  \<open>types/sampling.rs\<close> and \<open>types/elicitation.rs\<close> and the wire types of \<open>tasks.rs\<close>): what the
  server advertises and returns, as records with their serialization, and what a client sends, with
  the derived deserializers written out. A float is its bit pattern; \<open>_meta\<close> is an object's
  entries. The properties are about the server that uses them.
\<close>

section \<open>Versions\<close>

definition PROTOCOL_VERSION :: string where
  "PROTOCOL_VERSION = ''2025-11-25''"

definition SUPPORTED_PROTOCOL_VERSIONS :: "string list" where
  "SUPPORTED_PROTOCOL_VERSIONS = [''2025-11-25'', ''2025-06-18'', ''2025-03-26'']"

definition ASSUMED_PROTOCOL_VERSION :: string where
  "ASSUMED_PROTOCOL_VERSION = ''2025-03-26''"

definition is_supported_protocol_version :: "string \<Rightarrow> bool" where
  "is_supported_protocol_version v \<longleftrightarrow> v \<in> set SUPPORTED_PROTOCOL_VERSIONS"

type_synonym meta = "(string \<times> json) list"

section \<open>Serialization helpers\<close>

definition jopt :: "string \<Rightarrow> ('a \<Rightarrow> json) \<Rightarrow> 'a option \<Rightarrow> (string \<times> json) list" where
  "jopt k f m = opt_field k (map_option f m)"

text \<open>\<open>skip_serializing_if = "Vec::is_empty"\<close> and \<open>"std::ops::Not::not"\<close>.\<close>

definition jlist :: "string \<Rightarrow> ('a \<Rightarrow> json) \<Rightarrow> 'a list \<Rightarrow> (string \<times> json) list" where
  "jlist k f xs = (if xs = [] then [] else [(k, JArray (map f xs))])"

definition jflag :: "string \<Rightarrow> bool \<Rightarrow> (string \<times> json) list" where
  "jflag k b = (if b then [(k, JBool True)] else [])"

definition jnat :: "nat \<Rightarrow> json" where
  "jnat n = JNumber (JInt (int n))"

text \<open>A float that is not finite has no JSON number and becomes null.\<close>

definition json_of_f64 :: "64 word \<Rightarrow> json" where
  "json_of_f64 x = (if take_bit 11 (drop_bit 52 x) = mask 11 then JNull else JNumber (JFloat x))"

section \<open>Icons and annotations\<close>

record icon =
  ic_src :: string
  ic_mime_type :: "string option"
  ic_sizes :: "string list"
  ic_theme :: "string option"

definition icon_to_value :: "icon \<Rightarrow> json" where
  "icon_to_value i =
     jobject ([(''src'', JString (ic_src i))] @ jopt ''mimeType'' JString (ic_mime_type i) @
       jlist ''sizes'' JString (ic_sizes i) @ jopt ''theme'' JString (ic_theme i))"

datatype role = User | Assistant

fun role_to_value :: "role \<Rightarrow> json" where
  "role_to_value User = JString ''user''"
| "role_to_value Assistant = JString ''assistant''"

record annotations =
  an_audience :: "role list"
  an_priority :: "64 word option"
  an_last_modified :: "string option"

definition annotations_to_value :: "annotations \<Rightarrow> json" where
  "annotations_to_value a =
     jobject (jlist ''audience'' role_to_value (an_audience a) @ jopt ''priority'' json_of_f64 (an_priority a) @
       jopt ''lastModified'' JString (an_last_modified a))"

section \<open>Initialization\<close>

record implementation =
  im_name :: string
  im_version :: string
  im_title :: "string option"
  im_description :: "string option"
  im_icons :: "icon list"
  im_website_url :: "string option"

definition implementation_to_value :: "implementation \<Rightarrow> json" where
  "implementation_to_value i =
     jobject ([(''name'', JString (im_name i)), (''version'', JString (im_version i))] @
       jopt ''title'' JString (im_title i) @ jopt ''description'' JString (im_description i) @
       jlist ''icons'' icon_to_value (im_icons i) @ jopt ''websiteUrl'' JString (im_website_url i))"

definition default_implementation :: implementation where
  "default_implementation = \<lparr>im_name = [], im_version = [], im_title = None, im_description = None,
     im_icons = [], im_website_url = None\<rparr>"

record sampling_capability =
  sa_tools :: "json option"
  sa_context :: "json option"

record elicitation_capability =
  el_form :: "json option"
  el_url :: "json option"

record root_capabilities =
  ro_list_changed :: bool

record client_capabilities =
  cc_experimental :: "(string \<times> json) list"
  cc_sampling :: "sampling_capability option"
  cc_elicitation :: "elicitation_capability option"
  cc_roots :: "root_capabilities option"

definition no_capabilities :: client_capabilities where
  "no_capabilities = \<lparr>cc_experimental = [], cc_sampling = None, cc_elicitation = None, cc_roots = None\<rparr>"

datatype elicitation_mode = Form | Url

text \<open>\<open>ElicitationCapability::supports\<close>.\<close>

fun supports_mode :: "elicitation_capability \<Rightarrow> elicitation_mode \<Rightarrow> bool" where
  "supports_mode c Form = (el_form c \<noteq> None \<or> el_url c = None)"
| "supports_mode c Url = (el_url c \<noteq> None)"

definition supports_elicitation :: "client_capabilities \<Rightarrow> elicitation_mode \<Rightarrow> bool" where
  "supports_elicitation c mode = (case cc_elicitation c of None \<Rightarrow> False | Some e \<Rightarrow> supports_mode e mode)"

definition supports_sampling :: "client_capabilities \<Rightarrow> bool" where
  "supports_sampling c \<longleftrightarrow> cc_sampling c \<noteq> None"

definition supports_sampling_tools :: "client_capabilities \<Rightarrow> bool" where
  "supports_sampling_tools c = (case cc_sampling c of None \<Rightarrow> False | Some s \<Rightarrow> sa_tools s \<noteq> None)"

definition supports_context :: "sampling_capability \<Rightarrow> bool" where
  "supports_context s \<longleftrightarrow> sa_context s \<noteq> None"

definition supports_roots :: "client_capabilities \<Rightarrow> bool" where
  "supports_roots c \<longleftrightarrow> cc_roots c \<noteq> None"

record initialize_params =
  ip_protocol_version :: string
  ip_capabilities :: client_capabilities
  ip_client_info :: implementation

definition default_initialize_params :: initialize_params where
  "default_initialize_params = \<lparr>ip_protocol_version = [], ip_capabilities = no_capabilities,
     ip_client_info = default_implementation\<rparr>"

text \<open>\<open>ToolsCapability\<close>, \<open>ResourcesCapability\<close> and \<open>PromptsCapability\<close>.\<close>

record tools_capability =
  tc_list_changed :: bool

record resources_capability =
  rc_subscribe :: bool
  rc_list_changed :: bool

record prompts_capability =
  pc_list_changed :: bool

record tasks_capability =
  kc_list :: "json option"
  kc_cancel :: "json option"
  kc_requests :: "json option"

record server_capabilities =
  sc_tools :: "tools_capability option"
  sc_resources :: "resources_capability option"
  sc_prompts :: "prompts_capability option"
  sc_logging :: "json option"
  sc_tasks :: "tasks_capability option"
  sc_experimental :: "json option"

definition tasks_capability_to_value :: "tasks_capability \<Rightarrow> json" where
  "tasks_capability_to_value c =
     jobject (opt_field ''list'' (kc_list c) @ opt_field ''cancel'' (kc_cancel c) @
       opt_field ''requests'' (kc_requests c))"

definition server_capabilities_to_value :: "server_capabilities \<Rightarrow> json" where
  "server_capabilities_to_value c =
     jobject (jopt ''tools'' (\<lambda>t. jobject (jflag ''listChanged'' (tc_list_changed t))) (sc_tools c) @
       jopt ''resources'' (\<lambda>r. jobject (jflag ''subscribe'' (rc_subscribe r) @
         jflag ''listChanged'' (rc_list_changed r))) (sc_resources c) @
       jopt ''prompts'' (\<lambda>p. jobject (jflag ''listChanged'' (pc_list_changed p))) (sc_prompts c) @
       opt_field ''logging'' (sc_logging c) @
       jopt ''tasks'' tasks_capability_to_value (sc_tasks c) @
       opt_field ''experimental'' (sc_experimental c))"

record initialize_result =
  ir_protocol_version :: string
  ir_capabilities :: server_capabilities
  ir_server_info :: implementation
  ir_instructions :: "string option"

definition initialize_result_to_value :: "initialize_result \<Rightarrow> json" where
  "initialize_result_to_value r =
     jobject ([(''protocolVersion'', JString (ir_protocol_version r)),
       (''capabilities'', server_capabilities_to_value (ir_capabilities r)),
       (''serverInfo'', implementation_to_value (ir_server_info r))] @
       jopt ''instructions'' JString (ir_instructions r))"


section \<open>Tools\<close>

datatype task_support = Forbidden | Optional | Required

fun task_support_to_value :: "task_support \<Rightarrow> json" where
  "task_support_to_value Forbidden = JString ''forbidden''"
| "task_support_to_value Optional = JString ''optional''"
| "task_support_to_value Required = JString ''required''"

record tool_execution =
  tx_task_support :: "task_support option"

record tool_annotations =
  ta_title :: "string option"
  ta_read_only_hint :: bool
  ta_idempotent_hint :: bool
  ta_destructive_hint :: bool
  ta_open_world_hint :: "bool option"

definition tool_annotations_to_value :: "tool_annotations \<Rightarrow> json" where
  "tool_annotations_to_value a =
     jobject (jopt ''title'' JString (ta_title a) @ jflag ''readOnlyHint'' (ta_read_only_hint a) @
       jflag ''idempotentHint'' (ta_idempotent_hint a) @ jflag ''destructiveHint'' (ta_destructive_hint a) @
       jopt ''openWorldHint'' JBool (ta_open_world_hint a))"

record wire_tool =
  wt_name :: string
  wt_title :: "string option"
  wt_description :: "string option"
  wt_input_schema :: json
  wt_output_schema :: "json option"
  wt_annotations :: "tool_annotations option"
  wt_icons :: "icon list"
  wt_execution :: "tool_execution option"
  wt_meta :: "meta option"

definition tool_execution_to_value :: "tool_execution \<Rightarrow> json" where
  "tool_execution_to_value x = jobject (jopt ''taskSupport'' task_support_to_value (tx_task_support x))"

definition wire_tool_to_value :: "wire_tool \<Rightarrow> json" where
  "wire_tool_to_value t =
     jobject ([(''name'', JString (wt_name t))] @ jopt ''title'' JString (wt_title t) @
       jopt ''description'' JString (wt_description t) @ [(''inputSchema'', wt_input_schema t)] @
       opt_field ''outputSchema'' (wt_output_schema t) @
       jopt ''annotations'' tool_annotations_to_value (wt_annotations t) @
       jlist ''icons'' icon_to_value (wt_icons t) @
       jopt ''execution'' tool_execution_to_value (wt_execution t) @ jopt ''_meta'' JObject (wt_meta t))"

definition is_valid_tool_name :: "string \<Rightarrow> bool" where
  "is_valid_tool_name name \<longleftrightarrow> name \<noteq> [] \<and> length name \<le> 128 \<and>
     list_all (\<lambda>b. is_ascii_alphanumeric b \<or> b = CHR ''_'' \<or> b = CHR ''-'' \<or> b = CHR ''.'') name"

text \<open>The page of a list operation, whatever the list holds.\<close>

definition page_to_value :: "string \<Rightarrow> ('a \<Rightarrow> json) \<Rightarrow> 'a list \<times> string option \<Rightarrow> json" where
  "page_to_value k f p = jobject ([(k, JArray (map f (fst p)))] @ jopt ''nextCursor'' JString (snd p))"

section \<open>Content\<close>

datatype resource_content =
    TextContents string string "string option"
  | BlobContents string string "string option"

fun resource_content_to_value :: "resource_content \<Rightarrow> json" where
  "resource_content_to_value (TextContents uri body mime) =
     jobject ([(''uri'', JString uri), (''text'', JString body)] @ jopt ''mimeType'' JString mime)"
| "resource_content_to_value (BlobContents uri blob mime) =
     jobject ([(''uri'', JString uri), (''blob'', JString blob)] @ jopt ''mimeType'' JString mime)"

record resource_link =
  rl_uri :: string
  rl_name :: string
  rl_title :: "string option"
  rl_description :: "string option"
  rl_mime_type :: "string option"
  rl_size :: "nat option"

datatype content =
    TextBlock string "annotations option"
  | Image string string "annotations option"
  | Audio string string "annotations option"
  | ResourceLink resource_link "annotations option"
  | Embedded resource_content "annotations option"

fun content_to_value :: "content \<Rightarrow> json" where
  "content_to_value (TextBlock s a) =
     jobject ([(''type'', JString ''text''), (''text'', JString s)] @ jopt ''annotations'' annotations_to_value a)"
| "content_to_value (Image d mime a) =
     jobject ([(''type'', JString ''image''), (''data'', JString d), (''mimeType'', JString mime)] @
       jopt ''annotations'' annotations_to_value a)"
| "content_to_value (Audio d mime a) =
     jobject ([(''type'', JString ''audio''), (''data'', JString d), (''mimeType'', JString mime)] @
       jopt ''annotations'' annotations_to_value a)"
| "content_to_value (ResourceLink l a) =
     jobject ([(''type'', JString ''resource_link''), (''uri'', JString (rl_uri l)), (''name'', JString (rl_name l))] @
       jopt ''title'' JString (rl_title l) @ jopt ''description'' JString (rl_description l) @
       jopt ''mimeType'' JString (rl_mime_type l) @ jopt ''size'' jnat (rl_size l) @
       jopt ''annotations'' annotations_to_value a)"
| "content_to_value (Embedded r a) =
     jobject ([(''type'', JString ''resource''), (''resource'', resource_content_to_value r)] @
       jopt ''annotations'' annotations_to_value a)"

fun as_text :: "content \<Rightarrow> string option" where
  "as_text (TextBlock s _) = Some s"
| "as_text _ = None"

record call_tool_result =
  cr_content :: "content list"
  cr_is_error :: bool
  cr_structured_content :: "json option"
  cr_meta :: "meta option"

definition error_result :: "string \<Rightarrow> call_tool_result" where
  "error_result m = \<lparr>cr_content = [TextBlock m None], cr_is_error = True, cr_structured_content = None,
     cr_meta = None\<rparr>"

definition call_tool_result_to_value :: "call_tool_result \<Rightarrow> json" where
  "call_tool_result_to_value r =
     jobject ([(''content'', JArray (map content_to_value (cr_content r)))] @ jflag ''isError'' (cr_is_error r) @
       opt_field ''structuredContent'' (cr_structured_content r) @ jopt ''_meta'' JObject (cr_meta r))"

section \<open>Resources and prompts\<close>

record wire_resource =
  wr_uri :: string
  wr_name :: string
  wr_title :: "string option"
  wr_description :: "string option"
  wr_mime_type :: "string option"
  wr_size :: "nat option"
  wr_icons :: "icon list"
  wr_annotations :: "annotations option"
  wr_meta :: "meta option"

definition wire_resource_to_value :: "wire_resource \<Rightarrow> json" where
  "wire_resource_to_value r =
     jobject ([(''uri'', JString (wr_uri r)), (''name'', JString (wr_name r))] @
       jopt ''title'' JString (wr_title r) @ jopt ''description'' JString (wr_description r) @
       jopt ''mimeType'' JString (wr_mime_type r) @ jopt ''size'' jnat (wr_size r) @
       jlist ''icons'' icon_to_value (wr_icons r) @ jopt ''annotations'' annotations_to_value (wr_annotations r) @
       jopt ''_meta'' JObject (wr_meta r))"

record resource_template =
  rt_uri_template :: string
  rt_name :: string
  rt_title :: "string option"
  rt_description :: "string option"
  rt_mime_type :: "string option"
  rt_icons :: "icon list"
  rt_annotations :: "annotations option"
  rt_meta :: "meta option"

definition resource_template_to_value :: "resource_template \<Rightarrow> json" where
  "resource_template_to_value r =
     jobject ([(''uriTemplate'', JString (rt_uri_template r)), (''name'', JString (rt_name r))] @
       jopt ''title'' JString (rt_title r) @ jopt ''description'' JString (rt_description r) @
       jopt ''mimeType'' JString (rt_mime_type r) @ jlist ''icons'' icon_to_value (rt_icons r) @
       jopt ''annotations'' annotations_to_value (rt_annotations r) @ jopt ''_meta'' JObject (rt_meta r))"

record prompt_argument =
  pa_name :: string
  pa_title :: "string option"
  pa_description :: "string option"
  pa_required :: bool

definition prompt_argument_to_value :: "prompt_argument \<Rightarrow> json" where
  "prompt_argument_to_value a =
     jobject ([(''name'', JString (pa_name a))] @ jopt ''title'' JString (pa_title a) @
       jopt ''description'' JString (pa_description a) @ [(''required'', JBool (pa_required a))])"

record wire_prompt =
  wp_name :: string
  wp_title :: "string option"
  wp_description :: "string option"
  wp_arguments :: "prompt_argument list"
  wp_icons :: "icon list"
  wp_meta :: "meta option"

definition wire_prompt_to_value :: "wire_prompt \<Rightarrow> json" where
  "wire_prompt_to_value p =
     jobject ([(''name'', JString (wp_name p))] @ jopt ''title'' JString (wp_title p) @
       jopt ''description'' JString (wp_description p) @
       jlist ''arguments'' prompt_argument_to_value (wp_arguments p) @
       jlist ''icons'' icon_to_value (wp_icons p) @ jopt ''_meta'' JObject (wp_meta p))"

record prompt_message =
  pm_role :: role
  pm_content :: content

definition prompt_message_to_value :: "prompt_message \<Rightarrow> json" where
  "prompt_message_to_value m =
     jobject [(''role'', role_to_value (pm_role m)), (''content'', content_to_value (pm_content m))]"

definition get_prompt_result_to_value :: "string option \<Rightarrow> prompt_message list \<Rightarrow> json" where
  "get_prompt_result_to_value description messages =
     jobject (jopt ''description'' JString description @
       [(''messages'', JArray (map prompt_message_to_value messages))])"

section \<open>Tasks on the wire\<close>

definition task_to_value :: "task \<Rightarrow> json" where
  "task_to_value t =
     jobject ([(''taskId'', JString (task_id t)), (''status'', JString (status_name (status t)))] @
       jopt ''statusMessage'' JString (status_message t) @
       [(''createdAt'', JString (created_at t)), (''lastUpdatedAt'', JString (last_updated_at t)),
        (''ttl'', case ttl t of None \<Rightarrow> JNull | Some n \<Rightarrow> jnat n)] @
       jopt ''pollInterval'' jnat (poll_interval t))"

definition create_task_result_to_value :: "task \<Rightarrow> meta option \<Rightarrow> json" where
  "create_task_result_to_value t m = jobject ([(''task'', task_to_value t)] @ jopt ''_meta'' JObject m)"


section \<open>What a client sends\<close>

fun string_of :: "json \<Rightarrow> de_error + string" where
  "string_of (JString s) = Inr s"
| "string_of _ = Inl (InvalidType ''string'')"

fun bool_of :: "json \<Rightarrow> de_error + bool" where
  "bool_of (JBool b) = Inr b"
| "bool_of _ = Inl (InvalidType ''bool'')"

fun u64_of :: "json \<Rightarrow> de_error + nat" where
  "u64_of (JNumber (JInt n)) = (if 0 \<le> n \<and> n < int u64_bound then Inr (nat n) else Inl (InvalidType ''u64''))"
| "u64_of _ = Inl (InvalidType ''u64'')"

fun map_of_value :: "json \<Rightarrow> de_error + (string \<times> json) list" where
  "map_of_value (JObject kvs) = Inr kvs"
| "map_of_value _ = Inl (InvalidType ''map'')"

fun traverse :: "('a \<Rightarrow> 'e + 'b) \<Rightarrow> 'a list \<Rightarrow> 'e + 'b list" where
  "traverse f [] = Inr []"
| "traverse f (x # xs) = and_then (f x) (\<lambda>y. map_ok (\<lambda>ys. y # ys) (traverse f xs))"

fun list_of :: "(json \<Rightarrow> de_error + 'a) \<Rightarrow> json \<Rightarrow> de_error + 'a list" where
  "list_of f (JArray xs) = traverse f xs"
| "list_of f _ = Inl (InvalidType ''sequence'')"

text \<open>An \<open>Option\<close> field, a \<open>default\<close> field and a required one.\<close>

definition opt_of :: "(json \<Rightarrow> de_error + 'a) \<Rightarrow> string \<Rightarrow> json \<Rightarrow> de_error + 'a option" where
  "opt_of f k v =
     (case json_get k v of None \<Rightarrow> Inr None | Some JNull \<Rightarrow> Inr None | Some x \<Rightarrow> map_ok Some (f x))"

definition default_of :: "(json \<Rightarrow> de_error + 'a) \<Rightarrow> 'a \<Rightarrow> string \<Rightarrow> json \<Rightarrow> de_error + 'a" where
  "default_of f d k v = (case json_get k v of None \<Rightarrow> Inr d | Some x \<Rightarrow> f x)"

definition field_of :: "(json \<Rightarrow> de_error + 'a) \<Rightarrow> string \<Rightarrow> json \<Rightarrow> de_error + 'a" where
  "field_of f k v = (case json_get k v of None \<Rightarrow> Inl (MissingField k) | Some x \<Rightarrow> f x)"

definition icon_of :: "json \<Rightarrow> de_error + icon" where
  "icon_of v =
     and_then (as_struct [''src'', ''mimeType'', ''sizes'', ''theme''] 4 v) (\<lambda>v.
     and_then (opt_of string_of ''mimeType'' v) (\<lambda>mime.
     and_then (default_of (list_of string_of) [] ''sizes'' v) (\<lambda>sizes.
     and_then (field_of string_of ''src'' v) (\<lambda>src.
     and_then (opt_of string_of ''theme'' v) (\<lambda>theme.
       Inr \<lparr>ic_src = src, ic_mime_type = mime, ic_sizes = sizes, ic_theme = theme\<rparr>)))))"

definition implementation_of :: "json \<Rightarrow> de_error + implementation" where
  "implementation_of v =
     and_then (as_struct [''name'', ''version'', ''title'', ''description'', ''icons'', ''websiteUrl''] 6 v) (\<lambda>v.
     and_then (opt_of string_of ''description'' v) (\<lambda>description.
     and_then (default_of (list_of icon_of) [] ''icons'' v) (\<lambda>icons.
     and_then (field_of string_of ''name'' v) (\<lambda>name.
     and_then (opt_of string_of ''title'' v) (\<lambda>title.
     and_then (field_of string_of ''version'' v) (\<lambda>version.
     and_then (opt_of string_of ''websiteUrl'' v) (\<lambda>url.
       Inr \<lparr>im_name = name, im_version = version, im_title = title, im_description = description,
         im_icons = icons, im_website_url = url\<rparr>)))))))"

definition sampling_capability_of :: "json \<Rightarrow> de_error + sampling_capability" where
  "sampling_capability_of v =
     and_then (as_struct [''tools'', ''context''] 0 v) (\<lambda>v.
       Inr \<lparr>sa_tools = optional_value ''tools'' v, sa_context = optional_value ''context'' v\<rparr>)"

definition elicitation_capability_of :: "json \<Rightarrow> de_error + elicitation_capability" where
  "elicitation_capability_of v =
     and_then (as_struct [''form'', ''url''] 0 v) (\<lambda>v.
       Inr \<lparr>el_form = optional_value ''form'' v, el_url = optional_value ''url'' v\<rparr>)"

definition root_capabilities_of :: "json \<Rightarrow> de_error + root_capabilities" where
  "root_capabilities_of v =
     and_then (as_struct [''listChanged''] 0 v) (\<lambda>v.
       map_ok (\<lambda>b. \<lparr>ro_list_changed = b\<rparr>) (default_of bool_of False ''listChanged'' v))"

definition client_capabilities_of :: "json \<Rightarrow> de_error + client_capabilities" where
  "client_capabilities_of v =
     and_then (as_struct [''experimental'', ''sampling'', ''elicitation'', ''roots''] 0 v) (\<lambda>v.
     and_then (opt_of elicitation_capability_of ''elicitation'' v) (\<lambda>elicitation.
     and_then (default_of map_of_value [] ''experimental'' v) (\<lambda>experimental.
     and_then (opt_of root_capabilities_of ''roots'' v) (\<lambda>roots.
     and_then (opt_of sampling_capability_of ''sampling'' v) (\<lambda>sampling.
       Inr \<lparr>cc_experimental = experimental, cc_sampling = sampling, cc_elicitation = elicitation,
         cc_roots = roots\<rparr>)))))"

definition initialize_params_of :: "json \<Rightarrow> de_error + initialize_params" where
  "initialize_params_of v =
     and_then (as_struct [''protocolVersion'', ''capabilities'', ''clientInfo''] 0 v) (\<lambda>v.
     and_then (default_of client_capabilities_of no_capabilities ''capabilities'' v) (\<lambda>capabilities.
     and_then (default_of implementation_of default_implementation ''clientInfo'' v) (\<lambda>info.
     and_then (default_of string_of [] ''protocolVersion'' v) (\<lambda>version.
       Inr \<lparr>ip_protocol_version = version, ip_capabilities = capabilities, ip_client_info = info\<rparr>))))"

text \<open>\<open>ListToolsParams\<close>, \<open>ListResourcesParams\<close>, \<open>ListResourceTemplatesParams\<close>, \<open>ListPromptsParams\<close>
  and \<open>ListTasksParams\<close> are all one optional cursor.\<close>

definition cursor_params_of :: "json \<Rightarrow> de_error + string option" where
  "cursor_params_of v = and_then (as_struct [''cursor''] 1 v) (opt_of string_of ''cursor'')"

definition task_params_of :: "json \<Rightarrow> de_error + nat option" where
  "task_params_of v = and_then (as_struct [''ttl''] 1 v) (opt_of u64_of ''ttl'')"

record call_tool_params =
  cp_name :: string
  cp_arguments :: "json option"
  cp_task :: "nat option option"
  cp_meta :: "meta option"

definition call_tool_params_of :: "json \<Rightarrow> de_error + call_tool_params" where
  "call_tool_params_of v =
     and_then (as_struct [''name'', ''arguments'', ''task'', ''_meta''] 1 v) (\<lambda>v.
     and_then (opt_of map_of_value ''_meta'' v) (\<lambda>metadata.
     and_then (field_of string_of ''name'' v) (\<lambda>name.
     and_then (opt_of task_params_of ''task'' v) (\<lambda>task.
       Inr \<lparr>cp_name = name, cp_arguments = optional_value ''arguments'' v, cp_task = task,
         cp_meta = metadata\<rparr>))))"

definition progress_token :: "call_tool_params \<Rightarrow> request_id option" where
  "progress_token p =
     (case cp_meta p of
        None \<Rightarrow> None
      | Some m \<Rightarrow>
          (case map_of m ''progressToken'' of
             Some (JString s) \<Rightarrow> Some (IdString s)
           | Some (JNumber (JInt n)) \<Rightarrow> if - (2 ^ 63) \<le> n \<and> n < 2 ^ 63 then Some (IdNumber n) else None
           | _ \<Rightarrow> None))"

definition read_resource_params_of :: "json \<Rightarrow> de_error + string" where
  "read_resource_params_of v = and_then (as_struct [''uri''] 1 v) (field_of string_of ''uri'')"

definition task_id_params_of :: "json \<Rightarrow> de_error + string" where
  "task_id_params_of v = and_then (as_struct [''taskId''] 1 v) (field_of string_of ''taskId'')"

definition set_level_params_of :: "json \<Rightarrow> de_error + string" where
  "set_level_params_of v = and_then (as_struct [''level''] 1 v) (field_of string_of ''level'')"

definition string_map_of :: "json \<Rightarrow> de_error + (string \<times> string) list" where
  "string_map_of v =
     and_then (map_of_value v) (traverse (\<lambda>(k, x). map_ok (\<lambda>s. (k, s)) (string_of x)))"

definition get_prompt_params_of :: "json \<Rightarrow> de_error + string \<times> (string \<times> string) list" where
  "get_prompt_params_of v =
     and_then (as_struct [''name'', ''arguments''] 1 v) (\<lambda>v.
     and_then (default_of string_map_of [] ''arguments'' v) (\<lambda>arguments.
     and_then (field_of string_of ''name'' v) (\<lambda>name. Inr (name, arguments))))"

end
