(* ===== verification/Broker.thy ===== *)
theory Broker
  imports JsonRpc
begin

text \<open>
  The request broker (\<open>broker.rs\<close>): routing of the client's answers to the server's own requests,
  and the queue of client messages read while something else was being waited for. The one-slot
  channels that waiters on other threads block on are part of the state, as a heap the waiter
  table points into; a channel remembers whether each of its ends still exists, because that is
  what wakes a waiter whose request was given up. Every method takes its locks for the length of
  its own work and recovers them when poisoned, so a method is one step. The properties: all
  queues are bounded whatever a peer sends, a registered waiter gets the first answer and only
  that one, an abandoned request's late answer is discarded, deferred messages come out in
  arrival order, and ids are fresh.
\<close>

section \<open>Data\<close>

definition MAX_ABANDONED :: nat where "MAX_ABANDONED = 64"

definition MAX_PARKED :: nat where "MAX_PARKED = 16"

definition MAX_DEFERRED :: nat where "MAX_DEFERRED = 256"

text \<open>\<open>sync_channel(1)\<close>: at most one message waiting, and the two ends.\<close>

record channel =
  slot :: "jsonrpc_response option"
  sender_live :: bool
  receiver_live :: bool

record broker =
  next_id :: "64 word"
  parked :: "jsonrpc_response list"
  deferred :: "jsonrpc_message list"
  abandoned :: "request_id list"
  waiters :: "(request_id, nat) table"
  channels :: "channel list"

definition new_broker :: broker where
  "new_broker = \<lparr>next_id = 0, parked = [], deferred = [], abandoned = [], waiters = [], channels = []\<rparr>"

section \<open>Channels\<close>

definition drop_sender :: "nat option \<Rightarrow> channel list \<Rightarrow> channel list" where
  "drop_sender c cs = (case c of None \<Rightarrow> cs | Some i \<Rightarrow> cs[i := (cs ! i)\<lparr>sender_live := False\<rparr>])"

text \<open>\<open>try_send\<close>, whose \<open>Full\<close> and \<open>Disconnected\<close> the caller ignores.\<close>

definition try_send :: "nat \<Rightarrow> jsonrpc_response \<Rightarrow> channel list \<Rightarrow> channel list" where
  "try_send i r cs =
     (if receiver_live (cs ! i) \<and> slot (cs ! i) = None then cs[i := (cs ! i)\<lparr>slot := Some r\<rparr>] else cs)"

datatype received = Got jsonrpc_response | Disconnected | Empty

text \<open>What a receiver sees when it looks: the message, that none can come any more, or nothing yet.\<close>

definition recv :: "broker \<Rightarrow> nat \<Rightarrow> received \<times> broker" where
  "recv b i =
     (case slot (channels b ! i) of
        Some r \<Rightarrow> (Got r, b\<lparr>channels := (channels b)[i := (channels b ! i)\<lparr>slot := None\<rparr>]\<rparr>)
      | None \<Rightarrow> (if sender_live (channels b ! i) then Empty else Disconnected, b))"

definition drop_receiver :: "broker \<Rightarrow> nat \<Rightarrow> broker" where
  "drop_receiver b i =
     b\<lparr>channels := (channels b)[i := (channels b ! i)\<lparr>receiver_live := False\<rparr>]\<rparr>"

section \<open>Operations\<close>

definition next_request_id :: "broker \<Rightarrow> request_id \<times> broker" where
  "next_request_id b =
     (IdString (''sml-'' @ show_nat (unat (next_id b))), b\<lparr>next_id := next_id b + 1\<rparr>)"

text \<open>Removal of the first match, as \<open>position\<close> followed by \<open>remove\<close>.\<close>

fun remove_first :: "('a \<Rightarrow> bool) \<Rightarrow> 'a list \<Rightarrow> 'a list" where
  "remove_first P [] = []"
| "remove_first P (x # xs) = (if P x then xs else x # remove_first P xs)"

definition take_parked :: "broker \<Rightarrow> request_id \<Rightarrow> jsonrpc_response option \<times> broker" where
  "take_parked b i =
     (case find (\<lambda>r. rs_id r = i) (parked b) of
        None \<Rightarrow> (None, b)
      | Some r \<Rightarrow> (Some r, b\<lparr>parked := remove_first (\<lambda>r. rs_id r = i) (parked b)\<rparr>))"

definition was_issued_here :: "broker \<Rightarrow> request_id \<Rightarrow> bool" where
  "was_issued_here b i =
     (case i of
        IdString text \<Rightarrow>
          (case Option.bind (strip_prefix ''sml-'' text) (parse_uint u64_bound) of
             Some n \<Rightarrow> n < unat (next_id b)
           | None \<Rightarrow> False)
      | _ \<Rightarrow> False)"

definition register_waiter :: "broker \<Rightarrow> request_id \<Rightarrow> nat \<times> broker" where
  "register_waiter b i =
     (let c = length (channels b);
          cs = channels b @ [\<lparr>slot = None, sender_live = True, receiver_live = True\<rparr>]
      in (c, b\<lparr>waiters := table_insert i c (waiters b),
               channels := drop_sender (table_get (waiters b) i) cs\<rparr>))"

definition forget_abandoned :: "broker \<Rightarrow> request_id \<Rightarrow> bool \<times> broker" where
  "forget_abandoned b i =
     (if i \<in> set (abandoned b)
      then (True, b\<lparr>abandoned := remove_first (\<lambda>known. known = i) (abandoned b)\<rparr>)
      else (False, b))"

text \<open>\<open>while queue.len() > max { queue.pop_front() }\<close>.\<close>

function trim_front :: "nat \<Rightarrow> 'a list \<Rightarrow> 'a list" where
  "trim_front n xs = (if n < length xs then trim_front n (tl xs) else xs)"
  by pat_completeness auto
termination by (relation "measure (\<lambda>(n, xs). length xs)") auto

declare trim_front.simps [simp del]

text \<open>A second answer to one id replaces the first in place.\<close>

fun replace_first :: "('a \<Rightarrow> bool) \<Rightarrow> 'a \<Rightarrow> 'a list \<Rightarrow> 'a list" where
  "replace_first P y [] = []"
| "replace_first P y (x # xs) = (if P x then y # xs else x # replace_first P y xs)"

definition park :: "broker \<Rightarrow> jsonrpc_response \<Rightarrow> broker" where
  "park b r =
     (if \<not> was_issued_here b (rs_id r) then b
      else case forget_abandoned b (rs_id r) of
             (True, b) \<Rightarrow> b
           | (False, b) \<Rightarrow>
               if \<exists>known \<in> set (parked b). rs_id known = rs_id r
               then b\<lparr>parked := replace_first (\<lambda>known. rs_id known = rs_id r) r (parked b)\<rparr>
               else b\<lparr>parked := trim_front MAX_PARKED (parked b @ [r])\<rparr>)"

definition deliver :: "broker \<Rightarrow> jsonrpc_response \<Rightarrow> broker" where
  "deliver b r =
     (case table_get (waiters b) (rs_id r) of
        Some c \<Rightarrow>
          b\<lparr>waiters := table_remove (rs_id r) (waiters b),
            channels := drop_sender (Some c) (try_send c r (channels b))\<rparr>
      | None \<Rightarrow> park b r)"

definition abandon :: "broker \<Rightarrow> request_id \<Rightarrow> broker" where
  "abandon b i =
     b\<lparr>parked := filter (\<lambda>r. rs_id r \<noteq> i) (parked b),
       channels := drop_sender (table_get (waiters b) i) (channels b),
       waiters := table_remove i (waiters b),
       abandoned := trim_front MAX_ABANDONED (abandoned b @ [i])\<rparr>"

definition broker_cancel :: "broker \<Rightarrow> request_id \<Rightarrow> bool \<times> broker" where
  "broker_cancel b i = (if was_issued_here b i then (True, abandon b i) else (False, b))"

definition defer_message :: "broker \<Rightarrow> jsonrpc_message \<Rightarrow> (jsonrpc_message + unit) \<times> broker" where
  "defer_message b m =
     (if MAX_DEFERRED \<le> length (deferred b) then (Inl m, b)
      else (Inr (), b\<lparr>deferred := deferred b @ [m]\<rparr>))"

definition next_deferred :: "broker \<Rightarrow> jsonrpc_message option \<times> broker" where
  "next_deferred b =
     (case deferred b of [] \<Rightarrow> (None, b) | m # ms \<Rightarrow> (Some m, b\<lparr>deferred := ms\<rparr>))"

definition into_result :: "jsonrpc_response \<Rightarrow> json result" where
  "into_result r =
     (case rs_error r of
        Some e \<Rightarrow> Inl (Internal (''client returned error '' @ show_int (code e) @ '': '' @ message e))
      | None \<Rightarrow> ok_or (InvalidMessage ''response has neither result nor error'') (rs_result r))"

section \<open>Lemmas on the queues\<close>

lemma trim_front_drop: "trim_front n xs = drop (length xs - n) xs"
proof (induction n xs rule: trim_front.induct)
  case (1 n xs)
  show ?case
  proof (cases "n < length xs")
    case True
    then have "length xs - n = Suc (length (tl xs) - n)" by (cases xs) auto
    with 1 True show ?thesis by (simp add: trim_front.simps [of n xs] drop_Suc)
  qed (simp add: trim_front.simps)
qed

lemma length_trim_front [simp]: "length (trim_front n xs) = min n (length xs)"
  by (simp add: trim_front_drop)

lemma set_trim_front: "set (trim_front n xs) \<subseteq> set xs"
  by (simp add: trim_front_drop set_drop_subset)

lemma remove_first_none: "\<forall>x \<in> set xs. \<not> P x \<Longrightarrow> remove_first P xs = xs"
  by (induction xs) auto

lemma set_remove_first: "set (remove_first P xs) \<subseteq> set xs"
  by (induction xs) auto

lemma length_remove_first [simp]: "length (remove_first P xs) \<le> length xs"
  by (induction xs) auto

lemma distinct_remove_first: "distinct (map f xs) \<Longrightarrow> distinct (map f (remove_first P xs))"
  by (induction xs) (use set_remove_first in \<open>fastforce+\<close>)

lemma length_replace_first [simp]: "length (replace_first P y xs) = length xs"
  by (induction xs) auto

lemma map_replace_first: "(\<And>x. P x \<Longrightarrow> f x = f y) \<Longrightarrow> map f (replace_first P y xs) = map f xs"
  by (induction xs) auto

lemma set_replace_first: "set (replace_first P y xs) \<subseteq> insert y (set xs)"
  by (induction xs) auto

lemma distinct_trim_front: "distinct (map f xs) \<Longrightarrow> distinct (map f (trim_front n xs))"
  by (simp add: trim_front_drop drop_map [symmetric])

lemma nth_drop_sender:
  "i < length cs \<Longrightarrow>
     drop_sender c cs ! i = (if c = Some i then (cs ! i)\<lparr>sender_live := False\<rparr> else cs ! i)"
  by (auto simp: drop_sender_def nth_list_update split: option.split)

lemma length_drop_sender [simp]: "length (drop_sender c cs) = length cs"
  by (simp add: drop_sender_def split: option.split)

lemma length_try_send [simp]: "length (try_send i r cs) = length cs"
  by (simp add: try_send_def)

lemma was_issued_here_string [simp]:
  "was_issued_here b (IdString (''sml-'' @ show_nat n)) \<longleftrightarrow> n < unat (next_id b)"
  using strip_prefix_append [of "''sml-''" "show_nat n"] unsigned_less [of "next_id b", where ?'a = nat]
  by (auto simp: was_issued_here_def)


section \<open>The broker as a state machine\<close>

datatype broker_op =
    NextRequestId
  | TakeParked request_id
  | RegisterWaiter request_id
  | Deliver jsonrpc_response
  | Park jsonrpc_response
  | Abandon request_id
  | CancelRequest request_id
  | Defer jsonrpc_message
  | NextDeferred
  | Recv nat
  | DropReceiver nat

fun broker_step :: "broker \<Rightarrow> broker_op \<Rightarrow> broker" where
  "broker_step b NextRequestId = snd (next_request_id b)"
| "broker_step b (TakeParked i) = snd (take_parked b i)"
| "broker_step b (RegisterWaiter i) = snd (register_waiter b i)"
| "broker_step b (Deliver r) = deliver b r"
| "broker_step b (Park r) = park b r"
| "broker_step b (Abandon i) = abandon b i"
| "broker_step b (CancelRequest i) = snd (broker_cancel b i)"
| "broker_step b (Defer m) = snd (defer_message b m)"
| "broker_step b NextDeferred = snd (next_deferred b)"
| "broker_step b (Recv c) = (if c < length (channels b) then snd (recv b c) else b)"
| "broker_step b (DropReceiver c) = (if c < length (channels b) then drop_receiver b c else b)"

text \<open>
  The waiter table and the heap fit together: every registered waiter has a channel of its own,
  still empty and with its sending end in the table.
\<close>

definition waiters_ok :: "broker \<Rightarrow> bool" where
  "waiters_ok b \<longleftrightarrow>
     wf_table (waiters b) \<and> distinct (map snd (waiters b)) \<and>
     (\<forall>(i, c) \<in> set (waiters b). c < length (channels b) \<and> slot (channels b ! c) = None \<and>
        sender_live (channels b ! c))"

definition queues_ok :: "broker \<Rightarrow> bool" where
  "queues_ok b \<longleftrightarrow>
     length (parked b) \<le> MAX_PARKED \<and> distinct (map rs_id (parked b)) \<and>
     length (abandoned b) \<le> MAX_ABANDONED \<and> length (deferred b) \<le> MAX_DEFERRED"

definition broker_inv :: "broker \<Rightarrow> bool" where
  "broker_inv b \<longleftrightarrow> waiters_ok b \<and> queues_ok b"

lemmas broker_op_defs = next_request_id_def take_parked_def register_waiter_def deliver_def abandon_def
  broker_cancel_def defer_message_def next_deferred_def recv_def drop_receiver_def Let_def

lemma forget_abandoned_simps [simp]:
  "fst (forget_abandoned b i) \<longleftrightarrow> i \<in> set (abandoned b)"
  "parked (snd (forget_abandoned b i)) = parked b" "waiters (snd (forget_abandoned b i)) = waiters b"
  "channels (snd (forget_abandoned b i)) = channels b" "deferred (snd (forget_abandoned b i)) = deferred b"
  "next_id (snd (forget_abandoned b i)) = next_id b"
  by (simp_all add: forget_abandoned_def)

lemma park_simps [simp]:
  "waiters (park b r) = waiters b" "channels (park b r) = channels b" "deferred (park b r) = deferred b"
  "next_id (park b r) = next_id b"
  by (auto simp: park_def forget_abandoned_def)

lemma queues_ok_park: "queues_ok b \<Longrightarrow> queues_ok (park b r)"
proof -
  assume q: "queues_ok b"
  have "\<forall>known \<in> set (parked b). rs_id known \<noteq> rs_id r \<Longrightarrow>
      distinct (map rs_id (trim_front MAX_PARKED (parked b @ [r])))"
    using q by (intro distinct_trim_front) (auto simp: queues_ok_def)
  with q show ?thesis
    by (auto simp: park_def forget_abandoned_def queues_ok_def map_replace_first
        intro: le_trans [OF length_remove_first])
qed

lemma queues_ok_abandon: "queues_ok b \<Longrightarrow> queues_ok (abandon b i)"
  by (auto simp: queues_ok_def abandon_def distinct_map_filter intro: order_trans [OF length_filter_le])

lemma queues_ok_step: "queues_ok b \<Longrightarrow> queues_ok (broker_step b e)"
proof (cases e)
  case (TakeParked i)
  assume "queues_ok b"
  with TakeParked show ?thesis
    by (auto simp: take_parked_def queues_ok_def distinct_remove_first split: option.split
        intro: le_trans [OF length_remove_first])
next
  case (Deliver r)
  assume q: "queues_ok b"
  with Deliver queues_ok_park [OF q, of r] show ?thesis
    by (auto simp: deliver_def queues_ok_def split: option.split)
next
  case (CancelRequest i)
  assume "queues_ok b"
  with CancelRequest queues_ok_abandon show ?thesis by (simp add: broker_cancel_def)
qed (auto simp: broker_op_defs queues_ok_park queues_ok_abandon [unfolded abandon_def], auto simp: queues_ok_def split: option.split list.split)

lemma waiters_ok_remove:
  assumes ok: "waiters_ok b" and len: "length cs = length (channels b)"
    and same: "\<And>c. c < length (channels b) \<Longrightarrow> table_get (waiters b) i \<noteq> Some c \<Longrightarrow> cs ! c = channels b ! c"
  shows "waiters_ok (b\<lparr>waiters := table_remove i (waiters b), channels := cs\<rparr>)"
proof -
  have "distinct (map snd (table_remove i (waiters b)))"
    using ok unfolding waiters_ok_def AList.delete_eq by (auto intro: distinct_map_filter)
  moreover have "table_get (waiters b) i \<noteq> Some c" if "(j, c) \<in> set (waiters b)" "j \<noteq> i" for j c
  proof
    assume "table_get (waiters b) i = Some c"
    then have "(i, c) \<in> set (waiters b)" by (rule map_of_SomeD)
    with that ok show False
      by (auto simp: waiters_ok_def distinct_map dest: inj_onD [where x = "(i, c)" and y = "(j, c)"])
  qed
  ultimately show ?thesis
    using ok len same unfolding waiters_ok_def by (fastforce simp: set_table_remove)
qed

lemma waiters_ok_deliver: "waiters_ok b \<Longrightarrow> waiters_ok (deliver b r)"
proof (cases "table_get (waiters b) (rs_id r)")
  case None
  assume "waiters_ok b"
  with None show ?thesis by (simp add: deliver_def waiters_ok_def)
next
  case (Some c)
  assume "waiters_ok b"
  then show ?thesis
    unfolding deliver_def Some option.case
    by (rule waiters_ok_remove) (auto simp: Some nth_drop_sender try_send_def nth_list_update)
qed

lemma waiters_ok_abandon: "waiters_ok b \<Longrightarrow> waiters_ok (abandon b i)"
proof -
  assume "waiters_ok b"
  then have "waiters_ok (b\<lparr>waiters := table_remove i (waiters b),
      channels := drop_sender (table_get (waiters b) i) (channels b)\<rparr>)"
    by (rule waiters_ok_remove) (auto simp: nth_drop_sender)
  then show ?thesis by (simp add: abandon_def waiters_ok_def)
qed

lemma waiters_ok_register: "waiters_ok b \<Longrightarrow> waiters_ok (snd (register_waiter b i))"
proof -
  assume ok: "waiters_ok b"
  then have wf: "wf_table (waiters b)" by (simp add: waiters_ok_def)
  let ?t = "table_insert i (length (channels b)) (waiters b)"
  have cells: "(j = i \<and> c = length (channels b)) \<or>
      (j \<noteq> i \<and> (j, c) \<in> set (waiters b) \<and> c < length (channels b) \<and> table_get (waiters b) i \<noteq> Some c)"
    if "(j, c) \<in> set ?t" for j c
  proof -
    have "(j, c) \<in> set (waiters b) \<Longrightarrow> j \<noteq> i \<Longrightarrow> table_get (waiters b) i \<noteq> Some c"
      using ok by (auto simp: waiters_ok_def distinct_map
          dest!: map_of_SomeD dest: inj_onD [where x = "(i, c)" and y = "(j, c)"])
    with table_insert_cases [OF wf that] ok show ?thesis by (auto simp: waiters_ok_def)
  qed
  have "inj_on snd (set ?t)"
  proof (rule inj_onI, clarsimp)
    fix j k c assume "(j, c) \<in> set ?t" "(k, c) \<in> set ?t"
    from cells [OF this(1)] cells [OF this(2)] ok show "j = k"
      by (auto simp: waiters_ok_def distinct_map dest: inj_onD [where x = "(j, c)" and y = "(k, c)"])
  qed
  moreover have "distinct ?t" using wf_table_insert [OF wf] by (simp add: wf_table_def distinct_map)
  moreover have "c < length (channels (snd (register_waiter b i))) \<and>
      slot (channels (snd (register_waiter b i)) ! c) = None \<and>
      sender_live (channels (snd (register_waiter b i)) ! c)" if "(j, c) \<in> set ?t" for j c
  proof -
    have "table_get (waiters b) i \<noteq> Some (length (channels b))"
      using ok by (auto simp: waiters_ok_def dest!: map_of_SomeD)
    with cells [OF that] ok show ?thesis
      by (auto simp: register_waiter_def Let_def nth_drop_sender nth_append waiters_ok_def)
  qed
  ultimately show ?thesis
    using wf by (auto simp: waiters_ok_def distinct_map register_waiter_def Let_def)
qed

lemma waiters_ok_step: "waiters_ok b \<Longrightarrow> waiters_ok (broker_step b e)"
proof (cases e)
  case (Recv c)
  assume ok: "waiters_ok b"
  then have "slot (channels b ! c) = Some r \<Longrightarrow> (j, d) \<in> set (waiters b) \<Longrightarrow> d \<noteq> c" for r j d
    by (auto simp: waiters_ok_def)
  with ok Recv show ?thesis
    by (auto simp: recv_def waiters_ok_def nth_list_update split: option.split)
next
  case (DropReceiver c)
  assume "waiters_ok b"
  with DropReceiver show ?thesis by (auto simp: drop_receiver_def waiters_ok_def nth_list_update)
next
  case (RegisterWaiter i)
  assume "waiters_ok b"
  with RegisterWaiter waiters_ok_register show ?thesis by simp
qed (auto simp: waiters_ok_deliver waiters_ok_abandon broker_cancel_def,
    auto simp: next_request_id_def take_parked_def defer_message_def next_deferred_def waiters_ok_def
      split: option.split list.split)

lemma broker_inv_new: "broker_inv new_broker"
  by (simp add: broker_inv_def waiters_ok_def queues_ok_def new_broker_def)

interpretation broker: machine broker_step broker_inv
  by unfold_locales (simp add: broker_inv_def waiters_ok_step queues_ok_step)

definition accepted :: "broker \<Rightarrow> broker_op \<Rightarrow> jsonrpc_message list" where
  "accepted b e = (case e of Defer m \<Rightarrow> (case fst (defer_message b m) of Inr _ \<Rightarrow> [m] | Inl _ \<Rightarrow> []) | _ \<Rightarrow> [])"

definition replayed :: "broker \<Rightarrow> broker_op \<Rightarrow> jsonrpc_message list" where
  "replayed b e = (case e of NextDeferred \<Rightarrow> (case fst (next_deferred b) of Some m \<Rightarrow> [m] | None \<Rightarrow> []) | _ \<Rightarrow> [])"

lemma deferred_step:
  "replayed b e @ deferred (broker_step b e) = deferred b @ accepted b e"
  by (cases e) (auto simp: accepted_def replayed_def broker_op_defs split: option.split list.split)

interpretation owed: fifo broker_step deferred accepted replayed
  by unfold_locales (rule deferred_step)


section \<open>Properties\<close>

text \<open>
  C21: Whatever a peer sends and however the calls are ordered, the broker's memory is bounded: at
  most 16 parked responses, all of different ids, at most 64 remembered abandoned ids and at
  most 256 deferred messages; and a response to an id the broker never issued changes nothing
  unless a waiter is registered for it.
\<close>

theorem broker_bounded:
  "let b = foldl broker_step new_broker es in
     length (parked b) \<le> 16 \<and> distinct (map rs_id (parked b)) \<and> length (abandoned b) \<le> 64 \<and>
     length (deferred b) \<le> 256 \<and>
     (was_issued_here b (rs_id r) \<or> table_get (waiters b) (rs_id r) \<noteq> None \<or> deliver b r = b)"
  using broker.run_inv [OF broker_inv_new, of es]
  by (auto simp: broker_inv_def queues_ok_def MAX_PARKED_def MAX_ABANDONED_def MAX_DEFERRED_def
      deliver_def park_def Let_def split: option.split)

text \<open>
  Deferred messages reach the main loop once each and in arrival order: over any run, what
  was replayed followed by what is still queued is what was queued followed by what was accepted.
\<close>

theorem deferred_in_order:
  "collect broker_step replayed b es @ deferred (foldl broker_step b es) =
     deferred b @ collect broker_step accepted b es"
  by (rule owed.run_conserves)

text \<open>A channel nobody in the waiter table points to changes at its receiver's hands only.\<close>

definition detached :: "nat \<Rightarrow> broker \<Rightarrow> bool" where
  "detached c b \<longleftrightarrow> c < length (channels b) \<and> c \<notin> snd ` set (waiters b)"

lemma detached_step:
  assumes "detached c b" and "e \<noteq> Recv c" and "e \<noteq> DropReceiver c" and "waiters_ok b"
  shows "detached c (broker_step b e) \<and> channels (broker_step b e) ! c = channels b ! c"
proof -
  have get: "table_get (waiters b) i \<noteq> Some c" for i
    using assms(1) by (force simp: detached_def dest: map_of_SomeD)
  have sub: "c \<notin> snd ` set (table_remove i (waiters b))" for i
    using assms(1) by (auto simp: detached_def set_table_remove)
  show ?thesis
  proof (cases e)
    case (RegisterWaiter i)
    have "c \<notin> snd ` set (table_insert i (length (channels b)) (waiters b))"
      using assms(1,4) by (force simp: detached_def waiters_ok_def dest!: table_insert_cases [rotated])
    with RegisterWaiter assms(1) get show ?thesis
      by (simp add: detached_def register_waiter_def Let_def nth_drop_sender nth_append)
  next
    case (Deliver r)
    with assms(1) get sub show ?thesis
      by (auto simp: detached_def deliver_def nth_drop_sender try_send_def nth_list_update split: option.split)
  qed (use assms get sub in \<open>auto simp: detached_def broker_op_defs nth_drop_sender nth_list_update
      split: option.split list.split\<close>)
qed

lemma detached_run:
  "detached c b \<Longrightarrow> waiters_ok b \<Longrightarrow> Recv c \<notin> set es \<Longrightarrow> DropReceiver c \<notin> set es \<Longrightarrow>
     channels (foldl broker_step b es) ! c = channels b ! c"
proof (induction es arbitrary: b)
  case (Cons e es)
  then have "detached c (broker_step b e) \<and> channels (broker_step b e) ! c = channels b ! c"
    by (intro detached_step) auto
  with Cons waiters_ok_step show ?case by auto
qed simp

text \<open>The calls that concern one registered waiter.\<close>

fun concerns :: "request_id \<Rightarrow> nat \<Rightarrow> broker_op \<Rightarrow> bool" where
  "concerns i c (RegisterWaiter j) = (j = i)"
| "concerns i c (Deliver r) = (rs_id r = i)"
| "concerns i c (Abandon j) = (j = i)"
| "concerns i c (CancelRequest j) = (j = i)"
| "concerns i c (Recv d) = (d = c)"
| "concerns i c (DropReceiver d) = (d = c)"
| "concerns i c _ = False"

definition waiting :: "request_id \<Rightarrow> nat \<Rightarrow> broker \<Rightarrow> bool" where
  "waiting i c b \<longleftrightarrow> waiters_ok b \<and> table_get (waiters b) i = Some c \<and> receiver_live (channels b ! c)"

lemma waiting_bounds: "waiting i c b \<Longrightarrow> c < length (channels b) \<and> slot (channels b ! c) = None \<and> sender_live (channels b ! c)"
  by (auto simp: waiting_def waiters_ok_def dest!: map_of_SomeD)

lemma waiting_other: "waiting i c b \<Longrightarrow> j \<noteq> i \<Longrightarrow> table_get (waiters b) j \<noteq> Some c"
  by (auto simp: waiting_def waiters_ok_def distinct_map dest!: map_of_SomeD
      dest: inj_onD [where x = "(i, c)" and y = "(j, c)"])

lemma waiting_step: "waiting i c b \<Longrightarrow> \<not> concerns i c e \<Longrightarrow> waiting i c (broker_step b e)"
proof -
  assume w: "waiting i c b" and e: "\<not> concerns i c e"
  have ok: "waiters_ok (broker_step b e)" using w waiters_ok_step by (simp add: waiting_def)
  have "table_get (waiters (broker_step b e)) i = Some c \<and> receiver_live (channels (broker_step b e) ! c)"
    using w e waiting_bounds [OF w] waiting_other [OF w]
    by (cases e) (auto simp: waiting_def broker_op_defs table_simps nth_drop_sender nth_append
      try_send_def nth_list_update split: option.split list.split)
  with ok show ?thesis by (simp add: waiting_def)
qed

lemma waiting_run: "waiting i c b \<Longrightarrow> list_all (\<lambda>e. \<not> concerns i c e) es \<Longrightarrow> waiting i c (foldl broker_step b es)"
  by (induction es arbitrary: b) (auto simp: waiting_step)

text \<open>
  A registered waiter gets the first answer to its request and only that one. However many
  other calls come before, and whatever comes after (a duplicate answer, an abandonment, a new
  registration of the same id), the channel holds exactly that answer until it is read, and is
  disconnected from then on.
\<close>

theorem waiter_gets_first_answer:
  assumes w: "waiting i c b" and before: "list_all (\<lambda>e. \<not> concerns i c e) es" and r: "rs_id r = i"
    and after: "Recv c \<notin> set es'" "DropReceiver c \<notin> set es'"
  shows "let b' = foldl broker_step (deliver (foldl broker_step b es) r) es' in
     fst (recv b' c) = Got r \<and> fst (recv (snd (recv b' c)) c) = Disconnected"
proof -
  let ?b = "foldl broker_step b es"
  let ?d = "deliver ?b r"
  have w': "waiting i c ?b" by (rule waiting_run [OF w before])
  note wb = waiting_bounds [OF w']
  have ok: "waiters_ok ?d" using w' waiters_ok_deliver by (simp add: waiting_def)
  have chan: "channels ?d ! c = \<lparr>slot = Some r, sender_live = False, receiver_live = True\<rparr>"
    using w' wb r by (simp add: deliver_def waiting_def nth_drop_sender try_send_def)
  have wf: "wf_table (waiters ?b)" using w' by (simp add: waiting_def waiters_ok_def)
  have "(j, c) \<notin> set (table_remove i (waiters ?b))" for j
    using waiting_other [OF w', of j] by (auto simp: set_table_remove table_get_in_set [OF wf])
  then have det: "detached c ?d"
    using w' wb r by (auto simp: detached_def deliver_def waiting_def)
  let ?b' = "foldl broker_step ?d es'"
  have "channels ?b' ! c = channels ?d ! c" by (rule detached_run [OF det ok after])
  moreover have "c < length (channels ?b')"
  proof -
    have "length (channels x) \<le> length (channels (broker_step x e))" for x e
      by (cases e) (auto simp: broker_op_defs split: option.split list.split)
    then have "length (channels x) \<le> length (channels (foldl broker_step x es'))" for x
      by (induction es' arbitrary: x) (auto intro: order_trans)
    from order.strict_trans2 [OF _ this] show ?thesis using det by (simp add: detached_def)
  qed
  ultimately show ?thesis by (simp add: chan recv_def Let_def)
qed

definition sample_response :: "string \<Rightarrow> jsonrpc_response" where
  "sample_response tid = \<lparr>rs_id = IdString tid, rs_result = Some (JBool True), rs_error = None\<rparr>"

theorem broker_bounded_witness: "deliver new_broker (sample_response ''x'') = new_broker"
  using broker_bounded [of "[]" "sample_response ''x''"]
  by (simp add: was_issued_here_def new_broker_def sample_response_def Let_def)

theorem waiter_gets_first_answer_witness:
  "let b = snd (register_waiter (snd (next_request_id new_broker)) (IdString ''sml-0''));
       b' = foldl broker_step (deliver (broker_step b NextRequestId) (sample_response ''sml-0''))
              [Abandon (IdString ''sml-0'')]
   in fst (recv b' 0) = Got (sample_response ''sml-0'')"
proof -
  let ?b = "snd (register_waiter (snd (next_request_id new_broker)) (IdString ''sml-0''))"
  have "waiting (IdString ''sml-0'') 0 ?b"
    by (simp add: waiting_def waiters_ok_def register_waiter_def next_request_id_def new_broker_def
        Let_def drop_sender_def wf_table_def)
  from waiter_gets_first_answer [OF this, of "[NextRequestId]" "sample_response ''sml-0''" "[Abandon (IdString ''sml-0'')]"]
  show ?thesis by (simp add: sample_response_def Let_def)
qed

text \<open>
  Giving up on a request wakes the thread that waits for it: the waiter's channel is
  disconnected at once, on an abandonment and on a client's cancellation alike.
\<close>

theorem abandon_wakes_waiter:
  assumes "waiting i c b"
  shows "fst (recv (abandon b i) c) = Disconnected \<and>
     (was_issued_here b i \<longrightarrow> fst (recv (snd (broker_cancel b i)) c) = Disconnected)"
  using assms waiting_bounds [OF assms]
  by (auto simp: recv_def abandon_def broker_cancel_def waiting_def nth_drop_sender)

theorem abandon_wakes_waiter_witness:
  "fst (recv (abandon (snd (register_waiter new_broker (IdNumber 7))) (IdNumber 7)) 0) = Disconnected"
  using abandon_wakes_waiter [of "IdNumber 7" 0 "snd (register_waiter new_broker (IdNumber 7))"]
  by (simp add: waiting_def waiters_ok_def register_waiter_def new_broker_def Let_def drop_sender_def wf_table_def)

text \<open>The abandoned id is at most so many places from the end of the queue.\<close>

definition remembered :: "request_id \<Rightarrow> nat \<Rightarrow> broker \<Rightarrow> bool" where
  "remembered i n b \<longleftrightarrow>
     (\<exists>xs ys. abandoned b = xs @ i # ys \<and> length ys \<le> n) \<and> table_get (waiters b) i = None \<and>
     i \<notin> rs_id ` set (parked b)"

fun revives :: "request_id \<Rightarrow> broker_op \<Rightarrow> bool" where
  "revives i (Deliver r) = (rs_id r = i)"
| "revives i (Park r) = (rs_id r = i)"
| "revives i (RegisterWaiter j) = (j = i)"
| "revives i _ = False"

fun gives_up :: "broker_op \<Rightarrow> bool" where
  "gives_up (Abandon _) = True"
| "gives_up (CancelRequest _) = True"
| "gives_up _ = False"

lemma remembered_mono: "remembered i n b \<Longrightarrow> n \<le> m \<Longrightarrow> remembered i m b"
  unfolding remembered_def using order_trans by blast

lemma remembered_abandon_other:
  assumes "remembered i n b" and "Suc n < MAX_ABANDONED"
  shows "remembered i (Suc n) (abandon b j)"
proof -
  obtain xs ys where q: "abandoned b = xs @ i # ys" "length ys \<le> n"
    using assms(1) by (auto simp: remembered_def)
  let ?d = "length (abandoned b @ [j]) - MAX_ABANDONED"
  have "?d \<le> length xs" using q assms(2) by simp
  then have "trim_front MAX_ABANDONED (abandoned b @ [j]) = drop ?d xs @ i # (ys @ [j])"
    using q by (simp add: trim_front_drop)
  moreover have "length (ys @ [j]) \<le> Suc n" using q by simp
  ultimately have "\<exists>xs ys. trim_front MAX_ABANDONED (abandoned b @ [j]) = xs @ i # ys \<and> length ys \<le> Suc n"
    by blast
  with assms(1) show ?thesis by (auto simp: remembered_def abandon_def table_simps)
qed

lemma remove_first_keeps:
  "j \<noteq> i \<Longrightarrow> \<exists>xs' ys'. remove_first (\<lambda>k. k = j) (xs @ i # ys) = xs' @ i # ys' \<and> length ys' \<le> length ys"
proof (induction xs)
  case Nil
  then have "remove_first (\<lambda>k. k = j) ([] @ i # ys) = [] @ i # remove_first (\<lambda>k. k = j) ys" by simp
  then show ?case using length_remove_first by blast
next
  case (Cons x xs)
  show ?case
  proof (cases "x = j")
    case True
    then have "remove_first (\<lambda>k. k = j) ((x # xs) @ i # ys) = xs @ i # ys" by simp
    then show ?thesis by blast
  next
    case False
    from Cons obtain xs' ys' where "remove_first (\<lambda>k. k = j) (xs @ i # ys) = xs' @ i # ys'" "length ys' \<le> length ys"
      by blast
    with False have "remove_first (\<lambda>k. k = j) ((x # xs) @ i # ys) = (x # xs') @ i # ys'" by simp
    with \<open>length ys' \<le> length ys\<close> show ?thesis by blast
  qed
qed

lemma remembered_park:
  assumes rem: "remembered i n b" and r: "rs_id r \<noteq> i"
  shows "remembered i n (park b r)"
proof -
  obtain xs ys where q: "abandoned b = xs @ i # ys" "length ys \<le> n"
    using rem by (auto simp: remembered_def)
  obtain xs' ys' where q': "remove_first (\<lambda>k. k = rs_id r) (abandoned b) = xs' @ i # ys'" "length ys' \<le> n"
    using remove_first_keeps [OF r, of xs ys] q order_trans by metis
  have "\<exists>xs ys. abandoned (park b r) = xs @ i # ys \<and> length ys \<le> n"
    using q q' by (auto simp: park_def forget_abandoned_def)
  moreover have "i \<notin> rs_id ` set (parked (park b r))"
  proof -
    have "set (parked (park b r)) \<subseteq> insert r (set (parked b))"
      using set_trim_front [of MAX_PARKED "parked b @ [r]"]
        set_replace_first [of "\<lambda>known. rs_id known = rs_id r" r "parked b"]
      by (auto simp: park_def forget_abandoned_def)
    then show ?thesis using rem r by (auto simp: remembered_def)
  qed
  ultimately show ?thesis using rem by (auto simp: remembered_def)
qed

lemma remembered_step:
  assumes rem: "remembered i n b" and e: "\<not> revives i e" and n: "gives_up e \<Longrightarrow> Suc n < MAX_ABANDONED"
  shows "remembered i (if gives_up e then Suc n else n) (broker_step b e)"
proof (cases e)
  case (Deliver r)
  with rem e remembered_park [OF rem, of r] show ?thesis
    by (auto simp: deliver_def remembered_def table_simps split: option.split)
next
  case (Park r)
  with e remembered_park [OF rem, of r] show ?thesis by simp
next
  case (TakeParked j)
  with rem set_remove_first [of "\<lambda>r. rs_id r = j" "parked b"] show ?thesis
    by (auto simp: take_parked_def remembered_def split: option.split)
next
  case (Abandon j)
  with n remembered_abandon_other [OF rem] show ?thesis by simp
next
  case (CancelRequest j)
  with n remembered_abandon_other [OF rem, of j] remembered_mono [OF rem, of "Suc n"] show ?thesis
    by (simp add: broker_cancel_def)
qed (use rem e in
  \<open>auto simp: next_request_id_def register_waiter_def defer_message_def next_deferred_def recv_def
     drop_receiver_def remembered_def Let_def table_simps split: option.split list.split\<close>)

lemma remembered_run:
  "remembered i n b \<Longrightarrow> list_all (\<lambda>e. \<not> revives i e) es \<Longrightarrow>
     n + length (filter gives_up es) < MAX_ABANDONED \<Longrightarrow>
     remembered i (n + length (filter gives_up es)) (foldl broker_step b es)"
proof (induction es arbitrary: n b)
  case (Cons e es)
  have "remembered i (if gives_up e then Suc n else n) (broker_step b e)"
    using Cons.prems by (intro remembered_step) auto
  from Cons.IH [OF this] Cons.prems show ?case by (auto split: if_splits)
qed simp

text \<open>
  A late answer to an abandoned request is discarded, no matter what happened in between, as
  long as fewer than 64 other requests were given up since: it is neither parked nor handed to
  anybody, and the first such answer also frees the remembered id.
\<close>

theorem late_answer_discarded:
  assumes quiet: "list_all (\<lambda>e. \<not> revives i e) es" and few: "length (filter gives_up es) < 64"
    and r: "rs_id r = i"
  shows "let b' = foldl broker_step (abandon b i) es in
     parked (deliver b' r) = parked b' \<and> channels (deliver b' r) = channels b' \<and>
     i \<notin> rs_id ` set (parked b') \<and>
     (was_issued_here b' i \<longrightarrow> length (abandoned (deliver b' r)) + 1 = length (abandoned b'))"
proof -
  have "remembered i 0 (abandon b i)"
    by (auto simp: remembered_def abandon_def table_simps trim_front_drop MAX_ABANDONED_def)
  from remembered_run [OF this quiet] few
  have rem: "remembered i (length (filter gives_up es)) (foldl broker_step (abandon b i) es)"
    by (simp add: MAX_ABANDONED_def)
  have len: "x \<in> set xs \<Longrightarrow> Suc (length (remove_first (\<lambda>k. k = x) xs)) = length xs" for x and xs :: "request_id list"
    by (induction xs) auto
  show ?thesis
    using rem r len [of i] by (auto simp: remembered_def deliver_def park_def forget_abandoned_def Let_def)
qed

theorem late_answer_discarded_witness:
  "parked (deliver (broker_step (abandon (snd (next_request_id new_broker)) (IdString ''sml-0'')) NextRequestId)
     (sample_response ''sml-0'')) = []"
  using late_answer_discarded [of "IdString ''sml-0''" "[NextRequestId]" "sample_response ''sml-0''"
      "snd (next_request_id new_broker)"]
  by (simp add: sample_response_def Let_def) (simp add: next_request_id_def abandon_def new_broker_def)

text \<open>
  A response is collected exactly once: after it is parked, \<open>take_parked\<close> returns it, and a
  second \<open>take_parked\<close> of the same id returns nothing.
\<close>

lemma find_replace_first:
  "\<exists>x \<in> set xs. P x \<Longrightarrow> P y \<Longrightarrow> find P (replace_first P y xs) = Some y"
  by (induction xs) auto

lemma find_snoc: "\<forall>x \<in> set xs. \<not> P x \<Longrightarrow> P y \<Longrightarrow> find P (xs @ [y]) = Some y"
  by (induction xs) auto

lemma find_remove_first_distinct:
  "distinct (map f xs) \<Longrightarrow> find (\<lambda>x. f x = v) (remove_first (\<lambda>x. f x = v) xs) = None"
  by (induction xs) (auto simp: find_None_iff image_iff)

theorem park_then_take:
  assumes "queues_ok b" and "was_issued_here b (rs_id r)" and "rs_id r \<notin> set (abandoned b)"
  shows "fst (take_parked (park b r) (rs_id r)) = Some r \<and>
     fst (take_parked (snd (take_parked (park b r) (rs_id r))) (rs_id r)) = None"
proof -
  let ?P = "\<lambda>known. rs_id known = rs_id r"
  have "find ?P (parked (park b r)) = Some r"
  proof (cases "\<exists>known \<in> set (parked b). ?P known")
    case True
    with assms show ?thesis by (simp add: park_def forget_abandoned_def find_replace_first)
  next
    case False
    have "trim_front MAX_PARKED (parked b @ [r]) = drop (length (parked b @ [r]) - MAX_PARKED) (parked b) @ [r]"
      by (simp add: trim_front_drop MAX_PARKED_def)
    moreover have "find ?P (drop n (parked b) @ [r]) = Some r" for n
      by (rule find_snoc) (use False in \<open>auto dest: in_set_dropD\<close>)
    ultimately show ?thesis
      using assms False by (simp add: park_def forget_abandoned_def)
  qed
  moreover have "distinct (map rs_id (parked (park b r)))"
    using queues_ok_park [OF assms(1), of r] by (simp add: queues_ok_def)
  ultimately show ?thesis by (simp add: take_parked_def find_remove_first_distinct)
qed

theorem park_then_take_witness:
  "fst (take_parked (park (snd (next_request_id new_broker)) (sample_response ''sml-0'')) (IdString ''sml-0'')) =
     Some (sample_response ''sml-0'')"
proof -
  let ?b = "snd (next_request_id new_broker)"
  have "was_issued_here ?b (IdString ''sml-0'')"
    by (simp add: was_issued_here_def next_request_id_def new_broker_def parse_uint_def Let_def
        is_ascii_digit_def read_digits_def digit_val_def)
  with park_then_take [of ?b "sample_response ''sml-0''"] show ?thesis
    by (simp add: sample_response_def queues_ok_def next_request_id_def new_broker_def)
qed

definition issued :: "broker \<Rightarrow> broker_op \<Rightarrow> request_id list" where
  "issued b e = (case e of NextRequestId \<Rightarrow> [fst (next_request_id b)] | _ \<Rightarrow> [])"

lemma next_id_step:
  "next_id (broker_step b e) = next_id b + of_nat (length (issued b e))"
  by (cases e) (auto simp: issued_def broker_op_defs split: option.split list.split)

lemma issued_ids:
  "unat (next_id b) + length (collect broker_step issued b es) \<le> 2 ^ 64 \<Longrightarrow>
     collect broker_step issued b es =
       map (\<lambda>n. IdString (''sml-'' @ show_nat n))
         [unat (next_id b) ..< unat (next_id b) + length (collect broker_step issued b es)]"
proof (induction es arbitrary: b)
  case (Cons e es)
  show ?case
  proof (cases "e = NextRequestId")
    case False
    then have "issued b e = []" by (cases e) (auto simp: issued_def)
    with Cons.IH [of "broker_step b e"] Cons.prems next_id_step [of b e] show ?thesis by simp
  next
    case True
    let ?b = "broker_step b e" and ?ids = "collect broker_step issued (broker_step b e) es"
    have id: "issued b e = [IdString (''sml-'' @ show_nat (unat (next_id b)))]"
      using True by (simp add: issued_def next_request_id_def)
    show ?thesis
    proof (cases "?ids = []")
      case True
      with id show ?thesis by simp
    next
      case False
      then have "1 \<le> length ?ids" by (cases ?ids) auto
      with Cons.prems id have lt: "unat (next_id b) + 1 < 2 ^ 64" by simp
      have "next_id ?b = next_id b + 1" using next_id_step [of b e] id by simp
      then have "unat (next_id ?b) = Suc (unat (next_id b))" using lt by (simp add: unat_plus_if_size word_size)
      moreover have "[a ..< a + Suc n] = a # [Suc a ..< Suc a + n]" for a n :: nat
        by (simp add: upt_conv_Cons del: upt_Suc)
      ultimately show ?thesis using Cons.IH [of ?b] Cons.prems id by (simp del: upt_Suc)
    qed
  qed
qed simp

text \<open>
  The ids of server-initiated requests are fresh: no two of up to \<open>2^64\<close> calls give the same
  id, and all of them are strings, so none is a numeric id of a client's request.
\<close>

theorem request_ids_fresh:
  assumes "length (collect broker_step issued new_broker es) \<le> 2 ^ 64"
  shows "distinct (collect broker_step issued new_broker es) \<and>
     (\<forall>n. IdNumber n \<notin> set (collect broker_step issued new_broker es))"
proof -
  have "unat (next_id new_broker) = 0" by (simp add: new_broker_def)
  with assms issued_ids [of new_broker es] have
    ids: "collect broker_step issued new_broker es =
      map (\<lambda>n. IdString (''sml-'' @ show_nat n)) [0 ..< length (collect broker_step issued new_broker es)]"
    by simp
  have "distinct (map (\<lambda>n. IdString (''sml-'' @ show_nat n)) [0 ..< m])"
    "\<forall>k. IdNumber k \<notin> set (map (\<lambda>n. IdString (''sml-'' @ show_nat n)) [0 ..< m])" for m
    by (auto simp: distinct_map inj_on_def)
  with ids show ?thesis by metis
qed

theorem request_ids_fresh_witness:
  "distinct (collect broker_step issued new_broker [NextRequestId, NextRequestId])"
  using request_ids_fresh [of "[NextRequestId, NextRequestId]"] by (simp add: issued_def)

text \<open>
  The issued-id test reads numbers the way the standard library does, so it also accepts
  spellings no call ever produced (a sign, leading zeros). Such a response is parked like one to
  a real request; the queue bounds above do not depend on it.
\<close>

lemma was_issued_here_alias:
  "was_issued_here (snd (next_request_id new_broker)) (IdString ''sml-+0'') \<and>
     fst (next_request_id new_broker) \<noteq> IdString ''sml-+0''"
  by (simp add: was_issued_here_def next_request_id_def new_broker_def parse_uint_def Let_def
      is_ascii_digit_def read_digits_def digit_val_def show_nat.simps digit_char_def)

end
