(* ===== verification/ToolEnv.thy ===== *)
theory ToolEnv
  imports Protocol Broker
begin

text \<open>
  What a tool sees of the server (\<open>ToolEnv\<close> in \<open>server.rs\<close>): notifications, log records with
  their threshold and their way to stderr, and requests to the client, with both ways of waiting
  for the answer. The world a tool runs in is the transport, the broker, the task store and
  stderr. The transport is what its reads will return, each with the time it takes to come, and
  what was written; time passes in waits only. Other threads act between the steps: \<open>sched\<close> says
  what they do at each turn, and the definitions take it as an argument. A tool is the tree of its
  calls into the environment, so a tool that never returns is not represented. The wording of a
  printed duration is a parameter. The properties: whatever arrives during a wait is routed, not
  lost; a wait with a deadline ends by it; giving up leaves nothing behind; every log record is
  seen by the client or on stderr; and every message of a task names it.
\<close>

section \<open>Severities\<close>

datatype log_level = Debug | Info | Notice | Warning | ErrorLevel | Critical | Alert | Emergency

fun severity :: "log_level \<Rightarrow> nat" where
  "severity Debug = 0"
| "severity Info = 1"
| "severity Notice = 2"
| "severity Warning = 3"
| "severity ErrorLevel = 4"
| "severity Critical = 5"
| "severity Alert = 6"
| "severity Emergency = 7"

lemma severity_inject: "severity a = severity b \<Longrightarrow> a = b"
  by (cases a; cases b) simp_all

text \<open>The derived order: declaration order.\<close>

instantiation log_level :: linorder
begin

definition less_eq_log_level :: "log_level \<Rightarrow> log_level \<Rightarrow> bool" where
  "less_eq_log_level a b \<longleftrightarrow> severity a \<le> severity b"

definition less_log_level :: "log_level \<Rightarrow> log_level \<Rightarrow> bool" where
  "less_log_level a b \<longleftrightarrow> severity a < severity b"

instance
  by standard (auto simp: less_eq_log_level_def less_log_level_def intro: severity_inject)

end

fun as_str :: "log_level \<Rightarrow> string" where
  "as_str Debug = ''debug''"
| "as_str Info = ''info''"
| "as_str Notice = ''notice''"
| "as_str Warning = ''warning''"
| "as_str ErrorLevel = ''error''"
| "as_str Critical = ''critical''"
| "as_str Alert = ''alert''"
| "as_str Emergency = ''emergency''"

definition ALL_LEVELS :: "log_level list" where
  "ALL_LEVELS = [Debug, Info, Notice, Warning, ErrorLevel, Critical, Alert, Emergency]"

definition from_wire :: "string \<Rightarrow> log_level option" where
  "from_wire name =
     map_of [(''debug'', Debug), (''info'', Info), (''notice'', Notice), (''warning'', Warning),
       (''error'', ErrorLevel), (''critical'', Critical), (''alert'', Alert), (''emergency'', Emergency)]
       (to_ascii_lowercase name)"

datatype stderr_logging = Never | Fallback | Always

section \<open>The world of a tool\<close>

record link =
  inbox :: "(nat \<times> jsonrpc_message result) list"
  sent :: "jsonrpc_message list"
  send_errors :: "mcp_error option list"
  write_times :: "nat list"
  clock :: nat
  read_timeout_armed :: "nat option"
  honors_deadlines :: bool
  arm_errors :: "mcp_error option list"
  expiry_text :: string
  one_answer :: bool
  lock_poisoned_r :: bool
  lock_poisoned_w :: bool

text \<open>\<open>Transport::read\<close>: the end of the inbox is the peer hanging up.\<close>

definition link_read :: "link \<Rightarrow> jsonrpc_message result \<times> link" where
  "link_read l =
     (case inbox l of
        [] \<Rightarrow> (Inl TransportClosed, l)
      | (d, r) # rest \<Rightarrow>
          (case read_timeout_armed l of
             None \<Rightarrow> (r, l\<lparr>inbox := rest, clock := clock l + d\<rparr>)
           | Some t \<Rightarrow>
               if d \<le> t then (r, l\<lparr>inbox := rest, clock := clock l + d\<rparr>)
               else (Inl (Timeout (expiry_text l)), l\<lparr>inbox := (d - t, r) # rest, clock := clock l + t\<rparr>)))"

text \<open>
  \<open>Transport::write\<close>. The transport of one HTTP request (\<open>one_answer\<close>) is sealed by the response:
  whatever comes after it has nowhere to go. A write blocks for as long as the peer lets it (no
  transport bounds it): \<open>write_times\<close> is what each takes, the wait for the lock included, and nothing
  once the list is used up.
\<close>

fun is_response :: "jsonrpc_message \<Rightarrow> bool" where
  "is_response (Response _) = True"
| "is_response _ = False"

definition blocked :: "link \<Rightarrow> link" where
  "blocked l = (case write_times l of [] \<Rightarrow> l | d # ds \<Rightarrow> l\<lparr>clock := clock l + d, write_times := ds\<rparr>)"

definition link_write :: "jsonrpc_message \<Rightarrow> link \<Rightarrow> unit result \<times> link" where
  "link_write m l =
     (if one_answer l \<and> list_ex is_response (sent l) then (Inl TransportClosed, l)
      else case send_errors l of
        Some e # es \<Rightarrow> (Inl e, (blocked l)\<lparr>send_errors := es\<rparr>)
      | None # es \<Rightarrow> (Inr (), (blocked l)\<lparr>send_errors := es, sent := sent l @ [m]\<rparr>)
      | [] \<Rightarrow> (Inr (), (blocked l)\<lparr>sent := sent l @ [m]\<rparr>))"

lemma blocked_simps [simp]:
  "inbox (blocked l) = inbox l" "sent (blocked l) = sent l" "send_errors (blocked l) = send_errors l"
  "read_timeout_armed (blocked l) = read_timeout_armed l" "honors_deadlines (blocked l) = honors_deadlines l"
  "arm_errors (blocked l) = arm_errors l" "expiry_text (blocked l) = expiry_text l" "one_answer (blocked l) = one_answer l"
  "lock_poisoned_r (blocked l) = lock_poisoned_r l" "lock_poisoned_w (blocked l) = lock_poisoned_w l"
  by (simp_all add: blocked_def split: list.split)

lemma blocked_idle [simp]: "write_times l = [] \<Longrightarrow> blocked l = l"
  by (simp add: blocked_def)

text \<open>\<open>Transport::set_read_timeout\<close>: a transport that cannot honor deadlines ignores them and says so.\<close>

definition set_read_timeout :: "nat option \<Rightarrow> link \<Rightarrow> bool result \<times> link" where
  "set_read_timeout t l =
     (if \<not> honors_deadlines l then (Inr False, l)
      else case arm_errors l of
        Some e # es \<Rightarrow> (Inl e, l\<lparr>arm_errors := es\<rparr>)
      | None # es \<Rightarrow> (Inr True, l\<lparr>arm_errors := es, read_timeout_armed := t\<rparr>)
      | [] \<Rightarrow> (Inr True, l\<lparr>read_timeout_armed := t\<rparr>))"

record world =
  wire_link :: link
  broker_of :: broker
  store_of :: task_store
  stderr_of :: "string list"
  epoch :: int
  turn_of :: nat

text \<open>The wall clock, in nanoseconds, runs with the clock of the waits, in milliseconds.\<close>

definition wall :: "world \<Rightarrow> system_time" where
  "wall w = epoch w + int (clock (wire_link w)) * 1000000"

abbreviation now_of :: "world \<Rightarrow> nat" where
  "now_of w \<equiv> clock (wire_link w)"

datatype other = OtherBroker broker_op | OtherTask task_op | OtherWrite jsonrpc_message

fun other_step :: "world \<Rightarrow> other \<Rightarrow> world" where
  "other_step w (OtherBroker e) = w\<lparr>broker_of := broker_step (broker_of w) e\<rparr>"
| "other_step w (OtherTask e) = w\<lparr>store_of := task_step (store_of w) e\<rparr>"
| "other_step w (OtherWrite m) = w\<lparr>wire_link := (wire_link w)\<lparr>sent := sent (wire_link w) @ [m]\<rparr>\<rparr>"

definition pause :: "(nat \<Rightarrow> other list) \<Rightarrow> world \<Rightarrow> world" where
  "pause sched w = foldl other_step (w\<lparr>turn_of := Suc (turn_of w)\<rparr>) (sched (turn_of w))"

datatype request_mode = Direct | Delegated | NoRequests

text \<open>\<open>ToolEnv\<close>; a task is its id and the index of its cancellation flag.\<close>

record tool_env =
  te_transport :: bool
  te_log_level :: log_level
  te_stderr_logging :: stderr_logging
  te_logger :: string
  te_client_capabilities :: client_capabilities
  te_mode :: request_mode
  te_request_timeout :: "nat option"
  te_task :: "(string \<times> nat) option"
  te_progress_token :: "request_id option"

section \<open>Writing\<close>

definition LOCK_POISONED :: mcp_error where
  "LOCK_POISONED = Internal ''Transport lock poisoned''"

definition world_write :: "jsonrpc_message \<Rightarrow> world \<Rightarrow> unit result \<times> world" where
  "world_write m w =
     (if lock_poisoned_w (wire_link w) then (Inl LOCK_POISONED, w)
      else case link_write m (wire_link w) of (r, l) \<Rightarrow> (r, w\<lparr>wire_link := l\<rparr>))"

text \<open>\<open>entry("_meta").or_insert_with(..)\<close> and the insertion below it.\<close>

definition tag_meta :: "string \<Rightarrow> (string \<times> json) list \<Rightarrow> (string \<times> json) list" where
  "tag_meta tid kvs =
     (let m = (case map_of kvs ''_meta'' of None \<Rightarrow> JObject [] | Some m \<Rightarrow> m)
      in obj_insert ''_meta''
           (case m of
              JObject ms \<Rightarrow> JObject (obj_insert RELATED_TASK (jobject [(''taskId'', JString tid)]) ms)
            | _ \<Rightarrow> m) kvs)"

definition tag_with_task :: "tool_env \<Rightarrow> json option \<Rightarrow> json option" where
  "tag_with_task env params =
     (case te_task env of
        None \<Rightarrow> params
      | Some (tid, _) \<Rightarrow>
          (case (case params of None \<Rightarrow> JObject [] | Some p \<Rightarrow> p) of
             JObject kvs \<Rightarrow> Some (JObject (tag_meta tid kvs))
           | p \<Rightarrow> Some p))"

definition send_notification :: "tool_env \<Rightarrow> string \<Rightarrow> json option \<Rightarrow> world \<Rightarrow> unit result \<times> world" where
  "send_notification env m params w =
     (if \<not> te_transport env then (Inr (), w)
      else world_write (notification m (tag_with_task env params)) w)"

definition eprintln :: "string \<Rightarrow> world \<Rightarrow> world" where
  "eprintln s w = w\<lparr>stderr_of := stderr_of w @ [s]\<rparr>"

text \<open>\<open>log_data\<close>; \<open>show_json\<close> prints a record that is not a string.\<close>

definition log_data :: "(json \<Rightarrow> string) \<Rightarrow> tool_env \<Rightarrow> log_level \<Rightarrow> string option \<Rightarrow> json \<Rightarrow> world \<Rightarrow> world" where
  "log_data show_json env level logger payload w =
     (let logger = (case logger of None \<Rightarrow> te_logger env | Some l \<Rightarrow> l);
          (delivered, w) =
            (if te_log_level env \<le> level
             then (case send_notification env ''notifications/message''
                     (Some (jobject [(''level'', JString (as_str level)), (''logger'', JString logger),
                        (''data'', payload)])) w of
                     (Inl e, w) \<Rightarrow>
                       (False, eprintln (''['' @ logger @ ''] failed to deliver log record: '' @ show_error e) w)
                   | (Inr _, w) \<Rightarrow> (te_transport env, w))
             else (False, w));
          write_stderr = (case te_stderr_logging env of
             Never \<Rightarrow> False | Fallback \<Rightarrow> \<not> delivered | Always \<Rightarrow> True)
      in if write_stderr
         then eprintln (''['' @ logger @ ''] '' @ as_str level @ '': '' @
                (case payload of JString s \<Rightarrow> s | _ \<Rightarrow> show_json payload)) w
         else w)"

definition log_enabled :: "tool_env \<Rightarrow> log_level \<Rightarrow> bool" where
  "log_enabled env level \<longleftrightarrow> te_log_level env \<le> level"

text \<open>\<open>send_progress\<close> and \<open>report_progress\<close>; the numbers are floats.\<close>

definition send_progress :: "tool_env \<Rightarrow> request_id \<Rightarrow> 64 word \<Rightarrow> 64 word option \<Rightarrow> world \<Rightarrow> unit result \<times> world" where
  "send_progress env token progress whole w =
     send_notification env ''notifications/progress''
       (Some (jobject ([(''progressToken'', id_to_value token), (''progress'', json_of_f64 progress)] @
          jopt ''total'' json_of_f64 whole))) w"

definition report_progress :: "tool_env \<Rightarrow> 64 word \<Rightarrow> 64 word option \<Rightarrow> world \<Rightarrow> unit result \<times> world" where
  "report_progress env progress whole w =
     (case te_progress_token env of
        Some token \<Rightarrow> send_progress env token progress whole w
      | None \<Rightarrow> (Inr (), w))"

definition env_is_cancelled :: "tool_env \<Rightarrow> world \<Rightarrow> bool" where
  "env_is_cancelled env w = (case te_task env of None \<Rightarrow> False | Some (_, flag) \<Rightarrow> flags (store_of w) ! flag)"


section \<open>Messages that are not the answer\<close>

definition overloaded_response :: "jsonrpc_message \<Rightarrow> jsonrpc_message option" where
  "overloaded_response refused =
     (case refused of
        Request r \<Rightarrow>
          Some (error (rq_id r)
            (with_data (internal_error (''`'' @ rq_method r @
               ''` was refused: too many requests are already queued behind a blocking call''))
               (jobject [(''reason'', JString OVERLOADED_REASON)])))
      | _ \<Rightarrow> None)"

definition CANCELLED_NOTIFICATION :: string where
  "CANCELLED_NOTIFICATION = ''notifications/cancelled''"

definition cancelled_request_id :: "jsonrpc_notification \<Rightarrow> request_id option" where
  "cancelled_request_id n =
     (if nt_method n \<noteq> CANCELLED_NOTIFICATION then None
      else case nt_params n of
        None \<Rightarrow> None
      | Some p \<Rightarrow> Option.bind (json_get ''requestId'' p) request_id_of)"

definition cancelled_here :: "jsonrpc_message \<Rightarrow> request_id \<Rightarrow> bool" where
  "cancelled_here m i =
     (case m of Notification n \<Rightarrow> cancelled_request_id n = Some i | _ \<Rightarrow> False)"

definition shed_or_defer :: "tool_env \<Rightarrow> jsonrpc_message \<Rightarrow> world \<Rightarrow> world" where
  "shed_or_defer env m w =
     (case defer_message (broker_of w) m of
        (Inr _, b) \<Rightarrow> w\<lparr>broker_of := b\<rparr>
      | (Inl refused, b) \<Rightarrow>
          (case overloaded_response refused of
             None \<Rightarrow> w\<lparr>broker_of := b\<rparr>
           | Some answer \<Rightarrow>
               if te_transport env then snd (world_write answer (w\<lparr>broker_of := b\<rparr>))
               else w\<lparr>broker_of := b\<rparr>))"

section \<open>Waiting for the answer\<close>

text \<open>\<open>{id:?}\<close>; an id of the server's own needs no escapes.\<close>

fun debug_id :: "request_id \<Rightarrow> string" where
  "debug_id (IdNumber n) = ''Number('' @ show_int n @ '')''"
| "debug_id (IdString s) = ''String('' @ [CHR 0x22] @ s @ [CHR 0x22] @ '')''"
| "debug_id IdNull = ''Null''"

definition no_response :: "request_id \<Rightarrow> mcp_error" where
  "no_response i = Timeout (''no response to request '' @ debug_id i)"

definition client_cancelled :: "request_id \<Rightarrow> mcp_error" where
  "client_cancelled i = Internal (''the client cancelled request '' @ debug_id i)"

text \<open>One read of \<open>await_response\<close>: the deadline is armed on the transport first.\<close>

definition timed_read :: "nat option \<Rightarrow> world \<Rightarrow> jsonrpc_message result \<times> world" where
  "timed_read remaining w =
     (if lock_poisoned_r (wire_link w) then (Inl LOCK_POISONED, w)
      else case set_read_timeout remaining (wire_link w) of
        (Inl e, l) \<Rightarrow> (Inl e, w\<lparr>wire_link := l\<rparr>)
      | (Inr _, l) \<Rightarrow> (case link_read l of (r, l) \<Rightarrow> (r, w\<lparr>wire_link := l\<rparr>)))"

lemma inbox_link_write [simp]: "inbox (snd (link_write m l)) = inbox l"
  by (simp add: link_write_def split: list.splits option.splits)

lemma inbox_set_read_timeout: "set_read_timeout t l = (r, l') \<Longrightarrow> inbox l' = inbox l"
  by (auto simp: set_read_timeout_def split: if_splits list.splits option.splits)

lemma inbox_world_write [simp]: "inbox (wire_link (snd (world_write m w))) = inbox (wire_link w)"
  using inbox_link_write [of m "wire_link w"]
  by (cases "link_write m (wire_link w)") (simp add: world_write_def)

lemma inbox_pause [simp]: "inbox (wire_link (pause sched w)) = inbox (wire_link w)"
proof -
  have "inbox (wire_link (foldl other_step v es)) = inbox (wire_link v)" for v es
  proof (induction es arbitrary: v)
    case (Cons e es)
    then show ?case by (cases e) simp_all
  qed simp
  then show ?thesis by (simp add: pause_def)
qed

lemma inbox_shed_or_defer [simp]: "inbox (wire_link (shed_or_defer env m w)) = inbox (wire_link w)"
  by (simp add: shed_or_defer_def defer_message_def split: option.splits)

lemma timed_read_inbox:
  "timed_read t w = (Inr m, w') \<Longrightarrow> \<exists>d. inbox (wire_link w) = (d, Inr m) # inbox (wire_link w')"
  by (auto simp: timed_read_def link_read_def dest!: inbox_set_read_timeout
      split: if_splits prod.splits sum.splits list.splits option.splits)

text \<open>\<open>await_response\<close>, for the thread that reads; \<open>deadline\<close> is a moment.\<close>

function await_response :: "(nat \<Rightarrow> other list) \<Rightarrow> tool_env \<Rightarrow> request_id \<Rightarrow> nat option \<Rightarrow> world \<Rightarrow>
    json result \<times> world" where
  "await_response sched env i deadline w =
     (let w = pause sched w in
      case take_parked (broker_of w) i of
        (Some r, b) \<Rightarrow> (into_result r, w\<lparr>broker_of := b\<rparr>)
      | (None, _) \<Rightarrow>
          if (case deadline of Some at \<Rightarrow> at \<le> now_of w | None \<Rightarrow> False) then (Inl (no_response i), w)
          else
            (case timed_read (map_option (\<lambda>at. at - now_of w) deadline) w of
               (Inl e, w) \<Rightarrow> (Inl e, w)
             | (Inr m, w) \<Rightarrow>
                 (case m of
                    Response r \<Rightarrow>
                      if rs_id r = i then (into_result r, w)
                      else await_response sched env i deadline (w\<lparr>broker_of := deliver (broker_of w) r\<rparr>)
                  | _ \<Rightarrow>
                      if cancelled_here m i
                      then (Inl (client_cancelled i),
                            w\<lparr>broker_of := abandon (broker_of w) i\<rparr>)
                      else await_response sched env i deadline (shed_or_defer env m w))))"
  by pat_completeness auto
termination
  by (relation "measure (\<lambda>(sched, env, i, deadline, w). length (inbox (wire_link w)))")
     (auto dest!: sym [of _ "timed_read _ _"] dest!: timed_read_inbox)

declare await_response.simps [simp del]

text \<open>
  \<open>await_delegated_response\<close>, for a worker: the receiver \<open>c\<close> is looked at every 100 ms at most.
  \<open>polls\<close> bounds the number of looks; \<^const>\<open>None\<close> is a wait that is still going on after them.
\<close>

definition POLL :: nat where "POLL = 100"

fun await_delegated_response :: "(nat \<Rightarrow> other list) \<Rightarrow> tool_env \<Rightarrow> request_id \<Rightarrow> nat \<Rightarrow> nat option \<Rightarrow> nat \<Rightarrow> world \<Rightarrow>
    (json result \<times> world) option" where
  "await_delegated_response sched env i c deadline 0 w = None"
| "await_delegated_response sched env i c deadline (Suc polls) w =
     (let w = pause sched w in
      if env_is_cancelled env w
      then Some (Inl (Internal (''`'' @ debug_id i @ ''` abandoned: the task was cancelled'')), w)
      else if (case deadline of Some at \<Rightarrow> at \<le> now_of w | None \<Rightarrow> False) then Some (Inl (no_response i), w)
      else
        let wait = (case deadline of Some at \<Rightarrow> min (at - now_of w) POLL | None \<Rightarrow> POLL)
        in (case recv (broker_of w) c of
              (Got r, b) \<Rightarrow> Some (into_result r, w\<lparr>broker_of := b\<rparr>)
            | (Disconnected, b) \<Rightarrow>
                Some (Inl (Internal (''the response to '' @ debug_id i @ '' can no longer be delivered'')), w)
            | (Empty, b) \<Rightarrow>
                await_delegated_response sched env i c deadline polls
                  (w\<lparr>wire_link := (wire_link w)\<lparr>clock := now_of w + wait\<rparr>\<rparr>)))"

section \<open>Requests to the client\<close>

definition set_task_status :: "tool_env \<Rightarrow> task_status \<Rightarrow> world \<Rightarrow> world" where
  "set_task_status env st w =
     (case te_task env of
        None \<Rightarrow> w
      | Some (tid, _) \<Rightarrow> w\<lparr>store_of := snd (set_status (store_of w) (wall w) tid st)\<rparr>)"

definition give_up :: "tool_env \<Rightarrow> request_id \<Rightarrow> string \<Rightarrow> world \<Rightarrow> world" where
  "give_up env i reason w =
     snd (send_notification env CANCELLED_NOTIFICATION
       (Some (jobject [(''requestId'', id_to_value i), (''reason'', JString reason)]))
       (w\<lparr>broker_of := abandon (broker_of w) i\<rparr>))"

text \<open>What \<open>send_request_with_timeout\<close> does once it has an outcome.\<close>

definition settle :: "(nat \<Rightarrow> string) \<Rightarrow> tool_env \<Rightarrow> request_id \<Rightarrow> nat option \<Rightarrow> json result \<Rightarrow> world \<Rightarrow> world" where
  "settle show_duration env i timeout out w =
     (case out of
        Inl (Timeout _) \<Rightarrow>
          give_up env i (''no response within '' @ show_duration (case timeout of None \<Rightarrow> 0 | Some t \<Rightarrow> t)) w
      | Inl _ \<Rightarrow> if env_is_cancelled env w then give_up env i ''the task was cancelled'' w else w
      | Inr _ \<Rightarrow> w)"

definition request_refusal :: "tool_env \<Rightarrow> string \<Rightarrow> mcp_error option" where
  "request_refusal env m =
     (if te_mode env = NoRequests
      then Some (Internal (''`'' @ m @ ''` needs a response from the client, which is not possible here: '' @
             ''nothing is reading the transport on this thread''))
      else if \<not> te_transport env then Some (Internal (''`'' @ m @ ''` needs a transport to reach the client''))
      else None)"

definition send_request :: "(nat \<Rightarrow> string) \<Rightarrow> (nat \<Rightarrow> other list) \<Rightarrow> nat \<Rightarrow> tool_env \<Rightarrow> string \<Rightarrow> json \<Rightarrow>
    nat option \<Rightarrow> world \<Rightarrow> (json result \<times> world) option" where
  "send_request show_duration sched polls env m params timeout w =
     (case request_refusal env m of
        Some e \<Rightarrow> Some (Inl e, w)
      | None \<Rightarrow>
          let (i, b) = next_request_id (broker_of w);
              deadline = map_option (\<lambda>t. now_of w + t) timeout;
              (c, b) = (if te_mode env = Delegated then register_waiter b i else (0, b))
          in (case world_write (request i m (tag_with_task env (Some params))) (w\<lparr>broker_of := b\<rparr>) of
                (Inl e, w) \<Rightarrow> Some (Inl e, w\<lparr>broker_of := abandon (broker_of w) i\<rparr>)
              | (Inr _, w) \<Rightarrow>
                  if te_mode env = Delegated
                  then map_option (\<lambda>(out, w).
                         let w = set_task_status env Working (w\<lparr>broker_of := drop_receiver (broker_of w) c\<rparr>)
                         in (out, settle show_duration env i timeout out w))
                       (await_delegated_response sched env i c deadline polls (set_task_status env InputRequired w))
                  else
                    let (out, w) = await_response sched env i deadline w;
                        w = (if deadline = None \<or> lock_poisoned_r (wire_link w) then w
                             else w\<lparr>wire_link := snd (set_read_timeout None (wire_link w))\<rparr>)
                    in Some (out, settle show_duration env i timeout out w)))"


section \<open>Tools\<close>

text \<open>
  A tool at work, as the calls it makes into its environment and what it does with their results.
  A panic carries a text, or a payload nobody can render.
\<close>

datatype 'c tool_run =
    ToolReturns "call_tool_result result" 'c
  | ToolPanics "string option" 'c
  | Notify string "json option" "unit result \<Rightarrow> 'c tool_run"
  | LogData log_level "string option" json "'c tool_run"
  | Ask string json "nat option" "json result \<Rightarrow> 'c tool_run"
  | PollCancelled "bool \<Rightarrow> 'c tool_run"

datatype 'c tool_end = Returned "call_tool_result result" 'c | Panicked "string option" 'c

text \<open>The parameters of a run: how a duration and a record print, what other threads do, and how
  many looks a delegated wait takes.\<close>

record ambient =
  amb_duration :: "nat \<Rightarrow> string"
  amb_json :: "json \<Rightarrow> string"
  amb_sched :: "nat \<Rightarrow> other list"
  amb_polls :: nat

primrec run_tool :: "ambient \<Rightarrow> tool_env \<Rightarrow> 'c tool_run \<Rightarrow> world \<Rightarrow> ('c tool_end \<times> world) option" where
  "run_tool a env (ToolReturns r c) = (\<lambda>w. Some (Returned r c, w))"
| "run_tool a env (ToolPanics p c) = (\<lambda>w. Some (Panicked p c, w))"
| "run_tool a env (Notify m params k) = (\<lambda>w.
     case send_notification env m params (pause (amb_sched a) w) of (r, w) \<Rightarrow> run_tool a env (k r) w)"
| "run_tool a env (LogData level logger payload k) = (\<lambda>w.
     run_tool a env k (log_data (amb_json a) env level logger payload (pause (amb_sched a) w)))"
| "run_tool a env (Ask m params timeout k) = (\<lambda>w.
     case send_request (amb_duration a) (amb_sched a) (amb_polls a) env m params timeout (pause (amb_sched a) w) of
       None \<Rightarrow> None
     | Some (r, w) \<Rightarrow> run_tool a env (k r) w)"
| "run_tool a env (PollCancelled k) = (\<lambda>w.
     let w = pause (amb_sched a) w in run_tool a env (k (env_is_cancelled env w)) w)"

text \<open>\<open>panic_message\<close>.\<close>

definition panic_message :: "string option \<Rightarrow> string" where
  "panic_message p = (case p of Some s \<Rightarrow> s | None \<Rightarrow> ''no message'')"

section \<open>Routing during a wait\<close>

text \<open>
  What another thread does while this one waits, for the statements about the queue and what is
  written: anything but fill or drain the queue of deferred messages, which only the reading
  thread does, and write messages of its own, which would appear in between.
\<close>

fun unobtrusive :: "other \<Rightarrow> bool" where
  "unobtrusive (OtherBroker (Defer _)) = False"
| "unobtrusive (OtherBroker NextDeferred) = False"
| "unobtrusive (OtherWrite _) = False"
| "unobtrusive _ = True"

definition discreet :: "(nat \<Rightarrow> other list) \<Rightarrow> bool" where
  "discreet sched \<longleftrightarrow> (\<forall>n. list_all unobtrusive (sched n))"

definition is_client_message :: "jsonrpc_message \<Rightarrow> bool" where
  "is_client_message m = (case m of Response _ \<Rightarrow> False | _ \<Rightarrow> True)"

lemma deferred_deliver [simp]: "deferred (deliver b r) = deferred b"
  by (simp add: deliver_def park_def forget_abandoned_def split: option.splits)

lemma deferred_take_parked: "take_parked b i = (r, b') \<Longrightarrow> deferred b' = deferred b"
  by (auto simp: take_parked_def split: option.splits)

lemma deferred_abandon [simp]: "deferred (abandon b i) = deferred b"
  by (simp add: abandon_def)

lemma deferred_unobtrusive:
  "unobtrusive (OtherBroker e) \<Longrightarrow> deferred (broker_step b e) = deferred b"
  by (cases e) (auto simp: next_request_id_def take_parked_def register_waiter_def park_def forget_abandoned_def
      broker_cancel_def recv_def drop_receiver_def Let_def split: option.splits)

lemma pause_simps [simp]:
  "clock (wire_link (pause sched w)) = clock (wire_link w)"
  "read_timeout_armed (wire_link (pause sched w)) = read_timeout_armed (wire_link w)"
  "honors_deadlines (wire_link (pause sched w)) = honors_deadlines (wire_link w)"
proof -
  have "clock (wire_link (foldl other_step v es)) = clock (wire_link v) \<and>
      read_timeout_armed (wire_link (foldl other_step v es)) = read_timeout_armed (wire_link v) \<and>
      honors_deadlines (wire_link (foldl other_step v es)) = honors_deadlines (wire_link v)" for v es
  proof (induction es arbitrary: v)
    case (Cons e es)
    then show ?case by (cases e) simp_all
  qed simp
  then show "clock (wire_link (pause sched w)) = clock (wire_link w)"
    "read_timeout_armed (wire_link (pause sched w)) = read_timeout_armed (wire_link w)"
    "honors_deadlines (wire_link (pause sched w)) = honors_deadlines (wire_link w)"
    by (simp_all add: pause_def)
qed

text \<open>The queue and what was written so far, and a transport that takes what is written.\<close>

definition placed :: "world \<Rightarrow> jsonrpc_message list \<times> jsonrpc_message list" where
  "placed w = (deferred (broker_of w), sent (wire_link w))"

definition writable :: "world \<Rightarrow> bool" where
  "writable w \<longleftrightarrow> send_errors (wire_link w) = [] \<and> \<not> lock_poisoned_w (wire_link w) \<and> \<not> one_answer (wire_link w)"

lemma pause_writable [simp]: "writable (pause sched w) = writable w"
proof -
  have "writable (foldl other_step v es) = writable v" for v es
  proof (induction es arbitrary: v)
    case (Cons e es)
    then show ?case by (cases e) (auto simp: writable_def)
  qed simp
  then show ?thesis by (simp add: pause_def writable_def)
qed

lemma pause_placed:
  assumes "discreet sched"
  shows "placed (pause sched w) = placed w"
proof -
  have "list_all unobtrusive es \<Longrightarrow> placed (foldl other_step v es) = placed v" for v es
  proof (induction es arbitrary: v)
    case (Cons e es)
    then show ?case using deferred_unobtrusive by (cases e) (auto simp: placed_def)
  qed simp
  with assms show ?thesis by (simp add: pause_def placed_def discreet_def)
qed

lemma discreet_idle [simp]: "discreet (\<lambda>_. [])"
  by (simp add: discreet_def)

lemma timed_read_keeps:
  "timed_read t w = (r, w') \<Longrightarrow> sent (wire_link w') = sent (wire_link w) \<and> writable w' = writable w"
  by (auto simp: timed_read_def link_read_def set_read_timeout_def writable_def
      split: if_splits prod.splits sum.splits list.splits option.splits)

lemma broker_timed_read: "timed_read t w = (r, w') \<Longrightarrow> broker_of w' = broker_of w"
  by (auto simp: timed_read_def split: if_splits prod.splits sum.splits)

lemma broker_world_write [simp]: "broker_of (snd (world_write m w)) = broker_of w"
  by (simp add: world_write_def split: prod.splits)

text \<open>Where a client's message goes that arrives during a wait: into the queue while there is room;
  after that a request is answered with a refusal and anything else is dropped.\<close>

fun route :: "jsonrpc_message list \<times> jsonrpc_message list \<Rightarrow> jsonrpc_message \<Rightarrow>
    jsonrpc_message list \<times> jsonrpc_message list" where
  "route (queue, out) m =
     (if length queue < MAX_DEFERRED then (queue @ [m], out)
      else (queue, out @ (case overloaded_response m of None \<Rightarrow> [] | Some answer \<Rightarrow> [answer])))"

lemma foldl_route:
  "foldl route (queue, out) ms =
     (queue @ take (MAX_DEFERRED - length queue) ms,
      out @ List.map_filter overloaded_response (drop (MAX_DEFERRED - length queue) ms))"
proof (induction ms arbitrary: queue out)
  case (Cons m ms)
  show ?case
  proof (cases "length queue < MAX_DEFERRED")
    case True
    then have "MAX_DEFERRED - length queue = Suc (MAX_DEFERRED - Suc (length queue))" by simp
    with True Cons show ?thesis by simp
  next
    case False
    then have "MAX_DEFERRED - length queue = 0" by simp
    with False Cons show ?thesis
      by (cases "overloaded_response m") (simp_all add: List.map_filter_def)
  qed
qed (simp add: List.map_filter_def)

lemma shed_or_defer_routes:
  assumes "writable w" and "te_transport env"
  shows "placed (shed_or_defer env m w) = route (placed w) m" "writable (shed_or_defer env m w)"
  using assms
  by (auto simp: placed_def writable_def shed_or_defer_def defer_message_def world_write_def link_write_def
      split: option.splits)

text \<open>The client's messages that a wait reads, minus the cancellation that ends it.\<close>

definition set_aside :: "request_id \<Rightarrow> jsonrpc_message list \<Rightarrow> jsonrpc_message list" where
  "set_aside i ms = filter (\<lambda>m. is_client_message m \<and> \<not> cancelled_here m i) ms"

text \<open>One pass of \<open>await_response\<close>, as the ways it can go.\<close>

definition pass_read :: "(nat \<Rightarrow> other list) \<Rightarrow> nat option \<Rightarrow> world \<Rightarrow> jsonrpc_message result \<times> world" where
  "pass_read sched deadline w =
     timed_read (map_option (\<lambda>at. at - now_of w) deadline) (pause sched w)"

lemma await_response_cases:
  assumes "await_response sched env i deadline w = (out, w')"
  obtains
    (was_parked) r b where "take_parked (broker_of (pause sched w)) i = (Some r, b)" "out = into_result r"
      "w' = (pause sched w)\<lparr>broker_of := b\<rparr>"
  | (late) at where "deadline = Some at" "at \<le> now_of w" "out = Inl (no_response i)" "w' = pause sched w"
  | (failed) e where "\<forall>at. deadline = Some at \<longrightarrow> now_of w < at" "pass_read sched deadline w = (Inl e, w')" "out = Inl e"
  | (answered) r where "\<forall>at. deadline = Some at \<longrightarrow> now_of w < at"
      "pass_read sched deadline w = (Inr (Response r), w')" "rs_id r = i" "out = into_result r"
  | (withdrawn) m w1 where "\<forall>at. deadline = Some at \<longrightarrow> now_of w < at" "pass_read sched deadline w = (Inr m, w1)"
      "is_client_message m" "cancelled_here m i" "w' = w1\<lparr>broker_of := abandon (broker_of w1) i\<rparr>"
      "out = Inl (client_cancelled i)"
  | (delivered) r w1 where "\<forall>at. deadline = Some at \<longrightarrow> now_of w < at" "pass_read sched deadline w = (Inr (Response r), w1)"
      "rs_id r \<noteq> i" "await_response sched env i deadline (w1\<lparr>broker_of := deliver (broker_of w1) r\<rparr>) = (out, w')"
  | (queued) m w1 where "\<forall>at. deadline = Some at \<longrightarrow> now_of w < at" "pass_read sched deadline w = (Inr m, w1)"
      "is_client_message m" "\<not> cancelled_here m i"
      "await_response sched env i deadline (shed_or_defer env m w1) = (out, w')"
proof -
  note step = assms [unfolded await_response.simps [of sched env i deadline w] Let_def pause_simps]
  show thesis
  proof (cases "take_parked (broker_of (pause sched w)) i")
    case (Pair p b)
    show thesis
    proof (cases p)
      case (Some r)
      with Pair step was_parked show thesis by simp
    next
      case None
      show thesis
      proof (cases "\<exists>at. deadline = Some at \<and> at \<le> now_of w")
        case True
        with None Pair step late show thesis by auto
      next
        case False
        then have ok: "\<forall>at. deadline = Some at \<longrightarrow> now_of w < at" by auto
        obtain rd w1 where rd: "pass_read sched deadline w = (rd, w1)" by fastforce
        have go: "(case rd of Inl e \<Rightarrow> (Inl e, w1)
            | Inr m \<Rightarrow> (case m of
                 Response r \<Rightarrow> if rs_id r = i then (into_result r, w1)
                   else await_response sched env i deadline (w1\<lparr>broker_of := deliver (broker_of w1) r\<rparr>)
               | _ \<Rightarrow> if cancelled_here m i
                   then (Inl (client_cancelled i),
                         w1\<lparr>broker_of := abandon (broker_of w1) i\<rparr>)
                   else await_response sched env i deadline (shed_or_defer env m w1))) = (out, w')"
          using step None Pair ok rd by (auto simp: pass_read_def split: option.splits sum.splits)
        show thesis
        proof (cases rd)
          case (Inl e)
          with go rd ok failed show thesis by simp
        next
          case (Inr m)
          show thesis
          proof (cases "is_client_message m")
            case client: True
            then have "(if cancelled_here m i
                then (Inl (client_cancelled i),
                      w1\<lparr>broker_of := abandon (broker_of w1) i\<rparr>)
                else await_response sched env i deadline (shed_or_defer env m w1)) = (out, w')"
              using go Inr by (cases m) (simp_all add: is_client_message_def split: if_splits)
            with Inr rd ok client withdrawn queued show thesis by (auto split: if_splits)
          next
            case False
            then obtain r where "m = Response r" by (cases m) (auto simp: is_client_message_def)
            with go Inr rd ok answered delivered show thesis by (auto split: if_splits)
          qed
        qed
      qed
    qed
  qed
qed

lemma pass_read_Inr:
  assumes "pass_read sched deadline w = (Inr m, w1)"
  shows "\<exists>d. inbox (wire_link w) = (d, Inr m) # inbox (wire_link w1)"
  using timed_read_inbox assms by (fastforce simp: pass_read_def)

lemma pass_read_Inl:
  assumes "pass_read sched deadline w = (Inl e, w1)"
  shows "map snd (inbox (wire_link w)) = map snd (inbox (wire_link w1)) \<or>
     map snd (inbox (wire_link w)) = Inl e # map snd (inbox (wire_link w1))"
proof -
  have "inbox (wire_link (pause sched w)) = inbox (wire_link w)" by simp
  with assms show ?thesis
    unfolding pass_read_def timed_read_def link_read_def
    by (auto dest!: inbox_set_read_timeout split: if_splits prod.splits sum.splits list.splits option.splits)
qed

lemma broker_pass_read: "pass_read sched deadline w = (r, w1) \<Longrightarrow> broker_of w1 = broker_of (pause sched w)"
  using broker_timed_read by (auto simp: pass_read_def)

lemma pass_read_keeps:
  assumes "discreet sched" and "pass_read sched deadline w = (r, w1)"
  shows "placed w1 = placed w" "writable w1 = writable w"
  using timed_read_keeps [OF assms(2) [unfolded pass_read_def]] broker_pass_read [OF assms(2)]
    pause_placed [OF assms(1), of w]
  by (auto simp: placed_def)

lemma await_response_routes:
  assumes sched: "discreet sched" and transport: "te_transport env"
    and "await_response sched env i deadline w = (out, w')" and "writable w"
  shows "\<exists>ms tail. map snd (inbox (wire_link w)) = map Inr ms @ tail @ map snd (inbox (wire_link w')) \<and>
     (tail = [] \<or> (\<exists>e. tail = [Inl e] \<and> out = Inl e)) \<and>
     placed w' = foldl route (placed w) (set_aside i ms) \<and> writable w'"
  using assms(3,4)
proof (induction "length (inbox (wire_link w))" arbitrary: w rule: less_induct)
  case less
  note same = pass_read_keeps [OF sched, of deadline w]
  from less.prems(1) show ?case
  proof (cases rule: await_response_cases)
    case (was_parked r b)
    then have "placed w' = placed (pause sched w)" "writable w' = writable (pause sched w)"
      using deferred_take_parked [of "broker_of (pause sched w)" i "Some r" b] by (auto simp: placed_def writable_def)
    with was_parked(3) less.prems(2) pause_placed [OF sched] show ?thesis
      by (intro exI [of _ "[]"]) (simp add: set_aside_def)
  next
    case (late at)
    then show ?thesis using pause_placed [OF sched] less.prems(2) by (intro exI [of _ "[]"]) (simp add: set_aside_def)
  next
    case (failed e)
    from pass_read_Inl [OF failed(2)] show ?thesis
    proof
      assume "map snd (inbox (wire_link w)) = map snd (inbox (wire_link w'))"
      with same [OF failed(2)] less.prems(2) show ?thesis
        by (intro exI [of _ "[]"]) (simp add: set_aside_def)
    next
      assume "map snd (inbox (wire_link w)) = Inl e # map snd (inbox (wire_link w'))"
      with same [OF failed(2)] failed(3) less.prems(2) show ?thesis
        by (intro exI [of _ "[]"] exI [of _ "[Inl e]"]) (simp add: set_aside_def)
    qed
  next
    case (answered r)
    with same [OF answered(2)] pass_read_Inr [OF answered(2)] less.prems(2) show ?thesis
      by (intro exI [of _ "[Response r]"] exI [of _ "[]"]) (auto simp: set_aside_def is_client_message_def)
  next
    case (withdrawn m w1)
    then have "placed w' = placed w1" "writable w' = writable w1" by (simp_all add: placed_def writable_def)
    with withdrawn same [OF withdrawn(2)] pass_read_Inr [OF withdrawn(2)] less.prems(2) show ?thesis
      by (intro exI [of _ "[m]"] exI [of _ "[]"]) (auto simp: set_aside_def)
  next
    case (delivered r w1)
    let ?v = "w1\<lparr>broker_of := deliver (broker_of w1) r\<rparr>"
    obtain d where d: "inbox (wire_link w) = (d, Inr (Response r)) # inbox (wire_link w1)"
      using pass_read_Inr [OF delivered(2)] by blast
    have v: "placed ?v = placed w" "writable ?v"
      using same [OF delivered(2)] less.prems(2) by (auto simp: placed_def writable_def)
    obtain ms tail where ms: "map snd (inbox (wire_link w1)) = map Inr ms @ tail @ map snd (inbox (wire_link w'))"
        "tail = [] \<or> (\<exists>e. tail = [Inl e] \<and> out = Inl e)" "placed w' = foldl route (placed w) (set_aside i ms)" "writable w'"
      using less.hyps [OF _ delivered(4) v(2)] d v(1) by auto
    with d show ?thesis
      by (intro exI [of _ "Response r # ms"] exI [of _ tail]) (auto simp: set_aside_def is_client_message_def)
  next
    case (queued m w1)
    obtain d where d: "inbox (wire_link w) = (d, Inr m) # inbox (wire_link w1)"
      using pass_read_Inr [OF queued(2)] by blast
    note v = shed_or_defer_routes [OF _ transport, of w1 m]
    have w1: "placed w1 = placed w" "writable w1" using same [OF queued(2)] less.prems(2) by auto
    obtain ms tail where ms: "map snd (inbox (wire_link w1)) = map Inr ms @ tail @ map snd (inbox (wire_link w'))"
        "tail = [] \<or> (\<exists>e. tail = [Inl e] \<and> out = Inl e)"
        "placed w' = foldl route (route (placed w) m) (set_aside i ms)" "writable w'"
      using less.hyps [OF _ queued(5) v(2) [OF w1(2)]] d v(1) [OF w1(2)] w1(1) by auto
    have "set_aside i (m # ms) = m # set_aside i ms" using queued(3,4) by (simp add: set_aside_def)
    with d ms show ?thesis by (intro exI [of _ "m # ms"] exI [of _ tail]) auto
  qed
qed

text \<open>
  C20: A server that waits for the answer to a request of its own loses nothing the client says
  meanwhile. Of the messages it reads, the client's own go to the back of the deferred queue in
  arrival order while there is room; after that every request among them is answered at once with
  a refusal naming the overload, in order; and nothing else is written.
\<close>

theorem wait_routes_client_messages:
  assumes "discreet sched" and "te_transport env" and "writable w"
    and "await_response sched env i deadline w = (out, w')"
  shows "\<exists>ms tail. map snd (inbox (wire_link w)) = map Inr ms @ tail @ map snd (inbox (wire_link w')) \<and>
     (tail = [] \<or> (\<exists>e. tail = [Inl e] \<and> out = Inl e)) \<and>
     (let room = MAX_DEFERRED - length (deferred (broker_of w)); mine = set_aside i ms in
        deferred (broker_of w') = deferred (broker_of w) @ take room mine \<and>
        sent (wire_link w') = sent (wire_link w) @ List.map_filter overloaded_response (drop room mine))"
proof -
  obtain ms tail where ms: "map snd (inbox (wire_link w)) = map Inr ms @ tail @ map snd (inbox (wire_link w'))"
      "tail = [] \<or> (\<exists>e. tail = [Inl e] \<and> out = Inl e)" "placed w' = foldl route (placed w) (set_aside i ms)"
    using await_response_routes [OF assms(1,2,4,3)] by blast
  have "deferred (broker_of w') = deferred (broker_of w) @
        take (MAX_DEFERRED - length (deferred (broker_of w))) (set_aside i ms) \<and>
      sent (wire_link w') = sent (wire_link w) @
        List.map_filter overloaded_response (drop (MAX_DEFERRED - length (deferred (broker_of w))) (set_aside i ms))"
    using ms(3) by (simp add: placed_def foldl_route)
  with ms(1,2) show ?thesis unfolding Let_def by blast
qed


section \<open>Waits end in time\<close>

text \<open>
  The time that the writes to come still have to take, and the time a single read can go on that
  nothing bounds. A write moves time from the one to the clock.
\<close>

abbreviation unwritten :: "world \<Rightarrow> nat" where
  "unwritten w \<equiv> sum_list (write_times (wire_link w))"

definition longest_read :: "link \<Rightarrow> nat" where
  "longest_read l = foldr max (map fst (inbox l)) 0"

definition overrun :: "link \<Rightarrow> nat" where
  "overrun l = (if honors_deadlines l then 0 else longest_read l)"

lemma blocked_time [simp]:
  "clock (blocked l) + sum_list (write_times (blocked l)) = clock l + sum_list (write_times l)"
  by (simp add: blocked_def split: list.split)

lemma blocked_shorter: "sum_list (write_times (blocked l)) \<le> sum_list (write_times l)"
  by (simp add: blocked_def split: list.split)

lemma world_write_time [simp]:
  "now_of (snd (world_write m w)) + unwritten (snd (world_write m w)) = now_of w + unwritten w"
  by (simp add: world_write_def link_write_def Let_def split: list.splits option.splits)

lemma world_write_shorter: "unwritten (snd (world_write m w)) \<le> unwritten w"
  using blocked_shorter [of "wire_link w"]
  by (auto simp: world_write_def link_write_def Let_def split: list.splits option.splits)

lemma world_write_link [simp]:
  "honors_deadlines (wire_link (snd (world_write m w))) = honors_deadlines (wire_link w)"
  "overrun (wire_link (snd (world_write m w))) = overrun (wire_link w)"
  by (simp_all add: world_write_def link_write_def overrun_def longest_read_def Let_def split: list.splits option.splits)

lemma shed_or_defer_time [simp]:
  "now_of (shed_or_defer env m w) + unwritten (shed_or_defer env m w) = now_of w + unwritten w"
  "overrun (wire_link (shed_or_defer env m w)) = overrun (wire_link w)"
  by (simp_all add: shed_or_defer_def defer_message_def split: option.splits)

lemma shed_or_defer_shorter: "unwritten (shed_or_defer env m w) \<le> unwritten w"
  by (simp add: shed_or_defer_def defer_message_def world_write_shorter split: option.splits)

lemma pause_time [simp]:
  "write_times (wire_link (pause sched w)) = write_times (wire_link w)"
proof -
  have "write_times (wire_link (foldl other_step v es)) = write_times (wire_link v)" for v es
  proof (induction es arbitrary: v)
    case (Cons e es)
    then show ?case by (cases e) simp_all
  qed simp
  then show ?thesis by (simp add: pause_def)
qed

lemma overrun_pause [simp]: "overrun (wire_link (pause sched w)) = overrun (wire_link w)"
  by (simp add: overrun_def longest_read_def)

lemma timed_read_in_time:
  assumes "timed_read (Some t) w = (r, w')"
  shows "now_of w' \<le> now_of w + t + overrun (wire_link w)" "unwritten w' = unwritten w"
    "overrun (wire_link w') \<le> overrun (wire_link w) \<or> isl r"
  using assms
  by (auto simp: timed_read_def link_read_def set_read_timeout_def overrun_def longest_read_def
      split: if_splits prod.splits sum.splits list.splits option.splits)

lemma pass_read_in_time:
  assumes "pass_read sched (Some at) w = (r, w1)" and "now_of w < at"
  shows "now_of w1 \<le> at + overrun (wire_link w)" "unwritten w1 = unwritten w"
    "overrun (wire_link w1) \<le> overrun (wire_link w) \<or> isl r"
  using timed_read_in_time [of "at - now_of w" "pause sched w" r w1] assms
  by (simp_all add: pass_read_def)

lemma await_response_in_time:
  assumes "await_response sched env i (Some at) w = (out, w')"
  shows "now_of w' + unwritten w' \<le> max (now_of w) (at + overrun (wire_link w)) + unwritten w"
  using assms
proof (induction "length (inbox (wire_link w))" arbitrary: w rule: less_induct)
  case less
  from less.prems show ?case
  proof (cases rule: await_response_cases)
    case (failed e)
    with pass_read_in_time [OF failed(2)] show ?thesis by simp
  next
    case (answered r)
    with pass_read_in_time [OF answered(2)] show ?thesis by simp
  next
    case (withdrawn m w1)
    with pass_read_in_time [OF withdrawn(2)] show ?thesis by simp
  next
    case (delivered r w1)
    have "now_of w1 \<le> at + overrun (wire_link w)" "unwritten w1 = unwritten w"
      "overrun (wire_link w1) \<le> overrun (wire_link w)"
      using pass_read_in_time [OF delivered(2)] delivered(1) by simp_all
    with less.hyps [OF _ delivered(4)] pass_read_Inr [OF delivered(2)] show ?thesis by fastforce
  next
    case (queued m w1)
    let ?v = "shed_or_defer env m w1"
    have r: "now_of w1 \<le> at + overrun (wire_link w)" "unwritten w1 = unwritten w"
      "overrun (wire_link w1) \<le> overrun (wire_link w)"
      using pass_read_in_time [OF queued(2)] queued(1) by simp_all
    have v: "now_of ?v + unwritten ?v = now_of w1 + unwritten w1" "unwritten ?v \<le> unwritten w1"
      by (simp_all add: shed_or_defer_shorter)
    have "now_of w' + unwritten w' \<le> max (now_of ?v) (at + overrun (wire_link w1)) + unwritten ?v"
      using less.hyps [OF _ queued(5)] pass_read_Inr [OF queued(2)] by auto
    with r v show ?thesis by linarith
  qed (simp_all add: Let_def)
qed

lemma await_delegated_in_time:
  "at - now_of w < polls \<Longrightarrow>
     \<exists>out w'. await_delegated_response sched env i c (Some at) polls w = Some (out, w') \<and>
       now_of w' \<le> max (now_of w) at \<and> unwritten w' = unwritten w"
proof (induction polls arbitrary: w)
  case (Suc polls)
  let ?w = "pause sched w"
  show ?case
  proof (cases "env_is_cancelled env ?w \<or> at \<le> now_of w")
    case True
    then show ?thesis by (auto simp: Let_def)
  next
    case False
    obtain g b where g: "recv (broker_of ?w) c = (g, b)" by fastforce
    show ?thesis
    proof (cases g)
      case Empty
      let ?v = "?w\<lparr>wire_link := (wire_link ?w)\<lparr>clock := now_of w + min (at - now_of w) POLL\<rparr>\<rparr>"
      have "at - now_of ?v < polls" "now_of ?v \<le> at" using Suc.prems False by (auto simp: POLL_def)
      with Suc.IH [of ?v] Empty False g show ?thesis by (auto simp: Let_def)
    qed (use False g in \<open>auto simp: Let_def\<close>)
  qed
qed simp

lemma give_up_time [simp]: "now_of (give_up env i reason w) + unwritten (give_up env i reason w) = now_of w + unwritten w"
  by (simp add: give_up_def send_notification_def)

lemma settle_time [simp]:
  "now_of (settle sd env i timeout out w) + unwritten (settle sd env i timeout out w) = now_of w + unwritten w"
  by (simp add: settle_def split: sum.splits mcp_error.splits)

lemma set_task_status_link [simp]: "wire_link (set_task_status env st w) = wire_link w"
  by (simp add: set_task_status_def split: option.splits prod.splits)

lemma set_read_timeout_time [simp]:
  "clock (snd (set_read_timeout t l)) = clock l" "write_times (snd (set_read_timeout t l)) = write_times l"
  by (simp_all add: set_read_timeout_def split: list.splits option.splits)

text \<open>
  C39: A request to the client with a timeout comes back, whatever the client and the other threads do,
  and not later than its deadline and the time its own writes were blocked for. On the reading
  thread, where the transport cannot honor deadlines (\<open>set_read_timeout\<close> says so), one read may outlast
  the deadline, and nothing more. \<open>t < polls\<close> are looks enough for a worker's wait.
\<close>

theorem request_returns_in_time:
  assumes "t < polls"
  shows "\<exists>out w'. send_request sd sched polls env m params (Some t) w = Some (out, w') \<and>
     now_of w' + unwritten w' \<le> now_of w + t + unwritten w + (if te_mode env = Direct then overrun (wire_link w) else 0)"
proof (cases "request_refusal env m")
  case (Some e)
  then show ?thesis by (simp add: send_request_def)
next
  case None
  obtain i b where i: "next_request_id (broker_of w) = (i, b)" by fastforce
  obtain c b2 where c: "(if te_mode env = Delegated then register_waiter b i else (0, b)) = (c, b2)" by fastforce
  let ?w = "w\<lparr>broker_of := b2\<rparr>" and ?m = "request i m (tag_with_task env (Some params))"
  obtain s w1 where s: "world_write ?m ?w = (s, w1)" by fastforce
  have w1: "now_of w1 + unwritten w1 = now_of w + unwritten w" "unwritten w1 \<le> unwritten w"
    "overrun (wire_link w1) = overrun (wire_link w)"
    using world_write_time [of ?m ?w] world_write_shorter [of ?m ?w] world_write_link [of ?m ?w] s by simp_all
  note unfold = send_request_def None i c s Let_def
  show ?thesis
  proof (cases s)
    case (Inl e)
    with w1 show ?thesis by (simp add: unfold)
  next
    case sent: (Inr u)
    show ?thesis
    proof (cases "te_mode env = Delegated")
      case True
      let ?v = "set_task_status env InputRequired w1"
      have "now_of w + t - now_of ?v < polls" using assms w1 by simp
      from await_delegated_in_time [OF this, of sched env i c]
      obtain out w2 where a: "await_delegated_response sched env i c (Some (now_of w + t)) polls ?v = Some (out, w2)"
          "now_of w2 \<le> max (now_of w1) (now_of w + t)" "unwritten w2 = unwritten w1" by auto
      then have "now_of w2 + unwritten w2 \<le> now_of w + t + unwritten w" using w1 by linarith
      with a(1) True sent c show ?thesis by (simp add: unfold)
    next
      case False
      then have direct: "te_mode env = Direct" using None by (cases "te_mode env") (auto simp: request_refusal_def)
      obtain out w2 where a: "await_response sched env i (Some (now_of w + t)) w1 = (out, w2)" by fastforce
      have "now_of w2 + unwritten w2 \<le> now_of w + t + unwritten w + overrun (wire_link w)"
        using await_response_in_time [OF a] w1 by linarith
      with a direct sent c show ?thesis by (simp add: unfold)
    qed
  qed
qed


text \<open>A world and an environment to try things on.\<close>

definition sample_link :: link where
  "sample_link = \<lparr>inbox = [(5, Inr (request (IdNumber 1) ''ping'' None))], sent = [], send_errors = [], write_times = [], clock = 0,
     read_timeout_armed = None, honors_deadlines = True, arm_errors = [], expiry_text = [], one_answer = False,
     lock_poisoned_r = False, lock_poisoned_w = False\<rparr>"

definition sample_world :: world where
  "sample_world = \<lparr>wire_link = sample_link, broker_of = new_broker, store_of = new_store default_task_config,
     stderr_of = [], epoch = 0, turn_of = 0\<rparr>"

definition sample_env :: tool_env where
  "sample_env = \<lparr>te_transport = True, te_log_level = Info, te_stderr_logging = Fallback, te_logger = ''srv'',
     te_client_capabilities = no_capabilities, te_mode = Direct, te_request_timeout = Some 20, te_task = None,
     te_progress_token = None\<rparr>"

lemma sample_simps [simp]:
  "te_transport sample_env" "te_mode sample_env = Direct" "writable sample_world"
  "honors_deadlines (wire_link sample_world)" "now_of sample_world = 0" "te_stderr_logging sample_env = Fallback"
  "sent (wire_link sample_world) = []" "deferred (broker_of sample_world) = []" "te_log_level sample_env = Info"
  by (simp_all add: sample_env_def sample_world_def sample_link_def writable_def new_broker_def)

theorem wait_routes_client_messages_witness:
  "\<exists>out w'. await_response (\<lambda>_. []) sample_env (IdString ''sml-0'') (Some 20) sample_world = (out, w') \<and>
     (\<exists>ms. deferred (broker_of w') = take MAX_DEFERRED (set_aside (IdString ''sml-0'') ms))"
proof -
  obtain out w' where a: "await_response (\<lambda>_. []) sample_env (IdString ''sml-0'') (Some 20) sample_world = (out, w')"
    by fastforce
  have "\<exists>ms. deferred (broker_of w') = take MAX_DEFERRED (set_aside (IdString ''sml-0'') ms)"
    using wait_routes_client_messages [OF _ _ _ a] by (auto simp: Let_def)
  with a show ?thesis by blast
qed

text \<open>A client that says nothing to the point, behind a transport slow to write and unable to time out.\<close>

theorem request_returns_in_time_witness:
  "\<exists>out w'. send_request (\<lambda>_. []) (\<lambda>_. []) 21 sample_env ''roots/list'' (JObject []) (Some 20)
     (sample_world\<lparr>wire_link := sample_link\<lparr>honors_deadlines := False, write_times := [3, 4]\<rparr>\<rparr>) = Some (out, w') \<and>
     now_of w' \<le> 32"
  using request_returns_in_time [of 20 21 "\<lambda>_. []" "\<lambda>_. []" sample_env "''roots/list''" "JObject []"
    "sample_world\<lparr>wire_link := sample_link\<lparr>honors_deadlines := False, write_times := [3, 4]\<rparr>\<rparr>"]
  by (auto simp: overrun_def longest_read_def sample_link_def)

section \<open>Giving up\<close>

lemma remembered_abandon: "remembered i 0 (abandon b i)"
  by (auto simp: remembered_def abandon_def table_simps trim_front_drop MAX_ABANDONED_def)

lemma give_up_broker [simp]: "broker_of (give_up env i reason w) = abandon (broker_of w) i"
  by (simp add: give_up_def send_notification_def)

lemma remembered_late:
  assumes "remembered i n b" and "rs_id r = i"
  shows "parked (deliver b r) = parked b \<and> channels (deliver b r) = channels b"
  using assms by (auto simp: remembered_def deliver_def park_def forget_abandoned_def)

definition cancellation_of :: "request_id \<Rightarrow> jsonrpc_message \<Rightarrow> bool" where
  "cancellation_of i m =
     (case m of
        Notification n \<Rightarrow> nt_method n = CANCELLED_NOTIFICATION \<and>
          (\<exists>p. nt_params n = Some p \<and> json_get ''requestId'' p = Some (id_to_value i))
      | _ \<Rightarrow> False)"

lemma json_get_tag_meta:
  "k \<noteq> ''_meta'' \<Longrightarrow> map_of (tag_meta tid kvs) k = map_of kvs k"
  by (simp add: tag_meta_def table_simps Let_def)

lemma json_get_tagged:
  assumes "k \<noteq> ''_meta''"
  shows "\<exists>q. tag_with_task env (Some (jobject kvs)) = Some q \<and> json_get k q = json_get k (jobject kvs)"
  using assms json_get_tag_meta by (auto simp: tag_with_task_def jobject_def split: option.splits)

lemma give_up_tells:
  assumes "writable w" and "te_transport env"
  shows "\<exists>m. sent (wire_link (give_up env i reason w)) = sent (wire_link w) @ [m] \<and> cancellation_of i m"
proof -
  let ?kvs = "[(''requestId'', id_to_value i), (''reason'', JString reason)]"
  obtain q where q: "tag_with_task env (Some (jobject ?kvs)) = Some q" "json_get ''requestId'' q = json_get ''requestId'' (jobject ?kvs)"
    using json_get_tagged [of "''requestId''" env ?kvs] by auto
  then have "cancellation_of i (notification CANCELLED_NOTIFICATION (Some q))"
    by (simp add: cancellation_of_def notification_def)
  then show ?thesis
    using assms q by (auto simp: give_up_def send_notification_def world_write_def link_write_def writable_def)
qed

lemma await_delegated_writable:
  "await_delegated_response sched env i c dl n v = Some (out, v') \<Longrightarrow> writable v' = writable v"
proof (induction n arbitrary: v)
  case (Suc n)
  obtain g b where g: "recv (broker_of (pause sched v)) c = (g, b)" by fastforce
  have w: "writable (x\<lparr>broker_of := b\<rparr>) = writable x"
    "writable (x\<lparr>wire_link := (wire_link x)\<lparr>clock := n\<rparr>\<rparr>) = writable x" for x n
    by (simp_all add: writable_def)
  from Suc g w show ?case
    by (cases g) (auto simp: Let_def split: if_splits)
qed simp

lemma send_request_timeout:
  assumes "send_request sd sched polls env m params timeout w = Some (Inl (Timeout x), w')"
    and "request_refusal env m = None" and "writable w" and "discreet sched"
  shows "\<exists>v reason. w' = give_up env (fst (next_request_id (broker_of w))) reason v \<and> writable v"
proof -
  obtain i b where i: "next_request_id (broker_of w) = (i, b)" by fastforce
  obtain c b2 where c: "(if te_mode env = Delegated then register_waiter b i else (0, b)) = (c, b2)" by fastforce
  obtain w1 where w1: "world_write (request i m (tag_with_task env (Some params))) (w\<lparr>broker_of := b2\<rparr>) = (Inr (), w1)"
      "writable w1"
    using assms(3) by (auto simp: world_write_def link_write_def writable_def)
  have transport: "te_transport env" using assms(2) by (auto simp: request_refusal_def split: if_splits)
  note unfold = send_request_def assms(2) i c w1(1) Let_def
  have "\<exists>v reason. w' = give_up env i reason v \<and> writable v"
  proof (cases "te_mode env = Delegated")
    case True
    then obtain w2 where d: "await_delegated_response sched env i c (map_option (\<lambda>t. now_of w + t) timeout) polls
          (set_task_status env InputRequired w1) = Some (Inl (Timeout x), w2)"
        "w' = settle sd env i timeout (Inl (Timeout x))
          (set_task_status env Working (w2\<lparr>broker_of := drop_receiver (broker_of w2) c\<rparr>))"
      using assms(1) c by (auto simp: unfold)
    from await_delegated_writable [OF d(1)] w1(2) have "writable w2" by (simp add: writable_def)
    with d(2) show ?thesis by (auto simp: settle_def writable_def)
  next
    case False
    obtain w2 where a: "await_response sched env i (map_option (\<lambda>t. now_of w + t) timeout) w1 = (Inl (Timeout x), w2)"
        "w' = settle sd env i timeout (Inl (Timeout x))
          (if timeout = None \<or> lock_poisoned_r (wire_link w2) then w2
           else w2\<lparr>wire_link := snd (set_read_timeout None (wire_link w2))\<rparr>)"
      using assms(1) c False
      by (cases "await_response sched env i (map_option (\<lambda>t. now_of w + t) timeout) w1") (auto simp: unfold)
    have "writable w2" using await_response_routes [OF assms(4) transport a(1) w1(2)] by blast
    then have "writable (w2\<lparr>wire_link := snd (set_read_timeout None (wire_link w2))\<rparr>)"
      by (auto simp: writable_def set_read_timeout_def split: list.splits option.splits)
    with \<open>writable w2\<close> a(2) show ?thesis by (auto simp: settle_def)
  qed
  then show ?thesis using i by simp
qed

text \<open>
  A request that timed out is forgotten on both sides. No waiter and no parked answer is left
  for its id; an answer that comes later is discarded, as long as fewer than 64 other requests
  were given up since, whatever happened in between; and a client that can be written to has just
  been told.
\<close>

theorem timed_out_request_forgotten:
  assumes "send_request sd sched polls env m params timeout w = Some (Inl (Timeout x), w')"
    and "request_refusal env m = None" and "writable w" and "discreet sched"
  shows "let i = fst (next_request_id (broker_of w)) in
     (\<forall>es r. list_all (\<lambda>e. \<not> revives i e) es \<and> length (filter gives_up es) < 64 \<and> rs_id r = i \<longrightarrow>
        (let b = foldl broker_step (broker_of w') es in
           parked (deliver b r) = parked b \<and> channels (deliver b r) = channels b)) \<and>
     (\<exists>m. last (sent (wire_link w')) = m \<and> cancellation_of i m)"
proof -
  obtain i b where i: "next_request_id (broker_of w) = (i, b)" by fastforce
  have transport: "te_transport env" using assms(2) by (auto simp: request_refusal_def split: if_splits)
  obtain v reason where v: "w' = give_up env i reason v" "writable v"
    using send_request_timeout [OF assms] i by auto
  have "remembered i 0 (broker_of w')" using remembered_abandon v by simp
  note run = remembered_run [OF this, unfolded MAX_ABANDONED_def add_0]
  have "parked (deliver b r) = parked b \<and> channels (deliver b r) = channels b"
    if "list_all (\<lambda>e. \<not> revives i e) es" "length (filter gives_up es) < 64" "rs_id r = i"
      "b = foldl broker_step (broker_of w') es" for es r b
    using remembered_late [OF run [OF that(1,2)] that(3)] that(4) by simp
  moreover have "\<exists>m. last (sent (wire_link w')) = m \<and> cancellation_of i m"
    using give_up_tells [OF v(2) transport] v(1) by (metis last_snoc)
  ultimately show ?thesis using i by (auto simp: Let_def)
qed

lemma show_nat_0: "show_nat 0 = ''0''"
  by code_simp

lemma sample_timeout:
  "\<exists>w'. send_request (\<lambda>_. []) (\<lambda>_. []) 0 sample_env ''roots/list'' (JObject []) (Some 0) sample_world =
     Some (Inl (no_response (IdString ''sml-0'')), w')"
  by (simp add: send_request_def request_refusal_def sample_world_def sample_env_def new_broker_def next_request_id_def
      world_write_def link_write_def sample_link_def Let_def tag_with_task_def await_response.simps pause_def
      take_parked_def no_response_def show_nat_0)

theorem timed_out_request_forgotten_witness:
  "\<exists>w'. send_request (\<lambda>_. []) (\<lambda>_. []) 0 sample_env ''roots/list'' (JObject []) (Some 0) sample_world =
       Some (Inl (no_response (IdString ''sml-0'')), w') \<and>
     cancellation_of (IdString ''sml-0'') (last (sent (wire_link w')))"
proof -
  obtain w' where w': "send_request (\<lambda>_. []) (\<lambda>_. []) 0 sample_env ''roots/list'' (JObject []) (Some 0) sample_world =
     Some (Inl (no_response (IdString ''sml-0'')), w')" using sample_timeout by blast
  have i: "fst (next_request_id (broker_of sample_world)) = IdString ''sml-0''"
    by (simp add: next_request_id_def sample_world_def new_broker_def show_nat_0)
  have "request_refusal sample_env ''roots/list'' = None" by (simp add: request_refusal_def)
  from timed_out_request_forgotten [OF w' [unfolded no_response_def] this] i
  have "cancellation_of (IdString ''sml-0'') (last (sent (wire_link w')))" by (simp add: Let_def)
  with w' show ?thesis by blast
qed


section \<open>Log records\<close>

definition log_record :: "log_level \<Rightarrow> string \<Rightarrow> json \<Rightarrow> jsonrpc_message \<Rightarrow> bool" where
  "log_record level logger payload m =
     (case m of
        Notification n \<Rightarrow> nt_method n = ''notifications/message'' \<and>
          (\<exists>p. nt_params n = Some p \<and> json_get ''level'' p = Some (JString (as_str level)) \<and>
             json_get ''logger'' p = Some (JString logger) \<and> json_get ''data'' p = Some payload)
      | _ \<Rightarrow> False)"

lemma log_record_tagged:
  "log_record level logger payload (notification ''notifications/message'' (tag_with_task env
     (Some (jobject [(''level'', JString (as_str level)), (''logger'', JString logger), (''data'', payload)]))))"
  by (auto simp: log_record_def notification_def tag_with_task_def json_get_tag_meta jobject_def split: option.splits)

text \<open>
  No log record vanishes. Unless stderr was switched off, a record that is logged appears as a
  \<open>notifications/message\<close> to the client or as a line on stderr; the client gets it only if its
  level meets the threshold the client set; and logging never writes anything else.
\<close>

theorem log_record_not_lost:
  assumes "te_stderr_logging env \<noteq> Never"
  shows "let w' = log_data sj env level logger payload w;
       name = (case logger of None \<Rightarrow> te_logger env | Some l \<Rightarrow> l) in
     (\<exists>m. sent (wire_link w') = sent (wire_link w) @ [m] \<and> log_record level name payload m \<and> te_log_level env \<le> level) \<or>
     (sent (wire_link w') = sent (wire_link w) \<and>
      (\<exists>ls. stderr_of w' = stderr_of w @ ls @ [''['' @ name @ ''] '' @ as_str level @ '': '' @
         (case payload of JString s \<Rightarrow> s | _ \<Rightarrow> sj payload)]))"
proof -
  define name where "name = (case logger of None \<Rightarrow> te_logger env | Some l \<Rightarrow> l)"
  define line where "line = ''['' @ name @ ''] '' @ as_str level @ '': '' @ (case payload of JString s \<Rightarrow> s | _ \<Rightarrow> sj payload)"
  let ?ps = "Some (jobject [(''level'', JString (as_str level)), (''logger'', JString name), (''data'', payload)])"
  let ?w' = "log_data sj env level logger payload w"
  have e: "?w' = (let (delivered, w1) =
        (if te_log_level env \<le> level
         then (case send_notification env ''notifications/message'' ?ps w of
                 (Inl e, w) \<Rightarrow> (False, eprintln (''['' @ name @ ''] failed to deliver log record: '' @ show_error e) w)
               | (Inr _, w) \<Rightarrow> (te_transport env, w))
         else (False, w))
      in if (case te_stderr_logging env of Never \<Rightarrow> False | Fallback \<Rightarrow> \<not> delivered | Always \<Rightarrow> True)
         then eprintln line w1 else w1)"
    by (simp only: log_data_def name_def line_def Let_def)
  have "(\<exists>m. sent (wire_link ?w') = sent (wire_link w) @ [m] \<and> log_record level name payload m \<and> te_log_level env \<le> level) \<or>
     (sent (wire_link ?w') = sent (wire_link w) \<and> (\<exists>ls. stderr_of ?w' = stderr_of w @ ls @ [line]))"
  proof (cases "te_log_level env \<le> level \<and> te_transport env")
    case False
    with assms show ?thesis
      unfolding e by (cases "te_stderr_logging env") (auto simp: send_notification_def eprintln_def Let_def)
  next
    case True
    let ?m = "notification ''notifications/message'' (tag_with_task env ?ps)"
    obtain r w1 where r: "world_write ?m w = (r, w1)" by fastforce
    have keep: "stderr_of w1 = stderr_of w" "sent (wire_link w1) = sent (wire_link w) @ (if isl r then [] else [?m])"
      using r by (auto simp: world_write_def link_write_def split: if_splits prod.splits list.splits option.splits)
    show ?thesis
    proof (cases r)
      case (Inl err)
      with assms True r keep show ?thesis
        unfolding e by (cases "te_stderr_logging env") (auto simp: send_notification_def eprintln_def Let_def)
    next
      case (Inr u)
      with True r keep log_record_tagged [of level name payload env] show ?thesis
        unfolding e by (cases "te_stderr_logging env") (auto simp: send_notification_def eprintln_def Let_def)
    qed
  qed
  then show ?thesis by (simp add: Let_def name_def line_def)
qed

theorem log_record_not_lost_witness:
  "stderr_of (log_data (\<lambda>_. []) sample_env Debug None (JString ''x'') sample_world) \<noteq> []"
  using log_record_not_lost [of sample_env "\<lambda>_. []" Debug None "JString ''x''" sample_world]
  by (auto simp: Let_def less_eq_log_level_def)

section \<open>Messages of a task\<close>

text \<open>The related-task key, as \<open>_meta\<close> of a message's parameters.\<close>

definition names_task :: "string \<Rightarrow> json \<Rightarrow> bool" where
  "names_task tid p \<longleftrightarrow>
     (\<exists>m. json_get ''_meta'' p = Some m \<and> json_get RELATED_TASK m = Some (jobject [(''taskId'', JString tid)]))"

text \<open>
  Everything a tool running as a task sends names the task, and the name disturbs nothing:
  parameters that are an object (or absent) go out with the related-task key under \<open>_meta\<close>, next
  to whatever was there, and every other member unchanged. Outside a task they go out as they are.
\<close>

theorem task_messages_tagged:
  assumes "params = None \<or> params = Some (JObject kvs)"
    and "\<forall>m. params = Some (JObject kvs) \<and> map_of kvs ''_meta'' = Some m \<longrightarrow> (\<exists>ms. m = JObject ms)"
  shows "case te_task env of
      None \<Rightarrow> tag_with_task env params = params
    | Some (tid, _) \<Rightarrow> \<exists>p. tag_with_task env params = Some p \<and> names_task tid p \<and>
        (\<forall>k. k \<noteq> ''_meta'' \<longrightarrow> json_get k p = Option.bind params (json_get k)) \<and>
        (\<forall>k. k \<noteq> RELATED_TASK \<longrightarrow> Option.bind (json_get ''_meta'' p) (json_get k) =
           Option.bind (Option.bind params (json_get ''_meta'')) (json_get k))"
proof (cases "te_task env")
  case None
  then show ?thesis by (simp add: tag_with_task_def)
next
  case (Some t)
  obtain tid f where t: "t = (tid, f)" by (cases t)
  define kv where "kv = (case params of None \<Rightarrow> [] | Some p \<Rightarrow> kvs)"
  obtain ms where ms: "(case map_of kv ''_meta'' of None \<Rightarrow> JObject [] | Some m \<Rightarrow> m) = JObject ms"
      "map_of kv ''_meta'' = None \<Longrightarrow> ms = []"
    using assms by (cases "map_of kv ''_meta''") (auto simp: kv_def split: option.splits)
  let ?p = "JObject (tag_meta tid kv)"
  have p: "tag_with_task env params = Some ?p"
    using assms(1) Some t by (auto simp: tag_with_task_def kv_def)
  have m: "json_get ''_meta'' ?p = Some (JObject (obj_insert RELATED_TASK (jobject [(''taskId'', JString tid)]) ms))"
    by (simp add: tag_meta_def Let_def ms(1) table_simps)
  have "\<forall>k. k \<noteq> ''_meta'' \<longrightarrow> json_get k ?p = Option.bind params (json_get k)"
    using assms(1) json_get_tag_meta by (auto simp: kv_def)
  moreover have "\<forall>k. k \<noteq> RELATED_TASK \<longrightarrow> Option.bind (json_get ''_meta'' ?p) (json_get k) =
      Option.bind (Option.bind params (json_get ''_meta'')) (json_get k)"
    using ms assms(1) unfolding m by (auto simp: kv_def table_simps split: option.splits)
  moreover have "names_task tid ?p" unfolding names_task_def m by (simp add: table_simps)
  ultimately show ?thesis using p Some t by auto
qed

theorem task_messages_tagged_witness:
  "\<exists>p. tag_with_task (sample_env\<lparr>te_task := Some (''t1'', 0)\<rparr>) None = Some p \<and> names_task ''t1'' p"
  using task_messages_tagged [of None "[]" "sample_env\<lparr>te_task := Some (''t1'', 0)\<rparr>"] by auto

text \<open>
  An unreadable message that arrives during such a wait ends it: the tool sees the read's error,
  the client gets no error response for it, and the request stays open.
\<close>

lemma malformed_ends_wait:
  "let w = sample_world\<lparr>wire_link := sample_link\<lparr>inbox := [(0, Inl (InvalidMessage ''bad''))]\<rparr>\<rparr> in
   \<exists>w'. send_request (\<lambda>_. []) (\<lambda>_. []) 0 sample_env ''roots/list'' (JObject []) (Some 20) w = Some (Inl (InvalidMessage ''bad''), w') \<and>
     length (sent (wire_link w')) = 1 \<and> abandoned (broker_of w') = []"
  by (simp add: send_request_def request_refusal_def sample_world_def sample_env_def new_broker_def next_request_id_def
      world_write_def link_write_def sample_link_def Let_def tag_with_task_def await_response.simps pause_def
      take_parked_def timed_read_def set_read_timeout_def link_read_def settle_def env_is_cancelled_def)

end
