(* ===== verification/SchemaCheck.thy ===== *)
theory SchemaCheck
  imports JsonRpc
begin

text \<open>
  Validation against a declared JSON schema (\<open>schema_check.rs\<close>). The schema compiler and validator
  (the \<open>boon\<close> crate, set up to load nothing) is the parameter \<open>compile\<close>: a complaint, or a judge
  of values. A validation error is the crate's tree: where, what, and the causes below it. What is
  the program's own is modelled in full: the description of a failure, bounded to three problems,
  the dotted path of a JSON pointer, the promise that remains of a schema that does not compile.
\<close>

definition MAX_REPORTED :: nat where "MAX_REPORTED = 3"

datatype validation_error = VError (location: string) (kind_text: string) (causes: "validation_error list")

type_synonym compiled_schema = "json \<Rightarrow> validation_error + unit"

type_synonym schema_compiler = "json \<Rightarrow> string + compiled_schema"

text \<open>\<open>str::replace\<close> of a two-byte escape.\<close>

fun unescape :: "char \<Rightarrow> char \<Rightarrow> string \<Rightarrow> string" where
  "unescape digit r (a # b # s) =
     (if a = CHR ''~'' \<and> b = digit then r # unescape digit r s else a # unescape digit r (b # s))"
| "unescape digit r s = s"

definition dotted_token :: "string \<Rightarrow> string" where
  "dotted_token token =
     (let token = unescape (CHR ''0'') (CHR ''~'') (unescape (CHR ''1'') (CHR ''/'') token)
      in if token \<noteq> [] \<and> list_all is_ascii_digit token then ''['' @ token @ '']'' else ''.'' @ token)"

definition dotted_path :: "string \<Rightarrow> string \<Rightarrow> string" where
  "dotted_path pointer root = root @ concat (map dotted_token (tl (split_on (CHR ''/'') pointer)))"

fun collect_leaves :: "string \<Rightarrow> validation_error \<Rightarrow> string list" where
  "collect_leaves root (VError loc kind cs) =
     (if cs = [] then [dotted_path loc root @ '' '' @ kind] else concat (map (collect_leaves root) cs))"

definition describe :: "validation_error \<Rightarrow> string \<Rightarrow> string" where
  "describe e root =
     (let problems = collect_leaves root e
      in join ''; '' (take MAX_REPORTED problems) @ (if MAX_REPORTED < length problems then ''; ...'' else []))"

definition check :: "compiled_schema \<Rightarrow> json \<Rightarrow> string \<Rightarrow> string + unit" where
  "check schema v root = (case schema v of Inl e \<Rightarrow> Inl (describe e root) | Inr _ \<Rightarrow> Inr ())"

definition validate :: "compiled_schema \<Rightarrow> json option \<Rightarrow> string + unit" where
  "validate schema structured =
     (case structured of
        None \<Rightarrow> Inl ''no `structuredContent`''
      | Some v \<Rightarrow> check schema v ''structuredContent'')"

definition check_arguments :: "compiled_schema \<Rightarrow> json \<Rightarrow> string + unit" where
  "check_arguments schema arguments = check schema arguments ''arguments''"

definition validate_structured_output :: "schema_compiler \<Rightarrow> json \<Rightarrow> json option \<Rightarrow> string + unit" where
  "validate_structured_output compile schema structured =
     (case compile schema of
        Inr compiled \<Rightarrow> validate compiled structured
      | Inl _ \<Rightarrow> (case structured of Some _ \<Rightarrow> Inr () | None \<Rightarrow> Inl ''no `structuredContent`''))"

text \<open>\<open>OutputCheck\<close> of \<open>server.rs\<close>: what a declared output schema lets the server enforce.\<close>

datatype output_check = Unpromised | Compiled compiled_schema | PresenceOnly

definition new_output_check :: "schema_compiler \<Rightarrow> json option \<Rightarrow> output_check" where
  "new_output_check compile schema =
     (case schema of
        None \<Rightarrow> Unpromised
      | Some s \<Rightarrow> (case compile s of Inr compiled \<Rightarrow> Compiled compiled | Inl _ \<Rightarrow> PresenceOnly))"

fun output_check_of :: "output_check \<Rightarrow> json option \<Rightarrow> string + unit" where
  "output_check_of Unpromised structured = Inr ()"
| "output_check_of (Compiled schema) structured = validate schema structured"
| "output_check_of PresenceOnly structured =
     (case structured of Some _ \<Rightarrow> Inr () | None \<Rightarrow> Inl ''no `structuredContent`'')"

lemma output_check_is_validate:
  "output_check_of (new_output_check compile (Some s)) structured = validate_structured_output compile s structured"
  by (simp add: new_output_check_def validate_structured_output_def split: sum.splits)

end
