(* ===== verification/Pagination.thy ===== *)
theory Pagination
  imports JsonRpc
begin

text \<open>
  Cursor pagination (\<open>pagination.rs\<close>), used by every list operation. A cursor is the decimal
  offset of the next item under base64; the base64 engine is a library, so its two directions are
  parameters (\<open>enc\<close>, \<open>dec\<close>). Offsets and limits are \<open>usize\<close>: sums wrap at \<open>2 ^ 64\<close>, and
  slicing with an end before the start panics, which is the outcome \<^const>\<open>None\<close>. The theorems
  show that a client following cursors from the first page reads every item exactly once and
  stops, and say exactly when a page request panics.
\<close>

definition DEFAULT_PAGE_SIZE :: nat where
  "DEFAULT_PAGE_SIZE = 50"

record page_state =
  offset :: nat
  limit :: nat

definition encode_cursor :: "(bytes \<Rightarrow> string) \<Rightarrow> nat \<Rightarrow> string" where
  "encode_cursor enc n = enc (show_nat n)"

definition decode_cursor :: "(string \<Rightarrow> bytes option) \<Rightarrow> string \<Rightarrow> nat option" where
  "decode_cursor dec cursor =
     (case dec cursor of
        None \<Rightarrow> None
      | Some bs \<Rightarrow> if utf8_valid bs then parse_uint u64_bound bs else None)"

definition page_at :: "nat \<Rightarrow> nat \<Rightarrow> page_state" where
  "page_at off page_size = \<lparr>offset = off, limit = max page_size 1\<rparr>"

definition from_cursor :: "(string \<Rightarrow> bytes option) \<Rightarrow> string option \<Rightarrow> nat \<Rightarrow> page_state result" where
  "from_cursor dec cursor page_size =
     and_then
       (case cursor of
          Some c \<Rightarrow> ok_or (InvalidParams (''Invalid cursor: '' @ c)) (decode_cursor dec c)
        | None \<Rightarrow> Inr 0)
       (\<lambda>off. Inr (page_at off page_size))"

definition next_cursor :: "(bytes \<Rightarrow> string) \<Rightarrow> page_state \<Rightarrow> nat \<Rightarrow> nat \<Rightarrow> string option" where
  "next_cursor enc st total_items returned =
     (let next_offset = (offset st + returned) mod u64_bound
      in if next_offset < total_items then Some (encode_cursor enc next_offset) else None)"

definition paginate :: "(bytes \<Rightarrow> string) \<Rightarrow> 'a list \<Rightarrow> page_state \<Rightarrow>
    ('a list \<times> string option) result option" where
  "paginate enc items st =
     (let total_items = length items
      in if offset st > 0 \<and> offset st \<ge> total_items
         then Some (Inl (InvalidParams (''Invalid cursor: no item at offset '' @ show_nat (offset st))))
         else if offset st \<ge> total_items then Some (Inr ([], None))
         else let end' = min ((offset st + limit st) mod u64_bound) total_items
              in if end' < offset st then None
                 else let page = take (end' - offset st) (drop (offset st) items)
                      in Some (Inr (page, next_cursor enc st total_items (length page))))"

section \<open>Behaviour\<close>

lemma decode_encode_cursor:
  "dec (enc (show_nat n)) = Some (show_nat n) \<Longrightarrow> n < u64_bound \<Longrightarrow>
     decode_cursor dec (encode_cursor enc n) = Some n"
  by (simp add: decode_cursor_def encode_cursor_def)

lemma decode_cursor_less: "decode_cursor dec c = Some n \<Longrightarrow> n < u64_bound"
  by (auto simp: decode_cursor_def parse_uint_less split: option.splits if_splits)

lemma from_cursor_limit: "from_cursor dec cursor page_size = Inr st \<Longrightarrow> limit st = max page_size 1"
  by (auto simp: from_cursor_def and_then_Inr_iff page_at_def)

lemma paginate_page:
  assumes "offset st < length items" and "offset st + limit st < u64_bound"
    and "length items < u64_bound"
  shows "paginate enc items st =
    (let stop = min (offset st + limit st) (length items)
     in Some (Inr (take (limit st) (drop (offset st) items),
        if stop < length items then Some (encode_cursor enc stop) else None)))"
proof -
  let ?stop = "min (offset st + limit st) (length items)"
  have "take (?stop - offset st) (drop (offset st) items) = take (limit st) (drop (offset st) items)"
    using assms(1) by (auto simp: min_def)
  moreover have "length (take (?stop - offset st) (drop (offset st) items)) = ?stop - offset st"
    by simp
  moreover have "offset st \<le> ?stop" using assms(1) by simp
  moreover have "(offset st + limit st) mod u64_bound = offset st + limit st"
    using assms(2) by simp
  moreover have "(offset st + (?stop - offset st)) mod u64_bound = ?stop"
    using assms(1,3) by simp
  ultimately show ?thesis
    using assms(1) by (simp add: paginate_def next_cursor_def Let_def)
qed

text \<open>
  A client that follows cursors: ask for a page, and as long as the answer carries a cursor,
  ask again with it.
\<close>

fun walk :: "(bytes \<Rightarrow> string) \<Rightarrow> (string \<Rightarrow> bytes option) \<Rightarrow> 'a list \<Rightarrow> nat \<Rightarrow> nat \<Rightarrow>
    string option \<Rightarrow> 'a list list option" where
  "walk enc dec items page_size 0 cursor = None"
| "walk enc dec items page_size (Suc n) cursor =
     (case from_cursor dec cursor page_size of
        Inl e \<Rightarrow> None
      | Inr st \<Rightarrow>
          (case paginate enc items st of
             Some (Inr (page, None)) \<Rightarrow> Some [page]
           | Some (Inr (page, Some c)) \<Rightarrow>
               map_option ((#) page) (walk enc dec items page_size n (Some c))
           | _ \<Rightarrow> None))"

lemma walk_from_offset:
  assumes codec: "\<And>s. dec (enc s) = Some s"
    and fits: "length items + max page_size 1 \<le> u64_bound"
    and at: "from_cursor dec cursor page_size = Inr (page_at off page_size)"
    and off: "off < length items" and fuel: "length items - off < fuel"
  shows "\<exists>pages. walk enc dec items page_size fuel cursor = Some pages \<and>
           concat pages = drop off items \<and>
           (\<forall>p \<in> set pages. p \<noteq> [] \<and> length p \<le> max page_size 1)"
  using at off fuel
proof (induction fuel arbitrary: cursor off)
  case 0
  then show ?case by simp
next
  case (Suc n)
  let ?L = "max page_size 1"
  let ?stop = "min (off + ?L) (length items)"
  have L: "0 < ?L" by simp
  have "offset (page_at off page_size) = off" "limit (page_at off page_size) = ?L"
    by (simp_all add: page_at_def)
  then have page: "paginate enc items (page_at off page_size) =
      Some (Inr (take ?L (drop off items),
        if ?stop < length items then Some (encode_cursor enc ?stop) else None))"
    using paginate_page [of "page_at off page_size" items enc] Suc.prems(2) fits L
    by (simp add: Let_def del: max_less_iff_conj)
  have nonempty: "take ?L (drop off items) \<noteq> []" using Suc.prems(2) L by (simp add: not_le)
  show ?case
  proof (cases "?stop < length items")
    case False
    then have "take ?L (drop off items) = drop off items" by (simp add: min_def split: if_splits)
    with False page Suc.prems(1) nonempty show ?thesis by auto
  next
    case True
    then have stop: "?stop = off + ?L" by simp
    let ?c = "encode_cursor enc (off + ?L)"
    have "decode_cursor dec ?c = Some (off + ?L)"
    proof (rule decode_encode_cursor)
      show "dec (enc (show_nat (off + ?L))) = Some (show_nat (off + ?L))" by (rule codec)
      show "off + ?L < u64_bound" using True stop fits by linarith
    qed
    then have "from_cursor dec (Some ?c) page_size = Inr (page_at (off + ?L) page_size)"
      by (simp add: from_cursor_def)
    moreover have "off + ?L < length items" using True stop by linarith
    moreover have "length items - (off + ?L) < n" using Suc.prems(2,3) L by linarith
    ultimately obtain pages where
      IH: "walk enc dec items page_size n (Some ?c) = Some pages"
        "concat pages = drop (off + ?L) items"
        "\<forall>p \<in> set pages. p \<noteq> [] \<and> length p \<le> ?L"
      using Suc.IH by blast
    have "walk enc dec items page_size (Suc n) cursor = Some (take ?L (drop off items) # pages)"
      using page True stop IH(1) Suc.prems(1) by simp
    moreover have "concat (take ?L (drop off items) # pages) = drop off items"
      using IH(2) append_take_drop_id [of ?L "drop off items"] by (simp add: add.commute)
    ultimately show ?thesis using IH(3) nonempty by auto
  qed
qed

lemma walk_all:
  assumes codec: "\<And>s. dec (enc s) = Some s"
    and fits: "length items + max page_size 1 \<le> u64_bound"
  shows "\<exists>pages. walk enc dec items page_size (Suc (length items)) None = Some pages \<and>
           concat pages = items \<and> (\<forall>p \<in> set pages. length p \<le> max page_size 1)"
proof (cases "items = []")
  case True
  then show ?thesis by (simp add: from_cursor_def paginate_def page_at_def)
next
  case False
  have "from_cursor dec None page_size = Inr (page_at 0 page_size)" by (simp add: from_cursor_def)
  from walk_from_offset [OF codec fits this, of "Suc (length items)"] False
  show ?thesis by auto
qed

text \<open>pagination neither loses nor repeats an item, and a client following cursors stops:
  starting with no cursor, at most one request per item later the walk ends and the pages read,
  concatenated, are the whole list, each of them within the page size.\<close>

theorem walk_complete:
  assumes codec: "\<And>s. dec (enc s) = Some s"
    and fits: "length items + max page_size 1 \<le> u64_bound"
  shows "\<exists>pages. walk enc dec items page_size (Suc (length items)) None = Some pages \<and>
           concat pages = items \<and> (\<forall>p \<in> set pages. length p \<le> max page_size 1)"
  using assms by (rule walk_all)

theorem walk_complete_witness:
  "\<exists>pages. walk id Some [1::nat, 2, 3, 4, 5] 2 (Suc (length [1::nat, 2, 3, 4, 5])) None = Some pages
     \<and> concat pages = [1, 2, 3, 4, 5] \<and> (\<forall>p \<in> set pages. length p \<le> max 2 1)"
  by (rule walk_complete) simp_all

text \<open>a page request panics exactly when its offset is inside the list and offset plus page
  size overflow \<open>usize\<close>. With a page size near the maximum, a cursor the client made up is
  enough.\<close>

theorem paginate_panics_iff:
  assumes "length items < u64_bound" and "limit st < u64_bound"
  shows "paginate enc items st = None \<longleftrightarrow>
     offset st < length items \<and> u64_bound \<le> offset st + limit st"
proof (cases "offset st < length items")
  case True
  show ?thesis
  proof (cases "offset st + limit st < u64_bound")
    case False
    then have "(offset st + limit st) mod u64_bound = offset st + limit st - u64_bound"
      using True assms by (simp add: mod_if)
    then have "min ((offset st + limit st) mod u64_bound) (length items) < offset st"
      using False assms(2) by simp
    with True False show ?thesis by (simp add: paginate_def Let_def)
  qed (use True assms paginate_page [of st items enc] in \<open>auto simp: Let_def\<close>)
qed (auto simp: paginate_def Let_def)

theorem paginate_panics_iff_witness:
  "paginate id [''a'', ''b''] (page_at 1 (2 ^ 64 - 1)) = None"
  using paginate_panics_iff [of "[''a'', ''b'']" "page_at 1 (2 ^ 64 - 1)" id]
  by (simp add: page_at_def)

text \<open>a cursor that does not decode, and one that decodes to an offset past the end, are both
  refused as invalid parameters; only an empty list read from the start is an empty page.\<close>

theorem invalid_cursor_refused:
  "(decode_cursor dec c = None \<longrightarrow> from_cursor dec (Some c) page_size = Inl (InvalidParams (''Invalid cursor: '' @ c)))
   \<and> (offset st > 0 \<and> length items \<le> offset st \<longrightarrow>
        (\<exists>m. paginate enc items st = Some (Inl (InvalidParams m))))
   \<and> (paginate enc items st = Some (Inr ([], next)) \<and> 0 < limit st \<and>
        offset st + limit st < u64_bound \<and> length items < u64_bound \<longrightarrow>
        items = [] \<and> offset st = 0 \<and> next = None)"
proof (intro conjI impI)
  assume "decode_cursor dec c = None"
  then show "from_cursor dec (Some c) page_size = Inl (InvalidParams (''Invalid cursor: '' @ c))"
    by (simp add: from_cursor_def)
next
  assume "offset st > 0 \<and> length items \<le> offset st"
  then show "\<exists>m. paginate enc items st = Some (Inl (InvalidParams m))"
    by (simp add: paginate_def)
next
  assume h: "paginate enc items st = Some (Inr ([], next)) \<and> 0 < limit st \<and>
        offset st + limit st < u64_bound \<and> length items < u64_bound"
  have "\<not> offset st < length items"
    using h paginate_page [of st items enc] by (auto simp: Let_def)
  then show "items = []" "offset st = 0" "next = None"
    using h by (auto simp: paginate_def Let_def split: if_splits)
qed

theorem invalid_cursor_refused_witness:
  "from_cursor (\<lambda>_. None) (Some ''!!'') 10 = Inl (InvalidParams ''Invalid cursor: !!'')"
  using invalid_cursor_refused [THEN conjunct1, of "\<lambda>_. None" "''!!''" 10]
  by (simp add: decode_cursor_def)

end
