(* ===== verification/Server.thy ===== *)
theory Server
  imports ToolEnv SchemaCheck Pagination
begin

text \<open>
  The server (\<open>server.rs\<close>): registrations, the handshake and the gate before it, dispatch to the
  handlers of the protocol's methods, tool calls run in place or as tasks, the pump that keeps the
  transport moving while \<open>tasks/result\<close> blocks, and the loop over messages. A server is a record of
  its configuration, registrations and session state; the broker, the task store and the transport
  are the world of the previous theory. What the host decides is one record: how things print,
  what other threads do, entropy, whether a thread can be started, the codec of cursors, the
  wording of a deserialization complaint and the schema compiler. A handler returns a value, or
  unwinds with a panic nobody on the way contains.
\<close>

section \<open>The host\<close>

record host = ambient +
  h_entropy :: "nat \<Rightarrow> 8 word list"
  h_spawn :: "nat \<Rightarrow> string option"
  h_nap :: "nat \<Rightarrow> nat"
  h_encode :: "bytes \<Rightarrow> string"
  h_decode :: "string \<Rightarrow> bytes option"
  h_render :: "de_error \<Rightarrow> string"
  h_compile :: schema_compiler

abbreviation ambient_of :: "host \<Rightarrow> ambient" where
  "ambient_of h \<equiv> ambient.truncate h"

datatype 'a run = Finished 'a | Unwound string

fun map_run :: "('a \<Rightarrow> 'b) \<Rightarrow> 'a run \<Rightarrow> 'b run" where
  "map_run f (Finished x) = Finished (f x)"
| "map_run f (Unwound s) = Unwound s"

section \<open>Registrations\<close>

text \<open>The traits \<open>Tool\<close>, \<open>Resource\<close> and \<open>PromptDef\<close>, as the values of their methods.\<close>

record 'c tool =
  t_name :: string
  t_description :: string
  t_schema :: json
  t_title :: "string option"
  t_output_schema :: "json option"
  t_icons :: "icon list"
  t_task_support :: task_support
  t_annotations :: "tool_annotations option"
  t_meta :: "meta option"
  t_model_immediate_response :: "string option"
  t_execute :: "json \<Rightarrow> 'c \<Rightarrow> tool_env \<Rightarrow> 'c tool_run"

definition as_protocol_tool :: "'c tool \<Rightarrow> wire_tool" where
  "as_protocol_tool t = \<lparr>wt_name = t_name t, wt_title = t_title t, wt_description = Some (t_description t),
     wt_input_schema = t_schema t, wt_output_schema = t_output_schema t, wt_annotations = t_annotations t,
     wt_icons = t_icons t,
     wt_execution = (if t_task_support t \<noteq> Forbidden then Some \<lparr>tx_task_support = Some (t_task_support t)\<rparr> else None),
     wt_meta = t_meta t\<rparr>"

record resource_def =
  r_uri :: string
  r_name :: string
  r_description :: string
  r_mime_type :: string
  r_content :: "resource_content list run"
  r_title :: "string option"
  r_size :: "nat option"
  r_icons :: "icon list"
  r_annotations :: "annotations option"
  r_meta :: "meta option"

definition as_protocol_resource :: "resource_def \<Rightarrow> wire_resource" where
  "as_protocol_resource r = \<lparr>wr_uri = r_uri r, wr_name = r_name r, wr_title = r_title r,
     wr_description = Some (r_description r), wr_mime_type = Some (r_mime_type r), wr_size = r_size r,
     wr_icons = r_icons r, wr_annotations = r_annotations r, wr_meta = r_meta r\<rparr>"

record prompt_def =
  p_name :: string
  p_description :: "string option"
  p_arguments :: "prompt_argument list"
  p_messages :: "(string \<times> string) list \<Rightarrow> prompt_message list result run"
  p_title :: "string option"
  p_icons :: "icon list"
  p_meta :: "meta option"

definition as_protocol_prompt :: "prompt_def \<Rightarrow> wire_prompt" where
  "as_protocol_prompt p = \<lparr>wp_name = p_name p, wp_title = p_title p, wp_description = p_description p,
     wp_arguments = p_arguments p, wp_icons = p_icons p, wp_meta = p_meta p\<rparr>"

record 'c tool_entry =
  en_tool :: "'c tool"
  en_input :: "compiled_schema option"
  en_output :: output_check

record server_config =
  cfg_name :: string
  cfg_version :: string
  cfg_instructions :: "string option"
  cfg_title :: "string option"
  cfg_description :: "string option"
  cfg_website_url :: "string option"
  cfg_icons :: "icon list"
  cfg_page_size :: nat
  cfg_supported_versions :: "string list"
  cfg_default_log_level :: log_level
  cfg_stderr_logging :: stderr_logging
  cfg_request_timeout :: "nat option"
  cfg_validate_tool_input :: bool
  cfg_require_initialization :: bool
  cfg_task_result_timeout :: "nat option"
  cfg_max_message_bytes :: nat

text \<open>The default configuration; the version is the package's own.\<close>

definition default_server_config :: "string \<Rightarrow> server_config" where
  "default_server_config pkg_version = \<lparr>cfg_name = ''sml_mcps'', cfg_version = pkg_version, cfg_instructions = None,
     cfg_title = None, cfg_description = None, cfg_website_url = None, cfg_icons = [],
     cfg_page_size = DEFAULT_PAGE_SIZE, cfg_supported_versions = SUPPORTED_PROTOCOL_VERSIONS,
     cfg_default_log_level = Info, cfg_stderr_logging = Fallback, cfg_request_timeout = Some 120000,
     cfg_validate_tool_input = True, cfg_require_initialization = False,
     cfg_task_result_timeout = Some 30000, cfg_max_message_bytes = 8 * 1024 * 1024\<rparr>"

datatype task_context = SingleRequestor | OwnedBy string | Anonymous

fun context_owner :: "task_context \<Rightarrow> string option" where
  "context_owner (OwnedBy s) = Some s"
| "context_owner _ = None"

fun can_list :: "task_context \<Rightarrow> bool" where
  "can_list Anonymous = False"
| "can_list _ = True"

section \<open>The server\<close>

text \<open>
  \<open>sv_tasks\<close> is the task runtime's context factory; its store is the world's. \<open>sv_gates\<close> are the
  tasks whose workers wait for the response that announces them.
\<close>

record 'c server =
  sv_config :: server_config
  sv_tools :: "(string, 'c tool_entry) table"
  sv_resources :: "(string, resource_def) table"
  sv_resource_templates :: "resource_template list"
  sv_prompts :: "(string, prompt_def) table"
  sv_transport :: bool
  sv_can_pump :: bool
  sv_initialized :: bool
  sv_log_level :: log_level
  sv_client_capabilities :: client_capabilities
  sv_tasks :: "(unit \<Rightarrow> 'c) option"
  sv_task_context :: task_context
  sv_negotiated_version :: "string option"
  sv_gates :: "string list"

definition new_server :: "server_config \<Rightarrow> 'c server" where
  "new_server cfg = \<lparr>sv_config = cfg, sv_tools = [], sv_resources = [], sv_resource_templates = [], sv_prompts = [],
     sv_transport = False, sv_can_pump = False, sv_initialized = False, sv_log_level = cfg_default_log_level cfg,
     sv_client_capabilities = no_capabilities, sv_tasks = None, sv_task_context = SingleRequestor,
     sv_negotiated_version = None, sv_gates = []\<rparr>"

text \<open>\<open>enable_tasks\<close> also starts with an empty store.\<close>

definition enable_tasks :: "task_config \<Rightarrow> (unit \<Rightarrow> 'c) \<Rightarrow> 'c server \<Rightarrow> 'c server \<times> task_store" where
  "enable_tasks cfg make_context sv = (sv\<lparr>sv_tasks := Some make_context\<rparr>, new_store cfg)"

definition requestor :: "'c server \<Rightarrow> string option" where
  "requestor sv = context_owner (sv_task_context sv)"

definition server_info :: "'c server \<Rightarrow> implementation" where
  "server_info sv = (let c = sv_config sv in
     \<lparr>im_name = cfg_name c, im_version = cfg_version c, im_title = cfg_title c, im_description = cfg_description c,
      im_icons = cfg_icons c, im_website_url = cfg_website_url c\<rparr>)"

definition add_tool :: "schema_compiler \<Rightarrow> 'c tool \<Rightarrow> 'c server \<Rightarrow> unit result \<times> 'c server" where
  "add_tool compile t sv =
     (let name = t_name t in
      if table_get (sv_tools sv) name \<noteq> None then (Inl (Internal (''Duplicate tool: '' @ name)), sv)
      else if \<not> is_valid_tool_name name
      then (Inl (Internal (''Invalid tool name `'' @ name @
              ''`: 1-128 characters of ASCII letters, digits, `_`, `-`, or `.`'')), sv)
      else (Inr (), sv\<lparr>sv_tools := table_insert name
              \<lparr>en_tool = t, en_input = (case compile (t_schema t) of Inr c \<Rightarrow> Some c | Inl _ \<Rightarrow> None),
               en_output = new_output_check compile (t_output_schema t)\<rparr> (sv_tools sv)\<rparr>))"

definition add_resource :: "resource_def \<Rightarrow> 'c server \<Rightarrow> unit result \<times> 'c server" where
  "add_resource r sv =
     (if table_get (sv_resources sv) (r_uri r) \<noteq> None then (Inl (Internal (''Duplicate resource: '' @ r_uri r)), sv)
      else (Inr (), sv\<lparr>sv_resources := table_insert (r_uri r) r (sv_resources sv)\<rparr>))"

definition add_resource_template :: "resource_template \<Rightarrow> 'c server \<Rightarrow> unit result \<times> 'c server" where
  "add_resource_template t sv =
     (if list_ex (\<lambda>x. rt_uri_template x = rt_uri_template t) (sv_resource_templates sv)
      then (Inl (Internal (''Duplicate resource template: '' @ rt_uri_template t)), sv)
      else (Inr (), sv\<lparr>sv_resource_templates := sv_resource_templates sv @ [t]\<rparr>))"

definition add_prompt :: "prompt_def \<Rightarrow> 'c server \<Rightarrow> unit result \<times> 'c server" where
  "add_prompt p sv =
     (if table_get (sv_prompts sv) (p_name p) \<noteq> None then (Inl (Internal (''Duplicate prompt: '' @ p_name p)), sv)
      else (Inr (), sv\<lparr>sv_prompts := table_insert (p_name p) p (sv_prompts sv)\<rparr>))"

text \<open>\<open>tool_env_with\<close>: what a tool called in place is handed.\<close>

definition tool_env_with :: "'c server \<Rightarrow> request_id option \<Rightarrow> tool_env" where
  "tool_env_with sv token = \<lparr>te_transport = sv_transport sv, te_log_level = sv_log_level sv,
     te_stderr_logging = cfg_stderr_logging (sv_config sv), te_logger = cfg_name (sv_config sv),
     te_client_capabilities = sv_client_capabilities sv, te_mode = Direct,
     te_request_timeout = cfg_request_timeout (sv_config sv), te_task = None, te_progress_token = token\<rparr>"

text \<open>The environment \<open>start_tool_task\<close> builds for the worker.\<close>

definition worker_env :: "'c server \<Rightarrow> string \<Rightarrow> nat \<Rightarrow> request_id option \<Rightarrow> tool_env" where
  "worker_env sv tid flag token = \<lparr>te_transport = sv_transport sv, te_log_level = sv_log_level sv,
     te_stderr_logging = cfg_stderr_logging (sv_config sv), te_logger = cfg_name (sv_config sv),
     te_client_capabilities = (if sv_can_pump sv then sv_client_capabilities sv else no_capabilities),
     te_mode = (if sv_can_pump sv then Delegated else NoRequests),
     te_request_timeout = cfg_request_timeout (sv_config sv), te_task = Some (tid, flag), te_progress_token = token\<rparr>"


section \<open>Helpers\<close>

definition check_output :: "string \<Rightarrow> output_check \<Rightarrow> call_tool_result \<Rightarrow> unit result" where
  "check_output name output r =
     (if cr_is_error r then Inr ()
      else case output_check_of output (cr_structured_content r) of
        Inl problem \<Rightarrow> Inl (Internal (''Tool `'' @ name @ ''` declares an outputSchema but returned '' @ problem))
      | Inr _ \<Rightarrow> Inr ())"

definition with_related_task_data :: "jsonrpc_error \<Rightarrow> string \<Rightarrow> jsonrpc_error" where
  "with_related_task_data e tid =
     (let d = (case data e of None \<Rightarrow> JObject [] | Some d \<Rightarrow> d)
      in e\<lparr>data := Some (case d of
             JObject kvs \<Rightarrow> JObject (obj_insert RELATED_TASK (jobject [(''taskId'', JString tid)]) kvs)
           | _ \<Rightarrow> d)\<rparr>)"

fun is_malformed :: "mcp_error \<Rightarrow> bool" where
  "is_malformed (Json _) = True"
| "is_malformed (InvalidMessage _) = True"
| "is_malformed (InvalidRequest _ _) = True"
| "is_malformed _ = False"

fun error_id :: "mcp_error \<Rightarrow> request_id" where
  "error_id (InvalidRequest i _) = i"
| "error_id _ = IdNull"

definition parse_params :: "host \<Rightarrow> (json \<Rightarrow> de_error + 'a) \<Rightarrow> jsonrpc_request \<Rightarrow> 'a result" where
  "parse_params h f rq =
     (case rq_params rq of
        None \<Rightarrow> Inl (InvalidParams ''Missing params'')
      | Some v \<Rightarrow>
          (case f v of Inl e \<Rightarrow> Inl (InvalidParams (''Invalid params: '' @ h_render h e)) | Inr x \<Rightarrow> Inr x))"

definition parse_optional_params :: "host \<Rightarrow> (json \<Rightarrow> de_error + 'a) \<Rightarrow> 'a \<Rightarrow> jsonrpc_request \<Rightarrow> 'a result" where
  "parse_optional_params h f d rq =
     (case rq_params rq of
        None \<Rightarrow> Inr d
      | Some v \<Rightarrow>
          (case f v of Inl e \<Rightarrow> Inl (InvalidParams (''Invalid params: '' @ h_render h e)) | Inr x \<Rightarrow> Inr x))"

text \<open>A page of a list, as every list handler makes it; the addition in \<open>paginate\<close> can overflow.\<close>

definition OVERFLOW_PANIC :: string where
  "OVERFLOW_PANIC = ''attempt to add with overflow''"

definition page_result :: "host \<Rightarrow> nat \<Rightarrow> string \<Rightarrow> ('a \<Rightarrow> json) \<Rightarrow> 'a list \<Rightarrow> string option \<Rightarrow> json result run" where
  "page_result h page_size k f items cursor =
     (case from_cursor (h_decode h) cursor page_size of
        Inl e \<Rightarrow> Finished (Inl e)
      | Inr st \<Rightarrow>
          (case paginate (h_encode h) items st of
             None \<Rightarrow> Unwound OVERFLOW_PANIC
           | Some r \<Rightarrow> Finished (map_ok (page_to_value k f) r)))"

definition check_initialized :: "'c server \<Rightarrow> string \<Rightarrow> unit result" where
  "check_initialized sv m =
     (if \<not> cfg_require_initialization (sv_config sv) then Inr ()
      else if m = ''ping'' then Inr ()
      else if m = ''initialize''
      then (if sv_initialized sv
            then Inl (InvalidMessage ''already initialized; the handshake happens once per session'') else Inr ())
      else if \<not> sv_initialized sv then Inl (InvalidMessage (''`'' @ m @ ''` before `initialize`''))
      else Inr ())"

section \<open>Handlers that only look\<close>

definition handle_ping :: "json result" where
  "handle_ping = Inr (jobject [])"

definition handle_list_tools :: "host \<Rightarrow> 'c server \<Rightarrow> jsonrpc_request \<Rightarrow> json result run" where
  "handle_list_tools h sv rq =
     (case parse_optional_params h cursor_params_of None rq of
        Inl e \<Rightarrow> Finished (Inl e)
      | Inr cursor \<Rightarrow>
          let tools = map (\<lambda>(_, e). let t = as_protocol_tool (en_tool e)
                in if sv_tasks sv = None then t\<lparr>wt_execution := None\<rparr> else t) (sv_tools sv)
          in page_result h (cfg_page_size (sv_config sv)) ''tools'' wire_tool_to_value
               (sort_by (\<lambda>a b. wt_name a \<le> wt_name b) tools) cursor)"

definition handle_list_resources :: "host \<Rightarrow> 'c server \<Rightarrow> jsonrpc_request \<Rightarrow> json result run" where
  "handle_list_resources h sv rq =
     (case parse_optional_params h cursor_params_of None rq of
        Inl e \<Rightarrow> Finished (Inl e)
      | Inr cursor \<Rightarrow>
          page_result h (cfg_page_size (sv_config sv)) ''resources'' wire_resource_to_value
            (sort_by (\<lambda>a b. wr_uri a \<le> wr_uri b) (map (\<lambda>(_, r). as_protocol_resource r) (sv_resources sv))) cursor)"

definition handle_list_resource_templates :: "host \<Rightarrow> 'c server \<Rightarrow> jsonrpc_request \<Rightarrow> json result run" where
  "handle_list_resource_templates h sv rq =
     (case parse_optional_params h cursor_params_of None rq of
        Inl e \<Rightarrow> Finished (Inl e)
      | Inr cursor \<Rightarrow>
          page_result h (cfg_page_size (sv_config sv)) ''resourceTemplates'' resource_template_to_value
            (sort_by (\<lambda>a b. rt_uri_template a \<le> rt_uri_template b) (sv_resource_templates sv)) cursor)"

definition handle_list_prompts :: "host \<Rightarrow> 'c server \<Rightarrow> jsonrpc_request \<Rightarrow> json result run" where
  "handle_list_prompts h sv rq =
     (case parse_optional_params h cursor_params_of None rq of
        Inl e \<Rightarrow> Finished (Inl e)
      | Inr cursor \<Rightarrow>
          page_result h (cfg_page_size (sv_config sv)) ''prompts'' wire_prompt_to_value
            (sort_by (\<lambda>a b. wp_name a \<le> wp_name b) (map (\<lambda>(_, p). as_protocol_prompt p) (sv_prompts sv))) cursor)"

definition handle_read_resource :: "host \<Rightarrow> 'c server \<Rightarrow> jsonrpc_request \<Rightarrow> json result run" where
  "handle_read_resource h sv rq =
     (case parse_params h read_resource_params_of rq of
        Inl e \<Rightarrow> Finished (Inl e)
      | Inr uri \<Rightarrow>
          (case table_get (sv_resources sv) uri of
             None \<Rightarrow> Finished (Inl (ResourceNotFound uri))
           | Some r \<Rightarrow>
               map_run (\<lambda>cs. Inr (jobject [(''contents'', JArray (map resource_content_to_value cs))])) (r_content r)))"

definition handle_get_prompt :: "host \<Rightarrow> 'c server \<Rightarrow> jsonrpc_request \<Rightarrow> json result run" where
  "handle_get_prompt h sv rq =
     (case parse_params h get_prompt_params_of rq of
        Inl e \<Rightarrow> Finished (Inl e)
      | Inr (name, arguments) \<Rightarrow>
          (case table_get (sv_prompts sv) name of
             None \<Rightarrow> Finished (Inl (PromptNotFound name))
           | Some p \<Rightarrow>
               map_run (map_ok (get_prompt_result_to_value (p_description p))) (p_messages p arguments)))"

section \<open>The handshake and the log level\<close>

definition negotiate :: "string list \<Rightarrow> string \<Rightarrow> string" where
  "negotiate supported requested =
     (if requested \<in> set supported then requested
      else case supported of v # _ \<Rightarrow> v | [] \<Rightarrow> PROTOCOL_VERSION)"

definition capabilities_of :: "'c server \<Rightarrow> server_capabilities" where
  "capabilities_of sv =
     \<lparr>sc_tools = (if sv_tools sv = [] \<and> sv_tasks sv = None then None else Some \<lparr>tc_list_changed = False\<rparr>),
      sc_resources = (if sv_resources sv = [] \<and> sv_resource_templates sv = [] then None
        else Some \<lparr>rc_subscribe = False, rc_list_changed = False\<rparr>),
      sc_prompts = (if sv_prompts sv = [] then None else Some \<lparr>pc_list_changed = False\<rparr>),
      sc_logging = Some (jobject []),
      sc_tasks = (if sv_tasks sv = None then None
        else Some \<lparr>kc_list = (if can_list (sv_task_context sv) then Some (jobject []) else None),
          kc_cancel = Some (jobject []),
          kc_requests = Some (jobject [(''tools'', jobject [(''call'', jobject [])])])\<rparr>),
      sc_experimental = None\<rparr>"

definition handle_initialize :: "host \<Rightarrow> 'c server \<Rightarrow> jsonrpc_request \<Rightarrow> json result \<times> 'c server" where
  "handle_initialize h sv rq =
     (case (case rq_params rq of
              Some v \<Rightarrow>
                (case initialize_params_of v of
                   Inl e \<Rightarrow> Inl (InvalidParams (''Invalid initialize params: '' @ h_render h e))
                 | Inr p \<Rightarrow> Inr p)
            | None \<Rightarrow> Inr default_initialize_params) of
        Inl e \<Rightarrow> (Inl e, sv)
      | Inr p \<Rightarrow>
          let negotiated = negotiate (cfg_supported_versions (sv_config sv)) (ip_protocol_version p);
              sv = sv\<lparr>sv_client_capabilities := ip_capabilities p, sv_initialized := True,
                      sv_negotiated_version := Some negotiated\<rparr>
          in (Inr (initialize_result_to_value \<lparr>ir_protocol_version = negotiated, ir_capabilities = capabilities_of sv,
                ir_server_info = server_info sv, ir_instructions = cfg_instructions (sv_config sv)\<rparr>), sv))"

definition handle_set_level :: "host \<Rightarrow> 'c server \<Rightarrow> jsonrpc_request \<Rightarrow> json result \<times> 'c server" where
  "handle_set_level h sv rq =
     (case (case rq_params rq of
              Some v \<Rightarrow>
                (case set_level_params_of v of
                   Inl e \<Rightarrow> Inl (InvalidParams (''Invalid setLevel params: '' @ h_render h e))
                 | Inr l \<Rightarrow> Inr l)
            | None \<Rightarrow> Inl (InvalidParams ''Missing params'')) of
        Inl e \<Rightarrow> (Inl e, sv)
      | Inr level \<Rightarrow>
          (case from_wire level of
             None \<Rightarrow> (Inl (InvalidParams (''Unknown log level `'' @ level @ ''`; expected one of: '' @
                       join '', '' (map as_str ALL_LEVELS))), sv)
           | Some l \<Rightarrow> (Inr (jobject []), sv\<lparr>sv_log_level := l\<rparr>)))"

section \<open>Tasks\<close>

definition TASKS_UNSUPPORTED :: mcp_error where
  "TASKS_UNSUPPORTED = MethodNotFound ''tasks are not supported by this server''"

definition task_store_or_unsupported :: "'c server \<Rightarrow> unit result" where
  "task_store_or_unsupported sv = (if sv_tasks sv = None then Inl TASKS_UNSUPPORTED else Inr ())"

text \<open>A task operation that takes the id of a task from the parameters.\<close>

definition handle_task_get :: "host \<Rightarrow> 'c server \<Rightarrow> jsonrpc_request \<Rightarrow> world \<Rightarrow> json result \<times> world" where
  "handle_task_get h sv rq w =
     (case and_then (task_store_or_unsupported sv) (\<lambda>_. parse_params h task_id_params_of rq) of
        Inl e \<Rightarrow> (Inl e, w)
      | Inr tid \<Rightarrow>
          (case get (store_of w) (wall w) tid (requestor sv) of
             (r, s) \<Rightarrow> (map_ok task_to_value r, w\<lparr>store_of := s\<rparr>)))"

definition handle_task_cancel :: "host \<Rightarrow> 'c server \<Rightarrow> jsonrpc_request \<Rightarrow> world \<Rightarrow> json result \<times> world" where
  "handle_task_cancel h sv rq w =
     (case and_then (task_store_or_unsupported sv) (\<lambda>_. parse_params h task_id_params_of rq) of
        Inl e \<Rightarrow> (Inl e, w)
      | Inr tid \<Rightarrow>
          (case cancel (store_of w) (wall w) (wall w) tid (requestor sv) of
             (r, s) \<Rightarrow> (map_ok task_to_value r, w\<lparr>store_of := s\<rparr>)))"

definition handle_task_list :: "host \<Rightarrow> 'c server \<Rightarrow> jsonrpc_request \<Rightarrow> world \<Rightarrow> json result run \<times> world" where
  "handle_task_list h sv rq w =
     (if sv_tasks sv = None then (Finished (Inl TASKS_UNSUPPORTED), w)
      else if \<not> can_list (sv_task_context sv)
      then (Finished (Inl (MethodNotFound
              ''tasks/list is not available on a server that cannot identify requestors'')), w)
      else case parse_optional_params h cursor_params_of None rq of
        Inl e \<Rightarrow> (Finished (Inl e), w)
      | Inr cursor \<Rightarrow>
          (case list_tasks (store_of w) (wall w) (requestor sv) of
             (Inl e, s) \<Rightarrow> (Finished (Inl e), w\<lparr>store_of := s\<rparr>)
           | (Inr tasks, s) \<Rightarrow>
               (case from_cursor (h_decode h) cursor (cfg_page_size (sv_config sv)) of
                  Inl e \<Rightarrow> (Finished (Inl e), w\<lparr>store_of := s\<rparr>)
                | Inr st \<Rightarrow>
                    if 0 < offset st \<and> length tasks \<le> offset st
                    then (Finished (Inl (InvalidParams (''Invalid cursor: no task at offset '' @ show_nat (offset st)))),
                          w\<lparr>store_of := s\<rparr>)
                    else
                      ((case paginate (h_encode h) tasks st of
                          None \<Rightarrow> Unwound OVERFLOW_PANIC
                        | Some r \<Rightarrow> Finished (map_ok (page_to_value ''tasks'' task_to_value) r)),
                       w\<lparr>store_of := s\<rparr>))))"


section \<open>Writing\<close>

definition release_task_workers :: "'c server \<Rightarrow> 'c server" where
  "release_task_workers sv = sv\<lparr>sv_gates := []\<rparr>"

definition write_message :: "jsonrpc_message \<Rightarrow> 'c server \<Rightarrow> world \<Rightarrow> unit result \<times> 'c server \<times> world" where
  "write_message m sv w =
     (if \<not> sv_transport sv then (Inr (), sv, w)
      else if lock_poisoned_w (wire_link w) then (Inl LOCK_POISONED, sv, w)
      else case link_write m (wire_link w) of (r, l) \<Rightarrow> (r, release_task_workers sv, w\<lparr>wire_link := l\<rparr>))"

definition server_shed_or_defer :: "jsonrpc_message \<Rightarrow> 'c server \<Rightarrow> world \<Rightarrow> unit result \<times> 'c server \<times> world" where
  "server_shed_or_defer m sv w =
     (case defer_message (broker_of w) m of
        (Inr _, b) \<Rightarrow> (Inr (), sv, w\<lparr>broker_of := b\<rparr>)
      | (Inl refused, b) \<Rightarrow>
          (case overloaded_response refused of
             Some answer \<Rightarrow> write_message answer sv (w\<lparr>broker_of := b\<rparr>)
           | None \<Rightarrow> (Inr (), sv, w\<lparr>broker_of := b\<rparr>)))"

text \<open>How a handler's result becomes the response.\<close>

definition answer_to :: "request_id \<Rightarrow> json result \<Rightarrow> jsonrpc_message" where
  "answer_to i r = (case r of Inr v \<Rightarrow> response i v | Inl e \<Rightarrow> error i (to_jsonrpc_error e))"

section \<open>Blocking on a task\<close>

definition answer_inline :: "host \<Rightarrow> 'c server \<Rightarrow> jsonrpc_request \<Rightarrow> world \<Rightarrow> jsonrpc_message option run \<times> world" where
  "answer_inline h sv rq w =
     (if rq_method rq \<notin> {''ping'', ''tasks/get'', ''tasks/list'', ''tasks/cancel''} then (Finished None, w)
      else case check_initialized sv (rq_method rq) of
        Inl e \<Rightarrow> (Finished (Some (answer_to (rq_id rq) (Inl e))), w)
      | Inr _ \<Rightarrow>
          (case (if rq_method rq = ''ping'' then (Finished handle_ping, w)
                 else if rq_method rq = ''tasks/get''
                 then (case handle_task_get h sv rq w of (r, w) \<Rightarrow> (Finished r, w))
                 else if rq_method rq = ''tasks/list'' then handle_task_list h sv rq w
                 else (case handle_task_cancel h sv rq w of (r, w) \<Rightarrow> (Finished r, w))) of
             (r, w) \<Rightarrow> (map_run (\<lambda>r. Some (answer_to (rq_id rq) r)) r, w)))"

definition PUMP_INTERVAL :: nat where "PUMP_INTERVAL = 100"

text \<open>
  One read of the pump, with the deadline put back. A failure to lock the transport or to arm the
  deadline ends the wait, whatever the error; it is told apart from what the read returns.
\<close>

definition pump_read :: "world \<Rightarrow> (mcp_error + jsonrpc_message result) \<times> world" where
  "pump_read w =
     (if lock_poisoned_r (wire_link w) then (Inl LOCK_POISONED, w)
      else case set_read_timeout (Some PUMP_INTERVAL) (wire_link w) of
        (Inl e, l) \<Rightarrow> (Inl e, w\<lparr>wire_link := l\<rparr>)
      | (Inr _, l) \<Rightarrow>
          (case link_read l of (r, l) \<Rightarrow> (Inr r, w\<lparr>wire_link := snd (set_read_timeout None l)\<rparr>)))"

text \<open>What the pump does with what it read: go on, stop with an error, or unwind.\<close>

datatype pumped = GoOn | StopWith mcp_error | Crashed string

definition pump_route :: "host \<Rightarrow> jsonrpc_message result \<Rightarrow> 'c server \<Rightarrow> world \<Rightarrow> pumped \<times> 'c server \<times> world" where
  "pump_route h r sv w =
     (let after = (\<lambda>(r, sv, w). (case r of Inr _ \<Rightarrow> GoOn | Inl e \<Rightarrow> StopWith e, sv, w)) in
      case r of
        Inl (Timeout _) \<Rightarrow> (GoOn, sv, w)
      | Inl TransportClosed \<Rightarrow> (StopWith TransportClosed, sv, w)
      | Inl e \<Rightarrow>
          if is_malformed e then after (write_message (error (error_id e) (to_jsonrpc_error e)) sv w)
          else (StopWith e, sv, w)
      | Inr (Response r) \<Rightarrow> (GoOn, sv, w\<lparr>broker_of := deliver (broker_of w) r\<rparr>)
      | Inr (Request rq) \<Rightarrow>
          (case answer_inline h sv rq w of
             (Unwound s, w) \<Rightarrow> (Crashed s, sv, w)
           | (Finished (Some m), w) \<Rightarrow> after (write_message m sv w)
           | (Finished None, w) \<Rightarrow> after (server_shed_or_defer (Request rq) sv w))
      | Inr m \<Rightarrow> after (server_shed_or_defer m sv w))"

text \<open>The pump; \<open>n\<close> bounds its rounds and \<^const>\<open>None\<close> is a wait still going on after them.\<close>

fun pump :: "host \<Rightarrow> string \<Rightarrow> nat \<Rightarrow> 'c server \<Rightarrow> world \<Rightarrow> (task_outcome result run \<times> 'c server \<times> world) option" where
  "pump h tid 0 sv w = None"
| "pump h tid (Suc n) sv w =
     (let w = pause (amb_sched h) w in
      case try_result (store_of w) (wall w) tid (requestor sv) of
        (Inl e, s) \<Rightarrow> Some (Finished (Inl e), sv, w\<lparr>store_of := s\<rparr>)
      | (Inr (Some out), s) \<Rightarrow> Some (Finished (Inr out), sv, w\<lparr>store_of := s\<rparr>)
      | (Inr None, s) \<Rightarrow>
          (case pump_read (w\<lparr>store_of := s\<rparr>) of
             (Inl e, w) \<Rightarrow> Some (Finished (Inl e), sv, w)
           | (Inr r, w) \<Rightarrow>
               (case pump_route h r sv w of
                  (GoOn, sv, w) \<Rightarrow> pump h tid n sv w
                | (StopWith e, sv, w) \<Rightarrow> Some (Finished (Inl e), sv, w)
                | (Crashed s, sv, w) \<Rightarrow> Some (Unwound s, sv, w))))"

text \<open>
  Where the transport cannot be pumped, the wait is on the store alone, with the configured
  patience: \<open>h_nap\<close> says how long each sleep lasts, a millisecond at least, unless the deadline cuts
  it short.
\<close>

fun await_store :: "host \<Rightarrow> string \<Rightarrow> string option \<Rightarrow> nat option \<Rightarrow> nat \<Rightarrow> world \<Rightarrow> (task_outcome result \<times> world) option" where
  "await_store h tid req deadline 0 w = None"
| "await_store h tid req deadline (Suc n) w =
     (case try_result (store_of w) (wall w) tid req of
        (Inl e, s) \<Rightarrow> Some (Inl e, w\<lparr>store_of := s\<rparr>)
      | (Inr (Some out), s) \<Rightarrow> Some (Inr out, w\<lparr>store_of := s\<rparr>)
      | (Inr None, s) \<Rightarrow>
          if (case deadline of Some at \<Rightarrow> at \<le> now_of w | None \<Rightarrow> False)
          then Some (Inl (Timeout (''task '' @ tid @
                 '' is still running; poll `tasks/get` and call `tasks/result` again'')), w\<lparr>store_of := s\<rparr>)
          else
            let nap = max 1 (h_nap h (turn_of w));
                nap = (case deadline of Some at \<Rightarrow> min nap (at - now_of w) | None \<Rightarrow> nap);
                w = w\<lparr>store_of := s, wire_link := (wire_link w)\<lparr>clock := now_of w + nap\<rparr>\<rparr>
            in await_store h tid req deadline n (pause (amb_sched h) w))"

definition await_task :: "host \<Rightarrow> string \<Rightarrow> 'c server \<Rightarrow> world \<Rightarrow> (task_outcome result run \<times> 'c server \<times> world) option" where
  "await_task h tid sv w =
     (if sv_transport sv \<and> sv_can_pump sv then pump h tid (amb_polls h) sv w
      else map_option (\<lambda>(r, w). (Finished r, sv, w))
        (await_store h tid (requestor sv)
           (map_option (\<lambda>t. now_of w + t) (cfg_task_result_timeout (sv_config sv))) (amb_polls h) w))"

text \<open>The outcome of a task as the answer of \<open>tasks/result\<close>.\<close>

definition result_of_outcome :: "string \<Rightarrow> task_outcome \<Rightarrow> json result" where
  "result_of_outcome tid out =
     (case out of
        Value (JObject kvs) \<Rightarrow>
          (let m = (case map_of kvs ''_meta'' of None \<Rightarrow> JObject [] | Some m \<Rightarrow> m)
           in Inr (JObject (obj_insert ''_meta''
                (case m of
                   JObject ms \<Rightarrow> JObject (obj_insert RELATED_TASK (jobject [(''taskId'', JString tid)]) ms)
                 | _ \<Rightarrow> related_task_meta tid) kvs)))
      | Value v \<Rightarrow> Inr v
      | Error e \<Rightarrow> Inl (Passthrough (with_related_task_data e tid)))"

definition handle_task_result :: "host \<Rightarrow> 'c server \<Rightarrow> jsonrpc_request \<Rightarrow> world \<Rightarrow>
    (json result run \<times> 'c server \<times> world) option" where
  "handle_task_result h sv rq w =
     (case and_then (task_store_or_unsupported sv) (\<lambda>_. parse_params h task_id_params_of rq) of
        Inl e \<Rightarrow> Some (Finished (Inl e), sv, w)
      | Inr tid \<Rightarrow>
          map_option (\<lambda>(r, sv, w). (map_run (\<lambda>r. and_then r (result_of_outcome tid)) r, sv, w)) (await_task h tid sv w))"


section \<open>Calling a tool\<close>

text \<open>What a call made in place answers, from how the tool ended.\<close>

definition call_outcome :: "string \<Rightarrow> output_check \<Rightarrow> 'c tool_end \<Rightarrow> json result" where
  "call_outcome name output ended =
     (let finish = (\<lambda>r. map_ok (\<lambda>_. call_tool_result_to_value r) (check_output name output r)) in
      case ended of
        Panicked p _ \<Rightarrow> Inl (Internal (''tool `'' @ name @ ''` panicked: '' @ panic_message p))
      | Returned (Inr r) _ \<Rightarrow> finish r
      | Returned (Inl (ToolError m)) _ \<Rightarrow> finish (error_result m)
      | Returned (Inl (InvalidParams m)) _ \<Rightarrow> finish (error_result (''Invalid arguments: '' @ m))
      | Returned (Inl e) _ \<Rightarrow> Inl e)"

text \<open>How a worker settles its task. Serializing a tool's result cannot fail here, so the branches
  for that do not appear.\<close>

definition worker_outcome :: "string \<Rightarrow> output_check \<Rightarrow> 'c tool_end \<Rightarrow> task_status \<times> task_outcome" where
  "worker_outcome name output ended =
     (case ended of
        Panicked p _ \<Rightarrow> (Failed, Error (internal_error (''task worker panicked: '' @ panic_message p)))
      | Returned (Inr r) _ \<Rightarrow>
          if cr_is_error r then (Failed, Value (call_tool_result_to_value r))
          else (case check_output name output r of
                  Inl problem \<Rightarrow> (Failed, Error (to_jsonrpc_error problem))
                | Inr _ \<Rightarrow> (Completed, Value (call_tool_result_to_value r)))
      | Returned (Inl (ToolError m)) _ \<Rightarrow> (Failed, Value (call_tool_result_to_value (error_result m)))
      | Returned (Inl (InvalidParams m)) _ \<Rightarrow> (Failed, Value (call_tool_result_to_value (error_result m)))
      | Returned (Inl e) _ \<Rightarrow> (Failed, Error (to_jsonrpc_error e)))"

fun end_context :: "'c tool_end \<Rightarrow> 'c" where
  "end_context (Returned _ c) = c"
| "end_context (Panicked _ c) = c"

text \<open>The worker's thread, past its gate: run the tool, settle the task, tell the client.\<close>

definition task_worker :: "host \<Rightarrow> 'c server \<Rightarrow> 'c tool_entry \<Rightarrow> json \<Rightarrow> request_id option \<Rightarrow> string \<Rightarrow> nat \<Rightarrow>
    (unit \<Rightarrow> 'c) \<Rightarrow> world \<Rightarrow> world option" where
  "task_worker h sv entry arguments token tid flag make_context w =
     (let env = worker_env sv tid flag token; tool = en_tool entry in
      case run_tool (ambient_of h) env (t_execute tool arguments (make_context ()) env) w of
        None \<Rightarrow> None
      | Some (ended, w) \<Rightarrow>
          let (st, out) = worker_outcome (t_name tool) (en_output entry) ended;
              w = w\<lparr>store_of := snd (finish (store_of w) (wall w) tid st out)\<rparr>
          in (case get (store_of w) (wall w) tid (requestor sv) of
                (Inl _, s) \<Rightarrow> Some (w\<lparr>store_of := s\<rparr>)
              | (Inr t, s) \<Rightarrow>
                  let w = w\<lparr>store_of := s\<rparr>
                  in Some (if sv_transport sv
                           then snd (world_write (notification ''notifications/tasks/status'' (Some (task_to_value t))) w)
                           else w)))"

definition start_tool_task :: "host \<Rightarrow> 'c server \<Rightarrow> 'c tool \<Rightarrow> nat option \<Rightarrow> world \<Rightarrow> json result \<times> 'c server \<times> world" where
  "start_tool_task h sv tool lifetime w =
     (if sv_tasks sv = None then (Inl (Internal ''tasks are not enabled''), sv, w)
      else case create (store_of w) (wall w) (h_entropy h (turn_of w)) lifetime (context_owner (sv_task_context sv)) of
        (Inl e, s) \<Rightarrow> (Inl e, sv, w\<lparr>store_of := s\<rparr>)
      | (Inr (t, flag), s) \<Rightarrow>
          let sv = (if sv_transport sv then sv\<lparr>sv_gates := sv_gates sv @ [task_id t]\<rparr> else sv)
          in (case h_spawn h (turn_of w) of
                Some problem \<Rightarrow>
                  let why = ''failed to spawn task worker: '' @ problem
                  in (Inl (Internal why), sv,
                      w\<lparr>store_of := snd (finish s (wall w) (task_id t) Failed (Error (internal_error why)))\<rparr>)
              | None \<Rightarrow>
                  (Inr (create_task_result_to_value t
                     (map_option (\<lambda>s. obj_insert MODEL_IMMEDIATE_RESPONSE (JString s) [])
                        (t_model_immediate_response tool))), sv, w\<lparr>store_of := s\<rparr>)))"

text \<open>What is decided before the tool runs: an answer, a task, or a call in place.\<close>

datatype 'c call_plan = AnswerNow "json result" | StartTask "'c tool_entry" "nat option" | CallInPlace "'c tool_entry" json

definition plan_call :: "'c server \<Rightarrow> call_tool_params \<Rightarrow> 'c call_plan" where
  "plan_call sv params =
     (case table_get (sv_tools sv) (cp_name params) of
        None \<Rightarrow> AnswerNow (Inl (InvalidParams (''Unknown tool: '' @ cp_name params)))
      | Some entry \<Rightarrow>
          let arguments = (case cp_arguments params of None \<Rightarrow> jobject [] | Some v \<Rightarrow> v) in
          case (if cfg_validate_tool_input (sv_config sv)
                then (case en_input entry of None \<Rightarrow> Inr () | Some schema \<Rightarrow> check_arguments schema arguments)
                else Inr ()) of
            Inl problem \<Rightarrow>
              AnswerNow (Inr (call_tool_result_to_value (error_result
                (''Invalid arguments for `'' @ cp_name params @ ''`: '' @ problem))))
          | Inr _ \<Rightarrow>
              if sv_tasks sv = None then CallInPlace entry arguments
              else (case (cp_task params, t_task_support (en_tool entry)) of
                      (Some _, Forbidden) \<Rightarrow>
                        AnswerNow (Inl (MethodNotFound (''tool `'' @ cp_name params @ ''` cannot be invoked as a task'')))
                    | (None, Required) \<Rightarrow>
                        AnswerNow (Inl (MethodNotFound (''tool `'' @ cp_name params @ ''` must be invoked as a task'')))
                    | (Some lifetime, _) \<Rightarrow> StartTask entry lifetime
                    | (None, _) \<Rightarrow> CallInPlace entry arguments))"

definition handle_call_tool :: "host \<Rightarrow> 'c server \<Rightarrow> jsonrpc_request \<Rightarrow> 'c \<Rightarrow> world \<Rightarrow>
    (json result \<times> 'c server \<times> 'c \<times> world) option" where
  "handle_call_tool h sv rq ctx w =
     (case parse_params h call_tool_params_of rq of
        Inl e \<Rightarrow> Some (Inl e, sv, ctx, w)
      | Inr params \<Rightarrow>
          (case plan_call sv params of
             AnswerNow r \<Rightarrow> Some (r, sv, ctx, w)
           | StartTask entry lifetime \<Rightarrow>
               (case start_tool_task h sv (en_tool entry) lifetime w of (r, sv, w) \<Rightarrow> Some (r, sv, ctx, w))
           | CallInPlace entry arguments \<Rightarrow>
               let env = tool_env_with sv (progress_token params) in
               map_option (\<lambda>(ended, w). (call_outcome (cp_name params) (en_output entry) ended, sv, end_context ended, w))
                 (run_tool (ambient_of h) env (t_execute (en_tool entry) arguments ctx env) w)))"

section \<open>Dispatch\<close>

definition dispatch_request :: "host \<Rightarrow> 'c server \<Rightarrow> jsonrpc_request \<Rightarrow> 'c \<Rightarrow> world \<Rightarrow>
    (json result run \<times> 'c server \<times> 'c \<times> world) option" where
  "dispatch_request h sv rq ctx w =
     (let m = rq_method rq;
          pure = (\<lambda>r. Some (r, sv, ctx, w));
          store = (\<lambda>(r, w). Some (r, sv, ctx, w));
          session = (\<lambda>(r, sv). Some (Finished r, sv, ctx, w)) in
      case check_initialized sv m of
        Inl e \<Rightarrow> pure (Finished (Inl e))
      | Inr _ \<Rightarrow>
          if m = ''initialize'' then session (handle_initialize h sv rq)
          else if m = ''ping'' then pure (Finished handle_ping)
          else if m = ''tools/list'' then pure (handle_list_tools h sv rq)
          else if m = ''tools/call''
          then map_option (\<lambda>(r, sv, ctx, w). (Finished r, sv, ctx, w)) (handle_call_tool h sv rq ctx w)
          else if m = ''resources/list'' then pure (handle_list_resources h sv rq)
          else if m = ''resources/templates/list'' then pure (handle_list_resource_templates h sv rq)
          else if m = ''resources/read'' then pure (handle_read_resource h sv rq)
          else if m = ''prompts/list'' then pure (handle_list_prompts h sv rq)
          else if m = ''prompts/get'' then pure (handle_get_prompt h sv rq)
          else if m = ''logging/setLevel'' then session (handle_set_level h sv rq)
          else if m = ''tasks/get'' then store (case handle_task_get h sv rq w of (r, w) \<Rightarrow> (Finished r, w))
          else if m = ''tasks/result''
          then map_option (\<lambda>(r, sv, w). (r, sv, ctx, w)) (handle_task_result h sv rq w)
          else if m = ''tasks/list'' then store (handle_task_list h sv rq w)
          else if m = ''tasks/cancel'' then store (case handle_task_cancel h sv rq w of (r, w) \<Rightarrow> (Finished r, w))
          else pure (Finished (Inl (MethodNotFound m))))"

definition handle_request :: "host \<Rightarrow> 'c server \<Rightarrow> jsonrpc_request \<Rightarrow> 'c \<Rightarrow> world \<Rightarrow>
    (jsonrpc_message run \<times> 'c server \<times> 'c \<times> world) option" where
  "handle_request h sv rq ctx w =
     map_option (\<lambda>(r, rest). (map_run (answer_to (rq_id rq)) r, rest)) (dispatch_request h sv rq ctx w)"

definition handle_notification :: "jsonrpc_notification \<Rightarrow> world \<Rightarrow> world" where
  "handle_notification n w =
     (if nt_method n = CANCELLED_NOTIFICATION
      then (case cancelled_request_id n of
              Some i \<Rightarrow> w\<lparr>broker_of := snd (broker_cancel (broker_of w) i)\<rparr>
            | None \<Rightarrow> w)
      else w)"

definition handle_message :: "host \<Rightarrow> 'c server \<Rightarrow> jsonrpc_message \<Rightarrow> 'c \<Rightarrow> world \<Rightarrow>
    (jsonrpc_message option run \<times> 'c server \<times> 'c \<times> world) option" where
  "handle_message h sv m ctx w =
     (case m of
        Request rq \<Rightarrow> map_option (\<lambda>(r, rest). (map_run Some r, rest)) (handle_request h sv rq ctx w)
      | Notification n \<Rightarrow> Some (Finished None, sv, ctx, handle_notification n w)
      | Response r \<Rightarrow> Some (Finished None, sv, ctx, w\<lparr>broker_of := deliver (broker_of w) r\<rparr>))"

section \<open>The loop\<close>

text \<open>One turn of \<open>start\<close>: the next message is a deferred one, if any, or comes off the transport.\<close>

datatype turn_end = NextTurn | LoopEnds "unit result run"

definition loop_read :: "world \<Rightarrow> jsonrpc_message result \<times> world" where
  "loop_read w =
     (if lock_poisoned_r (wire_link w) then (Inl LOCK_POISONED, w)
      else case link_read (wire_link w) of (r, l) \<Rightarrow> (r, w\<lparr>wire_link := l\<rparr>))"

definition loop_handle :: "host \<Rightarrow> 'c server \<Rightarrow> jsonrpc_message \<Rightarrow> 'c \<Rightarrow> world \<Rightarrow> (turn_end \<times> 'c server \<times> 'c \<times> world) option" where
  "loop_handle h sv m ctx w =
     (case handle_message h sv m ctx w of
        None \<Rightarrow> None
      | Some (Unwound s, sv, ctx, w) \<Rightarrow> Some (LoopEnds (Unwound s), sv, ctx, w)
      | Some (Finished None, sv, ctx, w) \<Rightarrow> Some (NextTurn, sv, ctx, w)
      | Some (Finished (Some m), sv, ctx, w) \<Rightarrow>
          (case write_message m sv w of
             (Inr _, sv, w) \<Rightarrow> Some (NextTurn, sv, ctx, w)
           | (Inl e, sv, w) \<Rightarrow> Some (LoopEnds (Finished (Inl e)), sv, ctx, w)))"

definition loop_turn :: "host \<Rightarrow> 'c server \<Rightarrow> 'c \<Rightarrow> world \<Rightarrow> (turn_end \<times> 'c server \<times> 'c \<times> world) option" where
  "loop_turn h sv ctx w =
     (let w = pause (amb_sched h) w in
      case next_deferred (broker_of w) of
        (Some m, b) \<Rightarrow> loop_handle h sv m ctx (w\<lparr>broker_of := b\<rparr>)
      | (None, _) \<Rightarrow>
          (case loop_read w of
             (Inr m, w) \<Rightarrow> loop_handle h sv m ctx w
           | (Inl TransportClosed, w) \<Rightarrow> Some (LoopEnds (Finished (Inr ())), sv, ctx, w)
           | (Inl (Timeout _), w) \<Rightarrow> Some (NextTurn, sv, ctx, w)
           | (Inl e, w) \<Rightarrow>
               if is_malformed e
               then (case write_message (error (error_id e) (to_jsonrpc_error e)) sv w of
                       (Inr _, sv, w) \<Rightarrow> Some (NextTurn, sv, ctx, w)
                     | (Inl e, sv, w) \<Rightarrow> Some (LoopEnds (Finished (Inl e)), sv, ctx, w))
               else Some (LoopEnds (Finished (Inl e)), sv, ctx, w)))"

fun server_loop :: "host \<Rightarrow> nat \<Rightarrow> 'c server \<Rightarrow> 'c \<Rightarrow> world \<Rightarrow> (unit result run \<times> 'c server \<times> 'c \<times> world) option" where
  "server_loop h 0 sv ctx w = None"
| "server_loop h (Suc n) sv ctx w =
     (case loop_turn h sv ctx w of
        None \<Rightarrow> None
      | Some (LoopEnds r, sv, ctx, w) \<Rightarrow> Some (r, sv, ctx, w)
      | Some (NextTurn, sv, ctx, w) \<Rightarrow> server_loop h n sv ctx w)"

text \<open>\<open>start\<close>: \<open>splits\<close> says whether the transport gives an independent writer.\<close>

definition start :: "host \<Rightarrow> nat \<Rightarrow> bool \<Rightarrow> 'c server \<Rightarrow> 'c \<Rightarrow> world \<Rightarrow> (unit result run \<times> 'c server \<times> 'c \<times> world) option" where
  "start h turns splits sv ctx w =
     (case set_read_timeout None (wire_link w) of
        (r, l) \<Rightarrow>
          let honors = (case r of Inr b \<Rightarrow> b | Inl _ \<Rightarrow> False)
          in server_loop h turns (sv\<lparr>sv_transport := True, sv_can_pump := honors \<and> splits\<rparr>) ctx (w\<lparr>wire_link := l\<rparr>))"

definition process_one :: "host \<Rightarrow> 'c server \<Rightarrow> 'c \<Rightarrow> world \<Rightarrow> (unit result run \<times> 'c server \<times> 'c \<times> world) option" where
  "process_one h sv ctx w =
     (let sv = sv\<lparr>sv_transport := True, sv_can_pump := False\<rparr> in
      case loop_read w of
        (Inl e, w) \<Rightarrow> Some (Finished (Inl e), sv, ctx, w)
      | (Inr m, w) \<Rightarrow>
          (case handle_message h sv m ctx w of
             None \<Rightarrow> None
           | Some (Unwound s, sv, ctx, w) \<Rightarrow> Some (Unwound s, sv, ctx, w)
           | Some (Finished None, sv, ctx, w) \<Rightarrow> Some (Finished (Inr ()), sv, ctx, w)
           | Some (Finished (Some m), sv, ctx, w) \<Rightarrow>
               (case write_message m sv w of (r, sv, w) \<Rightarrow> Some (Finished r, sv, ctx, w))))"

end
