(* ===== verification/Server_Steps.thy ===== *)
theory Server_Steps
  imports Server "HOL-Library.Multiset"
begin

text \<open>
  What every step of a tool and of a handler keeps. The server's steps are composed of a few kinds
  of moves: writing, reading a message and finding a place for it, arming the transport's deadline,
  moves of other threads, and moves that touch neither the transport nor the queue of deferred
  messages. A relation between the world before and after that is kept by those is kept by waits,
  requests to the client, tools and handlers; the locale proves it once, for the books on requests
  and for the argument that the loop ends.
\<close>

section \<open>The moves\<close>

text \<open>The requests among the messages, by their ids.\<close>

definition asks :: "jsonrpc_message \<Rightarrow> request_id multiset" where
  "asks m = (case m of Request r \<Rightarrow> {#rq_id r#} | _ \<Rightarrow> {#})"

text \<open>Other threads neither touch the queue of deferred messages nor write responses.\<close>

fun modest_step :: "other \<Rightarrow> bool" where
  "modest_step (OtherBroker (Defer _)) = False"
| "modest_step (OtherBroker NextDeferred) = False"
| "modest_step (OtherWrite m) = (\<not> is_response m)"
| "modest_step _ = True"

definition modest :: "(nat \<Rightarrow> other list) \<Rightarrow> bool" where
  "modest sched \<longleftrightarrow> (\<forall>n. list_all modest_step (sched n))"

text \<open>What incidental moves leave alone.\<close>

definition surface :: "world \<Rightarrow> (nat \<times> jsonrpc_message result) list \<times> jsonrpc_message list \<times> jsonrpc_message list \<times>
    (mcp_error option list \<times> bool \<times> bool) \<times> nat option" where
  "surface w = (inbox (wire_link w), deferred (broker_of w), sent (wire_link w),
     (send_errors (wire_link w), lock_poisoned_w (wire_link w), one_answer (wire_link w)),
     read_timeout_armed (wire_link w))"

lemma surface_store [simp]: "surface (w\<lparr>store_of := s\<rparr>) = surface w"
  by (simp add: surface_def)

lemma asks_notification [simp]: "asks (Notification n) = {#}" "asks (Response r) = {#}"
  by (simp_all add: asks_def)

lemma asks_cancelled: "cancelled_here m i \<Longrightarrow> asks m = {#}"
  by (auto simp: asks_def cancelled_here_def split: jsonrpc_message.splits)

lemma deferred_recv: "recv b c = (r, b') \<Longrightarrow> deferred b' = deferred b"
  by (auto simp: recv_def Let_def split: option.splits)

text \<open>What no handler changes: the configuration, the registrations, the transport and its kind.\<close>

definition static :: "'c server \<Rightarrow> 'c server" where
  "static sv = sv\<lparr>sv_initialized := False, sv_log_level := Debug, sv_client_capabilities := no_capabilities,
     sv_negotiated_version := None, sv_gates := []\<rparr>"

lemma static_fields:
  assumes "static sv' = static sv"
  shows "sv_config sv' = sv_config sv" "sv_tools sv' = sv_tools sv" "sv_resources sv' = sv_resources sv"
    "sv_resource_templates sv' = sv_resource_templates sv" "sv_prompts sv' = sv_prompts sv"
    "sv_transport sv' = sv_transport sv" "sv_can_pump sv' = sv_can_pump sv" "sv_tasks sv' = sv_tasks sv"
    "sv_task_context sv' = sv_task_context sv"
  using assms by (cases sv; cases sv'; simp add: static_def)+

lemma static_gates [simp]: "static (sv\<lparr>sv_gates := g\<rparr>) = static sv" "static (release_task_workers sv) = static sv"
  by (simp_all add: static_def release_task_workers_def)

section \<open>Dispatch, method by method\<close>

lemma if_pure: "(if P then Some (a, x) else Some (b, x)) = Some (if P then a else b, x)"
  by simp

lemma dispatch_methods:
  assumes "check_initialized sv (rq_method rq) = Inr ()"
  shows "rq_method rq = ''initialize'' \<Longrightarrow> dispatch_request h sv rq ctx w =
      (case handle_initialize h sv rq of (r, sv) \<Rightarrow> Some (Finished r, sv, ctx, w))"
    and "rq_method rq = ''logging/setLevel'' \<Longrightarrow> dispatch_request h sv rq ctx w =
      (case handle_set_level h sv rq of (r, sv) \<Rightarrow> Some (Finished r, sv, ctx, w))"
    and "rq_method rq = ''tools/call'' \<Longrightarrow> dispatch_request h sv rq ctx w =
      map_option (\<lambda>(r, sv, ctx, w). (Finished r, sv, ctx, w)) (handle_call_tool h sv rq ctx w)"
    and "rq_method rq = ''tasks/result'' \<Longrightarrow> dispatch_request h sv rq ctx w =
      map_option (\<lambda>(r, sv, w). (r, sv, ctx, w)) (handle_task_result h sv rq w)"
    and "rq_method rq = ''tasks/get'' \<Longrightarrow> dispatch_request h sv rq ctx w =
      (case handle_task_get h sv rq w of (r, w) \<Rightarrow> Some (Finished r, sv, ctx, w))"
    and "rq_method rq = ''tasks/list'' \<Longrightarrow> dispatch_request h sv rq ctx w =
      (case handle_task_list h sv rq w of (r, w) \<Rightarrow> Some (r, sv, ctx, w))"
    and "rq_method rq = ''tasks/cancel'' \<Longrightarrow> dispatch_request h sv rq ctx w =
      (case handle_task_cancel h sv rq w of (r, w) \<Rightarrow> Some (Finished r, sv, ctx, w))"
  using assms by (simp_all add: dispatch_request_def split: prod.splits)

text \<open>The methods that can change the server, its context or the world beyond the task store.\<close>

definition active_methods :: "string set" where
  "active_methods = {''initialize'', ''logging/setLevel'', ''tools/call'', ''tasks/result''}"

lemma handle_initialize_static: "handle_initialize h sv rq = (r, sv') \<Longrightarrow> static sv' = static sv"
  by (auto simp: handle_initialize_def Let_def static_def split: sum.splits option.splits)

lemma handle_set_level_static: "handle_set_level h sv rq = (r, sv') \<Longrightarrow> static sv' = static sv"
  by (auto simp: handle_set_level_def static_def split: sum.splits option.splits)

section \<open>What they keep\<close>

text \<open>
  \<open>keeps\<close> is kept by every move; \<open>reads\<close> tells what holds when a read has taken a message for which no
  place was found yet.
\<close>

locale steady =
  fixes keeps :: "world \<Rightarrow> world \<Rightarrow> bool"
    and reads :: "world \<Rightarrow> jsonrpc_message result \<Rightarrow> world \<Rightarrow> bool"
  assumes keeps_refl [simp]: "keeps w w"
    and keeps_trans [trans]: "keeps u v \<Longrightarrow> keeps v w \<Longrightarrow> keeps u w"
    and incidental: "surface w' = surface w \<Longrightarrow> keeps w w'"
    and other: "modest_step x \<Longrightarrow> keeps w (other_step w x)"
    and writes: "\<not> is_response m \<Longrightarrow> keeps w (snd (world_write m w))"
    and arm: "t \<noteq> Some 0 \<Longrightarrow> set_read_timeout t (wire_link w) = (a, l) \<Longrightarrow> keeps w (w\<lparr>wire_link := l\<rparr>)"
    and read: "link_read (wire_link w) = (r, l) \<Longrightarrow> reads w r (w\<lparr>wire_link := l\<rparr>)"
    and keeps_read: "keeps u w \<Longrightarrow> reads w r w' \<Longrightarrow> reads u r w'"
    and failed_read: "reads w (Inl e) w' \<longleftrightarrow> keeps w w'"
    and silent_read: "reads w (Inr m) w' \<Longrightarrow> asks m = {#} \<Longrightarrow> keeps w w'"
    and shed: "reads w (Inr m) w' \<Longrightarrow> te_transport env \<Longrightarrow> keeps w (shed_or_defer env m w')"
begin

lemma keeps_pause:
  assumes "modest sched"
  shows "keeps w (pause sched w)"
proof -
  have steps: "list_all modest_step es \<Longrightarrow> keeps v (foldl other_step v es)" for v es
  proof (induction es arbitrary: v)
    case (Cons e es)
    then show ?case using other keeps_trans by fastforce
  qed simp
  have "keeps w (w\<lparr>turn_of := Suc (turn_of w)\<rparr>)"
    by (intro incidental) (simp add: surface_def)
  with steps assms show ?thesis by (auto simp: pause_def modest_def intro: keeps_trans)
qed

lemma timed_read_reads:
  assumes rd: "timed_read t w = (r, w')" and t: "t \<noteq> Some 0"
  shows "reads w r w'"
proof -
  show ?thesis
  proof (cases "lock_poisoned_r (wire_link w)")
    case True
    with rd show ?thesis by (auto simp: timed_read_def failed_read)
  next
    case False
    obtain a l where armed: "set_read_timeout t (wire_link w) = (a, l)" by fastforce
    let ?w = "w\<lparr>wire_link := l\<rparr>"
    have bal: "keeps w ?w" using t armed by (rule arm)
    show ?thesis
    proof (cases a)
      case (Inr u)
      obtain q l' where "link_read (wire_link ?w) = (q, l')" by fastforce
      moreover from this rd False armed Inr have "r = q" "w' = ?w\<lparr>wire_link := l'\<rparr>"
        by (auto simp: timed_read_def)
      ultimately show ?thesis using read bal keeps_read by blast
    next
      case (Inl e)
      with rd False armed have "r = Inl e" "w' = ?w" by (auto simp: timed_read_def)
      with bal show ?thesis by (simp add: failed_read)
    qed
  qed
qed


lemma keeps_broker: "deferred b = deferred (broker_of w) \<Longrightarrow> keeps w (w\<lparr>broker_of := b\<rparr>)"
  by (intro incidental) (simp add: surface_def)

lemma keeps_await_response:
  assumes "await_response sched env i deadline w = (out, w')" and "modest sched" and "te_transport env"
  shows "keeps w w'"
  using assms
proof (induction "length (inbox (wire_link w))" arbitrary: w rule: less_induct)
  case less
  note pause = keeps_pause [OF less.prems(2), of w]
  have read: "reads w r w1"
    if "pass_read sched deadline w = (r, w1)" and late: "\<forall>at. deadline = Some at \<longrightarrow> now_of w < at" for r w1
  proof (rule keeps_read [OF pause timed_read_reads])
    show "timed_read (map_option (\<lambda>at. at - now_of w) deadline) (pause sched w) = (r, w1)"
      using that(1) by (simp add: pass_read_def)
    show "map_option (\<lambda>at. at - now_of w) deadline \<noteq> Some 0" using late by auto
  qed
  have shorter: "length (inbox (wire_link w1)) < length (inbox (wire_link w))"
    if "pass_read sched deadline w = (Inr m, w1)" for m w1
    using pass_read_Inr [OF that] by auto
  have silent: "keeps w w1"
    if "pass_read sched deadline w = (Inr m, w1)" "\<forall>at. deadline = Some at \<longrightarrow> now_of w < at" "asks m = {#}" for m w1
    using silent_read [OF read [OF that(1,2)] that(3)] .
  from less.prems(1) show ?case
  proof (cases rule: await_response_cases)
    case (was_parked r b)
    have "keeps (pause sched w) w'"
      unfolding was_parked(3) by (rule keeps_broker [OF deferred_take_parked [OF was_parked(1)]])
    with pause show ?thesis by (rule keeps_trans)
  next
    case (late at)
    with pause show ?thesis by simp
  next
    case (failed e)
    with read show ?thesis by (simp add: failed_read)
  next
    case (answered r)
    with silent show ?thesis by simp
  next
    case (withdrawn m w1)
    then have "keeps w w1" using silent [OF withdrawn(2,1)] asks_cancelled by simp
    also have "keeps w1 w'" unfolding withdrawn(5) by (rule keeps_broker) simp
    finally show ?thesis .
  next
    case (delivered r w1)
    let ?w2 = "w1\<lparr>broker_of := deliver (broker_of w1) r\<rparr>"
    have "keeps ?w2 w'"
      using delivered less.hyps [of ?w2] less.prems(2,3) shorter by simp
    moreover have "keeps w1 ?w2" by (rule keeps_broker) simp
    moreover have "keeps w w1" using silent [OF delivered(2,1)] by simp
    ultimately show ?thesis by (blast intro: keeps_trans)
  next
    case (queued m w1)
    have "keeps (shed_or_defer env m w1) w'"
      using queued less.hyps [of "shed_or_defer env m w1"] less.prems(2,3) shorter by simp
    moreover have "keeps w (shed_or_defer env m w1)"
      using shed [OF read [OF queued(2,1)] less.prems(3)] .
    ultimately show ?thesis by (blast intro: keeps_trans)
  qed
qed

lemma keeps_clock: "keeps w (w\<lparr>wire_link := (wire_link w)\<lparr>clock := t\<rparr>\<rparr>)"
  by (intro incidental) (simp add: surface_def)

lemma keeps_await_delegated:
  assumes "modest sched"
  shows "await_delegated_response sched env i c deadline polls w = Some (out, w') \<Longrightarrow> keeps w w'"
proof (induction polls arbitrary: w)
  case (Suc polls)
  let ?w = "pause sched w"
  have pause: "keeps w ?w" using assms by (rule keeps_pause)
  obtain q b where q: "recv (broker_of ?w) c = (q, b)" by fastforce
  have got: "keeps w (?w\<lparr>broker_of := b\<rparr>)"
    using pause keeps_broker [OF deferred_recv [OF q]] by (rule keeps_trans)
  have slept: "keeps w (?w\<lparr>wire_link := (wire_link ?w)\<lparr>clock := t\<rparr>\<rparr>)" for t
    using pause keeps_clock by (rule keeps_trans)
  show ?case
    using Suc.prems q pause got keeps_trans [OF slept Suc.IH]
    by (auto simp: Let_def simp del: pause_simps split: if_splits received.splits)
qed simp

lemma keeps_task_status: "keeps w (set_task_status env st w)"
  by (auto simp: set_task_status_def intro!: incidental split: option.splits)

lemma keeps_send_notification: "keeps w (snd (send_notification env m params w))"
  by (simp add: send_notification_def notification_def writes)

lemma keeps_settle: "keeps w (settle show_duration env i timeout out w)"
proof -
  have "keeps w (give_up env i reason w)" for reason
    unfolding give_up_def by (rule keeps_trans [OF _ keeps_send_notification]) (simp add: keeps_broker)
  then show ?thesis by (auto simp: settle_def split: sum.splits mcp_error.splits)
qed

lemma keeps_send_request:
  assumes "send_request show_duration sched polls env m params timeout w = Some (out, w')" and "modest sched"
  shows "keeps w w'"
proof (cases "request_refusal env m")
  case (Some e)
  with assms show ?thesis by (simp add: send_request_def)
next
  case None
  then have transport: "te_transport env" by (auto simp: request_refusal_def split: if_splits)
  obtain i b where i: "next_request_id (broker_of w) = (i, b)" by fastforce
  obtain c b1 where c: "(if te_mode env = Delegated then register_waiter b i else (0, b)) = (c, b1)" by fastforce
  let ?ask = "request i m (tag_with_task env (Some params))"
  obtain r w2 where wr: "world_write ?ask (w\<lparr>broker_of := b1\<rparr>) = (r, w2)" by fastforce
  let ?deadline = "map_option (\<lambda>t. now_of w + t) timeout"
  have "deferred b1 = deferred (broker_of w)"
    using i c by (auto simp: next_request_id_def register_waiter_def Let_def split: if_splits)
  then have "keeps w (w\<lparr>broker_of := b1\<rparr>)" by (rule keeps_broker)
  also have "keeps (w\<lparr>broker_of := b1\<rparr>) w2"
    using writes [of ?ask "w\<lparr>broker_of := b1\<rparr>"] wr by (simp add: request_def)
  finally have w2: "keeps w w2" .
  note run = assms(1) [unfolded send_request_def None option.case i c wr Let_def prod.case]
  show ?thesis
  proof (cases r)
    case (Inl e)
    with run have "w' = w2\<lparr>broker_of := abandon (broker_of w2) i\<rparr>" by simp
    with keeps_trans [OF w2 keeps_broker] show ?thesis by simp
  next
    case (Inr u)
    show ?thesis
    proof (cases "te_mode env = Delegated")
      case True
      then obtain w3 where w3: "await_delegated_response sched env i c ?deadline polls
          (set_task_status env InputRequired w2) = Some (out, w3)"
        and w': "w' = settle show_duration env i timeout out
          (set_task_status env Working (w3\<lparr>broker_of := drop_receiver (broker_of w3) c\<rparr>))"
        using run Inr by auto
      have "keeps w2 w3"
        using keeps_task_status keeps_await_delegated [OF assms(2) w3] by (rule keeps_trans)
      also have "keeps w3 (w3\<lparr>broker_of := drop_receiver (broker_of w3) c\<rparr>)"
        by (rule keeps_broker) (simp add: drop_receiver_def)
      also have "keeps \<dots> w'"
        unfolding w' using keeps_task_status keeps_settle by (rule keeps_trans)
      finally show ?thesis using w2 keeps_trans by blast
    next
      case False
      obtain out' w3 where w3: "await_response sched env i ?deadline w2 = (out', w3)" by fastforce
      let ?w4 = "if ?deadline = None \<or> lock_poisoned_r (wire_link w3) then w3
        else w3\<lparr>wire_link := snd (set_read_timeout None (wire_link w3))\<rparr>"
      have "keeps w2 w3" using w3 assms(2) transport by (rule keeps_await_response)
      with w2 have "keeps w w3" by (rule keeps_trans)
      also have "keeps w3 ?w4"
        using arm [of None w3] by (simp add: prod_eq_iff)
      also have "keeps ?w4 w'" using run Inr False w3 keeps_settle by (auto split: if_splits)
      finally show ?thesis .
    qed
  qed
qed

lemma keeps_log_data: "keeps w (log_data show_json env level logger payload w)"
proof -
  have print: "keeps v u \<Longrightarrow> keeps v (eprintln s u)" for v u s
    by (rule keeps_trans) (auto simp: surface_def eprintln_def intro: incidental)
  have "keeps w u" if "send_notification env m params w = (r, u)" for m params r u
    using keeps_send_notification [of w env m params] that by simp
  with print show ?thesis
    by (auto simp: log_data_def Let_def split: if_splits prod.splits sum.splits stderr_logging.splits)
qed

lemma keeps_run_tool:
  "run_tool a env t w = Some (ended, w') \<Longrightarrow> modest (amb_sched a) \<Longrightarrow> keeps w w'"
proof (induction t arbitrary: w)
  case (Notify m params k)
  obtain r u where u: "send_notification env m params (pause (amb_sched a) w) = (r, u)" by fastforce
  have "keeps w (pause (amb_sched a) w)" using Notify.prems(2) by (rule keeps_pause)
  also have "keeps \<dots> u" using keeps_send_notification [of "pause (amb_sched a) w" env m params] u by simp
  also have "keeps u w'" using Notify u by auto
  finally show ?case .
next
  case (LogData level logger payload k)
  have "keeps w (log_data (amb_json a) env level logger payload (pause (amb_sched a) w))"
    using keeps_pause [OF LogData.prems(2)] keeps_log_data by (rule keeps_trans)
  with LogData show ?case by (auto intro: keeps_trans)
next
  case (Ask m params timeout k)
  then obtain r u where u: "send_request (amb_duration a) (amb_sched a) (amb_polls a) env m params timeout
      (pause (amb_sched a) w) = Some (r, u)" by (auto split: option.splits)
  have "keeps w (pause (amb_sched a) w)" using Ask.prems(2) by (rule keeps_pause)
  also have "keeps \<dots> u" using u Ask.prems(2) by (rule keeps_send_request)
  also have "keeps u w'" using Ask u by auto
  finally show ?case .
next
  case (PollCancelled k)
  have "keeps (pause (amb_sched a) w) w'" using PollCancelled by (auto simp: Let_def)
  with keeps_pause [OF PollCancelled.prems(2)] show ?case by (rule keeps_trans)
qed auto

lemma keeps_store: "keeps w (w\<lparr>store_of := s\<rparr>)"
  by (rule incidental) simp

lemma keeps_task_handlers:
  "handle_task_get h sv rq w = (r, w') \<Longrightarrow> keeps w w'"
  "handle_task_cancel h sv rq w = (r, w') \<Longrightarrow> keeps w w'"
  "handle_task_list h sv rq w = (q, w') \<Longrightarrow> keeps w w'"
  by (auto simp: handle_task_get_def handle_task_cancel_def handle_task_list_def keeps_store
      split: sum.splits prod.splits if_splits)

lemma keeps_start_tool_task:
  "start_tool_task h sv t lifetime w = (r, sv', w') \<Longrightarrow> keeps w w' \<and> static sv' = static sv"
  by (auto simp: start_tool_task_def keeps_store Let_def split: if_splits sum.splits prod.splits option.splits)

lemma keeps_handle_call_tool:
  assumes "handle_call_tool h sv rq ctx w = Some (r, sv', ctx', w')" and "modest (amb_sched h)"
  shows "keeps w w' \<and> static sv' = static sv"
proof -
  have "modest (amb_sched (ambient_of h))" using assms(2) by (simp add: ambient.defs)
  then show ?thesis
    using assms(1) keeps_run_tool keeps_start_tool_task
    by (fastforce simp: handle_call_tool_def Let_def split: sum.splits call_plan.splits prod.splits)
qed

lemma keeps_await_store:
  assumes "modest (amb_sched h)"
  shows "await_store h tid req deadline n w = Some (r, w') \<Longrightarrow> keeps w w'"
proof (induction n arbitrary: w)
  case (Suc n)
  obtain t s where t: "try_result (store_of w) (wall w) tid req = (t, s)" by fastforce
  show ?case
  proof (cases "t = Inr None")
    case False
    with Suc.prems t show ?thesis by (auto simp: keeps_store split: sum.splits option.splits)
  next
    case True
    have slept: "keeps w (pause (amb_sched h) (w\<lparr>store_of := s, wire_link := (wire_link w)\<lparr>clock := x\<rparr>\<rparr>))" for x
      by (rule keeps_trans [OF incidental keeps_pause [OF assms]]) (simp add: surface_def)
    show ?thesis
      using Suc.prems t True keeps_trans [OF slept Suc.IH]
      by (auto simp: Let_def keeps_store split: if_splits)
  qed
qed simp

lemma dispatch_looks:
  assumes "rq_method rq \<notin> active_methods" and "dispatch_request h sv rq ctx w = Some (r, sv', ctx', w')"
  shows "sv' = sv \<and> ctx' = ctx \<and> keeps w w'"
proof (cases "check_initialized sv (rq_method rq)")
  case (Inl e)
  with assms(2) show ?thesis by (simp add: dispatch_request_def Let_def)
next
  case (Inr u)
  then have ok: "check_initialized sv (rq_method rq) = Inr ()" by simp
  note eqs = dispatch_methods [OF ok]
  show ?thesis
  proof (cases "rq_method rq = ''tasks/get'' \<or> rq_method rq = ''tasks/list'' \<or> rq_method rq = ''tasks/cancel''")
    case True
    then show ?thesis
      using assms(2) eqs(5-7) keeps_task_handlers by (elim disjE) (auto split: prod.splits)
  next
    case False
    with assms Inr show ?thesis
      by (simp add: dispatch_request_def Let_def active_methods_def if_pure cong: if_cong)
  qed
qed

lemma dispatch_cases:
  assumes "dispatch_request h sv rq ctx w = Some (r, sv', ctx', w')"
  obtains
    (refused) e where "check_initialized sv (rq_method rq) = Inl e" "r = Finished (Inl e)"
      "sv' = sv" "ctx' = ctx" "w' = w"
  | (handshake) q where "check_initialized sv (rq_method rq) = Inr ()" "rq_method rq = ''initialize''"
      "handle_initialize h sv rq = (q, sv')" "r = Finished q" "ctx' = ctx" "w' = w"
  | (level) q where "check_initialized sv (rq_method rq) = Inr ()" "rq_method rq = ''logging/setLevel''"
      "handle_set_level h sv rq = (q, sv')" "r = Finished q" "ctx' = ctx" "w' = w"
  | (called) q where "check_initialized sv (rq_method rq) = Inr ()" "rq_method rq = ''tools/call''"
      "handle_call_tool h sv rq ctx w = Some (q, sv', ctx', w')" "r = Finished q"
  | (awaited) "check_initialized sv (rq_method rq) = Inr ()" "rq_method rq = ''tasks/result''"
      "handle_task_result h sv rq w = Some (r, sv', w')" "ctx' = ctx"
  | (looked) "check_initialized sv (rq_method rq) = Inr ()" "rq_method rq \<notin> active_methods"
      "sv' = sv" "ctx' = ctx" "keeps w w'"
proof (cases "check_initialized sv (rq_method rq)")
  case (Inl e)
  with assms have "r = Finished (Inl e) \<and> sv' = sv \<and> ctx' = ctx \<and> w' = w"
    by (simp add: dispatch_request_def Let_def)
  with Inl show thesis by (intro refused) simp_all
next
  case (Inr u)
  then have ok: "check_initialized sv (rq_method rq) = Inr ()" by simp
  note eqs = dispatch_methods [OF ok]
  show thesis
  proof (cases "rq_method rq \<in> active_methods")
    case False
    with ok dispatch_looks [OF _ assms] show thesis by (intro looked) simp_all
  next
    case True
    consider "rq_method rq = ''initialize''" | "rq_method rq = ''logging/setLevel''"
      | "rq_method rq = ''tools/call''" | "rq_method rq = ''tasks/result''"
      using True unfolding active_methods_def by (elim insertE emptyE)
    then show thesis
    proof cases
      case 1
      obtain q sv1 where "handle_initialize h sv rq = (q, sv1)" by fastforce
      with assms 1 show thesis unfolding eqs(1) [OF 1] by (intro handshake [OF ok 1]) auto
    next
      case 2
      obtain q sv1 where "handle_set_level h sv rq = (q, sv1)" by fastforce
      with assms 2 show thesis unfolding eqs(2) [OF 2] by (intro level [OF ok 2]) auto
    next
      case 3
      from assms obtain q where "handle_call_tool h sv rq ctx w = Some (q, sv', ctx', w')" "r = Finished q"
        unfolding eqs(3) [OF 3] by auto
      then show thesis by (rule called [OF ok 3])
    next
      case 4
      from assms have "handle_task_result h sv rq w = Some (r, sv', w')" "ctx' = ctx"
        unfolding eqs(4) [OF 4] by auto
      then show thesis by (rule awaited [OF ok 4])
    qed
  qed
qed

end

end
