(* ===== verification/Server_Answers.thy ===== *)
theory Server_Answers
  imports Server_Steps
begin

text \<open>
  Every request is answered exactly once. The books are kept over a whole run of \<open>start\<close>: the ids of
  the requests still to be read, of those deferred behind a blocking call and of the responses
  written. Every step of the server keeps their sum, whichever way it takes: an answer by the loop,
  by the pump while \<open>tasks/result\<close> blocks, a refusal because the queue is full, or a deferral.
\<close>

section \<open>The books\<close>

definition answers :: "jsonrpc_message \<Rightarrow> request_id multiset" where
  "answers m = (case m of Response r \<Rightarrow> {#rs_id r#} | _ \<Rightarrow> {#})"

definition arrival_asks :: "nat \<times> jsonrpc_message result \<Rightarrow> request_id multiset" where
  "arrival_asks a = (case snd a of Inr m \<Rightarrow> asks m | Inl _ \<Rightarrow> {#})"

definition unread :: "world \<Rightarrow> request_id multiset" where
  "unread w = sum_list (map arrival_asks (inbox (wire_link w)))"

definition queued :: "world \<Rightarrow> request_id multiset" where
  "queued w = sum_list (map asks (deferred (broker_of w)))"

definition answered :: "world \<Rightarrow> request_id multiset" where
  "answered w = sum_list (map answers (sent (wire_link w)))"

definition account :: "world \<Rightarrow> request_id multiset" where
  "account w = unread w + queued w + answered w"

text \<open>
  The books need a transport that takes what is written and nothing on the wire that cannot be read
  as a message.
\<close>

definition readable :: "nat \<times> jsonrpc_message result \<Rightarrow> bool" where
  "readable a = (case snd a of Inl e \<Rightarrow> \<not> is_malformed e | Inr _ \<Rightarrow> True)"

definition sound_link :: "world \<Rightarrow> bool" where
  "sound_link w \<longleftrightarrow> writable w \<and> list_all readable (inbox (wire_link w))"

definition balanced :: "world \<Rightarrow> world \<Rightarrow> bool" where
  "balanced w w' \<longleftrightarrow> (sound_link w \<longrightarrow> sound_link w' \<and> account w' = account w)"

lemma balanced_refl [intro, simp]: "balanced w w"
  by (simp add: balanced_def)

lemma balanced_trans [trans]: "balanced u v \<Longrightarrow> balanced v w \<Longrightarrow> balanced u w"
  by (simp add: balanced_def)

lemma balanced_surface: "surface w' = surface w \<Longrightarrow> balanced w w'"
  by (simp add: surface_def balanced_def sound_link_def writable_def account_def unread_def queued_def answered_def)

lemma balanced_modest_step:
  assumes "modest_step e"
  shows "balanced w (other_step w e)"
proof (cases e)
  case (OtherBroker op)
  with assms have "unobtrusive (OtherBroker op)" by (cases op) auto
  then show ?thesis
    using OtherBroker deferred_unobtrusive by (intro balanced_surface) (simp add: surface_def)
next
  case (OtherTask op)
  then show ?thesis by (intro balanced_surface) simp
next
  case (OtherWrite m)
  with assms have "answers m = {#}" by (cases m) (auto simp: answers_def)
  with OtherWrite show ?thesis
    by (simp add: balanced_def sound_link_def account_def unread_def queued_def answered_def writable_def)
qed

section \<open>Reading and writing\<close>

text \<open>A message written: only a response counts.\<close>

lemma link_write_sound:
  assumes "sound_link w"
  shows "link_write m (wire_link w) = (Inr (), (blocked (wire_link w))\<lparr>sent := sent (wire_link w) @ [m]\<rparr>)"
  using assms by (simp add: link_write_def sound_link_def writable_def)

lemma world_write_sound:
  assumes "sound_link w"
  shows "fst (world_write m w) = Inr ()" "sound_link (snd (world_write m w))"
    "account (snd (world_write m w)) = account w + answers m"
  using assms link_write_sound [OF assms]
  by (simp_all add: world_write_def sound_link_def writable_def account_def unread_def queued_def answered_def)

lemma write_message_sound:
  assumes "sound_link w" and "sv_transport sv"
  obtains sv' w' where "write_message m sv w = (Inr (), sv', w')" "sv' = release_task_workers sv"
    "sound_link w'" "account w' = account w + answers m"
  using assms link_write_sound [OF assms(1)]
  by (simp add: write_message_def sound_link_def writable_def account_def unread_def queued_def answered_def)

lemma balanced_world_write: "\<not> is_response m \<Longrightarrow> balanced w (snd (world_write m w))"
  using world_write_sound [of w m] by (cases m) (auto simp: balanced_def answers_def)

lemma balanced_set_read_timeout:
  "set_read_timeout t (wire_link w) = (r, l) \<Longrightarrow> balanced w (w\<lparr>wire_link := l\<rparr>)"
  by (auto simp: set_read_timeout_def balanced_def sound_link_def account_def unread_def queued_def answered_def
      writable_def split: if_splits list.splits option.splits)

text \<open>A message read is owed an answer from then on.\<close>

definition owes :: "world \<Rightarrow> jsonrpc_message result \<Rightarrow> world \<Rightarrow> bool" where
  "owes w r w' \<longleftrightarrow> (sound_link w \<longrightarrow>
     sound_link w' \<and> account w = account w' + (case r of Inr m \<Rightarrow> asks m | Inl _ \<Rightarrow> {#}))"

lemma owes_link_read: "link_read (wire_link w) = (r, l) \<Longrightarrow> owes w r (w\<lparr>wire_link := l\<rparr>)"
  by (auto simp: link_read_def owes_def sound_link_def writable_def account_def unread_def queued_def answered_def
      arrival_asks_def readable_def split: if_splits list.splits option.splits prod.splits)

lemma link_read_not_malformed:
  "link_read (wire_link w) = (Inl e, l) \<Longrightarrow> sound_link w \<Longrightarrow> \<not> is_malformed e"
  by (auto simp: link_read_def sound_link_def readable_def split: if_splits list.splits option.splits prod.splits)

lemma balanced_owes: "balanced u w \<Longrightarrow> owes w r w' \<Longrightarrow> owes u r w'"
  by (auto simp: balanced_def owes_def)

lemma owes_balanced: "owes w r w' \<Longrightarrow> balanced w' v \<Longrightarrow> owes w r v"
  by (auto simp: balanced_def owes_def)

lemma owes_Inl: "owes w (Inl e) w' \<longleftrightarrow> balanced w w'"
  by (auto simp: balanced_def owes_def)

section \<open>Waits and tools\<close>

text \<open>A message set aside during a wait is queued, or refused with a response of its own.\<close>

definition pays :: "jsonrpc_message \<Rightarrow> world \<Rightarrow> world \<Rightarrow> bool" where
  "pays m w w' \<longleftrightarrow> (sound_link w \<longrightarrow> sound_link w' \<and> account w' = account w + asks m)"

lemma owes_pays: "owes w (Inr m) w1 \<Longrightarrow> pays m w1 w2 \<Longrightarrow> balanced w w2"
  by (auto simp: owes_def pays_def balanced_def)

lemma pays_nothing: "asks m = {#} \<Longrightarrow> balanced w w' \<Longrightarrow> pays m w w'"
  by (simp add: pays_def balanced_def)

lemma overloaded_pays: "overloaded_response m = Some a \<Longrightarrow> answers a = asks m"
  by (auto simp: overloaded_response_def answers_def asks_def error_def split: jsonrpc_message.splits)

lemma not_overloaded: "overloaded_response m = None \<Longrightarrow> asks m = {#}"
  by (auto simp: overloaded_response_def asks_def split: jsonrpc_message.splits)

lemma defer_message_pays:
  assumes "defer_message (broker_of w) m = (Inr u, b)"
  shows "pays m w (w\<lparr>broker_of := b\<rparr>)"
  using assms by (auto simp: defer_message_def pays_def sound_link_def writable_def account_def unread_def
      queued_def answered_def ac_simps split: if_splits)

lemma defer_message_refused:
  "defer_message b m = (Inl m', b') \<Longrightarrow> m' = m \<and> b' = b"
  by (auto simp: defer_message_def split: if_splits)

lemma shed_or_defer_pays:
  assumes "te_transport env"
  shows "pays m w (shed_or_defer env m w)"
proof (cases "defer_message (broker_of w) m")
  case (Pair r b)
  show ?thesis
  proof (cases r)
    case (Inr u)
    with Pair defer_message_pays show ?thesis by (auto simp: shed_or_defer_def)
  next
    case (Inl m')
    with Pair have "m' = m" "b = broker_of w" using defer_message_refused by auto
    with Pair Inl assms show ?thesis
      using world_write_sound [of w] overloaded_pays not_overloaded
      by (auto simp: shed_or_defer_def pays_def split: option.splits)
  qed
qed

lemma server_shed_or_defer_pays:
  assumes "server_shed_or_defer m sv w = (r, sv', w')" and "sv_transport sv" and "sound_link w"
  shows "r = Inr () \<and> sound_link w' \<and> account w' = account w + asks m \<and> sv' \<in> {sv, release_task_workers sv}"
proof (cases "defer_message (broker_of w) m")
  case (Pair q b)
  show ?thesis
  proof (cases q)
    case (Inr u)
    with Pair assms defer_message_pays [of w m u b] show ?thesis
      by (auto simp: server_shed_or_defer_def pays_def)
  next
    case (Inl m')
    with Pair have eq: "m' = m" "b = broker_of w" using defer_message_refused by auto
    show ?thesis
    proof (cases "overloaded_response m")
      case None
      with Pair Inl eq assms not_overloaded show ?thesis by (auto simp: server_shed_or_defer_def)
    next
      case (Some a)
      obtain sv1 w1 where "write_message a sv w = (Inr (), sv1, w1)" "sv1 = release_task_workers sv"
        "sound_link w1" "account w1 = account w + answers a"
        using write_message_sound assms(2,3) by metis
      with Pair Inl eq assms Some overloaded_pays show ?thesis by (auto simp: server_shed_or_defer_def)
    qed
  qed
qed

interpretation kept: steady balanced owes
proof
  fix w r l
  show "link_read (wire_link w) = (r, l) \<Longrightarrow> owes w r (w\<lparr>wire_link := l\<rparr>)" by (rule owes_link_read)
next
  fix w m w' and env :: tool_env
  show "owes w (Inr m) w' \<Longrightarrow> asks m = {#} \<Longrightarrow> balanced w w'" using owes_pays pays_nothing by blast
  show "owes w (Inr m) w' \<Longrightarrow> te_transport env \<Longrightarrow> balanced w (shed_or_defer env m w')"
    using owes_pays shed_or_defer_pays by blast
qed (use balanced_trans balanced_surface balanced_modest_step balanced_world_write balanced_set_read_timeout
    balanced_owes owes_Inl in \<open>blast+\<close>)

section \<open>Handlers\<close>

lemma balanced_answer_inline: "answer_inline h sv rq w = (r, w') \<Longrightarrow> balanced w w'"
  using kept.keeps_task_handlers
  by (fastforce simp: answer_inline_def split: if_splits sum.splits prod.splits)

lemma answers_answer_to: "answers (answer_to i r) = {#i#}"
  by (simp add: answer_to_def answers_def response_def error_def split: sum.splits)

lemma answer_inline_answers:
  "answer_inline h sv rq w = (Finished (Some m), w') \<Longrightarrow> answers m = {#rq_id rq#}"
proof -
  have "map_run f q = Finished (Some m) \<Longrightarrow> (\<And>x. f x = Some (answer_to i (g x))) \<Longrightarrow> answers m = {#i#}"
    for f :: "json result \<Rightarrow> jsonrpc_message option" and q i g
    by (cases q) (auto simp: answers_answer_to)
  then show "answer_inline h sv rq w = (Finished (Some m), w') \<Longrightarrow> answers m = {#rq_id rq#}"
    by (auto simp: answer_inline_def answers_answer_to split: if_splits sum.splits prod.splits)
qed

section \<open>The pump\<close>

text \<open>What the pump reads it answers itself, refuses or sets aside; it ends on nothing but what it was
  told by the transport or the store.\<close>

lemma pump_read_owes:
  assumes "pump_read w = (Inr r, w')"
  shows "owes w r w'" "sound_link w \<Longrightarrow> r = Inl e \<Longrightarrow> \<not> is_malformed e"
proof -
  obtain a l where arm: "set_read_timeout (Some PUMP_INTERVAL) (wire_link w) = (a, l)" by fastforce
  let ?w = "w\<lparr>wire_link := l\<rparr>"
  obtain q l' where rd: "link_read (wire_link ?w) = (q, l')" by fastforce
  from assms arm rd have r: "r = q" and w': "w' = ?w\<lparr>wire_link := snd (set_read_timeout None l')\<rparr>"
    by (auto simp: pump_read_def split: if_splits sum.splits)
  have armed: "balanced w ?w" using arm by (rule balanced_set_read_timeout)
  have "owes ?w q (?w\<lparr>wire_link := l'\<rparr>)" using rd by (rule owes_link_read)
  moreover have "balanced (?w\<lparr>wire_link := l'\<rparr>) w'"
    using balanced_set_read_timeout [of None "?w\<lparr>wire_link := l'\<rparr>"] by (simp add: w' prod_eq_iff)
  ultimately have "owes ?w q w'" by (rule owes_balanced)
  with armed show "owes w r w'" unfolding r by (rule balanced_owes)
  show "\<not> is_malformed e" if "sound_link w" "r = Inl e"
    using that armed rd r link_read_not_malformed [of ?w e l'] by (auto simp: balanced_def)
qed

lemma pump_read_failed: "pump_read w = (Inl e, w') \<Longrightarrow> balanced w w'"
  using balanced_set_read_timeout
  by (auto simp: pump_read_def split: if_splits sum.splits prod.splits)

lemma pump_route_pays:
  assumes "pump_route h r sv w = (p, sv', w')" and "sound_link w" and "sv_transport sv"
    and "\<And>e. r = Inl e \<Longrightarrow> \<not> is_malformed e" and "\<And>s. p \<noteq> Crashed s"
  shows "static sv' = static sv \<and> sound_link w' \<and>
    account w' = account w + (case r of Inr m \<Rightarrow> asks m | Inl _ \<Rightarrow> {#})"
proof (cases r)
  case (Inl e)
  with assms(1,4) show ?thesis using assms(2)
    by (auto simp: pump_route_def Let_def split: mcp_error.splits if_splits)
next
  case (Inr m)
  have aside: "static sv2 = static sv \<and> sound_link w2 \<and> account w2 = account w1 + asks m"
    if "server_shed_or_defer m sv w1 = (q, sv2, w2)" "sound_link w1" for q sv2 w1 w2 m
    using server_shed_or_defer_pays [OF that(1) assms(3) that(2)] by auto
  show ?thesis
  proof (cases m)
    case (Response x)
    with Inr assms kept.keeps_broker [of "deliver (broker_of w) x" w] show ?thesis
      by (auto simp: pump_route_def asks_def balanced_def)
  next
    case (Notification n)
    with Inr assms(1,2) show ?thesis by (auto simp: pump_route_def Let_def split: prod.splits dest!: aside)
  next
    case (Request rq)
    obtain a w1 where a: "answer_inline h sv rq w = (a, w1)" by fastforce
    have w1: "sound_link w1" "account w1 = account w"
      using balanced_answer_inline [OF a] assms(2) by (auto simp: balanced_def)
    show ?thesis
    proof (cases a)
      case (Unwound s)
      with Request Inr a assms(1,5) show ?thesis by (auto simp: pump_route_def)
    next
      case (Finished o1)
      show ?thesis
      proof (cases o1)
        case None
        with Finished Request Inr a assms(1) w1 show ?thesis
          by (auto simp: pump_route_def Let_def split: prod.splits dest!: aside)
      next
        case (Some x)
        obtain sv2 w2 where "write_message x sv w1 = (Inr (), sv2, w2)" "sv2 = release_task_workers sv"
          "sound_link w2" "account w2 = account w1 + answers x"
          using write_message_sound [OF w1(1) assms(3)] by metis
        with Some Finished Request Inr a assms(1) w1 answer_inline_answers show ?thesis
          by (auto simp: pump_route_def asks_def)
      qed
    qed
  qed
qed

lemma pump_balanced:
  assumes "modest (amb_sched h)"
  shows "pump h tid n sv w = Some (Finished r, sv', w') \<Longrightarrow> sv_transport sv \<Longrightarrow> sound_link w \<Longrightarrow>
    static sv' = static sv \<and> sound_link w' \<and> account w' = account w"
proof (induction n arbitrary: sv w)
  case (Suc n)
  let ?w = "pause (amb_sched h) w"
  obtain t s where t: "try_result (store_of ?w) (wall ?w) tid (requestor sv) = (t, s)" by fastforce
  let ?w1 = "?w\<lparr>store_of := s\<rparr>"
  have w1: "sound_link ?w1" "account ?w1 = account w"
    using kept.keeps_pause [OF assms, of w] kept.keeps_store [of ?w s] Suc.prems(3) by (auto simp: balanced_def)
  show ?case
  proof (cases "t = Inr None")
    case False
    with Suc.prems(1) t w1 show ?thesis by (auto simp: Let_def split: sum.splits option.splits)
  next
    case True
    obtain q w2 where q: "pump_read ?w1 = (q, w2)" by fastforce
    show ?thesis
    proof (cases q)
      case (Inl e)
      with q True Suc.prems(1) t pump_read_failed [of ?w1 e w2] w1 show ?thesis
        by (auto simp: Let_def balanced_def)
    next
      case (Inr a)
      have read: "owes ?w1 a w2" "\<And>e. a = Inl e \<Longrightarrow> \<not> is_malformed e"
        using pump_read_owes [of ?w1 a w2] q Inr w1(1) by auto
      obtain p sv3 w3 where p: "pump_route h a sv w2 = (p, sv3, w3)" by (metis prod.collapse)
      note step = Suc.prems(1) [unfolded pump.simps Let_def t True prod.case sum.case option.case q Inr p]
      then have "\<And>s. p \<noteq> Crashed s" by auto
      with pump_route_pays [OF p _ Suc.prems(2) read(2)] read(1) w1
      have w3: "static sv3 = static sv" "sound_link w3" "account w3 = account w"
        by (auto simp: owes_def)
      then have "sv_transport sv3" using static_fields Suc.prems(2) by metis
      with step w3 Suc.IH [of sv3 w3] show ?thesis by (auto split: pumped.splits)
    qed
  qed
qed simp


lemma handle_task_result_balanced:
  assumes "handle_task_result h sv rq w = Some (Finished r, sv', w')" and "modest (amb_sched h)"
    and "sv_transport sv" and "sound_link w"
  shows "static sv' = static sv \<and> sound_link w' \<and> account w' = account w"
proof (cases "and_then (task_store_or_unsupported sv) (\<lambda>_. parse_params h task_id_params_of rq)")
  case (Inl e)
  with assms show ?thesis by (simp add: handle_task_result_def)
next
  case (Inr tid)
  then obtain q where q: "await_task h tid sv w = Some (q, sv', w')" "map_run (\<lambda>r. and_then r (result_of_outcome tid)) q = Finished r"
    using assms(1) by (auto simp: handle_task_result_def)
  then obtain q' where "q = Finished q'" by (cases q) auto
  with q assms(2-) pump_balanced kept.keeps_await_store show ?thesis
    by (fastforce simp: await_task_def balanced_def split: if_splits)
qed

section \<open>The loop\<close>

lemma dispatch_balanced:
  assumes "dispatch_request h sv rq ctx w = Some (Finished r, sv', ctx', w')" and "modest (amb_sched h)"
    and "sv_transport sv" and "sound_link w"
  shows "static sv' = static sv \<and> sound_link w' \<and> account w' = account w"
  using assms(1)
proof (cases rule: kept.dispatch_cases)
  case (called q)
  with kept.keeps_handle_call_tool [OF called(3) assms(2)] assms(4) show ?thesis by (simp add: balanced_def)
next
  case awaited
  with handle_task_result_balanced [OF _ assms(2-)] show ?thesis by simp
qed (use assms(4) in \<open>auto simp: balanced_def dest: handle_initialize_static handle_set_level_static\<close>)

text \<open>What handling a message puts on the wire settles it.\<close>

definition answer_count :: "jsonrpc_message option \<Rightarrow> request_id multiset" where
  "answer_count a = (case a of None \<Rightarrow> {#} | Some m \<Rightarrow> answers m)"

lemma handle_message_settles:
  assumes "handle_message h sv m ctx w = Some (Finished a, sv', ctx', w')" and "modest (amb_sched h)"
    and "sv_transport sv" and "sound_link w"
  shows "static sv' = static sv \<and> sound_link w' \<and> account w' = account w \<and> answer_count a = asks m"
proof (cases m)
  case (Request rq)
  then obtain q where q: "handle_request h sv rq ctx w = Some (q, sv', ctx', w')" "map_run Some q = Finished a"
    using assms(1) by (auto simp: handle_message_def)
  then obtain d where d: "dispatch_request h sv rq ctx w = Some (d, sv', ctx', w')" "q = map_run (answer_to (rq_id rq)) d"
    by (auto simp: handle_request_def)
  then obtain x where x: "d = Finished x" "a = Some (answer_to (rq_id rq) x)" using q(2) by (cases d) auto
  with dispatch_balanced [OF _ assms(2-)] d Request show ?thesis
    by (auto simp: answer_count_def asks_def answers_answer_to)
next
  case (Notification n)
  have "balanced w (handle_notification n w)"
    by (auto simp: handle_notification_def broker_cancel_def intro: kept.keeps_broker split: option.splits)
  with Notification assms(1,4) show ?thesis
    by (auto simp: handle_message_def answer_count_def asks_def balanced_def)
next
  case (Response x)
  with assms(1,4) kept.keeps_broker [of "deliver (broker_of w) x" w] show ?thesis
    by (auto simp: handle_message_def answer_count_def asks_def balanced_def)
qed

lemma loop_handle_settles:
  assumes "loop_handle h sv m ctx w = Some (t, sv', ctx', w')" and "\<forall>s. t \<noteq> LoopEnds (Unwound s)"
    and "modest (amb_sched h)" and "sv_transport sv" and "sound_link w"
  shows "t = NextTurn \<and> static sv' = static sv \<and> sound_link w' \<and> account w' = account w + asks m"
proof -
  obtain a sv1 ctx1 w1 where a: "handle_message h sv m ctx w = Some (Finished a, sv1, ctx1, w1)"
    using assms(1,2) by (auto simp: loop_handle_def split: option.splits run.splits)
  note settled = handle_message_settles [OF a assms(3-)]
  then have "sv_transport sv1" using static_fields assms(4) by metis
  show ?thesis
  proof (cases a)
    case None
    with a settled assms(1) show ?thesis by (auto simp: loop_handle_def answer_count_def)
  next
    case (Some x)
    obtain sv2 w2 where "write_message x sv1 w1 = (Inr (), sv2, w2)" "sv2 = release_task_workers sv1"
      "sound_link w2" "account w2 = account w1 + answers x"
      using write_message_sound \<open>sv_transport sv1\<close> settled by metis
    with Some a settled assms(1) show ?thesis by (auto simp: loop_handle_def answer_count_def)
  qed
qed


lemma next_deferred_owes:
  "next_deferred (broker_of w) = (Some m, b) \<Longrightarrow> owes w (Inr m) (w\<lparr>broker_of := b\<rparr>)"
  by (auto simp: next_deferred_def owes_def sound_link_def writable_def account_def unread_def queued_def
      answered_def split: list.splits)

lemma loop_read_owes:
  assumes "loop_read w = (r, w')"
  shows "owes w r w'" "sound_link w \<Longrightarrow> r = Inl e \<Longrightarrow> \<not> is_malformed e"
  using assms owes_link_read [of w] link_read_not_malformed [of w]
  by (auto simp: loop_read_def owes_Inl LOCK_POISONED_def split: if_splits prod.splits)

lemma loop_turn_settles:
  assumes "loop_turn h sv ctx w = Some (t, sv', ctx', w')" and "\<forall>s. t \<noteq> LoopEnds (Unwound s)"
    and "modest (amb_sched h)" and "sv_transport sv" and "sound_link w"
  shows "static sv' = static sv \<and> sound_link w' \<and> account w' = account w \<and>
    (t = LoopEnds (Finished (Inr ())) \<longrightarrow> queued w' = {#})"
proof -
  let ?w = "pause (amb_sched h) w"
  have w: "sound_link ?w" "account ?w = account w"
    using kept.keeps_pause [OF assms(3), of w] assms(5) by (auto simp: balanced_def)
  have handled: "static sv' = static sv \<and> sound_link w' \<and> account w' = account w \<and> t = NextTurn"
    if "owes ?w (Inr m) w1" "loop_handle h sv m ctx w1 = Some (t, sv', ctx', w')" for m w1
    using that(1) w loop_handle_settles [OF that(2) assms(2-4)] by (auto simp: owes_def)
  obtain d b where d: "next_deferred (broker_of ?w) = (d, b)" by fastforce
  note turn = assms(1) [unfolded loop_turn_def Let_def d prod.case]
  show ?thesis
  proof (cases d)
    case (Some m)
    with turn handled [OF next_deferred_owes] d show ?thesis by auto
  next
    case None
    obtain r w1 where r: "loop_read ?w = (r, w1)" by fastforce
    note owes = loop_read_owes [OF r]
    show ?thesis
    proof (cases r)
      case (Inr m)
      with turn None r handled owes(1) show ?thesis by auto
    next
      case (Inl e)
      have q: "queued w1 = {#}"
        using None d r by (auto simp: next_deferred_def queued_def loop_read_def split: list.splits if_splits prod.splits)
      have "t = NextTurn \<or> (\<exists>x. t = LoopEnds x)" "sv' = sv" "w' = w1"
        using turn None r Inl owes(2) [OF w(1)] by (auto split: mcp_error.splits if_splits)
      with owes(1) Inl w q show ?thesis by (simp add: owes_Inl balanced_def)
    qed
  qed
qed

lemma server_loop_settles:
  assumes "modest (amb_sched h)"
  shows "server_loop h n sv ctx w = Some (Finished r, sv', ctx', w') \<Longrightarrow> sv_transport sv \<Longrightarrow> sound_link w \<Longrightarrow>
    static sv' = static sv \<and> account w' = account w \<and> (r = Inr () \<longrightarrow> queued w' = {#})"
proof (induction n arbitrary: sv ctx w)
  case (Suc n)
  then obtain t sv1 ctx1 w1 where t: "loop_turn h sv ctx w = Some (t, sv1, ctx1, w1)"
    by (auto split: option.splits)
  with Suc.prems(1) have "\<forall>s. t \<noteq> LoopEnds (Unwound s)" by (auto split: turn_end.splits)
  note turn = loop_turn_settles [OF t this assms Suc.prems(2,3)]
  then have "sv_transport sv1" using static_fields Suc.prems(2) by metis
  with turn t Suc.prems(1) Suc.IH [of sv1 ctx1 w1] show ?case by (auto split: turn_end.splits)
qed simp

lemma start_settles:
  assumes "start h turns splits sv ctx w = Some (Finished (Inr ()), sv', ctx', w')"
    and "sound_link w" and "modest (amb_sched h)"
  shows "account w' = account w \<and> queued w' = {#}"
proof -
  obtain a l where arm: "set_read_timeout None (wire_link w) = (a, l)" by fastforce
  let ?w = "w\<lparr>wire_link := l\<rparr>"
  have w: "sound_link ?w" "account ?w = account w"
    using balanced_set_read_timeout [OF arm] assms(2) by (auto simp: balanced_def)
  have "account w' = account ?w" "queued w' = {#}"
    using assms(1) arm w(1) server_loop_settles [OF assms(3)] by (fastforce simp: start_def Let_def)+
  with w(2) show ?thesis by simp
qed

text \<open>
  C1: Every request is answered exactly once. When the server's loop ends because the peer hung up,
  the responses it wrote are, id by id, those owed for the requests it read and for those that were
  already set aside: none is left unanswered, none is answered twice, whether the answer came from
  the loop, from the pump of a blocked \<open>tasks/result\<close> or as a refusal, and whatever other threads
  did meanwhile. The transport takes what is written, and what it reads are messages.
\<close>

theorem every_request_answered_once:
  assumes "start h turns splits sv ctx w = Some (Finished (Inr ()), sv', ctx', w')"
    and "sound_link w" and "modest (amb_sched h)"
  shows "answered w' + unread w' = answered w + unread w + queued w"
  using start_settles [OF assms] by (auto simp: account_def ac_simps)

text \<open>A host and a server to try things on.\<close>

definition sample_host :: host where
  "sample_host = \<lparr>amb_duration = (\<lambda>_. []), amb_json = (\<lambda>_. []), amb_sched = (\<lambda>_. []), amb_polls = 5,
     h_entropy = (\<lambda>_. replicate 16 0), h_spawn = (\<lambda>_. None), h_nap = (\<lambda>_. 1), h_encode = (\<lambda>s. s),
     h_decode = Some, h_render = (\<lambda>_. []), h_compile = (\<lambda>_. Inl [])\<rparr>"

definition sample_server :: "unit server" where
  "sample_server = new_server ((default_server_config ''1'')\<lparr>cfg_require_initialization := True\<rparr>)"

lemma sample_ping:
  "handle_message sample_host (sample_server\<lparr>sv_transport := True, sv_can_pump := True\<rparr>)
     (request (IdNumber 1) ''ping'' None) () w =
   Some (Finished (Some (response (IdNumber 1) (jobject []))),
     sample_server\<lparr>sv_transport := True, sv_can_pump := True\<rparr>, (), w)"
  by (simp add: handle_message_def handle_request_def dispatch_request_def request_def check_initialized_def
      handle_ping_def answer_to_def Let_def)

lemma sample_run:
  "\<exists>sv' w'. start sample_host 2 True sample_server () sample_world = Some (Finished (Inr ()), sv', (), w') \<and> unread w' = {#}"
proof -
  have two: "(2::nat) = Suc (Suc 0)" by simp
  have idle: "pause (amb_sched sample_host) w = w\<lparr>turn_of := Suc (turn_of w)\<rparr>" for w
    by (simp add: pause_def sample_host_def)
  show ?thesis
    by (simp add: start_def two loop_turn_def idle loop_read_def link_read_def set_read_timeout_def next_deferred_def
        sample_world_def sample_link_def new_broker_def loop_handle_def sample_ping write_message_def link_write_def
        release_task_workers_def unread_def)
qed

lemma sample_books:
  "sound_link sample_world" "modest (amb_sched sample_host)" "unread sample_world = {#IdNumber 1#}"
  "answered sample_world = {#}" "queued sample_world = {#}"
  by (simp add: sound_link_def, simp add: sample_world_def sample_link_def readable_def)
     (simp_all add: modest_def sample_host_def answered_def unread_def queued_def sample_world_def sample_link_def
       new_broker_def arrival_asks_def asks_def request_def)

theorem every_request_answered_once_witness:
  "\<exists>sv' w'. start sample_host 2 True sample_server () sample_world = Some (Finished (Inr ()), sv', (), w') \<and>
     answered w' = {#IdNumber 1#} \<and> unread w' = {#}"
proof -
  obtain sv' w' where run: "start sample_host 2 True sample_server () sample_world = Some (Finished (Inr ()), sv', (), w')"
    and un: "unread w' = {#}" using sample_run by blast
  from every_request_answered_once [OF run sample_books(1,2)] un sample_books(3-5)
  have "answered w' = {#IdNumber 1#}" by simp
  with run un show ?thesis by blast
qed

end
