(* ===== verification/Server_Session.thy ===== *)
theory Server_Session
  imports Server_Answers
begin

text \<open>
  What a client can rely on over a session: the lifecycle of a server, strict or not, as a refinement of
  a two-state machine; the registrations and their listings; and how a tool's end becomes an answer, in
  place and through a task.
\<close>

section \<open>What changes only at the handshake\<close>

text \<open>Most handlers change nothing of the server but the workers waiting at their gates.\<close>

definition same_session :: "'c server \<Rightarrow> 'c server \<Rightarrow> bool" where
  "same_session sv sv' \<longleftrightarrow> sv'\<lparr>sv_gates := []\<rparr> = sv\<lparr>sv_gates := []\<rparr>"

lemma same_session_refl [simp]: "same_session sv sv"
  by (simp add: same_session_def)

lemma same_session_trans [trans]: "same_session a b \<Longrightarrow> same_session b c \<Longrightarrow> same_session a c"
  by (simp add: same_session_def)

lemma same_session_gates [simp]:
  "same_session sv (sv\<lparr>sv_gates := g\<rparr>)" "same_session sv (release_task_workers sv)"
  by (simp_all add: same_session_def release_task_workers_def)

lemma same_session_fields:
  assumes "same_session sv sv'"
  shows "static sv' = static sv" "sv_initialized sv' = sv_initialized sv" "sv_log_level sv' = sv_log_level sv"
    "sv_client_capabilities sv' = sv_client_capabilities sv"
    "sv_negotiated_version sv' = sv_negotiated_version sv"
  using assms by (cases sv; cases sv'; simp add: same_session_def static_def)+

lemma write_message_session: "write_message m sv w = (r, sv', w') \<Longrightarrow> same_session sv sv'"
  by (auto simp: write_message_def split: if_splits prod.splits)

lemma server_shed_or_defer_session: "server_shed_or_defer m sv w = (r, sv', w') \<Longrightarrow> same_session sv sv'"
  by (auto simp: server_shed_or_defer_def split: prod.splits sum.splits option.splits dest: write_message_session)

lemma pump_route_session: "pump_route h r sv w = (p, sv', w') \<Longrightarrow> same_session sv sv'"
  by (auto simp: pump_route_def Let_def dest: write_message_session server_shed_or_defer_session
      split: sum.splits mcp_error.splits if_splits jsonrpc_message.splits prod.splits run.splits option.splits)

lemma pump_session: "pump h tid n sv w = Some (r, sv', w') \<Longrightarrow> same_session sv sv'"
proof (induction n arbitrary: sv w)
  case (Suc n)
  then show ?case
    by (auto simp: Let_def split: prod.splits sum.splits option.splits pumped.splits
        dest!: pump_route_session intro: same_session_trans)
qed simp

lemma handle_task_result_session: "handle_task_result h sv rq w = Some (r, sv', w') \<Longrightarrow> same_session sv sv'"
  by (auto simp: handle_task_result_def await_task_def split: sum.splits if_splits dest: pump_session)

lemma start_tool_task_session: "start_tool_task h sv t lifetime w = (r, sv', w') \<Longrightarrow> same_session sv sv'"
  by (auto simp: start_tool_task_def Let_def split: if_splits sum.splits prod.splits option.splits)

lemma handle_call_tool_session:
  "handle_call_tool h sv rq ctx w = Some (r, sv', ctx', w') \<Longrightarrow> same_session sv sv'"
  by (auto simp: handle_call_tool_def Let_def split: sum.splits call_plan.splits prod.splits
      dest: start_tool_task_session)

lemmas session_lemmas = handle_task_result_session handle_call_tool_session

section \<open>The lifecycle\<close>

text \<open>
  The specification of a session. A strict server (\<open>require_initialization\<close>, off by default) allows nothing
  but a ping and the handshake before the handshake, and the handshake once; any other allows
  everything, so a client may shake hands again. A handshake that can be read settles the version and
  the client's capabilities; nothing else moves the phase.
\<close>

datatype phase = Fresh | Ready string client_capabilities

definition permitted :: "bool \<Rightarrow> phase \<Rightarrow> string \<Rightarrow> bool" where
  "permitted strict p m \<longleftrightarrow> strict \<longrightarrow>
     m = ''ping'' \<or> (case p of Fresh \<Rightarrow> m = ''initialize'' | Ready _ _ \<Rightarrow> m \<noteq> ''initialize'')"

definition offered :: "jsonrpc_request \<Rightarrow> initialize_params option" where
  "offered rq =
     (case rq_params rq of
        None \<Rightarrow> Some default_initialize_params
      | Some v \<Rightarrow> (case initialize_params_of v of Inl _ \<Rightarrow> None | Inr p \<Rightarrow> Some p))"

definition phase_step :: "bool \<Rightarrow> string list \<Rightarrow> phase \<Rightarrow> jsonrpc_request \<Rightarrow> phase" where
  "phase_step strict supported p rq =
     (if rq_method rq = ''initialize'' \<and> permitted strict p ''initialize''
      then (case offered rq of
              None \<Rightarrow> p
            | Some ip \<Rightarrow> Ready (negotiate supported (ip_protocol_version ip)) (ip_capabilities ip))
      else p)"

text \<open>The phase a server is in, and the servers whose session state makes sense.\<close>

abbreviation strict :: "'c server \<Rightarrow> bool" where
  "strict sv \<equiv> cfg_require_initialization (sv_config sv)"

definition phase_of :: "'c server \<Rightarrow> phase" where
  "phase_of sv =
     (case sv_negotiated_version sv of None \<Rightarrow> Fresh | Some v \<Rightarrow> Ready v (sv_client_capabilities sv))"

definition session_ok :: "'c server \<Rightarrow> bool" where
  "session_ok sv \<longleftrightarrow> (sv_initialized sv \<longleftrightarrow> sv_negotiated_version sv \<noteq> None)"

lemma new_server_session: "session_ok (new_server cfg)" "phase_of (new_server cfg) = Fresh"
  by (simp_all add: session_ok_def phase_of_def new_server_def)

lemma permitted_iff:
  "session_ok sv \<Longrightarrow> permitted (strict sv) (phase_of sv) m \<longleftrightarrow> check_initialized sv m = Inr ()"
  by (auto simp: permitted_def phase_of_def session_ok_def check_initialized_def split: option.splits)

lemma same_session_ok: "same_session sv sv' \<Longrightarrow> session_ok sv' = session_ok sv \<and> phase_of sv' = phase_of sv"
  using same_session_fields [of sv sv'] static_fields(1) [of sv' sv]
  by (simp add: session_ok_def phase_of_def split: option.splits)

lemma handle_initialize_phase:
  assumes "handle_initialize h sv rq = (r, sv')" and "session_ok sv"
  shows "session_ok sv'"
    and "rq_method rq = ''initialize'' \<Longrightarrow> permitted (strict sv) (phase_of sv) ''initialize'' \<Longrightarrow>
      phase_of sv' = phase_step (strict sv) (cfg_supported_versions (sv_config sv)) (phase_of sv) rq"
  using assms
  by (auto simp: handle_initialize_def session_ok_def phase_of_def phase_step_def offered_def Let_def
      split: option.splits sum.splits)

lemma handle_set_level_phase:
  "handle_set_level h sv rq = (r, sv') \<Longrightarrow> session_ok sv' = session_ok sv \<and> phase_of sv' = phase_of sv"
  by (auto simp: handle_set_level_def session_ok_def phase_of_def split: sum.splits option.splits)

lemma refusal_is_invalid_message: "check_initialized sv m = Inl e \<Longrightarrow> \<exists>t. e = InvalidMessage t"
  by (auto simp: check_initialized_def split: if_splits)

text \<open>Every request refines one step of the specification.\<close>

lemma phase_step_other [simp]: "rq_method rq \<noteq> ''initialize'' \<Longrightarrow> phase_step str supported p rq = p"
  by (simp add: phase_step_def)

lemma dispatch_phase:
  assumes "dispatch_request h sv rq ctx w = Some (r, sv', ctx', w')" and "session_ok sv"
  shows "session_ok sv' \<and>
    phase_of sv' = phase_step (strict sv) (cfg_supported_versions (sv_config sv)) (phase_of sv) rq"
  using assms(1)
proof (cases rule: kept.dispatch_cases)
  case (refused e)
  with assms(2) have "\<not> permitted (strict sv) (phase_of sv) (rq_method rq)" by (simp add: permitted_iff)
  with refused assms(2) show ?thesis by (auto simp: phase_step_def)
next
  case (handshake q)
  then have "permitted (strict sv) (phase_of sv) ''initialize''" using permitted_iff [OF assms(2)] by simp
  with handle_initialize_phase [OF handshake(3) assms(2)] handshake(2) show ?thesis by simp
next
  case (level q)
  with assms(2) handle_set_level_phase show ?thesis by fastforce
next
  case (called q)
  with assms(2) same_session_ok [OF handle_call_tool_session] show ?thesis by fastforce
next
  case awaited
  with assms(2) same_session_ok [OF handle_task_result_session] show ?thesis by fastforce
next
  case looked
  then have "rq_method rq \<noteq> ''initialize''" by (auto simp: active_methods_def)
  with looked assms(2) show ?thesis by simp
qed

text \<open>
  C3: A server refines the lifecycle of the protocol, whether it is strict or, as by default, not.
  Whatever the request, the phase of the server moves as the specification says: a handshake that is
  permitted and can be read takes it to ready with the negotiated version and the client's
  capabilities, and nothing else moves it. On a strict server a request the phase does not permit, a
  second handshake among them, is answered with an error and leaves the server, the application's
  context and the world as they were; any other server permits every request in every phase.
\<close>

theorem session_refines_lifecycle:
  assumes "dispatch_request h sv rq ctx w = Some (r, sv', ctx', w')" and "session_ok sv"
  shows "session_ok sv' \<and>
    phase_of sv' = phase_step (strict sv) (cfg_supported_versions (sv_config sv)) (phase_of sv) rq \<and>
    (\<not> permitted (strict sv) (phase_of sv) (rq_method rq) \<longrightarrow>
       (\<exists>t. r = Finished (Inl (InvalidMessage t))) \<and> sv' = sv \<and> ctx' = ctx \<and> w' = w)"
proof -
  have "(\<exists>t. r = Finished (Inl (InvalidMessage t))) \<and> sv' = sv \<and> ctx' = ctx \<and> w' = w"
    if early: "\<not> permitted (strict sv) (phase_of sv) (rq_method rq)"
  proof -
    obtain e where e: "check_initialized sv (rq_method rq) = Inl e"
      using early permitted_iff [OF assms(2)] by (cases "check_initialized sv (rq_method rq)") auto
    with assms(1) refusal_is_invalid_message [OF e] show ?thesis by (auto simp: dispatch_request_def Let_def)
  qed
  with dispatch_phase [OF assms] show ?thesis by blast
qed

text \<open>A strict server refuses a listing before the handshake, and the default one shakes hands twice.\<close>

theorem session_refines_lifecycle_witness:
  "(\<exists>t. dispatch_request sample_host sample_server \<lparr>rq_id = IdNumber 7, rq_method = ''tools/list'', rq_params = None\<rparr>
     () sample_world = Some (Finished (Inl (InvalidMessage t)), sample_server, (), sample_world)) \<and>
   (\<exists>r sv'. dispatch_request sample_host ((new_server (default_server_config ''1''))\<lparr>sv_initialized := True,
       sv_negotiated_version := Some ''old''\<rparr>)
     \<lparr>rq_id = IdNumber 7, rq_method = ''initialize'', rq_params = None\<rparr> () sample_world = Some (r, sv', (), sample_world) \<and>
     phase_of sv' = Ready (negotiate SUPPORTED_PROTOCOL_VERSIONS (ip_protocol_version default_initialize_params))
       (ip_capabilities default_initialize_params))"
proof
  let ?rq = "\<lparr>rq_id = IdNumber 7, rq_method = ''tools/list'', rq_params = None\<rparr>"
  have ok: "session_ok sample_server" by (simp add: sample_server_def session_ok_def new_server_def)
  have fresh: "\<not> permitted (strict sample_server) (phase_of sample_server) (rq_method ?rq)"
    by (simp add: permitted_def phase_of_def sample_server_def new_server_def)
  obtain r sv' ctx' w' where
    run: "dispatch_request sample_host sample_server ?rq () sample_world = Some (r, sv', ctx', w')"
    by (simp add: dispatch_request_def check_initialized_def sample_server_def new_server_def Let_def)
  from session_refines_lifecycle [OF run ok] fresh run
  show "\<exists>t. dispatch_request sample_host sample_server ?rq () sample_world =
    Some (Finished (Inl (InvalidMessage t)), sample_server, (), sample_world)" by auto
next
  let ?sv = "(new_server (default_server_config ''1'') :: unit server)\<lparr>sv_initialized := True, sv_negotiated_version := Some ''old''\<rparr>"
  let ?rq = "\<lparr>rq_id = IdNumber 7, rq_method = ''initialize'', rq_params = None\<rparr>"
  have lax: "\<not> strict ?sv" "cfg_supported_versions (sv_config ?sv) = SUPPORTED_PROTOCOL_VERSIONS"
    by (simp_all add: new_server_def default_server_config_def)
  obtain a sv' where "handle_initialize sample_host ?sv ?rq = (a, sv')" by fastforce
  with lax have run: "dispatch_request sample_host ?sv ?rq () sample_world = Some (Finished a, sv', (), sample_world)"
    by (simp add: dispatch_request_def check_initialized_def Let_def)
  have "session_ok ?sv" by (simp add: session_ok_def)
  from session_refines_lifecycle [OF run this] lax run
  show "\<exists>r sv'. dispatch_request sample_host ?sv ?rq () sample_world = Some (r, sv', (), sample_world) \<and>
     phase_of sv' = Ready (negotiate SUPPORTED_PROTOCOL_VERSIONS (ip_protocol_version default_initialize_params))
       (ip_capabilities default_initialize_params)"
    by (auto simp: phase_step_def permitted_def offered_def)
qed

text \<open>Over a whole run of the loop.\<close>

lemma dispatch_static:
  assumes "dispatch_request h sv rq ctx w = Some (r, sv', ctx', w')"
  shows "static sv' = static sv"
  using assms
proof (cases rule: kept.dispatch_cases)
  case (called q)
  show ?thesis by (rule same_session_fields(1) [OF handle_call_tool_session [OF called(3)]])
next
  case awaited
  show ?thesis by (rule same_session_fields(1) [OF handle_task_result_session [OF awaited(3)]])
qed (auto dest: handle_initialize_static handle_set_level_static)

lemma handle_message_dispatched:
  assumes "handle_message h sv m ctx w = Some (a, sv', ctx', w')"
  obtains rq d where "m = Request rq" "dispatch_request h sv rq ctx w = Some (d, sv', ctx', w')" | "sv' = sv"
  using assms by (auto simp: handle_message_def handle_request_def split: jsonrpc_message.splits)

text \<open>The ways a phase can go: a version out of the list at a handshake, and on a strict server only one.\<close>

definition phase_reaches :: "bool \<Rightarrow> string list \<Rightarrow> phase \<Rightarrow> phase \<Rightarrow> bool" where
  "phase_reaches str supported p q \<longleftrightarrow>
     q = p \<or> ((str \<longrightarrow> p = Fresh) \<and> (\<exists>v c. q = Ready v c \<and> (supported \<noteq> [] \<longrightarrow> v \<in> set supported)))"

lemma negotiate_supported: "supported \<noteq> [] \<Longrightarrow> negotiate supported v \<in> set supported"
  by (cases supported) (simp_all add: negotiate_def)

lemma phase_reaches_step: "phase_reaches str supported p (phase_step str supported p rq)"
  by (auto simp: phase_reaches_def phase_step_def permitted_def negotiate_supported split: phase.splits option.splits)

lemma phase_reaches_trans:
  "phase_reaches str s p q \<Longrightarrow> phase_reaches str s q r \<Longrightarrow> phase_reaches str s p r"
  by (auto simp: phase_reaches_def)

definition follows :: "'c server \<Rightarrow> 'c server \<Rightarrow> bool" where
  "follows sv sv' \<longleftrightarrow> static sv' = static sv \<and> (session_ok sv \<longrightarrow> session_ok sv' \<and>
     phase_reaches (strict sv) (cfg_supported_versions (sv_config sv)) (phase_of sv) (phase_of sv'))"

lemma follows_same: "same_session sv sv' \<Longrightarrow> follows sv sv'"
  using same_session_ok [of sv sv'] same_session_fields(1) [of sv sv'] by (simp add: follows_def phase_reaches_def)

lemma follows_refl [simp]: "follows sv sv"
  by (simp add: follows_same)

lemma follows_trans [trans]: "follows a b \<Longrightarrow> follows b c \<Longrightarrow> follows a c"
  using static_fields(1) [of b a] by (auto simp: follows_def intro: phase_reaches_trans)

lemma follows_handle_message: "handle_message h sv m ctx w = Some (a, sv', ctx', w') \<Longrightarrow> follows sv sv'"
proof (elim handle_message_dispatched)
  fix rq d
  assume d: "dispatch_request h sv rq ctx w = Some (d, sv', ctx', w')"
  show "follows sv sv'"
    using dispatch_static [OF d] dispatch_phase [OF d] phase_reaches_step by (auto simp: follows_def)
qed simp

lemma follows_loop_handle:
  "loop_handle h sv m ctx w = Some (t, sv', ctx', w') \<Longrightarrow> follows sv sv'"
  by (auto simp: loop_handle_def split: option.splits run.splits prod.splits sum.splits
      dest!: follows_handle_message write_message_session [THEN follows_same] intro: follows_trans)

lemma follows_loop_turn: "loop_turn h sv ctx w = Some (t, sv', ctx', w') \<Longrightarrow> follows sv sv'"
  by (auto simp: loop_turn_def Let_def split: prod.splits option.splits sum.splits mcp_error.splits if_splits
      dest!: follows_loop_handle write_message_session [THEN follows_same])

lemma follows_server_loop: "server_loop h n sv ctx w = Some (r, sv', ctx', w') \<Longrightarrow> follows sv sv'"
proof (induction n arbitrary: sv ctx w)
  case (Suc n)
  then show ?case
    by (auto split: option.splits prod.splits turn_end.splits dest!: follows_loop_turn intro: follows_trans)
qed simp

text \<open>
  Over a whole run of a strict server's loop, whatever the client sends and however the run ends,
  the handshake happens at most once: a session that is ready keeps its version and the client's
  capabilities, one that was fresh stays so or becomes ready with a version the server supports. The
  registrations and the configuration do not change.
\<close>

theorem handshake_happens_once:
  assumes "server_loop h n sv ctx w = Some (r, sv', ctx', w')" and "session_ok sv" and "strict sv"
    and "cfg_supported_versions (sv_config sv) \<noteq> []"
  shows "(phase_of sv' = phase_of sv \<or>
      (phase_of sv = Fresh \<and> (\<exists>v c. phase_of sv' = Ready v c \<and> v \<in> set (cfg_supported_versions (sv_config sv))))) \<and>
    sv_config sv' = sv_config sv \<and> sv_tools sv' = sv_tools sv \<and> sv_resources sv' = sv_resources sv \<and>
    sv_resource_templates sv' = sv_resource_templates sv \<and> sv_prompts sv' = sv_prompts sv \<and>
    sv_tasks sv' = sv_tasks sv"
proof -
  have f: "static sv' = static sv"
    "phase_reaches (strict sv) (cfg_supported_versions (sv_config sv)) (phase_of sv) (phase_of sv')"
    using follows_server_loop [OF assms(1)] assms(2) by (auto simp: follows_def)
  with static_fields [OF f(1)] assms(3,4) show ?thesis by (auto simp: phase_reaches_def)
qed

theorem handshake_happens_once_witness:
  "\<exists>r sv' w'. server_loop sample_host 1 sample_server () (sample_world\<lparr>wire_link := sample_link\<lparr>inbox := []\<rparr>\<rparr>) =
     Some (r, sv', (), w') \<and> phase_of sv' = Fresh"
proof -
  have ok: "session_ok sample_server" "strict sample_server" "cfg_supported_versions (sv_config sample_server) \<noteq> []"
    by (simp_all add: session_ok_def sample_server_def new_server_def default_server_config_def
        SUPPORTED_PROTOCOL_VERSIONS_def)
  have fresh: "phase_of sample_server = Fresh" by (simp add: phase_of_def sample_server_def new_server_def)
  let ?w = "sample_world\<lparr>wire_link := sample_link\<lparr>inbox := []\<rparr>\<rparr>"
  obtain r sv' w' where run: "server_loop sample_host 1 sample_server () ?w = Some (r, sv', (), w')"
    and same: "sv' = sample_server"
    by (simp add: loop_turn_def loop_read_def link_read_def next_deferred_def pause_def sample_host_def
        sample_world_def sample_link_def new_broker_def Let_def)
  from handshake_happens_once [OF run ok] fresh same run show ?thesis by auto
qed

section \<open>Registrations\<close>

text \<open>
  What the registrations of a server look like: tables keyed by the name or the URI of what they
  hold, once each, and only names the protocol allows.
\<close>

definition filed :: "('k \<Rightarrow> 'v \<Rightarrow> bool) \<Rightarrow> ('k, 'v) table \<Rightarrow> bool" where
  "filed P t \<longleftrightarrow> wf_table t \<and> (\<forall>(k, v) \<in> set t. P k v)"

lemma filed_Nil [simp]: "filed P []"
  by (simp add: filed_def)

lemma filed_insert [simp]: "filed P t \<Longrightarrow> P k v \<Longrightarrow> filed P (table_insert k v t)"
  using table_insert_cases [of t _ _ k v] by (fastforce simp: filed_def)

definition registrations_ok :: "'c server \<Rightarrow> bool" where
  "registrations_ok sv \<longleftrightarrow>
     filed (\<lambda>n e. t_name (en_tool e) = n \<and> is_valid_tool_name n) (sv_tools sv) \<and>
     filed (\<lambda>u r. r_uri r = u) (sv_resources sv) \<and>
     distinct (map rt_uri_template (sv_resource_templates sv)) \<and>
     filed (\<lambda>n p. p_name p = n) (sv_prompts sv)"

datatype 'c registration = RegTool "'c tool" | RegResource resource_def | RegTemplate resource_template | RegPrompt prompt_def

fun register :: "schema_compiler \<Rightarrow> 'c server \<Rightarrow> 'c registration \<Rightarrow> 'c server" where
  "register compile sv (RegTool t) = snd (add_tool compile t sv)"
| "register compile sv (RegResource r) = snd (add_resource r sv)"
| "register compile sv (RegTemplate t) = snd (add_resource_template t sv)"
| "register compile sv (RegPrompt p) = snd (add_prompt p sv)"

lemma add_tool_ok: "registrations_ok sv \<Longrightarrow> registrations_ok (snd (add_tool compile t sv))"
  by (simp add: registrations_ok_def add_tool_def Let_def)

lemma add_resource_ok: "registrations_ok sv \<Longrightarrow> registrations_ok (snd (add_resource r sv))"
  by (simp add: registrations_ok_def add_resource_def)

lemma add_prompt_ok: "registrations_ok sv \<Longrightarrow> registrations_ok (snd (add_prompt p sv))"
  by (simp add: registrations_ok_def add_prompt_def)

lemma add_resource_template_ok: "registrations_ok sv \<Longrightarrow> registrations_ok (snd (add_resource_template t sv))"
  by (auto simp: registrations_ok_def add_resource_template_def list_ex_iff)

lemma register_ok: "registrations_ok sv \<Longrightarrow> registrations_ok (register compile sv r)"
  by (cases r) (simp_all add: add_tool_ok add_resource_ok add_prompt_ok add_resource_template_ok)

lemma registered_ok: "registrations_ok sv \<Longrightarrow> registrations_ok (foldl (register compile) sv rs)"
  by (induction rs arbitrary: sv) (simp_all add: register_ok)

lemma new_server_ok: "registrations_ok (new_server cfg)"
  by (simp add: registrations_ok_def new_server_def)



definition sample_tool :: "unit tool" where
  "sample_tool = \<lparr>t_name = ''echo'', t_description = [], t_schema = jobject [], t_title = None, t_output_schema = None,
     t_icons = [], t_task_support = Optional, t_annotations = None, t_meta = None, t_model_immediate_response = None,
     t_execute = (\<lambda>_ c _. ToolReturns (Inr (error_result ''no'')) c)\<rparr>"

definition two_registrations :: "unit server" where
  "two_registrations = foldl (register (\<lambda>_. Inl [])) (new_server (default_server_config ''1''))
     [RegTool sample_tool, RegTool sample_tool]"


section \<open>Listings\<close>

text \<open>
  A client that lists by following the cursors of the answers: the items of the pages, in order,
  as the JSON it got.
\<close>

definition list_request :: "string \<Rightarrow> string option \<Rightarrow> jsonrpc_request" where
  "list_request m cursor = \<lparr>rq_id = IdNumber 0, rq_method = m,
     rq_params = map_option (\<lambda>c. jobject [(''cursor'', JString c)]) cursor\<rparr>"

fun list_walk :: "(jsonrpc_request \<Rightarrow> json result run) \<Rightarrow> string \<Rightarrow> string \<Rightarrow> nat \<Rightarrow> string option \<Rightarrow> json list option" where
  "list_walk ask m key 0 cursor = None"
| "list_walk ask m key (Suc n) cursor =
     (case ask (list_request m cursor) of
        Finished (Inr v) \<Rightarrow>
          (case (json_get key v, json_get ''nextCursor'' v) of
             (Some (JArray items), None) \<Rightarrow> Some items
           | (Some (JArray items), Some (JString c)) \<Rightarrow> map_option (append items) (list_walk ask m key n (Some c))
           | _ \<Rightarrow> None)
      | _ \<Rightarrow> None)"

lemma cursor_params_sent:
  "parse_optional_params h cursor_params_of None (list_request m cursor) = Inr cursor"
  by (cases cursor) (simp_all add: parse_optional_params_def list_request_def cursor_params_of_def as_struct_def
      opt_of_def jobject_def)

text \<open>Such a walk over the answers is the walk over the items, page by page.\<close>

lemma list_walk_pages:
  assumes "\<And>cursor. ask (list_request m cursor) = page_result h page_size key f items cursor"
    and "key \<noteq> ''nextCursor''"
  shows "list_walk ask m key n cursor = map_option (map f \<circ> concat) (walk (h_encode h) (h_decode h) items page_size n cursor)"
proof (induction n arbitrary: cursor)
  case (Suc n)
  then show ?case
    using assms
    by (auto simp: page_result_def page_to_value_def jopt_def option.map_comp comp_def map_option_case
        split: sum.splits option.splits prod.splits)
qed simp

text \<open>The listing of the tools names them in order.\<close>

definition listed_name :: "json \<Rightarrow> string" where
  "listed_name v = (case json_get ''name'' v of Some (JString s) \<Rightarrow> s | _ \<Rightarrow> [])"

lemma listed_name_tool [simp]: "listed_name (wire_tool_to_value t) = wt_name t"
  by (auto simp: listed_name_def wire_tool_to_value_def jopt_def jlist_def opt_field_def map_add_Some_iff
      split: option.splits)

lemma sort_by_key:
  fixes f :: "'a \<Rightarrow> 'b::linorder"
  assumes "distinct (map f xs)"
  shows "map f (sort_by (\<lambda>a b. f a \<le> f b) xs) = sorted_list_of_set (f ` set xs)"
proof -
  let ?ys = "sort_by (\<lambda>a b. f a \<le> f b) xs"
  have "sorted_wrt (\<lambda>a b. f a \<le> f b) ?ys" by (rule sorted_sort_by) auto
  then have "sorted (map f ?ys)" by (simp add: sorted_wrt_map)
  moreover have "mset (map f ?ys) = mset (map f xs)" by simp
  ultimately show ?thesis
    using assms by (metis list.set_map mset_eq_imp_distinct_iff set_sort_by sorted_list_of_set.idem_if_sorted_distinct)
qed

text \<open>What a server answers to a request.\<close>

definition ask_server :: "host \<Rightarrow> 'c server \<Rightarrow> 'c \<Rightarrow> world \<Rightarrow> jsonrpc_request \<Rightarrow> json result run" where
  "ask_server h sv ctx w rq =
     (case dispatch_request h sv rq ctx w of Some (r, _) \<Rightarrow> r | None \<Rightarrow> Unwound [])"

definition tool_listing :: "'c server \<Rightarrow> wire_tool list" where
  "tool_listing sv = map (\<lambda>(_, e). let t = as_protocol_tool (en_tool e)
     in if sv_tasks sv = None then t\<lparr>wt_execution := None\<rparr> else t) (sv_tools sv)"

lemma tool_listing_names:
  assumes "registrations_ok sv"
  shows "map wt_name (tool_listing sv) = map fst (sv_tools sv)"
proof -
  have "\<forall>(n, e) \<in> set (sv_tools sv). t_name (en_tool e) = n"
    using assms by (auto simp: registrations_ok_def filed_def)
  then show ?thesis by (auto simp: tool_listing_def as_protocol_tool_def Let_def)
qed

lemma ask_tools_list:
  assumes "check_initialized sv ''tools/list'' = Inr ()"
  shows "ask_server h sv ctx w (list_request ''tools/list'' cursor) =
    page_result h (cfg_page_size (sv_config sv)) ''tools'' wire_tool_to_value
      (sort_by (\<lambda>a b. wt_name a \<le> wt_name b) (tool_listing sv)) cursor"
  using assms cursor_params_sent [of h "''tools/list''" cursor]
  by (simp add: ask_server_def dispatch_request_def handle_list_tools_def tool_listing_def Let_def list_request_def)

text \<open>
  C37: \<open>tools/list\<close> is complete. A client that starts without a cursor and follows the ones it is given
  stops, at most one request per tool later, with every registered tool listed exactly once, in the
  order of their names.
\<close>

theorem tools_list_complete:
  assumes "registrations_ok sv" and "check_initialized sv ''tools/list'' = Inr ()"
    and "\<And>s. h_decode h (h_encode h s) = Some s"
    and "length (sv_tools sv) + max (cfg_page_size (sv_config sv)) 1 \<le> u64_bound"
  shows "\<exists>items. list_walk (ask_server h sv ctx w) ''tools/list'' ''tools'' (Suc (length (sv_tools sv))) None = Some items \<and>
    map listed_name items = sorted_list_of_set (fst ` set (sv_tools sv))"
proof -
  let ?items = "sort_by (\<lambda>a b. wt_name a \<le> wt_name b) (tool_listing sv)"
  have names: "map wt_name (tool_listing sv) = map fst (sv_tools sv)" using assms(1) by (rule tool_listing_names)
  have len: "length ?items = length (sv_tools sv)" by (simp add: tool_listing_def)
  have "distinct (map wt_name (tool_listing sv))"
    using assms(1) names by (simp add: registrations_ok_def filed_def wf_table_def)
  then have sorted: "map wt_name ?items = sorted_list_of_set (fst ` set (sv_tools sv))"
    using sort_by_key [of wt_name "tool_listing sv"] arg_cong [OF names, of set] by simp
  have "\<exists>pages. walk (h_encode h) (h_decode h) ?items (cfg_page_size (sv_config sv)) (Suc (length ?items)) None =
      Some pages \<and> concat pages = ?items \<and> (\<forall>p \<in> set pages. length p \<le> max (cfg_page_size (sv_config sv)) 1)"
    by (rule walk_all) (use assms(3,4) len in simp_all)
  then obtain pages where "walk (h_encode h) (h_decode h) ?items (cfg_page_size (sv_config sv))
      (Suc (length (sv_tools sv))) None = Some pages" "concat pages = ?items"
    unfolding len by blast
  moreover have "list_walk (ask_server h sv ctx w) ''tools/list'' ''tools'' (Suc (length (sv_tools sv))) None =
      map_option (map wire_tool_to_value \<circ> concat)
        (walk (h_encode h) (h_decode h) ?items (cfg_page_size (sv_config sv)) (Suc (length (sv_tools sv))) None)"
    by (rule list_walk_pages) (simp_all add: ask_tools_list [OF assms(2)])
  ultimately show ?thesis using sorted by (simp add: comp_def del: walk.simps list_walk.simps)
qed

theorem tools_list_complete_witness:
  "\<exists>items. list_walk (ask_server sample_host two_registrations () sample_world) ''tools/list'' ''tools''
      (Suc (length (sv_tools two_registrations))) None = Some items \<and> map listed_name items = [''echo'']"
proof -
  have name: "is_valid_tool_name ''echo''" by code_simp
  have sv: "sv_tools two_registrations = [(''echo'', \<lparr>en_tool = sample_tool, en_input = None,
      en_output = new_output_check (\<lambda>_. Inl []) None\<rparr>)]"
    by (simp add: two_registrations_def add_tool_def sample_tool_def new_server_def name Let_def)
  have cfg: "sv_config two_registrations = default_server_config ''1''"
    by (simp add: two_registrations_def add_tool_def new_server_def Let_def)
  have "registrations_ok two_registrations"
    unfolding two_registrations_def by (rule registered_ok [OF new_server_ok])
  moreover have "check_initialized two_registrations ''tools/list'' = Inr ()"
    by (simp add: check_initialized_def cfg default_server_config_def)
  moreover have "h_decode sample_host (h_encode sample_host s) = Some s" for s by (simp add: sample_host_def)
  moreover have "length (sv_tools two_registrations) + max (cfg_page_size (sv_config two_registrations)) 1 \<le> u64_bound"
    by (simp add: sv cfg default_server_config_def DEFAULT_PAGE_SIZE_def)
  ultimately show ?thesis
    using tools_list_complete [of two_registrations sample_host "()" sample_world] by (simp add: sv)
qed

section \<open>How a tool's end becomes an answer\<close>

text \<open>
  The ending whose call in place answers what the task answers: any, but a panic is worded differently,
  and rejected arguments lack the words \<open>Invalid arguments:\<close> in front.
\<close>

fun as_task_end :: "'c tool_end \<Rightarrow> 'c tool_end" where
  "as_task_end (Panicked p c) = Returned (Inl (Internal (''task worker panicked: '' @ panic_message p))) c"
| "as_task_end (Returned (Inl (InvalidParams m)) c) = Returned (Inl (ToolError m)) c"
| "as_task_end ended = ended"

text \<open>
  Two answers that differ only in the tag of the task. Of results every member is the same but
  \<open>_meta\<close>, and there every one but the tag; of errors the code, the message, and of the data every
  member but the tag. A tag has its place in an object or in nothing; other data stay as they are.
\<close>

definition tagged_only :: "string \<Rightarrow> json option \<Rightarrow> json option \<Rightarrow> bool" where
  "tagged_only tid d d' \<longleftrightarrow>
     Option.bind d' (json_get RELATED_TASK) = Some (jobject [(''taskId'', JString tid)]) \<and>
     (\<forall>k. k \<noteq> RELATED_TASK \<longrightarrow> Option.bind d' (json_get k) = Option.bind d (json_get k))"

definition is_object :: "json \<Rightarrow> bool" where
  "is_object v \<longleftrightarrow> (case v of JObject _ \<Rightarrow> True | _ \<Rightarrow> False)"

definition same_but_tag :: "string \<Rightarrow> json result \<Rightarrow> json result \<Rightarrow> bool" where
  "same_but_tag tid a b \<longleftrightarrow>
     (case (a, b) of
        (Inr v, Inr v') \<Rightarrow> is_object v' \<and> (\<forall>k. k \<noteq> ''_meta'' \<longrightarrow> json_get k v' = json_get k v) \<and>
          tagged_only tid (json_get ''_meta'' v) (json_get ''_meta'' v')
      | (Inl e, Inl e') \<Rightarrow>
          let j = to_jsonrpc_error e; j' = to_jsonrpc_error e' in
          code j' = code j \<and> message j' = message j \<and>
          (if data j = None \<or> is_object (the (data j)) then tagged_only tid (data j) (data j') else data j' = data j)
      | _ \<Rightarrow> False)"

lemma call_tool_result_object: "\<exists>kvs. call_tool_result_to_value r = JObject kvs"
  by (simp add: call_tool_result_to_value_def jobject_def)

lemma value_same_but_tag: "v = JObject kvs \<Longrightarrow> same_but_tag tid (Inr v) (result_of_outcome tid (Value v))"
  by (auto simp: same_but_tag_def result_of_outcome_def tagged_only_def is_object_def related_task_meta_def
      table_simps jobject_def Let_def split: option.split json.split)

lemma error_same_but_tag: "same_but_tag tid (Inl e) (result_of_outcome tid (Error (to_jsonrpc_error e)))"
  by (auto simp: same_but_tag_def result_of_outcome_def with_related_task_data_def tagged_only_def is_object_def
      table_simps Let_def split: option.split json.split)

text \<open>
  C17: A tool called as a task answers what the call in place answers. For every way a tool can end,
  \<open>tasks/result\<close> gives the same result or error, with nothing added but the tag of the task; only a
  panic is worded differently and rejected arguments lack the words in front. The task is completed
  exactly if the call succeeded without an error flag.
\<close>

theorem task_result_matches_call:
  "same_but_tag tid (call_outcome name chk (as_task_end ended)) (result_of_outcome tid (snd (worker_outcome name chk ended))) \<and>
    (fst (worker_outcome name chk ended) = Completed \<longleftrightarrow>
       (\<exists>r c v. ended = Returned (Inr r) c \<and> \<not> cr_is_error r \<and> call_outcome name chk ended = Inr v))"
proof -
  have fine: "same_but_tag tid (Inr (call_tool_result_to_value r)) (result_of_outcome tid (Value (call_tool_result_to_value r)))" for r
    using call_tool_result_object [of r] value_same_but_tag by blast
  note outcome = call_outcome_def worker_outcome_def check_output_def error_result_def Let_def
  show ?thesis
  proof (cases ended)
    case (Panicked p c)
    with error_same_but_tag [of tid "Internal (''task worker panicked: '' @ panic_message p)"] show ?thesis
      by (simp add: outcome)
  next
    case (Returned q c)
    show ?thesis
    proof (cases q)
      case (Inr r)
      with Returned error_same_but_tag fine show ?thesis
        by (cases "check_output name chk r") (auto simp: outcome)
    next
      case (Inl e)
      with Returned error_same_but_tag [of tid e] fine [of "error_result _"] show ?thesis
        by (cases e) (simp_all add: outcome)
    qed
  qed
qed

text \<open>Rejected arguments do not come out the same: the call in place says what they are.\<close>

lemma rejected_arguments_differ:
  "call_outcome name output (Returned (Inl (InvalidParams m)) c) =
     Inr (call_tool_result_to_value (error_result (''Invalid arguments: '' @ m)))"
  "snd (worker_outcome name output (Returned (Inl (InvalidParams m)) c)) =
     Value (call_tool_result_to_value (error_result m))"
  by (simp_all add: call_outcome_def worker_outcome_def check_output_def error_result_def)

end
