(* ===== verification/Server_Progress.thy ===== *)
theory Server_Progress
  imports Server_Session
begin

text \<open>
  That the server gets somewhere: the loop of a server without tasks ends once the peer has hung up,
  whatever tools do in between, and a wait for a task's result on a transport that cannot be pumped
  ends by its deadline.
\<close>

section \<open>Work left\<close>

text \<open>
  What is still to come: every message on its way counts for its delay, since a read may time out
  before it arrives, and for being read and handled; a deferred one for being handled.
\<close>

definition pending :: "world \<Rightarrow> nat" where
  "pending w = sum_list (map (\<lambda>a. fst a + 2) (inbox (wire_link w))) + length (deferred (broker_of w))"

definition armed_ok :: "world \<Rightarrow> bool" where
  "armed_ok w \<longleftrightarrow> read_timeout_armed (wire_link w) \<noteq> Some 0"

definition advances :: "world \<Rightarrow> world \<Rightarrow> bool" where
  "advances w w' \<longleftrightarrow> (armed_ok w \<longrightarrow> armed_ok w') \<and> pending w' \<le> pending w"

definition takes :: "world \<Rightarrow> jsonrpc_message result \<Rightarrow> world \<Rightarrow> bool" where
  "takes w r w' \<longleftrightarrow> (armed_ok w \<longrightarrow> armed_ok w') \<and>
     pending w' + (case r of Inr _ \<Rightarrow> 2 | Inl _ \<Rightarrow> 0) \<le> pending w"

lemma advances_surface: "surface w' = surface w \<Longrightarrow> advances w w'"
  by (simp add: surface_def advances_def armed_ok_def pending_def)

lemma advances_other: "modest_step x \<Longrightarrow> advances w (other_step w x)"
proof (cases x)
  case (OtherBroker op)
  moreover assume "modest_step x"
  ultimately have "unobtrusive (OtherBroker op)" by (cases op) auto
  then show ?thesis using OtherBroker deferred_unobtrusive by (simp add: advances_def armed_ok_def pending_def)
qed (simp_all add: advances_def armed_ok_def pending_def)

lemma advances_world_write: "advances w (snd (world_write m w))"
  by (auto simp: advances_def armed_ok_def pending_def world_write_def link_write_def
      split: if_splits list.splits option.splits)

lemma advances_arm:
  "t \<noteq> Some 0 \<Longrightarrow> set_read_timeout t (wire_link w) = (a, l) \<Longrightarrow> advances w (w\<lparr>wire_link := l\<rparr>)"
  by (auto simp: set_read_timeout_def advances_def armed_ok_def pending_def
      split: if_splits list.splits option.splits)

lemma takes_link_read: "link_read (wire_link w) = (r, l) \<Longrightarrow> takes w r (w\<lparr>wire_link := l\<rparr>)"
  by (auto simp: link_read_def takes_def armed_ok_def pending_def
      split: if_splits list.splits option.splits prod.splits sum.splits)

lemma takes_shed: "takes w (Inr m) w' \<Longrightarrow> advances w (shed_or_defer env m w')"
  using advances_world_write [of w']
  by (auto simp: takes_def advances_def shed_or_defer_def defer_message_def armed_ok_def pending_def
      split: if_splits option.splits)

interpretation forward: steady advances takes
proof
  fix w r l
  show "link_read (wire_link w) = (r, l) \<Longrightarrow> takes w r (w\<lparr>wire_link := l\<rparr>)" by (rule takes_link_read)
next
  fix w m w' and env :: tool_env
  show "takes w (Inr m) w' \<Longrightarrow> te_transport env \<Longrightarrow> advances w (shed_or_defer env m w')" by (rule takes_shed)
qed (use advances_surface advances_other advances_world_write advances_arm
    in \<open>auto simp: advances_def takes_def split: sum.splits\<close>)

section \<open>The loop ends\<close>

text \<open>Without tasks every handler returns.\<close>

lemma send_request_direct: "te_mode env = Direct \<Longrightarrow> \<exists>x. send_request sd sched polls env m params timeout w = Some x"
  by (auto simp: send_request_def Let_def split: option.splits prod.splits sum.splits)

lemma run_tool_direct: "te_mode env = Direct \<Longrightarrow> \<exists>x. run_tool a env t w = Some x"
proof (induction t arbitrary: w)
  case (Ask m params timeout k)
  then obtain r u where "send_request (amb_duration a) (amb_sched a) (amb_polls a) env m params timeout
      (pause (amb_sched a) w) = Some (r, u)" using send_request_direct [of env] by (metis surj_pair)
  with Ask show ?case by simp
next
  case (Notify m params k)
  then show ?case by (auto split: prod.splits)
qed (auto simp: Let_def)

lemma call_tool_returns:
  assumes "sv_tasks sv = None"
  shows "\<exists>x. handle_call_tool h sv rq ctx w = Some x"
proof -
  have "\<exists>x. run_tool (ambient_of h) (tool_env_with sv token) t w = Some x" for token and t :: "'a tool_run"
    by (rule run_tool_direct) (simp add: tool_env_with_def)
  with assms show ?thesis
    by (fastforce simp: handle_call_tool_def Let_def split: sum.splits call_plan.splits prod.splits)
qed

lemma handle_task_result_unsupported:
  "sv_tasks sv = None \<Longrightarrow> handle_task_result h sv rq w = Some (Finished (Inl TASKS_UNSUPPORTED), sv, w)"
  by (simp add: handle_task_result_def task_store_or_unsupported_def)

lemma if_Some_None: "((if P then Some a else b) = None) = (\<not> P \<and> b = None)"
  by simp

lemma dispatch_returns:
  assumes "sv_tasks sv = None"
  shows "dispatch_request h sv rq ctx w \<noteq> None"
proof -
  obtain x where "handle_call_tool h sv rq ctx w = Some x" using call_tool_returns [OF assms] by blast
  then show ?thesis
    using handle_task_result_unsupported [OF assms, of h rq w]
    by (cases "check_initialized sv (rq_method rq)")
       (simp_all add: dispatch_request_def Let_def split_beta if_Some_None cong: if_cong)
qed

lemma loop_handle_returns:
  assumes "sv_tasks sv = None"
  shows "loop_handle h sv m ctx w \<noteq> None"
proof -
  have "handle_message h sv m ctx w \<noteq> None"
    using dispatch_returns [OF assms] by (cases m) (simp_all add: handle_message_def handle_request_def del: not_None_eq)
  then show ?thesis by (auto simp: loop_handle_def split: run.splits option.splits prod.splits sum.splits)
qed

text \<open>Handling a message leaves no more to do than there was, and every turn does something.\<close>

lemma advances_write_message: "write_message m sv w = (r, sv', w') \<Longrightarrow> advances w w'"
  using advances_world_write [of w m]
  by (auto simp: write_message_def world_write_def split: if_splits prod.splits)

lemma advances_dispatch:
  assumes "dispatch_request h sv rq ctx w = Some (r, sv', ctx', w')" and "sv_tasks sv = None" and "modest (amb_sched h)"
  shows "advances w w'"
  using assms(1)
proof (cases rule: forward.dispatch_cases)
  case (called q)
  show ?thesis using forward.keeps_handle_call_tool [OF called(3) assms(3)] by simp
next
  case awaited
  with assms(2) show ?thesis by (simp add: handle_task_result_unsupported)
qed simp_all

lemma advances_handle_message:
  assumes "handle_message h sv m ctx w = Some (a, sv', ctx', w')" and "sv_tasks sv = None" and "modest (amb_sched h)"
  shows "advances w w'"
proof (cases m)
  case (Request rq)
  with assms advances_dispatch [OF _ assms(2,3)] show ?thesis
    by (auto simp: handle_message_def handle_request_def)
next
  case (Notification n)
  have "advances w (handle_notification n w)"
    by (auto simp: handle_notification_def broker_cancel_def intro: forward.keeps_broker split: option.splits)
  with Notification assms(1) show ?thesis by (auto simp: handle_message_def)
next
  case (Response r)
  with assms(1) show ?thesis by (auto simp: handle_message_def intro: forward.keeps_broker)
qed

lemma advances_loop_handle:
  assumes "loop_handle h sv m ctx w = Some (t, sv', ctx', w')" and "sv_tasks sv = None" and "modest (amb_sched h)"
  shows "advances w w'"
proof -
  obtain a sv1 ctx1 w1 where a: "handle_message h sv m ctx w = Some (a, sv1, ctx1, w1)"
    using assms(1) by (auto simp: loop_handle_def split: option.splits)
  note handled = advances_handle_message [OF a assms(2,3)]
  show ?thesis
    using assms(1) a handled forward.keeps_trans [OF handled advances_write_message]
    by (auto simp: loop_handle_def split: run.splits option.splits prod.splits sum.splits)
qed

lemma link_read_works:
  assumes "link_read l = (r, l')" and "read_timeout_armed l \<noteq> Some 0" and "r \<noteq> Inl TransportClosed"
  shows "sum_list (map (\<lambda>a. fst a + 2) (inbox l')) < sum_list (map (\<lambda>a. fst a + 2) (inbox l)) \<and>
    read_timeout_armed l' = read_timeout_armed l"
  using assms by (auto simp: link_read_def split: list.splits option.splits prod.splits if_splits)

lemma loop_read_works:
  assumes "loop_read w = (r, w1)"
  shows "(\<exists>e. r = Inl e \<and> (e = TransportClosed \<or> e = LOCK_POISONED)) \<or>
    (armed_ok w \<longrightarrow> armed_ok w1 \<and> pending w1 < pending w)"
  using assms link_read_works [of "wire_link w"]
  by (fastforce simp: loop_read_def armed_ok_def pending_def split: if_splits prod.splits)

lemma loop_turn_works:
  assumes "loop_turn h sv ctx w = Some (NextTurn, sv', ctx', w')" and "sv_tasks sv = None" and "modest (amb_sched h)"
    and "armed_ok w"
  shows "armed_ok w' \<and> pending w' < pending w"
proof -
  let ?w = "pause (amb_sched h) w"
  have w: "advances w ?w" using assms(3) by (rule forward.keeps_pause)
  obtain d b where d: "next_deferred (broker_of ?w) = (d, b)" by fastforce
  note turn = assms(1) [unfolded loop_turn_def Let_def d prod.case]
  show ?thesis
  proof (cases d)
    case (Some m)
    then have "advances (?w\<lparr>broker_of := b\<rparr>) w'" using turn advances_loop_handle [OF _ assms(2,3)] by simp
    moreover have "pending (?w\<lparr>broker_of := b\<rparr>) < pending ?w" "armed_ok (?w\<lparr>broker_of := b\<rparr>) = armed_ok ?w"
      using d Some by (auto simp: next_deferred_def pending_def armed_ok_def split: list.splits)
    ultimately show ?thesis using w assms(4) by (auto simp: advances_def)
  next
    case None
    obtain r w1 where r: "loop_read ?w = (r, w1)" by fastforce
    show ?thesis
    proof (cases "\<exists>e. r = Inl e \<and> (e = TransportClosed \<or> e = LOCK_POISONED)")
      case True
      with turn None r show ?thesis by (auto simp: LOCK_POISONED_def)
    next
      case False
      with loop_read_works [OF r] have w1: "armed_ok ?w \<longrightarrow> armed_ok w1 \<and> pending w1 < pending ?w" by blast
      have "advances w1 w'"
        using turn None r advances_loop_handle [OF _ assms(2,3)] advances_write_message
        by (auto split: sum.splits mcp_error.splits if_splits prod.splits)
      with w w1 assms(4) show ?thesis by (auto simp: advances_def)
    qed
  qed
qed

lemma loop_turn_returns: "sv_tasks sv = None \<Longrightarrow> loop_turn h sv ctx w \<noteq> None"
  using loop_handle_returns [of sv h]
  by (auto simp: loop_turn_def Let_def simp del: not_None_eq
      split: prod.splits option.splits sum.splits mcp_error.splits)

lemma loop_turn_tasks: "loop_turn h sv ctx w = Some (t, sv', ctx', w') \<Longrightarrow> sv_tasks sv' = sv_tasks sv"
  using follows_loop_turn [of h sv ctx w t sv' ctx' w'] static_fields(8) [of sv' sv] by (simp add: follows_def)

lemma server_loop_returns:
  assumes "modest (amb_sched h)"
  shows "sv_tasks sv = None \<Longrightarrow> armed_ok w \<Longrightarrow> pending w < n \<Longrightarrow> server_loop h n sv ctx w \<noteq> None"
proof (induction n arbitrary: sv ctx w)
  case (Suc n)
  obtain t sv1 ctx1 w1 where t: "loop_turn h sv ctx w = Some (t, sv1, ctx1, w1)"
    using loop_turn_returns [OF Suc.prems(1), of h ctx w] by auto
  show ?case
  proof (cases t)
    case NextTurn
    note works = loop_turn_works [OF t [unfolded NextTurn] Suc.prems(1) assms Suc.prems(2)]
    have "server_loop h n sv1 ctx1 w1 \<noteq> None"
      by (rule Suc.IH) (use works loop_turn_tasks [OF t] Suc.prems in auto)
    with t NextTurn show ?thesis by simp
  qed (use t in simp)
qed simp

lemma start_returns:
  assumes "sv_tasks sv = None" and "modest (amb_sched h)" and "armed_ok w" and "pending w < turns"
  shows "\<exists>r sv' ctx' w'. start h turns splits sv ctx w = Some (r, sv', ctx', w')"
proof -
  obtain a l where arm: "set_read_timeout None (wire_link w) = (a, l)" by fastforce
  have "advances w (w\<lparr>wire_link := l\<rparr>)" by (rule advances_arm [OF _ arm]) simp
  with assms(3,4) have "armed_ok (w\<lparr>wire_link := l\<rparr>)" "pending (w\<lparr>wire_link := l\<rparr>) < turns"
    by (auto simp: advances_def)
  then have "server_loop h turns (sv\<lparr>sv_transport := True, sv_can_pump := p\<rparr>) ctx (w\<lparr>wire_link := l\<rparr>) \<noteq> None" for p
    by (intro server_loop_returns [OF assms(2)]) (simp_all add: assms(1))
  then have "start h turns splits sv ctx w \<noteq> None" using arm by (simp add: start_def Let_def del: not_None_eq)
  then show ?thesis by auto
qed

text \<open>
  C22: A server without tasks comes to an end. For a finite stream of messages, whatever the tools it
  calls ask of the client meanwhile, whatever fails and whatever other threads do, the loop
  returns after at most as many turns as there is work: it never spins and no wait holds it forever.
\<close>

theorem server_loop_ends:
  assumes "sv_tasks sv = None" and "modest (amb_sched h)" and "read_timeout_armed (wire_link w) \<noteq> Some 0"
    and "pending w < turns"
  shows "\<exists>r sv' ctx' w'. start h turns splits sv ctx w = Some (r, sv', ctx', w')"
  using start_returns [OF assms(1,2)] assms(3,4) by (simp add: armed_ok_def)

theorem server_loop_ends_witness:
  "\<exists>r sv' ctx' w'. start sample_host 8 True sample_server () sample_world = Some (r, sv', ctx', w')"
  by (rule server_loop_ends)
     (simp_all add: sample_server_def new_server_def sample_host_def modest_def sample_world_def sample_link_def
       pending_def new_broker_def)

section \<open>Waiting for a task's result\<close>

text \<open>Each look either ends the wait or is followed by a sleep of a millisecond at least.\<close>

lemma await_store_in_time:
  "at \<le> now_of w + n \<Longrightarrow>
     \<exists>r w'. await_store h tid req (Some at) (Suc n) w = Some (r, w') \<and> now_of w' \<le> max (now_of w) at"
proof (induction n arbitrary: w)
  case 0
  then show ?case by (auto split: prod.splits sum.splits option.splits)
next
  case (Suc n)
  obtain t s where t: "try_result (store_of w) (wall w) tid req = (t, s)" by fastforce
  show ?case
  proof (cases "t = Inr None \<and> now_of w < at")
    case False
    with t show ?thesis by (auto split: sum.splits option.splits)
  next
    case True
    let ?nap = "min (max 1 (h_nap h (turn_of w))) (at - now_of w)"
    let ?w = "pause (amb_sched h) (w\<lparr>store_of := s, wire_link := (wire_link w)\<lparr>clock := now_of w + ?nap\<rparr>\<rparr>)"
    have nap: "1 \<le> ?nap" "now_of ?w = now_of w + ?nap" using True by auto
    with Suc.prems have "at \<le> now_of ?w + n" by linarith
    from Suc.IH [OF this] obtain r w' where
      "await_store h tid req (Some at) (Suc n) ?w = Some (r, w')" "now_of w' \<le> max (now_of ?w) at" by blast
    moreover have "await_store h tid req (Some at) (Suc (Suc n)) w = await_store h tid req (Some at) (Suc n) ?w"
      using True t by (subst await_store.simps) (simp add: Let_def del: await_store.simps)
    ultimately show ?thesis using True nap(2) by auto
  qed
qed

text \<open>
  Where the transport cannot be pumped, as over HTTP, \<open>tasks/result\<close> does not hold its request
  longer than the configured patience: the wait returns, with the task's outcome, an error, or the
  advice to come back, and no later than the timeout after it began, whatever the task and other
  threads do.
\<close>

theorem task_result_in_time:
  assumes "\<not> (sv_transport sv \<and> sv_can_pump sv)" and "cfg_task_result_timeout (sv_config sv) = Some t"
    and "t < amb_polls h"
  shows "\<exists>r sv' w'. handle_task_result h sv rq w = Some (r, sv', w') \<and> now_of w' \<le> now_of w + t"
proof (cases "and_then (task_store_or_unsupported sv) (\<lambda>_. parse_params h task_id_params_of rq)")
  case (Inl e)
  then show ?thesis by (simp add: handle_task_result_def)
next
  case (Inr tid)
  obtain n where n: "amb_polls h = Suc n" "t \<le> n" using assms(3) by (cases "amb_polls h") auto
  obtain r w' where "await_store h tid (requestor sv) (Some (now_of w + t)) (amb_polls h) w = Some (r, w')"
    "now_of w' \<le> now_of w + t"
    using await_store_in_time [of "now_of w + t" w n h tid "requestor sv"] n by auto
  with Inr assms(1,2) show ?thesis by (auto simp: handle_task_result_def await_task_def)
qed

definition tasks_server :: "unit server" where
  "tasks_server = (new_server ((default_server_config ''1'')\<lparr>cfg_task_result_timeout := Some 4\<rparr>))
     \<lparr>sv_tasks := Some (\<lambda>_. ())\<rparr>"

theorem task_result_in_time_witness:
  "\<exists>r sv' w'. handle_task_result sample_host tasks_server
     \<lparr>rq_id = IdNumber 1, rq_method = ''tasks/result'', rq_params = Some (jobject [(''taskId'', JString ''x'')])\<rparr>
     sample_world = Some (r, sv', w') \<and> now_of w' \<le> 4"
  using task_result_in_time [of tasks_server 4 sample_host
      "\<lparr>rq_id = IdNumber 1, rq_method = ''tasks/result'', rq_params = Some (jobject [(''taskId'', JString ''x'')])\<rparr>"
      sample_world]
  by (simp add: tasks_server_def new_server_def sample_host_def)

end
