(* ===== verification/Auth.thy ===== *)
theory Auth
  imports Prelude
begin

text \<open>
  Authentication (\<open>auth/jwt.rs\<close>, \<open>auth/resource.rs\<close>): the claims of a token, what makes a validator
  accept one, the canonical URI of a protected resource, where its metadata is published, and the
  challenges that lead a client there. Decoding a token and checking its signature is a library's
  and a parameter here: it gives the claims, or an error with its kind and its wording.
\<close>

section \<open>Claims\<close>

definition IDENTITY_SEPARATOR :: char where "IDENTITY_SEPARATOR = CHR 0x01"

datatype error_kind =
    InvalidToken | InvalidSignature | ExpiredSignature | ImmatureSignature | BadIssuer | BadAudience
  | InvalidSubject | MissingRequiredClaim | InvalidAlgorithm | InvalidAlgorithmName | Base64 | Utf8 | JsonKind
  | OtherKind

datatype jwt_error =
    MissingHeader | InvalidFormat | ValidationFailed error_kind string | Expired | InvalidIssuer
  | InvalidAudience | MalformedClaim

fun show_jwt_error :: "jwt_error \<Rightarrow> string" where
  "show_jwt_error MissingHeader = ''Missing Authorization header''"
| "show_jwt_error InvalidFormat = ''Invalid Authorization header format (expected 'Bearer <token>')''"
| "show_jwt_error (ValidationFailed k s) = ''Token validation failed: '' @ s"
| "show_jwt_error Expired = ''Token expired''"
| "show_jwt_error InvalidIssuer = ''Invalid issuer''"
| "show_jwt_error InvalidAudience = ''Invalid audience''"
| "show_jwt_error MalformedClaim = ''A claim contains a character that cannot appear in one''"

fun kind_summary :: "error_kind \<Rightarrow> string" where
  "kind_summary InvalidToken = ''malformed token''"
| "kind_summary InvalidSignature = ''invalid signature''"
| "kind_summary ExpiredSignature = ''expired''"
| "kind_summary ImmatureSignature = ''not valid yet''"
| "kind_summary BadIssuer = ''bad issuer''"
| "kind_summary BadAudience = ''bad audience''"
| "kind_summary InvalidSubject = ''bad subject''"
| "kind_summary MissingRequiredClaim = ''a required claim is missing''"
| "kind_summary InvalidAlgorithm = ''unacceptable algorithm''"
| "kind_summary InvalidAlgorithmName = ''unacceptable algorithm''"
| "kind_summary Base64 = ''malformed token''"
| "kind_summary Utf8 = ''malformed token''"
| "kind_summary JsonKind = ''malformed token''"
| "kind_summary OtherKind = ''the validator could not run''"

fun summary :: "jwt_error \<Rightarrow> string" where
  "summary MissingHeader = ''missing header''"
| "summary InvalidFormat = ''malformed header''"
| "summary Expired = ''expired''"
| "summary InvalidIssuer = ''bad issuer''"
| "summary InvalidAudience = ''bad audience''"
| "summary MalformedClaim = ''a claim this server cannot use''"
| "summary (ValidationFailed k s) = kind_summary k"

datatype audience = One string | Many "string list"

fun audience_values :: "audience \<Rightarrow> string list" where
  "audience_values (One v) = [v]"
| "audience_values (Many vs) = vs"

definition audience_contains :: "audience \<Rightarrow> string \<Rightarrow> bool" where
  "audience_contains a r = list_ex (\<lambda>v. v = r) (audience_values a)"

record claims =
  sub :: string
  exp :: nat
  iat :: nat
  iss :: "string option"
  aud :: "audience option"
  tenant :: "string option"
  scope :: "string option"

text \<open>\<open>str::split_whitespace\<close>; every step takes a byte at least, so the length is fuel enough.\<close>

fun split_words :: "nat \<Rightarrow> string \<Rightarrow> string \<Rightarrow> string list" where
  "split_words 0 acc s = (if acc = [] then [] else [rev acc])"
| "split_words (Suc n) acc s =
     (case strip_any whitespace_encodings s of
        Some r \<Rightarrow> (if acc = [] then [] else [rev acc]) @ split_words n [] r
      | None \<Rightarrow>
          (case s of
             [] \<Rightarrow> if acc = [] then [] else [rev acc]
           | c # cs \<Rightarrow> split_words n (c # acc) cs))"

definition split_whitespace :: "string \<Rightarrow> string list" where
  "split_whitespace s = split_words (length s) [] s"

definition audiences :: "claims \<Rightarrow> string list" where
  "audiences c = (case aud c of None \<Rightarrow> [] | Some a \<Rightarrow> audience_values a)"

definition scopes :: "claims \<Rightarrow> string list" where
  "scopes c = (case scope c of None \<Rightarrow> [] | Some s \<Rightarrow> split_whitespace s)"

definition has_scope :: "claims \<Rightarrow> string \<Rightarrow> bool" where
  "has_scope c s = (case scope c of None \<Rightarrow> False | Some t \<Rightarrow> list_ex (\<lambda>x. x = s) (split_whitespace t))"

definition missing_scopes :: "claims \<Rightarrow> string list \<Rightarrow> string list" where
  "missing_scopes c required = filter (\<lambda>s. \<not> has_scope c s) required"

definition user_id :: "claims \<Rightarrow> string" where
  "user_id c = sub c"

definition tenant_id :: "claims \<Rightarrow> string" where
  "tenant_id c = (case tenant c of None \<Rightarrow> sub c | Some t \<Rightarrow> t)"

section \<open>Resource URIs\<close>

text \<open>\<open>str::find\<close> of a byte, as the text before it and from it on.\<close>

fun cut_at :: "char \<Rightarrow> string \<Rightarrow> string \<times> string" where
  "cut_at d [] = ([], [])"
| "cut_at d (c # cs) = (if c = d then ([], c # cs) else (case cut_at d cs of (l, r) \<Rightarrow> (c # l, r)))"

datatype resource_uri = ResourceUri string

fun uri_text :: "resource_uri \<Rightarrow> string" where
  "uri_text (ResourceUri s) = s"

definition parse_resource_uri :: "string \<Rightarrow> string + resource_uri" where
  "parse_resource_uri t =
     (let uri = trim t in
      if uri = [] then Inl ''resource URI must not be empty''
      else if CHR ''#'' \<in> set uri then Inl (''resource URI must not contain a fragment: '' @ uri)
      else if CHR ''?'' \<in> set uri
      then Inl (''resource URI must not contain a query string, which would leave its metadata document unreachable: '' @ uri)
      else case split_once ''://'' uri of
        None \<Rightarrow> Inl (''resource URI must include a scheme: '' @ uri)
      | Some (scheme, rest) \<Rightarrow>
          if scheme = [] \<or> \<not> is_ascii_alphabetic (hd scheme)
          then Inl (''resource URI has an invalid scheme: '' @ uri)
          else if rest = [] then Inl (''resource URI has no host: '' @ uri)
          else
            let (authority, path) = cut_at (CHR ''/'') rest in
            if authority = [] then Inl (''resource URI has no host: '' @ uri)
            else
              let path = (case strip_suffix ''/'' path of None \<Rightarrow> path | Some p \<Rightarrow> p)
              in Inr (ResourceUri (to_ascii_lowercase scheme @ ''://'' @ to_ascii_lowercase authority @ path)))"

text \<open>\<open>find("://")\<close> and what follows it: the origin ends at the next slash, where the path begins.\<close>

definition uri_parts :: "resource_uri \<Rightarrow> string \<times> string" where
  "uri_parts u =
     (case split_once ''://'' (uri_text u) of
        None \<Rightarrow> cut_at (CHR ''/'') (uri_text u)
      | Some (scheme, rest) \<Rightarrow> (case cut_at (CHR ''/'') rest of (authority, path) \<Rightarrow> (scheme @ ''://'' @ authority, path)))"

definition origin :: "resource_uri \<Rightarrow> string" where
  "origin u = fst (uri_parts u)"

definition uri_path :: "resource_uri \<Rightarrow> string" where
  "uri_path u = snd (uri_parts u)"

definition WELL_KNOWN :: string where
  "WELL_KNOWN = ''/.well-known/oauth-protected-resource''"

definition metadata_url :: "resource_uri \<Rightarrow> string" where
  "metadata_url u = origin u @ WELL_KNOWN @ uri_path u"

definition metadata_path :: "resource_uri \<Rightarrow> string" where
  "metadata_path u = WELL_KNOWN @ uri_path u"

definition is_for_resource :: "claims \<Rightarrow> resource_uri \<Rightarrow> bool" where
  "is_for_resource c u = (case aud c of None \<Rightarrow> False | Some a \<Rightarrow> audience_contains a (uri_text u))"

record protected_resource_metadata =
  pr_resource :: string
  pr_authorization_servers :: "string list"
  pr_scopes_supported :: "string list"
  pr_bearer_methods_supported :: "string list"
  pr_resource_name :: "string option"
  pr_resource_documentation :: "string option"

definition new_metadata :: "resource_uri \<Rightarrow> string list \<Rightarrow> protected_resource_metadata" where
  "new_metadata u servers = \<lparr>pr_resource = uri_text u, pr_authorization_servers = servers, pr_scopes_supported = [],
     pr_bearer_methods_supported = [''header''], pr_resource_name = None, pr_resource_documentation = None\<rparr>"

definition with_scopes :: "string list \<Rightarrow> protected_resource_metadata \<Rightarrow> protected_resource_metadata" where
  "with_scopes ss m = m\<lparr>pr_scopes_supported := ss\<rparr>"

definition metadata_resource_uri :: "protected_resource_metadata \<Rightarrow> string + resource_uri" where
  "metadata_resource_uri m = parse_resource_uri (pr_resource m)"

section \<open>Challenges\<close>

definition escape :: "string \<Rightarrow> string" where
  "escape v = concat (map (\<lambda>c. if c = CHR 0x5C then [CHR 0x5C, CHR 0x5C] else if c = CHR 0x22 then [CHR 0x5C, CHR 0x22] else [c]) v)"

definition quoted :: "string \<Rightarrow> string" where
  "quoted v = [CHR 0x22] @ escape v @ [CHR 0x22]"

definition unauthorized_challenge :: "string \<Rightarrow> string list \<Rightarrow> string" where
  "unauthorized_challenge url ss = ''Bearer resource_metadata='' @ quoted url @
     (if ss = [] then [] else '', scope='' @ quoted (join '' '' ss))"

definition insufficient_scope_challenge :: "string \<Rightarrow> string list \<Rightarrow> string option \<Rightarrow> string" where
  "insufficient_scope_challenge url required description =
     ''Bearer error='' @ quoted ''insufficient_scope'' @ '', scope='' @ quoted (join '' '' required) @
       '', resource_metadata='' @ quoted url @
     (case description of None \<Rightarrow> [] | Some d \<Rightarrow> '', error_description='' @ quoted d)"

section \<open>Validation\<close>

text \<open>A validator: the key and the checks on the token are in \<open>decode\<close>; here is what it adds.\<close>

record jwt_validator =
  decode :: "string \<Rightarrow> (error_kind \<times> string) + claims"
  v_resource :: "resource_uri option"
  v_audiences :: "string list"

definition new_validator :: "(string \<Rightarrow> (error_kind \<times> string) + claims) \<Rightarrow> jwt_validator" where
  "new_validator d = \<lparr>decode = d, v_resource = None, v_audiences = []\<rparr>"

definition with_audience :: "string \<Rightarrow> jwt_validator \<Rightarrow> jwt_validator" where
  "with_audience a v = v\<lparr>v_audiences := v_audiences v @ [a]\<rparr>"

definition for_resource :: "resource_uri \<Rightarrow> jwt_validator \<Rightarrow> jwt_validator" where
  "for_resource u v = v\<lparr>v_audiences := v_audiences v @ [uri_text u], v_resource := Some u\<rparr>"

definition binds_audience :: "jwt_validator \<Rightarrow> bool" where
  "binds_audience v \<longleftrightarrow> v_audiences v \<noteq> []"

definition extract_token :: "string \<Rightarrow> jwt_error + string" where
  "extract_token header =
     (case split_once '' '' header of
        None \<Rightarrow> Inl InvalidFormat
      | Some (scheme, token) \<Rightarrow>
          if \<not> eq_ignore_ascii_case scheme ''bearer'' then Inl InvalidFormat
          else let token = trim_start token in if token = [] then Inl InvalidFormat else Inr token)"

definition validate_token :: "jwt_validator \<Rightarrow> string \<Rightarrow> jwt_error + claims" where
  "validate_token v token =
     (case decode v token of
        Inl (k, s) \<Rightarrow> Inl (ValidationFailed k s)
      | Inr c \<Rightarrow>
          if IDENTITY_SEPARATOR \<in> set (sub c) \<or>
             (case tenant c of None \<Rightarrow> False | Some t \<Rightarrow> IDENTITY_SEPARATOR \<in> set t)
          then Inl MalformedClaim
          else if v_audiences v \<noteq> [] \<and>
             \<not> (case aud c of None \<Rightarrow> False | Some a \<Rightarrow> list_ex (audience_contains a) (v_audiences v))
          then Inl InvalidAudience
          else Inr c)"

definition validate_header :: "jwt_validator \<Rightarrow> string \<Rightarrow> jwt_error + claims" where
  "validate_header v header = and_then (extract_token header) (validate_token v)"

text \<open>Who a request belongs to (\<open>owner_of\<close> in \<open>transport/http.rs\<close>).\<close>

definition owner_of :: "claims \<Rightarrow> string" where
  "owner_of c = user_id c @ [IDENTITY_SEPARATOR] @ tenant_id c"


section \<open>What validation promises\<close>

lemma validate_token_Inr:
  assumes "validate_token v token = Inr c"
  shows "decode v token = Inr c" "IDENTITY_SEPARATOR \<notin> set (user_id c)" "IDENTITY_SEPARATOR \<notin> set (tenant_id c)"
    "v_audiences v = [] \<or> (\<exists>a \<in> set (audiences c). a \<in> set (v_audiences v))"
  using assms
  by (auto simp: validate_token_def user_id_def tenant_id_def audiences_def audience_contains_def list_ex_iff
      split: sum.splits if_splits option.splits)

text \<open>
  C15: A request is let in only on a token meant for this server: when a validator bound to an audience
  accepts an \<open>Authorization\<close> header, the header is a bearer token that decoded, the token names one of
  the validator's audiences, and neither the user nor the tenant contains the character their
  composition is separated by.
\<close>

theorem accepted_token_is_ours:
  assumes "validate_header v header = Inr c" and "binds_audience v"
  shows "\<exists>scheme rest. header = scheme @ '' '' @ rest \<and> eq_ignore_ascii_case scheme ''bearer'' \<and>
    decode v (trim_start rest) = Inr c \<and> (\<exists>a \<in> set (audiences c). a \<in> set (v_audiences v)) \<and>
    IDENTITY_SEPARATOR \<notin> set (user_id c) \<and> IDENTITY_SEPARATOR \<notin> set (tenant_id c)"
proof -
  obtain token where token: "extract_token header = Inr token" "validate_token v token = Inr c"
    using assms(1) by (auto simp: validate_header_def and_then_Inr_iff)
  then obtain scheme rest where "split_once '' '' header = Some (scheme, rest)" "eq_ignore_ascii_case scheme ''bearer''"
    "token = trim_start rest"
    by (auto simp: extract_token_def Let_def split: option.splits if_splits)
  then show ?thesis
    using validate_token_Inr [OF token(2)] assms(2) split_once_Some by (fastforce simp: binds_audience_def)
qed

definition sample_claims :: claims where
  "sample_claims = \<lparr>sub = ''u'', exp = 0, iat = 0, iss = None, aud = Some (One ''https://h''), tenant = None, scope = None\<rparr>"

definition sample_validator :: jwt_validator where
  "sample_validator = with_audience ''https://h'' (new_validator (\<lambda>_. Inr sample_claims))"

theorem accepted_token_is_ours_witness:
  "validate_header sample_validator ''Bearer x'' = Inr sample_claims \<and>
   (\<exists>a \<in> set (audiences sample_claims). a \<in> set (v_audiences sample_validator))"
proof -
  have ok: "validate_header sample_validator ''Bearer x'' = Inr sample_claims" by code_simp
  have "binds_audience sample_validator" by code_simp
  from accepted_token_is_ours [OF ok this] ok show ?thesis by blast
qed

text \<open>Two requests belong to the same owner only when user and tenant are the same.\<close>

lemma separated_inject:
  assumes "a @ [x] @ b = c @ [x] @ d" and "x \<notin> set a" and "x \<notin> set c"
  shows "a = c \<and> b = d"
  using assms split_once_append [of "[x]" a b] split_once_append [of "[x]" c d] by simp

lemma owner_of_inject:
  assumes "validate_token v s = Inr c" and "validate_token v' t = Inr d" and "owner_of c = owner_of d"
  shows "user_id c = user_id d \<and> tenant_id c = tenant_id d"
  by (rule separated_inject [OF assms(3) [unfolded owner_of_def]])
     (rule validate_token_Inr(2) [OF assms(1)], rule validate_token_Inr(2) [OF assms(2)])

text \<open>
  How a client reads a quoted string: up to the next quote, a backslash standing for the character
  after it.
\<close>

fun read_quoted_tail :: "string \<Rightarrow> (string \<times> string) option" where
  "read_quoted_tail [] = None"
| "read_quoted_tail (c # cs) =
     (if c = CHR 0x22 then Some ([], cs)
      else if c = CHR 0x5C then (case cs of [] \<Rightarrow> None | d # ds \<Rightarrow> map_option (\<lambda>(v, r). (d # v, r)) (read_quoted_tail ds))
      else map_option (\<lambda>(v, r). (c # v, r)) (read_quoted_tail cs))"

definition read_quoted :: "string \<Rightarrow> (string \<times> string) option" where
  "read_quoted s = (case s of c # cs \<Rightarrow> if c = CHR 0x22 then read_quoted_tail cs else None | [] \<Rightarrow> None)"

lemma read_escaped: "read_quoted_tail (escape v @ [CHR 0x22] @ rest) = Some (v, rest)"
  by (induction v) (auto simp: escape_def)

text \<open>
  No value can break out of its parameter in a challenge: a client that reads a quoted string out
  of a \<open>WWW-Authenticate\<close> header gets back exactly the value that was put in, and what follows it is
  what the server wrote there.
\<close>

theorem quoted_round_trip: "read_quoted (quoted v @ rest) = Some (v, rest)"
  by (simp add: read_quoted_def quoted_def) (use read_escaped in simp)

end
