(* ===== verification/Http_Sessions.thy ===== *)
theory Http_Sessions
  imports Server_Progress Auth
begin

text \<open>
  The sessions of the HTTP transport (\<open>transport/http.rs\<close>): what a session remembers between
  requests, the table they are filed in, and the requests in flight on them. A session lives in a
  cell of its own that the table and the requests using it share; a task store likewise. The
  properties: the table never outgrows its ceiling and forgets the least recently used first; and
  whatever clients do, with whatever ids, nobody is ever handed the session of another identity.
\<close>

section \<open>Sessions\<close>

record session =
  se_log_level :: "log_level option"
  se_client_capabilities :: client_capabilities
  se_negotiated_version :: "string option"
  se_initialized :: bool
  se_tasks :: "nat option"

definition new_session :: session where
  "new_session = \<lparr>se_log_level = None, se_client_capabilities = no_capabilities, se_negotiated_version = None,
     se_initialized = False, se_tasks = None\<rparr>"

record session_entry =
  state :: nat
  last_used :: nat

record sessions =
  live :: "(string, session_entry) table"
  cells :: "session list"
  stores :: "task_store list"

definition MAX_SESSIONS :: nat where "MAX_SESSIONS = 256"

definition SESSION_IDLE_TIMEOUT :: nat where "SESSION_IDLE_TIMEOUT = 30 * 60 * 1000"

definition SESSION_HEADER :: string where "SESSION_HEADER = ''Mcp-Session-Id''"

definition no_sessions :: sessions where
  "no_sessions = \<lparr>live = [], cells = [], stores = []\<rparr>"

definition declares_something :: "client_capabilities \<Rightarrow> bool" where
  "declares_something c \<longleftrightarrow> cc_experimental c \<noteq> [] \<or> cc_sampling c \<noteq> None \<or> cc_elicitation c \<noteq> None \<or> cc_roots c \<noteq> None"

text \<open>\<open>restore\<close>: the part that the session gives the server, and the store they then share.\<close>

definition restore :: "session \<Rightarrow> 'c server \<Rightarrow> 'c server" where
  "restore s sv =
     (let sv = (case se_log_level s of Some l \<Rightarrow> sv\<lparr>sv_log_level := l\<rparr> | None \<Rightarrow> sv);
          sv = sv\<lparr>sv_client_capabilities := se_client_capabilities s\<rparr>;
          sv = (case se_negotiated_version s of Some v \<Rightarrow> sv\<lparr>sv_negotiated_version := Some v\<rparr> | None \<Rightarrow> sv)
      in sv\<lparr>sv_initialized := se_initialized s\<rparr>)"

definition restore_store :: "nat \<Rightarrow> 'c server \<Rightarrow> task_store \<Rightarrow> sessions \<Rightarrow> nat option \<times> sessions" where
  "restore_store c sv own ss =
     (if sv_tasks sv = None then (None, ss)
      else case se_tasks (cells ss ! c) of
        Some a \<Rightarrow> (Some a, ss)
      | None \<Rightarrow>
          (Some (length (stores ss)),
           ss\<lparr>stores := stores ss @ [own],
              cells := (cells ss)[c := (cells ss ! c)\<lparr>se_tasks := Some (length (stores ss))\<rparr>]\<rparr>))"

definition absorb :: "'c server \<Rightarrow> log_level \<Rightarrow> session \<Rightarrow> session" where
  "absorb sv default_level s =
     s\<lparr>se_log_level := (if sv_log_level sv \<noteq> default_level then Some (sv_log_level sv) else se_log_level s),
       se_client_capabilities := (if declares_something (sv_client_capabilities sv) then sv_client_capabilities sv
         else se_client_capabilities s),
       se_negotiated_version := (case sv_negotiated_version sv of Some v \<Rightarrow> Some v | None \<Rightarrow> se_negotiated_version s),
       se_initialized := (se_initialized s \<or> sv_initialized sv)\<rparr>"

text \<open>\<open>worth_keeping\<close>; asking a store whether it is empty sweeps it.\<close>

definition worth_keeping :: "system_time \<Rightarrow> session \<Rightarrow> sessions \<Rightarrow> bool \<times> sessions" where
  "worth_keeping now s ss =
     (if se_initialized s \<or> se_log_level s \<noteq> None \<or> se_negotiated_version s \<noteq> None then (True, ss)
      else case se_tasks s of
        None \<Rightarrow> (False, ss)
      | Some a \<Rightarrow>
          (case is_empty (stores ss ! a) now of
             (r, st) \<Rightarrow> (\<not> (case r of Inr b \<Rightarrow> b | Inl _ \<Rightarrow> True), ss\<lparr>stores := (stores ss)[a := st]\<rparr>)))"

section \<open>The table\<close>

definition key :: "string option \<Rightarrow> string \<Rightarrow> string" where
  "key who i = (case who of Some w \<Rightarrow> w @ [IDENTITY_SEPARATOR] @ i | None \<Rightarrow> i)"

definition sweep_sessions :: "nat \<Rightarrow> (string, session_entry) table \<Rightarrow> (string, session_entry) table" where
  "sweep_sessions now t = table_retain (\<lambda>_ e. now - last_used e < SESSION_IDLE_TIMEOUT) t"

definition least_recent :: "(string, session_entry) table \<Rightarrow> string option" where
  "least_recent t = map_option fst (min_by_key (\<lambda>(k, e). (last_used e, k)) t)"

lemma least_recent_key: "least_recent t = Some k \<Longrightarrow> k \<in> fst ` set t"
  by (force simp: least_recent_def dest!: min_by_key_Some)

function evict_oldest :: "(string, session_entry) table \<Rightarrow> (string, session_entry) table" where
  "evict_oldest t =
     (if MAX_SESSIONS < length t
      then (case least_recent t of None \<Rightarrow> t | Some k \<Rightarrow> evict_oldest (table_remove k t))
      else t)"
  by pat_completeness auto
termination
  by (relation "measure length") (auto intro!: length_remove_key least_recent_key)

declare evict_oldest.simps [simp del]

definition checkout :: "nat \<Rightarrow> 8 word list \<Rightarrow> string option \<Rightarrow> string option \<Rightarrow> sessions \<Rightarrow>
    (unit + string \<times> nat) \<times> sessions" where
  "checkout now entropy who i ss =
     (let ss = ss\<lparr>live := sweep_sessions now (live ss)\<rparr> in
      case i of
        Some i \<Rightarrow>
          (case table_get (live ss) (key who i) of
             None \<Rightarrow> (Inl (), ss)
           | Some e \<Rightarrow> (Inr (i, state e), ss\<lparr>live := table_insert (key who i) (e\<lparr>last_used := now\<rparr>) (live ss)\<rparr>))
      | None \<Rightarrow> (Inr (random_hex_id entropy, length (cells ss)), ss\<lparr>cells := cells ss @ [new_session]\<rparr>))"

definition check_in :: "nat \<Rightarrow> system_time \<Rightarrow> string option \<Rightarrow> string \<Rightarrow> nat \<Rightarrow> sessions \<Rightarrow> string option \<times> sessions" where
  "check_in now wall_now who i c ss =
     (case worth_keeping wall_now (cells ss ! c) ss of
        (keep, ss) \<Rightarrow>
          if \<not> keep then (None, ss\<lparr>live := table_remove (key who i) (live ss)\<rparr>)
          else (Some i, ss\<lparr>live := evict_oldest (table_insert (key who i) \<lparr>state = c, last_used = now\<rparr> (live ss))\<rparr>))"

definition terminate :: "string option \<Rightarrow> string \<Rightarrow> sessions \<Rightarrow> bool \<times> sessions" where
  "terminate who i ss =
     (table_get (live ss) (key who i) \<noteq> None, ss\<lparr>live := table_remove (key who i) (live ss)\<rparr>)"

section \<open>The ceiling\<close>

lemma least_recent_Some:
  assumes "wf_table t" and "least_recent t = Some k"
  shows "\<exists>v. (k, v) \<in> set t \<and> (\<forall>(k', v') \<in> set t. k' \<noteq> k \<longrightarrow> (last_used v, k) < (last_used v', k'))"
proof -
  obtain v where v: "min_by_key (\<lambda>(k, e). (last_used e, k)) t = Some (k, v)"
    using assms(2) by (auto simp: least_recent_def)
  from min_by_key_Some [OF v] have "(k, v) \<in> set t"
    "\<forall>x \<in> set t. (last_used v, k) \<le> (last_used (snd x), fst x)" by (auto simp: split_beta)
  then show ?thesis by (intro exI [of _ v]) (force simp: less_le)
qed

lemma least_recent_None [simp]: "least_recent t = None \<longleftrightarrow> t = []"
  by (simp add: least_recent_def)

interpretation session_room: evicting "\<lambda>t. Inr (evict_oldest t) :: unit + (string, session_entry) table" least_recent "\<lambda>_. True"
  "\<lambda>k e. (last_used e, k)" "Suc MAX_SESSIONS" "()"
proof
  fix t :: "(string, session_entry) table"
  show "(Inr (evict_oldest t) :: unit + (string, session_entry) table) =
      (if length t < Suc MAX_SESSIONS then Inr t
       else case least_recent t of None \<Rightarrow> Inl () | Some k \<Rightarrow> Inr (evict_oldest (table_remove k t)))"
    by (subst evict_oldest.simps) (auto split: option.splits)
qed (use least_recent_Some in \<open>fastforce+\<close>)

lemma evict_oldest_facts:
  assumes "wf_table t"
  shows "length (evict_oldest t) \<le> MAX_SESSIONS" "set (evict_oldest t) \<subseteq> set t" "wf_table (evict_oldest t)"
    "\<forall>(k, v) \<in> set t - set (evict_oldest t). \<forall>(k', v') \<in> set (evict_oldest t). (last_used v, k) < (last_used v', k')"
  using session_room.evict_bound [OF assms refl] session_room.evict_subset [OF assms refl]
    session_room.evict_wf [OF assms refl] session_room.evict_oldest_first [OF assms refl]
  by auto


section \<open>Requests in flight\<close>

text \<open>
  The state of a listener: its sessions, the requests in flight, each with its identity, the id it
  goes by and the cell it was handed, and, for the statement only, on whose behalf every cell was
  made. With authentication every request has an identity made of a user and a tenant, without it
  none has.
\<close>

type_synonym flight = "string option \<times> string \<times> nat"

record front =
  fr_sessions :: sessions
  fr_flights :: "flight list"
  fr_made_for :: "string option list"

definition identity :: "bool \<Rightarrow> string option \<Rightarrow> bool" where
  "identity auth who \<longleftrightarrow>
     (if auth then (\<exists>u t. IDENTITY_SEPARATOR \<notin> set u \<and> IDENTITY_SEPARATOR \<notin> set t \<and> who = Some (u @ [IDENTITY_SEPARATOR] @ t))
      else who = None)"

lemma key_inject:
  assumes "key who i = key who' i'" and "identity auth who" and "identity auth who'"
  shows "who = who' \<and> i = i'"
proof (cases auth)
  case True
  then obtain u t u' t' where
    w: "who = Some (u @ [IDENTITY_SEPARATOR] @ t)" "IDENTITY_SEPARATOR \<notin> set u" "IDENTITY_SEPARATOR \<notin> set t"
    and w': "who' = Some (u' @ [IDENTITY_SEPARATOR] @ t')" "IDENTITY_SEPARATOR \<notin> set u'" "IDENTITY_SEPARATOR \<notin> set t'"
    using assms(2,3) by (auto simp: identity_def)
  have "u @ [IDENTITY_SEPARATOR] @ (t @ [IDENTITY_SEPARATOR] @ i) = u' @ [IDENTITY_SEPARATOR] @ (t' @ [IDENTITY_SEPARATOR] @ i')"
    using assms(1) w(1) w'(1) by (simp add: key_def)
  note outer = separated_inject [OF this w(2) w'(2)]
  moreover note separated_inject [OF conjunct2 [OF outer] w(3) w'(3)]
  ultimately show ?thesis using w(1) w'(1) by simp
next
  case False
  with assms show ?thesis by (simp add: identity_def key_def)
qed

text \<open>
  What can happen: a request begins in a session it names or in a new one, or is refused; it works
  on its cell and on the task stores; it ends, putting its session back, or fails before that; a
  session is deleted.
\<close>

inductive front_step :: "bool \<Rightarrow> front \<Rightarrow> front \<Rightarrow> bool" for auth where
  begin_named: "identity auth who \<Longrightarrow> checkout now entropy who (Some i) (fr_sessions f) = (Inr (j, c), ss) \<Longrightarrow>
    front_step auth f (f\<lparr>fr_sessions := ss, fr_flights := fr_flights f @ [(who, j, c)]\<rparr>)"
| begin_new: "identity auth who \<Longrightarrow> checkout now entropy who None (fr_sessions f) = (Inr (j, c), ss) \<Longrightarrow>
    front_step auth f (f\<lparr>fr_sessions := ss, fr_flights := fr_flights f @ [(who, j, c)],
      fr_made_for := fr_made_for f @ [who]\<rparr>)"
| refused: "identity auth who \<Longrightarrow> checkout now entropy who i (fr_sessions f) = (Inl (), ss) \<Longrightarrow>
    front_step auth f (f\<lparr>fr_sessions := ss\<rparr>)"
| works: "(who, j, c) \<in> set (fr_flights f) \<Longrightarrow>
    front_step auth f (f\<lparr>fr_sessions := (fr_sessions f)\<lparr>cells := (cells (fr_sessions f))[c := s], stores := sts\<rparr>\<rparr>)"
| ends: "n < length (fr_flights f) \<Longrightarrow> fr_flights f ! n = (who, j, c) \<Longrightarrow>
    check_in now wall_now who j c (fr_sessions f) = (r, ss) \<Longrightarrow>
    front_step auth f (f\<lparr>fr_sessions := ss, fr_flights := take n (fr_flights f) @ drop (Suc n) (fr_flights f)\<rparr>)"
| fails: "front_step auth f (f\<lparr>fr_flights := take n (fr_flights f) @ drop (Suc n) (fr_flights f)\<rparr>)"
| deleted: "identity auth who \<Longrightarrow> terminate who i (fr_sessions f) = (b, ss) \<Longrightarrow>
    front_step auth f (f\<lparr>fr_sessions := ss\<rparr>)"

inductive front_reachable :: "bool \<Rightarrow> front \<Rightarrow> bool" for auth where
  start: "front_reachable auth \<lparr>fr_sessions = no_sessions, fr_flights = [], fr_made_for = []\<rparr>"
| step: "front_reachable auth f \<Longrightarrow> front_step auth f f' \<Longrightarrow> front_reachable auth f'"

text \<open>Every entry and every flight goes by the identity its cell was made for.\<close>

definition filed_by :: "bool \<Rightarrow> string option list \<Rightarrow> string \<Rightarrow> session_entry \<Rightarrow> bool" where
  "filed_by auth made k e \<longleftrightarrow> state e < length made \<and> identity auth (made ! state e) \<and> (\<exists>i. k = key (made ! state e) i)"

fun flight_ok :: "bool \<Rightarrow> string option list \<Rightarrow> flight \<Rightarrow> bool" where
  "flight_ok auth made (who, j, c) \<longleftrightarrow> identity auth who \<and> c < length made \<and> made ! c = who"

definition front_ok :: "bool \<Rightarrow> front \<Rightarrow> bool" where
  "front_ok auth f \<longleftrightarrow>
     length (fr_made_for f) = length (cells (fr_sessions f)) \<and>
     filed (filed_by auth (fr_made_for f)) (live (fr_sessions f)) \<and>
     length (live (fr_sessions f)) \<le> MAX_SESSIONS \<and>
     (\<forall>x \<in> set (fr_flights f). flight_ok auth (fr_made_for f) x)"

lemma filed_remove [simp]: "filed P t \<Longrightarrow> filed P (table_remove k t)"
  by (auto simp: filed_def set_table_remove)

lemma filed_subset: "filed P t \<Longrightarrow> wf_table t' \<Longrightarrow> set t' \<subseteq> set t \<Longrightarrow> filed P t'"
  by (auto simp: filed_def)

lemma filed_mono: "filed P t \<Longrightarrow> (\<And>k v. P k v \<Longrightarrow> Q k v) \<Longrightarrow> filed Q t"
  by (auto simp: filed_def)

lemma filed_sweep [simp]: "filed P t \<Longrightarrow> filed P (sweep_sessions now t)"
  by (auto simp: filed_def sweep_sessions_def table_retain_def wf_table_def distinct_map_filter)

lemma length_sweep: "length (sweep_sessions now t) \<le> length t"
  by (simp add: sweep_sessions_def table_retain_def)

lemma flight_ok_more: "flight_ok auth made x \<Longrightarrow> flight_ok auth (made @ [who]) x"
  by (cases x) (auto simp: nth_append)

lemma flights_left: "\<forall>x \<in> set xs. P x \<Longrightarrow> \<forall>x \<in> set (take n xs @ drop (Suc n) xs). P x"
  by (auto dest: in_set_takeD in_set_dropD)

lemma filed_by_more: "filed_by auth made k e \<Longrightarrow> filed_by auth (made @ [who]) k e"
  by (auto simp: filed_by_def nth_append)

lemma worth_keeping_live: "worth_keeping now s ss = (b, ss') \<Longrightarrow> live ss' = live ss \<and> cells ss' = cells ss"
  by (auto simp: worth_keeping_def split: if_splits option.splits prod.splits)

lemma check_in_live:
  assumes "check_in now wall_now who i c ss = (r, ss')"
  shows "cells ss' = cells ss \<and> (live ss' = table_remove (key who i) (live ss) \<or>
    live ss' = evict_oldest (table_insert (key who i) \<lparr>state = c, last_used = now\<rparr> (live ss)))"
  using assms worth_keeping_live by (fastforce simp: check_in_def split: prod.splits if_splits)

lemma length_table_remove_le: "length (table_remove k t) \<le> length t"
  by (simp add: AList.delete_eq)

lemma checkout_named:
  assumes "checkout now entropy who (Some i) ss = (Inr (j, c), ss')" and "filed (filed_by auth made) (live ss)"
    and "identity auth who"
  shows "j = i \<and> c < length made \<and> made ! c = who \<and> cells ss' = cells ss \<and>
    filed (filed_by auth made) (live ss') \<and> length (live ss') \<le> length (live ss)"
proof -
  let ?t = "sweep_sessions now (live ss)"
  obtain e where e: "table_get ?t (key who i) = Some e" "j = i" "c = state e"
    "ss' = ss\<lparr>live := table_insert (key who i) (e\<lparr>last_used := now\<rparr>) ?t\<rparr>"
    using assms(1) by (auto simp: checkout_def Let_def split: option.splits)
  have t: "filed (filed_by auth made) ?t" using assms(2) by simp
  then have "filed_by auth made (key who i) e"
    using e(1) by (auto simp: filed_def dest: map_of_SomeD)
  then obtain i' where c: "state e < length made" "identity auth (made ! state e)" "key who i = key (made ! state e) i'"
    by (auto simp: filed_by_def)
  note mine = key_inject [OF c(3) assms(3) c(2)]
  have "filed_by auth made (key who i) (e\<lparr>last_used := now\<rparr>)" using c by (auto simp: filed_by_def)
  with t have "filed (filed_by auth made) (live ss')" by (simp add: e(4))
  moreover have "length (live ss') \<le> length (live ss)"
    using map_of_SomeD [OF e(1)] length_sweep [of now "live ss"] by (force simp: e(4) length_table_insert)
  ultimately show ?thesis using c mine e by auto
qed

lemma front_step_ok:
  assumes "front_step auth f f'" and "front_ok auth f"
  shows "front_ok auth f'"
  using assms
proof (induction rule: front_step.induct)
  case (begin_named who now entropy i f j c ss)
  then show ?case
    using checkout_named [OF begin_named(2), of auth "fr_made_for f"] by (auto simp: front_ok_def)
next
  case (begin_new who now entropy f j c ss)
  have ss: "ss = (fr_sessions f)\<lparr>live := sweep_sessions now (live (fr_sessions f)),
      cells := cells (fr_sessions f) @ [new_session]\<rparr>" "c = length (cells (fr_sessions f))"
    using begin_new(2) by (auto simp: checkout_def Let_def)
  have "filed (filed_by auth (fr_made_for f @ [who])) (live ss)"
    using begin_new(3) ss filed_mono [OF filed_sweep filed_by_more] by (auto simp: front_ok_def)
  with begin_new(1,3) ss show ?case
    using length_sweep [of now "live (fr_sessions f)"] flight_ok_more by (auto simp: front_ok_def nth_append)
next
  case (refused who now entropy i f ss)
  then have "ss = (fr_sessions f)\<lparr>live := sweep_sessions now (live (fr_sessions f))\<rparr>"
    by (auto simp: checkout_def Let_def split: option.splits)
  with refused show ?case by (auto simp: front_ok_def intro: order_trans [OF length_sweep])
next
  case (works who j c f s sts)
  then show ?case by (auto simp: front_ok_def)
next
  case (ends n f who j c now wall_now r ss)
  have flight: "identity auth who" "c < length (fr_made_for f)" "fr_made_for f ! c = who"
    using ends(2,4) nth_mem [OF ends(1)] by (auto simp: front_ok_def)
  let ?t = "live (fr_sessions f)"
  have t: "filed (filed_by auth (fr_made_for f)) ?t" "length ?t \<le> MAX_SESSIONS"
    using ends(4) by (auto simp: front_ok_def)
  have "filed_by auth (fr_made_for f) (key who j) \<lparr>state = c, last_used = now\<rparr>"
    using flight by (auto simp: filed_by_def)
  with t(1) have ins: "filed (filed_by auth (fr_made_for f)) (table_insert (key who j) \<lparr>state = c, last_used = now\<rparr> ?t)"
    by simp
  have "cells ss = cells (fr_sessions f) \<and> filed (filed_by auth (fr_made_for f)) (live ss) \<and> length (live ss) \<le> MAX_SESSIONS"
    using check_in_live [OF ends(3)] t ins evict_oldest_facts [of "table_insert (key who j) \<lparr>state = c, last_used = now\<rparr> ?t"]
    by (auto simp: filed_def [of _ "table_insert _ _ _"] intro: filed_subset [OF ins] order_trans [OF length_table_remove_le])
  with ends(4) flights_left [of "fr_flights f" "flight_ok auth (fr_made_for f)" n] show ?case by (simp add: front_ok_def)
next
  case (fails f n)
  with flights_left [of "fr_flights f" "flight_ok auth (fr_made_for f)" n] show ?case by (simp add: front_ok_def)
next
  case (deleted who i f b ss)
  then show ?case
    by (auto simp: front_ok_def terminate_def intro: order_trans [OF length_table_remove_le])
qed

lemma front_reachable_ok: "front_reachable auth f \<Longrightarrow> front_ok auth f"
proof (induction rule: front_reachable.induct)
  case start
  show ?case by (simp add: front_ok_def no_sessions_def)
next
  case (step f f')
  then show ?case using front_step_ok by blast
qed

text \<open>
  C4: Nobody is handed another identity's session. However requests of any identities begin, overlap,
  fail and end, whatever session ids they name, and whatever is deleted, evicted or expires in
  between: every request in flight works on a session that was made for its own identity, and an
  identity that names an id gets the session made for it under that id or is refused.
\<close>

theorem sessions_not_shared:
  assumes "front_reachable auth f"
  shows "(\<forall>(who, j, c) \<in> set (fr_flights f). fr_made_for f ! c = who) \<and>
    (\<forall>now entropy who i j c ss. identity auth who \<and> checkout now entropy who (Some i) (fr_sessions f) = (Inr (j, c), ss) \<longrightarrow>
       j = i \<and> fr_made_for f ! c = who)"
proof -
  note ok = front_reachable_ok [OF assms]
  then have "filed (filed_by auth (fr_made_for f)) (live (fr_sessions f))" by (simp add: front_ok_def)
  note named = checkout_named [OF _ this]
  show ?thesis
    using ok named by (fastforce simp: front_ok_def)
qed

lemma front_one:
  assumes "identity auth who"
  shows "front_reachable auth \<lparr>fr_sessions = no_sessions\<lparr>cells := [new_session]\<rparr>, fr_flights = [(who, [], 0)], fr_made_for = [who]\<rparr>"
proof -
  let ?f = "\<lparr>fr_sessions = no_sessions, fr_flights = [], fr_made_for = []\<rparr>"
  have "checkout 0 [] who None (fr_sessions ?f) = (Inr ([], 0), no_sessions\<lparr>cells := [new_session]\<rparr>)"
    by (simp add: checkout_def no_sessions_def sweep_sessions_def table_retain_def random_hex_id_def Let_def)
  from front_step.begin_new [OF assms this]
  show ?thesis by (simp add: front_reachable.step [OF front_reachable.start])
qed

theorem sessions_not_shared_witness:
  "identity True (Some (''u'' @ [IDENTITY_SEPARATOR] @ ''t'')) \<and>
   list_all (\<lambda>(who, j, c). [Some (''u'' @ [IDENTITY_SEPARATOR] @ ''t'')] ! c = who)
     [(Some (''u'' @ [IDENTITY_SEPARATOR] @ ''t''), [] :: string, 0)]"
proof -
  have me: "identity True (Some (''u'' @ [IDENTITY_SEPARATOR] @ ''t''))"
    unfolding identity_def if_True
    by (rule exI [of _ "''u''"], rule exI [of _ "''t''"]) (simp add: IDENTITY_SEPARATOR_def)
  from sessions_not_shared [OF front_one [OF me]] me show ?thesis by simp
qed

text \<open>
  The session table is bounded and fair: in every reachable state it holds at most 256 sessions,
  and when a request puts its session back, every other session that goes was used less recently
  than every one that stays.
\<close>

theorem session_table_bounded:
  assumes "front_reachable auth f"
  shows "length (live (fr_sessions f)) \<le> MAX_SESSIONS \<and>
    (check_in now wall_now who i c (fr_sessions f) = (Some j, ss) \<longrightarrow>
      (\<forall>(k, e) \<in> set (live (fr_sessions f)) - set (live ss). k \<noteq> key who i \<longrightarrow>
        (\<forall>(k', e') \<in> set (live ss). (last_used e, k) < (last_used e', k'))))"
proof -
  have ok: "wf_table (live (fr_sessions f))" "length (live (fr_sessions f)) \<le> MAX_SESSIONS"
    using front_reachable_ok [OF assms] by (auto simp: front_ok_def filed_def)
  let ?t = "table_insert (key who i) \<lparr>state = c, last_used = now\<rparr> (live (fr_sessions f))"
  have others: "(k, e) \<in> set ?t" if "(k, e) \<in> set (live (fr_sessions f))" "k \<noteq> key who i" for k e
    using that ok(1) table_get_in_set [of ?t k e] table_get_in_set [of "live (fr_sessions f)" k e]
    by (simp add: table_get_insert)
  have "live ss = evict_oldest ?t" if "check_in now wall_now who i c (fr_sessions f) = (Some j, ss)"
    using that worth_keeping_live by (fastforce simp: check_in_def split: prod.splits if_splits)
  moreover have "wf_table ?t" using ok(1) by simp
  ultimately show ?thesis using ok(2) others evict_oldest_facts(4) [of ?t] by fastforce
qed

theorem session_table_bounded_witness:
  "length (live (no_sessions\<lparr>cells := [new_session]\<rparr>)) \<le> MAX_SESSIONS"
  using session_table_bounded [OF front_one [of False None]] by (simp add: identity_def)

text \<open>
  A deleted session can come back: the request that was using it files it again when it ends, and
  the id is good once more.
\<close>

lemma deleted_session_returns:
  assumes "terminate who i ss = (True, ss1)" and "se_initialized (cells ss1 ! c)" and "length (live ss1) < MAX_SESSIONS"
    and "check_in now wall_now who i c ss1 = (r, ss2)" and "wf_table (live ss)"
  shows "fst (checkout now entropy who (Some i) ss2) = Inr (i, c)"
proof -
  let ?t = "table_insert (key who i) \<lparr>state = c, last_used = now\<rparr> (live ss1)"
  have "length ?t \<le> MAX_SESSIONS" using assms(3) by (simp add: length_table_insert)
  then have "evict_oldest ?t = ?t" by (simp add: evict_oldest.simps)
  then have "ss2 = ss1\<lparr>live := ?t\<rparr>" using assms(2,4) by (simp add: check_in_def worth_keeping_def)
  moreover have "wf_table ?t" using assms(1,5) by (auto simp: terminate_def)
  then have "table_get (sweep_sessions now ?t) (key who i) = Some \<lparr>state = c, last_used = now\<rparr>"
    by (simp add: sweep_sessions_def table_get_retain table_get_insert SESSION_IDLE_TIMEOUT_def)
  ultimately show ?thesis by (simp add: checkout_def Let_def)
qed

end
