(* ===== verification/Line.thy ===== *)
theory Line
  imports JsonRpc
begin

text \<open>
  Newline-delimited framing (\<open>transport/line.rs\<close>). The reader keeps what its \<open>BufReader\<close> has
  fetched and not yet consumed, the bytes of a message whose newline has not come, and whether
  that message already exceeds the ceiling. The byte source is the list of what its successive
  reads return: bytes, an empty list at end of stream, or an error. One element of \<open>passes\<close> is
  one turn of the loop: the clock reading it takes and what applying the deadline to the source
  returns. The loop's value is \<^const>\<open>None\<close> while it is still going on at the end of the passes or
  waiting for a source that has nothing more to say. The properties: whatever the sizes of the
  reads, the messages are the lines of the byte stream; an expired, failed or interrupted read
  loses no byte; no more than the ceiling is ever held or accepted; and the deadline covers
  the whole message.
\<close>

section \<open>Data\<close>

datatype error_kind =
    WouldBlock | TimedOut | Interrupted | UnexpectedEof | ConnectionReset | ConnectionAborted
  | BrokenPipe | OtherKind

datatype io_error = IoError (kind: error_kind) (description: string)

definition MAX_MESSAGE_BYTES :: nat where
  "MAX_MESSAGE_BYTES = 8 * 1024 * 1024"

record line_reader =
  fetched :: bytes
  partial :: bytes
  max_bytes :: nat
  overflowed :: bool
  armed :: bool

type_synonym byte_source = "(io_error + bytes) list"

definition with_limit :: "nat \<Rightarrow> line_reader" where
  "with_limit m = \<lparr>fetched = [], partial = [], max_bytes = max m 1, overflowed = False, armed = False\<rparr>"

definition new_reader :: line_reader where
  "new_reader = with_limit MAX_MESSAGE_BYTES"

definition set_limit :: "line_reader \<Rightarrow> nat \<Rightarrow> line_reader" where
  "set_limit r m = r\<lparr>max_bytes := max m 1\<rparr>"

definition is_timeout :: "io_error \<Rightarrow> bool" where
  "is_timeout e \<longleftrightarrow> kind e = WouldBlock \<or> kind e = TimedOut"

definition is_interrupt :: "io_error \<Rightarrow> bool" where
  "is_interrupt e \<longleftrightarrow> kind e = Interrupted"

definition is_disconnect :: "io_error \<Rightarrow> bool" where
  "is_disconnect e \<longleftrightarrow> kind e \<in> {UnexpectedEof, ConnectionReset, ConnectionAborted, BrokenPipe}"

definition timed_out :: "(nat \<Rightarrow> string) \<Rightarrow> nat option \<Rightarrow> mcp_error" where
  "timed_out show_duration timeout =
     (case timeout of
        Some t \<Rightarrow> Timeout (''no message within '' @ show_duration t)
      | None \<Rightarrow> Timeout ''no message'')"

section \<open>Operations\<close>

text \<open>\<open>arm\<close>, given what \<open>set_deadline\<close> returns. Clearing a deadline may fail unnoticed.\<close>

definition arm :: "line_reader \<Rightarrow> bool \<Rightarrow> io_error option \<Rightarrow> unit result \<times> line_reader" where
  "arm r has_deadline applied =
     (if has_deadline
      then (case applied of
              Some e \<Rightarrow> (Inl (Io (description e)), r)
            | None \<Rightarrow> (Inr (), r\<lparr>armed := True\<rparr>))
      else if armed r then (Inr (), r\<lparr>armed := False\<rparr>)
      else (Inr (), r))"

text \<open>\<open>BufReader::fill_buf\<close>: a read happens only when nothing fetched is left.\<close>

definition fill_buf :: "line_reader \<Rightarrow> byte_source \<Rightarrow> (io_error + bytes) option \<times> line_reader \<times> byte_source" where
  "fill_buf r src =
     (if fetched r \<noteq> [] then (Some (Inr (fetched r)), r, src)
      else (case src of
              [] \<Rightarrow> (None, r, src)
            | Inl e # src' \<Rightarrow> (Some (Inl e), r, src')
            | Inr bs # src' \<Rightarrow> (Some (Inr bs), r\<lparr>fetched := bs\<rparr>, src')))"

definition newline :: char where "newline = CHR 0x0A"

text \<open>What one pass does with the bytes available: whether the line ended, and how many it consumed.\<close>

definition accumulate :: "line_reader \<Rightarrow> bytes \<Rightarrow> bool \<times> nat \<times> line_reader" where
  "accumulate r available =
     (let index = length (takeWhile (\<lambda>b. b \<noteq> newline) available) in
      if index < length available
      then (True, index + 1,
            if overflowed r then r
            else if max_bytes r < length (partial r) + index + 1
                 then r\<lparr>overflowed := True, partial := []\<rparr>
                 else r\<lparr>partial := partial r @ take (index + 1) available\<rparr>)
      else if overflowed r then (False, length available, r)
      else if max_bytes r < length (partial r) + length available
      then (False, length available, r\<lparr>overflowed := True, partial := []\<rparr>)
      else (False, length available, r\<lparr>partial := partial r @ available\<rparr>))"

text \<open>What a complete line is worth: it is decoded only now.\<close>

definition decode_line :: "(string \<Rightarrow> string + json) \<Rightarrow> (de_error \<Rightarrow> string) \<Rightarrow> (bytes \<Rightarrow> string) \<Rightarrow>
    bytes \<Rightarrow> jsonrpc_message result" where
  "decode_line from_str render show_utf8_error line =
     (if utf8_valid line then parse from_str render line
      else Inl (InvalidMessage (''message is not UTF-8: '' @ show_utf8_error line)))"

definition finish_line :: "(string \<Rightarrow> string + json) \<Rightarrow> (de_error \<Rightarrow> string) \<Rightarrow> (bytes \<Rightarrow> string) \<Rightarrow>
    line_reader \<Rightarrow> jsonrpc_message result \<times> line_reader" where
  "finish_line from_str render show_utf8_error r =
     (if overflowed r
      then (Inl (InvalidMessage (''message exceeds the '' @ show_nat (max_bytes r) @ '' byte limit'')),
            r\<lparr>overflowed := False, partial := []\<rparr>)
      else (decode_line from_str render show_utf8_error (partial r), r\<lparr>partial := []\<rparr>))"

fun read_loop :: "(string \<Rightarrow> string + json) \<Rightarrow> (de_error \<Rightarrow> string) \<Rightarrow> (bytes \<Rightarrow> string) \<Rightarrow> (nat \<Rightarrow> string) \<Rightarrow>
    nat option \<Rightarrow> nat option \<Rightarrow> line_reader \<Rightarrow> byte_source \<Rightarrow> (nat \<times> io_error option) list \<Rightarrow>
    jsonrpc_message result option \<times> line_reader \<times> byte_source" where
  "read_loop from_str render show_utf8_error show_duration timeout deadline r src [] = (None, r, src)"
| "read_loop from_str render show_utf8_error show_duration timeout deadline r src ((now, applied) # passes) =
     (if (case deadline of Some dl \<Rightarrow> dl \<le> now | None \<Rightarrow> False)
      then (Some (Inl (timed_out show_duration timeout)), r, src)
      else (case arm r (deadline \<noteq> None) applied of
        (Inl e, r) \<Rightarrow> (Some (Inl e), r, src)
      | (Inr _, r) \<Rightarrow>
          (case fill_buf r src of
             (None, r, src) \<Rightarrow> (None, r, src)
           | (Some (Inl e), r, src) \<Rightarrow>
               if is_timeout e then (Some (Inl (timed_out show_duration timeout)), r, src)
               else if is_interrupt e
               then read_loop from_str render show_utf8_error show_duration timeout deadline r src passes
               else if is_disconnect e then (Some (Inl TransportClosed), r, src)
               else (Some (Inl (Io (description e))), r, src)
           | (Some (Inr available), r, src) \<Rightarrow>
               if available = [] then (Some (Inl TransportClosed), r, src)
               else (case accumulate r available of
                       (line_ended, consumed, r) \<Rightarrow>
                         let r = r\<lparr>fetched := drop consumed (fetched r)\<rparr>
                         in if line_ended
                            then (case finish_line from_str render show_utf8_error r of
                                    (res, r) \<Rightarrow> (Some res, r, src))
                            else read_loop from_str render show_utf8_error show_duration timeout deadline r src passes))))"

definition read_message :: "(string \<Rightarrow> string + json) \<Rightarrow> (de_error \<Rightarrow> string) \<Rightarrow> (bytes \<Rightarrow> string) \<Rightarrow> (nat \<Rightarrow> string) \<Rightarrow>
    nat option \<Rightarrow> nat \<Rightarrow> line_reader \<Rightarrow> byte_source \<Rightarrow> (nat \<times> io_error option) list \<Rightarrow>
    jsonrpc_message result option \<times> line_reader \<times> byte_source" where
  "read_message from_str render show_utf8_error show_duration timeout start r src passes =
     read_loop from_str render show_utf8_error show_duration timeout (map_option (\<lambda>t. start + t) timeout) r src passes"

section \<open>The stream the reader is working through\<close>

fun bytes_of :: "byte_source \<Rightarrow> bytes" where
  "bytes_of [] = []"
| "bytes_of (Inl e # src) = bytes_of src"
| "bytes_of (Inr bs # src) = bs @ bytes_of src"

definition stream :: "line_reader \<Rightarrow> byte_source \<Rightarrow> bytes" where
  "stream r src = fetched r @ bytes_of src"

text \<open>
  \<open>acc\<close> is what has been consumed of the current line. The reader remembers it, or only that it
  was too long.
\<close>

definition midline :: "line_reader \<Rightarrow> bytes \<Rightarrow> bool" where
  "midline r acc \<longleftrightarrow>
     newline \<notin> set acc \<and>
     (if overflowed r then max_bytes r < length acc \<and> partial r = []
      else partial r = acc \<and> length acc \<le> max_bytes r)"

text \<open>What a whole line (with its newline) is worth under a ceiling.\<close>

definition line_result :: "(string \<Rightarrow> string + json) \<Rightarrow> (de_error \<Rightarrow> string) \<Rightarrow> (bytes \<Rightarrow> string) \<Rightarrow>
    nat \<Rightarrow> bytes \<Rightarrow> jsonrpc_message result" where
  "line_result from_str render show_utf8_error m line =
     (if m < length line
      then Inl (InvalidMessage (''message exceeds the '' @ show_nat m @ '' byte limit''))
      else decode_line from_str render show_utf8_error line)"

lemma newline_index: "length (takeWhile (\<lambda>b. b \<noteq> newline) bs) < length bs \<longleftrightarrow> newline \<in> set bs"
  by (induction bs) auto

lemma split_at_newline:
  assumes "length (takeWhile (\<lambda>b. b \<noteq> newline) bs) < length bs"
  obtains l rest where "bs = l @ newline # rest" "newline \<notin> set l" "takeWhile (\<lambda>b. b \<noteq> newline) bs = l"
proof -
  obtain l rest where bs: "bs = l @ newline # rest" "newline \<notin> set l"
    using assms by (auto simp: newline_index dest: split_list_first)
  then have "takeWhile (\<lambda>b. b \<noteq> newline) bs = l" by (induction l arbitrary: bs) auto
  with bs that show ?thesis by blast
qed

lemma accumulate_continues:
  assumes mid: "midline r acc" and acc: "accumulate r bs = (False, n, r')"
  shows "n = length bs \<and> newline \<notin> set bs \<and> midline r' (acc @ bs) \<and>
     fetched r' = fetched r \<and> max_bytes r' = max_bytes r"
proof -
  let ?i = "length (takeWhile (\<lambda>b. b \<noteq> newline) bs)"
  have "\<not> ?i < length bs" using acc by (auto simp: accumulate_def Let_def split: if_splits)
  then have nl: "newline \<notin> set bs" by (simp add: newline_index)
  show ?thesis
    using acc mid nl \<open>\<not> ?i < length bs\<close>
    by (auto simp: accumulate_def Let_def midline_def split: if_splits)
qed

lemma accumulate_ends:
  assumes mid: "midline r acc" and acc: "accumulate r bs = (True, n, r')"
    and fin: "finish_line from_str render show_utf8_error (r'\<lparr>fetched := fs\<rparr>) = (res, r'')"
  shows "\<exists>l rest. bs = l @ newline # rest \<and> newline \<notin> set l \<and> n = length l + 1 \<and>
     res = line_result from_str render show_utf8_error (max_bytes r) (acc @ l @ [newline]) \<and>
     midline r'' [] \<and> fetched r' = fetched r \<and> max_bytes r'' = max_bytes r \<and> fetched r'' = fs"
proof -
  let ?i = "length (takeWhile (\<lambda>b. b \<noteq> newline) bs)"
  have lt: "?i < length bs" using acc by (auto simp: accumulate_def Let_def split: if_splits)
  then obtain l rest where bs: "bs = l @ newline # rest" "newline \<notin> set l" "takeWhile (\<lambda>b. b \<noteq> newline) bs = l"
    by (rule split_at_newline)
  have n: "n = length l + 1" using acc lt bs(3) by (auto simp: accumulate_def Let_def split: if_splits)
  have r': "r' = (if overflowed r then r
            else if max_bytes r < length (partial r) + length l + 1 then r\<lparr>overflowed := True, partial := []\<rparr>
                 else r\<lparr>partial := partial r @ l @ [newline]\<rparr>)"
    using acc lt bs(3) by (auto simp: accumulate_def Let_def bs(1) split: if_splits)
  have keep: "fetched r' = fetched r" "max_bytes r' = max_bytes r" by (simp_all add: r')
  have over: "overflowed r' \<longleftrightarrow> max_bytes r < length (acc @ l @ [newline])"
    using mid by (auto simp: r' midline_def)
  have "\<not> overflowed r' \<Longrightarrow> partial r' = acc @ l @ [newline]"
    using mid by (simp add: r' midline_def split: if_splits)
  with over keep have "res = line_result from_str render show_utf8_error (max_bytes r) (acc @ l @ [newline]) \<and>
      midline r'' [] \<and> max_bytes r'' = max_bytes r \<and> fetched r'' = fs"
    using fin by (cases "overflowed r'") (auto simp: finish_line_def line_result_def midline_def)
  with bs(1,2) n keep show ?thesis by blast
qed

lemma fill_buf_stream:
  "fill_buf r src = (got, r', src') \<Longrightarrow>
     stream r' src' = stream r src \<and> max_bytes r' = max_bytes r \<and> overflowed r' = overflowed r \<and>
     partial r' = partial r \<and> (\<forall>bs. got = Some (Inr bs) \<longrightarrow> fetched r' = bs)"
  by (auto simp: fill_buf_def stream_def split: if_splits list.splits sum.splits)

lemma arm_stream:
  "arm r d a = (res, r') \<Longrightarrow>
     stream r' src = stream r src \<and> max_bytes r' = max_bytes r \<and> overflowed r' = overflowed r \<and>
     partial r' = partial r \<and> fetched r' = fetched r"
  by (auto simp: arm_def stream_def split: if_splits option.splits)

lemma arm_Inl: "arm r d a = (Inl e, r') \<Longrightarrow> \<exists>t. e = Io t"
  by (auto simp: arm_def split: if_splits option.splits)

lemma midline_cong:
  "max_bytes r' = max_bytes r \<Longrightarrow> overflowed r' = overflowed r \<Longrightarrow> partial r' = partial r \<Longrightarrow>
     midline r' acc = midline r acc"
  by (simp add: midline_def)

text \<open>
  What one call does to the stream: it stops inside a line, having remembered what it took, or it
  takes the stream through the next newline and returns what the line is worth.
\<close>

definition line_taken :: "(string \<Rightarrow> string + json) \<Rightarrow> (de_error \<Rightarrow> string) \<Rightarrow> (bytes \<Rightarrow> string) \<Rightarrow>
    nat \<Rightarrow> bytes \<Rightarrow> bytes \<Rightarrow> jsonrpc_message result option \<Rightarrow> line_reader \<Rightarrow> byte_source \<Rightarrow> bool" where
  "line_taken from_str render show_utf8_error m acc before res r' src' \<longleftrightarrow>
     (\<exists>l. newline \<notin> set l \<and> max_bytes r' = m \<and> before = l @ newline # stream r' src' \<and> midline r' [] \<and>
        res = Some (line_result from_str render show_utf8_error m (acc @ l @ [newline])))"

definition framed :: "(string \<Rightarrow> string + json) \<Rightarrow> (de_error \<Rightarrow> string) \<Rightarrow> (bytes \<Rightarrow> string) \<Rightarrow>
    nat \<Rightarrow> bytes \<Rightarrow> bytes \<Rightarrow> jsonrpc_message result option \<Rightarrow> line_reader \<Rightarrow> byte_source \<Rightarrow> bool" where
  "framed from_str render show_utf8_error m acc before res r' src' \<longleftrightarrow>
     line_taken from_str render show_utf8_error m acc before res r' src' \<or>
     (\<exists>l. newline \<notin> set l \<and> max_bytes r' = m \<and> before = l @ stream r' src' \<and> midline r' (acc @ l) \<and>
        (\<forall>v. res \<noteq> Some (Inr v)) \<and> (\<forall>t. res \<noteq> Some (Inl (InvalidMessage t))))"

lemma line_taken_more:
  "line_taken from_str render show_utf8_error m (acc @ bs) before res r' src' \<Longrightarrow> newline \<notin> set bs \<Longrightarrow>
     line_taken from_str render show_utf8_error m acc (bs @ before) res r' src'"
  unfolding line_taken_def by (elim exE, rule_tac x = "bs @ l" in exI) auto

lemma framed_more:
  assumes "framed from_str render show_utf8_error m (acc @ bs) before res r' src'" and "newline \<notin> set bs"
  shows "framed from_str render show_utf8_error m acc (bs @ before) res r' src'"
proof (cases "line_taken from_str render show_utf8_error m (acc @ bs) before res r' src'")
  case True
  from line_taken_more [OF this assms(2)] show ?thesis by (simp add: framed_def)
next
  case False
  then obtain l where "newline \<notin> set l" "max_bytes r' = m" "before = l @ stream r' src'" "midline r' ((acc @ bs) @ l)"
      "\<forall>v. res \<noteq> Some (Inr v)" "\<forall>t. res \<noteq> Some (Inl (InvalidMessage t))"
    using assms(1) unfolding framed_def by blast
  with assms(2) show ?thesis unfolding framed_def by (intro disjI2 exI [of _ "bs @ l"]) simp
qed

lemma framed_stop:
  "midline r' acc \<Longrightarrow> stream r' src' = before \<Longrightarrow> max_bytes r' = m \<Longrightarrow>
     (\<forall>v. res \<noteq> Some (Inr v)) \<Longrightarrow> (\<forall>t. res \<noteq> Some (Inl (InvalidMessage t))) \<Longrightarrow>
     framed from_str render show_utf8_error m acc before res r' src'"
  unfolding framed_def by (intro disjI2 exI [of _ "[]"]) simp

lemma timed_out_not: "timed_out sd t \<noteq> InvalidMessage x" "InvalidMessage x \<noteq> timed_out sd t"
  by (simp_all add: timed_out_def split: option.split)

lemma accumulate_taken:
  assumes mid: "midline r acc" and acc: "accumulate r (fetched r) = (True, n, rc)"
    and fin: "finish_line from_str render show_utf8_error (rc\<lparr>fetched := drop n (fetched rc)\<rparr>) = (res, r')"
  shows "line_taken from_str render show_utf8_error (max_bytes r) acc (stream r src) (Some res) r' src"
proof -
  obtain l rest where l: "fetched r = l @ newline # rest" "newline \<notin> set l" "n = length l + 1"
      "res = line_result from_str render show_utf8_error (max_bytes r) (acc @ l @ [newline])"
      "midline r' []" "fetched rc = fetched r" "max_bytes r' = max_bytes r" "fetched r' = drop n (fetched rc)"
    using accumulate_ends [OF mid acc fin] by blast
  then have "stream r src = l @ newline # stream r' src" by (simp add: stream_def)
  with l show ?thesis unfolding line_taken_def by (intro exI [of _ l]) simp
qed

lemma read_loop_framed:
  assumes "midline r acc"
    and "read_loop from_str render show_utf8_error show_duration timeout deadline r src passes = (res, r', src')"
  shows "framed from_str render show_utf8_error (max_bytes r) acc (stream r src) res r' src'"
  using assms
proof (induction passes arbitrary: r src acc)
  case Nil
  then show ?case by (auto intro: framed_stop)
next
  case (Cons pass passes)
  obtain now applied where p: "pass = (now, applied)" by (cases pass)
  let ?late = "case deadline of Some dl \<Rightarrow> dl \<le> now | None \<Rightarrow> False"
  obtain a ra where arm: "arm r (deadline \<noteq> None) applied = (a, ra)" by fastforce
  obtain got rf sf where fill: "fill_buf ra src = (got, rf, sf)" by (metis prod_cases3)
  note armed = arm_stream [OF arm, of src] and filled = fill_buf_stream [OF fill]
  have mid: "midline ra acc" "midline rf acc" "max_bytes rf = max_bytes r" "stream rf sf = stream r src"
    using Cons.prems(1) armed filled midline_cong [of ra r] midline_cong [of rf r] by auto
  consider "?late" | e where "\<not> ?late" "a = Inl e" | "\<not> ?late" "a = Inr ()" "got = None"
    | e where "\<not> ?late" "a = Inr ()" "got = Some (Inl e)" "\<not> (is_interrupt e \<and> \<not> is_timeout e)"
    | e where "\<not> ?late" "a = Inr ()" "got = Some (Inl e)" "is_interrupt e" "\<not> is_timeout e"
    | "\<not> ?late" "a = Inr ()" "got = Some (Inr [])"
    | bs where "\<not> ?late" "a = Inr ()" "got = Some (Inr bs)" "bs \<noteq> []"
    by (cases a; cases got) (auto split: sum.splits, metis sum.exhaust)
  then show ?case
  proof cases
    case 1
    with Cons.prems p show ?thesis by (auto simp: timed_out_not intro!: framed_stop)
  next
    case 2
    with Cons.prems(2) p arm have "res = Some (Inl e)" "r' = ra" "src' = src" by simp_all
    moreover obtain t where "e = Io t" using arm_Inl [of r _ applied e ra] arm 2 by blast
    ultimately show ?thesis using armed mid(1) by (intro framed_stop) auto
  next
    case 3
    with Cons.prems(2) p arm fill have "res = None" "r' = rf" "src' = sf" by simp_all
    with mid show ?thesis by (intro framed_stop) auto
  next
    case 4
    with Cons.prems(2) p arm fill have "r' = rf" "src' = sf"
      "res \<in> {Some (Inl (timed_out show_duration timeout)), Some (Inl TransportClosed), Some (Inl (Io (description e)))}"
      by (simp_all split: if_splits)
    with mid show ?thesis by (intro framed_stop) (auto simp: timed_out_not)
  next
    case 5
    with Cons.prems(2) p arm fill
    have "read_loop from_str render show_utf8_error show_duration timeout deadline rf sf passes = (res, r', src')"
      by (simp split: if_splits)
    from Cons.IH [OF mid(2) this] mid show ?thesis by simp
  next
    case 6
    with Cons.prems(2) p arm fill have "res = Some (Inl TransportClosed)" "r' = rf" "src' = sf" by simp_all
    with mid show ?thesis by (intro framed_stop) auto
  next
    case (7 bs)
    obtain ended n rc where acc: "accumulate rf bs = (ended, n, rc)" by (metis prod_cases3)
    have fetched: "fetched rf = bs" using filled 7 by simp
    show ?thesis
    proof (cases ended)
      case False
      note more = accumulate_continues [OF mid(2), of bs n rc]
      let ?r = "rc\<lparr>fetched := drop n (fetched rc)\<rparr>"
      have "read_loop from_str render show_utf8_error show_duration timeout deadline ?r sf passes = (res, r', src')"
        using Cons.prems(2) p arm fill 7 acc False by (simp add: Let_def split: if_splits)
      moreover have "midline ?r (acc @ bs)" "stream r src = bs @ stream ?r sf" "max_bytes ?r = max_bytes r"
        using more acc False fetched mid midline_cong [of ?r rc] by (auto simp: stream_def)
      ultimately show ?thesis
        using Cons.IH [of ?r "acc @ bs" sf] more acc False framed_more by metis
    next
      case True
      let ?r = "rc\<lparr>fetched := drop n (fetched rc)\<rparr>"
      obtain fres rq where fin: "finish_line from_str render show_utf8_error ?r = (fres, rq)" by fastforce
      have res: "res = Some fres" "r' = rq" "src' = sf"
        using Cons.prems(2) p arm fill 7 acc True fin by (simp_all add: Let_def split: if_splits)
      have "line_taken from_str render show_utf8_error (max_bytes rf) acc (stream rf sf) (Some fres) rq sf"
        by (rule accumulate_taken [OF mid(2) _ fin]) (use acc True fetched in auto)
      with res mid show ?thesis unfolding framed_def by simp
    qed
  qed
qed


section \<open>Properties\<close>

text \<open>
  C10: No byte is lost and no message boundary moves. A call, however its reads are sized and
  whether it ends in a message, a timeout, an interruption, a disconnection or an error, either
  stops inside the current line and still holds (or has rightly given up as too long) every byte
  of it, or returns what exactly that line is worth and leaves the rest of the stream unread;
  and never more than the ceiling is held.
\<close>

theorem read_message_frames:
  assumes "midline r acc"
    and "read_message from_str render show_utf8_error show_duration timeout start r src passes = (res, r', src')"
  shows "framed from_str render show_utf8_error (max_bytes r) acc (stream r src) res r' src' \<and>
     length (partial r') \<le> max_bytes r"
proof -
  have f: "framed from_str render show_utf8_error (max_bytes r) acc (stream r src) res r' src'"
    using read_loop_framed [OF assms(1)] assms(2) unfolding read_message_def by blast
  then obtain a where "midline r' a" "max_bytes r' = max_bytes r" by (auto simp: framed_def line_taken_def)
  then have "length (partial r') \<le> max_bytes r" by (auto simp: midline_def split: if_splits)
  with f show ?thesis ..
qed

text \<open>A decoder and printers for the examples: every text decodes to null.\<close>

abbreviation sample_read where
  "sample_read \<equiv> read_message (\<lambda>_. Inr JNull) (\<lambda>_. []) (\<lambda>_. []) (\<lambda>_. [])"

lemma midline_new: "midline (with_limit m) []"
  by (simp add: midline_def with_limit_def)

theorem read_message_frames_witness:
  "let (res, r', src') = sample_read (Some 5) 0 (with_limit 10) [Inr ''ab'', Inl (IoError TimedOut [])] [(0, None), (1, None)]
   in framed (\<lambda>_. Inr JNull) (\<lambda>_. []) (\<lambda>_. []) 10 [] ''ab'' res r' src'"
proof -
  obtain res r' src' where e: "sample_read (Some 5) 0 (with_limit 10) [Inr ''ab'', Inl (IoError TimedOut [])]
      [(0, None), (1, None)] = (res, r', src')"
    by (metis prod_cases3)
  from read_message_frames [OF midline_new this] e show ?thesis
    by (simp add: stream_def) (simp add: with_limit_def)
qed

lemma read_loop_returns:
  assumes "midline r acc" and "list_all (\<lambda>x. \<exists>bs. x = Inr bs \<and> bs \<noteq> []) src"
    and "newline \<in> set (stream r src)" and "length src + (if fetched r = [] then 0 else 1) \<le> length passes"
    and "read_loop from_str render show_utf8_error show_duration timeout None r src passes = (res, r', src')"
  shows "line_taken from_str render show_utf8_error (max_bytes r) acc (stream r src) res r' src'"
  using assms
proof (induction passes arbitrary: r src acc)
  case Nil
  then show ?case by (auto simp: stream_def split: if_splits)
next
  case (Cons pass passes)
  obtain now applied where p: "pass = (now, applied)" by (cases pass)
  obtain a ra where arm: "arm r False applied = (a, ra)" by fastforce
  have a: "a = Inr ()" using arm by (auto simp: arm_def split: if_splits)
  note armed = arm_stream [OF arm]
  obtain bs rf sf where fill: "fill_buf ra src = (Some (Inr bs), rf, sf)" and bs: "bs \<noteq> []" and f: "fetched rf = bs"
    and sf: "list_all (\<lambda>x. \<exists>bs. x = Inr bs \<and> bs \<noteq> []) sf" "length sf + 1 = length src + (if fetched r = [] then 0 else 1)"
  proof (cases "fetched ra = []")
    case True
    with Cons.prems(2,3) armed obtain b s where "src = Inr b # s" "b \<noteq> []" by (cases src) (auto simp: stream_def)
    with True armed Cons.prems(2) that [of b "ra\<lparr>fetched := b\<rparr>" s] show ?thesis by (simp add: fill_buf_def)
  next
    case False
    with armed Cons.prems(2) that [of "fetched ra" ra src] show ?thesis by (simp add: fill_buf_def)
  qed
  have st: "stream rf sf = stream r src" "max_bytes rf = max_bytes r" and mid: "midline rf acc"
    using fill_buf_stream [OF fill] armed Cons.prems(1) midline_cong [of rf r] by auto
  obtain ended n rc where acc: "accumulate rf bs = (ended, n, rc)" by (metis prod_cases3)
  let ?r = "rc\<lparr>fetched := drop n (fetched rc)\<rparr>"
  show ?case
  proof (cases ended)
    case True
    obtain fres rq where fin: "finish_line from_str render show_utf8_error ?r = (fres, rq)" by fastforce
    with Cons.prems(5) p arm a fill bs acc True have "res = Some fres" "r' = rq" "src' = sf"
      by (simp_all add: Let_def)
    moreover have "line_taken from_str render show_utf8_error (max_bytes rf) acc (stream rf sf) (Some fres) rq sf"
      by (rule accumulate_taken [OF mid _ fin]) (use acc True f in auto)
    ultimately show ?thesis using st by simp
  next
    case False
    note more = accumulate_continues [OF mid, of bs n rc]
    have "midline ?r (acc @ bs)" "stream r src = bs @ stream ?r sf" "max_bytes ?r = max_bytes r" "fetched ?r = []"
        "newline \<notin> set bs"
      using more acc False f st midline_cong [of ?r rc] by (auto simp: stream_def)
    moreover have "read_loop from_str render show_utf8_error show_duration timeout None ?r sf passes = (res, r', src')"
      using Cons.prems(5) p arm a fill bs acc False by (simp add: Let_def)
    ultimately show ?thesis
      using Cons.IH [of ?r "acc @ bs" sf] sf Cons.prems(3,4) line_taken_more by (auto simp: stream_def)
  qed
qed

text \<open>
  A message that has arrived is returned: with no deadline and a source that keeps
  delivering bytes, a newline in the stream ends the loop, with the line it ends, after at most
  one pass per read and one more.
\<close>

theorem read_message_returns:
  assumes "midline r acc" and "list_all (\<lambda>x. \<exists>bs. x = Inr bs \<and> bs \<noteq> []) src"
    and "newline \<in> set (stream r src)" and "length src + 1 \<le> length passes"
    and "read_message from_str render show_utf8_error show_duration None start r src passes = (res, r', src')"
  shows "line_taken from_str render show_utf8_error (max_bytes r) acc (stream r src) res r' src'"
  by (rule read_loop_returns [OF assms(1-3)]) (use assms(4,5) in \<open>auto simp: read_message_def\<close>)

theorem read_message_returns_witness:
  "fst (sample_read None 0 (with_limit 10) [Inr ''a'', Inr [newline]] [(0, None), (0, None), (0, None)]) \<noteq> None"
proof -
  obtain res r' src' where e: "sample_read None 0 (with_limit 10) [Inr ''a'', Inr [newline]]
      [(0, None), (0, None), (0, None)] = (res, r', src')"
    by (metis prod_cases3)
  from read_message_returns [OF midline_new _ _ _ this] e show ?thesis
    by (auto simp: stream_def line_taken_def)
qed

fun read_messages :: "(string \<Rightarrow> string + json) \<Rightarrow> (de_error \<Rightarrow> string) \<Rightarrow> (bytes \<Rightarrow> string) \<Rightarrow> (nat \<Rightarrow> string) \<Rightarrow>
    nat \<Rightarrow> line_reader \<Rightarrow> byte_source \<Rightarrow> jsonrpc_message result option list" where
  "read_messages from_str render show_utf8_error show_duration 0 r src = []"
| "read_messages from_str render show_utf8_error show_duration (Suc n) r src =
     (case read_message from_str render show_utf8_error show_duration None 0 r src
             (replicate (length src + 1) (0, None)) of
        (res, r, src) \<Rightarrow> res # read_messages from_str render show_utf8_error show_duration n r src)"

lemma read_loop_source:
  "list_all P src \<Longrightarrow> list_all P (snd (snd (read_loop from_str render show_utf8_error show_duration timeout dl r src passes)))"
proof (induction passes arbitrary: r src)
  case (Cons pass passes)
  obtain now applied where p: "pass = (now, applied)" by (cases pass)
  have "list_all P (snd (snd (fill_buf x src)))" for x
    using Cons.prems by (auto simp: fill_buf_def split: list.split sum.split)
  then have "list_all P sf" if "fill_buf x src = (got, rf, sf)" for x got rf sf
    using that by (metis snd_conv)
  with Cons p show ?case
    by (auto simp: Let_def split: prod.split sum.split option.split)
qed simp


lemma line_taken_exact:
  assumes "line_taken from_str render show_utf8_error m [] (l @ newline # rest) res r' src'" and "newline \<notin> set l"
  shows "stream r' src' = rest \<and> midline r' [] \<and> max_bytes r' = m \<and>
     res = Some (line_result from_str render show_utf8_error m (l @ [newline]))"
proof -
  obtain k where k: "newline \<notin> set k" "max_bytes r' = m" "l @ newline # rest = k @ newline # stream r' src'"
      "midline r' []" "res = Some (line_result from_str render show_utf8_error m (k @ [newline]))"
    using assms(1) by (auto simp: line_taken_def)
  have "takeWhile (\<lambda>b. b \<noteq> newline) (l @ newline # rest) = l" "takeWhile (\<lambda>b. b \<noteq> newline) (k @ newline # stream r' src') = k"
    using assms(2) k(1) by (simp_all add: takeWhile_tail) (induction l; induction k; auto)+
  with k(3) have "k = l" by simp
  with k show ?thesis by simp
qed

lemma read_messages_lines:
  assumes "midline r []" and "list_all (\<lambda>x. \<exists>bs. x = Inr bs \<and> bs \<noteq> []) src"
    and "stream r src = concat (map (\<lambda>l. l @ [newline]) ls)" and "\<forall>l \<in> set ls. newline \<notin> set l"
  shows "read_messages from_str render show_utf8_error show_duration (length ls) r src =
     map (\<lambda>l. Some (line_result from_str render show_utf8_error (max_bytes r) (l @ [newline]))) ls"
  using assms
proof (induction ls arbitrary: r src)
  case (Cons l ls)
  obtain res r' src' where e: "read_message from_str render show_utf8_error show_duration None 0 r src
      (replicate (length src + 1) (0, None)) = (res, r', src')"
    by (metis prod_cases3)
  have st: "stream r src = l @ newline # concat (map (\<lambda>l. l @ [newline]) ls)" using Cons.prems(3) by simp
  then have "line_taken from_str render show_utf8_error (max_bytes r) [] (stream r src) res r' src'"
    using read_loop_returns [OF Cons.prems(1,2) _ _ e [unfolded read_message_def option.map]] by simp
  from line_taken_exact [OF this [unfolded st]] Cons.prems(4)
  have r': "stream r' src' = concat (map (\<lambda>l. l @ [newline]) ls)" "midline r' []" "max_bytes r' = max_bytes r"
      "res = Some (line_result from_str render show_utf8_error (max_bytes r) (l @ [newline]))"
    by simp_all
  have "list_all (\<lambda>x. \<exists>bs. x = Inr bs \<and> bs \<noteq> []) src'"
    using read_loop_source [OF Cons.prems(2), of from_str render show_utf8_error show_duration None None r
        "replicate (length src + 1) (0, None)"] e
    by (simp only: read_message_def option.map snd_conv)
  with Cons.IH [of r' src'] r' Cons.prems(4) e show ?case by simp
qed simp

text \<open>
  Framing does not depend on how the bytes are cut up: from a source that delivers some
  lines in any pieces, successive calls return, in order, what each line is worth, where a line
  over the ceiling is an error and the next message is unaffected.
\<close>

theorem framing_ignores_chunking:
  assumes "list_all (\<lambda>x. \<exists>bs. x = Inr bs \<and> bs \<noteq> []) src"
    and "bytes_of src = concat (map (\<lambda>l. l @ [newline]) ls)" and "\<forall>l \<in> set ls. newline \<notin> set l"
  shows "read_messages from_str render show_utf8_error show_duration (length ls) (with_limit m) src =
     map (\<lambda>l. Some (line_result from_str render show_utf8_error (max m 1) (l @ [newline]))) ls"
  using read_messages_lines [OF midline_new assms(1) _ assms(3), of m] assms(2)
  by (simp add: stream_def with_limit_def)

theorem framing_ignores_chunking_witness:
  "read_messages (\<lambda>_. Inr JNull) (\<lambda>_. []) (\<lambda>_. []) (\<lambda>_. []) (Suc (Suc 0)) (with_limit 3) [Inr ''a'', Inr [newline, CHR ''b'', newline]] =
     map (\<lambda>l. Some (line_result (\<lambda>_. Inr JNull) (\<lambda>_. []) (\<lambda>_. []) 3 (l @ [newline]))) [''a'', ''b'']"
proof -
  have "newline \<notin> set ''a''" "newline \<notin> set ''b''" by (simp_all add: newline_def)
  then show ?thesis
    using framing_ignores_chunking [of "[Inr ''a'', Inr [newline, CHR ''b'', newline]]" "[''a'', ''b'']"
        "\<lambda>_. Inr JNull" "\<lambda>_. []" "\<lambda>_. []" "\<lambda>_. []" 3]
    by (simp del: read_messages.simps)
qed

lemma read_loop_deadline:
  "\<exists>(now, applied) \<in> set passes. dl \<le> now \<Longrightarrow>
     read_loop from_str render show_utf8_error show_duration timeout (Some dl) r src passes = (None, r', src') \<Longrightarrow>
     src' = [] \<and> fetched r' = []"
proof (induction passes arbitrary: r src)
  case (Cons pass passes)
  obtain now applied where p: "pass = (now, applied)" by (cases pass)
  obtain a ra where arm: "arm r True applied = (a, ra)" by fastforce
  obtain got rf sf where fill: "fill_buf ra src = (got, rf, sf)" by (metis prod_cases3)
  have now: "\<not> dl \<le> now" and a: "a = Inr ()" using Cons.prems(2) p arm by (cases a; auto split: if_splits)+
  have later: "\<exists>(now, applied) \<in> set passes. dl \<le> now" using Cons.prems(1) now p by auto
  show ?case
  proof (cases "\<exists>r src. read_loop from_str render show_utf8_error show_duration timeout (Some dl) r src passes = (None, r', src')")
    case True
    with Cons.IH later show ?thesis by blast
  next
    case False
    then have "got = None" "r' = rf" "src' = sf"
      using Cons.prems(2) p arm fill now a
      by (auto simp: Let_def split: option.splits sum.splits if_splits prod.splits)
    with fill show ?thesis by (auto simp: fill_buf_def split: if_splits list.splits sum.splits)
  qed
qed simp

text \<open>
  The deadline covers the whole message, not each read: once a pass reads the clock at or
  after the deadline the call has returned, however many reads succeeded before, unless it is
  already blocked in a source that says nothing.
\<close>

theorem read_message_deadline:
  assumes "\<exists>(now, applied) \<in> set passes. start + t \<le> now"
    and "read_message from_str render show_utf8_error show_duration (Some t) start r src passes = (res, r', src')"
  shows "res \<noteq> None \<or> (src' = [] \<and> fetched r' = [])"
  using read_loop_deadline [OF assms(1)] assms(2) unfolding read_message_def by auto

theorem read_message_deadline_witness:
  "fst (sample_read (Some 5) 0 (with_limit 10) [Inr ''a'', Inr ''b'', Inr ''c''] [(0, None), (5, None)]) \<noteq> None"
proof -
  obtain res r' src' where e: "sample_read (Some 5) 0 (with_limit 10) [Inr ''a'', Inr ''b'', Inr ''c'']
      [(0, None), (5, None)] = (res, r', src')"
    by (metis prod_cases3)
  from read_message_deadline [OF _ this] have "res \<noteq> None \<or> src' = []" by auto
  moreover have "snd (snd (sample_read (Some 5) 0 (with_limit 10) [Inr ''a'', Inr ''b'', Inr ''c''] [(0, None), (5, None)])) \<noteq> []"
    by (simp add: read_message_def arm_def with_limit_def fill_buf_def accumulate_def newline_def Let_def)
  ultimately show ?thesis using e by simp
qed

text \<open>
  Changing the ceiling applies to the message in progress: a message whose bytes were within
  the ceiling when they arrived is refused when its newline comes after the ceiling was lowered.
\<close>

theorem set_limit_mid_message:
  assumes "midline r acc" and "\<not> overflowed r" and "max m 1 < length acc + 1" and "fetched r = []"
  shows "fst (read_message from_str render show_utf8_error show_duration None 0 (set_limit r m)
       [Inr [newline]] [(0, None)]) =
     Some (Inl (InvalidMessage (''message exceeds the '' @ show_nat (max m 1) @ '' byte limit'')))"
  using assms
  by (auto simp: read_message_def set_limit_def arm_def fill_buf_def accumulate_def midline_def
      finish_line_def Let_def)

theorem set_limit_mid_message_witness:
  "fst (sample_read None 0 (set_limit (\<lparr>fetched = [], partial = ''abcde'', max_bytes = 10, overflowed = False, armed = False\<rparr>) 3)
       [Inr [newline]] [(0, None)]) =
     Some (Inl (InvalidMessage (''message exceeds the '' @ show_nat 3 @ '' byte limit'')))"
  using set_limit_mid_message [of "\<lparr>fetched = [], partial = ''abcde'', max_bytes = 10, overflowed = False, armed = False\<rparr>" "''abcde''" 3]
  by (simp add: midline_def newline_def)

end
