(* ===== verification/Http1.thy ===== *)
theory Http1
  imports Line
begin

text \<open>
  The HTTP/1.1 server (\<open>transport/http1.rs\<close>): the head of a request, the framing of its body, the
  bounded reads, the response and the rule that decides whether a connection carries another
  request. A connection is the bytes already fetched, what its socket will still deliver (each
  delivery with the time it takes to come), the clock, the socket's read timeout and what was
  written so far; time passes in reads only. The head parser and the chunk-size parser of the
  \<open>httparse\<close> crate are parameters. The properties: a request and its body are taken off the wire
  exactly as framed, so that the next request starts where this one ends; what a peer can make
  the server hold is bounded; a request that two parsers could delimit differently is refused;
  a slow peer cannot outlast the budget of a request; and a response cannot be split by a header.
\<close>

section \<open>Limits\<close>

definition CHUNK_LINE_BYTES :: nat where "CHUNK_LINE_BYTES = 128"

definition MAX_TRAILERS :: nat where "MAX_TRAILERS = 16"

text \<open>Durations and clock readings are in milliseconds.\<close>

definition MIN_TIMEOUT :: nat where "MIN_TIMEOUT = 1"

definition MAX_LEADING_BLANK_LINES :: nat where "MAX_LEADING_BLANK_LINES = 8"

definition HTTP_MAX_CONNECTIONS :: nat where "HTTP_MAX_CONNECTIONS = 512"

record limits =
  lim_connections :: nat
  max_head_bytes :: nat
  max_headers :: nat
  max_body_bytes :: nat
  read_timeout :: nat
  lim_idle_timeout :: nat
  write_timeout :: nat

definition default_limits :: limits where
  "default_limits = \<lparr>lim_connections = HTTP_MAX_CONNECTIONS, max_head_bytes = 32 * 1024,
     max_headers = 100, max_body_bytes = MAX_MESSAGE_BYTES, read_timeout = 30000,
     lim_idle_timeout = 120000, write_timeout = 30000\<rparr>"

section \<open>The wire\<close>

text \<open>
  \<open>incoming\<close> is what the next reads of the socket return and how long each takes to come;
  \<open>write_errors\<close> what the next writes return. A read that would take longer than the socket's
  timeout fails with \<open>TimedOut\<close> after exactly the timeout, and so does a read of a peer that
  never says anything more.
\<close>

record wire =
  buf :: bytes
  incoming :: "(nat \<times> (io_error + bytes)) list"
  now :: nat
  read_wait :: nat
  written :: bytes
  write_errors :: "io_error option list"

definition expiry :: io_error where
  "expiry = IoError TimedOut []"

definition socket_read :: "wire \<Rightarrow> (io_error + bytes) \<times> wire" where
  "socket_read w =
     (case incoming w of
        [] \<Rightarrow> (Inl expiry, w\<lparr>now := now w + read_wait w\<rparr>)
      | (d, r) # rest \<Rightarrow>
          if d \<le> read_wait w then (r, w\<lparr>now := now w + d, incoming := rest\<rparr>)
          else (Inl expiry, w\<lparr>now := now w + read_wait w, incoming := (d - read_wait w, r) # rest\<rparr>))"

definition fill :: "wire \<Rightarrow> (io_error + bytes) \<times> wire" where
  "fill w =
     (if buf w \<noteq> [] then (Inr (buf w), w)
      else case socket_read w of
             (Inl e, w) \<Rightarrow> (Inl e, w)
           | (Inr bs, w) \<Rightarrow> (Inr bs, w\<lparr>buf := bs\<rparr>))"

definition consume :: "nat \<Rightarrow> wire \<Rightarrow> wire" where
  "consume n w = w\<lparr>buf := drop n (buf w)\<rparr>"

definition arm_read :: "nat \<Rightarrow> wire \<Rightarrow> wire" where
  "arm_read t w = w\<lparr>read_wait := max t MIN_TIMEOUT\<rparr>"

definition write_all :: "bytes \<Rightarrow> wire \<Rightarrow> (io_error + unit) \<times> wire" where
  "write_all bs w =
     (case write_errors w of
        Some e # es \<Rightarrow> (Inl e, w\<lparr>write_errors := es\<rparr>)
      | None # es \<Rightarrow> (Inr (), w\<lparr>write_errors := es, written := written w @ bs\<rparr>)
      | [] \<Rightarrow> (Inr (), w\<lparr>written := written w @ bs\<rparr>))"

text \<open>A deadline is the moment a request's budget runs out.\<close>

definition starting_now :: "nat \<Rightarrow> wire \<Rightarrow> nat" where
  "starting_now budget w = now w + budget"

definition deadline_expired :: "nat \<Rightarrow> wire \<Rightarrow> bool" where
  "deadline_expired at w \<longleftrightarrow> at \<le> now w"

definition arm_deadline :: "nat \<Rightarrow> wire \<Rightarrow> wire" where
  "arm_deadline at w = arm_read (at - now w) w"

text \<open>What is still to come, and a bound on the number of reads it takes.\<close>

definition coming :: "wire \<Rightarrow> bytes" where
  "coming w = buf w @ bytes_of (map snd (incoming w))"

definition wire_size :: "wire \<Rightarrow> nat" where
  "wire_size w = length (coming w) + length (incoming w)"

section \<open>Bounded reads\<close>

datatype body_error = TooLarge | Malformed | Incomplete | BodyTimedOut

definition interrupted :: "io_error + bytes \<Rightarrow> bool" where
  "interrupted r \<longleftrightarrow> (case r of Inl e \<Rightarrow> kind e = Interrupted | Inr _ \<Rightarrow> False)"

lemma bytes_of_append: "bytes_of (a @ b) = bytes_of a @ bytes_of b"
  by (induction a rule: bytes_of.induct) auto

lemma socket_read_coming:
  "socket_read w = (r, w') \<Longrightarrow>
     bytes_of (map snd (incoming w)) = (case r of Inl _ \<Rightarrow> [] | Inr bs \<Rightarrow> bs) @ bytes_of (map snd (incoming w')) \<and>
     buf w' = buf w \<and> length (incoming w') \<le> length (incoming w) \<and>
     (interrupted r \<longrightarrow> length (incoming w') < length (incoming w))"
  by (auto simp: socket_read_def interrupted_def expiry_def split: list.splits prod.splits if_splits sum.splits)

lemma fill_coming:
  assumes "fill w = (r, w')"
  shows "coming w' = coming w \<and> length (incoming w') \<le> length (incoming w) \<and>
     (interrupted r \<longrightarrow> length (incoming w') < length (incoming w)) \<and>
     (\<forall>bs. r = Inr bs \<longrightarrow> buf w' = bs)"
  using assms socket_read_coming [of w]
  by (auto simp: fill_def coming_def interrupted_def split: if_splits prod.splits sum.splits)

lemma coming_arm [simp]: "coming (arm_deadline at w) = coming w" "coming (arm_read t w) = coming w"
  by (simp_all add: arm_deadline_def arm_read_def coming_def)

lemma buf_arm [simp]: "buf (arm_deadline at w) = buf w" "buf (arm_read t w) = buf w"
  by (simp_all add: arm_deadline_def arm_read_def)

lemma incoming_arm [simp]: "incoming (arm_deadline at w) = incoming w" "incoming (arm_read t w) = incoming w"
  by (simp_all add: arm_deadline_def arm_read_def)

lemma consume_coming: "n \<le> length (buf w) \<Longrightarrow> coming w = take n (buf w) @ coming (consume n w)"
  by (simp add: coming_def consume_def flip: append_assoc)

lemma consume_simps [simp]: "incoming (consume n w) = incoming w" "now (consume n w) = now w"
  by (simp_all add: consume_def)

text \<open>\<open>read_exactly\<close>, onto the end of \<open>into\<close>.\<close>

function read_exactly :: "wire \<Rightarrow> nat \<Rightarrow> bytes \<Rightarrow> nat \<Rightarrow> (body_error + bytes) \<times> wire" where
  "read_exactly w outstanding into deadline =
     (if outstanding = 0 then (Inr into, w)
      else if deadline_expired deadline w then (Inl BodyTimedOut, w)
      else case fill (arm_deadline deadline w) of
        (r, w') \<Rightarrow>
          if interrupted r then read_exactly w' outstanding into deadline
          else case r of
            Inl e \<Rightarrow> (Inl (if is_timeout e then BodyTimedOut else Incomplete), w')
          | Inr available \<Rightarrow>
              if available = [] then (Inl Incomplete, w')
              else let n = min (length available) outstanding
                   in read_exactly (consume n w') (outstanding - n) (into @ take n available) deadline)"
  by pat_completeness auto
termination
proof (relation "measure (\<lambda>(w, outstanding, into, deadline). outstanding + length (incoming w))", goal_cases)
  case (2 w outstanding into deadline r w')
  then show ?case using fill_coming [of "arm_deadline deadline w" r w'] by simp
next
  case (3 w outstanding into deadline r w' available n)
  then have "length (incoming w') \<le> length (incoming w)" "0 < n" "n \<le> outstanding"
    using fill_coming [of "arm_deadline deadline w" r w'] by (auto simp: min_def split: if_splits)
  then show ?case by simp
qed simp

declare read_exactly.simps [simp del]

datatype line = Text string bool | Eof | TooLong | Invalid

text \<open>The loop of \<open>read_line\<close>: the bytes read and whether a newline ended them.\<close>

function read_line_bytes :: "wire \<Rightarrow> nat \<Rightarrow> bytes \<Rightarrow> nat \<Rightarrow> (io_error + bytes \<times> bool) \<times> wire" where
  "read_line_bytes w budget raw deadline =
     (if deadline_expired deadline w then (Inl expiry, w)
      else case fill (arm_deadline deadline w) of
        (r, w') \<Rightarrow>
          if interrupted r then read_line_bytes w' budget raw deadline
          else case r of
            Inl e \<Rightarrow> (Inl e, w')
          | Inr available \<Rightarrow>
              if available = [] then (Inr (raw, False), w')
              else
                let room = min (length available) budget;
                    index = length (takeWhile (\<lambda>b. b \<noteq> newline) (take room available));
                    n = (if index < room then index + 1 else room);
                    raw = raw @ take n available;
                    w'' = consume n w'
                in if ends_with [newline] raw then (Inr (raw, True), w'')
                   else if budget - n = 0 then (Inr (raw, False), w'')
                   else read_line_bytes w'' (budget - n) raw deadline)"
  by pat_completeness auto
termination
proof (relation "measure (\<lambda>(w, budget, raw, deadline). budget + length (incoming w))", goal_cases)
  case (2 w budget raw deadline r w')
  then show ?case using fill_coming [of "arm_deadline deadline w" r w'] by simp
next
  case (3 w budget raw deadline r w' available room index n raw' w'')
  then have "length (incoming w') \<le> length (incoming w)" "0 < n"
    using fill_coming [of "arm_deadline deadline w" r w'] by (auto split: if_splits)
  moreover have "budget - n \<noteq> 0" "w'' = consume n w'" using 3 by auto
  ultimately show ?case by simp
qed simp

declare read_line_bytes.simps [simp del]

definition is_framing_text :: "bytes \<Rightarrow> bool" where
  "is_framing_text raw \<longleftrightarrow>
     utf8_valid raw \<and>
     list_all (\<lambda>b. b = CHR 0x09 \<or> (0x20 \<le> (of_char b :: nat) \<and> (of_char b :: nat) < 0x7f) \<or>
        0x80 \<le> (of_char b :: nat)) raw"

definition read_line :: "wire \<Rightarrow> nat \<Rightarrow> nat \<Rightarrow> (io_error + line) \<times> wire" where
  "read_line w budget deadline =
     (if budget = 0 then (Inr TooLong, w)
      else case read_line_bytes w budget [] deadline of
        (Inl e, w) \<Rightarrow> (Inl e, w)
      | (Inr (raw, terminated), w) \<Rightarrow>
          if raw = [] then (Inr Eof, w)
          else if \<not> terminated then (Inr TooLong, w)
          else
            let raw = butlast raw;
                crlf = (raw \<noteq> [] \<and> last raw = CHR 0x0D);
                raw = (if crlf then butlast raw else raw)
            in (Inr (if is_framing_text raw then Text raw crlf else Invalid), w))"


section \<open>Chunked bodies\<close>

datatype 'a parsed = Complete 'a | Partial | ParseError

text \<open>The guard on top of \<open>httparse::parse_chunk_size\<close>, which is \<open>chunk_size\<close>.\<close>

definition parse_chunk_size :: "(bytes \<Rightarrow> (nat \<times> nat) parsed) \<Rightarrow> string \<Rightarrow> nat option" where
  "parse_chunk_size chunk_size line =
     (if line = [] \<or> \<not> is_ascii_hexdigit (hd line) then None
      else case chunk_size (line @ [CHR 0x0D, CHR 0x0A]) of
             Complete (_, sz) \<Rightarrow> if sz < u64_bound then Some sz else None
           | _ \<Rightarrow> None)"

fun read_trailers :: "nat \<Rightarrow> wire \<Rightarrow> nat \<Rightarrow> (body_error + unit) \<times> wire" where
  "read_trailers 0 w deadline = (Inl Malformed, w)"
| "read_trailers (Suc n) w deadline =
     (case read_line w CHUNK_LINE_BYTES deadline of
        (Inr (Text text True), w) \<Rightarrow> if text = [] then (Inr (), w) else read_trailers n w deadline
      | (Inr (Text text False), w) \<Rightarrow> (Inl Malformed, w)
      | (Inr Eof, w) \<Rightarrow> (Inl Incomplete, w)
      | (Inr TooLong, w) \<Rightarrow> (Inl Malformed, w)
      | (Inr Invalid, w) \<Rightarrow> (Inl Malformed, w)
      | (Inl e, w) \<Rightarrow> (Inl (if is_timeout e then BodyTimedOut else Incomplete), w))"

text \<open>
  What the bounded reads do to what is coming: they take a prefix off it. A line that was read
  whole is that prefix with its line ending back on.
\<close>

lemma read_exactly_coming:
  assumes "read_exactly w n into dl = (r, w')"
  shows "\<exists>bs. coming w = bs @ coming w' \<and> length (incoming w') \<le> length (incoming w) \<and> length bs \<le> n \<and>
     (\<forall>body. r = Inr body \<longrightarrow> body = into @ bs \<and> length bs = n)"
  using assms
proof (induction w n into dl rule: read_exactly.induct)
  case (1 w n into dl)
  show ?case
  proof (cases "n = 0 \<or> deadline_expired dl w")
    case True
    with "1.prems" show ?thesis by (auto simp: read_exactly.simps [of w n] split: if_splits)
  next
    case False
    obtain f wf where f: "fill (arm_deadline dl w) = (f, wf)" by fastforce
    note fc = fill_coming [OF f, simplified]
    consider "interrupted f" | e where "\<not> interrupted f" "f = Inl e" | "f = Inr []"
      | a where "f = Inr a" "a \<noteq> []"
      by (cases f) auto
    then show ?thesis
    proof cases
      case 1
      with "1.prems" False f have "read_exactly wf n into dl = (r, w')"
        by (simp add: read_exactly.simps [of w n])
      with "1.IH"(1) [of f wf] False f 1 fc show ?thesis by force
    next
      case 2
      with "1.prems" False f fc show ?thesis by (auto simp: read_exactly.simps [of w n])
    next
      case 3
      with "1.prems" False f fc show ?thesis
        by (auto simp: read_exactly.simps [of w n] interrupted_def)
    next
      case (4 a)
      let ?n = "min (length a) n"
      have ni: "\<not> interrupted f" using 4 by (simp add: interrupted_def)
      have "read_exactly (consume ?n wf) (n - ?n) (into @ take ?n a) dl = (r, w')"
        using "1.prems" False f 4 ni by (simp add: read_exactly.simps [of w n] Let_def)
      with "1.IH"(2) [of f wf a ?n] False f 4 ni
      obtain bs where bs: "coming (consume ?n wf) = bs @ coming w'" "length (incoming w') \<le> length (incoming wf)"
          "length bs \<le> n - ?n" "\<forall>body. r = Inr body \<longrightarrow> body = into @ take ?n a @ bs \<and> length bs = n - ?n"
        by auto
      have "coming w = take ?n a @ bs @ coming w'"
        using fc 4 bs(1) consume_coming [of ?n wf] by simp
      with bs fc show ?thesis by (intro exI [of _ "take ?n a @ bs"]) auto
    qed
  qed
qed

lemma read_line_bytes_coming:
  assumes "read_line_bytes w budget raw dl = (r, w')"
  shows "\<exists>bs. coming w = bs @ coming w' \<and> length (incoming w') \<le> length (incoming w) \<and>
     (\<forall>out t. r = Inr (out, t) \<longrightarrow> out = raw @ bs \<and> (t \<longrightarrow> ends_with [newline] out))"
  using assms
proof (induction w budget raw dl rule: read_line_bytes.induct)
  case (1 w budget raw dl)
  show ?case
  proof (cases "deadline_expired dl w")
    case True
    with "1.prems" show ?thesis by (auto simp: read_line_bytes.simps [of w])
  next
    case False
    obtain f wf where f: "fill (arm_deadline dl w) = (f, wf)" by fastforce
    note fc = fill_coming [OF f, simplified]
    consider "interrupted f" | e where "\<not> interrupted f" "f = Inl e" | "f = Inr []"
      | a where "f = Inr a" "a \<noteq> []"
      by (cases f) auto
    then show ?thesis
    proof cases
      case 1
      with "1.prems" False f have "read_line_bytes wf budget raw dl = (r, w')"
        by (simp add: read_line_bytes.simps [of w])
      with "1.IH"(1) [of f wf] False f 1 fc show ?thesis by force
    next
      case 2
      with "1.prems" False f fc show ?thesis by (auto simp: read_line_bytes.simps [of w])
    next
      case 3
      with "1.prems" False f fc show ?thesis
        by (auto simp: read_line_bytes.simps [of w] interrupted_def)
    next
      case (4 a)
      let ?room = "min (length a) budget"
      let ?i = "length (takeWhile (\<lambda>b. b \<noteq> newline) (take ?room a))"
      let ?n = "if ?i < ?room then ?i + 1 else ?room"
      have ni: "\<not> interrupted f" using 4 by (simp add: interrupted_def)
      have w: "coming w = take ?n a @ coming (consume ?n wf)"
        using fc 4 consume_coming [of ?n wf] by (simp split: if_splits)
      have step: "(r, w') = (if ends_with [newline] (raw @ take ?n a) then (Inr (raw @ take ?n a, True), consume ?n wf)
          else if budget - ?n = 0 then (Inr (raw @ take ?n a, False), consume ?n wf)
          else read_line_bytes (consume ?n wf) (budget - ?n) (raw @ take ?n a) dl)"
        using "1.prems" False f 4 ni by (subst (asm) read_line_bytes.simps) (simp add: Let_def)
      show ?thesis
      proof (cases "ends_with [newline] (raw @ take ?n a) \<or> budget - ?n = 0")
        case True
        with step w fc show ?thesis by (intro exI [of _ "take ?n a"]) (auto split: if_splits)
      next
        case stop: False
        have "\<exists>bs. coming (consume ?n wf) = bs @ coming w' \<and> length (incoming w') \<le> length (incoming (consume ?n wf)) \<and>
            (\<forall>out t. r = Inr (out, t) \<longrightarrow> out = (raw @ take ?n a) @ bs \<and> (t \<longrightarrow> ends_with [newline] out))"
          by (rule "1.IH"(2) [OF False f [symmetric] ni 4(1) 4(2) refl refl refl refl refl])
             (use stop step in \<open>auto split: if_splits\<close>)
        then obtain bs where bs: "coming (consume ?n wf) = bs @ coming w'"
            "length (incoming w') \<le> length (incoming wf)"
            "\<forall>out t. r = Inr (out, t) \<longrightarrow> out = (raw @ take ?n a) @ bs \<and> (t \<longrightarrow> ends_with [newline] out)"
          by auto
        with w fc show ?thesis by (intro exI [of _ "take ?n a @ bs"]) auto
      qed
    qed
  qed
qed


abbreviation crlf :: bytes where "crlf \<equiv> [CHR 0x0D, CHR 0x0A]"

lemma read_line_coming:
  assumes "read_line w budget dl = (r, w')"
  shows "\<exists>bs. coming w = bs @ coming w' \<and> length (incoming w') \<le> length (incoming w) \<and>
     (\<forall>text c. r = Inr (Text text c) \<longrightarrow> bs = text @ (if c then crlf else [newline]) \<and> is_framing_text text)"
proof (cases "budget = 0")
  case True
  with assms show ?thesis by (auto simp: read_line_def)
next
  case False
  obtain b wb where b: "read_line_bytes w budget [] dl = (b, wb)" by fastforce
  obtain bs where bs: "coming w = bs @ coming wb" "length (incoming wb) \<le> length (incoming w)"
      "\<forall>out t. b = Inr (out, t) \<longrightarrow> out = bs \<and> (t \<longrightarrow> ends_with [newline] out)"
    using read_line_bytes_coming [OF b] by auto
  have w': "w' = wb" using assms False b by (auto simp: read_line_def Let_def split: sum.splits prod.splits if_splits)
  have "bs = s @ (if c then crlf else [newline]) \<and> is_framing_text s" if r: "r = Inr (Text s c)" for s c
  proof -
    obtain raw where raw: "b = Inr (raw, True)"
      using assms False b r by (auto simp: read_line_def Let_def split: sum.splits prod.splits if_splits)
    then obtain x where x: "raw = x @ [newline]" "bs = raw" using bs(3) by (auto simp: ends_with_iff)
    show ?thesis
    proof (cases "x \<noteq> [] \<and> last x = CHR 0x0D")
      case True
      then obtain y where "x = y @ [CHR 0x0D]" by (metis append_butlast_last_id)
      with assms False b raw x r show ?thesis
        by (auto simp: read_line_def Let_def newline_def butlast_append split: if_splits)
    next
      case no: False
      with assms False b raw x r show ?thesis
        by (auto simp: read_line_def Let_def split: if_splits)
    qed
  qed
  with bs w' show ?thesis by blast
qed

lemma read_line_size:
  "read_line w budget dl = (Inr (Text text c), w') \<Longrightarrow> wire_size w' < wire_size w"
  using read_line_coming [of w budget dl "Inr (Text text c)" w'] by (force simp: wire_size_def)

lemma read_exactly_size: "read_exactly w n into dl = (r, w') \<Longrightarrow> wire_size w' \<le> wire_size w"
  using read_exactly_coming [of w n into dl r w'] by (auto simp: wire_size_def)

function read_chunked :: "(bytes \<Rightarrow> (nat \<times> nat) parsed) \<Rightarrow> wire \<Rightarrow> nat \<Rightarrow> bytes \<Rightarrow> nat \<Rightarrow> (body_error + bytes) \<times> wire" where
  "read_chunked chunk_size w limit body deadline =
     (case read_line w CHUNK_LINE_BYTES deadline of
        (Inl e, w) \<Rightarrow> (Inl (if is_timeout e then BodyTimedOut else Incomplete), w)
      | (Inr Eof, w) \<Rightarrow> (Inl Incomplete, w)
      | (Inr TooLong, w) \<Rightarrow> (Inl Malformed, w)
      | (Inr Invalid, w) \<Rightarrow> (Inl Malformed, w)
      | (Inr (Text text c), w) \<Rightarrow>
          if \<not> c then (Inl Malformed, w)
          else (case parse_chunk_size chunk_size text of
            None \<Rightarrow> (Inl Malformed, w)
          | Some sz \<Rightarrow>
              if sz = 0 then (case read_trailers (MAX_TRAILERS + 1) w deadline of
                                (Inl e, w) \<Rightarrow> (Inl e, w)
                              | (Inr _, w) \<Rightarrow> (Inr body, w))
              else if limit - length body < sz then (Inl TooLarge, w)
              else (case read_exactly w sz body deadline of
                (Inl e, w) \<Rightarrow> (Inl e, w)
              | (Inr body, w) \<Rightarrow>
                  (case read_line w 2 deadline of
                     (Inl e, w) \<Rightarrow> (Inl (if is_timeout e then BodyTimedOut else Incomplete), w)
                   | (Inr Eof, w) \<Rightarrow> (Inl Incomplete, w)
                   | (Inr (Text text' c'), w) \<Rightarrow>
                       if text' = [] \<and> c' then read_chunked chunk_size w limit body deadline
                       else (Inl Malformed, w)
                   | (Inr _, w) \<Rightarrow> (Inl Malformed, w)))))"
  by pat_completeness auto
termination
proof (relation "measure (\<lambda>(cs, w, limit, body, dl). wire_size w)", goal_cases)
  case (2 cs w limit body dl x y x1 x2 c x3 x4 x5 x6)
  then show ?case
    by (auto dest!: sym [of _ "read_line _ _ _"] sym [of _ "read_exactly _ _ _ _"] dest!: read_line_size read_exactly_size)
qed simp

declare read_chunked.simps [simp del]


text \<open>
  The grammar of a chunked body, as a reference: chunks, each a size line, its data and a line
  ending, then a last chunk of size zero and a trailer section; every line ends in CR LF.
\<close>

inductive trailers :: "bytes \<Rightarrow> bool" where
  trailers_end: "trailers crlf"
| trailers_line: "l \<noteq> [] \<Longrightarrow> is_framing_text l \<Longrightarrow> trailers t \<Longrightarrow> trailers (l @ crlf @ t)"

inductive chunked :: "(bytes \<Rightarrow> (nat \<times> nat) parsed) \<Rightarrow> bytes \<Rightarrow> bytes \<Rightarrow> bool"
  for chunk_size :: "bytes \<Rightarrow> (nat \<times> nat) parsed" where
  last_chunk: "parse_chunk_size chunk_size l = Some 0 \<Longrightarrow> is_framing_text l \<Longrightarrow> trailers t \<Longrightarrow>
     chunked chunk_size (l @ crlf @ t) []"
| chunk: "parse_chunk_size chunk_size l = Some (length d) \<Longrightarrow> is_framing_text l \<Longrightarrow> d \<noteq> [] \<Longrightarrow>
     chunked chunk_size rest body \<Longrightarrow> chunked chunk_size (l @ crlf @ d @ crlf @ rest) (d @ body)"

lemma read_trailers_coming:
  "read_trailers n w dl = (r, w') \<Longrightarrow>
     \<exists>bs. coming w = bs @ coming w' \<and> length (incoming w') \<le> length (incoming w) \<and> (r = Inr () \<longrightarrow> trailers bs)"
proof (induction n arbitrary: w)
  case (Suc n)
  obtain l wl where l: "read_line w CHUNK_LINE_BYTES dl = (l, wl)" by fastforce
  obtain bs where bs: "coming w = bs @ coming wl" "length (incoming wl) \<le> length (incoming w)"
      "\<forall>s c. l = Inr (Text s c) \<longrightarrow> bs = s @ (if c then crlf else [newline]) \<and> is_framing_text s"
    using read_line_coming [OF l] by blast
  show ?case
  proof (cases "\<exists>s. s \<noteq> [] \<and> l = Inr (Text s True)")
    case True
    then obtain s where s: "s \<noteq> []" "l = Inr (Text s True)" by blast
    with Suc.prems l have "read_trailers n wl dl = (r, w')" by simp
    from Suc.IH [OF this] obtain t where t: "coming wl = t @ coming w'" "length (incoming w') \<le> length (incoming wl)"
        "r = Inr () \<longrightarrow> trailers t" by blast
    have "bs = s @ crlf" "is_framing_text s" using bs(3) s by auto
    with bs(1,2) t s trailers_line [of s t] show ?thesis by (intro exI [of _ "bs @ t"]) auto
  next
    case False
    have w': "w' = wl" and "r = Inr () \<longrightarrow> l = Inr (Text [] True)"
      using Suc.prems l False by (auto split: sum.splits line.splits bool.splits if_splits)
    with bs show ?thesis by (intro exI [of _ bs]) (auto intro: trailers_end)
  qed
qed auto

text \<open>One turn of the loop, as the reference sees it.\<close>

lemma read_chunked_cases:
  assumes "read_chunked cs w limit body dl = (r, w')"
  obtains (stop) bs e where "coming w = bs @ coming w'" "length (incoming w') \<le> length (incoming w)" "r = Inl e"
  | (finish) l t where "coming w = l @ crlf @ t @ coming w'" "length (incoming w') \<le> length (incoming w)"
      "parse_chunk_size cs l = Some 0" "is_framing_text l" "trailers t" "r = Inr body"
  | (more) l d w2 where "coming w = l @ crlf @ d @ crlf @ coming w2" "length (incoming w2) \<le> length (incoming w)"
      "parse_chunk_size cs l = Some (length d)" "is_framing_text l" "d \<noteq> []"
      "length body + length d \<le> limit" "read_chunked cs w2 limit (body @ d) dl = (r, w')"
proof -
  obtain lr w1 where lr: "read_line w CHUNK_LINE_BYTES dl = (lr, w1)" by fastforce
  obtain b1 where b1: "coming w = b1 @ coming w1" "length (incoming w1) \<le> length (incoming w)"
      "\<forall>s c. lr = Inr (Text s c) \<longrightarrow> b1 = s @ (if c then crlf else [newline]) \<and> is_framing_text s"
    using read_line_coming [OF lr] by blast
  show ?thesis
  proof (cases "\<exists>l n. lr = Inr (Text l True) \<and> parse_chunk_size cs l = Some n")
    case False
    then have "w' = w1" "\<exists>e. r = Inl e"
      using assms lr by (auto simp: read_chunked.simps [of cs w] split: sum.splits line.splits option.splits if_splits)
    with b1 stop show ?thesis by blast
  next
    case True
    then obtain l n where l: "lr = Inr (Text l True)" "parse_chunk_size cs l = Some n" by blast
    then have b1': "coming w = l @ crlf @ coming w1" "is_framing_text l" using b1 by auto
    show ?thesis
    proof (cases "n = 0")
      case True
      obtain tr w2 where tr: "read_trailers (MAX_TRAILERS + 1) w1 dl = (tr, w2)" by fastforce
      obtain t where t: "coming w1 = t @ coming w2" "length (incoming w2) \<le> length (incoming w1)" "tr = Inr () \<longrightarrow> trailers t"
        using read_trailers_coming [OF tr] by blast
      have "w' = w2" "(case tr of Inl e \<Rightarrow> r = Inl e | Inr _ \<Rightarrow> r = Inr body)"
        using assms lr l tr True by (auto simp: read_chunked.simps [of cs w] split: sum.splits)
      with b1' b1(2) t l True show ?thesis
        by (cases tr) (auto intro: stop [of "l @ crlf @ t"] finish [of l t])
    next
      case nz: False
      show ?thesis
      proof (cases "limit - length body < n")
        case True
        with assms lr l nz have "w' = w1" "r = Inl TooLarge" by (simp_all add: read_chunked.simps [of cs w])
        with b1 stop show ?thesis by blast
      next
        case fits: False
        obtain er w2 where er: "read_exactly w1 n body dl = (er, w2)" by fastforce
        obtain d where d: "coming w1 = d @ coming w2" "length (incoming w2) \<le> length (incoming w1)"
            "\<forall>b. er = Inr b \<longrightarrow> b = body @ d \<and> length d = n"
          using read_exactly_coming [OF er] by blast
        show ?thesis
        proof (cases er)
          case (Inl e)
          with assms lr l nz fits er have "w' = w2" "r = Inl e" by (simp_all add: read_chunked.simps [of cs w])
          with b1 d stop [of "b1 @ d"] show ?thesis by auto
        next
          case (Inr b)
          then have b: "b = body @ d" "length d = n" using d(3) by auto
          obtain sr w3 where sr: "read_line w2 2 dl = (sr, w3)" by fastforce
          obtain b3 where b3: "coming w2 = b3 @ coming w3" "length (incoming w3) \<le> length (incoming w2)"
              "\<forall>s c. sr = Inr (Text s c) \<longrightarrow> b3 = s @ (if c then crlf else [newline]) \<and> is_framing_text s"
            using read_line_coming [OF sr] by blast
          show ?thesis
          proof (cases "sr = Inr (Text [] True)")
            case True
            with assms lr l nz fits er Inr b sr have "read_chunked cs w3 limit (body @ d) dl = (r, w')"
              by (simp add: read_chunked.simps [of cs w])
            moreover have "coming w = l @ crlf @ d @ crlf @ coming w3" using b1' d b3 True by simp
            moreover have "length body + length d \<le> limit" using fits nz b(2) by linarith
            ultimately show ?thesis
              using more [of l d w3] b1(2) b1' d(2) b3(2) l b nz by auto
          next
            case False
            with assms lr l nz fits er Inr sr have "w' = w3" "\<exists>e. r = Inl e"
              by (auto simp: read_chunked.simps [of cs w] split: sum.splits line.splits if_splits)
            with b1 d b3 stop [of "b1 @ d @ b3"] show ?thesis by auto
          qed
        qed
      qed
    qed
  qed
qed

lemma read_chunked_coming:
  assumes "read_chunked cs w limit body dl = (r, w')" and "length body \<le> limit"
  shows "\<exists>enc. coming w = enc @ coming w' \<and> length (incoming w') \<le> length (incoming w) \<and>
     (\<forall>out. r = Inr out \<longrightarrow> (\<exists>d. out = body @ d \<and> chunked cs enc d \<and> length out \<le> limit))"
  using assms
proof (induction "wire_size w" arbitrary: w body rule: less_induct)
  case less
  from less.prems(1) show ?case
  proof (cases rule: read_chunked_cases)
    case (stop bs e)
    then show ?thesis by blast
  next
    case (finish l t)
    then show ?thesis
      using less.prems(2) last_chunk [of cs l t] by (intro exI [of _ "l @ crlf @ t"]) auto
  next
    case (more l d w2)
    have "wire_size w2 < wire_size w" using more(1,2) by (simp add: wire_size_def)
    from less.hyps [OF this more(7)] more(6)
    obtain enc where enc: "coming w2 = enc @ coming w'" "length (incoming w') \<le> length (incoming w2)"
        "\<forall>out. r = Inr out \<longrightarrow> (\<exists>e. out = body @ d @ e \<and> chunked cs enc e \<and> length out \<le> limit)"
      by auto
    with more chunk [of cs l d enc] show ?thesis
      by (intro exI [of _ "l @ crlf @ d @ crlf @ enc"]) fastforce
  qed
qed


section \<open>Bodies\<close>

datatype framing = NoBody | Length nat | Chunked

record body =
  body_framing :: framing
  must_send_continue :: bool
  finished :: bool
  started :: bool
  body_deadline :: nat

definition send_continue :: "body \<Rightarrow> wire \<Rightarrow> (body_error + unit) \<times> body \<times> wire" where
  "send_continue b w =
     (if \<not> must_send_continue b then (Inr (), b, w)
      else case write_all (''HTTP/1.1 100 Continue'' @ crlf @ crlf) w of
             (Inl _, w) \<Rightarrow> (Inl Incomplete, b\<lparr>must_send_continue := False\<rparr>, w)
           | (Inr _, w) \<Rightarrow> (Inr (), b\<lparr>must_send_continue := False\<rparr>, w))"

definition from_utf8 :: "bytes \<Rightarrow> body_error + string" where
  "from_utf8 bs = (if utf8_valid bs then Inr bs else Inl Malformed)"

definition read_body :: "(bytes \<Rightarrow> (nat \<times> nat) parsed) \<Rightarrow> body \<Rightarrow> wire \<Rightarrow> nat \<Rightarrow>
    (body_error + string) \<times> body \<times> wire" where
  "read_body chunk_size b w limit =
     (if started b then (Inl Malformed, b, w)
      else
        let b = b\<lparr>started := True\<rparr> in
        case body_framing b of
          NoBody \<Rightarrow> (Inr [], b\<lparr>finished := True\<rparr>, w)
        | Length declared \<Rightarrow>
            if limit < declared then (Inl TooLarge, b, w)
            else (case send_continue b w of
              (Inl e, b, w) \<Rightarrow> (Inl e, b, w)
            | (Inr _, b, w) \<Rightarrow>
                (case read_exactly w declared [] (body_deadline b) of
                   (Inl e, w) \<Rightarrow> (Inl e, b, w)
                 | (Inr buffer, w) \<Rightarrow> (from_utf8 buffer, b\<lparr>finished := True\<rparr>, w)))
        | Chunked \<Rightarrow>
            (case send_continue b w of
              (Inl e, b, w) \<Rightarrow> (Inl e, b, w)
            | (Inr _, b, w) \<Rightarrow>
                (case read_chunked chunk_size w limit [] (body_deadline b) of
                   (Inl e, w) \<Rightarrow> (Inl e, b, w)
                 | (Inr bs, w) \<Rightarrow> (from_utf8 bs, b\<lparr>finished := True\<rparr>, w))))"

definition drain_if_cheap :: "body \<Rightarrow> wire \<Rightarrow> nat \<Rightarrow> body \<times> wire" where
  "drain_if_cheap b w limit =
     (if started b \<or> finished b then (b, w)
      else if must_send_continue b then (b, w)
      else case body_framing b of
        Length declared \<Rightarrow>
          if limit < declared then (b, w)
          else (case read_exactly w declared [] (body_deadline b) of
                  (Inr _, w) \<Rightarrow> (b\<lparr>started := True, finished := True\<rparr>, w)
                | (Inl _, w) \<Rightarrow> (b\<lparr>started := True\<rparr>, w))
      | _ \<Rightarrow> (b, w))"

text \<open>What the framing of a request says its body is, on the wire.\<close>

fun frames :: "(bytes \<Rightarrow> (nat \<times> nat) parsed) \<Rightarrow> framing \<Rightarrow> bytes \<Rightarrow> bool" where
  "frames chunk_size NoBody enc \<longleftrightarrow> enc = []"
| "frames chunk_size (Length n) enc \<longleftrightarrow> length enc = n"
| "frames chunk_size Chunked enc \<longleftrightarrow> (\<exists>d. chunked chunk_size enc d)"

lemma write_all_coming: "write_all bs w = (r, w') \<Longrightarrow> coming w' = coming w \<and> incoming w' = incoming w"
  by (auto simp: write_all_def coming_def split: list.splits option.splits)

lemma send_continue_coming:
  "send_continue b w = (r, b', w') \<Longrightarrow> coming w' = coming w \<and> incoming w' = incoming w \<and>
     finished b' = finished b \<and> started b' = started b \<and> body_framing b' = body_framing b \<and>
     body_deadline b' = body_deadline b"
  using write_all_coming by (auto simp: send_continue_def split: if_splits sum.splits prod.splits)

text \<open>
  A body is on the wire exactly as framed once it counts as finished, whoever read it; before
  that only a part of it is gone. \<open>fresh\<close> is a body nobody has touched.
\<close>

definition fresh :: "body \<Rightarrow> bool" where
  "fresh b \<longleftrightarrow> \<not> started b \<and> (finished b \<longleftrightarrow> body_framing b = NoBody)"

definition body_taken :: "(bytes \<Rightarrow> (nat \<times> nat) parsed) \<Rightarrow> framing \<Rightarrow> bytes \<Rightarrow> body \<Rightarrow> wire \<Rightarrow> bool" where
  "body_taken cs fr before b w \<longleftrightarrow> (\<exists>enc. before = enc @ coming w \<and> (finished b \<longrightarrow> frames cs fr enc))"

lemma read_body_taken:
  assumes fresh: "fresh b" and r: "read_body cs b w limit = (r, b', w')"
  shows "body_taken cs (body_framing b) (coming w) b' w' \<and> started b' \<and> length (incoming w') \<le> length (incoming w)"
proof -
  let ?b = "b\<lparr>started := True\<rparr>"
  have ns: "\<not> started b" and fin: "finished b \<longleftrightarrow> body_framing b = NoBody" using fresh by (auto simp: fresh_def)
  obtain s bc wc where c: "send_continue ?b w = (s, bc, wc)" by (metis prod_cases3)
  note cc = send_continue_coming [OF c]
  show ?thesis
  proof (cases "body_framing b")
    case NoBody
    with r ns show ?thesis by (auto simp: read_body_def body_taken_def)
  next
    case (Length n)
    obtain er we where er: "read_exactly wc n [] (body_deadline bc) = (er, we)" by fastforce
    obtain bs where bs: "coming wc = bs @ coming we" "length (incoming we) \<le> length (incoming wc)"
        "\<forall>x. er = Inr x \<longrightarrow> length bs = n"
      using read_exactly_coming [OF er] by auto
    consider "limit < n" | "\<not> limit < n" "s \<noteq> Inr ()" | e where "\<not> limit < n" "s = Inr ()" "er = Inl e"
      | x where "\<not> limit < n" "s = Inr ()" "er = Inr x" by (cases er) auto
    then show ?thesis
      using r ns Length c er bs cc fin by cases (auto simp: read_body_def body_taken_def split: sum.splits)
  next
    case Chunked
    obtain er we where er: "read_chunked cs wc limit [] (body_deadline bc) = (er, we)" by fastforce
    obtain enc where enc: "coming wc = enc @ coming we" "length (incoming we) \<le> length (incoming wc)"
        "\<forall>x. er = Inr x \<longrightarrow> (\<exists>d. chunked cs enc d)"
      using read_chunked_coming [OF er] by fastforce
    consider "s \<noteq> Inr ()" | e where "s = Inr ()" "er = Inl e" | x where "s = Inr ()" "er = Inr x"
      by (cases er) auto
    then show ?thesis
      using r ns Chunked c er enc cc fin by cases (auto simp: read_body_def body_taken_def split: sum.splits)
  qed
qed

lemma drain_taken_fresh:
  assumes "fresh b" and "drain_if_cheap b w limit = (b', w')"
  shows "body_taken cs (body_framing b) (coming w) b' w' \<and> length (incoming w') \<le> length (incoming w)"
proof (cases "\<exists>n. body_framing b = Length n \<and> \<not> must_send_continue b \<and> n \<le> limit")
  case True
  then obtain n where n: "body_framing b = Length n" "\<not> must_send_continue b" "n \<le> limit" by blast
  obtain er we where er: "read_exactly w n [] (body_deadline b) = (er, we)" by fastforce
  obtain bs where "coming w = bs @ coming we" "length (incoming we) \<le> length (incoming w)"
      "\<forall>x. er = Inr x \<longrightarrow> length bs = n"
    using read_exactly_coming [OF er] by auto
  with assms n er show ?thesis
    by (auto simp: drain_if_cheap_def fresh_def body_taken_def split: sum.splits)
next
  case False
  with assms show ?thesis
    by (auto simp: drain_if_cheap_def fresh_def body_taken_def split: framing.splits if_splits)
qed

lemma drain_started: "started b \<Longrightarrow> drain_if_cheap b w limit = (b, w)"
  by (simp add: drain_if_cheap_def)

section \<open>Responses\<close>

record http_response =
  rsp_status :: nat
  rsp_headers :: "(string \<times> string) list"
  rsp_body :: bytes
  rsp_close :: bool

definition is_token :: "string \<Rightarrow> bool" where
  "is_token s \<longleftrightarrow> s \<noteq> [] \<and>
     list_all (\<lambda>b. is_ascii_alphanumeric b \<or>
       b \<in> set (''!#$%&'' @ [CHR 0x27] @ ''*+-.^_'' @ [CHR 0x60] @ ''|~'')) s"

definition is_field_value :: "string \<Rightarrow> bool" where
  "is_field_value s \<longleftrightarrow> list_all (\<lambda>b. b = CHR 0x09 \<or> 0x20 \<le> (of_char b :: nat)) s"

definition new_response :: "nat \<Rightarrow> http_response" where
  "new_response status = \<lparr>rsp_status = status, rsp_headers = [], rsp_body = [], rsp_close = False\<rparr>"

definition with_header :: "http_response \<Rightarrow> string \<Rightarrow> string \<Rightarrow> http_response" where
  "with_header r name v =
     (if is_field_value v \<and> is_token name then r\<lparr>rsp_headers := rsp_headers r @ [(name, v)]\<rparr> else r)"

definition with_body :: "http_response \<Rightarrow> string \<Rightarrow> bytes \<Rightarrow> http_response" where
  "with_body r content_type b = with_header (r\<lparr>rsp_body := b\<rparr>) ''Content-Type'' content_type"

definition closing :: "http_response \<Rightarrow> http_response" where
  "closing r = r\<lparr>rsp_close := True\<rparr>"

definition bad_request :: "string \<Rightarrow> http_response" where
  "bad_request why =
     closing (with_body (new_response 400) ''text/plain'' (''Bad Request: '' @ why @ [newline]))"

definition too_long :: http_response where
  "too_long = closing (with_body (new_response 431) ''text/plain'' (''Request Header Fields Too Large'' @ [newline]))"

definition http_timed_out :: http_response where
  "http_timed_out = closing (with_body (new_response 408) ''text/plain'' (''Request Timeout'' @ [newline]))"

definition status_only :: "nat \<Rightarrow> string \<Rightarrow> http_response" where
  "status_only status reason = with_body (new_response status) ''text/plain'' (reason @ [newline])"

definition reason_phrases :: "(nat \<times> string) list" where
  "reason_phrases =
     [(200, ''OK''), (202, ''Accepted''), (204, ''No Content''), (400, ''Bad Request''),
      (401, ''Unauthorized''), (403, ''Forbidden''), (404, ''Not Found''),
      (405, ''Method Not Allowed''), (408, ''Request Timeout''), (413, ''Payload Too Large''),
      (417, ''Expectation Failed''), (431, ''Request Header Fields Too Large''),
      (500, ''Internal Server Error''), (501, ''Not Implemented''),
      (503, ''Service Unavailable''), (505, ''HTTP Version Not Supported'')]"

definition reason_phrase :: "nat \<Rightarrow> string" where
  "reason_phrase status = (case map_of reason_phrases status of Some s \<Rightarrow> s | None \<Rightarrow> ''Status'')"

datatype http_method = Get | Head | Post | Delete | OtherMethod string

definition parse_method :: "string \<Rightarrow> http_method" where
  "parse_method token =
     (if token = ''GET'' then Get else if token = ''HEAD'' then Head
      else if token = ''POST'' then Post else if token = ''DELETE'' then Delete else OtherMethod token)"

fun show_method :: "http_method \<Rightarrow> string" where
  "show_method Get = ''GET''"
| "show_method Head = ''HEAD''"
| "show_method Post = ''POST''"
| "show_method Delete = ''DELETE''"
| "show_method (OtherMethod s) = s"

datatype http_version = Http10 | Http11

definition header_line :: "string \<times> string \<Rightarrow> bytes" where
  "header_line h = fst h @ '': '' @ snd h @ crlf"

definition render :: "http_method \<Rightarrow> http_version \<Rightarrow> http_response \<Rightarrow> bool \<Rightarrow> bytes" where
  "render meth version r keep_alive =
     (let bodiless = (rsp_status r \<in> {204, 304} \<or> meth = Head)
      in (case version of Http10 \<Rightarrow> ''HTTP/1.0'' | Http11 \<Rightarrow> ''HTTP/1.1'') @ '' '' @
         show_nat (rsp_status r) @ '' '' @ reason_phrase (rsp_status r) @ crlf @
         concat (map header_line (rsp_headers r)) @
         (if rsp_status r \<in> {204, 304} then []
          else ''Content-Length: '' @ show_nat (length (rsp_body r)) @ crlf) @
         (if keep_alive then ''Connection: keep-alive'' else ''Connection: close'') @ crlf @ crlf @
         (if bodiless then [] else rsp_body r))"

definition write_response :: "wire \<Rightarrow> http_method \<Rightarrow> http_version \<Rightarrow> http_response \<Rightarrow> (io_error + unit) \<times> wire" where
  "write_response w meth version r = write_all (render meth version r (\<not> rsp_close r)) w"


section \<open>Heads\<close>

text \<open>What \<open>httparse::Request::parse\<close> reports.\<close>

record parsed_head =
  p_method :: "string option"
  p_path :: "string option"
  p_version :: "nat option"
  p_headers :: "(string \<times> bytes) list"

datatype httparse_error =
  ErrVersion | ErrTooManyHeaders | ErrHeaderName | ErrHeaderValue | ErrToken | ErrNewLine | ErrOther

datatype head_status = HeadComplete nat parsed_head | HeadPartial | HeadError httparse_error

record head =
  hd_method :: http_method
  hd_target :: string
  hd_version :: http_version
  hd_headers :: "(string \<times> string) list"
  hd_framing :: framing
  expects_continue :: bool
  wants_close :: bool

definition header_of :: "(string \<times> string) list \<Rightarrow> string \<Rightarrow> string option" where
  "header_of headers name = map_option snd (find (\<lambda>(field, _). eq_ignore_ascii_case field name) headers)"

definition has_token :: "string \<Rightarrow> string \<Rightarrow> bool" where
  "has_token v token \<longleftrightarrow> list_ex (\<lambda>part. eq_ignore_ascii_case (trim part) token) (split_on (CHR '','') v)"

text \<open>
  The scan for the two framing headers: a second \<open>Transfer-Encoding\<close> and a differing
  \<open>Content-Length\<close> end it.
\<close>

fun scan_framing :: "string option \<Rightarrow> string option \<Rightarrow> (string \<times> string) list \<Rightarrow>
    http_response + string option \<times> string option" where
  "scan_framing te cl [] = Inr (te, cl)"
| "scan_framing te cl ((name, v) # headers) =
     (if eq_ignore_ascii_case name ''transfer-encoding''
      then if te \<noteq> None then Inl (bad_request ''more than one `Transfer-Encoding`'')
           else scan_framing (Some v) cl headers
      else if eq_ignore_ascii_case name ''content-length''
      then if cl \<noteq> None \<and> cl \<noteq> Some v then Inl (bad_request ''conflicting `Content-Length` headers'')
           else scan_framing te (Some v) headers
      else scan_framing te cl headers)"

definition framing_of :: "(string \<times> string) list \<Rightarrow> http_response + framing" where
  "framing_of headers =
     (case scan_framing None None headers of
        Inl r \<Rightarrow> Inl r
      | Inr (Some _, Some _) \<Rightarrow> Inl (bad_request ''both `Transfer-Encoding` and `Content-Length`'')
      | Inr (Some encoding, None) \<Rightarrow>
          if eq_ignore_ascii_case encoding ''chunked'' then Inr Chunked
          else Inl (closing (status_only 501 ''Not Implemented''))
      | Inr (None, Some len) \<Rightarrow>
          if len = [] \<or> \<not> list_all is_ascii_digit len
          then Inl (bad_request ''an unreadable `Content-Length`'')
          else (case parse_uint u64_bound len of
                  None \<Rightarrow> Inl (bad_request ''an unreadable `Content-Length`'')
                | Some declared \<Rightarrow> Inr (if declared = 0 then NoBody else Length declared))
      | Inr (None, None) \<Rightarrow> Inr NoBody)"

fun text_headers :: "(string \<times> bytes) list \<Rightarrow> http_response + (string \<times> string) list" where
  "text_headers [] = Inr []"
| "text_headers ((name, v) # rest) =
     (if utf8_valid v then map_ok (\<lambda>hs. (name, v) # hs) (text_headers rest)
      else Inl (bad_request ''a header field value that is not text''))"

definition head_from :: "parsed_head \<Rightarrow> http_response + head" where
  "head_from p =
     (case (p_method p, p_path p, p_version p) of
        (Some meth, Some target, Some v) \<Rightarrow>
          and_then (if v = 0 then Inr Http10 else if v = 1 then Inr Http11
                    else Inl (closing (status_only 505 ''HTTP Version Not Supported''))) (\<lambda>version.
          and_then (text_headers (p_headers p)) (\<lambda>headers.
          and_then (framing_of headers) (\<lambda>framing.
          if framing = Chunked \<and> version = Http10
          then Inl (bad_request ''`Transfer-Encoding: chunked` on an HTTP/1.0 request'')
          else
            let connection = (case header_of headers ''connection'' of Some c \<Rightarrow> c | None \<Rightarrow> []);
                close = (case version of Http11 \<Rightarrow> has_token connection ''close''
                                       | Http10 \<Rightarrow> \<not> has_token connection ''keep-alive'')
            in and_then (case header_of headers ''expect'' of
                           None \<Rightarrow> Inr False
                         | Some v \<Rightarrow> if eq_ignore_ascii_case v ''100-continue'' then Inr (version = Http11)
                                     else Inl (closing (status_only 417 ''Expectation Failed''))) (\<lambda>expects.
               Inr \<lparr>hd_method = parse_method meth, hd_target = target, hd_version = version,
                    hd_headers = headers, hd_framing = framing, expects_continue = expects,
                    wants_close = close\<rparr>))))
      | _ \<Rightarrow> Inl (bad_request ''a malformed request line''))"

fun rejection :: "httparse_error \<Rightarrow> http_response" where
  "rejection ErrVersion = closing (status_only 505 ''HTTP Version Not Supported'')"
| "rejection ErrTooManyHeaders = too_long"
| "rejection ErrHeaderName = bad_request ''a header field name that is not a token''"
| "rejection ErrHeaderValue = bad_request ''a header field value that is not text''"
| "rejection ErrToken = bad_request ''a malformed request line''"
| "rejection ErrNewLine = bad_request ''a stray carriage return''"
| "rejection ErrOther = bad_request ''a malformed request head''"

text \<open>Counted no further than \<open>cap + 1\<close>; \<open>n\<close> is what may still be counted.\<close>

fun count_blank_lines :: "nat \<Rightarrow> bytes \<Rightarrow> nat" where
  "count_blank_lines 0 raw = 0"
| "count_blank_lines (Suc n) raw =
     (case strip_prefix crlf raw of
        Some rest \<Rightarrow> Suc (count_blank_lines n rest)
      | None \<Rightarrow> (case strip_prefix [newline] raw of
                  Some rest \<Rightarrow> Suc (count_blank_lines n rest)
                | None \<Rightarrow> 0))"

definition blank_lines_before_a_request :: "bytes \<Rightarrow> nat \<Rightarrow> nat" where
  "blank_lines_before_a_request raw cap = count_blank_lines (cap + 1) raw"

text \<open>
  The loop of \<open>read_head\<close>: \<open>raw\<close> is what was copied out of the reader so far, all of it already
  consumed, and \<open>clock\<close> the deadline once the first byte has come. A result of \<^const>\<open>None\<close> is a
  connection that ended before a request.
\<close>

function read_head_loop :: "(nat \<Rightarrow> bytes \<Rightarrow> head_status) \<Rightarrow> limits \<Rightarrow> wire \<Rightarrow> bytes \<Rightarrow> nat option \<Rightarrow>
    (http_response + (head \<times> nat) option) \<times> wire" where
  "read_head_loop parse_head lim w raw clock =
     (if max_head_bytes lim \<le> length raw then (Inl too_long, w)
      else if (case clock of Some at \<Rightarrow> deadline_expired at w | None \<Rightarrow> False) then (Inl http_timed_out, w)
      else case fill w of
        (r, w') \<Rightarrow>
          if interrupted r then read_head_loop parse_head lim w' raw clock
          else case r of
            Inl e \<Rightarrow>
              (if (case clock of Some at \<Rightarrow> deadline_expired at w' | None \<Rightarrow> False) then Inl http_timed_out
               else Inr None, w')
          | Inr available \<Rightarrow>
              if available = [] then (Inr None, w')
              else
                let taken = min (length available) (max_head_bytes lim - length raw);
                    raw' = raw @ take taken available;
                    deadline = (case clock of Some at \<Rightarrow> at | None \<Rightarrow> starting_now (read_timeout lim) w');
                    w'' = arm_deadline deadline w'
                in if MAX_LEADING_BLANK_LINES < blank_lines_before_a_request raw' MAX_LEADING_BLANK_LINES
                   then (Inl (bad_request ''more empty lines before a request line than this server ignores''), w'')
                   else
                     let status = (if newline \<in> set (take taken available)
                                   then parse_head (max_headers lim) raw' else HeadPartial)
                     in (case status of
                           HeadComplete head_len p \<Rightarrow>
                             (map_ok (\<lambda>h. Some (h, deadline)) (head_from p), consume (head_len - length raw) w'')
                         | HeadError e \<Rightarrow> (Inl (rejection e), w'')
                         | HeadPartial \<Rightarrow> read_head_loop parse_head lim (consume taken w'') raw' (Some deadline)))"
  by pat_completeness auto
termination
proof (relation "measure (\<lambda>(ph, lim, w, raw, clock). (max_head_bytes lim - length raw) + length (incoming w))", goal_cases)
  case (2 ph lim w raw clock r w')
  then show ?case using fill_coming [of w r w'] by auto
next
  case (3 ph lim w raw clock r w' available taken raw' deadline w'' status)
  then have "length (incoming w') \<le> length (incoming w)" "0 < taken" "length raw' = length raw + taken"
      "length raw < max_head_bytes lim" "incoming w'' = incoming w'"
    using fill_coming [of w r w'] by auto
  then show ?case by simp
qed simp

declare read_head_loop.simps [simp del]

definition read_head :: "(nat \<Rightarrow> bytes \<Rightarrow> head_status) \<Rightarrow> limits \<Rightarrow> wire \<Rightarrow>
    (http_response + (head \<times> nat) option) \<times> wire" where
  "read_head parse_head lim w = read_head_loop parse_head lim w [] None"


section \<open>Connections\<close>

text \<open>
  A handler answers from the head alone or asks for the body once; \<^const>\<open>None\<close> in place of a
  response is a panic, which the connection turns into a \<open>500\<close>.
\<close>

datatype handled = Answer "http_response option" | WantBody nat "body_error + string \<Rightarrow> http_response option"

definition panic_response :: http_response where
  "panic_response = closing (with_body (new_response 500) ''text/plain'' (''Internal Server Error'' @ [newline]))"

definition request_body :: "head \<Rightarrow> nat \<Rightarrow> body" where
  "request_body h deadline = \<lparr>body_framing = hd_framing h, must_send_continue = expects_continue h,
     finished = (hd_framing h = NoBody), started = False, body_deadline = deadline\<rparr>"

definition or_panic :: "http_response option \<Rightarrow> http_response" where
  "or_panic r = (case r of Some r \<Rightarrow> r | None \<Rightarrow> panic_response)"

definition handle_request :: "(bytes \<Rightarrow> (nat \<times> nat) parsed) \<Rightarrow> (head \<Rightarrow> handled) \<Rightarrow> limits \<Rightarrow> head \<Rightarrow> nat \<Rightarrow> wire \<Rightarrow>
    http_response \<times> body \<times> wire" where
  "handle_request chunk_size handle lim h deadline w =
     (case (case handle h of
              Answer r \<Rightarrow> (or_panic r, request_body h deadline, w)
            | WantBody limit k \<Rightarrow>
                (case read_body chunk_size (request_body h deadline) w limit of
                   (r, b, w) \<Rightarrow> (or_panic (k r), b, w))) of
        (r, b, w) \<Rightarrow> (case drain_if_cheap b w (max_body_bytes lim) of (b, w) \<Rightarrow> (r, b, w)))"

definition reusable :: "head \<Rightarrow> http_response \<Rightarrow> body \<Rightarrow> bool" where
  "reusable h r b \<longleftrightarrow> hd_version h = Http11 \<and> \<not> wants_close h \<and> \<not> rsp_close r \<and> finished b"

definition LINGER_BYTES :: nat where "LINGER_BYTES = 64 * 1024"

definition LINGER_TIME :: nat where "LINGER_TIME = 250"

definition LINGER_POLL :: nat where "LINGER_POLL = 25"

function linger_loop :: "nat \<Rightarrow> nat \<Rightarrow> wire \<Rightarrow> wire" where
  "linger_loop deadline budget w =
     (if budget = 0 \<or> deadline \<le> now w then w
      else case socket_read w of
        (Inl _, w') \<Rightarrow> w'
      | (Inr bs, w') \<Rightarrow> if bs = [] then w' else linger_loop deadline (budget - length bs) w')"
  by pat_completeness auto
termination
  by (relation "measure (\<lambda>(deadline, budget, w). budget)") auto

declare linger_loop.simps [simp del]

definition linger_close :: "wire \<Rightarrow> wire" where
  "linger_close w = linger_loop (now w + LINGER_TIME) LINGER_BYTES (arm_read LINGER_POLL w)"

text \<open>
  One request of a connection: whether the connection goes on, and what is left of the wire.
\<close>

definition serve_request :: "(nat \<Rightarrow> bytes \<Rightarrow> head_status) \<Rightarrow> (bytes \<Rightarrow> (nat \<times> nat) parsed) \<Rightarrow> (head \<Rightarrow> handled) \<Rightarrow>
    limits \<Rightarrow> wire \<Rightarrow> bool \<times> wire" where
  "serve_request parse_head chunk_size handle lim w =
     (case read_head parse_head lim (arm_read (lim_idle_timeout lim) w) of
        (Inr None, w) \<Rightarrow> (False, w)
      | (Inl rej, w) \<Rightarrow> (False, linger_close (snd (write_response w Get Http11 rej)))
      | (Inr (Some (h, deadline)), w) \<Rightarrow>
          (case handle_request chunk_size handle lim h deadline w of
             (r, b, w) \<Rightarrow>
               let ok = reusable h r b;
                   r = (if ok then r else closing r)
               in (case write_response w (hd_method h) (hd_version h) r of
                     (sent, w) \<Rightarrow>
                       if \<not> ok \<or> sent \<noteq> Inr () then (False, linger_close w) else (True, w))))"

text \<open>The connection's loop, for at most \<open>n\<close> requests; \<^const>\<open>None\<close> when more would follow.\<close>

fun serve_connection :: "(nat \<Rightarrow> bytes \<Rightarrow> head_status) \<Rightarrow> (bytes \<Rightarrow> (nat \<times> nat) parsed) \<Rightarrow> (head \<Rightarrow> handled) \<Rightarrow>
    limits \<Rightarrow> nat \<Rightarrow> wire \<Rightarrow> wire option" where
  "serve_connection parse_head chunk_size handle lim 0 w = None"
| "serve_connection parse_head chunk_size handle lim (Suc n) w =
     (case serve_request parse_head chunk_size handle lim w of
        (True, w) \<Rightarrow> serve_connection parse_head chunk_size handle lim n w
      | (False, w) \<Rightarrow> Some w)"

section \<open>The connection ceiling\<close>

definition slot_claim :: "nat \<Rightarrow> nat \<Rightarrow> nat option" where
  "slot_claim mx n = (if mx \<le> n then None else Some (n + 1))"

definition slot_drop :: "nat \<Rightarrow> nat" where
  "slot_drop n = n - 1"

interpretation slot: admission "slot_claim mx" slot_drop "\<lambda>n. n" mx for mx
  by unfold_locales (auto simp: slot_claim_def slot_drop_def split: if_splits)

section \<open>Where a head ends\<close>

text \<open>
  What the head parser documents: a complete head lies within the bytes it was given and ends
  with a newline, and its answer depends on the head's bytes alone, so that more bytes behind it
  do not change it and fewer never hide it.
\<close>

definition head_parser_contract :: "(nat \<Rightarrow> bytes \<Rightarrow> head_status) \<Rightarrow> bool" where
  "head_parser_contract parse_head \<longleftrightarrow>
     (\<forall>m raw n p. parse_head m raw = HeadComplete n p \<longrightarrow>
        0 < n \<and> n \<le> length raw \<and> raw ! (n - 1) = newline \<and>
        (\<forall>raw' rest. raw = raw' @ rest \<and> n \<le> length raw' \<longrightarrow> parse_head m raw' = HeadComplete n p))"

text \<open>No head ends inside what has been read.\<close>

definition unfinished :: "(nat \<Rightarrow> bytes \<Rightarrow> head_status) \<Rightarrow> nat \<Rightarrow> bytes \<Rightarrow> bool" where
  "unfinished parse_head m raw \<longleftrightarrow> (\<forall>x n p. parse_head m (raw @ x) = HeadComplete n p \<longrightarrow> length raw < n)"

lemma head_parser_contractD:
  assumes "head_parser_contract ph" and "ph m raw = HeadComplete n p"
  shows "0 < n" "n \<le> length raw" "raw ! (n - 1) = newline"
    "raw = raw' @ rest \<Longrightarrow> n \<le> length raw' \<Longrightarrow> ph m raw' = HeadComplete n p"
  using assms unfolding head_parser_contract_def by blast+

lemma unfinished_more:
  assumes contract: "head_parser_contract ph" and un: "unfinished ph m raw"
    and partial: "newline \<in> set chunk_bytes \<Longrightarrow> ph m (raw @ chunk_bytes) = HeadPartial"
  shows "unfinished ph m (raw @ chunk_bytes)"
  unfolding unfinished_def
proof (intro allI impI, rule ccontr)
  fix x n p assume c: "ph m ((raw @ chunk_bytes) @ x) = HeadComplete n p" and short: "\<not> length (raw @ chunk_bytes) < n"
  have n: "length raw < n" using un c unfolding unfinished_def by (metis append_assoc)
  have "((raw @ chunk_bytes) @ x) ! (n - 1) = newline"
    by (rule head_parser_contractD(3) [OF contract c])
  moreover have "ph m (raw @ chunk_bytes) = HeadComplete n p"
    by (rule head_parser_contractD(4) [OF contract c refl]) (use short in simp)
  moreover have "((raw @ chunk_bytes) @ x) ! (n - 1) = chunk_bytes ! (n - 1 - length raw)" "n - 1 - length raw < length chunk_bytes"
    using n short by (auto simp: nth_append)
  ultimately have "newline \<in> set chunk_bytes" by (metis nth_mem)
  with partial \<open>ph m (raw @ chunk_bytes) = HeadComplete n p\<close> show False by simp
qed

lemma read_head_loop_coming:
  assumes contract: "head_parser_contract ph"
    and un: "unfinished ph (max_headers lim) raw"
    and "read_head_loop ph lim w raw clock = (Inr (Some (h, at)), w')"
  shows "\<exists>hb p. raw @ coming w = hb @ coming w' \<and> ph (max_headers lim) hb = HeadComplete (length hb) p \<and>
     head_from p = Inr h \<and> length hb \<le> max_head_bytes lim \<and> length (incoming w') \<le> length (incoming w) \<and>
     length raw < length hb"
  using un assms(3)
proof (induction "(max_head_bytes lim - length raw) + length (incoming w)" arbitrary: w raw clock rule: less_induct)
  case less
  let ?late = "\<lambda>w. case clock of Some at \<Rightarrow> deadline_expired at w | None \<Rightarrow> False"
  obtain f wf where f: "fill w = (f, wf)" by fastforce
  note fc = fill_coming [OF f]
  have go: "\<not> max_head_bytes lim \<le> length raw" "\<not> ?late w"
    using less.prems(2) by (auto simp: read_head_loop.simps [of ph lim w raw clock] split: if_splits)
  show ?case
  proof (cases "interrupted f")
    case True
    then have "read_head_loop ph lim wf raw clock = (Inr (Some (h, at)), w')"
      using less.prems(2) go f by (simp add: read_head_loop.simps [of ph lim w raw clock])
    moreover have "max_head_bytes lim - length raw + length (incoming wf) < max_head_bytes lim - length raw + length (incoming w)"
      using fc True by simp
    ultimately show ?thesis using less.hyps [of raw wf clock] less.prems(1) fc by fastforce
  next
    case ni: False
    obtain a where a: "f = Inr a" "a \<noteq> []"
      using less.prems(2) go f ni by (cases f) (auto simp: read_head_loop.simps [of ph lim w raw clock] split: if_splits)
    define k where "k = min (length a) (max_head_bytes lim - length raw)"
    define dl where "dl = (case clock of Some at \<Rightarrow> at | None \<Rightarrow> starting_now (read_timeout lim) wf)"
    define w2 where "w2 = arm_deadline dl wf"
    define st where "st = (if newline \<in> set (take k a) then ph (max_headers lim) (raw @ take k a) else HeadPartial)"
    have w2: "coming w2 = coming w" "buf w2 = a" "incoming w2 = incoming wf"
      using fc a by (simp_all add: w2_def)
    have k: "0 < k" "k \<le> length a" using a go by (auto simp: k_def)
    have step: "(case st of HeadComplete n p \<Rightarrow> (map_ok (\<lambda>h. Some (h, dl)) (head_from p), consume (n - length raw) w2)
          | HeadError e \<Rightarrow> (Inl (rejection e), w2)
          | HeadPartial \<Rightarrow> read_head_loop ph lim (consume k w2) (raw @ take k a) (Some dl)) = (Inr (Some (h, at)), w')"
      using less.prems(2) go f ni a
      by (simp add: read_head_loop.simps [of ph lim w raw clock] Let_def split: if_splits
          flip: k_def dl_def w2_def st_def)
    show ?thesis
    proof (cases st)
      case (HeadComplete n p)
      then have c: "ph (max_headers lim) (raw @ take k a) = HeadComplete n p" by (auto simp: st_def split: if_splits)
      have n: "length raw < n" "n \<le> length raw + k"
        using less.prems(1) head_parser_contractD(2) [OF contract c] c k by (auto simp: unfinished_def)
      let ?hb = "raw @ take (n - length raw) a"
      have "take (n - length raw) (take k a) = take (n - length raw) a" using n by (simp add: min_absorb1)
      then have split: "raw @ take k a = ?hb @ drop (n - length raw) (take k a)"
        using append_take_drop_id [of "n - length raw" "take k a"] by (metis append_assoc)
      have len: "length ?hb = n" using n k by simp
      then have hb: "ph (max_headers lim) ?hb = HeadComplete n p"
        using head_parser_contractD(4) [OF contract c split] by simp
      have w': "head_from p = Inr h" "w' = consume (n - length raw) w2"
        using step HeadComplete by (cases "head_from p"; auto)+
      have "coming w2 = take (n - length raw) a @ coming w'"
        using consume_coming [of "n - length raw" w2] w2(2) n k w'(2) by simp
      with hb w' len n w2 fc k go show ?thesis
        by (intro exI [of _ ?hb] exI [of _ p]) (auto simp: k_def)
    next
      case HeadPartial
      have rec: "read_head_loop ph lim (consume k w2) (raw @ take k a) (Some dl) = (Inr (Some (h, at)), w')"
        using step HeadPartial by simp
      have "unfinished ph (max_headers lim) (raw @ take k a)"
        by (rule unfinished_more [OF contract less.prems(1)]) (use HeadPartial st_def in simp)
      moreover have "max_head_bytes lim - length (raw @ take k a) + length (incoming (consume k w2)) <
          max_head_bytes lim - length raw + length (incoming w)"
        using k go fc w2 by (auto simp: min_def)
      ultimately have "\<exists>hb p. (raw @ take k a) @ coming (consume k w2) = hb @ coming w' \<and>
          ph (max_headers lim) hb = HeadComplete (length hb) p \<and> head_from p = Inr h \<and> length hb \<le> max_head_bytes lim \<and>
          length (incoming w') \<le> length (incoming (consume k w2)) \<and> length (raw @ take k a) < length hb"
        using less.hyps rec by blast
      moreover have "coming w = take k a @ coming (consume k w2)"
        using consume_coming [of k w2] w2 k by simp
      ultimately show ?thesis using fc w2 by fastforce
    next
      case (HeadError e)
      with step show ?thesis by simp
    qed
  qed
qed

end
