(* ===== verification/Http1_Requests.thy ===== *)
theory Http1_Requests
  imports Http1
begin

text \<open>
  What the HTTP/1.1 server promises about a whole request: where it ends, what it may cost, how
  long it may take, and what the response looks like on the wire.
\<close>

section \<open>The end of a request\<close>

lemma fresh_request_body: "fresh (request_body h dl)" "body_framing (request_body h dl) = hd_framing h"
  by (simp_all add: fresh_def request_body_def)

lemma handle_request_taken:
  assumes "handle_request cs handle lim h dl w = (r, b, w')"
  shows "body_taken cs (hd_framing h) (coming w) b w' \<and> length (incoming w') \<le> length (incoming w)"
proof (cases "handle h")
  case (Answer a)
  obtain b1 w1 where d: "drain_if_cheap (request_body h dl) w (max_body_bytes lim) = (b1, w1)" by fastforce
  with assms Answer have "b = b1" "w' = w1" by (auto simp: handle_request_def)
  with drain_taken_fresh [OF fresh_request_body(1) d, of cs] show ?thesis by (simp add: fresh_request_body)
next
  case (WantBody limit k)
  obtain rb b1 w1 where rb: "read_body cs (request_body h dl) w limit = (rb, b1, w1)" by (metis prod_cases3)
  note taken = read_body_taken [OF fresh_request_body(1) rb]
  then have "b = b1" "w' = w1"
    using assms WantBody rb by (auto simp: handle_request_def drain_started)
  with taken show ?thesis by (simp add: fresh_request_body)
qed

lemma serve_request_True:
  assumes "serve_request ph cs handle lim w = (True, w')"
  obtains h dl w1 r b w2 where
    "read_head ph lim (arm_read (lim_idle_timeout lim) w) = (Inr (Some (h, dl)), w1)"
    "handle_request cs handle lim h dl w1 = (r, b, w2)" "reusable h r b"
    "write_response w2 (hd_method h) (hd_version h) r = (Inr (), w')"
proof -
  obtain x w1 where x: "read_head ph lim (arm_read (lim_idle_timeout lim) w) = (x, w1)" by fastforce
  with assms obtain h dl where h: "x = Inr (Some (h, dl))"
    by (auto simp: serve_request_def split: sum.splits option.splits)
  obtain r b w2 where r: "handle_request cs handle lim h dl w1 = (r, b, w2)" by (metis prod_cases3)
  obtain sent w3 where s: "write_response w2 (hd_method h) (hd_version h) (if reusable h r b then r else closing r) = (sent, w3)"
    by fastforce
  have "reusable h r b" "sent = Inr ()" "w3 = w'"
    using assms x h r s by (auto simp: serve_request_def Let_def split: if_splits)
  with that x h r s show ?thesis by simp
qed

lemma serve_request_exact:
  assumes contract: "head_parser_contract ph" and go: "serve_request ph cs handle lim w = (True, w')"
  shows "\<exists>hb p h enc. coming w = hb @ enc @ coming w' \<and>
     ph (max_headers lim) hb = HeadComplete (length hb) p \<and> head_from p = Inr h \<and>
     frames cs (hd_framing h) enc \<and> length hb \<le> max_head_bytes lim \<and> hb \<noteq> [] \<and>
     length (incoming w') \<le> length (incoming w)"
  using go
proof (rule serve_request_True)
  fix h dl w1 r b w2
  assume head: "read_head ph lim (arm_read (lim_idle_timeout lim) w) = (Inr (Some (h, dl)), w1)"
    and body: "handle_request cs handle lim h dl w1 = (r, b, w2)" and ok: "reusable h r b"
    and out: "write_response w2 (hd_method h) (hd_version h) r = (Inr (), w')"
  have "unfinished ph (max_headers lim) []"
    using head_parser_contractD(1) [OF contract] by (auto simp: unfinished_def)
  from read_head_loop_coming [OF contract this head [unfolded read_head_def]]
  obtain hb p where hb: "coming w = hb @ coming w1" "ph (max_headers lim) hb = HeadComplete (length hb) p"
      "head_from p = Inr h" "length hb \<le> max_head_bytes lim" "length (incoming w1) \<le> length (incoming w)" "hb \<noteq> []"
    by auto
  obtain enc where enc: "coming w1 = enc @ coming w2" "frames cs (hd_framing h) enc"
      "length (incoming w2) \<le> length (incoming w1)"
    using handle_request_taken [OF body] ok by (auto simp: body_taken_def reusable_def)
  have "coming w' = coming w2" "incoming w' = incoming w2"
    using write_all_coming out unfolding write_response_def by blast+
  with hb enc show ?thesis by (intro exI [of _ hb] exI [of _ p] exI [of _ h] exI [of _ enc]) auto
qed

text \<open>
  C2: Requests cannot be smuggled past the framing: when a connection is kept for another
  request, exactly this request was taken off the wire, that is a head that the parser accepts
  as complete at its last byte and a body that is precisely what the head's framing says (nothing,
  so many bytes, or a well-formed chunked body), whatever the handler did with it and however
  the bytes arrived. The next request starts at the next byte.
\<close>

theorem request_taken_exactly:
  assumes "head_parser_contract ph" and "serve_request ph cs handle lim w = (True, w')"
  shows "\<exists>hb p h enc. coming w = hb @ enc @ coming w' \<and>
     ph (max_headers lim) hb = HeadComplete (length hb) p \<and> head_from p = Inr h \<and>
     frames cs (hd_framing h) enc \<and> length hb \<le> max_head_bytes lim"
  using serve_request_exact [OF assms] by blast

text \<open>A parser of one-line heads and a connection with one request, for the examples.\<close>

definition one_line_parser :: "nat \<Rightarrow> bytes \<Rightarrow> head_status" where
  "one_line_parser m raw =
     (let n = length (takeWhile (\<lambda>b. b \<noteq> newline) raw)
      in if n < length raw
         then HeadComplete (n + 1) \<lparr>p_method = Some ''GET'', p_path = Some ''/'', p_version = Some 1, p_headers = []\<rparr>
         else HeadPartial)"

lemma one_line_parser_contract: "head_parser_contract one_line_parser"
proof -
  have nl: "n < length raw \<Longrightarrow> n = length (takeWhile (\<lambda>b. b \<noteq> newline) raw) \<Longrightarrow> raw ! n = newline" for n raw
    using nth_length_takeWhile [of "\<lambda>b. b \<noteq> newline" raw] by blast
  have tw: "length (takeWhile (\<lambda>b. b \<noteq> newline) (raw' @ rest)) < length raw' \<Longrightarrow>
      takeWhile (\<lambda>b. b \<noteq> newline) (raw' @ rest) = takeWhile (\<lambda>b. b \<noteq> newline) raw'" for raw' rest
    by (induction raw') auto
  show ?thesis
    unfolding head_parser_contract_def
  proof (intro allI impI conjI)
    fix m raw n p assume c: "one_line_parser m raw = HeadComplete n p"
    show "0 < n" "n \<le> length raw" "raw ! (n - 1) = newline"
      using c nl by (auto simp: one_line_parser_def Let_def split: if_splits)
    fix raw' rest assume "raw = raw' @ rest \<and> n \<le> length raw'"
    with c tw [of raw' rest] show "one_line_parser m raw' = HeadComplete n p"
      by (auto simp: one_line_parser_def Let_def split: if_splits)
  qed
qed

definition sample_wire :: wire where
  "sample_wire = \<lparr>buf = [], incoming = [(0, Inr (''G'' @ [newline] @ ''rest''))], now = 0, read_wait = 1,
     written = [], write_errors = []\<rparr>"

definition sample_limits :: limits where
  "sample_limits = \<lparr>lim_connections = 1, max_head_bytes = 64, max_headers = 4, max_body_bytes = 16,
     read_timeout = 5, lim_idle_timeout = 5, write_timeout = 5\<rparr>"

abbreviation sample_handler :: "head \<Rightarrow> handled" where
  "sample_handler \<equiv> \<lambda>_. Answer (Some (new_response 204))"

definition sample_head :: head where
  "sample_head = \<lparr>hd_method = Get, hd_target = ''/'', hd_version = Http11, hd_headers = [], hd_framing = NoBody,
     expects_continue = False, wants_close = False\<rparr>"

lemma sample_head_from:
  "head_from \<lparr>p_method = Some ''GET'', p_path = Some ''/'', p_version = Some 1, p_headers = []\<rparr> = Inr sample_head"
proof -
  have "\<not> has_token [] ''close''"
    by (simp add: has_token_def trim_def trim_start_def trim_end_def eq_ignore_ascii_case_def to_ascii_lowercase_def)
  then show ?thesis
    by (simp add: head_from_def framing_of_def header_of_def parse_method_def sample_head_def Let_def)
qed

lemma sample_read_head:
  "read_head one_line_parser sample_limits (arm_read 5 sample_wire) =
     (Inr (Some (sample_head, 5)), sample_wire\<lparr>buf := ''rest'', incoming := [], read_wait := 5\<rparr>)"
proof -
  have "count_blank_lines (Suc n) (CHR ''G'' # r) = 0" for n r by (simp add: newline_def)
  from this [of 8] have "blank_lines_before_a_request (CHR ''G'' # r) MAX_LEADING_BLANK_LINES = 0" for r
    by (simp add: blank_lines_before_a_request_def MAX_LEADING_BLANK_LINES_def newline_def numeral_eq_Suc)
  then show ?thesis
    unfolding read_head_def
    by (subst read_head_loop.simps)
       (simp add: sample_wire_def sample_limits_def arm_read_def MIN_TIMEOUT_def fill_def socket_read_def
         interrupted_def Let_def starting_now_def arm_deadline_def one_line_parser_def newline_def
         sample_head_from [unfolded One_nat_def] consume_def)
qed

lemma sample_request:
  "\<exists>w'. serve_request one_line_parser (\<lambda>_. Partial) sample_handler sample_limits sample_wire = (True, w')"
proof -
  have "lim_idle_timeout sample_limits = 5" by (simp add: sample_limits_def)
  moreover have "hd_framing sample_head = NoBody" "hd_version sample_head = Http11" "\<not> wants_close sample_head"
    "write_errors sample_wire = []"
    by (simp_all add: sample_head_def sample_wire_def)
  ultimately show ?thesis
    by (simp add: serve_request_def sample_read_head handle_request_def request_body_def drain_if_cheap_def or_panic_def
        reusable_def new_response_def write_response_def write_all_def Let_def)
qed

theorem request_taken_exactly_witness:
  "\<exists>w' hb enc. serve_request one_line_parser (\<lambda>_. Partial) sample_handler sample_limits sample_wire = (True, w') \<and>
     coming sample_wire = hb @ enc @ coming w'"
proof -
  obtain w' where w': "serve_request one_line_parser (\<lambda>_. Partial) sample_handler sample_limits sample_wire = (True, w')"
    using sample_request by blast
  from request_taken_exactly [OF one_line_parser_contract w'] w' show ?thesis by blast
qed

lemma serve_connection_enough:
  assumes "head_parser_contract ph" and "wire_size w < n"
  shows "\<exists>w'. serve_connection ph cs handle lim n w = Some w'"
  using assms(2)
proof (induction n arbitrary: w)
  case (Suc n)
  obtain go w1 where s: "serve_request ph cs handle lim w = (go, w1)" by fastforce
  show ?case
  proof (cases go)
    case True
    then have "serve_request ph cs handle lim w = (True, w1)" using s by simp
    from serve_request_exact [OF assms(1) this]
    obtain hb enc where *: "coming w = hb @ enc @ coming w1" "hb \<noteq> []" "length (incoming w1) \<le> length (incoming w)"
      by (elim exE conjE)
    have "0 < length hb" using *(2) by simp
    moreover have "wire_size w = length hb + length enc + length (coming w1) + length (incoming w)"
      by (simp add: wire_size_def *(1))
    ultimately have "wire_size w1 < wire_size w" using *(3) unfolding wire_size_def [of w1] by linarith
    then have "\<exists>w'. serve_connection ph cs handle lim n w1 = Some w'" using Suc by simp
    with True s show ?thesis by simp
  qed (use s in simp)
qed simp

text \<open>
  Serving a connection ends: with as many rounds as there are bytes and deliveries to come,
  and one more, the connection is over, since every request it carries takes at least one
  byte off the wire.
\<close>

theorem serve_connection_ends:
  assumes "head_parser_contract ph"
  shows "\<exists>w'. serve_connection ph cs handle lim (wire_size w + 1) w = Some w'"
  by (rule serve_connection_enough [OF assms]) simp

theorem serve_connection_ends_witness:
  "\<exists>w'. serve_connection one_line_parser (\<lambda>_. Partial) (\<lambda>_. Answer None) sample_limits (wire_size sample_wire + 1) sample_wire = Some w'"
  by (rule serve_connection_ends [OF one_line_parser_contract])


section \<open>Unambiguous framing\<close>

definition values_of :: "string \<Rightarrow> (string \<times> string) list \<Rightarrow> string list" where
  "values_of name headers = map snd (filter (\<lambda>(field, _). eq_ignore_ascii_case field name) headers)"

lemma header_names_differ:
  "eq_ignore_ascii_case f ''transfer-encoding'' \<Longrightarrow> \<not> eq_ignore_ascii_case f ''content-length''"
  by (auto simp: eq_ignore_ascii_case_def to_ascii_lowercase_def dest!: arg_cong [where f = length])

lemma scan_framing_values:
  "scan_framing te cl hs = Inr (te', cl') \<Longrightarrow>
     (case te of
        None \<Rightarrow> values_of ''transfer-encoding'' hs = (case te' of None \<Rightarrow> [] | Some v \<Rightarrow> [v])
      | Some v \<Rightarrow> te' = Some v \<and> values_of ''transfer-encoding'' hs = []) \<and>
     (\<forall>v \<in> set (values_of ''content-length'' hs). cl' = Some v) \<and> (cl \<noteq> None \<longrightarrow> cl' = cl) \<and>
     (cl = None \<and> cl' \<noteq> None \<longrightarrow> values_of ''content-length'' hs \<noteq> [])"
proof (induction hs arbitrary: te cl)
  case Nil
  then show ?case by (auto simp: values_of_def split: option.splits)
next
  case (Cons h hs)
  obtain name v where h: "h = (name, v)" by (cases h)
  consider (te) "eq_ignore_ascii_case name ''transfer-encoding''" "te = None"
      "scan_framing (Some v) cl hs = Inr (te', cl')"
    | (cl) "\<not> eq_ignore_ascii_case name ''transfer-encoding''" "eq_ignore_ascii_case name ''content-length''"
      "cl = None \<or> cl = Some v" "scan_framing te (Some v) hs = Inr (te', cl')"
    | (other) "\<not> eq_ignore_ascii_case name ''transfer-encoding''" "\<not> eq_ignore_ascii_case name ''content-length''"
      "scan_framing te cl hs = Inr (te', cl')"
    using Cons.prems h by (auto split: if_splits)
  then show ?case
  proof cases
    case te
    note IH = Cons.IH [OF te(3)]
    have "values_of ''transfer-encoding'' (h # hs) = v # values_of ''transfer-encoding'' hs"
      "values_of ''content-length'' (h # hs) = values_of ''content-length'' hs"
      using te(1) header_names_differ [OF te(1)] by (simp_all add: h values_of_def)
    with IH te(2) show ?thesis by simp
  next
    case cl
    note IH = Cons.IH [OF cl(4)]
    have "values_of ''transfer-encoding'' (h # hs) = values_of ''transfer-encoding'' hs"
      "values_of ''content-length'' (h # hs) = v # values_of ''content-length'' hs"
      using cl(1,2) by (simp_all add: h values_of_def)
    with IH cl(3) show ?thesis by (cases te) auto
  next
    case other
    note IH = Cons.IH [OF other(3)]
    have "values_of ''transfer-encoding'' (h # hs) = values_of ''transfer-encoding'' hs"
      "values_of ''content-length'' (h # hs) = values_of ''content-length'' hs"
      using other(1,2) by (simp_all add: h values_of_def)
    with IH show ?thesis by (cases te) auto
  qed
qed

text \<open>
  C9: The framing decision leaves nothing to interpret: a request is chunked only when there is
  exactly one \<open>Transfer-Encoding\<close>, it says chunked and nothing else, and there is no
  \<open>Content-Length\<close>; it has a length only when there is no \<open>Transfer-Encoding\<close> and every
  \<open>Content-Length\<close> is one and the same string of digits with that value; and a request with
  neither header, or a length of zero, has no body. Everything else is refused.
\<close>

theorem framing_unambiguous:
  assumes "framing_of headers = Inr fr"
  shows "case fr of
      Chunked \<Rightarrow> (\<exists>v. values_of ''transfer-encoding'' headers = [v] \<and> eq_ignore_ascii_case v ''chunked'') \<and>
        values_of ''content-length'' headers = []
    | Length n \<Rightarrow> 0 < n \<and> n < 2 ^ 64 \<and> values_of ''transfer-encoding'' headers = [] \<and>
        values_of ''content-length'' headers \<noteq> [] \<and>
        (\<exists>v. list_all is_ascii_digit v \<and> read_digits v = n \<and> set (values_of ''content-length'' headers) = {v})
    | NoBody \<Rightarrow> values_of ''transfer-encoding'' headers = [] \<and>
        (\<forall>v \<in> set (values_of ''content-length'' headers). list_all is_ascii_digit v \<and> read_digits v = 0)"
proof -
  obtain te cl where s: "scan_framing None None headers = Inr (te, cl)"
    using assms by (cases "scan_framing None None headers") (auto simp: framing_of_def)
  note v = scan_framing_values [OF s]
  have digits: "parse_uint u64_bound l = Some n \<Longrightarrow> l \<noteq> [] \<Longrightarrow> list_all is_ascii_digit l \<Longrightarrow> read_digits l = n \<and> n < 2 ^ 64" for l n
    by (cases l) (auto simp: parse_uint_def Let_def split: if_splits)
  show ?thesis
  proof (cases te)
    case (Some e)
    then have "fr = Chunked" "cl = None" "eq_ignore_ascii_case e ''chunked''"
      using assms s by (auto simp: framing_of_def split: option.splits if_splits)
    with v Some show ?thesis by (cases "values_of ''content-length'' headers") auto
  next
    case None
    show ?thesis
    proof (cases cl)
      case (Some l)
      then obtain n where n: "parse_uint u64_bound l = Some n" "l \<noteq> []" "list_all is_ascii_digit l"
          "fr = (if n = 0 then NoBody else Length n)"
        using assms s None by (auto simp: framing_of_def split: option.splits if_splits)
      moreover have "set (values_of ''content-length'' headers) = {l}"
        using v Some by (cases "values_of ''content-length'' headers") auto
      ultimately show ?thesis using v None Some digits [OF n(1-3)] by auto
    next
      case no: None
      with assms s None v show ?thesis
        by (cases "values_of ''content-length'' headers") (auto simp: framing_of_def)
    qed
  qed
qed

theorem framing_unambiguous_witness:
  "framing_of [(''Content-Length'', ''5'')] = Inr (Length 5) \<and>
     set (values_of ''content-length'' [(''Content-Length'', ''5'')]) = {''5''}"
proof -
  have lower: "to_ascii_lowercase ''Content-Length'' = ''content-length''" by code_simp
  have diff: "to_ascii_lowercase ''transfer-encoding'' \<noteq> ''content-length''" "to_ascii_lowercase ''content-length'' = ''content-length''"
    by code_simp+
  have f: "framing_of [(''Content-Length'', ''5'')] = Inr (Length 5)"
    using lower diff
    by (simp add: framing_of_def eq_ignore_ascii_case_def is_ascii_digit_def parse_uint_def Let_def
        read_digits_def digit_val_def)
  from framing_unambiguous [OF f] f show ?thesis
    using lower diff by (simp add: values_of_def eq_ignore_ascii_case_def)
qed

section \<open>What a peer can make the server hold\<close>

text \<open>
  A body never exceeds the limit its reader set: one declared longer is refused before a
  byte of it is read and before the client is told to go on, and a chunked one never grows
  past the limit whatever sizes its chunks announce.
\<close>

theorem body_within_limit:
  assumes "read_body cs b w limit = (r, b', w')"
  shows "(case r of Inr s \<Rightarrow> length s \<le> limit | Inl _ \<Rightarrow> True) \<and>
     (\<forall>n. \<not> started b \<and> body_framing b = Length n \<and> limit < n \<longrightarrow> r = Inl TooLarge \<and> w' = w)"
proof (cases "started b")
  case True
  with assms show ?thesis by (auto simp: read_body_def)
next
  case ns: False
  obtain s bc wc where c: "send_continue (b\<lparr>started := True\<rparr>) w = (s, bc, wc)" by (metis prod_cases3)
  have "length x \<le> limit" if r: "r = Inr x" for x
  proof (cases "body_framing b")
    case NoBody
    with assms ns r show ?thesis by (simp add: read_body_def)
  next
    case (Length n)
    then obtain we where "read_exactly wc n [] (body_deadline bc) = (Inr x, we)" "n \<le> limit"
      using assms ns r c by (auto simp: read_body_def from_utf8_def Let_def split: if_splits sum.splits prod.splits)
    with read_exactly_coming [of wc n "[]" "body_deadline bc" "Inr x" we] show ?thesis by auto
  next
    case Chunked
    then obtain we where "read_chunked cs wc limit [] (body_deadline bc) = (Inr x, we)"
      using assms ns r c by (auto simp: read_body_def from_utf8_def Let_def split: if_splits sum.splits prod.splits)
    from read_chunked_coming [OF this] show ?thesis by auto
  qed
  with assms ns show ?thesis by (cases r) (auto simp: read_body_def)
qed

theorem body_within_limit_witness:
  "fst (read_body (\<lambda>_. Partial) (request_body (sample_head\<lparr>hd_framing := Length 1000\<rparr>) 9) sample_wire 100) = Inl TooLarge"
proof -
  obtain r b' w' where e: "read_body (\<lambda>_. Partial) (request_body (sample_head\<lparr>hd_framing := Length 1000\<rparr>) 9) sample_wire 100 = (r, b', w')"
    by (metis prod_cases3)
  from body_within_limit [OF e] e show ?thesis by (simp add: request_body_def)
qed

section \<open>Responses on the wire\<close>

definition sendable :: "http_response \<Rightarrow> bool" where
  "sendable r \<longleftrightarrow> list_all (\<lambda>(name, v). is_token name \<and> is_field_value v) (rsp_headers r)"

lemma sendable_build:
  "sendable (new_response n)" "sendable r \<Longrightarrow> sendable (with_header r name v)"
  "sendable r \<Longrightarrow> sendable (with_body r t b)" "sendable r \<Longrightarrow> sendable (closing r)"
  by (auto simp: sendable_def new_response_def with_header_def with_body_def closing_def)

definition one_line :: "bytes \<Rightarrow> bool" where
  "one_line l \<longleftrightarrow> l \<noteq> [] \<and> CHR 0x0D \<notin> set l \<and> CHR 0x0A \<notin> set l"

lemma one_line_header: "is_token name \<Longrightarrow> is_field_value v \<Longrightarrow> one_line (name @ '': '' @ v)"
proof -
  assume n: "is_token name" and v: "is_field_value v"
  have name: "is_token [c]" if "c \<in> set name" for c
    using n that unfolding is_token_def list_all_iff by simp
  have val: "is_field_value [c]" if "c \<in> set v" for c
    using v that unfolding is_field_value_def list_all_iff by simp
  have "\<not> is_token [CHR 0x0D]" "\<not> is_token [CHR 0x0A]" by code_simp+
  moreover have "\<not> is_field_value [CHR 0x0D]" "\<not> is_field_value [CHR 0x0A]" by code_simp+
  ultimately have "CHR 0x0D \<notin> set name" "CHR 0x0A \<notin> set name" "CHR 0x0D \<notin> set v" "CHR 0x0A \<notin> set v"
    using name val by metis+
  then show "one_line (name @ '': '' @ v)" by (simp add: one_line_def)
qed

lemma one_line_show_nat: "CHR 0x0D \<notin> set (show_nat n) \<and> CHR 0x0A \<notin> set (show_nat n)"
  using show_nat_digits [of n] by (auto simp: list_all_iff is_ascii_digit_def)

lemma one_line_reason: "CHR 0x0D \<notin> set (reason_phrase n) \<and> CHR 0x0A \<notin> set (reason_phrase n)"
proof -
  have "list_all (\<lambda>(_, s). CHR 0x0D \<notin> set s \<and> CHR 0x0A \<notin> set s) reason_phrases"
    by (simp add: reason_phrases_def)
  then show ?thesis
    by (auto simp: reason_phrase_def list_all_iff split: option.split dest!: map_of_SomeD)
qed

text \<open>
  A response cannot be split: whatever names and values are attached to it, it goes out as a
  status line, the headers that were accepted, one line each, its own framing headers, an empty
  line and the body, and none of those lines contains a line break.
\<close>

theorem response_not_split:
  assumes "sendable r"
  shows "\<exists>lines. render meth version r keep_alive =
       concat (map (\<lambda>l. l @ crlf) lines) @ crlf @
       (if rsp_status r \<in> {204, 304} \<or> meth = Head then [] else rsp_body r) \<and>
     list_all one_line lines \<and>
     length lines = length (rsp_headers r) + (if rsp_status r \<in> {204, 304} then 2 else 3)"
proof -
  let ?status = "(case version of Http10 \<Rightarrow> ''HTTP/1.0'' | Http11 \<Rightarrow> ''HTTP/1.1'') @ '' '' @
    show_nat (rsp_status r) @ '' '' @ reason_phrase (rsp_status r)"
  let ?len = "if rsp_status r \<in> {204, 304} then [] else [''Content-Length: '' @ show_nat (length (rsp_body r))]"
  let ?conn = "if keep_alive then ''Connection: keep-alive'' else ''Connection: close''"
  let ?lines = "?status # map (\<lambda>(n, v). n @ '': '' @ v) (rsp_headers r) @ ?len @ [?conn]"
  have "concat (map header_line hs) = concat (map (\<lambda>l. l @ crlf) (map (\<lambda>(n, v). n @ '': '' @ v) hs))" for hs
    by (induction hs) (auto simp: header_line_def)
  then have "render meth version r keep_alive = concat (map (\<lambda>l. l @ crlf) ?lines) @ crlf @
      (if rsp_status r \<in> {204, 304} \<or> meth = Head then [] else rsp_body r)"
    by (simp add: render_def Let_def)
  moreover have "one_line ?status" "one_line ?conn" "list_all one_line ?len"
    using one_line_show_nat one_line_reason by (auto simp: one_line_def split: http_version.splits)
  moreover have "list_all one_line (map (\<lambda>(n, v). n @ '': '' @ v) (rsp_headers r))"
    using assms one_line_header by (fastforce simp: sendable_def list_all_iff)
  ultimately show ?thesis by (intro exI [of _ ?lines]) (auto simp: list_all_iff)
qed

theorem response_not_split_witness:
  "\<exists>lines. list_all one_line lines \<and>
     length lines = length (rsp_headers (with_header (new_response 200) ''X-Id'' (''a'' @ crlf @ ''Set-Cookie: b''))) + 3"
proof -
  let ?r = "with_header (new_response 200) ''X-Id'' (''a'' @ crlf @ ''Set-Cookie: b'')"
  have "sendable ?r" by (intro sendable_build)
  from response_not_split [OF this, of Get Http11 True]
  obtain lines where "list_all one_line lines" "length lines = length (rsp_headers ?r) + (if rsp_status ?r \<in> {204, 304} then 2 else 3)"
    by blast
  moreover have "rsp_status ?r = 200" by (simp add: with_header_def new_response_def)
  ultimately show ?thesis by auto
qed


section \<open>How long a request can hold its connection\<close>

lemma fill_within: "\<not> deadline_expired dl w \<Longrightarrow> fill (arm_deadline dl w) = (r, w') \<Longrightarrow> now w' \<le> dl"
  by (auto simp: fill_def socket_read_def arm_deadline_def arm_read_def deadline_expired_def MIN_TIMEOUT_def max_def
      split: if_splits list.splits prod.splits sum.splits)

lemma read_exactly_within: "read_exactly w n into dl = (r, w') \<Longrightarrow> now w' \<le> max (now w) dl"
proof (induction w n into dl rule: read_exactly.induct)
  case (1 w n into dl)
  show ?case
  proof (cases "n = 0 \<or> deadline_expired dl w")
    case True
    with "1.prems" show ?thesis by (auto simp: read_exactly.simps [of w n] split: if_splits)
  next
    case False
    obtain f wf where f: "fill (arm_deadline dl w) = (f, wf)" by fastforce
    have "now wf \<le> dl" "now w \<le> dl"
      using False f fill_within [OF _ f] by (auto simp: deadline_expired_def)
    with 1 False f show ?thesis
      by (auto simp: read_exactly.simps [of w n] Let_def split: if_splits sum.splits)
  qed
qed

lemma read_line_bytes_within: "read_line_bytes w budget raw dl = (r, w') \<Longrightarrow> now w' \<le> max (now w) dl"
proof (induction w budget raw dl rule: read_line_bytes.induct)
  case (1 w budget raw dl)
  show ?case
  proof (cases "deadline_expired dl w")
    case True
    with "1.prems" show ?thesis by (auto simp: read_line_bytes.simps [of w])
  next
    case False
    obtain f wf where f: "fill (arm_deadline dl w) = (f, wf)" by fastforce
    have "now wf \<le> dl" "now w \<le> dl"
      using False f fill_within [OF _ f] by (auto simp: deadline_expired_def)
    with 1 False f show ?thesis
      by (auto simp: read_line_bytes.simps [of w] Let_def split: if_splits sum.splits)
  qed
qed

lemma read_line_within: "read_line w budget dl = (r, w') \<Longrightarrow> now w' \<le> max (now w) dl"
  using read_line_bytes_within [of w budget "[]" dl]
  by (auto simp: read_line_def Let_def split: if_splits sum.splits prod.splits)

lemma read_trailers_within: "read_trailers n w dl = (r, w') \<Longrightarrow> now w' \<le> max (now w) dl"
proof (induction n arbitrary: w)
  case (Suc n)
  obtain l wl where l: "read_line w CHUNK_LINE_BYTES dl = (l, wl)" by fastforce
  with Suc show ?case using read_line_within [OF l]
    by (fastforce split: sum.splits line.splits bool.splits if_splits)
qed simp

lemma read_chunked_within: "read_chunked cs w limit body dl = (r, w') \<Longrightarrow> now w' \<le> max (now w) dl"
proof (induction cs w limit body dl rule: read_chunked.induct)
  case (1 cs w limit body dl)
  obtain l w1 where l: "read_line w CHUNK_LINE_BYTES dl = (l, w1)" by fastforce
  note w1 = read_line_within [OF l]
  show ?case
  proof (cases "\<exists>t sz. l = Inr (Text t True) \<and> parse_chunk_size cs t = Some sz \<and> sz \<noteq> 0 \<and> sz \<le> limit - length body")
    case False
    have "now w' \<le> max (now w1) dl"
      using "1.prems" False l read_trailers_within [of "MAX_TRAILERS + 1" w1 dl]
      by (auto simp: read_chunked.simps [of cs w] split: sum.splits line.splits if_splits option.splits prod.splits)
    with w1 show ?thesis by simp
  next
    case True
    then obtain t sz where t: "l = Inr (Text t True)" "parse_chunk_size cs t = Some sz" "sz \<noteq> 0" "sz \<le> limit - length body"
      by blast
    obtain e w2 where e: "read_exactly w1 sz body dl = (e, w2)" by fastforce
    obtain l2 w3 where l2: "read_line w2 2 dl = (l2, w3)" by fastforce
    note w2 = read_exactly_within [OF e] and w3 = read_line_within [OF l2]
    show ?thesis
    proof (cases "\<exists>body'. e = Inr body' \<and> l2 = Inr (Text [] True)")
      case False
      with "1.prems" l t e l2 have "w' = w2 \<or> w' = w3"
        by (auto simp: read_chunked.simps [of cs w] split: sum.splits line.splits if_splits)
      with w1 w2 w3 show ?thesis by auto
    next
      case go: True
      then obtain body' where b: "e = Inr body'" "l2 = Inr (Text [] True)" by blast
      with "1.prems" l t e l2 have "read_chunked cs w3 limit body' dl = (r, w')"
        by (simp add: read_chunked.simps [of cs w])
      with "1.IH" l t e l2 b have "now w' \<le> max (now w3) dl" by simp
      with w1 w2 w3 show ?thesis by simp
    qed
  qed
qed

text \<open>
  A client cannot hold a connection by trickling a body: whatever the framing and however
  the bytes arrive, reading the body, or draining it, is over by the deadline the request was
  given when its first byte came, or at once when that has passed.
\<close>

theorem body_within_deadline:
  assumes "read_body cs b w limit = (r, b', w')" and "drain_if_cheap b w limit = (b'', w'')"
  shows "now w' \<le> max (now w) (body_deadline b) \<and> now w'' \<le> max (now w) (body_deadline b)"
proof
  have "now w2 = now w1" if "write_all bs w1 = (x, w2)" for bs w1 x w2
    using that by (auto simp: write_all_def split: list.splits option.splits)
  then have c: "now w2 = now w1 \<and> body_deadline b2 = body_deadline b1" if "send_continue b1 w1 = (x, b2, w2)" for b1 w1 x b2 w2
    using that by (auto simp: send_continue_def split: if_splits sum.splits prod.splits)
  obtain s bc wc where s: "send_continue (b\<lparr>started := True\<rparr>) w = (s, bc, wc)" by (metis prod_cases3)
  show "now w' \<le> max (now w) (body_deadline b)"
    using assms(1) s c [OF s] read_exactly_within [of wc _ "[]" "body_deadline b"]
      read_chunked_within [of cs wc limit "[]" "body_deadline b"]
    by (auto simp: read_body_def Let_def split: if_splits framing.splits sum.splits prod.splits)
  show "now w'' \<le> max (now w) (body_deadline b)"
    using assms(2) read_exactly_within [of w _ "[]" "body_deadline b"]
    by (auto simp: drain_if_cheap_def split: if_splits framing.splits sum.splits prod.splits)
qed

theorem body_within_deadline_witness:
  "now (snd (snd (read_body (\<lambda>_. Partial) (request_body (sample_head\<lparr>hd_framing := Length 1000\<rparr>) 9) sample_wire 2000))) \<le>
     max (now sample_wire) 9"
proof -
  let ?b = "request_body (sample_head\<lparr>hd_framing := Length 1000\<rparr>) 9"
  obtain r b' w' where r: "read_body (\<lambda>_. Partial) ?b sample_wire 2000 = (r, b', w')" by (metis prod_cases3)
  obtain b'' w'' where d: "drain_if_cheap ?b sample_wire 2000 = (b'', w'')" by fastforce
  from body_within_deadline [OF r d] r show ?thesis by (simp add: request_body_def)
qed

end
