(* ===== verification/Origin.thy ===== *)
theory Origin
  imports Prelude
begin

text \<open>
  \<open>Origin\<close> header validation (\<open>transport/origin.rs\<close>), the defence against DNS rebinding: an
  origin is normalized to scheme, host and port and compared with a policy. The standard
  library's parser of IP addresses, which decides what is a loopback literal, is part of the
  model. The properties: what the default policy lets through is exactly loopback, whatever the
  scheme and the port, and an allowlist compares scheme and host regardless of case and ports
  exactly.
\<close>

section \<open>Addresses\<close>

text \<open>
  \<open>read_number\<close> of the standard parser: as many digits as there are, at least one, at most
  \<open>max_digits\<close>, and no leading zero unless allowed.
\<close>

definition hex_val :: "char \<Rightarrow> nat" where
  "hex_val c =
     (let n = (of_char c :: nat) in
      if n \<le> 57 then n - 48 else if n \<le> 70 then n - 55 else n - 87)"

definition radix_digit :: "nat \<Rightarrow> char \<Rightarrow> bool" where
  "radix_digit radix c = (if radix = 16 then is_ascii_hexdigit c else is_ascii_digit c)"

definition read_number :: "nat \<Rightarrow> nat \<Rightarrow> nat \<Rightarrow> bool \<Rightarrow> string \<Rightarrow> (nat \<times> string) option" where
  "read_number radix max_digits bound allow_zero_prefix s =
     (let ds = takeWhile (radix_digit radix) s;
          v = foldl (\<lambda>n c. radix * n + hex_val c) 0 ds
      in if ds = [] \<or> max_digits < length ds \<or> bound \<le> v \<or>
            (\<not> allow_zero_prefix \<and> 1 < length ds \<and> hd ds = CHR ''0'')
         then None else Some (v, drop (length ds) s))"

text \<open>\<open>read_separator\<close>: the separator comes first, except before item 0.\<close>

definition read_separator :: "char \<Rightarrow> nat \<Rightarrow> (string \<Rightarrow> ('a \<times> string) option) \<Rightarrow> string \<Rightarrow> ('a \<times> string) option" where
  "read_separator sep i p s =
     (if i = 0 then p s else case s of c # s' \<Rightarrow> if c = sep then p s' else None | [] \<Rightarrow> None)"

definition read_octet :: "nat \<Rightarrow> string \<Rightarrow> (nat \<times> string) option" where
  "read_octet i = read_separator (CHR ''.'') i (read_number 10 3 256 False)"

definition read_ipv4 :: "string \<Rightarrow> (nat list \<times> string) option" where
  "read_ipv4 s =
     Option.bind (read_octet 0 s) (\<lambda>(a, s). Option.bind (read_octet 1 s) (\<lambda>(b, s).
     Option.bind (read_octet 2 s) (\<lambda>(c, s). map_option (\<lambda>(d, s). ([a, b, c, d], s)) (read_octet 3 s))))"

text \<open>
  A run of up to \<open>limit\<close> groups, of which the last two may be written as an IPv4 address; the
  number already read is \<open>i\<close>.
\<close>

function read_groups :: "nat \<Rightarrow> nat \<Rightarrow> string \<Rightarrow> nat list \<times> bool \<times> string" where
  "read_groups limit i s =
     (if limit \<le> i then ([], False, s)
      else case (if i < limit - 1 then read_separator (CHR '':'') i read_ipv4 s else None) of
             Some (q, s') \<Rightarrow> ([256 * q ! 0 + q ! 1, 256 * q ! 2 + q ! 3], True, s')
           | None \<Rightarrow>
               (case read_separator (CHR '':'') i (read_number 16 4 65536 True) s of
                  None \<Rightarrow> ([], False, s)
                | Some (g, s') \<Rightarrow> (case read_groups limit (Suc i) s' of (gs, v4, s'') \<Rightarrow> (g # gs, v4, s''))))"
  by pat_completeness auto
termination by (relation "measure (\<lambda>(limit, i, s). limit - i)") auto

declare read_groups.simps [simp del]

definition read_ipv6 :: "string \<Rightarrow> (nat list \<times> string) option" where
  "read_ipv6 s =
     (case read_groups 8 0 s of
        (head, head_ipv4, s) \<Rightarrow>
          if length head = 8 then Some (head, s)
          else if head_ipv4 then None
          else (case s of
                  CHR '':'' # CHR '':'' # s \<Rightarrow>
                    (case read_groups (8 - (length head + 1)) 0 s of
                       (tail, _, s) \<Rightarrow> Some (head @ replicate (8 - length head - length tail) 0 @ tail, s))
                | _ \<Rightarrow> None))"

datatype ip_addr = V4 "nat list" | V6 "nat list"

definition parse_ip :: "string \<Rightarrow> ip_addr option" where
  "parse_ip s =
     (case read_ipv4 s of
        Some (octets, rest) \<Rightarrow> if rest = [] then Some (V4 octets) else None
      | None \<Rightarrow>
          (case read_ipv6 s of
             Some (groups, rest) \<Rightarrow> if rest = [] then Some (V6 groups) else None
           | None \<Rightarrow> None))"

fun is_loopback :: "ip_addr \<Rightarrow> bool" where
  "is_loopback (V4 octets) = (hd octets = 127)"
| "is_loopback (V6 groups) = (groups = [0, 0, 0, 0, 0, 0, 0, 1])"

section \<open>Origins\<close>

datatype origin_policy = Loopback | Allowlist "string list" | Any

definition is_scheme_char :: "char \<Rightarrow> bool" where
  "is_scheme_char c \<longleftrightarrow> is_ascii_alphanumeric c \<or> c = CHR ''+'' \<or> c = CHR ''-'' \<or> c = CHR ''.''"

text \<open>\<open>rfind\<close>: the text up to and with the last occurrence, and the rest.\<close>

definition split_at_last :: "char \<Rightarrow> string \<Rightarrow> (string \<times> string) option" where
  "split_at_last c s =
     (if c \<in> set s
      then let tail = rev (takeWhile (\<lambda>x. x \<noteq> c) (rev s)) in Some (take (length s - length tail) s, tail)
      else None)"

text \<open>Host and port of an authority; the outer \<^const>\<open>None\<close> is the early return.\<close>

definition host_port :: "string \<Rightarrow> (string \<times> string option) option" where
  "host_port authority =
     (case split_at_last (CHR '']'') authority of
        Some (host, tail) \<Rightarrow>
          if \<not> starts_with ''['' authority then None
          else if tail = [] then Some (host, None)
          else map_option (\<lambda>p. (host, Some p)) (strip_prefix '':'' tail)
      | None \<Rightarrow>
          (case split_once '':'' authority of
             Some (h, p) \<Rightarrow> Some (h, Some p)
           | None \<Rightarrow> Some (authority, None)))"

definition port_ok :: "string \<Rightarrow> bool" where
  "port_ok port \<longleftrightarrow> port \<noteq> [] \<and> list_all is_ascii_digit port \<and> parse_uint 65536 port \<noteq> None"

definition port_part :: "string option \<Rightarrow> string" where
  "port_part port = (case port of None \<Rightarrow> [] | Some p \<Rightarrow> '':'' @ p)"

definition normalize_origin :: "string \<Rightarrow> string option" where
  "normalize_origin origin =
     (let origin = trim origin in
      if origin = [] \<or> eq_ignore_ascii_case origin ''null'' then None
      else case split_once ''://'' origin of
        None \<Rightarrow> None
      | Some (scheme, rest) \<Rightarrow>
          if scheme = [] \<or> \<not> is_ascii_alphabetic (hd scheme) then None
          else if \<not> list_all is_scheme_char scheme then None
          else
            let authority = (case strip_suffix ''/'' rest of Some a \<Rightarrow> a | None \<Rightarrow> rest) in
            if authority = [] \<or> CHR ''/'' \<in> set authority \<or> CHR ''?'' \<in> set authority \<or>
               CHR ''#'' \<in> set authority \<or> CHR ''@'' \<in> set authority then None
            else case host_port authority of
              None \<Rightarrow> None
            | Some (host, port) \<Rightarrow>
                if host = [] then None
                else if (case port of None \<Rightarrow> False | Some p \<Rightarrow> \<not> port_ok p) then None
                else Some (to_ascii_lowercase scheme @ ''://'' @ to_ascii_lowercase host @ port_part port))"

definition host_of :: "string \<Rightarrow> string option" where
  "host_of normalized =
     (case split_once ''://'' normalized of
        None \<Rightarrow> None
      | Some (_, rest) \<Rightarrow>
          if starts_with ''['' rest
          then (case split_once '']'' rest of Some (h, _) \<Rightarrow> Some (tl h) | None \<Rightarrow> None)
          else Some (case split_once '':'' rest of Some (h, _) \<Rightarrow> h | None \<Rightarrow> rest))"

definition is_loopback_host :: "string \<Rightarrow> bool" where
  "is_loopback_host host \<longleftrightarrow>
     host = ''localhost'' \<or> ends_with ''.localhost'' host \<or>
     (case parse_ip host of Some addr \<Rightarrow> is_loopback addr | None \<Rightarrow> False)"

definition allowlist :: "string list \<Rightarrow> origin_policy" where
  "allowlist origins =
     Allowlist (map (\<lambda>o'. case normalize_origin o' of Some n \<Rightarrow> n | None \<Rightarrow> o') origins)"

definition is_allowed :: "origin_policy \<Rightarrow> string \<Rightarrow> bool" where
  "is_allowed policy origin =
     (policy = Any \<or>
      (case normalize_origin origin of
         None \<Rightarrow> False
       | Some normalized \<Rightarrow>
           (case policy of
              Any \<Rightarrow> True
            | Allowlist allowed \<Rightarrow> normalized \<in> set allowed
            | Loopback \<Rightarrow> (case host_of normalized of Some h \<Rightarrow> is_loopback_host h | None \<Rightarrow> False))))"


section \<open>Well-formed origins\<close>

text \<open>
  What a browser sends: a scheme, a host that is a name or a bracketed address, perhaps a port.
  This is the reference the parser is compared with.
\<close>

datatype host = Name string | Literal string

fun host_text :: "host \<Rightarrow> string" where
  "host_text (Name n) = n"
| "host_text (Literal v) = ''['' @ v @ '']''"

fun host_name :: "host \<Rightarrow> string" where
  "host_name (Name n) = n"
| "host_name (Literal v) = v"

fun lower_host :: "host \<Rightarrow> host" where
  "lower_host (Name n) = Name (to_ascii_lowercase n)"
| "lower_host (Literal v) = Literal (to_ascii_lowercase v)"

definition is_host_char :: "char \<Rightarrow> bool" where
  "is_host_char c \<longleftrightarrow> is_ascii_alphanumeric c \<or> c = CHR ''-'' \<or> c = CHR ''.''"

definition is_literal_char :: "char \<Rightarrow> bool" where
  "is_literal_char c \<longleftrightarrow> is_ascii_hexdigit c \<or> c = CHR '':'' \<or> c = CHR ''.''"

fun wf_host :: "host \<Rightarrow> bool" where
  "wf_host (Name n) \<longleftrightarrow> n \<noteq> [] \<and> list_all is_host_char n"
| "wf_host (Literal v) \<longleftrightarrow> list_all is_literal_char v"

definition wf_scheme :: "string \<Rightarrow> bool" where
  "wf_scheme s \<longleftrightarrow> s \<noteq> [] \<and> is_ascii_alphabetic (hd s) \<and> list_all is_scheme_char s"

definition wf_port :: "string option \<Rightarrow> bool" where
  "wf_port p \<longleftrightarrow> (case p of None \<Rightarrow> True | Some p \<Rightarrow> port_ok p)"

definition origin_text :: "string \<Rightarrow> host \<Rightarrow> string option \<Rightarrow> string" where
  "origin_text scheme h port = scheme @ ''://'' @ host_text h @ port_part port"

lemmas ascii_classes = is_ascii_alphanumeric_def is_ascii_alphabetic_def is_ascii_upper_def
  is_ascii_lower_def is_ascii_digit_def is_ascii_hexdigit_def

lemma class_lower:
  "is_host_char c \<Longrightarrow> is_host_char (ascii_lower c)" "is_scheme_char c \<Longrightarrow> is_scheme_char (ascii_lower c)"
  "is_literal_char c \<Longrightarrow> is_literal_char (ascii_lower c)" "is_ascii_alphabetic c \<Longrightarrow> is_ascii_alphabetic (ascii_lower c)"
proof -
  have same: "\<not> is_ascii_upper c \<Longrightarrow> ascii_lower c = c" by (simp add: ascii_lower_def)
  have alpha: "is_ascii_alphabetic c \<Longrightarrow> is_ascii_alphabetic (ascii_lower c)"
    by (cases "is_ascii_upper c") (auto simp: of_char_ascii_lower ascii_classes)
  have hex: "is_ascii_hexdigit c \<Longrightarrow> is_ascii_hexdigit (ascii_lower c)"
    by (cases "is_ascii_upper c") (auto simp: of_char_ascii_lower ascii_classes)
  have punct: "c \<in> {CHR ''-'', CHR ''.'', CHR '':'', CHR ''+''} \<Longrightarrow> ascii_lower c = c"
    by (auto simp: ascii_lower_def is_ascii_upper_def)
  have digit: "is_ascii_digit c \<Longrightarrow> ascii_lower c = c"
    by (intro same) (auto simp: ascii_classes)
  show "is_ascii_alphabetic c \<Longrightarrow> is_ascii_alphabetic (ascii_lower c)" by (rule alpha)
  show "is_host_char c \<Longrightarrow> is_host_char (ascii_lower c)"
    using alpha punct digit by (auto simp: is_host_char_def is_ascii_alphanumeric_def)
  show "is_scheme_char c \<Longrightarrow> is_scheme_char (ascii_lower c)"
    using alpha punct digit by (auto simp: is_scheme_char_def is_ascii_alphanumeric_def)
  show "is_literal_char c \<Longrightarrow> is_literal_char (ascii_lower c)"
    using hex punct by (auto simp: is_literal_char_def)
qed

lemma wf_lower_host: "wf_host h \<Longrightarrow> wf_host (lower_host h)"
  by (cases h) (auto simp: to_ascii_lowercase_def list_all_iff class_lower)

lemma wf_lower_scheme: "wf_scheme s \<Longrightarrow> wf_scheme (to_ascii_lowercase s)"
  by (cases s) (auto simp: wf_scheme_def to_ascii_lowercase_def list_all_iff class_lower)

lemma lower_host_text: "to_ascii_lowercase (host_text h) = host_text (lower_host h)"
  by (cases h) (simp_all add: to_ascii_lowercase_def ascii_lower_def is_ascii_upper_def)

lemma lower_host_name: "host_name (lower_host h) = to_ascii_lowercase (host_name h)"
  by (cases h) simp_all

lemma wf_scheme_chars: "wf_scheme s \<Longrightarrow> CHR '':'' \<notin> set s \<and> is_graphic (hd s)"
  by (auto simp: wf_scheme_def list_all_iff is_scheme_char_def ascii_classes is_graphic_def)

lemma wf_host_chars:
  "wf_host h \<Longrightarrow> c \<in> set (host_text h) \<Longrightarrow>
     c \<noteq> CHR ''/'' \<and> c \<noteq> CHR ''?'' \<and> c \<noteq> CHR ''#'' \<and> c \<noteq> CHR ''@'' \<and> is_graphic c"
  by (cases h) (auto simp: list_all_iff is_host_char_def is_literal_char_def ascii_classes is_graphic_def)

lemma port_ok_chars: "port_ok p \<Longrightarrow> c \<in> set p \<Longrightarrow> is_ascii_digit c"
  by (auto simp: port_ok_def list_all_iff)

lemma wf_port_chars: "wf_port p \<Longrightarrow> c \<in> set (port_part p) \<Longrightarrow> c = CHR '':'' \<or> is_ascii_digit c"
  by (auto simp: wf_port_def port_part_def port_ok_chars split: option.splits)

lemma host_text_nonempty: "wf_host h \<Longrightarrow> host_text h \<noteq> []"
  by (cases h) auto

lemma split_at_last_append: "c \<notin> set t \<Longrightarrow> split_at_last c (l @ c # t) = Some (l @ [c], t)"
proof -
  assume "c \<notin> set t"
  then have "takeWhile (\<lambda>x. x \<noteq> c) (rev t @ c # rev l) = rev t"
    by (subst takeWhile_append2) auto
  then show ?thesis by (simp add: split_at_last_def Let_def)
qed

lemma host_port_text:
  assumes h: "wf_host h" and p: "wf_port port"
  shows "host_port (host_text h @ port_part port) = Some (host_text h, port)"
proof (cases h)
  case (Literal v)
  have "CHR '']'' \<notin> set (port_part port)"
    using p by (auto simp: wf_port_def port_part_def ascii_classes dest!: port_ok_chars split: option.splits)
  then have "split_at_last (CHR '']'') (host_text h @ port_part port) = Some (host_text h, port_part port)"
    using split_at_last_append [of "CHR '']''" "port_part port" "CHR ''['' # v"] Literal by simp
  with p Literal show ?thesis
    by (auto simp: host_port_def starts_with_def port_part_def split: option.split)
next
  case (Name n)
  have n: "CHR '']'' \<notin> set n" "CHR '':'' \<notin> set n"
    using h Name by (auto simp: list_all_iff is_host_char_def ascii_classes)
  have "CHR '']'' \<notin> set (host_text h @ port_part port)"
    using p n Name by (auto simp: wf_port_def port_part_def ascii_classes dest!: port_ok_chars split: option.splits)
  then have "split_at_last (CHR '']'') (host_text h @ port_part port) = None" by (simp add: split_at_last_def)
  moreover have "split_once '':'' n = None" by (rule split_once_None) (use n in auto)
  moreover have "split_once '':'' (n @ '':'' @ q) = Some (n, q)" for q
    by (rule split_once_append) (use n in auto)
  ultimately show ?thesis using Name by (cases port) (auto simp: host_port_def port_part_def)
qed

lemma origin_text_split:
  "wf_scheme s \<Longrightarrow> split_once ''://'' (origin_text s h p @ r) = Some (s, host_text h @ port_part p @ r)"
  using split_once_append [of "''://''" s "host_text h @ port_part p @ r"] wf_scheme_chars [of s]
  by (simp add: origin_text_def)

text \<open>On a well-formed origin, with or without a trailing slash, normalizing is lowercasing.\<close>

lemma normalize_origin_text:
  assumes s: "wf_scheme s" and h: "wf_host h" and p: "wf_port port" and slash: "slash = [] \<or> slash = ''/''"
  shows "normalize_origin (origin_text s h port @ slash) =
     Some (origin_text (to_ascii_lowercase s) (lower_host h) port)"
proof -
  let ?auth = "host_text h @ port_part port" and ?o = "origin_text s h port @ slash"
  have chars: "c \<noteq> CHR ''/'' \<and> c \<noteq> CHR ''?'' \<and> c \<noteq> CHR ''#'' \<and> c \<noteq> CHR ''@'' \<and> is_graphic c"
    if "c \<in> set ?auth" for c
    using that wf_host_chars [OF h, of c] wf_port_chars [OF p, of c]
    by (auto simp: ascii_classes is_graphic_def)
  have ne: "?auth \<noteq> []" using host_text_nonempty [OF h] by simp
  then have "is_graphic (last ?auth)" using chars last_in_set by blast
  then have "is_graphic (last ?o)"
    using ne slash by (auto simp: origin_text_def is_graphic_def)
  moreover have "is_graphic (hd ?o)" "?o \<noteq> []"
    using wf_scheme_chars [OF s] s by (auto simp: origin_text_def wf_scheme_def)
  ultimately have trim: "trim ?o = ?o" by (intro trim_graphic) auto
  have "4 < length ?o" using ne s by (auto simp: origin_text_def wf_scheme_def neq_Nil_conv)
  then have null: "\<not> eq_ignore_ascii_case ?o ''null''"
    by (auto simp: eq_ignore_ascii_case_def to_ascii_lowercase_def dest!: arg_cong [where f = length])
  have "strip_suffix ''/'' ?auth = None"
  proof (rule ccontr)
    assume "strip_suffix ''/'' ?auth \<noteq> None"
    then obtain y where "?auth = y @ ''/''" by (auto simp: strip_suffix_iff)
    then have "CHR ''/'' \<in> set ?auth" by (metis in_set_conv_decomp)
    with chars show False by blast
  qed
  then have auth: "(case strip_suffix ''/'' (?auth @ slash) of Some a \<Rightarrow> a | None \<Rightarrow> ?auth @ slash) = ?auth"
    using slash strip_suffix_iff [of "''/''" "?auth @ slash" ?auth] by (auto split: option.split)
  have split: "split_once ''://'' ?o = Some (s, ?auth @ slash)"
    using origin_text_split [OF s, of h port slash] by simp
  have ok: "case port of None \<Rightarrow> False | Some p \<Rightarrow> \<not> port_ok p \<Longrightarrow> False"
    using p by (auto simp: wf_port_def split: option.splits)
  have bad: "\<not> (?auth = [] \<or> CHR ''/'' \<in> set ?auth \<or> CHR ''?'' \<in> set ?auth \<or> CHR ''#'' \<in> set ?auth \<or> CHR ''@'' \<in> set ?auth)"
    using ne chars by blast
  show ?thesis
    unfolding normalize_origin_def Let_def trim split option.case prod.case auth host_port_text [OF h p]
    using \<open>?o \<noteq> []\<close> null s bad ok host_text_nonempty [OF h]
    by (simp add: wf_scheme_def lower_host_text origin_text_def) blast
qed

lemma host_of_text:
  assumes "wf_scheme s" and h: "wf_host h" and "wf_port port"
  shows "host_of (origin_text s h port) = Some (host_name h)"
proof -
  have split: "split_once ''://'' (origin_text s h port) = Some (s, host_text h @ port_part port)"
    using origin_text_split [OF assms(1), of h port "[]"] by simp
  show ?thesis
  proof (cases h)
    case (Literal v)
    have "CHR '']'' \<notin> set v" using h Literal by (auto simp: list_all_iff is_literal_char_def ascii_classes)
    then have "split_once '']'' ((CHR ''['' # v) @ '']'' @ port_part port) = Some (CHR ''['' # v, port_part port)"
      by (intro split_once_append) auto
    with split Literal show ?thesis by (simp add: host_of_def starts_with_def)
  next
    case (Name n)
    have n: "CHR '':'' \<notin> set n" "\<not> starts_with ''['' (n @ port_part port)"
      using h Name by (auto simp: list_all_iff is_host_char_def ascii_classes starts_with_iff neq_Nil_conv)
    have "split_once '':'' n = None" by (rule split_once_None) (use n in auto)
    moreover have "split_once '':'' (n @ '':'' @ q) = Some (n, q)" for q
      by (rule split_once_append) (use n in auto)
    ultimately show ?thesis
      using split Name n(2) by (cases port) (auto simp: host_of_def port_part_def)
  qed
qed


section \<open>Names are not addresses\<close>

text \<open>
  The address parser only ever consumes hexadecimal digits, colons and dots; a host with any
  other character is a name.
\<close>

definition eats :: "(string \<Rightarrow> ('a \<times> string) option) \<Rightarrow> bool" where
  "eats p \<longleftrightarrow> (\<forall>s v r. p s = Some (v, r) \<longrightarrow> (\<exists>c. s = c @ r \<and> list_all is_literal_char c))"

lemma eatsD: "eats p \<Longrightarrow> p s = Some (v, r) \<Longrightarrow> \<exists>c. s = c @ r \<and> list_all is_literal_char c"
  by (auto simp: eats_def)

lemma eats_number: "eats (read_number radix m b z)"
proof -
  have "s = takeWhile (radix_digit radix) s @ drop (length (takeWhile (radix_digit radix) s)) s" for s
    by (metis dropWhile_eq_drop takeWhile_dropWhile_id)
  moreover have "list_all is_literal_char (takeWhile (radix_digit radix) s)" for s
    by (auto simp: list_all_iff radix_digit_def is_literal_char_def is_ascii_hexdigit_def
        dest!: set_takeWhileD split: if_splits)
  ultimately show ?thesis
    by (auto simp: eats_def read_number_def Let_def split: if_splits)
qed

lemma eats_separator:
  assumes "eats p" and "is_literal_char c"
  shows "eats (read_separator c i p)"
  unfolding eats_def
proof (intro allI impI)
  fix s v r assume s: "read_separator c i p s = Some (v, r)"
  show "\<exists>d. s = d @ r \<and> list_all is_literal_char d"
  proof (cases "i = 0")
    case True
    with s eatsD [OF assms(1)] show ?thesis by (simp add: read_separator_def)
  next
    case False
    with s obtain s' where s': "s = c # s'" "p s' = Some (v, r)"
      by (auto simp: read_separator_def split: list.splits if_splits)
    from eatsD [OF assms(1) s'(2)] obtain d where "s' = d @ r" "list_all is_literal_char d" by blast
    with s'(1) assms(2) show ?thesis by (intro exI [of _ "c # d"]) simp
  qed
qed

lemma literal_chars [simp]: "is_literal_char (CHR ''.'')" "is_literal_char (CHR '':'')"
  by (simp_all add: is_literal_char_def)

lemma eats_octet: "eats (read_octet i)"
  unfolding read_octet_def by (rule eats_separator [OF eats_number literal_chars(1)])

lemma eats_ipv4: "eats read_ipv4"
  unfolding eats_def
proof (intro allI impI)
  fix s v r assume "read_ipv4 s = Some (v, r)"
  then obtain a s1 b s2 c s3 d where r: "read_octet 0 s = Some (a, s1)" "read_octet 1 s1 = Some (b, s2)"
      "read_octet 2 s2 = Some (c, s3)" "read_octet 3 s3 = Some (d, r)"
    by (auto simp: read_ipv4_def bind_eq_Some_conv)
  obtain c0 where c0: "s = c0 @ s1" "list_all is_literal_char c0" using eatsD [OF eats_octet r(1)] by blast
  obtain c1 where c1: "s1 = c1 @ s2" "list_all is_literal_char c1" using eatsD [OF eats_octet r(2)] by blast
  obtain c2 where c2: "s2 = c2 @ s3" "list_all is_literal_char c2" using eatsD [OF eats_octet r(3)] by blast
  obtain c3 where c3: "s3 = c3 @ r" "list_all is_literal_char c3" using eatsD [OF eats_octet r(4)] by blast
  show "\<exists>c. s = c @ r \<and> list_all is_literal_char c"
    using c0 c1 c2 c3 by (intro exI [of _ "c0 @ c1 @ c2 @ c3"]) simp
qed

lemma read_groups_eats:
  "read_groups limit i s = (gs, v4, r) \<Longrightarrow> \<exists>c. s = c @ r \<and> list_all is_literal_char c"
proof (induction limit i s arbitrary: gs v4 r rule: read_groups.induct)
  case (1 limit i s)
  let ?v4 = "if i < limit - 1 then read_separator (CHR '':'') i read_ipv4 s else None"
  let ?g = "read_separator (CHR '':'') i (read_number 16 4 65536 True) s"
  show ?case
  proof (cases "limit \<le> i")
    case True
    with "1.prems" show ?thesis by (simp add: read_groups.simps [of limit i s])
  next
    case False
    show ?thesis
    proof (cases ?v4)
      case (Some q)
      with False "1.prems" obtain q' where "read_separator (CHR '':'') i read_ipv4 s = Some (q', r)"
        by (cases q) (auto simp: read_groups.simps [of limit i s] split: if_splits)
      then show ?thesis by (rule eatsD [OF eats_separator [OF eats_ipv4 literal_chars(2)]])
    next
      case None
      show ?thesis
      proof (cases ?g)
        case None': None
        with False None "1.prems" show ?thesis
          by (simp add: read_groups.simps [of limit i s])
      next
        case (Some g)
        obtain n s' where g: "g = (n, s')" by (cases g)
        obtain gs' w r' where rec: "read_groups limit (Suc i) s' = (gs', w, r')" by (metis prod_cases3)
        with False None Some g "1.prems" have "r' = r" by (simp add: read_groups.simps [of limit i s])
        with "1.IH" [OF False None Some g [symmetric] rec]
        obtain d where d: "s' = d @ r" "list_all is_literal_char d" by blast
        obtain c where c: "s = c @ s'" "list_all is_literal_char c"
          using eatsD [OF eats_separator [OF eats_number literal_chars(2)] Some [unfolded g]] by blast
        show ?thesis using c d by (intro exI [of _ "c @ d"]) simp
      qed
    qed
  qed
qed


lemma eats_ipv6: "eats read_ipv6"
  unfolding eats_def
proof (intro allI impI)
  fix s v r assume s: "read_ipv6 s = Some (v, r)"
  obtain head w s1 where h: "read_groups 8 0 s = (head, w, s1)" by (metis prod_cases3)
  obtain c1 where c1: "s = c1 @ s1" "list_all is_literal_char c1" using read_groups_eats [OF h] by blast
  show "\<exists>c. s = c @ r \<and> list_all is_literal_char c"
  proof (cases "length head = 8")
    case True
    with s h c1 show ?thesis by (auto simp: read_ipv6_def)
  next
    case False
    with s h obtain s2 where s2: "s1 = CHR '':'' # CHR '':'' # s2"
      by (auto simp: read_ipv6_def split: list.splits char.splits bool.splits if_splits)
    obtain tail w' s3 where t: "read_groups (8 - (length head + 1)) 0 s2 = (tail, w', s3)" by (metis prod_cases3)
    obtain c2 where c2: "s2 = c2 @ s3" "list_all is_literal_char c2" using read_groups_eats [OF t] by blast
    have "s3 = r" using s h False s2 t by (auto simp: read_ipv6_def split: if_splits)
    with c1 c2 s2 show ?thesis by (intro exI [of _ "c1 @ '':'' @ '':'' @ c2"]) simp
  qed
qed

lemma parse_ip_chars: "parse_ip s = Some a \<Longrightarrow> list_all is_literal_char s"
  using eatsD [OF eats_ipv4, of s _ "[]"] eatsD [OF eats_ipv6, of s _ "[]"]
  by (auto simp: parse_ip_def split: option.splits if_splits)

section \<open>Properties\<close>

text \<open>
  The default policy admits exactly loopback: a well-formed origin, with any scheme, any valid
  port and with or without a trailing slash, is let through if and only if its host is
  \<open>localhost\<close>, a name under \<open>.localhost\<close> or a loopback address, regardless of case. In
  particular a host name that is not one of those names and has a character no address has is
  refused, whatever it looks like.
\<close>

theorem loopback_policy_exact:
  assumes "wf_scheme s" and "wf_host h" and "wf_port port" and "slash = [] \<or> slash = ''/''"
  shows "(is_allowed Loopback (origin_text s h port @ slash) \<longleftrightarrow>
       is_loopback_host (to_ascii_lowercase (host_name h))) \<and>
     (\<not> list_all is_literal_char (to_ascii_lowercase (host_name h)) \<and>
        to_ascii_lowercase (host_name h) \<noteq> ''localhost'' \<and>
        \<not> ends_with ''.localhost'' (to_ascii_lowercase (host_name h)) \<longrightarrow>
        \<not> is_allowed Loopback (origin_text s h port @ slash))"
  using normalize_origin_text [OF assms]
    host_of_text [OF wf_lower_scheme [OF assms(1)] wf_lower_host [OF assms(2)] assms(3)]
  by (auto simp: is_allowed_def lower_host_name is_loopback_host_def dest: parse_ip_chars split: option.splits)

lemmas origin_eval = wf_scheme_def is_host_char_def is_scheme_char_def ascii_classes wf_port_def
  to_ascii_lowercase_def ascii_lower_def is_literal_char_def

theorem loopback_policy_exact_witness:
  "\<not> is_allowed Loopback ''https://evil.example.com''"
proof -
  have low: "to_ascii_lowercase ''evil.example.com'' = ''evil.example.com''"
    by (simp add: to_ascii_lowercase_def ascii_lower_def is_ascii_upper_def)
  have "wf_scheme ''https''" "wf_host (Name ''evil.example.com'')" "wf_port None"
    by (simp_all add: origin_eval)
  from loopback_policy_exact [OF this, of "[]", simplified, THEN conjunct2] show ?thesis
    by (simp add: origin_text_def port_part_def low is_literal_char_def ascii_classes ends_with_def strip_suffix_def)
qed

lemma origin_text_inject:
  assumes "wf_scheme s" "wf_host h" "wf_port p" "wf_scheme s'" "wf_host h'" "wf_port p'"
  shows "origin_text s h p = origin_text s' h' p' \<longleftrightarrow> s = s' \<and> host_text h = host_text h' \<and> p = p'"
proof
  assume "origin_text s h p = origin_text s' h' p'"
  then have s: "s = s'" and auth: "host_text h @ port_part p = host_text h' @ port_part p'"
    using origin_text_split [OF assms(1), of h p "[]"] origin_text_split [OF assms(4), of h' p' "[]"] by simp_all
  have "host_port (host_text h' @ port_part p') = Some (host_text h, p)"
    using host_port_text [OF assms(2,3)] by (simp only: auth)
  with s show "s = s' \<and> host_text h = host_text h' \<and> p = p'"
    by (simp only: host_port_text [OF assms(5,6)] option.inject prod.inject)
qed (simp add: origin_text_def)

text \<open>
  An allowlist entry admits an origin if and only if the two have the same scheme and host
  regardless of case and the same port, so no other port, no default port and no other host
  slips through.
\<close>

theorem allowlist_exact:
  assumes a: "wf_scheme s" "wf_host h" "wf_port p" and b: "wf_scheme s'" "wf_host h'" "wf_port p'"
    and "slash = [] \<or> slash = ''/''" and "slash' = [] \<or> slash' = ''/''"
  shows "is_allowed (allowlist [origin_text s h p @ slash]) (origin_text s' h' p' @ slash') \<longleftrightarrow>
     to_ascii_lowercase s = to_ascii_lowercase s' \<and>
     to_ascii_lowercase (host_text h) = to_ascii_lowercase (host_text h') \<and> p = p'"
  using normalize_origin_text [OF a assms(7)] normalize_origin_text [OF b assms(8)]
    origin_text_inject [OF wf_lower_scheme [OF a(1)] wf_lower_host [OF a(2)] a(3)
      wf_lower_scheme [OF b(1)] wf_lower_host [OF b(2)] b(3)]
  by (auto simp: is_allowed_def allowlist_def lower_host_text)

theorem allowlist_exact_witness:
  "\<not> is_allowed (allowlist [''http://example.com'']) ''http://example.com:80/''"
proof -
  have "wf_scheme ''http''" "wf_host (Name ''example.com'')" "wf_port None" "wf_port (Some ''80'')"
    by (simp_all add: origin_eval port_ok_def parse_uint_def Let_def read_digits_def digit_val_def)
  from allowlist_exact [OF this(1,2,3,1,2,4), of "[]" "''/''"] show ?thesis
    by (simp add: origin_text_def port_part_def)
qed

lemma normalize_null: "to_ascii_lowercase (trim o') = ''null'' \<Longrightarrow> normalize_origin o' = None"
  by (auto simp: normalize_origin_def Let_def eq_ignore_ascii_case_def to_ascii_lowercase_def
      ascii_lower_def is_ascii_upper_def)

text \<open>
  An opaque or unreadable origin is never let through except by a policy that accepts
  everything: \<open>null\<close> in any case, anything without a scheme, and anything whose scheme does not
  start with a letter.
\<close>

theorem opaque_origin_refused:
  assumes "policy \<noteq> Any"
    and "to_ascii_lowercase (trim o') = ''null'' \<or> split_once ''://'' (trim o') = None \<or>
      (\<exists>s r. split_once ''://'' (trim o') = Some (s, r) \<and> (s = [] \<or> \<not> is_ascii_alphabetic (hd s)))"
  shows "\<not> is_allowed policy o'"
proof -
  have "normalize_origin o' = None"
    using assms(2)
  proof (elim disjE)
    assume "to_ascii_lowercase (trim o') = ''null''"
    then show ?thesis by (rule normalize_null)
  qed (auto simp: normalize_origin_def Let_def)
  with assms(1) show ?thesis by (simp add: is_allowed_def)
qed

theorem opaque_origin_refused_witness: "\<not> is_allowed Loopback ''NULL''"
proof -
  have "trim ''NULL'' = ''NULL''" by (rule trim_graphic) (simp_all add: is_graphic_def)
  then have "to_ascii_lowercase (trim ''NULL'') = ''null''"
    by (simp only:) code_simp
  then show ?thesis using opaque_origin_refused [of Loopback "''NULL''"] by simp
qed

text \<open>
  The host is cut at the last closing bracket when an origin is normalized and at the first when
  the host is read back, so a text no browser produces passes for a loopback address.
\<close>

lemma bracket_mismatch:
  "is_allowed Loopback ''http://[::1].evil.example]''"
proof -
  let ?o = "''http://[::1].evil.example]''"
  have "trim ?o = ?o" by (rule trim_graphic) (simp_all add: is_graphic_def)
  moreover have "split_once ''://'' ?o = Some (''http'', ''[::1].evil.example]'')"
    using split_once_append [of "''://''" "''http''" "''[::1].evil.example]''"] by simp
  moreover have "split_at_last (CHR '']'') ''[::1].evil.example]'' = Some (''[::1].evil.example]'', [])"
    using split_at_last_append [of "CHR '']''" "[]" "''[::1].evil.example''"] by simp
  ultimately have n: "normalize_origin ?o = Some ?o"
    by (simp add: normalize_origin_def Let_def eq_ignore_ascii_case_def to_ascii_lowercase_def ascii_lower_def
        ascii_classes is_scheme_char_def strip_suffix_def host_port_def starts_with_def port_part_def)
  have "split_once '']'' ''[::1].evil.example]'' = Some (''[::1'', ''.evil.example]'')"
    using split_once_append [of "'']''" "''[::1''" "''.evil.example]''"] by simp
  then have h: "host_of ?o = Some ''::1''"
    using \<open>split_once ''://'' ?o = Some (''http'', ''[::1].evil.example]'')\<close>
    by (simp add: host_of_def starts_with_def)
  have "read_groups 8 0 ''::1'' = ([], False, ''::1'')"
    by (simp add: read_groups.simps [of 8 0] read_ipv4_def read_octet_def read_separator_def read_number_def
        radix_digit_def ascii_classes)
  moreover have "read_groups 7 0 ''1'' = ([1], False, [])"
    by (simp add: read_groups.simps [of 7 0] read_groups.simps [of 7 "Suc 0"] read_ipv4_def read_octet_def
        read_separator_def read_number_def radix_digit_def ascii_classes hex_val_def)
  moreover have "read_ipv4 ''::1'' = None"
    by (simp add: read_ipv4_def read_octet_def read_separator_def read_number_def radix_digit_def ascii_classes)
  moreover have "replicate 7 (0 :: nat) = [0, 0, 0, 0, 0, 0, 0]" by (simp add: numeral_eq_Suc)
  ultimately have "parse_ip ''::1'' = Some (V6 [0, 0, 0, 0, 0, 0, 0, 1])"
    by (simp add: parse_ip_def read_ipv6_def)
  with n h show ?thesis by (simp add: is_allowed_def is_loopback_host_def)
qed

end
