(* ===== verification/Http.thy ===== *)
theory Http
  imports Http_Sessions Http1_Requests Origin
begin

text \<open>
  The HTTP transport (\<open>transport/http.rs\<close>): one request, one answer. The checks every request passes,
  authentication, the session it runs in, a server built for it alone, and the answer made of what
  that server wrote. The handler of a request is given to the HTTP/1.1 layer as that layer takes
  it: an answer at once, or what to do with the body. The text of a message, of a JSON value and of
  the metadata document, the decoder of JSON and the validator of tokens are parameters; what is
  printed on stderr is left out. A panic in the application's code reaches the answer as an error.
\<close>

section \<open>Responses\<close>

record http_host = Server.host +
  hh_text :: "jsonrpc_message \<Rightarrow> string"
  hh_from_str :: "string \<Rightarrow> string + json"
  hh_metadata :: "protected_resource_metadata \<Rightarrow> string option"

abbreviation host_of_http :: "http_host \<Rightarrow> Server.host" where
  "host_of_http h \<equiv> Server.host.truncate h"

definition path_of :: "string \<Rightarrow> string" where
  "path_of target =
     (let path =
        (if starts_with ''/'' target then target
         else case split_once ''://'' target of
           Some (_, authority_and_path) \<Rightarrow>
             (case cut_at (CHR ''/'') authority_and_path of (_, p) \<Rightarrow> if p = [] then ''/'' else p)
         | None \<Rightarrow> target)
      in takeWhile (\<lambda>c. c \<noteq> CHR ''?'' \<and> c \<noteq> CHR ''#'') path)"

definition header_value :: "head \<Rightarrow> string \<Rightarrow> string option" where
  "header_value rq name = header_of (hd_headers rq) name"

definition body_response :: "string \<Rightarrow> string \<Rightarrow> http_response" where
  "body_response content_type b = with_body (new_response 200) content_type b"

definition empty_response :: "nat \<Rightarrow> http_response" where
  "empty_response st = new_response st"

definition error_response :: "http_host \<Rightarrow> nat \<Rightarrow> int \<Rightarrow> string \<Rightarrow> http_response" where
  "error_response h st c m =
     with_body (new_response st) ''application/json''
       (amb_json h (jobject [(''jsonrpc'', JString ''2.0''),
          (''error'', jobject [(''code'', JNumber (JInt c)), (''message'', JString m)])]))"

definition method_not_allowed :: "http_host \<Rightarrow> string \<Rightarrow> http_response" where
  "method_not_allowed h allow = with_header (error_response h 405 (-32600) ''Method Not Allowed'') ''Allow'' allow"

definition overloaded_answer :: "http_host \<Rightarrow> http_response" where
  "overloaded_answer h = error_response h 503 (-32603) ''Service Unavailable: too many connections; retry shortly''"

section \<open>What a request produced\<close>

text \<open>
  \<open>HttpTransport\<close>: one read gives the message in the body, the next that there is no more; what is
  written before the response goes with it, and the response seals the buffer.
\<close>

definition http_link :: "http_host \<Rightarrow> string \<Rightarrow> nat \<Rightarrow> link" where
  "http_link h body t0 =
     \<lparr>inbox = [(0, parse (hh_from_str h) (h_render h) body)], sent = [], send_errors = [], write_times = [], clock = t0,
      read_timeout_armed = None, honors_deadlines = False, arm_errors = [], expiry_text = [], one_answer = True,
      lock_poisoned_r = False, lock_poisoned_w = False\<rparr>"

definition take_response :: "link \<Rightarrow> jsonrpc_message option" where
  "take_response l = find is_response (sent l)"

definition has_notifications :: "link \<Rightarrow> bool" where
  "has_notifications l = list_ex (\<lambda>m. \<not> is_response m) (sent l)"

definition take_sse_response :: "http_host \<Rightarrow> link \<Rightarrow> string" where
  "take_sse_response h l =
     concat (map (\<lambda>m. ''data: '' @ hh_text h m @ [CHR 0x0A, CHR 0x0A])
       (filter (\<lambda>m. \<not> is_response m) (sent l) @ (case take_response l of None \<Rightarrow> [] | Some m \<Rightarrow> [m])))"

datatype processed = Body string string | Accepted

definition answer_from :: "http_host \<Rightarrow> link \<Rightarrow> processed" where
  "answer_from h l =
     (case take_response l of
        None \<Rightarrow> Accepted
      | Some r \<Rightarrow>
          if has_notifications l then Body (take_sse_response h l) ''text/event-stream''
          else Body (hh_text h r) ''application/json'')"

section \<open>The server of a listener\<close>

record 'c http_server =
  hs_config :: server_config
  hs_endpoint :: string
  hs_setup :: "('c server \<Rightarrow> (unit result \<times> 'c server \<times> task_store) run) option"
  hs_origin_policy :: origin_policy
  hs_protected_resource :: "protected_resource_metadata option"
  hs_required_scopes :: "string list"
  hs_limits :: limits

definition new_http_server :: "server_config \<Rightarrow> 'c http_server" where
  "new_http_server cfg = \<lparr>hs_config = cfg, hs_endpoint = ''/mcp'', hs_setup = None, hs_origin_policy = Loopback,
     hs_protected_resource = None, hs_required_scopes = [],
     hs_limits = default_limits\<lparr>max_body_bytes := cfg_max_message_bytes cfg\<rparr>\<rparr>"

definition set_endpoint :: "string \<Rightarrow> 'c http_server \<Rightarrow> 'c http_server" where
  "set_endpoint path hs = hs\<lparr>hs_endpoint := path\<rparr>"

definition max_connections :: "nat \<Rightarrow> 'c http_server \<Rightarrow> 'c http_server" where
  "max_connections n hs = hs\<lparr>hs_limits := (hs_limits hs)\<lparr>lim_connections := max n 1\<rparr>\<rparr>"

definition set_read_budget :: "nat \<Rightarrow> 'c http_server \<Rightarrow> 'c http_server" where
  "set_read_budget t hs = hs\<lparr>hs_limits := (hs_limits hs)\<lparr>read_timeout := max t MIN_TIMEOUT\<rparr>\<rparr>"

definition set_idle_timeout :: "nat \<Rightarrow> 'c http_server \<Rightarrow> 'c http_server" where
  "set_idle_timeout t hs = hs\<lparr>hs_limits := (hs_limits hs)\<lparr>lim_idle_timeout := max t MIN_TIMEOUT\<rparr>\<rparr>"

definition set_origin_policy :: "origin_policy \<Rightarrow> 'c http_server \<Rightarrow> 'c http_server" where
  "set_origin_policy p hs = hs\<lparr>hs_origin_policy := p\<rparr>"

definition set_protected_resource :: "protected_resource_metadata \<Rightarrow> 'c http_server \<Rightarrow> 'c http_server" where
  "set_protected_resource m hs = hs\<lparr>hs_protected_resource := Some m\<rparr>"

definition require_scopes :: "string list \<Rightarrow> 'c http_server \<Rightarrow> 'c http_server" where
  "require_scopes ss hs = hs\<lparr>hs_required_scopes := ss\<rparr>"

definition with_tools :: "('c server \<Rightarrow> (unit result \<times> 'c server \<times> task_store) run) \<Rightarrow> 'c http_server \<Rightarrow> 'c http_server" where
  "with_tools f hs = hs\<lparr>hs_setup := Some f\<rparr>"

text \<open>The URI of the published metadata, when it can be read back.\<close>

definition published_uri :: "'c http_server \<Rightarrow> (protected_resource_metadata \<times> resource_uri) option" where
  "published_uri hs =
     (case hs_protected_resource hs of
        None \<Rightarrow> None
      | Some m \<Rightarrow> (case metadata_resource_uri m of Inl _ \<Rightarrow> None | Inr u \<Rightarrow> Some (m, u)))"

definition forbidden :: "http_host \<Rightarrow> 'c http_server \<Rightarrow> string list \<Rightarrow> http_response" where
  "forbidden h hs missing =
     (let r = error_response h 403 (-32600) (''Forbidden: missing scope(s): '' @ join '' '' missing) in
      case published_uri hs of
        None \<Rightarrow> r
      | Some (_, u) \<Rightarrow>
          with_header r ''WWW-Authenticate''
            (insufficient_scope_challenge (metadata_url u) (hs_required_scopes hs)
               (Some ''the token does not carry the scopes this request needs'')))"

definition unauthorized :: "http_host \<Rightarrow> 'c http_server \<Rightarrow> string \<Rightarrow> http_response" where
  "unauthorized h hs m =
     (let r = error_response h 401 (-32600) m in
      case published_uri hs of
        None \<Rightarrow> r
      | Some (md, u) \<Rightarrow> with_header r ''WWW-Authenticate'' (unauthorized_challenge (metadata_url u) (pr_scopes_supported md)))"

section \<open>Checks\<close>

definition protected_resource_response :: "http_host \<Rightarrow> 'c http_server \<Rightarrow> head \<Rightarrow> http_response option" where
  "protected_resource_response h hs rq =
     (case published_uri hs of
        None \<Rightarrow> None
      | Some (md, u) \<Rightarrow>
          if path_of (hd_target rq) \<noteq> metadata_path u then None
          else if hd_method rq \<noteq> Get \<and> hd_method rq \<noteq> Head then Some (method_not_allowed h ''GET, HEAD'')
          else map_option (body_response ''application/json'') (hh_metadata h md))"

definition precheck :: "http_host \<Rightarrow> 'c http_server \<Rightarrow> head \<Rightarrow> http_response option" where
  "precheck h hs rq =
     (case protected_resource_response h hs rq of
        Some r \<Rightarrow> Some r
      | None \<Rightarrow>
          if path_of (hd_target rq) \<noteq> hs_endpoint hs then Some (error_response h 404 (-32600) ''Not Found'')
          else if hd_method rq \<noteq> Post \<and> hd_method rq \<noteq> Delete then Some (method_not_allowed h ''POST, DELETE'')
          else
            let version = (case header_value rq ''MCP-Protocol-Version'' of None \<Rightarrow> ASSUMED_PROTOCOL_VERSION | Some v \<Rightarrow> v) in
            if version \<notin> set (cfg_supported_versions (hs_config hs))
            then Some (error_response h 400 (-32600) (''Unsupported MCP-Protocol-Version `'' @ version @
                   ''`; this server supports: '' @ join '', '' (cfg_supported_versions (hs_config hs))))
            else
              (case header_value rq ''Origin'' of
                 None \<Rightarrow> None
               | Some v \<Rightarrow>
                   if is_allowed (hs_origin_policy hs) v then None
                   else Some (error_response h 403 (-32600) (''Forbidden: disallowed Origin `'' @ v @ ''`''))))"

definition too_large :: "http_host \<Rightarrow> nat \<Rightarrow> http_response" where
  "too_large h lim =
     closing (error_response h 413 (-32600) (''Payload Too Large: the body exceeds the '' @ show_nat lim @ '' byte limit''))"

text \<open>The rejection of a body that could not be read (\<open>read_body\<close>).\<close>

fun body_rejection :: "http_host \<Rightarrow> nat \<Rightarrow> body_error \<Rightarrow> http_response" where
  "body_rejection h lim TooLarge = too_large h lim"
| "body_rejection h lim Malformed = closing (error_response h 400 (-32700) ''Bad Request: unreadable body'')"
| "body_rejection h lim Incomplete = closing (error_response h 400 (-32700) ''Bad Request: the body ended early'')"
| "body_rejection h lim BodyTimedOut =
     closing (error_response h 408 (-32600) ''Request Timeout: the body did not arrive in time'')"

section \<open>One message\<close>

definition process_request :: "http_host \<Rightarrow> 'c http_server \<Rightarrow> nat \<Rightarrow> int \<Rightarrow> string \<Rightarrow> 'c \<Rightarrow> task_context \<Rightarrow> nat \<Rightarrow> sessions \<Rightarrow>
    (processed result run \<times> sessions) option" where
  "process_request h hs t0 at_epoch body ctx tc c ss =
     (case (case hs_setup hs of
              None \<Rightarrow> Finished (Inr (), new_server (hs_config hs), new_store default_task_config)
            | Some f \<Rightarrow> f (new_server (hs_config hs))) of
        Unwound p \<Rightarrow> Some (Unwound p, ss)
      | Finished (Inl e, _, _) \<Rightarrow> Some (Finished (Inl e), ss)
      | Finished (Inr _, sv, own) \<Rightarrow>
          let sv = restore (cells ss ! c) (sv\<lparr>sv_task_context := tc\<rparr>);
              (a, ss) = restore_store c sv own ss;
              w = \<lparr>wire_link = http_link h body t0, broker_of = new_broker,
                   store_of = (case a of Some a \<Rightarrow> stores ss ! a | None \<Rightarrow> own), stderr_of = [], epoch = at_epoch,
                   turn_of = 0\<rparr>;
              keep = (\<lambda>w ss. case a of Some a \<Rightarrow> ss\<lparr>stores := (stores ss)[a := store_of w]\<rparr> | None \<Rightarrow> ss)
          in (case process_one (host_of_http h) sv ctx w of
                None \<Rightarrow> None
              | Some (Unwound p, _, _, w) \<Rightarrow> Some (Unwound p, keep w ss)
              | Some (Finished r, sv, _, w) \<Rightarrow>
                  let ss = (keep w ss)\<lparr>cells := (cells ss)
                        [c := absorb sv (cfg_default_log_level (hs_config hs)) (cells ss ! c)]\<rparr>
                  in Some (Finished (map_ok (\<lambda>_. answer_from h (wire_link w)) r), ss)))"

text \<open>\<open>guarded\<close>: the context factory and the dispatch, with panics turned into errors.\<close>

definition guarded :: "http_host \<Rightarrow> 'c http_server \<Rightarrow> nat \<Rightarrow> int \<Rightarrow> string \<Rightarrow> 'c run \<Rightarrow> task_context \<Rightarrow> nat \<Rightarrow> sessions \<Rightarrow>
    (processed result \<times> sessions) option" where
  "guarded h hs t0 at_epoch body ctx tc c ss =
     (let panicked = (\<lambda>p. Inl (Internal (''request handler panicked: '' @ p))) in
      case ctx of
        Unwound p \<Rightarrow> Some (panicked p, ss)
      | Finished ctx \<Rightarrow>
          map_option (\<lambda>(r, ss). (case r of Unwound p \<Rightarrow> panicked p | Finished r \<Rightarrow> r, ss))
            (process_request h hs t0 at_epoch body ctx tc c ss))"

definition finish_response :: "http_host \<Rightarrow> processed result \<Rightarrow> http_response" where
  "finish_response h out =
     (case out of
        Inr (Body b content_type) \<Rightarrow> body_response content_type b
      | Inr Accepted \<Rightarrow> empty_response 202
      | Inl e \<Rightarrow>
          (case (case e of
                   Json _ \<Rightarrow> (400, -32700)
                 | InvalidMessage _ \<Rightarrow> (400, -32600)
                 | InvalidRequest _ _ \<Rightarrow> (400, -32600)
                 | _ \<Rightarrow> (500, -32603)) of
             (st, c) \<Rightarrow> error_response h st c (show_error e)))"

section \<open>One request\<close>

definition end_session_for :: "http_host \<Rightarrow> head \<Rightarrow> string option \<Rightarrow> sessions \<Rightarrow> http_response \<times> sessions" where
  "end_session_for h rq who ss =
     (case header_value rq SESSION_HEADER of
        None \<Rightarrow> (error_response h 400 (-32600) (''Bad Request: DELETE needs an `'' @ SESSION_HEADER @ ''` header''), ss)
      | Some i \<Rightarrow>
          (case terminate who i ss of
             (True, ss) \<Rightarrow> (empty_response 204, ss)
           | (False, ss) \<Rightarrow> (error_response h 404 (-32600) ''Not Found: no such session'', ss)))"

text \<open>
  What serving a request comes to before its body is read: an answer, or a session and what to do
  with the body. \<open>t0\<close> and \<open>t1\<close> are the moments its handling begins and ends, and \<open>meanwhile\<close> is what
  other requests do to the sessions in between.
\<close>

datatype 'c intake = Reply http_response | Session "string option" string nat task_context "'c run"

definition begin_respond :: "http_host \<Rightarrow> nat \<Rightarrow> 8 word list \<Rightarrow> head \<Rightarrow> task_context \<Rightarrow> string option \<Rightarrow> 'c run \<Rightarrow> sessions \<Rightarrow>
    'c intake \<times> sessions" where
  "begin_respond h t0 entropy rq tc who ctx ss =
     (case checkout t0 entropy who (header_value rq SESSION_HEADER) ss of
        (Inl _, ss) \<Rightarrow> (Reply (error_response h 404 (-32600) ''Not Found: unknown or terminated session''), ss)
      | (Inr (i, c), ss) \<Rightarrow> (Session who i c tc ctx, ss))"

definition end_respond :: "http_host \<Rightarrow> 'c http_server \<Rightarrow> nat \<Rightarrow> nat \<Rightarrow> int \<Rightarrow> string option \<Rightarrow> string \<Rightarrow> nat \<Rightarrow> task_context \<Rightarrow> 'c run \<Rightarrow>
    (sessions \<Rightarrow> sessions) \<Rightarrow> body_error + string \<Rightarrow> sessions \<Rightarrow> (http_response \<times> sessions) option" where
  "end_respond h hs t0 t1 at_epoch who i c tc ctx meanwhile b ss =
     (case b of
        Inl e \<Rightarrow> Some (body_rejection h (cfg_max_message_bytes (hs_config hs)) e, ss)
      | Inr body \<Rightarrow>
          (case guarded h hs t0 at_epoch body ctx tc c ss of
             None \<Rightarrow> None
           | Some (out, ss) \<Rightarrow>
               (case check_in t1 (at_epoch + int t1 * 1000000) who i c (meanwhile ss) of
                  (None, ss) \<Rightarrow> Some (finish_response h out, ss)
                | (Some i, ss) \<Rightarrow> Some (with_header (finish_response h out) SESSION_HEADER i, ss))))"

text \<open>The handler of \<open>serve\<close>, and of \<open>serve_with_auth\<close> (\<open>authenticated_response\<close>).\<close>

definition anonymous_intake :: "http_host \<Rightarrow> 'c http_server \<Rightarrow> nat \<Rightarrow> 8 word list \<Rightarrow> 'c run \<Rightarrow> head \<Rightarrow> sessions \<Rightarrow>
    'c intake \<times> sessions" where
  "anonymous_intake h hs t0 entropy ctx rq ss =
     (case precheck h hs rq of
        Some r \<Rightarrow> (Reply r, ss)
      | None \<Rightarrow>
          if hd_method rq = Delete then (case end_session_for h rq None ss of (r, ss) \<Rightarrow> (Reply r, ss))
          else begin_respond h t0 entropy rq Anonymous None ctx ss)"

definition authenticated_intake :: "http_host \<Rightarrow> 'c http_server \<Rightarrow> nat \<Rightarrow> 8 word list \<Rightarrow> jwt_validator \<Rightarrow> (claims \<Rightarrow> 'c run) \<Rightarrow>
    head \<Rightarrow> sessions \<Rightarrow> 'c intake \<times> sessions" where
  "authenticated_intake h hs t0 entropy v mk rq ss =
     (case precheck h hs rq of
        Some r \<Rightarrow> (Reply r, ss)
      | None \<Rightarrow>
          (case header_value rq ''Authorization'' of
             None \<Rightarrow> (Reply (unauthorized h hs ''Unauthorized: Missing Authorization header''), ss)
           | Some header \<Rightarrow>
               (case validate_header v header of
                  Inl e \<Rightarrow> (Reply (unauthorized h hs (''Unauthorized: '' @ show_jwt_error e)), ss)
                | Inr c \<Rightarrow>
                    let missing = missing_scopes c (hs_required_scopes hs) in
                    if missing \<noteq> [] then (Reply (forbidden h hs missing), ss)
                    else if hd_method rq = Delete
                    then (case end_session_for h rq (Some (owner_of c)) ss of (r, ss) \<Rightarrow> (Reply r, ss))
                    else begin_respond h t0 entropy rq (OwnedBy (owner_of c)) (Some (owner_of c)) (mk c) ss)))"

text \<open>\<open>serve_with_auth\<close> refuses a validator that checks no audience.\<close>

definition serve_with_auth_check :: "jwt_validator \<Rightarrow> unit result" where
  "serve_with_auth_check v =
     (if binds_audience v then Inr ()
      else Inl (Internal (''serve_with_auth needs a validator bound to an audience: MCP servers MUST '' @
        ''reject tokens that do not name them in the `aud` claim. Use '' @
        ''`.for_resource(&resource)` (preferred) or `.with_audience(..)`.'')))"

text \<open>The handler as the HTTP/1.1 layer takes it; a wait that never ends gives no answer.\<close>

definition http_handler :: "http_host \<Rightarrow> 'c http_server \<Rightarrow> nat \<Rightarrow> nat \<Rightarrow> int \<Rightarrow> (sessions \<Rightarrow> sessions) \<Rightarrow> 'c intake \<times> sessions \<Rightarrow> handled" where
  "http_handler h hs t0 t1 at_epoch meanwhile taken =
     (case taken of
        (Reply r, _) \<Rightarrow> Answer (Some r)
      | (Session who i c tc ctx, ss) \<Rightarrow>
          WantBody (cfg_max_message_bytes (hs_config hs))
            (\<lambda>b. map_option fst (end_respond h hs t0 t1 at_epoch who i c tc ctx meanwhile b ss)))"

end
