(* ===== verification/Http_Answers.thy ===== *)
theory Http_Answers
  imports Http
begin

text \<open>
  What a client of the HTTP transport gets: one answer per request, of the form the protocol asks
  for; only after every check has passed; with the connection closed when the body could not be
  read; and the way to the metadata document.
\<close>

section \<open>One answer\<close>

text \<open>While a request is handled nothing more can be read and no response has been written.\<close>

definition unanswered :: "world \<Rightarrow> bool" where
  "unanswered w \<longleftrightarrow> inbox (wire_link w) = [] \<and> list_all (\<lambda>m. \<not> is_response m) (sent (wire_link w)) \<and>
     send_errors (wire_link w) = [] \<and> \<not> lock_poisoned_w (wire_link w)"

definition stays_unanswered :: "world \<Rightarrow> world \<Rightarrow> bool" where
  "stays_unanswered w w' \<longleftrightarrow> (unanswered w \<longrightarrow> unanswered w')"

definition reads_nothing :: "world \<Rightarrow> jsonrpc_message result \<Rightarrow> world \<Rightarrow> bool" where
  "reads_nothing w r w' \<longleftrightarrow> (unanswered w \<longrightarrow> unanswered w' \<and> (\<exists>e. r = Inl e))"

lemma list_all_list_ex: "list_all (\<lambda>m. \<not> P m) xs \<Longrightarrow> \<not> list_ex P xs"
  by (simp add: list_all_iff list_ex_iff)

lemma unanswered_link:
  "unanswered w \<Longrightarrow> link_write m (wire_link w) = (Inr (), (blocked (wire_link w))\<lparr>sent := sent (wire_link w) @ [m]\<rparr>)"
  using list_all_list_ex [of is_response "sent (wire_link w)"] by (simp add: unanswered_def link_write_def)

lemma unanswered_write:
  "unanswered w \<Longrightarrow> world_write m w = (Inr (), w\<lparr>wire_link := (blocked (wire_link w))\<lparr>sent := sent (wire_link w) @ [m]\<rparr>\<rparr>)"
  using unanswered_link [of w m] by (simp add: world_write_def unanswered_def)

interpretation hushed: steady stays_unanswered reads_nothing
proof
  fix w w' :: world
  show "surface w' = surface w \<Longrightarrow> stays_unanswered w w'"
    by (simp add: surface_def stays_unanswered_def unanswered_def)
next
  fix x w
  show "modest_step x \<Longrightarrow> stays_unanswered w (other_step w x)"
    by (cases x) (auto simp: stays_unanswered_def unanswered_def)
next
  fix m w
  show "\<not> is_response m \<Longrightarrow> stays_unanswered w (snd (world_write m w))"
    using unanswered_write [of w m] by (auto simp: stays_unanswered_def unanswered_def)
next
  fix t w a l
  show "set_read_timeout t (wire_link w) = (a, l) \<Longrightarrow> stays_unanswered w (w\<lparr>wire_link := l\<rparr>)"
    by (auto simp: set_read_timeout_def stays_unanswered_def unanswered_def split: if_splits list.splits option.splits)
next
  fix w r l
  show "link_read (wire_link w) = (r, l) \<Longrightarrow> reads_nothing w r (w\<lparr>wire_link := l\<rparr>)"
    by (auto simp: link_read_def reads_nothing_def unanswered_def)
qed (auto simp: stays_unanswered_def reads_nothing_def)

lemma handle_task_result_hushed:
  assumes "handle_task_result h sv rq w = Some (r, sv', w')" and "modest (amb_sched h)" and "\<not> sv_can_pump sv"
  shows "stays_unanswered w w'"
  using assms hushed.keeps_await_store [OF assms(2)]
  by (auto simp: handle_task_result_def await_task_def split: sum.splits)

lemma dispatch_hushed:
  assumes "dispatch_request h sv rq ctx w = Some (r, sv', ctx', w')" and "modest (amb_sched h)" and "\<not> sv_can_pump sv"
  shows "stays_unanswered w w'"
  using assms(1)
proof (cases rule: hushed.dispatch_cases)
  case (called q)
  show ?thesis using hushed.keeps_handle_call_tool [OF called(3) assms(2)] by simp
next
  case awaited
  show ?thesis using handle_task_result_hushed [OF awaited(3) assms(2,3)] .
qed simp_all

lemma handle_message_hushed:
  assumes "handle_message h sv m ctx w = Some (a, sv', ctx', w')" and "modest (amb_sched h)" and "\<not> sv_can_pump sv"
  shows "stays_unanswered w w'"
proof (cases m)
  case (Request rq)
  with assms dispatch_hushed [OF _ assms(2,3)] show ?thesis by (auto simp: handle_message_def Server.handle_request_def)
next
  case (Notification n)
  have "stays_unanswered w (handle_notification n w)"
    by (auto simp: handle_notification_def broker_cancel_def intro: hushed.keeps_broker split: option.splits)
  with Notification assms(1) show ?thesis by (auto simp: handle_message_def)
next
  case (Response r)
  with assms(1) show ?thesis by (auto simp: handle_message_def intro: hushed.keeps_broker)
qed


text \<open>What one call of \<open>process_one\<close> leaves in the buffer.\<close>

lemma map_run_Finished: "Server.map_run f r = Finished x \<Longrightarrow> \<exists>y. r = Finished y \<and> x = f y"
  by (cases r) auto

lemma process_one_answers:
  assumes run: "process_one h sv ctx w = Some (Finished (Inr u), sv', ctx', w')"
    and inbox: "inbox (wire_link w) = [(d, Inr m)]" and fresh: "sent (wire_link w) = []" "send_errors (wire_link w) = []"
      "read_timeout_armed (wire_link w) = None" "\<not> lock_poisoned_w (wire_link w)"
    and sched: "modest (amb_sched h)"
  shows "case m of
      Request rq \<Rightarrow> (\<exists>ns r. sent (wire_link w') = ns @ [Response r] \<and> rs_id r = rq_id rq \<and> list_all (\<lambda>m. \<not> is_response m) ns)
    | _ \<Rightarrow> list_all (\<lambda>m. \<not> is_response m) (sent (wire_link w'))"
proof -
  let ?sv = "sv\<lparr>sv_transport := True, sv_can_pump := False\<rparr>"
  obtain q w1 where rd: "loop_read w = (q, w1)" by fastforce
  have "q = Inr m" and w1: "unanswered w1"
    using rd run inbox fresh
    by (auto simp: process_one_def loop_read_def link_read_def unanswered_def Let_def split: if_splits)
  then obtain a sv1 ctx1 w2 where a: "handle_message h ?sv m ctx w1 = Some (Finished a, sv1, ctx1, w2)"
    using run rd by (auto simp: process_one_def Let_def split: option.splits run.splits)
  have w2: "unanswered w2"
    using handle_message_hushed [OF a sched] w1 by (simp add: stays_unanswered_def)
  have tr: "sv_transport sv1"
    using follows_handle_message [OF a] static_fields(6) [of sv1 ?sv] by (simp add: follows_def)
  show ?thesis
  proof (cases a)
    case None
    with run rd \<open>q = Inr m\<close> a have "w' = w2" by (simp add: process_one_def Let_def)
    moreover have "\<forall>rq. m \<noteq> Request rq" using a None
      by (auto simp: handle_message_def Server.handle_request_def dest!: map_run_Finished)
    ultimately show ?thesis using w2 by (auto simp: unanswered_def split: jsonrpc_message.splits)
  next
    case (Some x)
    obtain rq d where rq: "m = Request rq" "x = answer_to (rq_id rq) d"
      using a Some by (auto simp: handle_message_def Server.handle_request_def split: jsonrpc_message.splits dest!: map_run_Finished)
    have "wire_link w' = (blocked (wire_link w2))\<lparr>sent := sent (wire_link w2) @ [x]\<rparr>"
      using run rd \<open>q = Inr m\<close> a Some tr unanswered_link [OF w2, of x] w2
      by (auto simp: process_one_def write_message_def unanswered_def Let_def)
    then show ?thesis
      using rq w2 by (auto simp: answer_to_def response_def error_def unanswered_def split: sum.splits)
  qed
qed

lemma process_request_runs:
  assumes "process_request h hs t0 at_epoch body ctx tc c ss = Some (Finished (Inr p), ss')"
  shows "\<exists>sv w u sv' ctx' w'. process_one (host_of_http h) sv ctx w = Some (Finished (Inr u), sv', ctx', w') \<and>
    wire_link w = http_link h body t0 \<and> p = answer_from h (wire_link w')"
proof -
  obtain u sv own where made: "(case hs_setup hs of
              None \<Rightarrow> Finished (Inr (), new_server (hs_config hs), new_store default_task_config)
            | Some f \<Rightarrow> f (new_server (hs_config hs))) = Finished (Inr u, sv, own)"
    using assms unfolding process_request_def by (auto split: run.splits sum.splits)
  let ?sv = "restore (cells ss ! c) (sv\<lparr>sv_task_context := tc\<rparr>)"
  obtain a ss1 where a: "restore_store c ?sv own ss = (a, ss1)" by fastforce
  let ?w = "\<lparr>wire_link = http_link h body t0, broker_of = new_broker,
      store_of = (case a of Some a \<Rightarrow> stores ss1 ! a | None \<Rightarrow> own), stderr_of = [], epoch = at_epoch, turn_of = 0\<rparr>"
  note run = assms [unfolded process_request_def made Let_def run.case prod.case sum.case a]
  then obtain r sv' ctx' w' where r: "process_one (host_of_http h) ?sv ctx ?w = Some (r, sv', ctx', w')"
    by (auto split: option.splits)
  with run obtain u where "r = Finished (Inr u)" "p = answer_from h (wire_link w')"
    by (cases r) (auto elim!: map_ok.elims)
  with r show ?thesis by force
qed

text \<open>
  C18: One HTTP request gets one answer of the right form. When a message in a body was handled, a
  request is answered with its own response: as JSON when nothing else was written, and otherwise as
  an event stream of everything written before it, in order, with the response last; a
  notification or a response is accepted without a body, whatever was written while handling it.
\<close>

theorem http_answer_form:
  assumes "process_request h hs t0 at_epoch body ctx tc c ss = Some (Finished (Inr p), ss')"
    and "parse (hh_from_str h) (h_render h) body = Inr m" and "modest (amb_sched h)"
  shows "case m of
      Request rq \<Rightarrow> (\<exists>ns r. rs_id r = rq_id rq \<and> list_all (\<lambda>m. \<not> is_response m) ns \<and>
        p = (if ns = [] then Body (hh_text h (Response r)) ''application/json''
             else Body (concat (map (\<lambda>m. ''data: '' @ hh_text h m @ [CHR 0x0A, CHR 0x0A]) (ns @ [Response r])))
               ''text/event-stream''))
    | _ \<Rightarrow> p = Accepted"
proof -
  have sched: "modest (amb_sched (host_of_http h))" using assms(3) by (simp add: host.defs)
  obtain sv w u sv' ctx' w' where run: "process_one (host_of_http h) sv ctx w = Some (Finished (Inr u), sv', ctx', w')"
    and w: "wire_link w = http_link h body t0" and p: "p = answer_from h (wire_link w')"
    using process_request_runs [OF assms(1)] by blast
  have form: "case m of
      Request rq \<Rightarrow> (\<exists>ns r. sent (wire_link w') = ns @ [Response r] \<and> rs_id r = rq_id rq \<and> list_all (\<lambda>m. \<not> is_response m) ns)
    | _ \<Rightarrow> list_all (\<lambda>m. \<not> is_response m) (sent (wire_link w'))"
    by (rule process_one_answers [OF run]) (use w assms(2) sched in \<open>simp_all add: http_link_def\<close>)
  have split: "list_all (\<lambda>m. \<not> is_response m) ns \<Longrightarrow> find is_response (ns @ [Response r]) = Some (Response r)" for ns r
    by (induction ns) auto
  have none: "list_all (\<lambda>m. \<not> is_response m) ns \<Longrightarrow> find is_response ns = None" for ns
    by (induction ns) auto
  have all: "list_all (\<lambda>m. \<not> is_response m) ns \<Longrightarrow> filter (\<lambda>m. \<not> is_response m) ns = ns" for ns
    by (induction ns) auto
  show ?thesis
  proof (cases m)
    case (Request rq)
    with form obtain ns r where ns: "sent (wire_link w') = ns @ [Response r]" "rs_id r = rq_id rq"
      "list_all (\<lambda>m. \<not> is_response m) ns" by auto
    have "list_ex (\<lambda>m. \<not> is_response m) ns \<longleftrightarrow> ns \<noteq> []" using ns(3) by (cases ns) auto
    then have "p = (if ns = [] then Body (hh_text h (Response r)) ''application/json''
        else Body (concat (map (\<lambda>m. ''data: '' @ hh_text h m @ [CHR 0x0A, CHR 0x0A]) (ns @ [Response r]))) ''text/event-stream'')"
      using ns split [OF ns(3)] all [OF ns(3)]
      by (simp add: p answer_from_def take_response_def has_notifications_def take_sse_response_def)
    with ns Request show ?thesis by auto
  qed (use form none p in \<open>simp_all add: answer_from_def take_response_def\<close>)
qed

definition sample_http_host :: http_host where
  "sample_http_host = Server.host.extend sample_host
     \<lparr>hh_text = (\<lambda>_. ''text''), hh_from_str = (\<lambda>_. Inr (jobject [(''jsonrpc'', JString ''2.0''), (''id'', JNumber (JInt 1)),
        (''method'', JString ''ping'')])), hh_metadata = (\<lambda>_. None)\<rparr>"


definition sample_listener :: "unit http_server" where
  "sample_listener = new_http_server (default_server_config ''1'')"

lemma sample_http_simps:
  "amb_sched sample_http_host = (\<lambda>_. [])" "hh_text sample_http_host = (\<lambda>_. ''text'')"
  "parse (hh_from_str sample_http_host) (h_render sample_http_host) [] = Inr (request (IdNumber 1) ''ping'' None)"
  by (simp_all add: sample_http_host_def sample_host_def Server.host.defs) code_simp

lemma sample_process:
  "\<exists>p ss'. process_request sample_http_host sample_listener 0 0 [] () Anonymous 0 (no_sessions\<lparr>cells := [new_session]\<rparr>) =
     Some (Finished (Inr p), ss')"
  by (simp add: process_request_def sample_listener_def new_http_server_def restore_def restore_store_def new_server_def
      no_sessions_def new_session_def process_one_def loop_read_def link_read_def http_link_def sample_http_simps
      handle_message_def Server.handle_request_def dispatch_request_def check_initialized_def default_server_config_def
      handle_ping_def answer_to_def write_message_def link_write_def request_def Let_def)

theorem http_answer_form_witness:
  "\<exists>p ss'. process_request sample_http_host sample_listener 0 0 [] () Anonymous 0 (no_sessions\<lparr>cells := [new_session]\<rparr>) =
     Some (Finished (Inr p), ss') \<and> (\<exists>t ct. p = Body t ct)"
proof -
  obtain p ss' where run: "process_request sample_http_host sample_listener 0 0 [] () Anonymous 0
      (no_sessions\<lparr>cells := [new_session]\<rparr>) = Some (Finished (Inr p), ss')" using sample_process by blast
  have "modest (amb_sched sample_http_host)" by (simp add: modest_def sample_http_simps)
  from http_answer_form [OF run sample_http_simps(3) this]
  obtain ns and r :: jsonrpc_response where "p = (if ns = [] then Body (hh_text sample_http_host (Response r)) ''application/json''
      else Body (concat (map (\<lambda>m. ''data: '' @ hh_text sample_http_host m @ [CHR 0x0A, CHR 0x0A]) (ns @ [Response r])))
        ''text/event-stream'')"
    unfolding request_def jsonrpc_message.case by blast
  then have "\<exists>t ct. p = Body t ct" by (cases "ns = []") simp_all
  with run show ?thesis by blast
qed

section \<open>Checks first\<close>

lemma precheck_None:
  assumes "precheck h hs rq = None"
  shows "path_of (hd_target rq) = hs_endpoint hs" "hd_method rq = Post \<or> hd_method rq = Delete"
    "(case header_value rq ''MCP-Protocol-Version'' of None \<Rightarrow> ASSUMED_PROTOCOL_VERSION | Some v \<Rightarrow> v)
       \<in> set (cfg_supported_versions (hs_config hs))"
    "\<forall>v. header_value rq ''Origin'' = Some v \<longrightarrow> is_allowed (hs_origin_policy hs) v"
  using assms by (auto simp: precheck_def Let_def split: option.splits if_splits)

lemma begin_respond_session:
  "begin_respond h t0 entropy rq tc who ctx ss = (Session who' i c tc' ctx', ss') \<Longrightarrow> who' = who \<and> tc' = tc \<and> ctx' = ctx"
  by (auto simp: begin_respond_def split: prod.splits sum.splits)

text \<open>
  C19: Nothing reaches a session of an authenticated listener unless every check has passed: it is a
  POST to the endpoint in a protocol version the server supports, from an origin its policy allows if
  it names one, with a bearer token the validator accepts and that names this server's audience and
  carries every required scope; and the session and the tasks it may touch are those of the token's
  user and tenant.
\<close>

theorem admitted_request_checked:
  assumes "authenticated_intake h hs t0 entropy v mk rq ss = (Session who i c tc ctx, ss')" and "binds_audience v"
  shows "hd_method rq = Post \<and> path_of (hd_target rq) = hs_endpoint hs \<and>
    (case header_value rq ''MCP-Protocol-Version'' of None \<Rightarrow> ASSUMED_PROTOCOL_VERSION | Some v \<Rightarrow> v)
       \<in> set (cfg_supported_versions (hs_config hs)) \<and>
    (\<forall>v. header_value rq ''Origin'' = Some v \<longrightarrow> is_allowed (hs_origin_policy hs) v) \<and>
    (\<exists>header cl. header_value rq ''Authorization'' = Some header \<and> validate_header v header = Inr cl \<and>
       (\<exists>a \<in> set (audiences cl). a \<in> set (v_audiences v)) \<and> (\<forall>s \<in> set (hs_required_scopes hs). has_scope cl s) \<and>
       who = Some (owner_of cl) \<and> tc = OwnedBy (owner_of cl) \<and> identity True who)"
proof -
  have pre: "precheck h hs rq = None"
    using assms(1) by (auto simp: authenticated_intake_def split: option.splits)
  obtain header cl where cl: "header_value rq ''Authorization'' = Some header" "validate_header v header = Inr cl"
    "missing_scopes cl (hs_required_scopes hs) = []" "hd_method rq \<noteq> Delete"
    "begin_respond h t0 entropy rq (OwnedBy (owner_of cl)) (Some (owner_of cl)) (mk cl) ss = (Session who i c tc ctx, ss')"
    using assms(1) pre
    by (auto simp: authenticated_intake_def Let_def split: option.splits sum.splits if_splits prod.splits)
  obtain token where token: "validate_token v token = Inr cl"
    using cl(2) by (auto simp: validate_header_def and_then_Inr_iff)
  note valid = validate_token_Inr [OF token]
  have "identity True (Some (owner_of cl))" using valid(2,3) by (auto simp: identity_def owner_of_def)
  moreover have "\<forall>s \<in> set (hs_required_scopes hs). has_scope cl s"
    using cl(3) by (auto simp: missing_scopes_def filter_empty_conv)
  ultimately show ?thesis
    using precheck_None [OF pre] cl(1,2,4) begin_respond_session [OF cl(5)] valid(4) assms(2)
    by (auto simp: binds_audience_def)
qed

definition sample_post :: head where
  "sample_post = \<lparr>hd_method = Post, hd_target = ''/mcp?x'', hd_version = Http11,
     hd_headers = [(''authorization'', ''Bearer x'')], hd_framing = NoBody, expects_continue = False, wants_close = False\<rparr>"

theorem admitted_request_checked_witness:
  "\<exists>i c ctx ss'. authenticated_intake sample_http_host sample_listener 0 [] sample_validator (\<lambda>_. Finished ()) sample_post no_sessions =
     (Session (Some (owner_of sample_claims)) i c (OwnedBy (owner_of sample_claims)) ctx, ss') \<and>
     identity True (Some (owner_of sample_claims))"
proof -
  have "path_of (hd_target sample_post) = ''/mcp''" "header_value sample_post ''Origin'' = None"
    "header_value sample_post ''MCP-Protocol-Version'' = None" "hd_method sample_post = Post"
    "ASSUMED_PROTOCOL_VERSION \<in> set SUPPORTED_PROTOCOL_VERSIONS" by code_simp+
  then have pre: "precheck sample_http_host sample_listener sample_post = None"
    by (simp add: precheck_def protected_resource_response_def published_uri_def sample_listener_def new_http_server_def
        default_server_config_def Let_def)
  have auth: "header_value sample_post ''Authorization'' = Some ''Bearer x''" by code_simp
  have ok: "validate_header sample_validator ''Bearer x'' = Inr sample_claims" by code_simp
  have none: "header_value sample_post SESSION_HEADER = None" by code_simp
  have bound: "binds_audience sample_validator" by code_simp
  have "hd_method sample_post = Post" "hs_required_scopes sample_listener = []"
    by (simp_all add: sample_post_def sample_listener_def new_http_server_def)
  then obtain i c ctx ss' where run: "authenticated_intake sample_http_host sample_listener 0 [] sample_validator
      (\<lambda>_. Finished ()) sample_post no_sessions =
      (Session (Some (owner_of sample_claims)) i c (OwnedBy (owner_of sample_claims)) ctx, ss')"
    using pre auth ok none
    by (simp add: authenticated_intake_def missing_scopes_def begin_respond_def checkout_def Let_def)
  from admitted_request_checked [OF run bound] run show ?thesis by blast
qed

section \<open>Discovery\<close>

lemma cut_at_split: "cut_at d s = (l, r) \<Longrightarrow> s = l @ r \<and> d \<notin> set l \<and> (r = [] \<or> hd r = d)"
  by (induction s arbitrary: l) (auto split: if_splits prod.splits)

lemma cut_at_append: "d \<notin> set l \<Longrightarrow> cut_at d (l @ d # r) = (l, d # r)"
  by (induction l) auto

lemma strip_prefix_take: "strip_prefix p s = None \<longleftrightarrow> take (length p) s \<noteq> p"
proof -
  have "strip_prefix p s \<noteq> None \<longleftrightarrow> take (length p) s = p"
    by (metis append_eq_conv_conj append_take_drop_id not_None_eq strip_prefix_iff)
  then show ?thesis by blast
qed

text \<open>The first occurrence of a separator stays the first when what is before it is rewritten without
  touching the separator's characters, and whatever follows it.\<close>

lemma split_once_rewritten:
  assumes "\<forall>x \<in> set p. \<forall>c. f c = x \<longleftrightarrow> c = x"
  shows "split_once p (l @ p @ r) = Some (l, r) \<Longrightarrow> split_once p (map f l @ p @ X) = Some (map f l, X)"
proof (induction l)
  case Nil
  show ?case by (simp add: split_once.simps [of p "p @ X"])
next
  case (Cons c l)
  have no: "strip_prefix p (c # l @ p @ r) = None" and rest: "split_once p (l @ p @ r) = Some (l, r)"
    using Cons.prems by (auto simp: split_once.simps [of p "c # l @ p @ r"] split: option.splits)
  have "map f p = p" using assms by (induction p) auto
  have same: "map f xs = p \<longleftrightarrow> xs = p" for xs
  proof
    assume eq: "map f xs = p"
    then have "xs = map f xs" using assms by (intro map_idI [symmetric]) (metis in_set_conv_nth length_map nth_map nth_mem)
    with eq show "xs = p" by simp
  qed (use \<open>map f p = p\<close> in simp)
  have cut: "take (length p) (d # xs @ p @ Y) = take (length p) (d # xs @ p)" for d xs Y
    using take_append [of "length p" "(d # xs) @ p" Y] by simp
  have "take (length p) (c # l @ p) \<noteq> p" using no by (simp add: strip_prefix_take cut)
  then have "map f (take (length p) (c # l @ p)) \<noteq> p" using same by blast
  then have "take (length p) (f c # map f l @ p) \<noteq> p"
    using \<open>map f p = p\<close> take_map [of "length p" f "c # l @ p"] by simp
  then have "strip_prefix p (f c # map f l @ p @ X) = None" by (simp add: strip_prefix_take cut)
  with Cons.IH [OF rest] show ?case by (simp add: split_once.simps [of p "f c # map f l @ p @ X"])
qed

lemma ascii_lower_eq:
  assumes "(of_char d :: nat) < 65"
  shows "ascii_lower c = d \<longleftrightarrow> c = d"
proof (cases "is_ascii_upper c")
  case True
  then have "(of_char (ascii_lower c) :: nat) \<noteq> of_char d" "(of_char c :: nat) \<noteq> of_char d"
    using assms of_char_ascii_lower [of c] by (auto simp: is_ascii_upper_def)
  then show ?thesis by auto
qed (simp add: ascii_lower_def)

lemma lowercase_mem: "(of_char d :: nat) < 65 \<Longrightarrow> d \<in> set (to_ascii_lowercase s) \<longleftrightarrow> d \<in> set s"
  using ascii_lower_eq [of d] by (simp add: to_ascii_lowercase_def image_iff) metis

lemma alphabetic_lower: "is_ascii_alphabetic c \<Longrightarrow> is_ascii_alphabetic (ascii_lower c)"
  using of_char_ascii_lower [of c] by (auto simp: is_ascii_alphabetic_def is_ascii_upper_def is_ascii_lower_def)

lemma cut_at_none: "d \<notin> set s \<Longrightarrow> cut_at d s = (s, [])"
  by (induction s) auto

lemma takeWhile_stops: "q = [] \<or> \<not> P (hd q) \<Longrightarrow> takeWhile P q = []"
  by (cases q) auto

text \<open>The parts of a URI that was read: nothing of a query or a fragment anywhere.\<close>

lemma parse_resource_uri_parts:
  assumes "parse_resource_uri t = Inr u"
  obtains scheme authority path where "uri_text u = scheme @ ''://'' @ authority @ path"
    "scheme \<noteq> []" "is_ascii_alphabetic (hd scheme)" "CHR ''/'' \<notin> set authority" "path = [] \<or> hd path = CHR ''/''"
    "CHR ''?'' \<notin> set (uri_text u)" "CHR ''#'' \<notin> set (uri_text u)"
    "\<And>X. split_once ''://'' (scheme @ ''://'' @ X) = Some (scheme, X)"
proof -
  let ?uri = "trim t"
  have clean: "CHR ''#'' \<notin> set ?uri" "CHR ''?'' \<notin> set ?uri"
    using assms by (auto simp: parse_resource_uri_def Let_def split: if_splits)
  obtain scheme rest where once: "split_once ''://'' ?uri = Some (scheme, rest)" "scheme \<noteq> []"
    "is_ascii_alphabetic (hd scheme)"
    using assms clean by (auto simp: parse_resource_uri_def Let_def split: if_splits option.splits)
  obtain authority path where cut: "cut_at (CHR ''/'') rest = (authority, path)" by fastforce
  let ?path = "case strip_suffix ''/'' path of None \<Rightarrow> path | Some p \<Rightarrow> p"
  have u: "u = ResourceUri (to_ascii_lowercase scheme @ ''://'' @ to_ascii_lowercase authority @ ?path)"
    using assms clean once cut by (auto simp: parse_resource_uri_def Let_def split: if_splits)
  note whole = split_once_Some [OF once(1)] and parts = cut_at_split [OF cut]
  have path: "?path = [] \<or> hd ?path = CHR ''/''" "set ?path \<subseteq> set path"
    using parts by (auto simp: strip_suffix_iff hd_append split: option.splits if_splits)
  have low: "(of_char (CHR ''/'') :: nat) < 65" "(of_char (CHR ''?'') :: nat) < 65" "(of_char (CHR ''#'') :: nat) < 65"
    "(of_char (CHR '':'') :: nat) < 65" by simp_all
  have slash: "CHR ''/'' \<notin> set (to_ascii_lowercase authority)" using parts lowercase_mem [OF low(1)] by simp
  have whole_text: "uri_text u = to_ascii_lowercase scheme @ ''://'' @ to_ascii_lowercase authority @ ?path" by (simp add: u)
  have "set ?uri = set scheme \<union> set ''://'' \<union> set authority \<union> set path" using whole parts by auto
  then have no: "CHR ''?'' \<notin> set (uri_text u)" "CHR ''#'' \<notin> set (uri_text u)"
    unfolding whole_text using clean path(2) lowercase_mem [OF low(2)] lowercase_mem [OF low(3)] by auto
  have "split_once ''://'' (map ascii_lower scheme @ ''://'' @ X) = Some (map ascii_lower scheme, X)" for X
  proof (rule split_once_rewritten)
    show "\<forall>x \<in> set ''://''. \<forall>c. ascii_lower c = x \<longleftrightarrow> c = x" using ascii_lower_eq [OF low(1)] ascii_lower_eq [OF low(4)] by simp
    show "split_once ''://'' (scheme @ ''://'' @ rest) = Some (scheme, rest)" using once(1) whole by simp
  qed
  then have first: "split_once ''://'' (to_ascii_lowercase scheme @ ''://'' @ X) = Some (to_ascii_lowercase scheme, X)" for X
    by (simp add: to_ascii_lowercase_def)
  have "to_ascii_lowercase scheme \<noteq> []" "is_ascii_alphabetic (hd (to_ascii_lowercase scheme))"
    using once(2,3) alphabetic_lower by (cases scheme; simp add: to_ascii_lowercase_def)+
  then show thesis by (rule that [OF whole_text _ _ slash path(1) no first])
qed

text \<open>
  Discovery works: when a listener publishes metadata for a resource, a GET of the URL its
  challenges point at, or of the path of that URL, gets the document, whatever query is appended, and
  before any other check; any method but GET and HEAD is refused there.
\<close>

theorem metadata_reachable:
  assumes "published_uri hs = Some (md, u)" and "hh_metadata h md = Some doc"
    and "hd_target rq = metadata_url u @ query \<or> hd_target rq = metadata_path u @ query"
    and "query = [] \<or> hd query = CHR ''?'' \<or> hd query = CHR ''#''"
  shows "precheck h hs rq = Some (if hd_method rq = Get \<or> hd_method rq = Head
    then body_response ''application/json'' doc else method_not_allowed h ''GET, HEAD'')"
proof -
  have "parse_resource_uri (pr_resource md) = Inr u"
    using assms(1) by (auto simp: published_uri_def metadata_resource_uri_def split: option.splits sum.splits)
  then obtain scheme authority path where u: "uri_text u = scheme @ ''://'' @ authority @ path"
    "scheme \<noteq> []" "is_ascii_alphabetic (hd scheme)" "CHR ''/'' \<notin> set authority" "path = [] \<or> hd path = CHR ''/''"
    "CHR ''?'' \<notin> set (uri_text u)" "CHR ''#'' \<notin> set (uri_text u)"
    "\<And>X. split_once ''://'' (scheme @ ''://'' @ X) = Some (scheme, X)"
    using parse_resource_uri_parts by blast
  have cut: "cut_at (CHR ''/'') (authority @ path) = (authority, path)"
    using u(4,5) cut_at_append [of "CHR ''/''" authority "tl path"] cut_at_none [of "CHR ''/''" authority]
    by (cases path) auto
  then have parts: "origin u = scheme @ ''://'' @ authority" "uri_path u = path"
    using u(1,8) by (simp_all add: origin_def uri_path_def uri_parts_def)
  let ?stop = "\<lambda>c. c \<noteq> CHR ''?'' \<and> c \<noteq> CHR ''#''"
  have "\<forall>c \<in> set (WELL_KNOWN @ path). ?stop c"
    using u(1,6,7) by (auto simp: WELL_KNOWN_def)
  then have ends: "takeWhile ?stop ((WELL_KNOWN @ path) @ query) = WELL_KNOWN @ path"
    using assms(4) by (subst takeWhile_append2) (auto intro: takeWhile_stops)
  obtain wk where wk: "WELL_KNOWN = CHR ''/'' # wk" by (simp add: WELL_KNOWN_def)
  have "\<not> starts_with ''/'' (metadata_url u @ query)"
    using u(2,3) by (cases scheme) (auto simp: metadata_url_def parts starts_with_iff is_ascii_alphabetic_def
        is_ascii_upper_def is_ascii_lower_def)
  then have "path_of (metadata_url u @ query) = WELL_KNOWN @ path"
    using u(8) cut_at_append [OF u(4), of "wk @ path @ query"] ends
    by (simp add: path_of_def metadata_url_def parts wk)
  moreover have "path_of (metadata_path u @ query) = WELL_KNOWN @ path"
    using ends by (simp add: path_of_def metadata_path_def parts starts_with_iff wk)
  ultimately have "path_of (hd_target rq) = metadata_path u"
    using assms(3) by (auto simp: metadata_path_def parts)
  with assms(1,2) show ?thesis by (auto simp: precheck_def protected_resource_response_def)
qed

definition sample_metadata :: protected_resource_metadata where
  "sample_metadata = new_metadata (ResourceUri ''https://h/mcp'') [''https://as'']"

theorem metadata_reachable_witness:
  "precheck (sample_http_host\<lparr>hh_metadata := (\<lambda>_. Some ''doc'')\<rparr>) (set_protected_resource sample_metadata sample_listener)
     (sample_post\<lparr>hd_method := Get, hd_target := metadata_url (ResourceUri ''https://h/mcp'') @ ''?x=1''\<rparr>) =
   Some (body_response ''application/json'' ''doc'')"
proof -
  have "metadata_resource_uri sample_metadata = Inr (ResourceUri ''https://h/mcp'')" by code_simp
  then have "published_uri (set_protected_resource sample_metadata sample_listener) =
      Some (sample_metadata, ResourceUri ''https://h/mcp'')"
    by (simp add: published_uri_def set_protected_resource_def)
  from metadata_reachable [OF this, of "sample_http_host\<lparr>hh_metadata := (\<lambda>_. Some ''doc'')\<rparr>" "''doc''"
      "sample_post\<lparr>hd_method := Get, hd_target := metadata_url (ResourceUri ''https://h/mcp'') @ ''?x=1''\<rparr>" "''?x=1''"]
  show ?thesis by simp
qed

section \<open>Bodies that cannot be read\<close>

text \<open>
  C38: A body that cannot be read ends the connection. When the body of a POST is too large, badly
  framed, cut off or late, the answer is 413, 400 or 408, the sessions stay as they were, and the
  connection is not used for another request.
\<close>

theorem unreadable_body_closes:
  "\<exists>k r. http_handler h hs t0 t1 at_epoch meanwhile (Session who i c tc ctx, ss) =
       WantBody (cfg_max_message_bytes (hs_config hs)) k \<and>
     k (Inl e) = Some r \<and> rsp_status r = (case e of TooLarge \<Rightarrow> 413 | BodyTimedOut \<Rightarrow> 408 | _ \<Rightarrow> 400) \<and>
     (\<forall>hd b. \<not> reusable hd r b) \<and>
     end_respond h hs t0 t1 at_epoch who i c tc ctx meanwhile (Inl e) ss = Some (r, ss)"
proof -
  have "rsp_close (body_rejection h m e) \<and>
      rsp_status (body_rejection h m e) = (case e of TooLarge \<Rightarrow> 413 | BodyTimedOut \<Rightarrow> 408 | _ \<Rightarrow> 400)" for m
    by (cases e) (simp_all add: too_large_def closing_def error_response_def with_body_def with_header_def new_response_def)
  then show ?thesis by (auto simp: http_handler_def end_respond_def reusable_def)
qed

section \<open>What a session remembers\<close>

text \<open>
  What a session has agreed is not lost between requests: once a request of a session has
  completed the handshake, every server built for a later request of it starts out initialized, with
  the version that was negotiated and the capabilities the client declared, whatever other requests
  of the session did in between, as long as none of them negotiated anew.
\<close>

theorem session_remembers:
  assumes "sv_initialized sv" and "sv_negotiated_version sv = Some v" and "declares_something (sv_client_capabilities sv)"
    and "\<forall>other \<in> set others. sv_negotiated_version other \<in> {None, Some v} \<and>
      (declares_something (sv_client_capabilities other) \<longrightarrow> sv_client_capabilities other = sv_client_capabilities sv)"
  shows "let s = foldl (\<lambda>s other. absorb other d s) (absorb sv d s0) others; fresh = restore s (new_server cfg)
    in sv_initialized fresh \<and> sv_negotiated_version fresh = Some v \<and> sv_client_capabilities fresh = sv_client_capabilities sv"
proof -
  have "se_initialized s \<and> se_negotiated_version s = Some v \<and> se_client_capabilities s = sv_client_capabilities sv \<Longrightarrow>
      \<forall>other \<in> set others. sv_negotiated_version other \<in> {None, Some v} \<and>
        (declares_something (sv_client_capabilities other) \<longrightarrow> sv_client_capabilities other = sv_client_capabilities sv) \<Longrightarrow>
      (let s' = foldl (\<lambda>s other. absorb other d s) s others
       in se_initialized s' \<and> se_negotiated_version s' = Some v \<and> se_client_capabilities s' = sv_client_capabilities sv)" for s
  proof (induction others arbitrary: s)
    case (Cons other others)
    then show ?case by (simp add: absorb_def) (auto simp: absorb_def split: option.splits)
  qed simp
  from this [of "absorb sv d s0"] assms show ?thesis
    by (auto simp: absorb_def restore_def Let_def split: option.splits)
qed

definition shaken_server :: "unit server" where
  "shaken_server = (new_server (default_server_config ''1''))\<lparr>sv_initialized := True,
     sv_negotiated_version := Some PROTOCOL_VERSION, sv_client_capabilities := no_capabilities\<lparr>cc_roots := Some \<lparr>ro_list_changed = True\<rparr>\<rparr>\<rparr>"

theorem session_remembers_witness:
  "\<exists>s. s = foldl (\<lambda>s other. absorb other Info s) (absorb shaken_server Info new_session)
       [new_server (default_server_config ''1'') :: unit server] \<and>
     sv_negotiated_version (restore s (new_server (default_server_config ''1'') :: unit server)) = Some PROTOCOL_VERSION"
proof -
  let ?other = "new_server (default_server_config ''1'') :: unit server"
  let ?s = "foldl (\<lambda>s other. absorb other Info s) (absorb shaken_server Info new_session) [?other]"
  have sv: "sv_initialized shaken_server" "sv_negotiated_version shaken_server = Some PROTOCOL_VERSION"
    "declares_something (sv_client_capabilities shaken_server)"
    "\<forall>other \<in> set [?other]. sv_negotiated_version other \<in> {None, Some PROTOCOL_VERSION} \<and>
      (declares_something (sv_client_capabilities other) \<longrightarrow> sv_client_capabilities other = sv_client_capabilities shaken_server)"
    by (simp_all add: shaken_server_def new_server_def declares_something_def no_capabilities_def)
  have "let s = ?s; fresh = restore s ?other
    in sv_initialized fresh \<and> sv_negotiated_version fresh = Some PROTOCOL_VERSION \<and>
      sv_client_capabilities fresh = sv_client_capabilities shaken_server"
    by (rule session_remembers [OF sv])
  then show ?thesis unfolding Let_def by blast
qed

text \<open>But a log level set back to the default is not remembered: the session keeps the one before.\<close>

lemma default_level_forgotten:
  assumes "sv_log_level sv = d" and "se_log_level s = Some l"
  shows "sv_log_level (restore (absorb sv d s) (new_server cfg)) = l"
  using assms by (simp add: absorb_def restore_def Let_def split: option.splits)

end
