(* ===== verification/Http_Serve.thy ===== *)
theory Http_Serve
  imports Http Http1_Requests
begin

text \<open>
  The listening side of HTTP (\<open>serve\<close>, \<open>Slot\<close>, \<open>Refuser\<close> and \<open>Acceptor\<close> of \<open>transport/http1.rs\<close>, \<open>listen\<close> of
  \<open>transport/http.rs\<close>): what has to be right before the socket is bound, the accept loop, the thread
  that tells refused clients so, and the ends of connection threads, in any order. A connection is a number.
  Reading certificates and TLS itself are a library's. The property: every connection that was
  accepted is in exactly one place, the slots are exactly the connections being served, and none is turned
  away unless the ceiling is reached or the platform gives no thread.
\<close>

section \<open>Before the socket is bound\<close>

text \<open>
  \<open>TlsSettings\<close> by what the library makes of them: the number of certificates in the chain, whether there is a
  key, and what is wrong with the protocol versions or with certificate and key together.
\<close>

record tls_settings =
  tls_certificates :: "string + nat"
  tls_key :: "string + bool"
  tls_versions :: "string option"
  tls_pair :: "string option"

definition tls_bad :: "string \<Rightarrow> mcp_error" where
  "tls_bad what = Internal (''Failed to start HTTP server: '' @ what)"

definition tls_config :: "tls_settings \<Rightarrow> unit result" where
  "tls_config s =
     (case tls_certificates s of
        Inl e \<Rightarrow> Inl (tls_bad (''unreadable certificate chain: '' @ e))
      | Inr n \<Rightarrow>
          if n = 0 then Inl (tls_bad ''the certificate chain is empty'')
          else (case tls_key s of
             Inl e \<Rightarrow> Inl (tls_bad (''unreadable private key: '' @ e))
           | Inr there \<Rightarrow>
               if \<not> there then Inl (tls_bad ''no private key in the PEM given'')
               else (case tls_versions s of
                  Some e \<Rightarrow> Inl (tls_bad (''no usable TLS versions: '' @ e))
                | None \<Rightarrow>
                    (case tls_pair s of
                       Some e \<Rightarrow> Inl (tls_bad (''the certificate and key do not work together: '' @ e))
                     | None \<Rightarrow> Inr ()))))"

datatype acceptor = PlainAcceptor | TlsAcceptor

definition new_acceptor :: "tls_settings option \<Rightarrow> acceptor result" where
  "new_acceptor tls =
     (case tls of
        None \<Rightarrow> Inr PlainAcceptor
      | Some settings \<Rightarrow> (case tls_config settings of Inl e \<Rightarrow> Inl e | Inr _ \<Rightarrow> Inr TlsAcceptor))"

definition is_tls :: "acceptor \<Rightarrow> bool" where
  "is_tls a \<longleftrightarrow> a = TlsAcceptor"

text \<open>
  \<open>Acceptor::accept\<close>, on the connection's own thread: with TLS both deadlines are armed before the handshake, and
  there may be no session to make.
\<close>

definition acceptor_accept :: "acceptor \<Rightarrow> limits \<Rightarrow> bool \<Rightarrow> wire \<Rightarrow> wire option" where
  "acceptor_accept a lim session w =
     (case a of
        PlainAcceptor \<Rightarrow> Some w
      | TlsAcceptor \<Rightarrow> if session then Some (arm_read (read_timeout lim) w) else None)"

section \<open>The listener\<close>

definition REFUSAL_BACKLOG :: nat where "REFUSAL_BACKLOG = 64"

text \<open>
  The counter of live connections, the connections that have a thread, those queued to be refused, the one being
  told, and those that are over: served to the end, told, or closed without a word. \<open>hl_refuser\<close> is whether the
  refusing thread could be started; without it the queue takes nothing.
\<close>

record http_listener =
  hl_live :: nat
  hl_serving :: "nat list"
  hl_refuser :: bool
  hl_queue :: "nat list"
  hl_telling :: "nat option"
  hl_served :: "nat list"
  hl_told :: "nat list"
  hl_closed :: "nat list"
  hl_arrived :: "nat list"

definition start_refuser :: "bool \<Rightarrow> http_listener" where
  "start_refuser spawned = \<lparr>hl_live = 0, hl_serving = [], hl_refuser = spawned, hl_queue = [], hl_telling = None,
     hl_served = [], hl_told = [], hl_closed = [], hl_arrived = []\<rparr>"

text \<open>\<open>serve\<close>, up to its loop: a certificate that cannot be used refuses before there is a socket.\<close>

definition start_listening :: "tls_settings option \<Rightarrow> io_error option \<Rightarrow> bool \<Rightarrow> (acceptor \<times> http_listener) result" where
  "start_listening tls bound refuser_spawned =
     (case new_acceptor tls of
        Inl e \<Rightarrow> Inl e
      | Inr a \<Rightarrow>
          (case bound of
             Some e \<Rightarrow> Inl (Internal (''Failed to start HTTP server: '' @ description e))
           | None \<Rightarrow> Inr (a, start_refuser refuser_spawned)))"

definition refuse :: "nat \<Rightarrow> http_listener \<Rightarrow> http_listener" where
  "refuse c s =
     (if hl_refuser s \<and> length (hl_queue s) < REFUSAL_BACKLOG then s\<lparr>hl_queue := hl_queue s @ [c]\<rparr>
      else s\<lparr>hl_closed := hl_closed s @ [c]\<rparr>)"

text \<open>
  A turn of the loop for a connection that was accepted. Where no thread can be had the closure is dropped, and with it
  the slot and the connection.
\<close>

definition http_accept_turn :: "acceptor \<Rightarrow> nat \<Rightarrow> nat \<Rightarrow> bool \<Rightarrow> http_listener \<Rightarrow> http_listener" where
  "http_accept_turn a mx c spawned s =
     (case slot_claim mx (hl_live s) of
        None \<Rightarrow> if is_tls a then s\<lparr>hl_closed := hl_closed s @ [c]\<rparr> else refuse c s
      | Some n \<Rightarrow>
          if spawned then s\<lparr>hl_live := n, hl_serving := hl_serving s @ [c]\<rparr>
          else s\<lparr>hl_live := slot_drop n, hl_closed := hl_closed s @ [c]\<rparr>)"

text \<open>A connection's thread ends, in whatever way, and its slot is dropped.\<close>

definition connection_over :: "nat \<Rightarrow> http_listener \<Rightarrow> http_listener" where
  "connection_over c s =
     (if c \<in> set (hl_serving s)
      then s\<lparr>hl_live := slot_drop (hl_live s), hl_serving := remove1 c (hl_serving s), hl_served := hl_served s @ [c]\<rparr>
      else s)"

text \<open>The refusing thread takes the next connection, and is done with it.\<close>

definition take_refused :: "http_listener \<Rightarrow> http_listener" where
  "take_refused s =
     (case (hl_telling s, hl_queue s) of
        (None, c # cs) \<Rightarrow> s\<lparr>hl_queue := cs, hl_telling := Some c\<rparr>
      | _ \<Rightarrow> s)"

definition refused_told :: "http_listener \<Rightarrow> http_listener" where
  "refused_told s =
     (case hl_telling s of
        Some c \<Rightarrow> s\<lparr>hl_telling := None, hl_told := hl_told s @ [c]\<rparr>
      | None \<Rightarrow> s)"

text \<open>What it does on that connection's wire: the answer, and a lingering close whether it went through or not.\<close>

definition refusal :: "http_host \<Rightarrow> bytes" where
  "refusal h = render Get Http11 (closing (overloaded_answer h)) False"

definition tell_refused :: "http_host \<Rightarrow> wire \<Rightarrow> wire" where
  "tell_refused h w = linger_close (snd (write_all (refusal h) w))"

datatype http_event =
    Arrives nat bool
  | AcceptFailed
  | ConnectionOver nat
  | RefuserTakes
  | RefuserDone

fun http_step :: "acceptor \<Rightarrow> nat \<Rightarrow> http_listener \<Rightarrow> http_event \<Rightarrow> http_listener" where
  "http_step a mx s (Arrives c spawned) = http_accept_turn a mx c spawned (s\<lparr>hl_arrived := hl_arrived s @ [c]\<rparr>)"
| "http_step a mx s AcceptFailed = s"
| "http_step a mx s (ConnectionOver c) = connection_over c s"
| "http_step a mx s RefuserTakes = take_refused s"
| "http_step a mx s RefuserDone = refused_told s"

section \<open>The invariant\<close>

definition whereabouts :: "http_listener \<Rightarrow> nat multiset" where
  "whereabouts s = mset (hl_serving s) + mset (hl_queue s) + (case hl_telling s of None \<Rightarrow> {#} | Some c \<Rightarrow> {#c#}) +
     mset (hl_served s) + mset (hl_told s) + mset (hl_closed s)"

definition http_ok :: "acceptor \<Rightarrow> nat \<Rightarrow> http_listener \<Rightarrow> bool" where
  "http_ok a mx s \<longleftrightarrow>
     hl_live s = length (hl_serving s) \<and> hl_live s \<le> mx \<and> length (hl_queue s) \<le> REFUSAL_BACKLOG \<and>
     (is_tls a \<longrightarrow> hl_queue s = [] \<and> hl_telling s = None \<and> hl_told s = []) \<and> whereabouts s = mset (hl_arrived s)"

lemmas http_listener_defs = http_accept_turn_def connection_over_def take_refused_def refused_told_def refuse_def slot_claim_def slot_drop_def

lemma http_ok_step: "http_ok a mx s \<Longrightarrow> http_ok a mx (http_step a mx s e)"
proof (cases e)
  case (ConnectionOver c)
  assume "http_ok a mx s"
  with ConnectionOver show ?thesis
    by (auto simp: http_ok_def whereabouts_def http_listener_defs length_remove1)
qed (auto simp: http_ok_def whereabouts_def http_listener_defs REFUSAL_BACKLOG_def split: list.split option.split)

interpretation listener: machine "http_step a mx" "http_ok a mx" for a mx
  by unfold_locales (rule http_ok_step)

lemma start_ok: "http_ok a mx (start_refuser spawned)"
  by (simp add: http_ok_def start_refuser_def whereabouts_def)

section \<open>Properties\<close>

text \<open>
  C26: However connections come, end and are refused, each that was accepted is in one place, being served, waiting to be
  refused or over; the counter is the number of those served and within the ceiling, and the backlog of refusals is
  bounded. One that finds room and a thread is served, and one that finds none is told so, unless TLS is
  on, the backlog is full or there is no thread to tell it.
\<close>

theorem http_connections_accounted:
  "let s = foldl (http_step a mx) (start_refuser refuser) es in
    hl_live s = length (hl_serving s) \<and> hl_live s \<le> mx \<and> length (hl_queue s) \<le> REFUSAL_BACKLOG \<and>
    whereabouts s = mset (hl_arrived s) \<and>
    hl_serving (http_step a mx s (Arrives c spawned)) = (if hl_live s < mx \<and> spawned then hl_serving s @ [c] else hl_serving s) \<and>
    hl_queue (http_step a mx s (Arrives c spawned)) =
      (if mx \<le> hl_live s \<and> \<not> is_tls a \<and> hl_refuser s \<and> length (hl_queue s) < REFUSAL_BACKLOG then hl_queue s @ [c] else hl_queue s)"
proof -
  have "http_ok a mx (foldl (http_step a mx) (start_refuser refuser) es)" by (intro listener.run_inv start_ok)
  then show ?thesis by (auto simp: http_ok_def http_listener_defs Let_def)
qed

text \<open>A refusal puts the answer on the wire, or fails to write.\<close>

lemma socket_read_keeps: "socket_read w = (r, w') \<Longrightarrow> written w' = written w \<and> read_wait w' = read_wait w \<and> now w' \<le> now w + read_wait w"
  by (auto simp: socket_read_def split: list.splits if_splits)

lemma linger_loop_keeps:
  "written (linger_loop deadline budget w) = written w \<and> now (linger_loop deadline budget w) \<le> max (now w) (deadline + read_wait w)"
proof (induction deadline budget w rule: linger_loop.induct)
  case (1 deadline budget w)
  obtain r w' where r: "socket_read w = (r, w')" by fastforce
  note kept = socket_read_keeps [OF r]
  show ?case
  proof (cases "budget = 0 \<or> deadline \<le> now w \<or> (\<exists>e. r = Inl e) \<or> r = Inr []")
    case True
    with kept r show ?thesis by (auto simp: linger_loop.simps [of deadline budget w])
  next
    case False
    then obtain bs where bs: "r = Inr bs" "bs \<noteq> []" by (cases r) auto
    with False 1 [OF _ r [symmetric] bs(1)] kept r show ?thesis
      by (auto simp: linger_loop.simps [of deadline budget w])
  qed
qed

lemma linger_close_written: "written (linger_close w) = written w"
  by (simp add: linger_close_def linger_loop_keeps arm_read_def)

text \<open>A refused client holds the refusing thread for a bounded time, whatever it sends.\<close>

lemma refusal_bounded: "now (tell_refused h w) \<le> now w + LINGER_TIME + max LINGER_POLL MIN_TIMEOUT"
  using linger_loop_keeps [of "now w + LINGER_TIME" LINGER_BYTES "arm_read LINGER_POLL (snd (write_all (refusal h) w))"]
  by (auto simp: tell_refused_def linger_close_def write_all_def arm_read_def split: list.splits option.splits)

lemma refusal_written: "written (tell_refused h w) \<in> {written w, written w @ refusal h}"
  using linger_close_written [of "snd (write_all (refusal h) w)"]
  by (auto simp: tell_refused_def write_all_def split: list.splits option.splits)

text \<open>Nothing is bound where the certificate cannot be used.\<close>

lemma bad_certificate_refused: "new_acceptor tls = Inl e \<Longrightarrow> start_listening tls bound spawned = Inl e"
  by (simp add: start_listening_def)

section \<open>Serving\<close>

text \<open>
  \<open>serve\<close> and \<open>serve_with_auth\<close> up to the loop: a validator that binds no audience refuses before
  anything is bound.
\<close>

definition serve_with_auth_start :: "jwt_validator \<Rightarrow> tls_settings option \<Rightarrow> io_error option \<Rightarrow> bool \<Rightarrow> (acceptor \<times> http_listener) result" where
  "serve_with_auth_start v tls bound refuser_spawned =
     (case serve_with_auth_check v of Inl e \<Rightarrow> Inl e | Inr _ \<Rightarrow> start_listening tls bound refuser_spawned)"

text \<open>\<open>contained\<close>: whatever panics on the way to an answer becomes an answer, after which the connection ends.\<close>

definition contained :: "http_host \<Rightarrow> http_response run \<Rightarrow> http_response" where
  "contained h r =
     (case r of
        Finished r \<Rightarrow> r
      | Unwound p \<Rightarrow> closing (error_response h 500 (-32603) (''Internal error: request handler panicked: '' @ p)))"

text \<open>An authenticated server listens only with a validator that binds an audience and a certificate that can be used.\<close>

lemma serves_only_protected:
  "serve_with_auth_start v tls bound spawned = Inr x \<Longrightarrow> binds_audience v \<and> (\<exists>a. new_acceptor tls = Inr a) \<and> bound = None"
  by (auto simp: serve_with_auth_start_def serve_with_auth_check_def start_listening_def split: sum.splits option.splits if_splits)

end
