(* ===== verification/Server_Settings.thy ===== *)
theory Server_Settings
  imports Http_Sessions
begin

text \<open>
  The setters by which a server that lives for one request is given what its session remembers (\<open>server.rs\<close>), and
  parsing a log level; and the gate at which a task's worker waits until its client has been told of the task. The lemmas: restoring a session is calling the setters, and taking the session back from
  an untouched server changes nothing but what the server started with;
  and a worker leaves its gate when it opens, and no later than its patience.
\<close>

definition set_log_level :: "log_level \<Rightarrow> 'c server \<Rightarrow> 'c server" where
  "set_log_level l sv = sv\<lparr>sv_log_level := l\<rparr>"

definition set_client_capabilities :: "client_capabilities \<Rightarrow> 'c server \<Rightarrow> 'c server" where
  "set_client_capabilities caps sv = sv\<lparr>sv_client_capabilities := caps\<rparr>"

definition set_negotiated_version :: "string \<Rightarrow> 'c server \<Rightarrow> 'c server" where
  "set_negotiated_version v sv = sv\<lparr>sv_negotiated_version := Some v\<rparr>"

definition set_initialized :: "bool \<Rightarrow> 'c server \<Rightarrow> 'c server" where
  "set_initialized b sv = sv\<lparr>sv_initialized := b\<rparr>"

definition set_task_context :: "task_context \<Rightarrow> 'c server \<Rightarrow> 'c server" where
  "set_task_context tc sv = sv\<lparr>sv_task_context := tc\<rparr>"

definition log_level_from_str :: "string \<Rightarrow> log_level result" where
  "log_level_from_str s =
     (case from_wire s of Some l \<Rightarrow> Inr l | None \<Rightarrow> Inl (InvalidParams (''Unknown log level: '' @ s)))"

lemma log_level_round_trip: "log_level_from_str (as_str l) = Inr l"
  by (cases l; simp add: log_level_from_str_def; code_simp)

text \<open>\<open>restore\<close> is the setters, those of a level and of a version only where the session has one.\<close>

lemma restore_by_setters:
  "restore s sv = set_initialized (se_initialized s)
     ((case se_negotiated_version s of Some v \<Rightarrow> set_negotiated_version v | None \<Rightarrow> id)
       (set_client_capabilities (se_client_capabilities s)
         ((case se_log_level s of Some l \<Rightarrow> set_log_level l | None \<Rightarrow> id) sv)))"
  by (simp add: restore_def set_initialized_def set_negotiated_version_def set_client_capabilities_def set_log_level_def
      Let_def split: option.split)

text \<open>A request that changes nothing leaves its session as it was, where the session's level is not the default.\<close>

lemma restored_absorbed:
  assumes "se_log_level s \<noteq> None \<or> sv_log_level sv = usual" and "sv_negotiated_version sv = None"
  shows "absorb (restore s sv) usual s = s"
  using assms by (cases "se_log_level s"; cases "se_negotiated_version s") (auto simp: absorb_def restore_def Let_def)

section \<open>The gate of a worker\<close>

text \<open>
  \<open>TaskGate\<close>: whether it is open, and whether its lock is poisoned. A wait is a sequence of wakings, each after some time and
  with the gate as it is then; one that would come after the deadline comes at the deadline. The result is the moment
  the worker goes on, \<^const>\<open>None\<close> where it still waits when the wakings are over.
\<close>

record task_gate =
  tg_open :: bool
  tg_poisoned :: bool

definition open_gate :: "task_gate \<Rightarrow> task_gate" where
  "open_gate g = (if tg_poisoned g then g else g\<lparr>tg_open := True\<rparr>)"

fun gate_loop :: "nat \<Rightarrow> nat \<Rightarrow> task_gate \<Rightarrow> (nat \<times> task_gate) list \<Rightarrow> nat option" where
  "gate_loop deadline now g wakings =
     (if tg_open g \<or> tg_poisoned g \<or> deadline \<le> now then Some now
      else case wakings of [] \<Rightarrow> None | (d, g') # rest \<Rightarrow> gate_loop deadline (now + min d (deadline - now)) g' rest)"

declare gate_loop.simps [simp del]

definition gate_wait :: "nat \<Rightarrow> nat \<Rightarrow> task_gate \<Rightarrow> (nat \<times> task_gate) list \<Rightarrow> nat option" where
  "gate_wait patience now g wakings = gate_loop (now + patience) now g wakings"

lemma gate_loop_bound: "gate_loop deadline now g wakings = Some t \<Longrightarrow> now \<le> deadline \<Longrightarrow> now \<le> t \<and> t \<le> deadline"
proof (induction deadline now g wakings rule: gate_loop.induct)
  case (1 deadline now g wakings)
  then show ?case
    by (cases wakings) (fastforce simp: gate_loop.simps [of deadline now] split: if_splits prod.splits)+
qed

lemma gate_loop_ends: "deadline - now \<le> sum_list (map fst wakings) \<Longrightarrow> gate_loop deadline now g wakings \<noteq> None"
proof (induction deadline now g wakings rule: gate_loop.induct)
  case (1 deadline now g wakings)
  show ?case
  proof (cases "tg_open g \<or> tg_poisoned g \<or> deadline \<le> now")
    case False
    with 1(2) obtain d g' rest where w: "wakings = (d, g') # rest" by (cases wakings) auto
    with 1(2) False have "deadline - (now + min d (deadline - now)) \<le> sum_list (map fst rest)" by auto
    with 1(1) [OF False w refl] w False show ?thesis by (simp add: gate_loop.simps [of deadline now])
  qed (simp add: gate_loop.simps [of deadline now])
qed

text \<open>A worker goes on at once where its gate is open, within the limit where it never opens, and not before unless it opens.\<close>

lemma gate_wait_bounded: "gate_wait patience now g wakings = Some t \<Longrightarrow> now \<le> t \<and> t \<le> now + patience"
  using gate_loop_bound [of "now + patience" now g wakings t] by (simp add: gate_wait_def)

lemma gate_wait_ends: "patience \<le> sum_list (map fst wakings) \<Longrightarrow> gate_wait patience now g wakings \<noteq> None"
  using gate_loop_ends [of "now + patience" now wakings g] by (simp add: gate_wait_def)

lemma gate_wait_open: "\<not> tg_poisoned g \<Longrightarrow> gate_wait patience now (open_gate g) wakings = Some now"
  by (simp add: gate_wait_def open_gate_def gate_loop.simps)

end
