(* ===== verification/Elicitation.thy ===== *)
theory Elicitation
  imports Protocol
begin

text \<open>
  Elicitation (\<open>types/elicitation.rs\<close>): what a server asks the user for through the client, its
  consistency check, the client's answer, and the builder of form schemas. A field builder passed to
  the schema builder is a function on the record of its options. The property: whatever is built is
  a flat object of primitives, as clients are entitled to expect, as long as no annotation
  overwrites what a field is.
\<close>

section \<open>Reading an enumeration\<close>

text \<open>
  A derived unit variant reads a string, or an object whose one key is the variant and whose value is
  the unit; a value that was buffered first also takes an empty object for the unit (\<open>lenient\<close>).
\<close>

definition enum_of :: "bool \<Rightarrow> (string \<times> 'a) list \<Rightarrow> json \<Rightarrow> de_error + 'a" where
  "enum_of lenient names v =
     (case v of
        JString s \<Rightarrow> ok_or (InvalidType s) (map_of names s)
      | JObject [(s, u)] \<Rightarrow>
          if u = JNull \<or> lenient \<and> u = JObject [] then ok_or (InvalidType s) (map_of names s)
          else Inl (InvalidType ''unit'')
      | _ \<Rightarrow> Inl (InvalidType ''enum''))"

section \<open>Requests and answers\<close>

definition URL_ELICITATION_REQUIRED :: int where
  "URL_ELICITATION_REQUIRED = -32042"

fun elicitation_mode_to_value :: "elicitation_mode \<Rightarrow> json" where
  "elicitation_mode_to_value Form = JString ''form''"
| "elicitation_mode_to_value Url = JString ''url''"

record elicit_params =
  ep_mode :: "elicitation_mode option"
  ep_message :: string
  ep_requested_schema :: "json option"
  ep_url :: "string option"
  ep_elicitation_id :: "string option"
  ep_meta :: "meta option"

definition elicit_params_to_value :: "elicit_params \<Rightarrow> json" where
  "elicit_params_to_value p =
     jobject (jopt ''mode'' elicitation_mode_to_value (ep_mode p) @ [(''message'', JString (ep_message p))] @
       opt_field ''requestedSchema'' (ep_requested_schema p) @ jopt ''url'' JString (ep_url p) @
       jopt ''elicitationId'' JString (ep_elicitation_id p) @ jopt ''_meta'' JObject (ep_meta p))"

definition form_params :: "string \<Rightarrow> json \<Rightarrow> elicit_params" where
  "form_params m schema = \<lparr>ep_mode = Some Form, ep_message = m, ep_requested_schema = Some schema, ep_url = None,
     ep_elicitation_id = None, ep_meta = None\<rparr>"

definition url_params :: "string \<Rightarrow> string \<Rightarrow> string \<Rightarrow> elicit_params" where
  "url_params m url i = \<lparr>ep_mode = Some Url, ep_message = m, ep_requested_schema = None, ep_url = Some url,
     ep_elicitation_id = Some i, ep_meta = None\<rparr>"

definition resolved_mode :: "elicit_params \<Rightarrow> elicitation_mode" where
  "resolved_mode p = (case ep_mode p of None \<Rightarrow> Form | Some m \<Rightarrow> m)"

definition validate_elicitation :: "elicit_params \<Rightarrow> string + unit" where
  "validate_elicitation p =
     (if trim (ep_message p) = [] then Inl ''elicitation `message` must not be empty''
      else case resolved_mode p of
        Form \<Rightarrow>
          if ep_requested_schema p = None then Inl ''form mode elicitation requires `requestedSchema`''
          else if ep_url p \<noteq> None then Inl ''form mode elicitation must not carry a `url`''
          else Inr ()
      | Url \<Rightarrow>
          (case ep_url p of
             None \<Rightarrow> Inl ''url mode elicitation requires `url`''
           | Some url \<Rightarrow>
               if split_once ''://'' url = None \<or> starts_with ''://'' url
               then Inl (''url mode elicitation has an invalid `url`: '' @ url)
               else if ep_elicitation_id p = None then Inl ''url mode elicitation requires `elicitationId`''
               else if ep_requested_schema p \<noteq> None
               then Inl ''url mode elicitation must not carry a `requestedSchema`''
               else Inr ()))"

datatype elicit_action = Accept | Decline | Cancel

definition elicit_action_of :: "json \<Rightarrow> de_error + elicit_action" where
  "elicit_action_of = enum_of False [(''accept'', Accept), (''decline'', Decline), (''cancel'', Cancel)]"

record elicit_result =
  er_action :: elicit_action
  er_content :: "(string \<times> json) list option"
  er_meta :: "meta option"

definition elicit_result_of :: "json \<Rightarrow> de_error + elicit_result" where
  "elicit_result_of v =
     and_then (as_struct [''action'', ''content'', ''_meta''] 3 v) (\<lambda>v.
     and_then (opt_of map_of_value ''_meta'' v) (\<lambda>metadata.
     and_then (field_of elicit_action_of ''action'' v) (\<lambda>action.
     and_then (opt_of map_of_value ''content'' v) (\<lambda>body.
       Inr \<lparr>er_action = action, er_content = body, er_meta = metadata\<rparr>))))"

definition accepted :: "elicit_result \<Rightarrow> bool" where
  "accepted r \<longleftrightarrow> er_action r = Accept"

definition accepted_content :: "elicit_result \<Rightarrow> (string \<times> json) list option" where
  "accepted_content r = (case er_content r of None \<Rightarrow> None | Some c \<Rightarrow> if accepted r then Some c else None)"

definition parse_content :: "(json \<Rightarrow> de_error + 'a) \<Rightarrow> elicit_result \<Rightarrow> (de_error + 'a) option" where
  "parse_content decode r = map_option (\<lambda>c. decode (JObject c)) (accepted_content r)"

section \<open>The form schema builder\<close>

text \<open>A field is built by insertions into an empty object.\<close>

definition insert_opt :: "string \<Rightarrow> json option \<Rightarrow> (string \<times> json) list \<Rightarrow> (string \<times> json) list" where
  "insert_opt k v fs = (case v of None \<Rightarrow> fs | Some x \<Rightarrow> obj_insert k x fs)"

definition number_of :: "64 word \<Rightarrow> json option" where
  "number_of x = (case json_of_f64 x of JNull \<Rightarrow> None | v \<Rightarrow> Some v)"

record string_field =
  sf_title :: "string option"
  sf_description :: "string option"
  sf_min_length :: "nat option"
  sf_max_length :: "nat option"
  sf_pattern :: "string option"
  sf_format :: "string option"
  sf_default :: "string option"

definition default_string_field :: string_field where
  "default_string_field = \<lparr>sf_title = None, sf_description = None, sf_min_length = None, sf_max_length = None,
     sf_pattern = None, sf_format = None, sf_default = None\<rparr>"

definition build_string_field :: "string \<Rightarrow> string_field \<Rightarrow> json" where
  "build_string_field type_name f =
     JObject (fold (\<lambda>(k, v). insert_opt k v)
       [(''title'', map_option JString (sf_title f)), (''description'', map_option JString (sf_description f)),
        (''minLength'', map_option jnat (sf_min_length f)), (''maxLength'', map_option jnat (sf_max_length f)),
        (''pattern'', map_option JString (sf_pattern f)), (''format'', map_option JString (sf_format f)),
        (''default'', map_option JString (sf_default f))]
       [(''type'', JString type_name)])"

record number_field =
  nf_title :: "string option"
  nf_description :: "string option"
  nf_minimum :: "64 word option"
  nf_maximum :: "64 word option"
  nf_default :: "64 word option"

definition default_number_field :: number_field where
  "default_number_field = \<lparr>nf_title = None, nf_description = None, nf_minimum = None, nf_maximum = None,
     nf_default = None\<rparr>"

definition build_number_field :: "string \<Rightarrow> number_field \<Rightarrow> json" where
  "build_number_field type_name f =
     JObject (fold (\<lambda>(k, v). insert_opt k v)
       [(''title'', map_option JString (nf_title f)), (''description'', map_option JString (nf_description f)),
        (''minimum'', Option.bind (nf_minimum f) number_of), (''maximum'', Option.bind (nf_maximum f) number_of),
        (''default'', Option.bind (nf_default f) number_of)]
       [(''type'', JString type_name)])"

record boolean_field =
  bf_title :: "string option"
  bf_description :: "string option"
  bf_default :: "bool option"

definition default_boolean_field :: boolean_field where
  "default_boolean_field = \<lparr>bf_title = None, bf_description = None, bf_default = None\<rparr>"

definition build_boolean_field :: "boolean_field \<Rightarrow> json" where
  "build_boolean_field f =
     JObject (fold (\<lambda>(k, v). insert_opt k v)
       [(''title'', map_option JString (bf_title f)), (''description'', map_option JString (bf_description f)),
        (''default'', map_option JBool (bf_default f))]
       [(''type'', JString ''boolean'')])"

record elicit_schema =
  es_properties :: "(string \<times> json) list"
  es_required :: "string list"

definition new_schema :: elicit_schema where
  "new_schema = \<lparr>es_properties = [], es_required = []\<rparr>"

definition add_property :: "string \<Rightarrow> json \<Rightarrow> elicit_schema \<Rightarrow> elicit_schema" where
  "add_property name v s = s\<lparr>es_properties := obj_insert name v (es_properties s)\<rparr>"

definition add_string :: "string \<Rightarrow> (string_field \<Rightarrow> string_field) \<Rightarrow> elicit_schema \<Rightarrow> elicit_schema" where
  "add_string name f = add_property name (build_string_field ''string'' (f default_string_field))"

definition add_number :: "string \<Rightarrow> (number_field \<Rightarrow> number_field) \<Rightarrow> elicit_schema \<Rightarrow> elicit_schema" where
  "add_number name f = add_property name (build_number_field ''number'' (f default_number_field))"

definition add_integer :: "string \<Rightarrow> (number_field \<Rightarrow> number_field) \<Rightarrow> elicit_schema \<Rightarrow> elicit_schema" where
  "add_integer name f = add_property name (build_number_field ''integer'' (f default_number_field))"

definition add_boolean :: "string \<Rightarrow> (boolean_field \<Rightarrow> boolean_field) \<Rightarrow> elicit_schema \<Rightarrow> elicit_schema" where
  "add_boolean name f = add_property name (build_boolean_field (f default_boolean_field))"

definition titled :: "string \<times> string \<Rightarrow> json" where
  "titled c = jobject [(''const'', JString (fst c)), (''title'', JString (snd c))]"

definition add_enumeration :: "string \<Rightarrow> string list \<Rightarrow> elicit_schema \<Rightarrow> elicit_schema" where
  "add_enumeration name vs =
     add_property name (jobject [(''type'', JString ''string''), (''enum'', JArray (map JString vs))])"

definition add_titled_enumeration :: "string \<Rightarrow> (string \<times> string) list \<Rightarrow> elicit_schema \<Rightarrow> elicit_schema" where
  "add_titled_enumeration name cs =
     add_property name (jobject [(''type'', JString ''string''), (''oneOf'', JArray (map titled cs))])"

definition add_multi_enumeration :: "string \<Rightarrow> string list \<Rightarrow> elicit_schema \<Rightarrow> elicit_schema" where
  "add_multi_enumeration name vs =
     add_property name (jobject [(''type'', JString ''array''),
       (''items'', jobject [(''type'', JString ''string''), (''enum'', JArray (map JString vs))])])"

definition add_titled_multi_enumeration :: "string \<Rightarrow> (string \<times> string) list \<Rightarrow> elicit_schema \<Rightarrow> elicit_schema" where
  "add_titled_multi_enumeration name cs =
     add_property name (jobject [(''type'', JString ''array''), (''items'', jobject [(''anyOf'', JArray (map titled cs))])])"

definition annotate :: "string \<Rightarrow> string \<Rightarrow> json \<Rightarrow> elicit_schema \<Rightarrow> elicit_schema" where
  "annotate name k v s =
     (case map_of (es_properties s) name of
        Some (JObject fs) \<Rightarrow> add_property name (JObject (obj_insert k v fs)) s
      | _ \<Rightarrow> s)"

definition require :: "string \<Rightarrow> elicit_schema \<Rightarrow> elicit_schema" where
  "require name s =
     (if map_of (es_properties s) name \<noteq> None \<and> name \<notin> set (es_required s)
      then s\<lparr>es_required := es_required s @ [name]\<rparr> else s)"

definition build_schema :: "elicit_schema \<Rightarrow> json" where
  "build_schema s =
     jobject ([(''type'', JString ''object''), (''properties'', JObject (es_properties s))] @
       jlist ''required'' JString (es_required s))"


section \<open>The properties\<close>

text \<open>The calls of the builder, and what a client may expect of a field and of a schema.\<close>

datatype schema_call =
    CallString string "string_field \<Rightarrow> string_field"
  | CallNumber string "number_field \<Rightarrow> number_field"
  | CallInteger string "number_field \<Rightarrow> number_field"
  | CallBoolean string "boolean_field \<Rightarrow> boolean_field"
  | CallEnumeration string "string list"
  | CallTitledEnumeration string "(string \<times> string) list"
  | CallMultiEnumeration string "string list"
  | CallTitledMultiEnumeration string "(string \<times> string) list"
  | CallAnnotate string string json
  | CallRequired string

fun schema_step :: "elicit_schema \<Rightarrow> schema_call \<Rightarrow> elicit_schema" where
  "schema_step s (CallString n f) = add_string n f s"
| "schema_step s (CallNumber n f) = add_number n f s"
| "schema_step s (CallInteger n f) = add_integer n f s"
| "schema_step s (CallBoolean n f) = add_boolean n f s"
| "schema_step s (CallEnumeration n vs) = add_enumeration n vs s"
| "schema_step s (CallTitledEnumeration n cs) = add_titled_enumeration n cs s"
| "schema_step s (CallMultiEnumeration n vs) = add_multi_enumeration n vs s"
| "schema_step s (CallTitledMultiEnumeration n cs) = add_titled_multi_enumeration n cs s"
| "schema_step s (CallAnnotate n k v) = annotate n k v s"
| "schema_step s (CallRequired n) = require n s"

fun describes_kind :: "schema_call \<Rightarrow> bool" where
  "describes_kind (CallAnnotate n k v) = (k = ''type'' \<or> k = ''items'')"
| "describes_kind _ = False"

definition KIND :: string where "KIND = ''type''"
definition ITEMS :: string where "ITEMS = ''items''"

definition choices :: "json \<Rightarrow> bool" where
  "choices items \<longleftrightarrow> (\<exists>vs. items = jobject [(KIND, JString ''string''), (''enum'', JArray (map JString vs))]) \<or>
     (\<exists>cs. items = jobject [(''anyOf'', JArray (map titled cs))])"

definition primitive_field :: "json \<Rightarrow> bool" where
  "primitive_field v \<longleftrightarrow> (\<exists>fs. v = JObject fs) \<and>
     (json_get KIND v \<in> Some ` JString ` {''string'', ''number'', ''integer'', ''boolean''} \<or>
      json_get KIND v = Some (JString ''array'') \<and> (\<exists>items. json_get ITEMS v = Some items \<and> choices items))"

definition flat_schema :: "elicit_schema \<Rightarrow> bool" where
  "flat_schema s \<longleftrightarrow> sorted_fields (es_properties s) \<and> (\<forall>(k, v) \<in> set (es_properties s). primitive_field v) \<and>
     distinct (es_required s) \<and> set (es_required s) \<subseteq> fst ` set (es_properties s)"

lemma set_obj_insert_le: "set (obj_insert k v r) \<subseteq> insert (k, v) (set r)"
  by (induction r rule: obj_insert.induct) auto

lemma flat_add_property:
  assumes "flat_schema s" and "primitive_field v"
  shows "flat_schema (add_property n v s)"
  using assms set_obj_insert_le [of n v "es_properties s"] set_obj_insert [of n v "es_properties s"]
  by (auto simp: flat_schema_def add_property_def sorted_fields_obj_insert)

lemma map_of_insert_opt: "k \<noteq> k' \<Longrightarrow> map_of (insert_opt k v fs) k' = map_of fs k'"
  by (auto simp: insert_opt_def map_of_obj_insert split: option.splits)

lemma built_field_kind:
  "json_get KIND (build_string_field t f) = Some (JString t)"
  "json_get KIND (build_number_field t g) = Some (JString t)"
  "json_get KIND (build_boolean_field b) = Some (JString ''boolean'')"
  by (simp_all add: build_string_field_def build_number_field_def build_boolean_field_def map_of_insert_opt KIND_def)

lemma built_field_primitive:
  "t \<in> {''string'', ''number'', ''integer'', ''boolean''} \<Longrightarrow> primitive_field (build_string_field t f)"
  "t \<in> {''string'', ''number'', ''integer'', ''boolean''} \<Longrightarrow> primitive_field (build_number_field t g)"
  "primitive_field (build_boolean_field b)"
  using built_field_kind(1) [of t f] built_field_kind(2) [of t g] built_field_kind(3) [of b]
  unfolding primitive_field_def
  by (auto simp: build_string_field_def build_number_field_def build_boolean_field_def simp del: fold_simps)

lemma enumeration_primitive:
  "k \<noteq> KIND \<Longrightarrow> primitive_field (jobject [(KIND, JString ''string''), (k, v)])"
  "choices i \<Longrightarrow> primitive_field (jobject [(KIND, JString ''array''), (ITEMS, i)])"
  by (auto simp: primitive_field_def jobject_def KIND_def ITEMS_def)

lemma flat_annotate:
  assumes "flat_schema s" and "k \<noteq> KIND" and "k \<noteq> ITEMS"
  shows "flat_schema (annotate n k v s)"
proof (cases "map_of (es_properties s) n")
  case (Some p)
  then have "primitive_field p" using assms(1) by (auto simp: flat_schema_def dest: map_of_SomeD)
  then obtain fs where fs: "p = JObject fs" "primitive_field (JObject (obj_insert k v fs))"
    using assms(2,3) by (auto simp: primitive_field_def map_of_obj_insert)
  with Some flat_add_property [OF assms(1)] show ?thesis by (simp add: annotate_def)
qed (simp add: annotate_def assms)

lemma flat_require: "flat_schema s \<Longrightarrow> flat_schema (require n s)"
  by (auto simp: flat_schema_def require_def dest: map_of_SomeD intro: rev_image_eqI)

lemma choices_intros:
  "choices (jobject [(KIND, JString ''string''), (''enum'', JArray (map JString vs))])"
  "choices (jobject [(''anyOf'', JArray (map titled cs))])"
  by (auto simp: choices_def)

lemmas enumeration_fields = enumeration_primitive [unfolded KIND_def ITEMS_def] choices_intros [unfolded KIND_def]

lemma flat_step:
  assumes "flat_schema s" and "\<not> describes_kind c"
  shows "flat_schema (schema_step s c)"
proof (cases c)
  case (CallAnnotate n k v)
  with assms show ?thesis by (simp add: flat_annotate KIND_def ITEMS_def)
next
  case (CallRequired n)
  with assms show ?thesis by (simp add: flat_require)
qed (simp_all add: add_string_def add_number_def add_integer_def add_boolean_def add_enumeration_def
      add_titled_enumeration_def add_multi_enumeration_def add_titled_multi_enumeration_def
      flat_add_property [OF assms(1)] built_field_primitive enumeration_fields)

interpretation schema_builder: machine "\<lambda>s c. if describes_kind c then s else schema_step s c" flat_schema
  by unfold_locales (simp add: flat_step)

lemma built_flat: "list_all (\<lambda>c. \<not> describes_kind c) cs \<Longrightarrow> flat_schema (foldl schema_step new_schema cs)"
proof -
  assume *: "list_all (\<lambda>c. \<not> describes_kind c) cs"
  then have "foldl schema_step s cs = foldl (\<lambda>s c. if describes_kind c then s else schema_step s c) s cs" for s
    by (induction cs arbitrary: s) auto
  moreover have "flat_schema new_schema" by (simp add: flat_schema_def new_schema_def sorted_fields_def)
  ultimately show ?thesis using schema_builder.run_inv by metis
qed

text \<open>
  A form schema is well typed by construction: whatever is added to the builder, in whatever order
  and with whatever options, the schema is an object whose properties are strings, numbers,
  integers, booleans or choices between strings, and what it requires are some of its
  properties, each named once; an annotation may not say anew what a field is.
\<close>

theorem schema_flat_by_construction:
  assumes "list_all (\<lambda>c. \<not> describes_kind c) cs"
  shows "let v = build_schema (foldl schema_step new_schema cs) in
    json_get KIND v = Some (JString ''object'') \<and>
    (\<exists>props names. json_get ''properties'' v = Some (JObject props) \<and> sorted_fields props \<and>
       (\<forall>(k, p) \<in> set props. primitive_field p) \<and> distinct names \<and> set names \<subseteq> fst ` set props \<and>
       json_get ''required'' v = (if names = [] then None else Some (JArray (map JString names))))"
proof -
  let ?s = "foldl schema_step new_schema cs"
  have "flat_schema ?s" by (rule built_flat [OF assms])
  then show ?thesis
    unfolding Let_def flat_schema_def
    by (intro conjI exI [of _ "es_properties ?s"] exI [of _ "es_required ?s"])
       (auto simp: build_schema_def KIND_def jlist_def)
qed

theorem schema_flat_by_construction_witness:
  "\<exists>props. json_get ''properties'' (build_schema (foldl schema_step new_schema
      [CallString ''name'' (\<lambda>f. f\<lparr>sf_min_length := Some 1\<rparr>), CallRequired ''name'', CallRequired ''age''])) = Some (JObject props) \<and>
    (case props of [(k, p)] \<Rightarrow> k = ''name'' \<and> primitive_field p | _ \<Rightarrow> False)"
proof -
  let ?cs = "[CallString ''name'' (\<lambda>f. f\<lparr>sf_min_length := Some 1\<rparr>), CallRequired ''name'', CallRequired ''age'']"
  have "json_get ''properties'' (build_schema (foldl schema_step new_schema ?cs)) =
      Some (JObject [(''name'', build_string_field ''string'' (default_string_field\<lparr>sf_min_length := Some 1\<rparr>))])"
    by (simp add: build_schema_def new_schema_def add_string_def add_property_def require_def jlist_def)
  with schema_flat_by_construction [of ?cs] show ?thesis by (auto simp: Let_def)
qed

text \<open>An annotation can, though: the builder lets it make a field an object of its own.\<close>

lemma annotation_breaks_flatness:
  "\<not> flat_schema (foldl schema_step new_schema
     [CallString ''name'' (\<lambda>f. f), CallAnnotate ''name'' ''type'' (JString ''object'')])"
proof -
  have "map_of (es_properties (foldl schema_step new_schema
      [CallString ''name'' (\<lambda>f. f), CallAnnotate ''name'' ''type'' (JString ''object'')])) ''name'' =
    Some (JObject [(''type'', JString ''object'')])"
    by (simp add: new_schema_def add_string_def add_property_def annotate_def build_string_field_def
        default_string_field_def insert_opt_def)
  moreover have "\<not> primitive_field (JObject [(''type'', JString ''object'')])"
    by (simp add: primitive_field_def KIND_def)
  ultimately show ?thesis by (auto simp: flat_schema_def dest!: map_of_SomeD)
qed

end
