(* ===== verification/Sampling.thy ===== *)
theory Sampling
  imports Elicitation
begin

text \<open>
  Sampling (\<open>types/sampling.rs\<close>): the conversation a server hands to the client's model, its
  structural rules, and the model's answer. The content of a message is untagged on the wire, one
  block or several, and a block carries its variant in \<open>type\<close>; the deserializer that goes with it is
  written out. The properties: the validation accepts exactly the conversations the protocol allows,
  and a conversation survives the wire.
\<close>

section \<open>Blocks and messages\<close>

datatype sampling_content =
    SText string "annotations option"
  | SImage string string "annotations option"
  | SAudio string string "annotations option"
  | SToolUse string string json
  | SToolResult string "sampling_content list" bool

definition text_block :: "string \<Rightarrow> sampling_content" where
  "text_block s = SText s None"

definition tool_result :: "string \<Rightarrow> string \<Rightarrow> sampling_content" where
  "tool_result i s = SToolResult i [text_block s] False"

definition tool_error :: "string \<Rightarrow> string \<Rightarrow> sampling_content" where
  "tool_error i s = SToolResult i [text_block s] True"

fun is_tool_result :: "sampling_content \<Rightarrow> bool" where
  "is_tool_result (SToolResult _ _ _) = True"
| "is_tool_result _ = False"

fun block_text :: "sampling_content \<Rightarrow> string option" where
  "block_text (SText s _) = Some s"
| "block_text _ = None"

datatype sampling_body = One sampling_content | Many "sampling_content list"

fun body_blocks :: "sampling_body \<Rightarrow> sampling_content list" where
  "body_blocks (One c) = [c]"
| "body_blocks (Many cs) = cs"

record sampling_message =
  sm_role :: role
  sm_content :: sampling_body

definition blocks :: "sampling_message \<Rightarrow> sampling_content list" where
  "blocks m = body_blocks (sm_content m)"

definition user_message :: "sampling_body \<Rightarrow> sampling_message" where
  "user_message b = \<lparr>sm_role = User, sm_content = b\<rparr>"

definition assistant_message :: "sampling_body \<Rightarrow> sampling_message" where
  "assistant_message b = \<lparr>sm_role = Assistant, sm_content = b\<rparr>"

section \<open>The request\<close>

record sampling_tool =
  st_name :: string
  st_description :: "string option"
  st_input_schema :: json

datatype tool_choice = ChooseAuto | ChooseRequired | ChooseNone

record model_preferences =
  mp_hints :: "string list"
  mp_cost_priority :: "64 word option"
  mp_speed_priority :: "64 word option"
  mp_intelligence_priority :: "64 word option"

text \<open>\<open>f64::clamp(0.0, 1.0)\<close> on bit patterns: a NaN and a negative zero stay.\<close>

definition clamp_unit :: "64 word \<Rightarrow> 64 word" where
  "clamp_unit x =
     (if take_bit 11 (drop_bit 52 x) = mask 11 \<and> take_bit 52 x \<noteq> 0 then x
      else if bit x 63 then (if x = 2 ^ 63 then x else 0)
      else if 0x3FF0000000000000 < x then 0x3FF0000000000000 else x)"

definition with_cost_priority :: "64 word \<Rightarrow> model_preferences \<Rightarrow> model_preferences" where
  "with_cost_priority x p = p\<lparr>mp_cost_priority := Some (clamp_unit x)\<rparr>"

definition with_speed_priority :: "64 word \<Rightarrow> model_preferences \<Rightarrow> model_preferences" where
  "with_speed_priority x p = p\<lparr>mp_speed_priority := Some (clamp_unit x)\<rparr>"

definition with_intelligence_priority :: "64 word \<Rightarrow> model_preferences \<Rightarrow> model_preferences" where
  "with_intelligence_priority x p = p\<lparr>mp_intelligence_priority := Some (clamp_unit x)\<rparr>"

record create_message_params =
  cm_messages :: "sampling_message list"
  cm_max_tokens :: nat
  cm_system_prompt :: "string option"
  cm_model_preferences :: "model_preferences option"
  cm_temperature :: "64 word option"
  cm_stop_sequences :: "string list"
  cm_metadata :: "json option"
  cm_include_context :: "string option"
  cm_tools :: "sampling_tool list"
  cm_tool_choice :: "tool_choice option"
  cm_meta :: "meta option"

definition new_params :: "sampling_message list \<Rightarrow> nat \<Rightarrow> create_message_params" where
  "new_params ms n = \<lparr>cm_messages = ms, cm_max_tokens = n, cm_system_prompt = None, cm_model_preferences = None,
     cm_temperature = None, cm_stop_sequences = [], cm_metadata = None, cm_include_context = None, cm_tools = [],
     cm_tool_choice = None, cm_meta = None\<rparr>"

definition push_message :: "sampling_message \<Rightarrow> create_message_params \<Rightarrow> create_message_params" where
  "push_message m p = p\<lparr>cm_messages := cm_messages p @ [m]\<rparr>"

section \<open>Validation\<close>

definition tool_use_ids :: "sampling_message \<Rightarrow> string list" where
  "tool_use_ids m = List.map_filter (\<lambda>b. case b of SToolUse i _ _ \<Rightarrow> Some i | _ \<Rightarrow> None) (blocks m)"

definition tool_result_ids :: "sampling_message \<Rightarrow> string list" where
  "tool_result_ids m = List.map_filter (\<lambda>b. case b of SToolResult i _ _ \<Rightarrow> Some i | _ \<Rightarrow> None) (blocks m)"

text \<open>The first pass, over each message by itself.\<close>

definition check_shape :: "nat \<Rightarrow> sampling_message \<Rightarrow> string + unit" where
  "check_shape i m =
     (let results = length (filter is_tool_result (blocks m)) in
      if 0 < results \<and> results \<noteq> length (blocks m)
      then Inl (''message '' @ show_nat i @ '' mixes tool results with other content; '' @
             ''a message with tool results must contain only tool results'')
      else if 0 < results \<and> sm_role m \<noteq> User
      then Inl (''message '' @ show_nat i @ '' has tool results on a non-user role'')
      else if sm_role m \<noteq> Assistant \<and> list_ex (\<lambda>b. case b of SToolUse _ _ _ \<Rightarrow> True | _ \<Rightarrow> False) (blocks m)
      then Inl (''message '' @ show_nat i @ '' has tool uses on a non-assistant role'')
      else Inr ())"

fun check_shapes :: "nat \<Rightarrow> sampling_message list \<Rightarrow> string + unit" where
  "check_shapes i [] = Inr ()"
| "check_shapes i (m # ms) = and_then (check_shape i m) (\<lambda>_. check_shapes (Suc i) ms)"

text \<open>The second pass: what follows a message that makes tool calls.\<close>

definition check_uses :: "nat \<Rightarrow> string list \<Rightarrow> string list \<Rightarrow> string + unit" where
  "check_uses i uses answered =
     (case find (\<lambda>u. u \<notin> set answered) uses of
        Some u \<Rightarrow> Inl (''tool use `'' @ u @ ''` in message '' @ show_nat i @ '' has no matching tool result'')
      | None \<Rightarrow>
          (case find (\<lambda>a. a \<notin> set uses) answered of
             Some a \<Rightarrow> Inl (''tool result `'' @ a @ ''` in message '' @ show_nat (i + 1) @ '' answers no tool use'')
           | None \<Rightarrow> Inr ()))"

fun check_answers :: "nat \<Rightarrow> sampling_message list \<Rightarrow> string + unit" where
  "check_answers i [] = Inr ()"
| "check_answers i (m # ms) =
     (if tool_use_ids m = [] then check_answers (Suc i) ms
      else case ms of
        [] \<Rightarrow> Inl (''message '' @ show_nat i @ '' makes tool calls but no tool results follow'')
      | next # _ \<Rightarrow> and_then (check_uses i (tool_use_ids m) (tool_result_ids next)) (\<lambda>_. check_answers (Suc i) ms))"

definition validate_messages :: "create_message_params \<Rightarrow> string + unit" where
  "validate_messages p =
     (if cm_messages p = [] then Inl ''sampling request must contain at least one message''
      else and_then (check_shapes 0 (cm_messages p)) (\<lambda>_. check_answers 0 (cm_messages p)))"

section \<open>On the wire\<close>

fun sampling_content_to_value :: "sampling_content \<Rightarrow> json" where
  "sampling_content_to_value (SText s a) =
     jobject ([(''type'', JString ''text''), (''text'', JString s)] @ jopt ''annotations'' annotations_to_value a)"
| "sampling_content_to_value (SImage d mime a) =
     jobject ([(''type'', JString ''image''), (''data'', JString d), (''mimeType'', JString mime)] @
       jopt ''annotations'' annotations_to_value a)"
| "sampling_content_to_value (SAudio d mime a) =
     jobject ([(''type'', JString ''audio''), (''data'', JString d), (''mimeType'', JString mime)] @
       jopt ''annotations'' annotations_to_value a)"
| "sampling_content_to_value (SToolUse i n v) =
     jobject [(''type'', JString ''tool_use''), (''id'', JString i), (''name'', JString n), (''input'', v)]"
| "sampling_content_to_value (SToolResult i cs e) =
     jobject ([(''type'', JString ''tool_result''), (''toolUseId'', JString i),
       (''content'', JArray (map sampling_content_to_value cs))] @ jflag ''isError'' e)"

fun sampling_body_to_value :: "sampling_body \<Rightarrow> json" where
  "sampling_body_to_value (One c) = sampling_content_to_value c"
| "sampling_body_to_value (Many cs) = JArray (map sampling_content_to_value cs)"

definition sampling_message_to_value :: "sampling_message \<Rightarrow> json" where
  "sampling_message_to_value m =
     jobject [(''role'', role_to_value (sm_role m)), (''content'', sampling_body_to_value (sm_content m))]"

definition sampling_tool_to_value :: "sampling_tool \<Rightarrow> json" where
  "sampling_tool_to_value t =
     jobject ([(''name'', JString (st_name t))] @ jopt ''description'' JString (st_description t) @
       [(''inputSchema'', st_input_schema t)])"

fun tool_choice_to_value :: "tool_choice \<Rightarrow> json" where
  "tool_choice_to_value ChooseAuto = jobject [(''mode'', JString ''auto'')]"
| "tool_choice_to_value ChooseRequired = jobject [(''mode'', JString ''required'')]"
| "tool_choice_to_value ChooseNone = jobject [(''mode'', JString ''none'')]"

definition model_preferences_to_value :: "model_preferences \<Rightarrow> json" where
  "model_preferences_to_value p =
     jobject (jlist ''hints'' (\<lambda>n. jobject [(''name'', JString n)]) (mp_hints p) @
       jopt ''costPriority'' json_of_f64 (mp_cost_priority p) @ jopt ''speedPriority'' json_of_f64 (mp_speed_priority p) @
       jopt ''intelligencePriority'' json_of_f64 (mp_intelligence_priority p))"

definition create_message_params_to_value :: "create_message_params \<Rightarrow> json" where
  "create_message_params_to_value p =
     jobject ([(''messages'', JArray (map sampling_message_to_value (cm_messages p))),
       (''maxTokens'', jnat (cm_max_tokens p))] @
       jopt ''systemPrompt'' JString (cm_system_prompt p) @
       jopt ''modelPreferences'' model_preferences_to_value (cm_model_preferences p) @
       jopt ''temperature'' json_of_f64 (cm_temperature p) @ jlist ''stopSequences'' JString (cm_stop_sequences p) @
       opt_field ''metadata'' (cm_metadata p) @ jopt ''includeContext'' JString (cm_include_context p) @
       jlist ''tools'' sampling_tool_to_value (cm_tools p) @ jopt ''toolChoice'' tool_choice_to_value (cm_tool_choice p) @
       jopt ''_meta'' JObject (cm_meta p))"

section \<open>Reading an answer\<close>

text \<open>An integer read as \<open>f64\<close>: the nearest float, ties to even, as its bit pattern.\<close>

definition f64_of_nat :: "nat \<Rightarrow> nat" where
  "f64_of_nat n =
     (if n = 0 then 0
      else let e = length (takeWhile (\<lambda>k. 2 ^ Suc k \<le> n) [0..<64]) in
        if e \<le> 52 then (1023 + e) * 2 ^ 52 + (n * 2 ^ (52 - e) - 2 ^ 52)
        else let unit = 2 ^ (e - 52); q = n div unit; r = n mod unit;
                 q = (if unit < 2 * r \<or> unit = 2 * r \<and> odd q then q + 1 else q)
             in (1023 + e) * 2 ^ 52 + (q - 2 ^ 52))"

fun f64_of :: "json \<Rightarrow> de_error + 64 word" where
  "f64_of (JNumber (JFloat x)) = Inr x"
| "f64_of (JNumber (JInt n)) =
     Inr (if 0 \<le> n then word_of_nat (f64_of_nat (nat n)) else word_of_nat (2 ^ 63 + f64_of_nat (nat (- n))))"
| "f64_of _ = Inl (InvalidType ''f64'')"

definition role_of :: "bool \<Rightarrow> json \<Rightarrow> de_error + role" where
  "role_of lenient = enum_of lenient [(''user'', User), (''assistant'', Assistant)]"

definition annotations_of :: "json \<Rightarrow> de_error + annotations" where
  "annotations_of v =
     and_then (as_struct [''audience'', ''priority'', ''lastModified''] 3 v) (\<lambda>v.
     and_then (default_of (list_of (role_of True)) [] ''audience'' v) (\<lambda>audience.
     and_then (opt_of string_of ''lastModified'' v) (\<lambda>modified.
     and_then (opt_of f64_of ''priority'' v) (\<lambda>priority.
       Inr \<lparr>an_audience = audience, an_priority = priority, an_last_modified = modified\<rparr>))))"

text \<open>
  A block is tagged by its \<open>type\<close>, given by name or by number; an array has the tag first and then the
  fields. The results inside a block are left to be read.
\<close>

definition BLOCK_NAMES :: "string list" where
  "BLOCK_NAMES = [''text'', ''image'', ''audio'', ''tool_use'', ''tool_result'']"

fun block_tag :: "json \<Rightarrow> de_error + string" where
  "block_tag (JString s) = (if s \<in> set BLOCK_NAMES then Inr s else Inl (InvalidType s))"
| "block_tag (JNumber (JInt n)) = (if 0 \<le> n \<and> n < 5 then Inr (BLOCK_NAMES ! nat n) else Inl (InvalidType ''variant''))"
| "block_tag _ = Inl (InvalidType ''variant'')"

fun untag :: "json \<Rightarrow> de_error + string \<times> json" where
  "untag (JObject fs) =
     (case map_of fs ''type'' of
        None \<Rightarrow> Inl (MissingField ''type'')
      | Some t \<Rightarrow> map_ok (\<lambda>k. (k, JObject (filter (\<lambda>(k, _). k \<noteq> ''type'') fs))) (block_tag t))"
| "untag (JArray (t # xs)) = map_ok (\<lambda>k. (k, JArray xs)) (block_tag t)"
| "untag (JArray []) = Inl (MissingField ''type'')"
| "untag _ = Inl (InvalidType ''SamplingContent'')"

datatype opened = Whole sampling_content | Results string "json list" bool

fun array_of :: "json \<Rightarrow> de_error + json list" where
  "array_of (JArray xs) = Inr xs"
| "array_of _ = Inl (InvalidType ''sequence'')"

definition open_media :: "(string \<Rightarrow> string \<Rightarrow> annotations option \<Rightarrow> sampling_content) \<Rightarrow> json \<Rightarrow> de_error + opened" where
  "open_media block b =
     and_then (as_struct [''data'', ''mimeType'', ''annotations''] 2 b) (\<lambda>b.
     and_then (opt_of annotations_of ''annotations'' b) (\<lambda>a.
     and_then (field_of string_of ''data'' b) (\<lambda>d.
     and_then (field_of string_of ''mimeType'' b) (\<lambda>mime. Inr (Whole (block d mime a))))))"

definition open_text :: "json \<Rightarrow> de_error + opened" where
  "open_text b =
     and_then (as_struct [''text'', ''annotations''] 1 b) (\<lambda>b.
     and_then (opt_of annotations_of ''annotations'' b) (\<lambda>a.
     and_then (field_of string_of ''text'' b) (\<lambda>s. Inr (Whole (SText s a)))))"

definition open_tool_use :: "json \<Rightarrow> de_error + opened" where
  "open_tool_use b =
     and_then (as_struct [''id'', ''name'', ''input''] 3 b) (\<lambda>b.
     and_then (field_of string_of ''id'' b) (\<lambda>i.
     and_then (field_of Inr ''input'' b) (\<lambda>v.
     and_then (field_of string_of ''name'' b) (\<lambda>n. Inr (Whole (SToolUse i n v))))))"

definition open_tool_result :: "json \<Rightarrow> de_error + opened" where
  "open_tool_result b =
     and_then (as_struct [''toolUseId'', ''content'', ''isError''] 2 b) (\<lambda>b.
     and_then (field_of array_of ''content'' b) (\<lambda>xs.
     and_then (default_of bool_of False ''isError'' b) (\<lambda>e.
     and_then (field_of string_of ''toolUseId'' b) (\<lambda>i. Inr (Results i xs e)))))"

definition open_block :: "json \<Rightarrow> de_error + opened" where
  "open_block v =
     and_then (untag v) (\<lambda>(k, b).
       if k = ''text'' then open_text b
       else if k = ''image'' then open_media SImage b
       else if k = ''audio'' then open_media SAudio b
       else if k = ''tool_use'' then open_tool_use b
       else open_tool_result b)"

lemma map_ok_Inr_iff: "map_ok f r = Inr y \<longleftrightarrow> (\<exists>x. r = Inr x \<and> y = f x)"
  by (cases r) auto

lemma size_map_of: "map_of fs k = Some x \<Longrightarrow> size x < size (JObject fs)"
  by (induction fs) (auto split: if_splits)

lemma size_zip: "map_of (zip names xs) k = Some x \<Longrightarrow> size x \<le> size_list size xs"
proof (induction names xs rule: list_induct2')
  case (4 n names x xs)
  then show ?case by (auto split: if_splits)
qed auto

lemma size_filter: "size_list f (filter P xs) \<le> size_list f xs"
  by (induction xs) auto

lemma untag_size: "untag v = Inr (k, b) \<Longrightarrow> size b \<le> size v"
  by (induction v rule: untag.induct) (auto simp: map_ok_Inr_iff size_filter split: option.splits)

lemma as_struct_size: "as_struct names n b = Inr v \<Longrightarrow> json_get k v = Some x \<Longrightarrow> size x < size b"
  using size_map_of [of _ k x]
  by (auto simp: as_struct_def less_Suc_eq_le size_zip split: json.splits if_splits)

lemma open_block_size:
  assumes "open_block v = Inr (Results i xs e)"
  shows "size_list size xs < size v"
proof -
  obtain k b where u: "untag v = Inr (k, b)" "open_tool_result b = Inr (Results i xs e)"
    using assms by (auto simp: open_block_def open_text_def open_media_def open_tool_use_def and_then_Inr_iff split: if_splits)
  then obtain s where s: "as_struct [''toolUseId'', ''content'', ''isError''] 2 b = Inr s"
      "field_of array_of ''content'' s = Inr xs"
    by (auto simp: open_tool_result_def and_then_Inr_iff)
  then obtain x where "json_get ''content'' s = Some x" "array_of x = Inr xs"
    by (auto simp: field_of_def split: option.splits)
  then have "json_get ''content'' s = Some (JArray xs)" by (cases x) auto
  from as_struct_size [OF s(1) this] untag_size [OF u(1)] show ?thesis by simp
qed

function sampling_content_of :: "json \<Rightarrow> de_error + sampling_content"
  and sampling_contents_of :: "json list \<Rightarrow> de_error + sampling_content list" where
  "sampling_content_of v =
     (case open_block v of
        Inl e \<Rightarrow> Inl e
      | Inr (Whole c) \<Rightarrow> Inr c
      | Inr (Results i xs e) \<Rightarrow> map_ok (\<lambda>cs. SToolResult i cs e) (sampling_contents_of xs))"
| "sampling_contents_of [] = Inr []"
| "sampling_contents_of (v # vs) =
     (case sampling_content_of v of
        Inl e \<Rightarrow> Inl e
      | Inr c \<Rightarrow> map_ok (\<lambda>cs. c # cs) (sampling_contents_of vs))"
  by pat_completeness auto
termination
  by (relation "measure (case_sum (\<lambda>v. 2 * size v) (\<lambda>xs. 2 * size_list size xs + 1))")
     (auto dest: open_block_size)

declare sampling_content_of.simps [simp del]

definition sampling_body_of :: "json \<Rightarrow> de_error + sampling_body" where
  "sampling_body_of v =
     (case sampling_content_of v of
        Inr c \<Rightarrow> Inr (One c)
      | Inl _ \<Rightarrow>
          (case (case v of JArray xs \<Rightarrow> sampling_contents_of xs | _ \<Rightarrow> Inl (InvalidType ''sequence'')) of
             Inr cs \<Rightarrow> Inr (Many cs)
           | Inl _ \<Rightarrow> Inl (InvalidType ''SamplingBody'')))"

record create_message_result =
  ct_role :: role
  ct_content :: sampling_body
  ct_model :: string
  ct_stop_reason :: "string option"
  ct_meta :: "meta option"

definition create_message_result_of :: "json \<Rightarrow> de_error + create_message_result" where
  "create_message_result_of v =
     and_then (as_struct [''role'', ''content'', ''model'', ''stopReason'', ''_meta''] 5 v) (\<lambda>v.
     and_then (opt_of map_of_value ''_meta'' v) (\<lambda>metadata.
     and_then (field_of sampling_body_of ''content'' v) (\<lambda>body.
     and_then (field_of string_of ''model'' v) (\<lambda>model.
     and_then (field_of (role_of False) ''role'' v) (\<lambda>r.
     and_then (opt_of string_of ''stopReason'' v) (\<lambda>stop.
       Inr \<lparr>ct_role = r, ct_content = body, ct_model = model, ct_stop_reason = stop, ct_meta = metadata\<rparr>))))))"

definition result_text :: "create_message_result \<Rightarrow> string" where
  "result_text r = concat (List.map_filter block_text (body_blocks (ct_content r)))"

definition tool_uses :: "create_message_result \<Rightarrow> (string \<times> string \<times> json) list" where
  "tool_uses r = List.map_filter (\<lambda>b. case b of SToolUse i n v \<Rightarrow> Some (i, n, v) | _ \<Rightarrow> None) (body_blocks (ct_content r))"

definition wants_tools :: "create_message_result \<Rightarrow> bool" where
  "wants_tools r \<longleftrightarrow> tool_uses r \<noteq> []"

definition as_message :: "create_message_result \<Rightarrow> sampling_message" where
  "as_message r = \<lparr>sm_role = ct_role r, sm_content = ct_content r\<rparr>"

section \<open>The properties\<close>

text \<open>
  The conversations the check is meant for: results stand alone and are the user's, uses are the
  assistant's, and every turn with uses is answered by the next. Of results that answer no use of the
  turn before nothing more is asked.
\<close>

definition well_formed_turn :: "sampling_message \<Rightarrow> bool" where
  "well_formed_turn m \<longleftrightarrow>
     (tool_result_ids m \<noteq> [] \<longrightarrow> sm_role m = User \<and> list_all is_tool_result (blocks m)) \<and>
     (tool_use_ids m \<noteq> [] \<longrightarrow> sm_role m = Assistant)"

definition conversation :: "sampling_message list \<Rightarrow> bool" where
  "conversation ms \<longleftrightarrow> ms \<noteq> [] \<and> (\<forall>m \<in> set ms. well_formed_turn m) \<and>
     (\<forall>i < length ms. tool_use_ids (ms ! i) \<noteq> [] \<longrightarrow>
        Suc i < length ms \<and> set (tool_result_ids (ms ! Suc i)) = set (tool_use_ids (ms ! i)))"

lemma map_filter_none: "List.map_filter f xs = [] \<longleftrightarrow> (\<forall>x \<in> set xs. f x = None)"
  by (induction xs) (auto simp: List.map_filter_def split: if_splits)

lemma tool_result_ids_none: "tool_result_ids m = [] \<longleftrightarrow> (\<forall>b \<in> set (blocks m). \<not> is_tool_result b)"
  unfolding tool_result_ids_def map_filter_none by (auto split: sampling_content.splits elim!: is_tool_result.elims)

lemma tool_use_ids_none:
  "tool_use_ids m = [] \<longleftrightarrow> \<not> list_ex (\<lambda>b. case b of SToolUse _ _ _ \<Rightarrow> True | _ \<Rightarrow> False) (blocks m)"
  unfolding tool_use_ids_def map_filter_none list_ex_iff by (auto split: sampling_content.splits)

lemma filter_length_all: "length (filter P xs) = length xs \<longleftrightarrow> list_all P xs"
  by (metis filter_True filter_id_conv length_filter_less list_all_iff nat_neq_iff)

lemma check_shape_iff: "check_shape i m = Inr () \<longleftrightarrow> well_formed_turn m"
proof -
  have "0 < length (filter is_tool_result (blocks m)) \<longleftrightarrow> tool_result_ids m \<noteq> []"
    by (simp add: tool_result_ids_none filter_empty_conv)
  then show ?thesis
    by (auto simp: check_shape_def well_formed_turn_def Let_def filter_length_all tool_use_ids_none)
qed

lemma and_then_unit: "and_then r (\<lambda>_ :: unit. s) = Inr () \<longleftrightarrow> r = Inr () \<and> s = Inr ()"
  by (cases r) auto

lemma check_shapes_iff: "check_shapes i ms = Inr () \<longleftrightarrow> (\<forall>m \<in> set ms. well_formed_turn m)"
  by (induction i ms rule: check_shapes.induct) (simp_all add: and_then_unit check_shape_iff)

lemma check_uses_iff: "check_uses i us as = Inr () \<longleftrightarrow> set as = set us"
  by (auto simp: check_uses_def find_None_iff find_Some_iff split: option.splits)

definition followed :: "sampling_message list \<Rightarrow> nat \<Rightarrow> bool" where
  "followed ms j \<longleftrightarrow> (tool_use_ids (ms ! j) \<noteq> [] \<longrightarrow>
     Suc j < length ms \<and> set (tool_result_ids (ms ! Suc j)) = set (tool_use_ids (ms ! j)))"

lemma followed_Cons: "(\<forall>j < length (m # ms). followed (m # ms) j) \<longleftrightarrow> followed (m # ms) 0 \<and> (\<forall>j < length ms. followed ms j)"
  by (auto simp: followed_def less_Suc_eq_0_disj)

lemma followed_0: "followed (m # ms) 0 \<longleftrightarrow>
    tool_use_ids m = [] \<or> (case ms of [] \<Rightarrow> False | next # _ \<Rightarrow> set (tool_result_ids next) = set (tool_use_ids m))"
  by (auto simp: followed_def split: list.splits)

lemma check_answers_iff: "check_answers i ms = Inr () \<longleftrightarrow> (\<forall>j < length ms. followed ms j)"
proof (induction ms arbitrary: i)
  case (Cons m ms)
  have "check_answers i (m # ms) = Inr () \<longleftrightarrow> followed (m # ms) 0 \<and> check_answers (Suc i) ms = Inr ()"
    unfolding followed_0 check_answers.simps(2)
    by (cases "tool_use_ids m = []"; cases ms) (simp_all add: and_then_unit check_uses_iff del: check_answers.simps)
  then show ?case unfolding Cons followed_Cons .
qed simp

lemma sampling_check_ok: "validate_messages p = Inr () \<longleftrightarrow> conversation (cm_messages p)"
  by (auto simp: validate_messages_def conversation_def and_then_unit check_shapes_iff check_answers_iff followed_def)

text \<open>
  C35: The check of a sampling request is exact. It lets through a request if and only if there is a
  message; each message with tool results is the user's and holds nothing else; each with tool uses is
  the assistant's; and each with tool uses is followed by one whose results are for exactly those uses.
  It asks no more: results that answer no use of the turn before pass.
\<close>

theorem sampling_check_exact:
  "validate_messages p = Inr () \<longleftrightarrow> conversation (cm_messages p)"
  by (rule sampling_check_ok)

text \<open>A conversation may even open with results, which then answer nothing.\<close>

lemma orphan_results_pass: "conversation [user_message (One (tool_result ''id'' ''x''))]"
  by (simp add: conversation_def well_formed_turn_def user_message_def tool_result_def tool_use_ids_def blocks_def
      List.map_filter_def)


text \<open>The round trip: floats that JSON can express, in annotations at any depth.\<close>

definition finite_f64 :: "64 word \<Rightarrow> bool" where
  "finite_f64 x \<longleftrightarrow> take_bit 11 (drop_bit 52 x) \<noteq> mask 11"

fun plain_annotations :: "annotations option \<Rightarrow> bool" where
  "plain_annotations None = True"
| "plain_annotations (Some a) = (case an_priority a of None \<Rightarrow> True | Some x \<Rightarrow> finite_f64 x)"

fun plain_content :: "sampling_content \<Rightarrow> bool" where
  "plain_content (SText _ a) = plain_annotations a"
| "plain_content (SImage _ _ a) = plain_annotations a"
| "plain_content (SAudio _ _ a) = plain_annotations a"
| "plain_content (SToolUse _ _ _) = True"
| "plain_content (SToolResult _ cs _) = list_all plain_content cs"

lemma traverse_map: "(\<And>x. x \<in> set xs \<Longrightarrow> f (g x) = Inr x) \<Longrightarrow> traverse f (map g xs) = Inr xs"
  by (induction xs) auto

lemma as_struct_jobject [simp]: "as_struct names n (jobject kvs) = Inr (jobject kvs)"
  by (simp add: as_struct_def jobject_def)

lemma role_round_trip [simp]: "role_of l (role_to_value r) = Inr r"
  by (cases r) (simp_all add: role_of_def enum_of_def)

lemma roles_round_trip: "list_of (role_of l) (JArray (map role_to_value rs)) = Inr rs"
  by (simp add: traverse_map)

lemma json_of_finite: "finite_f64 x \<Longrightarrow> json_of_f64 x = JNumber (JFloat x)"
  by (simp add: finite_f64_def json_of_f64_def)

lemma annotations_round_trip:
  assumes "plain_annotations (Some a)"
  shows "annotations_of (annotations_to_value a) = Inr a"
proof -
  have get: "json_get ''audience'' (annotations_to_value a) =
        (if an_audience a = [] then None else Some (JArray (map role_to_value (an_audience a))))"
      "json_get ''priority'' (annotations_to_value a) = map_option json_of_f64 (an_priority a)"
      "json_get ''lastModified'' (annotations_to_value a) = map_option JString (an_last_modified a)"
    by (auto simp: annotations_to_value_def jlist_def jopt_def opt_field_def split: option.split)
  have struct: "as_struct names n (annotations_to_value a) = Inr (annotations_to_value a)" for names n
    by (simp add: annotations_to_value_def)
  have "default_of (list_of (role_of True)) [] ''audience'' (annotations_to_value a) = Inr (an_audience a)"
    using roles_round_trip by (simp add: default_of_def get)
  moreover have "opt_of f64_of ''priority'' (annotations_to_value a) = Inr (an_priority a)"
    using assms by (auto simp: opt_of_def get json_of_finite split: option.splits)
  moreover have "opt_of string_of ''lastModified'' (annotations_to_value a) = Inr (an_last_modified a)"
    by (auto simp: opt_of_def get split: option.splits)
  ultimately show ?thesis by (simp add: annotations_of_def struct)
qed

lemma untag_jobject:
  assumes "map_of (rev kvs) ''type'' = Some (JString k)" and "k \<in> set BLOCK_NAMES"
  shows "\<exists>b. untag (jobject kvs) = Inr (k, b) \<and> (\<forall>names n. as_struct names n b = Inr b) \<and>
    (\<forall>k'. k' \<noteq> ''type'' \<longrightarrow> json_get k' b = map_of (rev kvs) k')"
proof -
  obtain fs where fs: "jobject kvs = JObject fs" by (simp add: jobject_def)
  have get: "map_of fs k' = map_of (rev kvs) k'" for k'
    using json_get_jobject [of k' kvs] fs by simp
  have filt: "map_of (filter (\<lambda>(k, _). k \<noteq> ''type'') xs) k' = map_of xs k'" if "k' \<noteq> ''type''"
    for k' and xs :: "(string \<times> json) list"
    using that by (induction xs) auto
  show ?thesis
    using assms by (intro exI [of _ "JObject (filter (\<lambda>(k, _). k \<noteq> ''type'') fs)"])
      (simp add: fs get filt as_struct_def)
qed

lemma annotations_field_read:
  assumes "json_get ''annotations'' b = map_option annotations_to_value a" and "plain_annotations a"
  shows "opt_of annotations_of ''annotations'' b = Inr a"
proof (cases a)
  case (Some x)
  obtain fs where "annotations_to_value x = JObject fs" by (simp add: annotations_to_value_def jobject_def)
  with assms Some annotations_round_trip [of x] show ?thesis by (simp add: opt_of_def)
qed (use assms in \<open>simp add: opt_of_def\<close>)

lemma untag_annotated:
  assumes "map_of (rev kvs) ''type'' = Some (JString k)" and "k \<in> set BLOCK_NAMES"
    and "map_of (rev kvs) ''annotations'' = None" and "plain_annotations a"
  shows "\<exists>b. untag (jobject (kvs @ jopt ''annotations'' annotations_to_value a)) = Inr (k, b) \<and>
    (\<forall>names n. as_struct names n b = Inr b) \<and> opt_of annotations_of ''annotations'' b = Inr a \<and>
    (\<forall>k'. k' \<noteq> ''type'' \<longrightarrow> k' \<noteq> ''annotations'' \<longrightarrow> json_get k' b = map_of (rev kvs) k')"
proof -
  let ?kvs = "kvs @ jopt ''annotations'' annotations_to_value a"
  have get: "map_of (rev ?kvs) k =
      (if k = ''annotations'' then map_option annotations_to_value a else map_of (rev kvs) k)" for k
    using assms(3) by (cases a) (auto simp: jopt_def)
  have "map_of (rev ?kvs) ''type'' = Some (JString k)" unfolding get using assms(1) by simp
  from untag_jobject [OF this assms(2)] obtain b where b: "untag (jobject ?kvs) = Inr (k, b)"
      "\<And>names n. as_struct names n b = Inr b" "\<And>k'. k' \<noteq> ''type'' \<Longrightarrow> json_get k' b = map_of (rev ?kvs) k'"
    by blast
  have "json_get ''annotations'' b = map_option annotations_to_value a"
    using b(3) [of "''annotations''"] unfolding get by simp
  then have "opt_of annotations_of ''annotations'' b = Inr a" by (rule annotations_field_read [OF _ assms(4)])
  moreover have "json_get k' b = map_of (rev kvs) k'" if "k' \<noteq> ''type''" "k' \<noteq> ''annotations''" for k'
    using b(3) [of k'] that unfolding get by simp
  ultimately show ?thesis using b(1,2) by (intro exI [of _ b] conjI allI impI)
qed

lemmas block_reads = open_block_def open_text_def open_media_def open_tool_use_def open_tool_result_def
  field_of_def default_of_def

lemma open_text_round_trip:
  assumes "plain_annotations a"
  shows "open_block (sampling_content_to_value (SText t a)) = Inr (Whole (SText t a))"
  using untag_annotated [of "[(''type'', JString ''text''), (''text'', JString t)]" "''text''" a] assms
  by (auto simp: block_reads BLOCK_NAMES_def)

lemma open_media_round_trip:
  assumes "plain_annotations a"
  shows "open_block (sampling_content_to_value (SImage d mime a)) = Inr (Whole (SImage d mime a))"
    and "open_block (sampling_content_to_value (SAudio d mime a)) = Inr (Whole (SAudio d mime a))"
  using untag_annotated [of "[(''type'', JString ''image''), (''data'', JString d), (''mimeType'', JString mime)]" "''image''" a]
    untag_annotated [of "[(''type'', JString ''audio''), (''data'', JString d), (''mimeType'', JString mime)]" "''audio''" a] assms
  by (auto simp: block_reads BLOCK_NAMES_def)

lemma open_tool_round_trip:
  "open_block (sampling_content_to_value (SToolUse i n v)) = Inr (Whole (SToolUse i n v))"
  "open_block (sampling_content_to_value (SToolResult i cs e)) = Inr (Results i (map sampling_content_to_value cs) e)"
  using untag_jobject [of "[(''type'', JString ''tool_use''), (''id'', JString i), (''name'', JString n), (''input'', v)]"
      "''tool_use''"]
    untag_jobject [of "[(''type'', JString ''tool_result''), (''toolUseId'', JString i),
       (''content'', JArray (map sampling_content_to_value cs))] @ jflag ''isError'' e" "''tool_result''"]
  by (auto simp: block_reads BLOCK_NAMES_def jflag_def)

lemmas open_block_round_trip = open_text_round_trip open_media_round_trip open_tool_round_trip

lemma contents_round_trip:
  "(\<And>c. c \<in> set cs \<Longrightarrow> sampling_content_of (sampling_content_to_value c) = Inr c) \<Longrightarrow>
     sampling_contents_of (map sampling_content_to_value cs) = Inr cs"
  by (induction cs) auto

lemma content_round_trip: "plain_content c \<Longrightarrow> sampling_content_of (sampling_content_to_value c) = Inr c"
proof (induction c)
  case (SToolResult i cs e)
  then have "sampling_contents_of (map sampling_content_to_value cs) = Inr cs"
    by (intro contents_round_trip) (auto simp: list_all_iff)
  then show ?case
    by (simp add: sampling_content_of.simps [of "sampling_content_to_value (SToolResult i cs e)"] open_block_round_trip
        del: sampling_content_to_value.simps)
qed (simp_all add: sampling_content_of.simps [of "sampling_content_to_value _"] open_block_round_trip
    del: sampling_content_to_value.simps)


lemma block_is_object: "\<exists>fs. sampling_content_to_value c = JObject fs"
  by (cases c) (simp_all add: jobject_def)

lemma blocks_not_one: "\<exists>e. sampling_content_of (JArray (map sampling_content_to_value cs)) = Inl e"
proof (cases cs)
  case (Cons c cs')
  with block_is_object [of c] show ?thesis by (auto simp: sampling_content_of.simps [of "JArray _"] open_block_def)
qed (simp add: sampling_content_of.simps [of "JArray _"] open_block_def)

text \<open>
  What the model said can be said back to it. A message body made of any blocks, one or several,
  tool results within tool results included, is read back from its JSON exactly as it was, one
  block as one block and several as several, as long as its annotations hold numbers that JSON can
  express.
\<close>

theorem sampling_body_round_trip:
  assumes "list_all plain_content (body_blocks b)"
  shows "sampling_body_of (sampling_body_to_value b) = Inr b"
proof (cases b)
  case (One c)
  with assms content_round_trip [of c] show ?thesis by (simp add: sampling_body_of_def)
next
  case (Many cs)
  obtain e where "sampling_content_of (JArray (map sampling_content_to_value cs)) = Inl e" using blocks_not_one by blast
  moreover have "sampling_contents_of (map sampling_content_to_value cs) = Inr cs"
    using assms Many by (intro contents_round_trip content_round_trip) (auto simp: list_all_iff)
  ultimately show ?thesis using Many by (simp add: sampling_body_of_def)
qed

theorem sampling_body_round_trip_witness:
  "sampling_body_of (sampling_body_to_value (Many [tool_error ''t'' ''no'', SText ''x''
     (Some \<lparr>an_audience = [User], an_priority = Some 0, an_last_modified = None\<rparr>)])) =
   Inr (Many [tool_error ''t'' ''no'', SText ''x'' (Some \<lparr>an_audience = [User], an_priority = Some 0, an_last_modified = None\<rparr>)])"
  by (rule sampling_body_round_trip) (simp add: tool_error_def text_block_def finite_f64_def)

end
