(* ===== verification/Client_Requests.thy ===== *)
theory Client_Requests
  imports ToolEnv Sampling
begin

text \<open>
  What a tool may ask of the client (\<open>ToolEnv\<close> in \<open>server.rs\<close>): input from the user, the roots, a
  completion of its model. Each is a call into the environment that goes on with the answer, so a
  tool made of them is a tool of \<open>ToolEnv\<close>; the deserializer's wording is the parameter \<open>render\<close>.
  The property: a tool that asks through these never asks for what the client did not declare. A tool
  may also send a request of its own making (\<open>Ask\<close> of \<open>ToolEnv\<close>), which nothing checks.
\<close>

definition decoded :: "(de_error \<Rightarrow> string) \<Rightarrow> (json \<Rightarrow> de_error + 'a) \<Rightarrow> json result \<Rightarrow> 'a result" where
  "decoded render decode r =
     (case r of
        Inl e \<Rightarrow> Inl e
      | Inr v \<Rightarrow> (case decode v of Inl e \<Rightarrow> Inl (Json (render e)) | Inr x \<Rightarrow> Inr x))"

fun mode_name :: "elicitation_mode \<Rightarrow> string" where
  "mode_name Form = ''Form''"
| "mode_name Url = ''Url''"

definition elicit :: "(de_error \<Rightarrow> string) \<Rightarrow> tool_env \<Rightarrow> elicit_params \<Rightarrow> (elicit_result result \<Rightarrow> 'c tool_run) \<Rightarrow>
    'c tool_run" where
  "elicit render env p k =
     (if \<not> supports_elicitation (te_client_capabilities env) (resolved_mode p)
      then k (Inl (Internal (''client did not declare support for '' @ mode_name (resolved_mode p) @ '' mode elicitation'')))
      else case validate_elicitation p of
        Inl e \<Rightarrow> k (Inl (InvalidParams e))
      | Inr _ \<Rightarrow> Ask ''elicitation/create'' (elicit_params_to_value p) (te_request_timeout env)
          (\<lambda>r. k (decoded render elicit_result_of r)))"

definition elicit_form :: "(de_error \<Rightarrow> string) \<Rightarrow> tool_env \<Rightarrow> string \<Rightarrow> json \<Rightarrow> (elicit_result result \<Rightarrow> 'c tool_run) \<Rightarrow>
    'c tool_run" where
  "elicit_form render env m schema k = elicit render env (form_params m schema) k"

definition elicit_url :: "(de_error \<Rightarrow> string) \<Rightarrow> tool_env \<Rightarrow> string \<Rightarrow> string \<Rightarrow> string \<Rightarrow>
    (elicit_result result \<Rightarrow> 'c tool_run) \<Rightarrow> 'c tool_run" where
  "elicit_url render env m url i k = elicit render env (url_params m url i) k"

definition notify_elicitation_complete :: "string \<Rightarrow> (unit result \<Rightarrow> 'c tool_run) \<Rightarrow> 'c tool_run" where
  "notify_elicitation_complete i k =
     Notify ''notifications/elicitation/complete'' (Some (jobject [(''elicitationId'', JString i)])) k"

record root =
  ro_uri :: string
  ro_name :: "string option"
  ro_meta :: "meta option"

definition root_of :: "json \<Rightarrow> de_error + root" where
  "root_of v =
     and_then (as_struct [''uri'', ''name'', ''_meta''] 3 v) (\<lambda>v.
     and_then (opt_of map_of_value ''_meta'' v) (\<lambda>metadata.
     and_then (opt_of string_of ''name'' v) (\<lambda>name.
     and_then (field_of string_of ''uri'' v) (\<lambda>uri.
       Inr \<lparr>ro_uri = uri, ro_name = name, ro_meta = metadata\<rparr>))))"

definition list_roots_result_of :: "json \<Rightarrow> de_error + root list" where
  "list_roots_result_of v = and_then (as_struct [''roots''] 1 v) (field_of (list_of root_of) ''roots'')"

definition list_roots :: "(de_error \<Rightarrow> string) \<Rightarrow> tool_env \<Rightarrow> (root list result \<Rightarrow> 'c tool_run) \<Rightarrow> 'c tool_run" where
  "list_roots render env k =
     (if \<not> supports_roots (te_client_capabilities env)
      then k (Inl (Internal ''client did not declare support for roots''))
      else Ask ''roots/list'' (jobject []) (te_request_timeout env) (\<lambda>r. k (decoded render list_roots_result_of r)))"

definition create_message :: "(de_error \<Rightarrow> string) \<Rightarrow> tool_env \<Rightarrow> create_message_params \<Rightarrow>
    (create_message_result result \<Rightarrow> 'c tool_run) \<Rightarrow> 'c tool_run" where
  "create_message render env p k =
     (let caps = te_client_capabilities env in
      if \<not> supports_sampling caps then k (Inl (Internal ''client did not declare support for sampling''))
      else if cm_tools p \<noteq> [] \<and> \<not> supports_sampling_tools caps
      then k (Inl (Internal (''client did not declare `sampling.tools`, so tool-enabled sampling '' @
             ''requests must not be sent to it'')))
      else if (case cm_include_context p of None \<Rightarrow> False | Some c \<Rightarrow> c \<noteq> ''none'') \<and>
         \<not> (case cc_sampling caps of None \<Rightarrow> False | Some s \<Rightarrow> supports_context s)
      then k (Inl (Internal (''client did not declare `sampling.context`, so `includeContext` must '' @
             ''be omitted or '' @ [CHR 0x22] @ ''none'' @ [CHR 0x22])))
      else case validate_messages p of
        Inl e \<Rightarrow> k (Inl (InvalidParams e))
      | Inr _ \<Rightarrow> Ask ''sampling/createMessage'' (create_message_params_to_value p) (te_request_timeout env)
          (\<lambda>r. k (decoded render create_message_result_of r)))"

section \<open>Only what was declared\<close>

text \<open>The requests a tool may come to make, whatever answers it gets.\<close>

inductive may_ask :: "'c tool_run \<Rightarrow> string \<Rightarrow> json \<Rightarrow> bool" where
  now_asked: "may_ask (Ask m v t k) m v"
| asked_later: "may_ask (k r) m v \<Longrightarrow> may_ask (Ask m' v' t k) m v"
| after_notice: "may_ask (k r) m v \<Longrightarrow> may_ask (Notify m' p k) m v"
| after_log: "may_ask k m v \<Longrightarrow> may_ask (LogData l n p k) m v"
| after_poll: "may_ask (f b) m v \<Longrightarrow> may_ask (PollCancelled f) m v"

inductive_cases may_ask_AskE: "may_ask (Ask m' v' t k) m v"

text \<open>
  What the capabilities of a client let a server ask of it, read off the request. A \<open>toolChoice\<close> is not
  looked at.
\<close>

definition elicitation_allowed :: "elicitation_capability \<Rightarrow> json \<Rightarrow> bool" where
  "elicitation_allowed e v \<longleftrightarrow>
     (if json_get ''mode'' v = Some (JString ''url'')
      then el_url e \<noteq> None \<and> (\<exists>u. json_get ''url'' v = Some (JString u)) \<and>
        (\<exists>i. json_get ''elicitationId'' v = Some (JString i)) \<and> json_get ''requestedSchema'' v = None
      else (el_form e \<noteq> None \<or> el_url e = None) \<and> json_get ''requestedSchema'' v \<noteq> None \<and> json_get ''url'' v = None)"

definition sampling_allowed :: "sampling_capability \<Rightarrow> json \<Rightarrow> bool" where
  "sampling_allowed s v \<longleftrightarrow>
     (json_get ''tools'' v \<noteq> None \<longrightarrow> sa_tools s \<noteq> None) \<and>
     (json_get ''includeContext'' v \<notin> {None, Some (JString ''none'')} \<longrightarrow> sa_context s \<noteq> None) \<and>
     (\<exists>ms. json_get ''messages'' v = Some (JArray (map sampling_message_to_value ms)) \<and> conversation ms)"

definition permitted_request :: "client_capabilities \<Rightarrow> string \<Rightarrow> json \<Rightarrow> bool" where
  "permitted_request caps m v \<longleftrightarrow>
     m = ''elicitation/create'' \<and> (\<exists>e. cc_elicitation caps = Some e \<and> elicitation_allowed e v) \<or>
     m = ''roots/list'' \<and> cc_roots caps \<noteq> None \<or>
     m = ''sampling/createMessage'' \<and> (\<exists>s. cc_sampling caps = Some s \<and> sampling_allowed s v)"

lemma elicitation_params_fields:
  "json_get ''mode'' (elicit_params_to_value p) = map_option elicitation_mode_to_value (ep_mode p)"
  "json_get ''url'' (elicit_params_to_value p) = map_option JString (ep_url p)"
  "json_get ''elicitationId'' (elicit_params_to_value p) = map_option JString (ep_elicitation_id p)"
  "json_get ''requestedSchema'' (elicit_params_to_value p) = ep_requested_schema p"
  by (auto simp: elicit_params_to_value_def jopt_def opt_field_def split: option.split)

lemma validated_elicitation:
  assumes "validate_elicitation p = Inr ()" and "supports_elicitation caps (resolved_mode p)"
  shows "permitted_request caps ''elicitation/create'' (elicit_params_to_value p)"
proof -
  obtain e where e: "cc_elicitation caps = Some e" "supports_mode e (resolved_mode p)"
    using assms(2) by (auto simp: supports_elicitation_def split: option.splits)
  have "elicitation_allowed e (elicit_params_to_value p)"
  proof (cases "resolved_mode p")
    case Form
    then have "map_option elicitation_mode_to_value (ep_mode p) \<noteq> Some (JString ''url'')"
      by (auto simp: resolved_mode_def split: option.splits)
    with Form assms(1) e(2) show ?thesis
      by (auto simp: elicitation_allowed_def elicitation_params_fields validate_elicitation_def split: if_splits)
  next
    case Url
    then have "ep_mode p = Some Url" by (auto simp: resolved_mode_def split: option.splits)
    with Url assms(1) e(2) show ?thesis
      by (auto simp: elicitation_allowed_def elicitation_params_fields validate_elicitation_def split: if_splits option.splits)
  qed
  with e(1) show ?thesis by (simp add: permitted_request_def)
qed

lemma message_params_fields:
  "json_get ''messages'' (create_message_params_to_value p) = Some (JArray (map sampling_message_to_value (cm_messages p)))"
  "json_get ''tools'' (create_message_params_to_value p) =
     (if cm_tools p = [] then None else Some (JArray (map sampling_tool_to_value (cm_tools p))))"
  "json_get ''includeContext'' (create_message_params_to_value p) = map_option JString (cm_include_context p)"
  by (simp_all add: create_message_params_to_value_def jopt_def jlist_def opt_field_def map_add_def split: option.split)

lemma elicit_asks:
  assumes "may_ask (elicit render env p k) m v"
  shows "permitted_request (te_client_capabilities env) m v \<or> (\<exists>r. may_ask (k r) m v)"
  using assms validated_elicitation
  by (auto simp: elicit_def split: if_splits sum.splits elim!: may_ask_AskE)

lemma list_roots_asks:
  assumes "may_ask (list_roots render env k) m v"
  shows "permitted_request (te_client_capabilities env) m v \<or> (\<exists>r. may_ask (k r) m v)"
  using assms
  by (auto simp: list_roots_def permitted_request_def supports_roots_def split: if_splits elim!: may_ask_AskE)

lemma create_message_asks:
  assumes "may_ask (create_message render env p k) m v"
  shows "permitted_request (te_client_capabilities env) m v \<or> (\<exists>r. may_ask (k r) m v)"
proof (cases "\<exists>r. may_ask (k r) m v")
  case False
  let ?caps = "te_client_capabilities env"
  have sent: "m = ''sampling/createMessage''" "v = create_message_params_to_value p" "validate_messages p = Inr ()"
      "supports_sampling ?caps" "cm_tools p \<noteq> [] \<longrightarrow> supports_sampling_tools ?caps"
      "(case cm_include_context p of None \<Rightarrow> False | Some c \<Rightarrow> c \<noteq> ''none'') \<longrightarrow>
        (case cc_sampling ?caps of None \<Rightarrow> False | Some s \<Rightarrow> supports_context s)"
    using assms False by (auto simp: create_message_def Let_def split: if_splits sum.splits elim!: may_ask_AskE)
  obtain s where s: "cc_sampling ?caps = Some s" using sent(4) by (auto simp: supports_sampling_def)
  have "sampling_allowed s v"
    using sent(3,5,6) s unfolding sent(2) sampling_allowed_def message_params_fields sampling_check_ok
    by (auto simp: supports_sampling_tools_def supports_context_def split: option.splits)
  with s sent(1) show ?thesis by (simp add: permitted_request_def)
qed simp

text \<open>
  The tools that ask the client only through \<open>elicit\<close> (and \<open>elicit_form\<close> and \<open>elicit_url\<close>, which are made of
  it), \<open>list_roots\<close> and \<open>create_message\<close>, and otherwise notify, log, look whether they were cancelled and
  end, going on in any way with every answer.
\<close>

inductive through_helpers :: "(de_error \<Rightarrow> string) \<Rightarrow> tool_env \<Rightarrow> 'c tool_run \<Rightarrow> bool" for render env where
  ends_well: "through_helpers render env (ToolReturns r c)"
| ends_badly: "through_helpers render env (ToolPanics p c)"
| notifies: "(\<And>r. through_helpers render env (k r)) \<Longrightarrow> through_helpers render env (Notify m p k)"
| logs: "through_helpers render env t \<Longrightarrow> through_helpers render env (LogData l n p t)"
| looks: "(\<And>b. through_helpers render env (f b)) \<Longrightarrow> through_helpers render env (PollCancelled f)"
| elicits: "(\<And>r. through_helpers render env (k r)) \<Longrightarrow> through_helpers render env (elicit render env p k)"
| lists_roots: "(\<And>r. through_helpers render env (k r)) \<Longrightarrow> through_helpers render env (list_roots render env k)"
| samples: "(\<And>r. through_helpers render env (k r)) \<Longrightarrow> through_helpers render env (create_message render env p k)"

inductive_cases may_ask_plainE [elim!]:
  "may_ask (ToolReturns r c) m v" "may_ask (ToolPanics p c) m v" "may_ask (Notify m' p k) m v"
  "may_ask (LogData l n p t) m v" "may_ask (PollCancelled f) m v"

text \<open>
  C24: What is asked through the helpers is what was declared. Take a tool that asks the client only
  through \<open>elicit\<close>, \<open>list_roots\<close> and \<open>create_message\<close>. Whatever it is answered and however it goes on, each
  request it comes to make is one the client's capabilities cover: a form to a client that takes forms,
  a URL with its id and nothing else to one that takes URLs, the roots of a client that has some, a
  completion of a client that samples, with tools and context only where they were declared and with
  the messages in the shape \<open>conversation\<close> describes.
\<close>

theorem only_declared_is_asked:
  assumes "through_helpers render env tool" and "may_ask tool m v"
  shows "permitted_request (te_client_capabilities env) m v"
  using assms
proof (induction rule: through_helpers.induct)
  case (elicits k p)
  with elicit_asks [of render env p k m v] show ?case by blast
next
  case (lists_roots k)
  with list_roots_asks [of render env k m v] show ?case by blast
next
  case (samples k p)
  with create_message_asks [of render env p k m v] show ?case by blast
qed auto

theorem only_declared_is_asked_witness:
  "permitted_request (te_client_capabilities (sample_env\<lparr>te_client_capabilities :=
      no_capabilities\<lparr>cc_elicitation := Some \<lparr>el_form = None, el_url = None\<rparr>\<rparr>\<rparr>))
     ''elicitation/create'' (elicit_params_to_value (form_params ''name?'' (build_schema new_schema)))"
proof -
  let ?env = "sample_env\<lparr>te_client_capabilities :=
      no_capabilities\<lparr>cc_elicitation := Some \<lparr>el_form = None, el_url = None\<rparr>\<rparr>\<rparr>"
  let ?p = "form_params ''name?'' (build_schema new_schema)"
  let ?k = "\<lambda>_. ToolReturns (Inr (error_result ''done'')) ()"
  have "trim ''name?'' = ''name?''" by code_simp
  then have "elicit (\<lambda>_. []) ?env ?p ?k = Ask ''elicitation/create'' (elicit_params_to_value ?p)
      (te_request_timeout ?env) (\<lambda>r. ?k (decoded (\<lambda>_. []) elicit_result_of r))"
    by (simp add: elicit_def form_params_def resolved_mode_def supports_elicitation_def validate_elicitation_def)
  then have "may_ask (elicit (\<lambda>_. []) ?env ?p ?k) ''elicitation/create'' (elicit_params_to_value ?p)"
    by (simp add: now_asked)
  moreover have "through_helpers (\<lambda>_. []) ?env (elicit (\<lambda>_. []) ?env ?p ?k)"
    by (intro elicits ends_well)
  ultimately show ?thesis
    using only_declared_is_asked [of "\<lambda>_. []" ?env "elicit (\<lambda>_. []) ?env ?p ?k"] by blast
qed

text \<open>A \<open>toolChoice\<close> goes out to a client that never declared \<open>sampling.tools\<close>.\<close>

lemma tool_choice_unchecked:
  assumes "te_client_capabilities env = no_capabilities\<lparr>cc_sampling := Some \<lparr>sa_tools = None, sa_context = None\<rparr>\<rparr>"
    and "validate_messages p = Inr ()" and "cm_tools p = []" and "cm_include_context p = None"
  shows "create_message render env (p\<lparr>cm_tool_choice := Some c\<rparr>) k =
      Ask ''sampling/createMessage'' (create_message_params_to_value (p\<lparr>cm_tool_choice := Some c\<rparr>)) (te_request_timeout env)
        (\<lambda>r. k (decoded render create_message_result_of r))"
    and "json_get ''toolChoice'' (create_message_params_to_value (p\<lparr>cm_tool_choice := Some c\<rparr>)) = Some (tool_choice_to_value c)"
proof -
  have "validate_messages (p\<lparr>cm_tool_choice := Some c\<rparr>) = Inr ()" using assms(2) by (simp add: sampling_check_ok)
  then show "create_message render env (p\<lparr>cm_tool_choice := Some c\<rparr>) k =
      Ask ''sampling/createMessage'' (create_message_params_to_value (p\<lparr>cm_tool_choice := Some c\<rparr>)) (te_request_timeout env)
        (\<lambda>r. k (decoded render create_message_result_of r))"
    by (simp add: create_message_def supports_sampling_def assms(1,3,4))
  show "json_get ''toolChoice'' (create_message_params_to_value (p\<lparr>cm_tool_choice := Some c\<rparr>)) = Some (tool_choice_to_value c)"
    by (simp add: create_message_params_to_value_def jopt_def jlist_def opt_field_def map_add_def split: option.split)
qed

end
