(* ===== verification/Builders.thy ===== *)
theory Builders
  imports Sampling
begin

text \<open>
  The constructors and the builder methods by which an author puts values of the protocol together
  (\<open>types/protocol.rs\<close>, \<open>types/sampling.rs\<close>, the options of \<open>types/elicitation.rs\<close>). The lemmas: what they keep of a
  value, that priorities end up on the protocol's scale, when a value is left off the wire, and that
  structured results carry their text.
\<close>

section \<open>Icons, annotations and implementations\<close>

definition new_icon :: "string \<Rightarrow> icon" where
  "new_icon src = \<lparr>ic_src = src, ic_mime_type = None, ic_sizes = [], ic_theme = None\<rparr>"

definition icon_mime_type :: "string \<Rightarrow> icon \<Rightarrow> icon" where
  "icon_mime_type m i = i\<lparr>ic_mime_type := Some m\<rparr>"

definition icon_sizes :: "string list \<Rightarrow> icon \<Rightarrow> icon" where
  "icon_sizes ss i = i\<lparr>ic_sizes := ss\<rparr>"

definition icon_theme :: "string \<Rightarrow> icon \<Rightarrow> icon" where
  "icon_theme t i = i\<lparr>ic_theme := Some t\<rparr>"

definition for_audience :: "role list \<Rightarrow> annotations" where
  "for_audience who = \<lparr>an_audience = who, an_priority = None, an_last_modified = None\<rparr>"

definition with_priority :: "64 word \<Rightarrow> annotations \<Rightarrow> annotations" where
  "with_priority x a = a\<lparr>an_priority := Some (clamp_unit x)\<rparr>"

definition with_last_modified :: "string \<Rightarrow> annotations \<Rightarrow> annotations" where
  "with_last_modified t a = a\<lparr>an_last_modified := Some t\<rparr>"

definition annotations_empty :: "annotations \<Rightarrow> bool" where
  "annotations_empty a \<longleftrightarrow> an_audience a = [] \<and> an_priority a = None \<and> an_last_modified a = None"

definition new_implementation :: "string \<Rightarrow> string \<Rightarrow> implementation" where
  "new_implementation name version = default_implementation\<lparr>im_name := name, im_version := version\<rparr>"

section \<open>Hints about tools\<close>

definition no_hints :: tool_annotations where
  "no_hints = \<lparr>ta_title = None, ta_read_only_hint = False, ta_idempotent_hint = False, ta_destructive_hint = False,
     ta_open_world_hint = None\<rparr>"

definition read_only :: tool_annotations where
  "read_only = no_hints\<lparr>ta_read_only_hint := True\<rparr>"

definition idempotent :: tool_annotations where
  "idempotent = no_hints\<lparr>ta_idempotent_hint := True\<rparr>"

definition destructive :: tool_annotations where
  "destructive = no_hints\<lparr>ta_destructive_hint := True\<rparr>"

definition idempotent_destructive :: tool_annotations where
  "idempotent_destructive = no_hints\<lparr>ta_idempotent_hint := True, ta_destructive_hint := True\<rparr>"

definition with_title :: "string \<Rightarrow> tool_annotations \<Rightarrow> tool_annotations" where
  "with_title t a = a\<lparr>ta_title := Some t\<rparr>"

definition with_open_world :: "bool \<Rightarrow> tool_annotations \<Rightarrow> tool_annotations" where
  "with_open_world b a = a\<lparr>ta_open_world_hint := Some b\<rparr>"

definition hints_empty :: "tool_annotations \<Rightarrow> bool" where
  "hints_empty a \<longleftrightarrow> ta_title a = None \<and> \<not> ta_read_only_hint a \<and> \<not> ta_idempotent_hint a \<and> \<not> ta_destructive_hint a \<and>
     ta_open_world_hint a = None"

section \<open>Contents and results\<close>

definition text_content :: "string \<Rightarrow> content" where
  "text_content s = TextBlock s None"

definition image_content :: "string \<Rightarrow> string \<Rightarrow> content" where
  "image_content d mime = Image d mime None"

definition audio_content :: "string \<Rightarrow> string \<Rightarrow> content" where
  "audio_content d mime = Audio d mime None"

definition link_content :: "string \<Rightarrow> string \<Rightarrow> content" where
  "link_content uri name = ResourceLink \<lparr>rl_uri = uri, rl_name = name, rl_title = None, rl_description = None,
     rl_mime_type = None, rl_size = None\<rparr> None"

definition embedded_content :: "resource_content \<Rightarrow> content" where
  "embedded_content r = Embedded r None"

text \<open>Serializing a value may fail; its text is the printer's.\<close>

definition json_content :: "(json \<Rightarrow> string) \<Rightarrow> string + json \<Rightarrow> string + content" where
  "json_content print v = map_sum id (\<lambda>v. text_content (print v)) v"

fun with_annotations :: "annotations \<Rightarrow> content \<Rightarrow> content" where
  "with_annotations a (TextBlock s _) = TextBlock s (Some a)"
| "with_annotations a (Image d m _) = Image d m (Some a)"
| "with_annotations a (Audio d m _) = Audio d m (Some a)"
| "with_annotations a (ResourceLink l _) = ResourceLink l (Some a)"
| "with_annotations a (Embedded r _) = Embedded r (Some a)"

fun content_annotations :: "content \<Rightarrow> annotations option" where
  "content_annotations (TextBlock _ a) = a"
| "content_annotations (Image _ _ a) = a"
| "content_annotations (Audio _ _ a) = a"
| "content_annotations (ResourceLink _ a) = a"
| "content_annotations (Embedded _ a) = a"

definition text_contents :: "string \<Rightarrow> string \<Rightarrow> resource_content" where
  "text_contents uri t = TextContents uri t None"

definition blob_contents :: "string \<Rightarrow> string \<Rightarrow> resource_content" where
  "blob_contents uri b = BlobContents uri b None"

fun contents_mime_type :: "string \<Rightarrow> resource_content \<Rightarrow> resource_content" where
  "contents_mime_type m (TextContents uri t _) = TextContents uri t (Some m)"
| "contents_mime_type m (BlobContents uri b _) = BlobContents uri b (Some m)"

fun contents_uri :: "resource_content \<Rightarrow> string" where
  "contents_uri (TextContents uri _ _) = uri"
| "contents_uri (BlobContents uri _ _) = uri"

definition content_result :: "content list \<Rightarrow> call_tool_result" where
  "content_result cs = \<lparr>cr_content = cs, cr_is_error = False, cr_structured_content = None, cr_meta = None\<rparr>"

definition text_result :: "string \<Rightarrow> call_tool_result" where
  "text_result s = content_result [text_content s]"

definition structured_result :: "(json \<Rightarrow> string) \<Rightarrow> string + json \<Rightarrow> string + call_tool_result" where
  "structured_result print v =
     map_sum id (\<lambda>v. \<lparr>cr_content = [text_content (print v)], cr_is_error = False, cr_structured_content = Some v, cr_meta = None\<rparr>) v"

definition with_structured_content :: "json \<Rightarrow> call_tool_result \<Rightarrow> call_tool_result" where
  "with_structured_content v r = r\<lparr>cr_structured_content := Some v\<rparr>"

definition with_meta :: "meta \<Rightarrow> call_tool_result \<Rightarrow> call_tool_result" where
  "with_meta m r = r\<lparr>cr_meta := Some m\<rparr>"

definition with_meta_key :: "string \<Rightarrow> json \<Rightarrow> call_tool_result \<Rightarrow> call_tool_result" where
  "with_meta_key k v r = r\<lparr>cr_meta := Some (obj_insert k v (case cr_meta r of Some m \<Rightarrow> m | None \<Rightarrow> []))\<rparr>"

section \<open>Sampling\<close>

definition image_block :: "string \<Rightarrow> string \<Rightarrow> sampling_content" where
  "image_block d mime = SImage d mime None"

definition audio_block :: "string \<Rightarrow> string \<Rightarrow> sampling_content" where
  "audio_block d mime = SAudio d mime None"

definition new_sampling_tool :: "string \<Rightarrow> json \<Rightarrow> sampling_tool" where
  "new_sampling_tool name schema = \<lparr>st_name = name, st_description = None, st_input_schema = schema\<rparr>"

definition sampling_tool_description :: "string \<Rightarrow> sampling_tool \<Rightarrow> sampling_tool" where
  "sampling_tool_description d t = t\<lparr>st_description := Some d\<rparr>"

definition hinting :: "string list \<Rightarrow> model_preferences" where
  "hinting names = \<lparr>mp_hints = names, mp_cost_priority = None, mp_speed_priority = None, mp_intelligence_priority = None\<rparr>"

definition with_system_prompt :: "string \<Rightarrow> create_message_params \<Rightarrow> create_message_params" where
  "with_system_prompt s p = p\<lparr>cm_system_prompt := Some s\<rparr>"

definition with_model_preferences :: "model_preferences \<Rightarrow> create_message_params \<Rightarrow> create_message_params" where
  "with_model_preferences m p = p\<lparr>cm_model_preferences := Some m\<rparr>"

definition with_temperature :: "64 word \<Rightarrow> create_message_params \<Rightarrow> create_message_params" where
  "with_temperature t p = p\<lparr>cm_temperature := Some t\<rparr>"

definition with_stop_sequences :: "string list \<Rightarrow> create_message_params \<Rightarrow> create_message_params" where
  "with_stop_sequences ss p = p\<lparr>cm_stop_sequences := ss\<rparr>"

definition offer_tools :: "sampling_tool list \<Rightarrow> create_message_params \<Rightarrow> create_message_params" where
  "offer_tools ts p = p\<lparr>cm_tools := ts\<rparr>"

definition with_tool_choice :: "tool_choice \<Rightarrow> create_message_params \<Rightarrow> create_message_params" where
  "with_tool_choice c p = p\<lparr>cm_tool_choice := Some c\<rparr>"

section \<open>Options of a form's fields\<close>

definition string_title :: "string \<Rightarrow> string_field \<Rightarrow> string_field" where
  "string_title t f = f\<lparr>sf_title := Some t\<rparr>"

definition string_description :: "string \<Rightarrow> string_field \<Rightarrow> string_field" where
  "string_description d f = f\<lparr>sf_description := Some d\<rparr>"

definition string_min_length :: "nat \<Rightarrow> string_field \<Rightarrow> string_field" where
  "string_min_length n f = f\<lparr>sf_min_length := Some n\<rparr>"

definition string_max_length :: "nat \<Rightarrow> string_field \<Rightarrow> string_field" where
  "string_max_length n f = f\<lparr>sf_max_length := Some n\<rparr>"

definition string_pattern :: "string \<Rightarrow> string_field \<Rightarrow> string_field" where
  "string_pattern p f = f\<lparr>sf_pattern := Some p\<rparr>"

definition string_format :: "string \<Rightarrow> string_field \<Rightarrow> string_field" where
  "string_format s f = f\<lparr>sf_format := Some s\<rparr>"

definition string_default :: "string \<Rightarrow> string_field \<Rightarrow> string_field" where
  "string_default v f = f\<lparr>sf_default := Some v\<rparr>"

definition number_title :: "string \<Rightarrow> number_field \<Rightarrow> number_field" where
  "number_title t f = f\<lparr>nf_title := Some t\<rparr>"

definition number_description :: "string \<Rightarrow> number_field \<Rightarrow> number_field" where
  "number_description d f = f\<lparr>nf_description := Some d\<rparr>"

definition number_minimum :: "64 word \<Rightarrow> number_field \<Rightarrow> number_field" where
  "number_minimum x f = f\<lparr>nf_minimum := Some x\<rparr>"

definition number_maximum :: "64 word \<Rightarrow> number_field \<Rightarrow> number_field" where
  "number_maximum x f = f\<lparr>nf_maximum := Some x\<rparr>"

definition number_default :: "64 word \<Rightarrow> number_field \<Rightarrow> number_field" where
  "number_default x f = f\<lparr>nf_default := Some x\<rparr>"

definition boolean_title :: "string \<Rightarrow> boolean_field \<Rightarrow> boolean_field" where
  "boolean_title t f = f\<lparr>bf_title := Some t\<rparr>"

definition boolean_description :: "string \<Rightarrow> boolean_field \<Rightarrow> boolean_field" where
  "boolean_description d f = f\<lparr>bf_description := Some d\<rparr>"

definition boolean_default :: "bool \<Rightarrow> boolean_field \<Rightarrow> boolean_field" where
  "boolean_default b f = f\<lparr>bf_default := Some b\<rparr>"

section \<open>What they keep\<close>

text \<open>A value counts as empty exactly when nothing of it is on the wire.\<close>

lemma annotations_empty_wire: "annotations_empty a \<longleftrightarrow> annotations_to_value a = jobject []"
  by (cases "an_priority a"; cases "an_last_modified a")
    (auto simp: annotations_empty_def annotations_to_value_def jobject_def jlist_def jopt_def opt_field_def)

lemma hints_empty_wire: "hints_empty a \<longleftrightarrow> tool_annotations_to_value a = jobject []"
  by (cases "ta_title a"; cases "ta_open_world_hint a")
    (auto simp: hints_empty_def tool_annotations_to_value_def jobject_def jflag_def jopt_def opt_field_def)

text \<open>Annotating changes nothing but the annotations.\<close>

lemma annotated: "content_annotations (with_annotations a c) = Some a" "as_text (with_annotations a c) = as_text c"
  by (cases c; simp)+

lemma meta_key_kept:
  "cr_meta (with_meta_key k v r) = Some m \<Longrightarrow> map_of m k = Some v \<and> (k' \<noteq> k \<longrightarrow> map_of m k' = map_of (case cr_meta r of Some m \<Rightarrow> m | None \<Rightarrow> []) k')"
  by (auto simp: with_meta_key_def map_of_obj_insert)

text \<open>A priority that is a number ends up between 0.0 and 1.0, a negative zero included.\<close>

lemma clamped:
  assumes "\<not> (take_bit 11 (drop_bit 52 x) = mask 11 \<and> take_bit 52 x \<noteq> 0)"
  shows "clamp_unit x \<le> 0x3FF0000000000000 \<or> clamp_unit x = 2 ^ 63"
  using assms by (auto simp: clamp_unit_def)

text \<open>A client that knows nothing of structured content reads the same value from the text.\<close>

lemma structured_mirrored:
  "structured_result print v = Inr r \<Longrightarrow> \<exists>x. cr_structured_content r = Some x \<and> List.map_filter as_text (cr_content r) = [print x]"
  by (cases v) (auto simp: structured_result_def text_content_def List.map_filter_def)

end
