(* ===== verification/Bridge.thy ===== *)
theory Bridge
  imports Server
begin

text \<open>
  The shim (\<open>bridge.rs\<close>, \<open>bridge/transform.rs\<close>): a proxy between the client's transport and the
  daemon's, with a thread for each direction and a hook that may rewrite what the client says. A
  side of the proxy is its transport and what became of its writing half. One turn of a pump reads
  one message and writes at most one, under the lock of the sink it writes to; the reading half
  belongs to one pump alone, so the turns of the two threads, in any order, are the runs of the
  proxy. The hook is told in which turn it is called, so that it may answer differently from one to
  the next. The properties: whatever the order of turns, each peer receives what the
  other said, rewritten where the hook rewrote it, in order, interleaved with nothing but the
  answers meant for it; and both pumps come to an end.
\<close>

section \<open>The hook\<close>

datatype verdict = Forward | Answer jsonrpc_message | Drop

text \<open>What the hook returned, if it did not panic, and the message as it left it.\<close>

type_synonym shim_transform = "nat \<Rightarrow> jsonrpc_message \<Rightarrow> unit result option \<times> jsonrpc_message"

definition TRANSFORM_PANICKED :: mcp_error where
  "TRANSFORM_PANICKED = Internal (''the shim'' @ [CHR 0x27] @ ''s message transform panicked'')"

definition apply_transform :: "shim_transform \<Rightarrow> nat \<Rightarrow> jsonrpc_message \<Rightarrow> verdict \<times> jsonrpc_message" where
  "apply_transform t n m =
     (let i = (case m of Request rq \<Rightarrow> Some (rq_id rq) | _ \<Rightarrow> None)
      in case t n m of
           (ended, m') \<Rightarrow>
             ((case ((case ended of Some r \<Rightarrow> r | None \<Rightarrow> Inl TRANSFORM_PANICKED), i) of
                 (Inr _, _) \<Rightarrow> Forward
               | (Inl e, Some i) \<Rightarrow> Answer (error i (to_jsonrpc_error e))
               | (Inl _, None) \<Rightarrow> Drop), m'))"

section \<open>The two pumps\<close>

text \<open>
  A side: its transport, whether it can be split, whether its writing half was closed, and what a
  write returns after that (nothing special, on a transport whose \<open>close_write\<close> does nothing).
\<close>

record side =
  side_link :: link
  splittable :: bool
  write_closed :: bool
  closed_error :: "mcp_error option"

definition shared_write :: "jsonrpc_message \<Rightarrow> side \<Rightarrow> unit result \<times> side" where
  "shared_write m s =
     (if lock_poisoned_w (side_link s) then (Inl (Internal ''Bridge writer lock poisoned''), s)
      else case (if write_closed s then closed_error s else None) of
        Some e \<Rightarrow> (Inl e, s)
      | None \<Rightarrow> (case link_write m (side_link s) of (r, l) \<Rightarrow> (r, s\<lparr>side_link := l\<rparr>)))"

definition shared_close_write :: "side \<Rightarrow> unit result \<times> side" where
  "shared_close_write s =
     (if lock_poisoned_w (side_link s) then (Inl (Internal ''Bridge writer lock poisoned''), s)
      else (Inr (), s\<lparr>write_closed := True\<rparr>))"

text \<open>What one turn of the loop ends with: another turn, or the value the pump returns.\<close>

definition answer_back :: "jsonrpc_message \<Rightarrow> side \<Rightarrow> unit result option \<times> side" where
  "answer_back answer from =
     (case shared_write answer from of (Inr _, from) \<Rightarrow> (None, from) | (Inl _, from) \<Rightarrow> (Some (Inr ()), from))"

definition pump_turn :: "shim_transform option \<Rightarrow> nat \<Rightarrow> side \<Rightarrow> side \<Rightarrow> unit result option \<times> side \<times> side" where
  "pump_turn transform n from onto =
     (case link_read (side_link from) of
        (r, l) \<Rightarrow>
          let from = from\<lparr>side_link := l\<rparr> in
          (case r of
             Inr m \<Rightarrow>
               (case (case transform of None \<Rightarrow> (Forward, m) | Some t \<Rightarrow> apply_transform t n m) of
                  (Forward, m) \<Rightarrow>
                    (case shared_write m onto of
                       (Inr _, onto) \<Rightarrow> (None, from, onto)
                     | (Inl e, onto) \<Rightarrow> (Some (Inl e), from, onto))
                | (Answer answer, _) \<Rightarrow> (case answer_back answer from of (e, from) \<Rightarrow> (e, from, onto))
                | (Drop, _) \<Rightarrow> (None, from, onto))
           | Inl e \<Rightarrow>
               if e = TransportClosed then (Some (Inr ()), from, onto)
               else if is_malformed e
               then (case answer_back (error (error_id e) (to_jsonrpc_error e)) from of (e, from) \<Rightarrow> (e, from, onto))
               else (Some (Inl e), from, onto)))"

section \<open>The proxy\<close>

datatype leg = Pumping | Closing "unit result" | Over "unit result"

record proxy =
  client :: side
  upstream :: side
  requests_leg :: leg
  responses_leg :: leg
  turns_taken :: nat

datatype direction = FromClient | FromUpstream

text \<open>\<open>run_inner\<close>: the two threads, a turn at a time; a pump that has returned closes its sink.\<close>

fun proxy_step :: "shim_transform option \<Rightarrow> proxy \<Rightarrow> direction \<Rightarrow> proxy" where
  "proxy_step transform p FromClient =
     (case requests_leg p of
        Pumping \<Rightarrow>
          (case pump_turn transform (turns_taken p) (client p) (upstream p) of
             (e, c, u) \<Rightarrow> p\<lparr>client := c, upstream := u, turns_taken := Suc (turns_taken p),
               requests_leg := (case e of None \<Rightarrow> Pumping | Some r \<Rightarrow> Closing r)\<rparr>)
      | Closing r \<Rightarrow> p\<lparr>upstream := snd (shared_close_write (upstream p)), requests_leg := Over r\<rparr>
      | Over _ \<Rightarrow> p)"
| "proxy_step transform p FromUpstream =
     (case responses_leg p of
        Pumping \<Rightarrow>
          (case pump_turn None 0 (upstream p) (client p) of
             (e, u, c) \<Rightarrow> p\<lparr>client := c, upstream := u,
               responses_leg := (case e of None \<Rightarrow> Pumping | Some r \<Rightarrow> Closing r)\<rparr>)
      | Closing r \<Rightarrow> p\<lparr>client := snd (shared_close_write (client p)), responses_leg := Over r\<rparr>
      | Over _ \<Rightarrow> p)"

definition start_proxy :: "side \<Rightarrow> side \<Rightarrow> mcp_error + proxy" where
  "start_proxy c u =
     (if \<not> splittable c then Inl (Internal ''client transport cannot be split for proxying'')
      else if \<not> splittable u then Inl (Internal ''upstream transport cannot be split for proxying'')
      else Inr \<lparr>client = c, upstream = u, requests_leg = Pumping, responses_leg = Pumping, turns_taken = 0\<rparr>)"

text \<open>The value of \<open>run\<close> is that of the pump it joins; nothing yet while that one is at work.\<close>

definition run_inner :: "shim_transform option \<Rightarrow> side \<Rightarrow> side \<Rightarrow> direction list \<Rightarrow> unit result option \<times> proxy option" where
  "run_inner transform c u ds =
     (case start_proxy c u of
        Inl e \<Rightarrow> (Some (Inl e), None)
      | Inr p \<Rightarrow>
          let p = foldl (proxy_step transform) p ds
          in (case responses_leg p of Over r \<Rightarrow> Some r | _ \<Rightarrow> None, Some p))"

section \<open>What the peers get\<close>

text \<open>
  The contract of the proxy, from what is read: a message is passed on as the hook left it, or,
  when the hook refused it, a request gets an error under the id it was sent with; what cannot be
  read is answered as the server would.
\<close>

definition refusal_of :: "unit result option \<Rightarrow> mcp_error option" where
  "refusal_of ended = (case ended of None \<Rightarrow> Some TRANSFORM_PANICKED | Some (Inl e) \<Rightarrow> Some e | Some (Inr _) \<Rightarrow> None)"

fun passed_on :: "shim_transform option \<Rightarrow> nat \<Rightarrow> jsonrpc_message result \<Rightarrow> jsonrpc_message list" where
  "passed_on None n (Inr m) = [m]"
| "passed_on (Some t) n (Inr m) = (if refusal_of (fst (t n m)) = None then [snd (t n m)] else [])"
| "passed_on _ n (Inl e) = []"

fun sent_back :: "shim_transform option \<Rightarrow> nat \<Rightarrow> jsonrpc_message result \<Rightarrow> jsonrpc_message list" where
  "sent_back (Some t) n (Inr (Request rq)) =
     (case refusal_of (fst (t n (Request rq))) of None \<Rightarrow> [] | Some e \<Rightarrow> [error (rq_id rq) (to_jsonrpc_error e)])"
| "sent_back _ n (Inr _) = []"
| "sent_back _ n (Inl e) = (if is_malformed e then [error (error_id e) (to_jsonrpc_error e)] else [])"

definition heard :: "(nat \<Rightarrow> jsonrpc_message result \<Rightarrow> jsonrpc_message list) \<Rightarrow> (nat \<times> jsonrpc_message result) list \<Rightarrow>
    jsonrpc_message list" where
  "heard f rs = concat (map (\<lambda>(n, _, r). f n r) (enumerate 0 rs))"

lemma heard_Nil [simp]: "heard f [] = []"
  by (simp add: heard_def)

lemma heard_snoc: "heard f (rs @ [(d, r)]) = heard f rs @ f (length rs) r"
  by (simp add: heard_def enumerate_append_eq)

lemma shuffles_last: "ys @ [a] \<in> shuffles [a] ys"
  by (induction ys) auto

lemma shuffles_snoc: "zs \<in> shuffles xs ys \<Longrightarrow> zs @ [a] \<in> shuffles (xs @ [a]) ys"
  by (induction xs ys arbitrary: zs rule: shuffles.induct) (auto simp: image_iff shuffles_last)

lemma shuffles_append_left: "zs \<in> shuffles xs ys \<Longrightarrow> zs @ as \<in> shuffles (xs @ as) ys"
proof (induction as arbitrary: zs xs)
  case (Cons a as)
  from Cons.IH [OF shuffles_snoc [OF Cons.prems]] show ?case by (metis append.assoc append_Cons append_Nil)
qed simp

lemma shuffles_append_right: "zs \<in> shuffles xs ys \<Longrightarrow> zs @ as \<in> shuffles xs (ys @ as)"
  by (metis shuffles_append_left shuffles_commutes)

lemma shared_write_link:
  assumes "shared_write m s = (r, s')"
  shows "inbox (side_link s') = inbox (side_link s) \<and> read_timeout_armed (side_link s') = read_timeout_armed (side_link s) \<and>
    sent (side_link s') = sent (side_link s) @ (case r of Inr _ \<Rightarrow> [m] | Inl _ \<Rightarrow> [])"
  using assms by (auto simp: shared_write_def link_write_def split: if_splits option.splits list.splits prod.splits)

lemma apply_transform_contract:
  assumes "apply_transform t n m = (v, m')"
  shows "case v of
      Forward \<Rightarrow> passed_on (Some t) n (Inr m) = [m'] \<and> sent_back (Some t) n (Inr m) = []
    | Answer a \<Rightarrow> passed_on (Some t) n (Inr m) = [] \<and> sent_back (Some t) n (Inr m) = [a]
    | Drop \<Rightarrow> passed_on (Some t) n (Inr m) = [] \<and> sent_back (Some t) n (Inr m) = []"
  using assms
  by (cases m; cases "t n m"; cases "fst (t n m)"; cases "the (fst (t n m))")
     (auto simp: apply_transform_def refusal_of_def Let_def)

text \<open>One turn: the peer hung up, or one more message is dealt with, or a sink refused it and the pump ends.\<close>

lemma pump_turn_reads:
  assumes "pump_turn tr n from onto = (e, from', onto')" and "read_timeout_armed (side_link from) = None"
  shows "read_timeout_armed (side_link from') = None \<and> inbox (side_link onto') = inbox (side_link onto) \<and>
    read_timeout_armed (side_link onto') = read_timeout_armed (side_link onto) \<and>
    (case inbox (side_link from) of
       [] \<Rightarrow> e = Some (Inr ()) \<and> from' = from \<and> onto' = onto
     | (d, r) # rest \<Rightarrow> inbox (side_link from') = rest \<and>
         (sent (side_link onto') = sent (side_link onto) @ passed_on tr n r \<and>
          sent (side_link from') = sent (side_link from) @ sent_back tr n r \<or>
          e \<noteq> None \<and> sent (side_link onto') = sent (side_link onto) \<and> sent (side_link from') = sent (side_link from)))"
proof (cases "inbox (side_link from)")
  case Nil
  then show ?thesis using assms by (simp add: pump_turn_def link_read_def)
next
  case (Cons h rest)
  obtain d r where h: "h = (d, r)" by (cases h)
  let ?from = "from\<lparr>side_link := (side_link from)\<lparr>inbox := rest, clock := clock (side_link from) + d\<rparr>\<rparr>"
  have read: "link_read (side_link from) = (r, side_link ?from)"
    using Cons h assms(2) by (simp add: link_read_def)
  note turn = assms(1) [unfolded pump_turn_def read Let_def prod.case]
  show ?thesis
  proof (cases r)
    case (Inl x)
    then show ?thesis using turn Cons h assms(2) shared_write_link [of _ ?from]
      by (auto simp: answer_back_def split: if_splits prod.splits sum.splits)
  next
    case (Inr m)
    obtain v m' where v: "(case tr of None \<Rightarrow> (Forward, m) | Some t \<Rightarrow> apply_transform t n m) = (v, m')" by fastforce
    have contract: "case v of Forward \<Rightarrow> passed_on tr n r = [m'] \<and> sent_back tr n r = []
        | Answer a \<Rightarrow> passed_on tr n r = [] \<and> sent_back tr n r = [a]
        | Drop \<Rightarrow> passed_on tr n r = [] \<and> sent_back tr n r = []"
      using v Inr by (cases tr) (auto dest: apply_transform_contract)
    show ?thesis using turn Cons h assms(2) contract Inr v shared_write_link [of _ ?from] shared_write_link [of _ onto]
      by (cases v) (auto simp: answer_back_def split: if_splits prod.splits sum.splits)
  qed
qed


text \<open>Where a run of the proxy stands, having dealt with so many messages of either side.\<close>

definition relayed :: "shim_transform option \<Rightarrow> side \<Rightarrow> side \<Rightarrow> proxy \<Rightarrow> nat \<Rightarrow> nat \<Rightarrow> bool" where
  "relayed tr c u p k j \<longleftrightarrow>
     k \<le> length (inbox (side_link c)) \<and> j \<le> length (inbox (side_link u)) \<and>
     (\<exists>zs \<in> shuffles (heard (passed_on tr) (take k (inbox (side_link c)))) (heard (sent_back None) (take j (inbox (side_link u)))).
        sent (side_link (upstream p)) = sent (side_link u) @ zs) \<and>
     (\<exists>zs \<in> shuffles (heard (passed_on None) (take j (inbox (side_link u)))) (heard (sent_back tr) (take k (inbox (side_link c)))).
        sent (side_link (client p)) = sent (side_link c) @ zs)"

text \<open>A client that takes whatever is written to it, and an upstream that says only messages.\<close>

definition takes_all :: "side \<Rightarrow> bool" where
  "takes_all s \<longleftrightarrow> send_errors (side_link s) = [] \<and> \<not> one_answer (side_link s) \<and> \<not> lock_poisoned_w (side_link s)"

definition healthy :: "side \<Rightarrow> side \<Rightarrow> bool" where
  "healthy c u \<longleftrightarrow> takes_all c \<and> \<not> write_closed c \<and> list_all (\<lambda>(d, r). \<exists>m. r = Inr m) (inbox (side_link u))"

definition draining :: "side \<Rightarrow> proxy \<Rightarrow> nat \<Rightarrow> bool" where
  "draining u p j \<longleftrightarrow> takes_all (client p) \<and>
     (responses_leg p = Pumping \<and> \<not> write_closed (client p) \<or>
      responses_leg p \<in> {Closing (Inr ()), Over (Inr ())} \<and> j = length (inbox (side_link u)))"

definition proxy_inv :: "shim_transform option \<Rightarrow> side \<Rightarrow> side \<Rightarrow> proxy \<Rightarrow> bool" where
  "proxy_inv tr c u p \<longleftrightarrow>
     read_timeout_armed (side_link (client p)) = None \<and> read_timeout_armed (side_link (upstream p)) = None \<and>
     (\<exists>k j. relayed tr c u p k j \<and>
        (requests_leg p = Pumping \<longrightarrow> inbox (side_link (client p)) = drop k (inbox (side_link c)) \<and> turns_taken p = k) \<and>
        (responses_leg p = Pumping \<longrightarrow> inbox (side_link (upstream p)) = drop j (inbox (side_link u))) \<and>
        (healthy c u \<longrightarrow> draining u p j))"

lemma heard_take_Suc:
  "drop k rs = (d, r) # rest \<Longrightarrow> heard f (take (Suc k) rs) = heard f (take k rs) @ f k r"
  by (metis heard_snoc hd_drop_conv_nth length_take list.sel(1) list.simps(3) min.absorb2 nat_le_linear drop_all
      leI less_or_eq_imp_le take_Suc_conv_app_nth)

lemma passed_on_None: "passed_on None n r = passed_on None n' r"
  by (cases r) auto

lemma sent_back_None: "sent_back None n r = sent_back None n' r"
  by (cases r) auto


lemma close_write_link [simp]: "side_link (snd (shared_close_write s)) = side_link s"
  by (simp add: shared_close_write_def)

lemma drop_Suc_rest: "drop k xs = x # rest \<Longrightarrow> rest = drop (Suc k) xs \<and> Suc k \<le> length xs"
  by (metis Suc_leI drop_Suc drop_all leI list.distinct(1) list.sel(3) tl_drop)

text \<open>What dealing with one more message of a side does to both sides' books.\<close>

lemma relayed_client:
  assumes "relayed tr c u p k j" and "drop k (inbox (side_link c)) = (d, r) # rest"
    and "sent (side_link (upstream p')) = sent (side_link (upstream p)) @ passed_on tr k r"
    and "sent (side_link (client p')) = sent (side_link (client p)) @ sent_back tr k r"
  shows "relayed tr c u p' (Suc k) j"
  using assms drop_Suc_rest [OF assms(2)] shuffles_append_left shuffles_append_right
  unfolding relayed_def heard_take_Suc [OF assms(2)] by fastforce

lemma relayed_upstream:
  assumes "relayed tr c u p k j" and "drop j (inbox (side_link u)) = (d, r) # rest"
    and "sent (side_link (client p')) = sent (side_link (client p)) @ passed_on None 0 r"
    and "sent (side_link (upstream p')) = sent (side_link (upstream p)) @ sent_back None 0 r"
  shows "relayed tr c u p' k (Suc j)"
  using assms drop_Suc_rest [OF assms(2)] shuffles_append_left shuffles_append_right
    passed_on_None [of 0 r j] sent_back_None [of 0 r j]
  unfolding relayed_def heard_take_Suc [OF assms(2)] by fastforce

lemma relayed_same:
  assumes "relayed tr c u p k j" and "sent (side_link (client p')) = sent (side_link (client p))"
    and "sent (side_link (upstream p')) = sent (side_link (upstream p))"
  shows "relayed tr c u p' k j"
  using assms by (simp add: relayed_def)

lemma shared_write_takes:
  assumes "shared_write m s = (r, s')"
  shows "(takes_all s \<longrightarrow> takes_all s') \<and> write_closed s' = write_closed s \<and>
    (takes_all s \<and> \<not> write_closed s \<longrightarrow> r = Inr ())"
  using assms
  by (auto simp: shared_write_def link_write_def takes_all_def split: if_splits option.splits list.splits prod.splits)

lemma pump_turn_takes:
  assumes "pump_turn tr n from onto = (e, from', onto')"
  shows "(takes_all from \<longrightarrow> takes_all from') \<and> (takes_all onto \<longrightarrow> takes_all onto') \<and>
    write_closed from' = write_closed from \<and> write_closed onto' = write_closed onto"
proof -
  obtain r l where l: "link_read (side_link from) = (r, l)" by fastforce
  then have "takes_all from \<longrightarrow> takes_all (from\<lparr>side_link := l\<rparr>)"
    by (auto simp: link_read_def takes_all_def split: list.splits option.splits if_splits prod.splits)
  then show ?thesis
    using assms l shared_write_takes [of _ "from\<lparr>side_link := l\<rparr>"] shared_write_takes [of _ onto]
    by (auto simp: pump_turn_def answer_back_def Let_def split: if_splits prod.splits sum.splits verdict.splits)
qed

lemma pump_turn_delivers:
  assumes "pump_turn None n from onto = (e, from', onto')" and "inbox (side_link from) = (d, Inr m) # rest"
    and "read_timeout_armed (side_link from) = None" and "takes_all onto" and "\<not> write_closed onto"
  shows "e = None"
  using assms shared_write_takes [of m onto]
  by (auto simp: pump_turn_def link_read_def Let_def split: prod.splits sum.splits)

lemma takes_all_closed [simp]: "takes_all (snd (shared_close_write s)) = takes_all s"
  by (simp add: takes_all_def)

lemma relayed_closed [simp]:
  "relayed tr c u (p\<lparr>client := snd (shared_close_write (client p)), responses_leg := l\<rparr>) k j = relayed tr c u p k j"
  "relayed tr c u (p\<lparr>upstream := snd (shared_close_write (upstream p)), requests_leg := l\<rparr>) k j = relayed tr c u p k j"
  by (simp_all add: relayed_def)

lemma proxy_invI:
  assumes "relayed tr c u p k j"
    and "read_timeout_armed (side_link (client p)) = None" and "read_timeout_armed (side_link (upstream p)) = None"
    and "requests_leg p = Pumping \<Longrightarrow> inbox (side_link (client p)) = drop k (inbox (side_link c)) \<and> turns_taken p = k"
    and "responses_leg p = Pumping \<Longrightarrow> inbox (side_link (upstream p)) = drop j (inbox (side_link u))"
    and "healthy c u \<Longrightarrow> draining u p j"
  shows "proxy_inv tr c u p"
  using assms unfolding proxy_inv_def by blast

lemma proxy_inv_client:
  assumes "proxy_inv tr c u p"
  shows "proxy_inv tr c u (proxy_step tr p FromClient)"
proof (cases "requests_leg p = Pumping")
  case True
  obtain e x y where t: "pump_turn tr (turns_taken p) (client p) (upstream p) = (e, x, y)" by (metis prod_cases3)
  let ?p = "p\<lparr>client := x, upstream := y, turns_taken := Suc (turns_taken p),
    requests_leg := (case e of None \<Rightarrow> Pumping | Some r \<Rightarrow> Closing r)\<rparr>"
  from assms obtain k j where inv: "relayed tr c u p k j" "inbox (side_link (client p)) = drop k (inbox (side_link c))"
      "turns_taken p = k" "responses_leg p = Pumping \<longrightarrow> inbox (side_link (upstream p)) = drop j (inbox (side_link u))"
      "read_timeout_armed (side_link (client p)) = None" "read_timeout_armed (side_link (upstream p)) = None"
      "healthy c u \<longrightarrow> draining u p j"
    using True by (auto simp: proxy_inv_def)
  have drains: "healthy c u \<longrightarrow> draining u ?p j"
    using inv(7) pump_turn_takes [OF t] by (auto simp: draining_def)
  note turn = pump_turn_reads [OF t inv(5)]
  have "proxy_inv tr c u ?p"
  proof (cases "inbox (side_link (client p))")
    case Nil
    with turn relayed_same [OF inv(1), of ?p] have "relayed tr c u ?p k j" by simp
    with Nil turn inv drains show ?thesis by (intro proxy_invI [where k = k and j = j]) auto
  next
    case (Cons h rest)
    obtain d r where "h = (d, r)" by (cases h)
    then have h: "drop k (inbox (side_link c)) = (d, r) # rest" using Cons inv(2) by simp
    note facts = turn Cons \<open>h = (d, r)\<close> inv drop_Suc_rest [OF h] drains
    show ?thesis
    proof (cases "relayed tr c u ?p (Suc k) j")
      case True
      with facts show ?thesis by (intro proxy_invI [where k = "Suc k" and j = j]) auto
    next
      case False
      then have "relayed tr c u ?p k j" and "e \<noteq> None"
        using facts relayed_client [OF inv(1) h, of ?p] relayed_same [OF inv(1), of ?p] by auto
      with facts show ?thesis by (intro proxy_invI [where k = k and j = j]) auto
    qed
  qed
  then show ?thesis using True t by simp
next
  case False
  with assms show ?thesis
    by (cases "requests_leg p") (auto simp: proxy_inv_def draining_def)
qed

lemma proxy_inv_upstream:
  assumes "proxy_inv tr c u p"
  shows "proxy_inv tr c u (proxy_step tr p FromUpstream)"
proof (cases "responses_leg p = Pumping")
  case True
  obtain e x y where t: "pump_turn None 0 (upstream p) (client p) = (e, x, y)" by (metis prod_cases3)
  let ?p = "p\<lparr>client := y, upstream := x, responses_leg := (case e of None \<Rightarrow> Pumping | Some r \<Rightarrow> Closing r)\<rparr>"
  from assms obtain k j where inv: "relayed tr c u p k j" "inbox (side_link (upstream p)) = drop j (inbox (side_link u))"
      "requests_leg p = Pumping \<longrightarrow> inbox (side_link (client p)) = drop k (inbox (side_link c)) \<and> turns_taken p = k"
      "read_timeout_armed (side_link (upstream p)) = None" "read_timeout_armed (side_link (client p)) = None"
      "healthy c u \<longrightarrow> takes_all (client p) \<and> \<not> write_closed (client p)"
    using True by (auto simp: proxy_inv_def draining_def)
  have takes: "healthy c u \<longrightarrow> takes_all y \<and> \<not> write_closed y"
    using inv(6) pump_turn_takes [OF t] by auto
  note turn = pump_turn_reads [OF t inv(4)]
  have "proxy_inv tr c u ?p"
  proof (cases "inbox (side_link (upstream p))")
    case Nil
    with turn relayed_same [OF inv(1), of ?p] have "relayed tr c u ?p k j" by simp
    moreover have "j = length (inbox (side_link u))" using Nil inv(1,2) by (simp add: relayed_def)
    ultimately show ?thesis using Nil turn inv takes
      by (intro proxy_invI [where k = k and j = j]) (auto simp: draining_def)
  next
    case (Cons h rest)
    obtain d r where "h = (d, r)" by (cases h)
    then have h: "drop j (inbox (side_link u)) = (d, r) # rest" using Cons inv(2) by simp
    then have "(d, r) \<in> set (inbox (side_link u))" by (metis in_set_dropD list.set_intros(1))
    then have "e = None" if "healthy c u"
      using that pump_turn_delivers [OF t] Cons \<open>h = (d, r)\<close> inv by (auto simp: healthy_def list_all_iff)
    note facts = this turn Cons \<open>h = (d, r)\<close> inv drop_Suc_rest [OF h] takes
    show ?thesis
    proof (cases "relayed tr c u ?p k (Suc j)")
      case True
      with facts show ?thesis by (intro proxy_invI [where k = k and j = "Suc j"]) (auto simp: draining_def)
    next
      case False
      then have "relayed tr c u ?p k j" and "e \<noteq> None"
        using facts relayed_upstream [OF inv(1) h, of ?p] relayed_same [OF inv(1), of ?p] by auto
      with facts show ?thesis by (intro proxy_invI [where k = k and j = j]) auto
    qed
  qed
  then show ?thesis using True t by simp
next
  case False
  with assms show ?thesis
    by (cases "responses_leg p") (auto simp: proxy_inv_def draining_def)
qed

interpretation proxy: machine "proxy_step tr" "proxy_inv tr c u" for tr c u
proof
  show "proxy_inv tr c u (proxy_step tr p d)" if "proxy_inv tr c u p" for p d
    using that by (cases d) (simp_all only: proxy_inv_client proxy_inv_upstream)
qed

lemma start_proxy_inv:
  assumes "start_proxy c u = Inr p" and "read_timeout_armed (side_link c) = None" and "read_timeout_armed (side_link u) = None"
  shows "proxy_inv tr c u p"
  using assms by (intro proxy_invI [where k = 0 and j = 0])
    (auto simp: start_proxy_def relayed_def draining_def healthy_def split: if_splits)

text \<open>Turns the second pump still needs to return.\<close>

definition turns_left :: "proxy \<Rightarrow> nat" where
  "turns_left p = (case responses_leg p of Pumping \<Rightarrow> length (inbox (side_link (upstream p))) + 2 | Closing _ \<Rightarrow> 1 | Over _ \<Rightarrow> 0)"

lemma turns_left_client:
  assumes "proxy_inv tr c u p"
  shows "turns_left (proxy_step tr p FromClient) = turns_left p"
proof (cases "requests_leg p")
  case Pumping
  obtain e x y where t: "pump_turn tr (turns_taken p) (client p) (upstream p) = (e, x, y)" by (metis prod_cases3)
  have "inbox (side_link y) = inbox (side_link (upstream p))"
    using pump_turn_reads [OF t] assms by (simp add: proxy_inv_def)
  with Pumping t show ?thesis by (cases "responses_leg p") (simp_all add: turns_left_def)
qed (cases "responses_leg p"; simp add: turns_left_def)+

lemma turns_left_upstream:
  assumes "proxy_inv tr c u p"
  shows "turns_left (proxy_step tr p FromUpstream) \<le> turns_left p - 1"
proof (cases "responses_leg p")
  case Pumping
  obtain e x y where t: "pump_turn None 0 (upstream p) (client p) = (e, x, y)" by (metis prod_cases3)
  from pump_turn_reads [OF t] assms Pumping t show ?thesis
    by (cases "inbox (side_link (upstream p))") (auto simp: turns_left_def proxy_inv_def split: option.splits)
qed (simp_all add: turns_left_def)

lemma turns_left_run:
  "proxy_inv tr c u p \<Longrightarrow> turns_left (foldl (proxy_step tr) p ds) \<le> turns_left p - count_list ds FromUpstream"
proof (induction ds arbitrary: p)
  case (Cons d ds)
  have "proxy_inv tr c u (proxy_step tr p d)" using Cons.prems by (rule proxy.step_inv)
  from Cons.IH [OF this] turns_left_client [OF Cons.prems] turns_left_upstream [OF Cons.prems]
  show ?case by (cases d) auto
qed simp

section \<open>The properties\<close>

text \<open>
  C12: The shim relays faithfully. However the turns of its two threads fall, and whether or not a
  sink fails on the way, each peer has received an interleaving of two sequences: what the other
  peer said, as far as it was read, in order, rewritten where the hook rewrote it and without
  what the hook refused; and the answers owed to it, an error under its own id for each request
  the hook refused and the error of the server for what could not be read. Nothing of what the
  hook refused or failed on is passed on.
\<close>

theorem proxy_relays:
  assumes "run_inner transform c u ds = (r, Some p)"
    and "read_timeout_armed (side_link c) = None" and "read_timeout_armed (side_link u) = None"
  shows "\<exists>k j to_daemon to_client. let said = take k (inbox (side_link c)); replied = take j (inbox (side_link u)) in
     sent (side_link (upstream p)) = sent (side_link u) @ to_daemon \<and>
     to_daemon \<in> shuffles (heard (passed_on transform) said) (heard (sent_back None) replied) \<and>
     sent (side_link (client p)) = sent (side_link c) @ to_client \<and>
     to_client \<in> shuffles (heard (passed_on None) replied) (heard (sent_back transform) said)"
proof -
  from assms(1) obtain p0 where p0: "start_proxy c u = Inr p0" "p = foldl (proxy_step transform) p0 ds"
    by (auto simp: run_inner_def Let_def split: sum.splits)
  have "proxy_inv transform c u p"
    unfolding p0(2) by (rule proxy.run_inv [OF start_proxy_inv [OF p0(1) assms(2,3)]])
  then show ?thesis unfolding proxy_inv_def relayed_def Let_def by blast
qed

text \<open>
  C29: A session drains. When the daemon's side says only messages and the client takes what is
  written, the shim returns without an error once the pump it joins has had a turn for each message
  of the daemon and two more, and by then the client has received everything the daemon said, in
  order, whatever the other thread was doing.
\<close>

theorem proxy_drains:
  assumes "splittable c" and "splittable u" and "healthy c u"
    and "read_timeout_armed (side_link c) = None" and "read_timeout_armed (side_link u) = None"
    and "length (inbox (side_link u)) + 2 \<le> count_list ds FromUpstream"
  shows "\<exists>p k to_client. run_inner transform c u ds = (Some (Inr ()), Some p) \<and>
     sent (side_link (client p)) = sent (side_link c) @ to_client \<and>
     to_client \<in> shuffles (heard (passed_on None) (inbox (side_link u)))
       (heard (sent_back transform) (take k (inbox (side_link c))))"
proof -
  obtain p0 where p0: "start_proxy c u = Inr p0" using assms(1,2) by (simp add: start_proxy_def)
  note inv0 = start_proxy_inv [OF p0 assms(4,5), of transform]
  let ?p = "foldl (proxy_step transform) p0 ds"
  have "turns_left p0 = length (inbox (side_link u)) + 2"
    using p0 assms(1,2) by (auto simp: start_proxy_def turns_left_def)
  then have "turns_left ?p = 0" using turns_left_run [OF inv0, of ds] assms(6) by simp
  then obtain r where over: "responses_leg ?p = Over r" by (auto simp: turns_left_def split: leg.splits)
  have "proxy_inv transform c u ?p" by (rule proxy.run_inv [OF inv0])
  then obtain k j where "relayed transform c u ?p k j" "draining u ?p j"
    using assms(3) unfolding proxy_inv_def by blast
  with over p0 show ?thesis
    by (auto simp: run_inner_def Let_def draining_def relayed_def)
qed


text \<open>A client that asks twice, a hook that refuses the first request, and a daemon that answers the second.\<close>

definition sample_side :: "(nat \<times> jsonrpc_message result) list \<Rightarrow> side" where
  "sample_side ms = \<lparr>side_link = sample_link\<lparr>inbox := ms\<rparr>, splittable = True, write_closed = False, closed_error = None\<rparr>"

definition sample_client :: side where
  "sample_client = sample_side
     [(0, Inr (request (IdNumber 1) ''tools/call'' None)), (0, Inr (request (IdNumber 2) ''ping'' None))]"

definition sample_daemon :: side where
  "sample_daemon = sample_side [(0, Inr (response (IdNumber 2) JNull))]"

definition sample_transform :: shim_transform where
  "sample_transform n m = (if n = 0 then (None, m) else (Some (Inr ()), m))"

lemma sample_daemon_inbox: "inbox (side_link sample_daemon) = [(0, Inr (response (IdNumber 2) JNull))]"
  by (simp add: sample_daemon_def sample_side_def)

theorem proxy_relays_witness:
  "\<exists>r p k j to_daemon. run_inner (Some sample_transform) sample_client sample_daemon [FromUpstream, FromClient, FromClient] =
      (r, Some p) \<and> sent (side_link (upstream p)) = to_daemon \<and>
      to_daemon \<in> shuffles (heard (passed_on (Some sample_transform)) (take k (inbox (side_link sample_client))))
        (heard (sent_back None) (take j (inbox (side_link sample_daemon))))"
proof -
  obtain r p where run: "run_inner (Some sample_transform) sample_client sample_daemon
      [FromUpstream, FromClient, FromClient] = (r, Some p)"
    by (simp add: run_inner_def start_proxy_def sample_client_def sample_daemon_def sample_side_def Let_def)
  from proxy_relays [OF run] show ?thesis
    using run by (auto simp: sample_client_def sample_daemon_def sample_side_def sample_link_def Let_def)
qed

theorem proxy_drains_witness:
  "\<exists>p k to_client. run_inner (Some sample_transform) sample_client sample_daemon [FromUpstream, FromClient, FromUpstream, FromUpstream] =
      (Some (Inr ()), Some p) \<and> sent (side_link (client p)) = to_client \<and>
      to_client \<in> shuffles [response (IdNumber 2) JNull]
        (heard (sent_back (Some sample_transform)) (take k (inbox (side_link sample_client))))"
proof -
  have "healthy sample_client sample_daemon"
    by (simp add: healthy_def takes_all_def sample_client_def sample_daemon_def sample_side_def sample_link_def)
  from proxy_drains [OF _ _ this, of "[FromUpstream, FromClient, FromUpstream, FromUpstream]" "Some sample_transform"]
  show ?thesis
    by (simp add: sample_daemon_inbox) (auto simp: heard_def sample_client_def sample_daemon_def sample_side_def sample_link_def)
qed

end
