(* ===== verification/Daemon.thy ===== *)
theory Daemon
  imports JsonRpc
begin

text \<open>
  The daemon's connection bookkeeping (\<open>transport/daemon_state.rs\<close>) and the accept loop that uses
  it (\<open>transport/unix_server.rs\<close>). The state behind the lock is a record; every stretch of code
  that holds the lock is one function on it, with the poisoned lock as a flag, and the idle
  watcher, whose loop gives the lock up three times, is a small program-counter machine. The whole
  daemon is these pieces interleaved in any order, with a clock. Sockets, threads and the
  application's predicate are events: what an \<open>accept\<close> returns, whether a thread could be
  spawned, what the predicate answers. The properties: the number of live connections never
  exceeds the ceiling and is exactly the number of slots held, nothing is admitted once a
  shutdown is requested and every accept loop then ends, and the watcher stops the daemon only
  after a whole window without clients and without a veto, and does so when there is one.
\<close>

section \<open>Connection state\<close>

record conn_state =
  active :: nat
  generation :: nat
  shutdown :: bool

datatype admission_result = Admitted | Full | ShuttingDown

text \<open>The state and its lock.\<close>

record shared =
  conn :: conn_state
  lock_poisoned :: bool

definition new_shared :: shared where
  "new_shared = \<lparr>conn = \<lparr>active = 0, generation = 0, shutdown = False\<rparr>, lock_poisoned = False\<rparr>"

definition admit_conn :: "conn_state \<Rightarrow> nat \<Rightarrow> admission_result \<times> conn_state" where
  "admit_conn c mx =
     (if shutdown c then (ShuttingDown, c)
      else if mx \<le> active c then (Full, c)
      else (Admitted, c\<lparr>active := active c + 1, generation := generation c + 1\<rparr>))"

definition admit :: "shared \<Rightarrow> nat \<Rightarrow> admission_result result \<times> shared" where
  "admit sh mx =
     (if lock_poisoned sh then (Inl (Internal ''conn state lock poisoned''), sh)
      else case admit_conn (conn sh) mx of (a, c) \<Rightarrow> (Inr a, sh\<lparr>conn := c\<rparr>))"

definition release :: "shared \<Rightarrow> shared" where
  "release sh =
     (if lock_poisoned sh then sh else sh\<lparr>conn := (conn sh)\<lparr>active := active (conn sh) - 1\<rparr>\<rparr>)"

definition drop_active_guard :: "shared \<Rightarrow> shared" where
  "drop_active_guard sh =
     (if lock_poisoned sh then sh else sh\<lparr>conn := (conn sh)\<lparr>active := active (conn sh) - 1\<rparr>\<rparr>)"

text \<open>Waking the listeners changes no state here; it is the accept loops that return from \<open>accept\<close>.\<close>

definition request_shutdown :: "shared \<Rightarrow> shared" where
  "request_shutdown sh = (if lock_poisoned sh then sh else sh\<lparr>conn := (conn sh)\<lparr>shutdown := True\<rparr>\<rparr>)"

definition shutdown_requested :: "shared \<Rightarrow> bool" where
  "shutdown_requested sh = (if lock_poisoned sh then True else shutdown (conn sh))"

section \<open>The accept loop\<close>

text \<open>
  The accept loop, up to the point where a thread for the connection is spawned, given what the
  listener's \<open>accept\<close> returned; and what follows the spawning. A slot taken for a thread the
  platform would not give is given back.
\<close>

definition DEFAULT_MAX_CONNECTIONS :: nat where "DEFAULT_MAX_CONNECTIONS = 64"

datatype accept_event = Connection | AcceptInterrupted | AcceptError

datatype turn = Continue | Spawn | Stop "unit result"

definition accept_turn :: "shared \<Rightarrow> nat \<Rightarrow> accept_event \<Rightarrow> turn \<times> shared" where
  "accept_turn sh mx ev =
     (case ev of
        AcceptInterrupted \<Rightarrow> (Continue, sh)
      | AcceptError \<Rightarrow> (if shutdown_requested sh then (Stop (Inr ()), sh) else (Continue, sh))
      | Connection \<Rightarrow>
          (case admit sh mx of
             (Inl e, sh) \<Rightarrow> (Stop (Inl e), sh)
           | (Inr Full, sh) \<Rightarrow> (Continue, sh)
           | (Inr ShuttingDown, sh) \<Rightarrow> (Stop (Inr ()), sh)
           | (Inr Admitted, sh) \<Rightarrow> (Spawn, sh)))"

definition after_spawn :: "shared \<Rightarrow> bool \<Rightarrow> shared" where
  "after_spawn sh spawned = (if spawned then sh else release sh)"

section \<open>The idle watcher\<close>

datatype watcher =
    Top
  | Window nat nat
  | Asking nat
  | Requesting
  | Done

text \<open>
  One stretch of the watcher between two points where it does not hold the lock. \<open>flag\<close> is what
  the world answers: in the timed wait, whether it expired (the clock must agree); in the busy
  check, what the application says.
\<close>

fun watcher_step :: "nat \<Rightarrow> bool \<Rightarrow> nat \<Rightarrow> bool \<Rightarrow> shared \<Rightarrow> watcher \<Rightarrow> watcher \<times> shared" where
  "watcher_step timeout has_busy now flag sh Top =
     (if lock_poisoned sh then (Done, sh)
      else if active (conn sh) > 0 \<and> \<not> shutdown (conn sh) then (Top, sh)
      else if shutdown (conn sh) then (Done, sh)
      else (Window (generation (conn sh)) now, sh))"
| "watcher_step timeout has_busy now flag sh (Window gen_at_idle since) =
     (let timed_out = flag \<and> since + timeout \<le> now in
      if lock_poisoned sh then (Done, sh)
      else if shutdown (conn sh) then (Done, sh)
      else if \<not> (timed_out \<and> active (conn sh) = 0 \<and> generation (conn sh) = gen_at_idle) then (Top, sh)
      else if has_busy then (Asking gen_at_idle, sh)
      else (Requesting, sh))"
| "watcher_step timeout has_busy now busy_now sh (Asking gen_at_idle) =
     (if lock_poisoned sh then (Done, sh)
      else if shutdown (conn sh) then (Done, sh)
      else if busy_now \<or> active (conn sh) \<noteq> 0 \<or> generation (conn sh) \<noteq> gen_at_idle then (Top, sh)
      else (Requesting, sh))"
| "watcher_step timeout has_busy now flag sh Requesting = (Done, request_shutdown sh)"
| "watcher_step timeout has_busy now flag sh Done = (Done, sh)"

section \<open>The daemon\<close>

record daemon_config =
  max_connections :: nat
  idle_timeout :: nat
  has_busy_check :: bool

definition set_max_connections :: "daemon_config \<Rightarrow> nat \<Rightarrow> daemon_config" where
  "set_max_connections cfg n = cfg\<lparr>max_connections := max n 1\<rparr>"

text \<open>
  \<open>pending\<close> counts the slots whose thread is being spawned, \<open>live\<close> the connection threads, which
  hold a guard, and \<open>last_busy\<close> is the last moment at
  which a connection existed or was admitted; the code keeps none of them, they are what the
  properties compare its bookkeeping with.
\<close>

record daemon =
  sh :: shared
  pending :: nat
  live :: nat
  watch :: watcher
  clock :: nat
  last_busy :: nat

definition new_daemon :: daemon where
  "new_daemon = \<lparr>sh = new_shared, pending = 0, live = 0, watch = Top, clock = 0, last_busy = 0\<rparr>"

datatype daemon_event =
    Accept accept_event
  | Spawned bool
  | ConnectionEnds
  | Signal
  | Watch bool
  | Tick
  | Poison

definition note_busy :: "daemon \<Rightarrow> daemon" where
  "note_busy d = (if 0 < active (conn (sh d)) then d\<lparr>last_busy := clock d\<rparr> else d)"

fun daemon_step :: "daemon_config \<Rightarrow> daemon \<Rightarrow> daemon_event \<Rightarrow> daemon" where
  "daemon_step cfg d (Accept ev) =
     (case accept_turn (sh d) (max_connections cfg) ev of
        (t, s) \<Rightarrow>
          if t = Spawn then d\<lparr>sh := s, pending := pending d + 1, last_busy := clock d\<rparr> else d\<lparr>sh := s\<rparr>)"
| "daemon_step cfg d (Spawned ok) =
     (if 0 < pending d
      then (note_busy d)\<lparr>sh := after_spawn (sh d) ok, pending := pending d - 1,
             live := (if ok then live d + 1 else live d)\<rparr>
      else d)"
| "daemon_step cfg d ConnectionEnds =
     (if 0 < live d then (note_busy d)\<lparr>sh := drop_active_guard (sh d), live := live d - 1\<rparr> else d)"
| "daemon_step cfg d Signal = d\<lparr>sh := request_shutdown (sh d)\<rparr>"
| "daemon_step cfg d (Watch flag) =
     (case watcher_step (idle_timeout cfg) (has_busy_check cfg) (clock d) flag (sh d) (watch d) of
        (w, s) \<Rightarrow> d\<lparr>sh := s, watch := w\<rparr>)"
| "daemon_step cfg d Tick = note_busy (d\<lparr>clock := clock d + 1\<rparr>)"
| "daemon_step cfg d Poison = d\<lparr>sh := (sh d)\<lparr>lock_poisoned := True\<rparr>\<rparr>"


section \<open>Admission\<close>

text \<open>\<open>admit\<close> and the two ways of giving a slot back meet the admission contract.\<close>

definition claim_slot :: "nat \<Rightarrow> conn_state \<Rightarrow> conn_state option" where
  "claim_slot mx c = (case admit_conn c mx of (Admitted, c') \<Rightarrow> Some c' | _ \<Rightarrow> None)"

definition give_back :: "conn_state \<Rightarrow> conn_state" where
  "give_back c = c\<lparr>active := active c - 1\<rparr>"

interpretation slots: admission "claim_slot mx" give_back active mx for mx
  by unfold_locales (auto simp: claim_slot_def give_back_def admit_conn_def split: if_splits)

section \<open>The invariant\<close>

text \<open>
  The bookkeeping is right as long as the lock is not poisoned: the count is the number of slots
  held and within the ceiling. And what the watcher believes is true: as long as the generation it
  noted is current, there has been no connection since its window began.
\<close>

fun watcher_ok :: "nat \<Rightarrow> daemon \<Rightarrow> watcher \<Rightarrow> bool" where
  "watcher_ok timeout d (Window g since) \<longleftrightarrow>
     since \<le> clock d \<and> (generation (conn (sh d)) = g \<longrightarrow> active (conn (sh d)) = 0 \<and> last_busy d \<le> since)"
| "watcher_ok timeout d (Asking g) \<longleftrightarrow>
     (generation (conn (sh d)) = g \<longrightarrow> active (conn (sh d)) = 0 \<and> last_busy d + timeout \<le> clock d)"
| "watcher_ok timeout d _ \<longleftrightarrow> True"

fun watcher_gen :: "daemon \<Rightarrow> watcher \<Rightarrow> bool" where
  "watcher_gen d (Window g since) \<longleftrightarrow> g \<le> generation (conn (sh d))"
| "watcher_gen d (Asking g) \<longleftrightarrow> g \<le> generation (conn (sh d))"
| "watcher_gen d _ \<longleftrightarrow> True"

definition daemon_inv :: "daemon_config \<Rightarrow> daemon \<Rightarrow> bool" where
  "daemon_inv cfg d \<longleftrightarrow>
     active (conn (sh d)) \<le> max_connections cfg \<and>
     (\<not> lock_poisoned (sh d) \<longrightarrow> active (conn (sh d)) = live d + pending d) \<and>
     last_busy d \<le> clock d \<and> (\<forall>g. watch d = Asking g \<longrightarrow> has_busy_check cfg) \<and> watcher_gen d (watch d) \<and> watcher_ok (idle_timeout cfg) d (watch d)"

lemmas shared_defs = release_def drop_active_guard_def request_shutdown_def shutdown_requested_def
  admit_def admit_conn_def accept_turn_def after_spawn_def note_busy_def

lemma accept_turn_cases:
  assumes "accept_turn s mx ev = (t, s')"
  shows "(t = Spawn \<and> \<not> lock_poisoned s \<and> \<not> shutdown (conn s) \<and> active (conn s) < mx \<and>
       s' = s\<lparr>conn := (conn s)\<lparr>active := active (conn s) + 1, generation := generation (conn s) + 1\<rparr>\<rparr>) \<or>
     (t \<noteq> Spawn \<and> s' = s)"
  using assms
  by (auto simp: accept_turn_def admit_def admit_conn_def split: accept_event.splits if_splits)

lemma daemon_inv_accept: "daemon_inv cfg d \<Longrightarrow> daemon_inv cfg (daemon_step cfg d (Accept ev))"
proof -
  assume inv: "daemon_inv cfg d"
  obtain t s' where turn: "accept_turn (sh d) (max_connections cfg) ev = (t, s')" by fastforce
  from accept_turn_cases [OF turn] turn inv show ?thesis
    by (cases "watch d") (auto simp: daemon_inv_def)
qed

lemma daemon_inv_watch: "daemon_inv cfg d \<Longrightarrow> daemon_inv cfg (daemon_step cfg d (Watch flag))"
  by (cases "watch d") (auto simp: daemon_inv_def request_shutdown_def Let_def)

lemma daemon_inv_step: "daemon_inv cfg d \<Longrightarrow> daemon_inv cfg (daemon_step cfg d e)"
proof (cases e)
  case (Spawned ok)
  assume "daemon_inv cfg d"
  with Spawned show ?thesis by (cases "watch d") (auto simp: daemon_inv_def shared_defs)
next
  case ConnectionEnds
  assume "daemon_inv cfg d"
  with ConnectionEnds show ?thesis by (cases "watch d") (auto simp: daemon_inv_def shared_defs)
next
  case Signal
  assume "daemon_inv cfg d"
  with Signal show ?thesis by (cases "watch d") (auto simp: daemon_inv_def shared_defs)
next
  case Tick
  assume "daemon_inv cfg d"
  with Tick show ?thesis by (cases "watch d") (auto simp: daemon_inv_def shared_defs)
next
  case Poison
  assume "daemon_inv cfg d"
  with Poison show ?thesis by (cases "watch d") (auto simp: daemon_inv_def)
qed (auto simp del: daemon_step.simps intro: daemon_inv_accept daemon_inv_watch)

lemma daemon_inv_new: "daemon_inv cfg new_daemon"
  by (simp add: daemon_inv_def new_daemon_def new_shared_def)

text \<open>What only ever goes one way: the flag, the generation and the poison.\<close>

definition daemon_progress :: "daemon \<Rightarrow> daemon \<Rightarrow> bool" where
  "daemon_progress d d' \<longleftrightarrow>
     (shutdown (conn (sh d)) \<longrightarrow> shutdown (conn (sh d')) \<and>
        generation (conn (sh d')) = generation (conn (sh d)) \<and> live d' + pending d' \<le> live d + pending d) \<and>
     generation (conn (sh d)) \<le> generation (conn (sh d'))"

lemma daemon_step_progress: "daemon_progress d (daemon_step cfg d e)"
proof (cases e)
  case (Accept ev)
  obtain t s' where turn: "accept_turn (sh d) (max_connections cfg) ev = (t, s')" by fastforce
  from accept_turn_cases [OF turn] turn Accept show ?thesis by (auto simp: daemon_progress_def)
next
  case (Watch flag)
  then show ?thesis by (cases "watch d") (auto simp: daemon_progress_def shared_defs Let_def)
qed (auto simp: daemon_progress_def shared_defs)

interpretation daemon: monotone_machine "daemon_step cfg" "daemon_inv cfg" daemon_progress for cfg
proof
  show "daemon_progress a b \<Longrightarrow> daemon_progress b c \<Longrightarrow> daemon_progress a c" for a b c
    by (auto simp: daemon_progress_def)
qed (auto simp: daemon_progress_def [of s s for s] daemon_inv_step daemon_step_progress)

section \<open>Properties\<close>

text \<open>
  However accepts, failed spawns, disconnections, signals, the watcher and the clock
  interleave, there are never more connections than the ceiling, and unless the lock was
  poisoned the daemon's count is exactly the number of connections that hold a slot.
\<close>

theorem connections_bounded:
  "let d = foldl (daemon_step cfg) new_daemon es in
     active (conn (sh d)) \<le> max_connections cfg \<and>
     (lock_poisoned (sh d) \<or> active (conn (sh d)) = live d + pending d)"
  using daemon.run_inv [OF daemon_inv_new, of cfg es] by (auto simp: daemon_inv_def)

text \<open>
  A shutdown is final: once requested it stays requested, no connection is admitted any more
  whatever happens, and an accept loop that comes back from \<open>accept\<close> with a connection or an
  error ends.
\<close>

theorem shutdown_is_final:
  assumes "shutdown (conn (sh d))" and "daemon_inv cfg d"
  shows "let d' = foldl (daemon_step cfg) d es in
     shutdown (conn (sh d')) \<and> live d' + pending d' \<le> live d + pending d \<and>
     (\<forall>ev. ev \<noteq> AcceptInterrupted \<longrightarrow> (\<exists>r. accept_turn (sh d') (max_connections cfg) ev = (Stop r, sh d')))"
proof -
  let ?d = "foldl (daemon_step cfg) d es"
  have "daemon_progress d ?d" by (rule daemon.run_progress [OF assms(2)])
  with assms(1) have down: "shutdown (conn (sh ?d))" "live ?d + pending ?d \<le> live d + pending d"
    by (auto simp: daemon_progress_def)
  moreover have "\<exists>r. accept_turn (sh ?d) (max_connections cfg) ev = (Stop r, sh ?d)" if "ev \<noteq> AcceptInterrupted" for ev
    using that down(1) by (cases ev) (auto simp: shared_defs)
  ultimately show ?thesis by simp
qed

definition sample_daemon :: daemon_config where
  "sample_daemon = \<lparr>max_connections = 2, idle_timeout = 3, has_busy_check = True\<rparr>"

theorem shutdown_is_final_witness:
  "accept_turn (sh (foldl (daemon_step sample_daemon) new_daemon [Signal, Tick])) 2 Connection =
     (Stop (Inr ()), sh (daemon_step sample_daemon new_daemon Signal))"
proof -
  have s: "shutdown (conn (sh (daemon_step sample_daemon new_daemon Signal)))"
    by (simp add: new_daemon_def new_shared_def request_shutdown_def)
  have "daemon_inv sample_daemon (daemon_step sample_daemon new_daemon Signal)"
    by (rule daemon_inv_step [OF daemon_inv_new])
  from shutdown_is_final [OF s this, of "[Tick]"] show ?thesis
    by (simp add: new_daemon_def new_shared_def shared_defs)
qed

text \<open>
  The watcher decides to stop the daemon only when it has been idle: at the moment of the
  decision there is no connection, there was none for the whole window, no shutdown was
  requested otherwise, and an application that was asked did not object.
\<close>

theorem idle_exit_only_when_idle:
  assumes d: "d = foldl (daemon_step cfg) new_daemon es"
    and decides: "watch d \<noteq> Requesting" "watch (daemon_step cfg d (Watch flag)) = Requesting"
  shows "active (conn (sh d)) = 0 \<and> live d = 0 \<and> pending d = 0 \<and> last_busy d + idle_timeout cfg \<le> clock d \<and>
     \<not> shutdown (conn (sh d)) \<and>
     (if has_busy_check cfg then \<exists>g. watch d = Asking g \<and> \<not> flag else \<exists>g t. watch d = Window g t)"
proof -
  have "daemon_inv cfg d" unfolding d by (rule daemon.run_inv [OF daemon_inv_new])
  with decides show ?thesis
    by (cases "watch d") (auto simp: daemon_inv_def Let_def split: if_splits)
qed

theorem idle_exit_only_when_idle_witness:
  "let d = foldl (daemon_step sample_daemon) new_daemon [Watch False, Tick, Tick, Tick, Watch True]
   in watch (daemon_step sample_daemon d (Watch False)) = Requesting \<and> last_busy d + 3 \<le> clock d"
proof -
  let ?d = "foldl (daemon_step sample_daemon) new_daemon [Watch False, Tick, Tick, Tick, Watch True]"
  have w: "watch ?d \<noteq> Requesting" "watch (daemon_step sample_daemon ?d (Watch False)) = Requesting"
    by (simp_all add: sample_daemon_def new_daemon_def new_shared_def note_busy_def)
  from idle_exit_only_when_idle [OF refl w] w show ?thesis by (simp add: sample_daemon_def)
qed

lemma ticks: "active (conn (sh d)) = 0 \<Longrightarrow> foldl (daemon_step cfg) d (replicate n Tick) = d\<lparr>clock := clock d + n\<rparr>"
  by (induction n arbitrary: d) (auto simp: note_busy_def)

text \<open>
  An unused daemon does stop: from a waiting watcher and no connection, if nothing happens
  for the length of the window and the application does not object, four steps of the watcher
  later the shutdown is requested; an objection costs exactly one more window.
\<close>

theorem idle_daemon_stops:
  assumes "watch d = Top" and "active (conn (sh d)) = 0" and "\<not> shutdown (conn (sh d))" and "\<not> lock_poisoned (sh d)"
    and "idle_timeout cfg \<le> n"
  shows "let d' = foldl (daemon_step cfg) d ([Watch False] @ replicate n Tick @ [Watch True]) in
     shutdown (conn (sh (foldl (daemon_step cfg) d' [Watch False, Watch False]))) \<and>
     (has_busy_check cfg \<longrightarrow> daemon_step cfg d' (Watch True) = d\<lparr>clock := clock d + n\<rparr>)"
  using assms by (auto simp: ticks Let_def request_shutdown_def)

theorem idle_daemon_stops_witness:
  "shutdown (conn (sh (foldl (daemon_step sample_daemon) new_daemon
     ([Watch False] @ replicate 3 Tick @ [Watch True] @ [Watch False, Watch False]))))"
proof -
  have "watch new_daemon = Top" "active (conn (sh new_daemon)) = 0" "\<not> shutdown (conn (sh new_daemon))"
    "\<not> lock_poisoned (sh new_daemon)" "idle_timeout sample_daemon \<le> 3"
    by (simp_all add: new_daemon_def new_shared_def sample_daemon_def)
  from idle_daemon_stops [OF this] show ?thesis by (simp add: Let_def del: daemon_step.simps)
qed

text \<open>
  The decision and the request are two acquisitions of the lock. A connection accepted in
  between is admitted and the daemon stops under it.
\<close>

lemma idle_exit_race:
  "let d = foldl (daemon_step sample_daemon) new_daemon
       [Watch False, Tick, Tick, Tick, Watch True, Watch False, Accept Connection, Spawned True, Watch False]
   in shutdown (conn (sh d)) \<and> live d = 1"
  by (simp add: sample_daemon_def new_daemon_def new_shared_def shared_defs)

end
