(* ===== verification/Socket_Claim.thy ===== *)
theory Socket_Claim
  imports JsonRpc
begin

text \<open>
  Who may touch a daemon's socket path (\<open>socket.rs\<close>), what a daemon does around binding it
  (\<open>transport/unix_server.rs\<close>) and how a shim finds a daemon or starts one (\<open>bridge.rs\<close>). A function
  that talks to the operating system is the tree of its system calls, with a branch for every
  reply; the machine runs any number of such processes in any order, a call at a time, together
  with other accounts, deaths and time. A loop that polls until a deadline has fuel, and its tree
  ends in \<open>Spent\<close> where the fuel would run out; the fuel given suffices because every turn of the loop
  sleeps. Paths are strings, and the socket, its lock file and its PID file are three different files.
  The properties: a daemon that serves is reachable at its path and is alone, no matter what other
  daemons and shims do; and no process ever runs out of fuel.
\<close>

section \<open>Paths\<close>

text \<open>\<open>Path::set_extension\<close>, on a path read backwards: trailing separators do not count.\<close>

fun trim_tail :: "string \<Rightarrow> string" where
  "trim_tail [] = []"
| "trim_tail (c # s) =
     (if c = CHR ''/'' then trim_tail s
      else if c = CHR ''.'' \<and> s \<noteq> [] \<and> hd s = CHR ''/'' then trim_tail s
      else c # s)"

definition file_stem :: "string \<Rightarrow> string" where
  "file_stem name =
     (case dropWhile (\<lambda>c. c \<noteq> CHR ''.'') (rev name) of
        [] \<Rightarrow> name
      | _ # before \<Rightarrow> if before = [] then name else rev before)"

definition set_extension :: "string \<Rightarrow> string \<Rightarrow> string" where
  "set_extension ext p =
     (let r = trim_tail (rev p);
          name = rev (takeWhile (\<lambda>c. c \<noteq> CHR ''/'') r);
          dir = rev (dropWhile (\<lambda>c. c \<noteq> CHR ''/'') r)
      in if name \<in> {[], ''.'', ''..''} then p else dir @ file_stem name @ ''.'' @ ext)"

definition lock_path_for :: "string \<Rightarrow> string" where
  "lock_path_for p = set_extension ''lock'' p"

definition pid_path_for :: "string \<Rightarrow> string" where
  "pid_path_for p = set_extension ''pid'' p"

text \<open>\<open>Path::parent\<close>.\<close>

definition parent_of :: "string \<Rightarrow> string option" where
  "parent_of p =
     (let r = trim_tail (rev p); above = dropWhile (\<lambda>c. c \<noteq> CHR ''/'') r; dir = rev (trim_tail above)
      in if r = [] then None else Some (if above \<noteq> [] \<and> dir = [] then ''/'' else dir))"

text \<open>\<open>Path::join\<close> of a relative component.\<close>

definition path_join :: "string \<Rightarrow> string \<Rightarrow> string" where
  "path_join dir p =
     (if starts_with ''/'' p then p
      else if dir = [] \<or> ends_with ''/'' dir then dir @ p else dir @ ''/'' @ p)"

definition STATE_HOME :: string where
  "STATE_HOME = ''.local/state''"

definition socket_path_from :: "string option \<Rightarrow> string option \<Rightarrow> string \<Rightarrow> nat \<Rightarrow> string \<Rightarrow> string \<Rightarrow> string" where
  "socket_path_from runtime_dir home temp_dir uid app file =
     (let usable = (\<lambda>v. case v of Some s \<Rightarrow> if s = [] then None else Some s | None \<Rightarrow> None)
      in case usable runtime_dir of
           Some runtime \<Rightarrow> path_join (path_join runtime app) file
         | None \<Rightarrow>
             (case usable home of
                Some home \<Rightarrow> path_join (path_join (path_join home STATE_HOME) app) file
              | None \<Rightarrow> path_join (path_join temp_dir (app @ ''-'' @ show_nat uid)) file))"

section \<open>Programs over system calls\<close>

datatype errno = ECONNREFUSED | ENOENT | ENOTSOCK | EWOULDBLOCK | EPERM | OtherErrno nat

record os_error =
  raw_os_error :: "errno option"
  os_text :: string

text \<open>
  A system call and what is done with its reply. A connection is named by the socket behind it;
  \<open>ServeListeners\<close> returns when the daemon has been asked to stop.
\<close>

datatype 'a prog =
    Done 'a
  | Spent
  | Lstat "nat option \<Rightarrow> 'a prog"
  | Stat "nat option \<Rightarrow> 'a prog"
  | Exists "bool \<Rightarrow> 'a prog"
  | Connect "os_error + nat \<Rightarrow> 'a prog"
  | CloneStream "os_error + unit \<Rightarrow> 'a prog"
  | OpenLock "os_error + unit \<Rightarrow> 'a prog"
  | Flock "os_error + unit \<Rightarrow> 'a prog"
  | Unlock "'a prog"
  | RemoveSocket "os_error + unit \<Rightarrow> 'a prog"
  | RemovePid "os_error + unit \<Rightarrow> 'a prog"
  | ReadPid "string option \<Rightarrow> 'a prog"
  | Kill0 int "os_error + unit \<Rightarrow> 'a prog"
  | SpawnDaemon "os_error + unit \<Rightarrow> 'a prog"
  | Now "nat \<Rightarrow> 'a prog"
  | Sleep nat "'a prog"
  | MakeDir "os_error + unit \<Rightarrow> 'a prog"
  | BindPath "os_error + nat \<Rightarrow> 'a prog"
  | Listen nat "os_error + unit \<Rightarrow> 'a prog"
  | CloseListener nat "'a prog"
  | InstallSignals "os_error + unit \<Rightarrow> 'a prog"
  | PublishPid "os_error + unit \<Rightarrow> 'a prog"
  | DetachStdio "os_error + unit \<Rightarrow> 'a prog"
  | ServeListeners nat "unit result \<Rightarrow> 'a prog"

primrec and_do :: "'a prog \<Rightarrow> ('a \<Rightarrow> 'b prog) \<Rightarrow> 'b prog" where
  "and_do (Done x) f = f x"
| "and_do Spent f = Spent"
| "and_do (Lstat k) f = Lstat (\<lambda>r. and_do (k r) f)"
| "and_do (Stat k) f = Stat (\<lambda>r. and_do (k r) f)"
| "and_do (Exists k) f = Exists (\<lambda>r. and_do (k r) f)"
| "and_do (Connect k) f = Connect (\<lambda>r. and_do (k r) f)"
| "and_do (CloneStream k) f = CloneStream (\<lambda>r. and_do (k r) f)"
| "and_do (OpenLock k) f = OpenLock (\<lambda>r. and_do (k r) f)"
| "and_do (Flock k) f = Flock (\<lambda>r. and_do (k r) f)"
| "and_do (Unlock c) f = Unlock (and_do c f)"
| "and_do (RemoveSocket k) f = RemoveSocket (\<lambda>r. and_do (k r) f)"
| "and_do (RemovePid k) f = RemovePid (\<lambda>r. and_do (k r) f)"
| "and_do (ReadPid k) f = ReadPid (\<lambda>r. and_do (k r) f)"
| "and_do (Kill0 p k) f = Kill0 p (\<lambda>r. and_do (k r) f)"
| "and_do (SpawnDaemon k) f = SpawnDaemon (\<lambda>r. and_do (k r) f)"
| "and_do (Now k) f = Now (\<lambda>r. and_do (k r) f)"
| "and_do (Sleep d c) f = Sleep d (and_do c f)"
| "and_do (MakeDir k) f = MakeDir (\<lambda>r. and_do (k r) f)"
| "and_do (BindPath k) f = BindPath (\<lambda>r. and_do (k r) f)"
| "and_do (Listen i k) f = Listen i (\<lambda>r. and_do (k r) f)"
| "and_do (CloseListener i c) f = CloseListener i (and_do c f)"
| "and_do (InstallSignals k) f = InstallSignals (\<lambda>r. and_do (k r) f)"
| "and_do (PublishPid k) f = PublishPid (\<lambda>r. and_do (k r) f)"
| "and_do (DetachStdio k) f = DetachStdio (\<lambda>r. and_do (k r) f)"
| "and_do (ServeListeners i k) f = ServeListeners i (\<lambda>r. and_do (k r) f)"

text \<open>What a process is about: its socket path, its user, and how a duration prints.\<close>

record place =
  socket_path :: string
  my_uid :: nat
  show_span :: "nat \<Rightarrow> string"

section \<open>Ownership and the claim\<close>

definition owned_by_current_user :: "place \<Rightarrow> bool option prog" where
  "owned_by_current_user pl =
     Lstat (\<lambda>r. case r of
         None \<Rightarrow> Done None
       | Some u \<Rightarrow>
           if u \<noteq> my_uid pl then Done (Some False)
           else Stat (\<lambda>r. Done (map_option (\<lambda>u. u = my_uid pl) r)))"

text \<open>\<open>SocketLock::acquire\<close>; a claim taken is released by \<open>Unlock\<close>.\<close>

definition acquire :: "place \<Rightarrow> bool result prog" where
  "acquire pl =
     (let lock = lock_path_for (socket_path pl)
      in OpenLock (\<lambda>r. case r of
           Inl e \<Rightarrow> Done (Inl (Internal (''could not open '' @ lock @ '' to claim the socket path: '' @ os_text e)))
         | Inr _ \<Rightarrow>
             Flock (\<lambda>r. case r of
                 Inr _ \<Rightarrow> Done (Inr True)
               | Inl e \<Rightarrow>
                   if raw_os_error e = Some EWOULDBLOCK then Done (Inr False)
                   else Done (Inl (Internal (''could not lock '' @ lock @ '': '' @ os_text e))))))"

text \<open>\<open>UnixTransport::connect\<close>: the connection has to be cloned into its two halves.\<close>

definition connect_transport :: "nat result prog" where
  "connect_transport =
     Connect (\<lambda>r. case r of
         Inl e \<Rightarrow> Done (Inl (Io (os_text e)))
       | Inr i \<Rightarrow> CloneStream (\<lambda>r. Done (case r of Inl e \<Rightarrow> Inl (Io (os_text e)) | Inr _ \<Rightarrow> Inr i)))"

definition ensure_private_parent_dir :: "place \<Rightarrow> unit result prog" where
  "ensure_private_parent_dir pl =
     (case parent_of (socket_path pl) of
        None \<Rightarrow> Done (Inr ())
      | Some dir \<Rightarrow>
          if dir = [] then Done (Inr ())
          else MakeDir (\<lambda>r. Done (case r of
                 Inl e \<Rightarrow> Inl (Internal (''failed to create socket directory '' @ dir @ '': '' @ os_text e))
               | Inr _ \<Rightarrow> Inr ())))"

section \<open>The daemon\<close>

definition in_use :: "place \<Rightarrow> mcp_error" where
  "in_use pl = Internal (''socket '' @ socket_path pl @ '' is already in use by a live server'')"

definition claim_socket_path :: "place \<Rightarrow> unit result prog" where
  "claim_socket_path pl =
     and_do (acquire pl) (\<lambda>r. case r of
         Inl e \<Rightarrow> Done (Inl e)
       | Inr True \<Rightarrow> Done (Inr ())
       | Inr False \<Rightarrow>
           Connect (\<lambda>r. Done (Inl (case r of
               Inr _ \<Rightarrow> in_use pl
             | Inl _ \<Rightarrow> Internal (''socket '' @ socket_path pl @
                 '' is being claimed by another starting server - refusing to bind over it'')))))"

definition prepare_socket_path :: "place \<Rightarrow> unit result prog" where
  "prepare_socket_path pl =
     Lstat (\<lambda>r. case r of
         None \<Rightarrow> Done (Inr ())
       | Some _ \<Rightarrow>
           and_do (owned_by_current_user pl) (\<lambda>mine.
             if mine = Some False
             then Done (Inl (Internal (''socket '' @ socket_path pl @ '' belongs to another user - refusing to serve on it'')))
             else Connect (\<lambda>r. case r of
                 Inr _ \<Rightarrow> Done (Inl (in_use pl))
               | Inl _ \<Rightarrow> RemoveSocket (\<lambda>r. Done (case r of Inl e \<Rightarrow> Inl (Io (os_text e)) | Inr _ \<Rightarrow> Inr ())))))"

text \<open>\<open>cleanup\<close>: the socket file, and the PID file of a daemon that has one.\<close>

definition cleanup :: "bool \<Rightarrow> unit prog" where
  "cleanup with_pid = RemoveSocket (\<lambda>_. if with_pid then RemovePid (\<lambda>_. Done ()) else Done ())"

text \<open>Leaving \<open>run\<close> early drops what it holds: the listener, when there is one, then the claim.\<close>

definition give_up_listener :: "nat \<Rightarrow> mcp_error \<Rightarrow> unit result prog" where
  "give_up_listener i e = CloseListener i (Unlock (Done (Inl e)))"

text \<open>
  \<open>UnixServer::run\<close> around the accept loop. Binding is two system calls, between which a connect is
  refused; \<open>with_pid\<close> is the daemon mode, after the forks.
\<close>

definition run_daemon :: "place \<Rightarrow> bool \<Rightarrow> unit result prog" where
  "run_daemon pl with_pid =
     and_do (ensure_private_parent_dir pl) (\<lambda>r. case r of Inl e \<Rightarrow> Done (Inl e) | Inr _ \<Rightarrow>
     and_do (claim_socket_path pl) (\<lambda>r. case r of Inl e \<Rightarrow> Done (Inl e) | Inr _ \<Rightarrow>
     and_do (prepare_socket_path pl) (\<lambda>r. case r of Inl e \<Rightarrow> Unlock (Done (Inl e)) | Inr _ \<Rightarrow>
     BindPath (\<lambda>r. case r of
         Inl e \<Rightarrow> Unlock (Done (Inl (Internal (''failed to bind '' @ socket_path pl @ '': '' @ os_text e))))
       | Inr i \<Rightarrow>
     Listen i (\<lambda>r. case r of
         Inl e \<Rightarrow> give_up_listener i (Internal (''failed to bind '' @ socket_path pl @ '': '' @ os_text e))
       | Inr _ \<Rightarrow>
     InstallSignals (\<lambda>r. case r of Inl e \<Rightarrow> give_up_listener i (Io (os_text e)) | Inr _ \<Rightarrow>
       (let serve = ServeListeners i (\<lambda>r. and_do (cleanup with_pid) (\<lambda>_. CloseListener i (Unlock (Done r))))
        in if \<not> with_pid then serve
           else PublishPid (\<lambda>r. case r of Inl e \<Rightarrow> give_up_listener i (Io (os_text e)) | Inr _ \<Rightarrow>
                DetachStdio (\<lambda>r. case r of Inl e \<Rightarrow> give_up_listener i (Io (os_text e)) | Inr _ \<Rightarrow> serve)))))))))"

section \<open>The shim\<close>

definition STARTUP_GRACE :: nat where "STARTUP_GRACE = 2000"
definition READY_TIMEOUT :: nat where "READY_TIMEOUT = 10000"
definition PROBE_ATTEMPTS :: nat where "PROBE_ATTEMPTS = 3"
definition PROBE_GAP :: nat where "PROBE_GAP = 50"

text \<open>\<open>str::parse::<i32>\<close>.\<close>

definition parse_i32 :: "string \<Rightarrow> int option" where
  "parse_i32 s =
     (if s \<noteq> [] \<and> hd s = CHR ''-'' \<and> tl s \<noteq> [] \<and> list_all is_ascii_digit (tl s)
      then (if read_digits (tl s) \<le> 2 ^ 31 then Some (- int (read_digits (tl s))) else None)
      else map_option int (parse_uint (2 ^ 31) s))"

definition read_pid_file :: "int option prog" where
  "read_pid_file = ReadPid (\<lambda>r. Done (Option.bind r (\<lambda>text. parse_i32 (trim text))))"

definition process_alive :: "int \<Rightarrow> bool prog" where
  "process_alive pid =
     (if pid \<le> 0 then Done False
      else Kill0 pid (\<lambda>r. Done (case r of Inr _ \<Rightarrow> True | Inl e \<Rightarrow> raw_os_error e = Some EPERM)))"

datatype probe = Live nat | Dead | Unknown

definition is_unreachable :: "os_error \<Rightarrow> bool" where
  "is_unreachable e \<longleftrightarrow> raw_os_error e \<in> {Some ECONNREFUSED, Some ENOENT, Some ENOTSOCK}"

text \<open>The attempts that remain; every one but the first comes after a pause.\<close>

fun probe_loop :: "nat \<Rightarrow> bool \<Rightarrow> nat \<Rightarrow> probe \<Rightarrow> probe prog" where
  "probe_loop 0 first gap verdict = Done verdict"
| "probe_loop (Suc n) first gap verdict =
     (let attempt = Connect (\<lambda>r. case r of
            Inr i \<Rightarrow> CloneStream (\<lambda>r. Done (case r of Inr _ \<Rightarrow> Live i | Inl _ \<Rightarrow> Unknown))
          | Inl e \<Rightarrow> if is_unreachable e then probe_loop n False gap Dead else Done Unknown)
      in if first then attempt else Sleep gap attempt)"

definition probe_socket :: "place \<Rightarrow> nat \<Rightarrow> nat \<Rightarrow> probe prog" where
  "probe_socket pl attempts gap =
     and_do (owned_by_current_user pl) (\<lambda>mine.
       if mine = Some False then Done Unknown else probe_loop attempts True gap Unknown)"

definition clear_socket :: "place \<Rightarrow> bool \<Rightarrow> nat option prog" where
  "clear_socket pl with_pid =
     and_do (acquire pl) (\<lambda>r.
       if r \<noteq> Inr True
       then and_do connect_transport (\<lambda>r. Done (case r of Inr t \<Rightarrow> Some t | Inl _ \<Rightarrow> None))
       else and_do (probe_socket pl PROBE_ATTEMPTS PROBE_GAP) (\<lambda>v. case v of
           Live t \<Rightarrow> Unlock (Done (Some t))
         | Dead \<Rightarrow>
             RemoveSocket (\<lambda>_. if with_pid then RemovePid (\<lambda>_. Unlock (Done None)) else Unlock (Done None))
         | Unknown \<Rightarrow> Unlock (Done None)))"

text \<open>\<open>wait_for_socket\<close> polls every 25 milliseconds, so \<open>polls_for\<close> turns reach the deadline.\<close>

fun wait_loop :: "place \<Rightarrow> nat \<Rightarrow> nat \<Rightarrow> nat option prog" where
  "wait_loop pl 0 deadline = Spent"
| "wait_loop pl (Suc n) deadline =
     and_do (owned_by_current_user pl) (\<lambda>mine.
       if mine = Some False then Done None
       else and_do connect_transport (\<lambda>r. case r of
           Inr t \<Rightarrow> Done (Some t)
         | Inl _ \<Rightarrow> Now (\<lambda>t. if deadline \<le> t then Done None else Sleep 25 (wait_loop pl n deadline))))"

definition polls_for :: "nat \<Rightarrow> nat" where
  "polls_for timeout = timeout div 25 + 2"

definition wait_for_socket :: "place \<Rightarrow> nat \<Rightarrow> nat option prog" where
  "wait_for_socket pl timeout = Now (\<lambda>t. wait_loop pl (polls_for timeout) (t + timeout))"

definition spawn_daemon :: "string \<Rightarrow> unit result prog" where
  "spawn_daemon bin =
     SpawnDaemon (\<lambda>r. Done (case r of
         Inl e \<Rightarrow> Inl (Internal (''failed to spawn daemon `'' @ bin @ ''`: '' @ os_text e))
       | Inr _ \<Rightarrow> Inr ()))"

text \<open>The end of \<open>auto_start_inner\<close>: a daemon of its own.\<close>

definition start_own :: "place \<Rightarrow> string \<Rightarrow> nat \<Rightarrow> nat result prog" where
  "start_own pl bin ready =
     and_do (spawn_daemon bin) (\<lambda>r. case r of Inl e \<Rightarrow> Done (Inl e) | Inr _ \<Rightarrow>
     and_do (wait_for_socket pl ready) (\<lambda>r. case r of
         Some t \<Rightarrow> Done (Inr t)
       | None \<Rightarrow> Done (Inl (Internal (''daemon `'' @ bin @ ''` did not start listening on '' @ socket_path pl @
           '' within '' @ show_span pl ready)))))"

text \<open>A step that may find a connection; otherwise go on.\<close>

definition unless_found :: "nat option prog \<Rightarrow> nat result prog \<Rightarrow> nat result prog" where
  "unless_found c rest = and_do c (\<lambda>r. case r of Some t \<Rightarrow> Done (Inr t) | None \<Rightarrow> rest)"

definition auto_start_inner :: "place \<Rightarrow> string \<Rightarrow> nat \<Rightarrow> nat \<Rightarrow> nat result prog" where
  "auto_start_inner pl bin grace ready =
     and_do (owned_by_current_user pl) (\<lambda>mine.
       if mine = Some False
       then Done (Inl (Internal (''socket '' @ socket_path pl @ '' belongs to another user - refusing to connect'')))
       else and_do connect_transport (\<lambda>r. case r of Inr t \<Rightarrow> Done (Inr t) | Inl _ \<Rightarrow>
         Exists (\<lambda>there.
           if there
           then and_do read_pid_file (\<lambda>pid. case pid of
               Some pid \<Rightarrow> and_do (process_alive pid) (\<lambda>alive.
                 if alive
                 then unless_found (wait_for_socket pl grace)
                        (unless_found (clear_socket pl True) (start_own pl bin ready))
                 else unless_found (clear_socket pl True) (start_own pl bin ready))
             | None \<Rightarrow> unless_found (clear_socket pl False) (start_own pl bin ready))
           else and_do read_pid_file (\<lambda>pid. case pid of
               None \<Rightarrow> start_own pl bin ready
             | Some pid \<Rightarrow> and_do (process_alive pid) (\<lambda>alive.
                 let go_on = RemovePid (\<lambda>_. start_own pl bin ready)
                 in if alive then unless_found (wait_for_socket pl grace) go_on else go_on)))))"

definition auto_start :: "place \<Rightarrow> string \<Rightarrow> nat result prog" where
  "auto_start pl bin = auto_start_inner pl bin STARTUP_GRACE READY_TIMEOUT"

section \<open>The machine\<close>

text \<open>
  What lies at the socket path: who owns the entry, and what it resolves to, an owner and a socket.
  The processes of this user listen through \<open>listening\<close>; other accounts may listen on sockets of
  their own.
\<close>

record node =
  link_owner :: nat
  target :: "(nat \<times> nat) option"

record machine_state =
  node_at :: "node option"
  listening :: "nat \<Rightarrow> nat option"
  foreign_listening :: "nat set"
  claimed_by :: "nat option"
  pid_text :: "string option"
  ticks :: nat
  next_socket :: nat

datatype process = Shim "nat result prog" | Daemon "unit result prog"

record universe =
  os :: machine_state
  procs :: "nat \<Rightarrow> process option"

text \<open>
  One call of process \<open>p\<close> of user \<open>uid\<close>. Any call that can fail may fail at any time, with any error,
  unless the rule says otherwise; a lookup may fail as well. A claim is exclusive, a path is bound
  only when nothing is there, and a connection is made only to a socket somebody listens on.
\<close>

inductive call_step :: "nat \<Rightarrow> nat \<Rightarrow> 'a prog \<Rightarrow> machine_state \<Rightarrow> 'a prog \<Rightarrow> machine_state \<Rightarrow> bool" for p uid where
  lstat: "r = None \<or> r = map_option link_owner (node_at s) \<Longrightarrow> call_step p uid (Lstat k) s (k r) s"
| stat: "r = None \<or> r = map_option fst (Option.bind (node_at s) target) \<Longrightarrow> call_step p uid (Stat k) s (k r) s"
| exist: "\<not> there \<or> Option.bind (node_at s) target \<noteq> None \<Longrightarrow> call_step p uid (Exists k) s (k there) s"
| connected: "Option.bind (node_at s) target = Some (u, i) \<Longrightarrow> listening s i \<noteq> None \<or> i \<in> foreign_listening s \<Longrightarrow>
    call_step p uid (Connect k) s (k (Inr i)) s"
| connect_failed: "call_step p uid (Connect k) s (k (Inl e)) s"
| clone: "call_step p uid (CloneStream k) s (k r) s"
| open_lock: "call_step p uid (OpenLock k) s (k r) s"
| flock: "claimed_by s = None \<Longrightarrow> call_step p uid (Flock k) s (k (Inr ())) (s\<lparr>claimed_by := Some p\<rparr>)"
| flock_failed: "call_step p uid (Flock k) s (k (Inl e)) s"
| unlock: "call_step p uid (Unlock c) s c (s\<lparr>claimed_by := None\<rparr>)"
| remove_socket: "call_step p uid (RemoveSocket k) s (k (Inr ())) (s\<lparr>node_at := None\<rparr>)"
| remove_socket_failed: "call_step p uid (RemoveSocket k) s (k (Inl e)) s"
| remove_pid: "call_step p uid (RemovePid k) s (k (Inr ())) (s\<lparr>pid_text := None\<rparr>)"
| remove_pid_failed: "call_step p uid (RemovePid k) s (k (Inl e)) s"
| read_pid: "r = None \<or> r = pid_text s \<Longrightarrow> call_step p uid (ReadPid k) s (k r) s"
| kill: "call_step p uid (Kill0 q k) s (k r) s"
| spawn: "call_step p uid (SpawnDaemon k) s (k r) s"
| now: "call_step p uid (Now k) s (k (ticks s)) s"
| sleep: "call_step p uid (Sleep d c) s c (s\<lparr>ticks := ticks s + d + late\<rparr>)"
| make_dir: "call_step p uid (MakeDir k) s (k r) s"
| bound: "node_at s = None \<Longrightarrow> call_step p uid (BindPath k) s (k (Inr (next_socket s)))
    (s\<lparr>node_at := Some \<lparr>link_owner = uid, target = Some (uid, next_socket s)\<rparr>, next_socket := Suc (next_socket s)\<rparr>)"
| bind_failed: "call_step p uid (BindPath k) s (k (Inl e)) s"
| listens: "call_step p uid (Listen i k) s (k (Inr ())) (s\<lparr>listening := (listening s)(i := Some p)\<rparr>)"
| listen_failed: "call_step p uid (Listen i k) s (k (Inl e)) s"
| closed: "call_step p uid (CloseListener i c) s c (s\<lparr>listening := (listening s)(i := None)\<rparr>)"
| signals: "call_step p uid (InstallSignals k) s (k r) s"
| publish: "call_step p uid (PublishPid k) s (k (Inr ())) (s\<lparr>pid_text := Some (show_nat p @ [CHR 0x0A])\<rparr>)"
| publish_failed: "call_step p uid (PublishPid k) s (k (Inl e)) s"
| detach: "call_step p uid (DetachStdio k) s (k r) s"
| served: "call_step p uid (ServeListeners i k) s (k r) s"

text \<open>
  The machine: processes start, each by its program, and take calls in any order; a process may die
  at any moment, which closes its sockets and gives back its claim but leaves the files; other
  accounts do as they like with what is not this user's, and time passes.
\<close>

inductive machine_step :: "place \<Rightarrow> universe \<Rightarrow> universe \<Rightarrow> bool" for pl where
  shim_call: "procs w p = Some (Shim c) \<Longrightarrow> call_step p (my_uid pl) c (os w) c' s' \<Longrightarrow>
    machine_step pl w \<lparr>os = s', procs = (procs w)(p := Some (Shim c'))\<rparr>"
| daemon_call: "procs w p = Some (Daemon c) \<Longrightarrow> call_step p (my_uid pl) c (os w) c' s' \<Longrightarrow>
    machine_step pl w \<lparr>os = s', procs = (procs w)(p := Some (Daemon c'))\<rparr>"
| start_shim: "procs w p = None \<Longrightarrow>
    machine_step pl w (w\<lparr>procs := (procs w)(p := Some (Shim (auto_start_inner pl bin grace ready)))\<rparr>)"
| start_daemon: "procs w p = None \<Longrightarrow>
    machine_step pl w (w\<lparr>procs := (procs w)(p := Some (Daemon (run_daemon pl with_pid)))\<rparr>)"
| dies: "machine_step pl w
    \<lparr>os = (os w)\<lparr>listening := (\<lambda>i. if listening (os w) i = Some p then None else listening (os w) i),
        claimed_by := (if claimed_by (os w) = Some p then None else claimed_by (os w))\<rparr>,
     procs = (procs w)(p := None)\<rparr>"
| other_account: "(case node_at (os w) of None \<Rightarrow> True | Some n \<Rightarrow> link_owner n \<noteq> my_uid pl) \<Longrightarrow>
    (case n' of None \<Rightarrow> True | Some n \<Rightarrow> link_owner n \<noteq> my_uid pl) \<Longrightarrow>
    machine_step pl w (w\<lparr>os := (os w)\<lparr>node_at := n', foreign_listening := f,
      next_socket := next_socket (os w) + new\<rparr>\<rparr>)"
| elapse: "machine_step pl w (w\<lparr>os := (os w)\<lparr>ticks := ticks (os w) + t\<rparr>\<rparr>)"

definition idle_machine :: universe where
  "idle_machine = \<lparr>os = \<lparr>node_at = None, listening = (\<lambda>_. None), foreign_listening = {}, claimed_by = None,
     pid_text = None, ticks = 0, next_socket = 0\<rparr>, procs = (\<lambda>_. None)\<rparr>"

inductive machine_reachable :: "place \<Rightarrow> universe \<Rightarrow> bool" for pl where
  start: "machine_reachable pl idle_machine"
| step: "machine_reachable pl w \<Longrightarrow> machine_step pl w w' \<Longrightarrow> machine_reachable pl w'"

inductive_cases call_stepE: "call_step p uid c s c' s'"

section \<open>The discipline of the claim\<close>

text \<open>What a process has in hand, and what each call may do with it; \<open>Q\<close> is about the end.\<close>

datatype grip = Free | Claimed | Bound nat | Listening nat | Withdrawn nat

primrec keeps :: "'a prog \<Rightarrow> ('a \<Rightarrow> grip \<Rightarrow> bool) \<Rightarrow> grip \<Rightarrow> bool" where
  "keeps (Done x) Q g = Q x g"
| "keeps Spent Q g = True"
| "keeps (Lstat k) Q g = (\<forall>r. keeps (k r) Q g)"
| "keeps (Stat k) Q g = (\<forall>r. keeps (k r) Q g)"
| "keeps (Exists k) Q g = (\<forall>r. keeps (k r) Q g)"
| "keeps (Connect k) Q g = (\<forall>r. keeps (k r) Q g)"
| "keeps (CloneStream k) Q g = (\<forall>r. keeps (k r) Q g)"
| "keeps (OpenLock k) Q g = (\<forall>r. keeps (k r) Q g)"
| "keeps (Flock k) Q g = (g = Free \<and> keeps (k (Inr ())) Q Claimed \<and> (\<forall>e. keeps (k (Inl e)) Q Free))"
| "keeps (Unlock c) Q g = (g = Claimed \<and> keeps c Q Free)"
| "keeps (RemoveSocket k) Q g =
     (g = Claimed \<and> (\<forall>r. keeps (k r) Q Claimed) \<or> (\<exists>i. g = Listening i \<and> (\<forall>r. keeps (k r) Q (Withdrawn i))))"
| "keeps (RemovePid k) Q g = (\<forall>r. keeps (k r) Q g)"
| "keeps (ReadPid k) Q g = (\<forall>r. keeps (k r) Q g)"
| "keeps (Kill0 p k) Q g = (\<forall>r. keeps (k r) Q g)"
| "keeps (SpawnDaemon k) Q g = (\<forall>r. keeps (k r) Q g)"
| "keeps (Now k) Q g = (\<forall>r. keeps (k r) Q g)"
| "keeps (Sleep d c) Q g = keeps c Q g"
| "keeps (MakeDir k) Q g = (\<forall>r. keeps (k r) Q g)"
| "keeps (BindPath k) Q g =
     (g = Claimed \<and> (\<forall>i. keeps (k (Inr i)) Q (Bound i)) \<and> (\<forall>e. keeps (k (Inl e)) Q Claimed))"
| "keeps (Listen i k) Q g =
     (g = Bound i \<and> keeps (k (Inr ())) Q (Listening i) \<and> (\<forall>e. keeps (k (Inl e)) Q (Bound i)))"
| "keeps (CloseListener i c) Q g = (g \<in> {Bound i, Listening i, Withdrawn i} \<and> keeps c Q Claimed)"
| "keeps (InstallSignals k) Q g = (\<forall>r. keeps (k r) Q g)"
| "keeps (PublishPid k) Q g = (\<forall>r. keeps (k r) Q g)"
| "keeps (DetachStdio k) Q g = (\<forall>r. keeps (k r) Q g)"
| "keeps (ServeListeners i k) Q g = (g = Listening i \<and> (\<forall>r. keeps (k r) Q g))"

lemma keeps_and_do [simp]: "keeps (and_do c f) Q g = keeps c (\<lambda>x g. keeps (f x) Q g) g"
  by (induction c arbitrary: g) auto

lemma keeps_mono: "keeps c Q g \<Longrightarrow> (\<And>x g. Q x g \<Longrightarrow> R x g) \<Longrightarrow> keeps c R g"
proof (induction c arbitrary: g)
  case (RemoveSocket k)
  then show ?case by (auto; blast)
qed auto

text \<open>What only looks keeps everything.\<close>

lemma keeps_owned [intro]: "(\<And>r. Q r g) \<Longrightarrow> keeps (owned_by_current_user pl) Q g"
  by (auto simp: owned_by_current_user_def split: option.splits)

lemma keeps_connect [intro]: "(\<And>r. Q r g) \<Longrightarrow> keeps connect_transport Q g"
  by (auto simp: connect_transport_def split: sum.splits)

lemma keeps_read_pid [intro]: "(\<And>r. Q r g) \<Longrightarrow> keeps read_pid_file Q g"
  by (auto simp: read_pid_file_def)

lemma keeps_alive [intro]: "(\<And>r. Q r g) \<Longrightarrow> keeps (process_alive pid) Q g"
  by (auto simp: process_alive_def)

lemma keeps_parent_dir [intro]: "(\<And>r. Q r g) \<Longrightarrow> keeps (ensure_private_parent_dir pl) Q g"
  by (auto simp: ensure_private_parent_dir_def split: option.splits)

lemma keeps_spawn [intro]: "(\<And>r. Q r g) \<Longrightarrow> keeps (spawn_daemon bin) Q g"
  by (auto simp: spawn_daemon_def)

lemma keeps_probe_loop: "(\<And>v. Q v g) \<Longrightarrow> keeps (probe_loop n first gap v) Q g"
  by (induction n arbitrary: first v) (auto simp: Let_def split: sum.splits)

lemma keeps_probe [intro]: "(\<And>v. Q v g) \<Longrightarrow> keeps (probe_socket pl n gap) Q g"
  by (auto simp: probe_socket_def intro!: keeps_owned keeps_probe_loop)

lemma keeps_wait_loop: "(\<And>r. Q r g) \<Longrightarrow> keeps (wait_loop pl n deadline) Q g"
  by (induction n) (auto intro!: keeps_owned keeps_connect split: sum.splits)

lemma keeps_wait [intro]: "(\<And>r. Q r g) \<Longrightarrow> keeps (wait_for_socket pl timeout) Q g"
  by (auto simp: wait_for_socket_def intro!: keeps_wait_loop)

lemma keeps_start_own [intro]: "(\<And>r. Q r g) \<Longrightarrow> keeps (start_own pl bin ready) Q g"
  by (auto simp: start_own_def intro!: keeps_spawn keeps_wait split: sum.splits option.splits)

text \<open>The claim and what is done under it.\<close>

lemma keeps_acquire:
  assumes "Q (Inr True) Claimed" and "\<And>r. r \<noteq> Inr True \<Longrightarrow> Q r Free"
  shows "keeps (acquire pl) Q Free"
  using assms by (auto simp: acquire_def Let_def split: sum.splits)

lemma keeps_claim:
  assumes "Q (Inr ()) Claimed" and "\<And>e. Q (Inl e) Free"
  shows "keeps (claim_socket_path pl) Q Free"
  unfolding claim_socket_path_def keeps_and_do
  by (rule keeps_acquire) (use assms in \<open>auto split: sum.splits bool.splits\<close>)

lemma keeps_prepare: "(\<And>r. Q r Claimed) \<Longrightarrow> keeps (prepare_socket_path pl) Q Claimed"
  by (auto simp: prepare_socket_path_def intro!: keeps_owned split: option.splits sum.splits)

lemma keeps_clear:
  assumes "\<And>r. Q r Free"
  shows "keeps (clear_socket pl with_pid) Q Free"
  unfolding clear_socket_def keeps_and_do
  by (rule keeps_acquire) (use assms in \<open>auto intro!: keeps_connect keeps_probe split: probe.splits\<close>)

lemma daemon_keeps: "keeps (run_daemon pl with_pid) (\<lambda>_ g. g = Free) Free"
  unfolding run_daemon_def keeps_and_do
  by (auto intro!: keeps_parent_dir keeps_claim keeps_prepare
      simp: give_up_listener_def cleanup_def Let_def split: sum.splits)

lemma keeps_unless_found:
  assumes "keeps c (\<lambda>_ g. g = Free) Free" and "keeps rest (\<lambda>_ g. g = Free) Free"
  shows "keeps (unless_found c rest) (\<lambda>_ g. g = Free) Free"
  unfolding unless_found_def keeps_and_do
  by (rule keeps_mono [OF assms(1)]) (use assms(2) in \<open>simp split: option.split\<close>)

lemma shim_keeps: "keeps (auto_start_inner pl bin grace ready) (\<lambda>_ g. g = Free) Free"
  unfolding auto_start_inner_def keeps_and_do
  by (auto intro!: keeps_owned keeps_connect keeps_read_pid keeps_alive keeps_unless_found keeps_wait keeps_clear
      keeps_start_own simp: Let_def split: sum.splits option.splits)

section \<open>The invariant of the machine\<close>

definition consistent :: "nat \<Rightarrow> machine_state \<Rightarrow> (nat \<Rightarrow> grip) \<Rightarrow> bool" where
  "consistent uid s grips \<longleftrightarrow>
     (\<forall>p. (grips p \<noteq> Free) = (claimed_by s = Some p)) \<and>
     (\<forall>p i. grips p = Bound i \<or> grips p = Listening i \<longrightarrow>
        node_at s = Some \<lparr>link_owner = uid, target = Some (uid, i)\<rparr>) \<and>
     (\<forall>p i. grips p = Listening i \<longrightarrow> listening s i = Some p)"

lemma consistent_alone: "consistent uid s grips \<Longrightarrow> grips p \<noteq> Free \<Longrightarrow> q \<noteq> p \<Longrightarrow> grips q = Free"
  by (metis consistent_def option.inject)

lemma consistent_only:
  assumes "\<And>q. q \<noteq> p \<Longrightarrow> grips q = Free" and "(g \<noteq> Free) = (claimed_by s = Some p)"
    and "claimed_by s = None \<or> claimed_by s = Some p"
    and "\<And>i. g = Bound i \<or> g = Listening i \<Longrightarrow> node_at s = Some \<lparr>link_owner = uid, target = Some (uid, i)\<rparr>"
    and "\<And>i. g = Listening i \<Longrightarrow> listening s i = Some p"
  shows "consistent uid s (grips(p := g))"
  using assms by (auto simp: consistent_def)

lemma call_keeps:
  assumes "call_step p uid c s c' s'" and "keeps c Q (grips p)" and "consistent uid s grips"
  shows "\<exists>g. keeps c' Q g \<and> consistent uid s' (grips(p := g))"
proof -
  have same: ?thesis if "keeps c' Q (grips p)" "consistent uid s' grips"
    using that by (metis fun_upd_triv)
  have quiet: "consistent uid (s\<lparr>pid_text := x\<rparr>) grips" "consistent uid (s\<lparr>ticks := t\<rparr>) grips" for x t
    using assms(3) by (simp_all add: consistent_def)
  have claimed: "claimed_by s = Some p" "\<And>q. q \<noteq> p \<Longrightarrow> grips q = Free" if "grips p \<noteq> Free"
    using that assms(3) consistent_alone [OF assms(3) that] by (auto simp: consistent_def)
  have at: "node_at s = Some \<lparr>link_owner = uid, target = Some (uid, i)\<rparr>" if "grips p = Bound i \<or> grips p = Listening i" for i
    using that assms(3) unfolding consistent_def by blast
  show ?thesis
    using assms(1)
  proof cases
    case (flock k)
    then have "\<And>q. q \<noteq> p \<Longrightarrow> grips q = Free" using assms(3) by (auto simp: consistent_def)
    with flock assms(2) show ?thesis by (intro exI [of _ Claimed] conjI consistent_only) auto
  next
    case unlock
    with assms(2) claimed show ?thesis by (intro exI [of _ Free] conjI consistent_only) auto
  next
    case (remove_socket k)
    define g where "g = (case grips p of Listening i \<Rightarrow> Withdrawn i | _ \<Rightarrow> Claimed)"
    have "keeps c' Q g" "g \<noteq> Free" "\<And>i. g \<noteq> Bound i \<and> g \<noteq> Listening i" "grips p \<noteq> Free"
      using remove_socket assms(2) by (auto simp: g_def split: grip.splits)
    with remove_socket claimed show ?thesis by (intro exI [of _ g] conjI consistent_only) auto
  next
    case (remove_socket_failed k)
    define g where "g = (case grips p of Listening i \<Rightarrow> Withdrawn i | _ \<Rightarrow> Claimed)"
    have "keeps c' Q g" "g \<noteq> Free" "\<And>i. g \<noteq> Bound i \<and> g \<noteq> Listening i" "grips p \<noteq> Free"
      using remove_socket_failed assms(2) by (auto simp: g_def split: grip.splits)
    with remove_socket_failed claimed show ?thesis by (intro exI [of _ g] conjI consistent_only) auto
  next
    case (bound k)
    with assms(2) claimed show ?thesis by (intro exI [of _ "Bound (next_socket s)"] conjI consistent_only) auto
  next
    case (listens i k)
    with assms(2) claimed at show ?thesis by (intro exI [of _ "Listening i"] conjI consistent_only) auto
  next
    case (closed i)
    with assms(2) claimed show ?thesis by (intro exI [of _ Claimed] conjI consistent_only) auto
  qed (use assms(2,3) quiet same in \<open>auto\<close>)
qed


fun process_keeps :: "process \<Rightarrow> grip \<Rightarrow> bool" where
  "process_keeps (Shim c) g = keeps c (\<lambda>_ g. g = Free) g"
| "process_keeps (Daemon c) g = keeps c (\<lambda>_ g. g = Free) g"

definition behaved :: "place \<Rightarrow> universe \<Rightarrow> (nat \<Rightarrow> grip) \<Rightarrow> bool" where
  "behaved pl w grips \<longleftrightarrow> consistent (my_uid pl) (os w) grips \<and>
     (\<forall>p. procs w p = None \<longrightarrow> grips p = Free) \<and> (\<forall>p x. procs w p = Some x \<longrightarrow> process_keeps x (grips p))"

lemma behavedD:
  assumes "behaved pl w grips"
  shows "consistent (my_uid pl) (os w) grips" and "procs w p = None \<Longrightarrow> grips p = Free"
    and "procs w p = Some x \<Longrightarrow> process_keeps x (grips p)"
  using assms unfolding behaved_def by blast+

lemma behaved_call:
  assumes "behaved pl w grips" and "procs w p = Some x"
    and "\<exists>g. process_keeps x' g \<and> consistent (my_uid pl) s' (grips(p := g))"
  shows "\<exists>grips. behaved pl \<lparr>os = s', procs = (procs w)(p := Some x')\<rparr> grips"
proof -
  from assms(3) obtain g where g: "process_keeps x' g" "consistent (my_uid pl) s' (grips(p := g))" by blast
  then have "behaved pl \<lparr>os = s', procs = (procs w)(p := Some x')\<rparr> (grips(p := g))"
    using assms(1) by (auto simp: behaved_def)
  then show ?thesis by blast
qed

lemma behaved_step:
  assumes "machine_step pl w w'" and "behaved pl w grips"
  shows "\<exists>grips. behaved pl w' grips"
  using assms(1)
proof cases
  case (shim_call p c c' s')
  from call_keeps [OF shim_call(3) _ behavedD(1) [OF assms(2)], of "\<lambda>_ g. g = Free"] behavedD(3) [OF assms(2) shim_call(2)]
  have "\<exists>g. process_keeps (Shim c') g \<and> consistent (my_uid pl) s' (grips(p := g))" by simp
  with behaved_call [OF assms(2) shim_call(2)] shim_call(1) show ?thesis by blast
next
  case (daemon_call p c c' s')
  from call_keeps [OF daemon_call(3) _ behavedD(1) [OF assms(2)], of "\<lambda>_ g. g = Free"] behavedD(3) [OF assms(2) daemon_call(2)]
  have "\<exists>g. process_keeps (Daemon c') g \<and> consistent (my_uid pl) s' (grips(p := g))" by simp
  with behaved_call [OF assms(2) daemon_call(2)] daemon_call(1) show ?thesis by blast
next
  case (start_shim p bin grace ready)
  with assms(2) behavedD(2) [OF assms(2)] have "behaved pl w' grips"
    by (auto simp: behaved_def shim_keeps)
  then show ?thesis by blast
next
  case (start_daemon p with_pid)
  with assms(2) behavedD(2) [OF assms(2)] have "behaved pl w' grips"
    by (auto simp: behaved_def daemon_keeps)
  then show ?thesis by blast
next
  case (dies p)
  with assms(2) have "behaved pl w' (grips(p := Free))"
    by (auto simp: behaved_def consistent_def)
  then show ?thesis by blast
next
  case (other_account n' f new)
  have "\<not> (\<exists>p i. grips p = Bound i \<or> grips p = Listening i)"
    using behavedD(1) [OF assms(2)] other_account(2) by (fastforce simp: consistent_def)
  with other_account assms(2) have "behaved pl w' grips" by (auto simp: behaved_def consistent_def)
  then show ?thesis by blast
next
  case (elapse t)
  with assms(2) have "behaved pl w' grips" by (auto simp: behaved_def consistent_def)
  then show ?thesis by blast
qed

lemma reachable_behaved: "machine_reachable pl w \<Longrightarrow> \<exists>grips. behaved pl w grips"
proof (induction rule: machine_reachable.induct)
  case start
  have "behaved pl idle_machine (\<lambda>_. Free)"
    by (simp add: behaved_def consistent_def idle_machine_def)
  then show ?case by blast
qed (blast dest: behaved_step)

text \<open>
  C5: A daemon that serves can be found, and is the only one. Whatever daemons and shims start, race,
  fail and die, whatever the system refuses them and whatever other accounts put where nothing of
  this user's is: while a daemon waits for connections, its own socket is at the path, it is
  listening there, it holds the claim, and no other daemon serves.
\<close>

theorem serving_daemon_reachable:
  assumes "machine_reachable pl w" and "procs w p = Some (Daemon (ServeListeners i k))"
  shows "node_at (os w) = Some \<lparr>link_owner = my_uid pl, target = Some (my_uid pl, i)\<rparr> \<and>
    listening (os w) i = Some p \<and> claimed_by (os w) = Some p \<and>
    (\<forall>q j k'. procs w q = Some (Daemon (ServeListeners j k')) \<longrightarrow> q = p)"
proof -
  obtain grips where b: "behaved pl w grips" using reachable_behaved [OF assms(1)] by blast
  have serves: "grips q = Listening j" if "procs w q = Some (Daemon (ServeListeners j k'))" for q j k'
    using behavedD(3) [OF b that] by simp
  have "grips p = Listening i" using serves assms(2) by blast
  moreover note behavedD(1) [OF b]
  moreover have "q = p" if "procs w q = Some (Daemon (ServeListeners j k'))" for q j k'
    using serves [OF that] serves [OF assms(2)] consistent_alone [OF behavedD(1) [OF b], of p q] by auto
  ultimately show ?thesis unfolding consistent_def by (metis grip.distinct(5))
qed


text \<open>A daemon that starts alone on \<open>s\<close> gets to serve.\<close>

definition sample_place :: place where
  "sample_place = \<lparr>socket_path = ''s'', my_uid = 7, show_span = (\<lambda>_. [])\<rparr>"

lemma sample_parent: "parent_of ''s'' = Some []"
  by code_simp

lemma sample_daemon_calls:
  "\<exists>k0 k1 k2 k3 k4 k5 k. run_daemon sample_place False = OpenLock k0 \<and> k0 (Inr ()) = Flock k1 \<and>
     k1 (Inr ()) = Lstat k2 \<and> k2 None = BindPath k3 \<and> k3 (Inr 0) = Listen 0 k4 \<and>
     k4 (Inr ()) = InstallSignals k5 \<and> k5 (Inr ()) = ServeListeners 0 k"
  by (simp add: run_daemon_def ensure_private_parent_dir_def sample_place_def sample_parent claim_socket_path_def
      acquire_def prepare_socket_path_def Let_def)

lemma daemon_goes_on:
  assumes "machine_reachable pl \<lparr>os = s, procs = [p \<mapsto> Daemon c]\<rparr>" and "call_step p (my_uid pl) c s c' s'"
  shows "machine_reachable pl \<lparr>os = s', procs = [p \<mapsto> Daemon c']\<rparr>"
  using machine_reachable.step [OF assms(1) machine_step.daemon_call [of _ p c pl c' s']] assms(2) by simp

lemma sample_serves: "\<exists>s k. machine_reachable sample_place \<lparr>os = s, procs = [1 \<mapsto> Daemon (ServeListeners 0 k)]\<rparr>"
proof -
  obtain k0 k1 k2 k3 k4 k5 k where c: "run_daemon sample_place False = OpenLock k0" "k0 (Inr ()) = Flock k1"
      "k1 (Inr ()) = Lstat k2" "k2 None = BindPath k3" "k3 (Inr 0) = Listen 0 k4" "k4 (Inr ()) = InstallSignals k5"
      "k5 (Inr ()) = ServeListeners 0 k"
    using sample_daemon_calls by blast
  let ?s = "os idle_machine"
  let ?s1 = "?s\<lparr>claimed_by := Some 1\<rparr>"
  have "machine_reachable sample_place \<lparr>os = ?s, procs = [1 \<mapsto> Daemon (OpenLock k0)]\<rparr>"
    using machine_reachable.step [OF machine_reachable.start machine_step.start_daemon, of 1 sample_place False] c(1)
    by (simp add: idle_machine_def)
  note run = daemon_goes_on [OF this call_step.open_lock, of "Inr ()", unfolded c(2)]
  note run = daemon_goes_on [OF run call_step.flock, unfolded c(3)]
  have "machine_reachable sample_place \<lparr>os = ?s1, procs = [1 \<mapsto> Daemon (Lstat k2)]\<rparr>"
    using run by (simp add: idle_machine_def)
  note run = daemon_goes_on [OF this call_step.lstat, of None, unfolded c(4)]
  from run have "machine_reachable sample_place \<lparr>os = ?s1, procs = [1 \<mapsto> Daemon (BindPath k3)]\<rparr>" by simp
  note run = daemon_goes_on [OF this call_step.bound]
  let ?s2 = "?s1\<lparr>node_at := Some \<lparr>link_owner = my_uid sample_place, target = Some (my_uid sample_place, next_socket ?s1)\<rparr>,
    next_socket := Suc (next_socket ?s1)\<rparr>"
  from run c(5) have "machine_reachable sample_place \<lparr>os = ?s2, procs = [1 \<mapsto> Daemon (Listen 0 k4)]\<rparr>"
    by (simp add: idle_machine_def)
  note run = daemon_goes_on [OF this call_step.listens, unfolded c(6)]
  note run = daemon_goes_on [OF run call_step.signals, of "Inr ()", unfolded c(7)]
  then show ?thesis by blast
qed

theorem serving_daemon_reachable_witness:
  "\<exists>s :: machine_state. node_at s = Some \<lparr>link_owner = 7, target = Some (7, 0)\<rparr> \<and> listening s 0 = Some 1 \<and> claimed_by s = Some 1"
proof -
  obtain s k where "machine_reachable sample_place \<lparr>os = s, procs = [1 \<mapsto> Daemon (ServeListeners 0 k)]\<rparr>"
    using sample_serves by blast
  from serving_daemon_reachable [OF this, of 1 0 k] show ?thesis
    by (intro exI [of _ s]) (simp add: sample_place_def)
qed

section \<open>Nobody runs out of fuel\<close>

text \<open>
  What can be said with \<open>t\<close> a lower bound of the clock: the fuel is not used up, and \<open>Q\<close> holds of the
  result.
\<close>

primrec timely :: "'a prog \<Rightarrow> ('a \<Rightarrow> nat \<Rightarrow> bool) \<Rightarrow> nat \<Rightarrow> bool" where
  "timely (Done x) Q t = Q x t"
| "timely Spent Q t = False"
| "timely (Lstat k) Q t = (\<forall>r. timely (k r) Q t)"
| "timely (Stat k) Q t = (\<forall>r. timely (k r) Q t)"
| "timely (Exists k) Q t = (\<forall>r. timely (k r) Q t)"
| "timely (Connect k) Q t = (\<forall>r. timely (k r) Q t)"
| "timely (CloneStream k) Q t = (\<forall>r. timely (k r) Q t)"
| "timely (OpenLock k) Q t = (\<forall>r. timely (k r) Q t)"
| "timely (Flock k) Q t = (\<forall>r. timely (k r) Q t)"
| "timely (Unlock c) Q t = timely c Q t"
| "timely (RemoveSocket k) Q t = (\<forall>r. timely (k r) Q t)"
| "timely (RemovePid k) Q t = (\<forall>r. timely (k r) Q t)"
| "timely (ReadPid k) Q t = (\<forall>r. timely (k r) Q t)"
| "timely (Kill0 p k) Q t = (\<forall>r. timely (k r) Q t)"
| "timely (SpawnDaemon k) Q t = (\<forall>r. timely (k r) Q t)"
| "timely (Now k) Q t = (\<forall>t' \<ge> t. timely (k t') Q t')"
| "timely (Sleep d c) Q t = timely c Q (t + d)"
| "timely (MakeDir k) Q t = (\<forall>r. timely (k r) Q t)"
| "timely (BindPath k) Q t = (\<forall>r. timely (k r) Q t)"
| "timely (Listen i k) Q t = (\<forall>r. timely (k r) Q t)"
| "timely (CloseListener i c) Q t = timely c Q t"
| "timely (InstallSignals k) Q t = (\<forall>r. timely (k r) Q t)"
| "timely (PublishPid k) Q t = (\<forall>r. timely (k r) Q t)"
| "timely (DetachStdio k) Q t = (\<forall>r. timely (k r) Q t)"
| "timely (ServeListeners i k) Q t = (\<forall>r. timely (k r) Q t)"

lemma timely_and_do [simp]: "timely (and_do c f) Q t = timely c (\<lambda>x t. timely (f x) Q t) t"
  by (induction c arbitrary: t) auto

lemma timely_call:
  assumes "call_step p uid c s c' s'" and "timely c Q t" and "t \<le> ticks s"
  shows "\<exists>t' \<le> ticks s'. timely c' Q t'"
  using assms
proof cases
  case (sleep d late)
  with assms have "timely c' Q (t + d)" "t + d \<le> ticks s'" by auto
  then show ?thesis by blast
qed auto


lemma timely_looking:
  "(\<And>r. Q r t) \<Longrightarrow> timely (owned_by_current_user pl) Q t"
  "(\<And>r. Q' r t) \<Longrightarrow> timely connect_transport Q' t"
  "(\<And>r. Q'' r t) \<Longrightarrow> timely read_pid_file Q'' t"
  "(\<And>r. P r t) \<Longrightarrow> timely (process_alive pid) P t"
  "(\<And>r. R r t) \<Longrightarrow> timely (ensure_private_parent_dir pl) R t"
  "(\<And>r. R r t) \<Longrightarrow> timely (spawn_daemon bin) R t"
  "(\<And>r. R' r t) \<Longrightarrow> timely (acquire pl) R' t"
  "(\<And>r. R r t) \<Longrightarrow> timely (prepare_socket_path pl) R t"
  by (auto simp: owned_by_current_user_def connect_transport_def read_pid_file_def process_alive_def
      ensure_private_parent_dir_def spawn_daemon_def acquire_def prepare_socket_path_def Let_def
      split: option.splits sum.splits)

lemma timely_claim: "(\<And>r. Q r t) \<Longrightarrow> timely (claim_socket_path pl) Q t"
  unfolding claim_socket_path_def timely_and_do
  by (rule timely_looking) (auto split: sum.splits bool.splits)

lemma timely_probe_loop: "(\<And>v t'. t \<le> t' \<Longrightarrow> Q v t') \<Longrightarrow> timely (probe_loop n first gap v) Q t"
  by (induction n arbitrary: first v t) (auto simp: Let_def split: sum.splits)

lemma timely_probe: "(\<And>v t'. t \<le> t' \<Longrightarrow> Q v t') \<Longrightarrow> timely (probe_socket pl n gap) Q t"
  unfolding probe_socket_def timely_and_do
  by (rule timely_looking) (auto intro!: timely_probe_loop)

text \<open>The polls are enough: each but the last sleeps for 25 milliseconds.\<close>

lemma timely_wait_loop:
  assumes "deadline + 25 \<le> t + 25 * n" and "n \<noteq> 0" and "\<And>r t'. t \<le> t' \<Longrightarrow> Q r t'"
  shows "timely (wait_loop pl n deadline) Q t"
  using assms
proof (induction n arbitrary: t)
  case (Suc n)
  have "timely (wait_loop pl n deadline) Q (t' + 25)" if "t \<le> t'" "\<not> deadline \<le> t'" for t'
    by (rule Suc.IH) (use that Suc.prems in auto)
  with Suc.prems show ?case
    by (auto intro!: timely_looking split: sum.splits)
qed simp

lemma polls_suffice: "timeout + 25 \<le> 25 * polls_for timeout" "polls_for timeout \<noteq> 0"
  using dividend_less_times_div [of 25 timeout] by (simp_all add: polls_for_def)

lemma timely_wait:
  assumes "\<And>r t'. t \<le> t' \<Longrightarrow> Q r t'"
  shows "timely (wait_for_socket pl timeout) Q t"
proof -
  have "timely (wait_loop pl (polls_for timeout) (t' + timeout)) Q t'" if "t \<le> t'" for t'
    by (rule timely_wait_loop) (use polls_suffice [of timeout] assms that in auto)
  then show ?thesis by (simp add: wait_for_socket_def)
qed

lemma timely_start_own: "(\<And>r t'. t \<le> t' \<Longrightarrow> Q r t') \<Longrightarrow> timely (start_own pl bin ready) Q t"
  unfolding start_own_def timely_and_do
  by (rule timely_looking) (auto intro!: timely_wait split: sum.splits option.splits)

lemma timely_clear: "(\<And>r t'. t \<le> t' \<Longrightarrow> Q r t') \<Longrightarrow> timely (clear_socket pl with_pid) Q t"
  unfolding clear_socket_def timely_and_do
  by (rule timely_looking) (auto intro!: timely_looking timely_probe split: probe.splits)

lemma timely_unless_found:
  assumes "\<And>Q'. (\<And>r t'. t \<le> t' \<Longrightarrow> Q' r t') \<Longrightarrow> timely c Q' t"
    and "\<And>t'. t \<le> t' \<Longrightarrow> timely rest Q t'" and "\<And>r t'. t \<le> t' \<Longrightarrow> Q r t'"
  shows "timely (unless_found c rest) Q t"
  unfolding unless_found_def timely_and_do
  by (rule assms(1)) (use assms(2,3) in \<open>auto split: option.split\<close>)

lemma daemon_timely: "timely (run_daemon pl with_pid) (\<lambda>_ _. True) t"
  unfolding run_daemon_def timely_and_do
  by (auto intro!: timely_looking timely_claim simp: give_up_listener_def cleanup_def Let_def split: sum.splits)

lemma shim_timely: "timely (auto_start_inner pl bin grace ready) (\<lambda>_ _. True) t"
  unfolding auto_start_inner_def timely_and_do
  by (auto intro!: timely_looking timely_unless_found timely_wait timely_clear timely_start_own
      simp: Let_def split: sum.splits option.splits)


fun timely_process :: "process \<Rightarrow> nat \<Rightarrow> bool" where
  "timely_process (Shim c) t = timely c (\<lambda>_ _. True) t"
| "timely_process (Daemon c) t = timely c (\<lambda>_ _. True) t"

definition on_time :: "universe \<Rightarrow> bool" where
  "on_time w \<longleftrightarrow> (\<forall>p x. procs w p = Some x \<longrightarrow> (\<exists>t \<le> ticks (os w). timely_process x t))"

lemma call_ticks: "call_step p uid c s c' s' \<Longrightarrow> ticks s \<le> ticks s'"
  by (cases rule: call_step.cases) auto

lemma on_time_later:
  assumes "on_time w" and "ticks (os w) \<le> ticks s" and "\<exists>t \<le> ticks s. timely_process x t"
  shows "on_time \<lparr>os = s, procs = (procs w)(p := Some x)\<rparr>"
proof -
  have "\<exists>t \<le> ticks s. timely_process y t" if "procs w q = Some y" for q y
    using assms(1,2) that unfolding on_time_def by (meson le_trans)
  with assms(3) show ?thesis by (simp add: on_time_def)
qed

lemma on_time_step:
  assumes "machine_step pl w w'" and "on_time w"
  shows "on_time w'"
  using assms(1)
proof cases
  case (shim_call p c c' s')
  then have "\<exists>t \<le> ticks s'. timely_process (Shim c') t"
    using timely_call [OF shim_call(3)] assms(2) unfolding on_time_def by fastforce
  with on_time_later [OF assms(2) call_ticks [OF shim_call(3)]] shim_call(1) show ?thesis by blast
next
  case (daemon_call p c c' s')
  then have "\<exists>t \<le> ticks s'. timely_process (Daemon c') t"
    using timely_call [OF daemon_call(3)] assms(2) unfolding on_time_def by fastforce
  with on_time_later [OF assms(2) call_ticks [OF daemon_call(3)]] daemon_call(1) show ?thesis by blast
next
  case (start_shim p bin grace ready)
  with assms(2) shim_timely show ?thesis unfolding on_time_def by auto
next
  case (start_daemon p with_pid)
  with assms(2) daemon_timely show ?thesis unfolding on_time_def by auto
next
  case (elapse t)
  have "\<exists>u \<le> ticks (os w) + t. P u" if "\<exists>u \<le> ticks (os w). P u" for P
    using that trans_le_add1 by blast
  with elapse assms(2) show ?thesis unfolding on_time_def by simp
qed (use assms(2) in \<open>auto simp: on_time_def\<close>)

lemma reachable_on_time: "machine_reachable pl w \<Longrightarrow> on_time w"
  by (induction rule: machine_reachable.induct) (auto simp: on_time_def idle_machine_def dest: on_time_step)

text \<open>Every program that has not ended can take its next call, and only finitely many are ever left.\<close>

lemma call_possible: "c \<noteq> Spent \<Longrightarrow> (\<exists>r. c = Done r) \<or> (\<exists>c' s'. call_step p uid c s c' s')"
  by (cases c) (blast intro: call_step.intros)+

lemma calls_finite: "wf {(c' :: 'a prog, c). \<exists>s s'. call_step p uid c s c' s'}"
proof (rule wfUNIVI)
  fix P :: "'a prog \<Rightarrow> bool" and c
  assume *: "\<forall>c. (\<forall>c'. (c', c) \<in> {(c', c). \<exists>s s'. call_step p uid c s c' s'} \<longrightarrow> P c') \<longrightarrow> P c"
  show "P c"
    by (induction c) (rule * [rule_format], auto elim: call_step.cases)+
qed

text \<open>
  C30: A shim always gets its answer. In every reachable state a shim that has not returned can take
  its next call, so no reply leads it into an endless poll or out of its fuel; and no shim can go on
  taking calls for ever.
\<close>

theorem shim_returns:
  assumes "machine_reachable pl w" and "procs w p = Some (Shim c)"
  shows "((\<exists>r. c = Done r) \<or> (\<exists>c' s'. call_step p (my_uid pl) c (os w) c' s')) \<and>
    wf {(c' :: nat result prog, c). \<exists>s s'. call_step p (my_uid pl) c s c' s'}"
proof -
  from reachable_on_time [OF assms(1)] assms(2) obtain t where "timely c (\<lambda>_ _. True) t"
    unfolding on_time_def by fastforce
  then have "c \<noteq> Spent" by auto
  then show ?thesis by (simp add: call_possible calls_finite)
qed

theorem shim_returns_witness:
  "\<exists>c' s'. call_step 1 7 (auto_start sample_place ''d'') (os idle_machine) c' s'"
proof -
  let ?w = "idle_machine\<lparr>procs := (procs idle_machine)(1 := Some (Shim (auto_start sample_place ''d'')))\<rparr>"
  have "machine_reachable sample_place ?w"
    unfolding auto_start_def
    by (rule machine_reachable.step [OF machine_reachable.start machine_step.start_shim]) (simp add: idle_machine_def)
  from shim_returns [OF this, of 1 "auto_start sample_place ''d''"] show ?thesis
    by (simp add: sample_place_def auto_start_def auto_start_inner_def owned_by_current_user_def)
qed

text \<open>
  The PID file has no such protection: a shim that found no socket and the PID of a dead process
  removes the file without a claim and without looking again, whoever published one meanwhile.
\<close>

datatype reply = OwnerIs "nat option" | ConnectGives "os_error + nat" | ThereIs bool | TextIs "string option"
  | Gives "os_error + unit"

primrec feed :: "reply \<Rightarrow> 'a prog \<Rightarrow> 'a prog" where
  "feed (OwnerIs r) c = (case c of Lstat k \<Rightarrow> k r | _ \<Rightarrow> c)"
| "feed (ConnectGives r) c = (case c of Connect k \<Rightarrow> k r | _ \<Rightarrow> c)"
| "feed (ThereIs r) c = (case c of Exists k \<Rightarrow> k r | _ \<Rightarrow> c)"
| "feed (TextIs r) c = (case c of ReadPid k \<Rightarrow> k r | _ \<Rightarrow> c)"
| "feed (Gives r) c = (case c of Kill0 pid k \<Rightarrow> k r | _ \<Rightarrow> c)"

lemma pid_file_removed_unclaimed:
  assumes "parse_i32 (trim text) = Some pid" and "0 < pid" and "raw_os_error e \<noteq> Some EPERM"
  shows "\<exists>k. fold feed [OwnerIs None, ConnectGives (Inl e), ThereIs False, TextIs (Some text), Gives (Inl e)]
     (auto_start_inner pl bin grace ready) = RemovePid k"
  using assms unfolding auto_start_inner_def owned_by_current_user_def connect_transport_def read_pid_file_def
  by (simp add: process_alive_def Let_def)

end
