(* ===== verification/Launch.thy ===== *)
theory Launch
  imports Bridge Daemon Socket_Claim
begin

text \<open>
  What a process launched with a command line becomes (\<open>daemon.rs\<close>, \<open>remote.rs\<close>, \<open>TcpTransport\<close> in
  \<open>transport/tcp.rs\<close>): a daemon, a daemon that stays in the foreground, a shim to the daemon of this
  machine, or a shim to one on another machine. A launch is a tree: what the process does to the
  world outside, with a branch for every reply; the programs of \<open>Socket_Claim\<close> are its leaves. The
  properties: a process told to connect elsewhere does nothing on this machine, and the daemon a
  shim starts takes the role it was started for.
\<close>

section \<open>The address of a remote daemon\<close>

definition CONNECT_FLAG :: string where "CONNECT_FLAG = ''--connect''"

definition CONNECT_TIMEOUT :: nat where "CONNECT_TIMEOUT = 10000"

datatype remote_addr = RemoteAddr (addr_text: string)

text \<open>\<open>str::rsplit_once\<close> at a byte, and \<open>char::is_whitespace\<close> somewhere in a text.\<close>

definition rsplit_once :: "char \<Rightarrow> string \<Rightarrow> (string \<times> string) option" where
  "rsplit_once c s = map_option (\<lambda>(after, before). (rev before, rev after)) (split_once [c] (rev s))"

definition has_whitespace :: "string \<Rightarrow> bool" where
  "has_whitespace s \<longleftrightarrow> list_ex (\<lambda>w. split_once w s \<noteq> None) whitespace_encodings"

definition parse_remote_addr :: "string \<Rightarrow> string + remote_addr" where
  "parse_remote_addr v =
     (let refused = (\<lambda>why. Inl (''`'' @ v @ ''` is not a host:port - '' @ why)) in
      if has_whitespace v then refused ''it contains whitespace''
      else case rsplit_once CHR '':'' v of
        None \<Rightarrow> refused ''there is no port''
      | Some (host, port) \<Rightarrow>
          if host = [] then refused ''there is no host''
          else (case parse_uint (2 ^ 16) port of
                  Some (Suc _) \<Rightarrow> Inr (RemoteAddr v)
                | _ \<Rightarrow> refused (''`'' @ port @ ''` is not a port number'')))"

definition needs_address :: string where
  "needs_address = ''`'' @ CONNECT_FLAG @ ''` needs a host:port''"

text \<open>The value of a \<open>--connect\<close>, given what has been found so far; then the loop over the arguments.\<close>

definition accept_value :: "remote_addr option \<Rightarrow> string \<Rightarrow> string + remote_addr" where
  "accept_value found v =
     (if v = [] then Inl needs_address
      else case parse_remote_addr v of
        Inl e \<Rightarrow> Inl e
      | Inr addr \<Rightarrow> if found \<noteq> None then Inl (''`'' @ CONNECT_FLAG @ ''` was given more than once'') else Inr addr)"

fun connect_loop :: "remote_addr option \<Rightarrow> string list \<Rightarrow> string + remote_addr option" where
  "connect_loop found [] = Inr found"
| "connect_loop found (arg # args) =
     (if arg = CONNECT_FLAG
      then (case args of
              [] \<Rightarrow> Inl needs_address
            | v # args \<Rightarrow> (case accept_value found v of Inl e \<Rightarrow> Inl e | Inr addr \<Rightarrow> connect_loop (Some addr) args))
      else (case strip_prefix (CONNECT_FLAG @ ''='') arg of
              Some v \<Rightarrow> (case accept_value found v of Inl e \<Rightarrow> Inl e | Inr addr \<Rightarrow> connect_loop (Some addr) args)
            | None \<Rightarrow> connect_loop found args))"

definition connect_from_args :: "string list \<Rightarrow> string + remote_addr option" where
  "connect_from_args args = connect_loop None args"

section \<open>The command line\<close>

definition DAEMON_FLAG :: string where "DAEMON_FLAG = ''--daemon''"
definition FOREGROUND_FLAG :: string where "FOREGROUND_FLAG = ''--foreground''"
definition SOCKET_FLAG :: string where "SOCKET_FLAG = ''--socket''"

datatype mode = ModeDaemon | ModeForeground | ModeShim | ModeRemote remote_addr

fun local_mode :: "string list \<Rightarrow> mode" where
  "local_mode [] = ModeShim"
| "local_mode (arg # args) =
     (if arg = DAEMON_FLAG then ModeDaemon
      else if arg = FOREGROUND_FLAG then ModeForeground
      else local_mode args)"

definition mode_from_args :: "string list \<Rightarrow> mode" where
  "mode_from_args argv = local_mode (drop 1 argv)"

text \<open>The first argument that is one of the three local flags, with or without a value.\<close>

definition names_flag :: "string \<Rightarrow> string \<Rightarrow> bool" where
  "names_flag arg flag \<longleftrightarrow> arg = flag \<or> starts_with (flag @ ''='') arg"

fun local_flag :: "string list \<Rightarrow> string option" where
  "local_flag [] = None"
| "local_flag (arg # args) =
     (case find (names_flag arg) [DAEMON_FLAG, FOREGROUND_FLAG, SOCKET_FLAG] of
        Some flag \<Rightarrow> Some flag
      | None \<Rightarrow> local_flag args)"

definition launch_mode :: "string list \<Rightarrow> mcp_error + mode" where
  "launch_mode argv =
     (case connect_from_args (drop 1 argv) of
        Inl e \<Rightarrow> Inl (InvalidParams e)
      | Inr None \<Rightarrow> Inr (mode_from_args argv)
      | Inr (Some addr) \<Rightarrow>
          (case local_flag (drop 1 argv) of
             Some flag \<Rightarrow> Inl (InvalidParams (''`'' @ CONNECT_FLAG @ ''` cannot be combined with `'' @ flag @
               ''`: a remote shim neither runs a daemon nor uses a local socket''))
           | None \<Rightarrow> Inr (ModeRemote addr)))"

section \<open>What a daemon is told\<close>

text \<open>
  Listeners are named by numbers. Of a busy check only its presence is kept: what it says is the
  world's (\<open>Daemon\<close>).
\<close>

record daemon_options =
  do_socket_path :: string
  do_idle_timeout :: "nat option"
  do_max_connections :: "nat option"
  do_listeners :: "nat list"
  do_busy_check :: bool
  do_shim_transform :: "shim_transform option"

definition new_options :: "string \<Rightarrow> daemon_options" where
  "new_options p = \<lparr>do_socket_path = p, do_idle_timeout = None, do_max_connections = None, do_listeners = [],
     do_busy_check = False, do_shim_transform = None\<rparr>"

text \<open>\<open>UnixServer\<close>: what makes the server of a connection, and the limits of the daemon.\<close>

record 'c unix_server =
  us_config :: server_config
  us_setup :: "('c server \<Rightarrow> unit result \<times> 'c server \<times> task_store option) option"
  us_idle_timeout :: "nat option"
  us_max_connections :: nat
  us_listeners :: "nat list"
  us_busy_check :: bool

definition new_unix_server :: "server_config \<Rightarrow> 'c unix_server" where
  "new_unix_server cfg = \<lparr>us_config = cfg, us_setup = None, us_idle_timeout = None,
     us_max_connections = DEFAULT_MAX_CONNECTIONS, us_listeners = [], us_busy_check = False\<rparr>"

definition configure :: "daemon_options \<Rightarrow> 'c unix_server \<Rightarrow> 'c unix_server" where
  "configure opts us =
     (let us = (case do_idle_timeout opts of Some t \<Rightarrow> us\<lparr>us_idle_timeout := Some t\<rparr> | None \<Rightarrow> us);
          us = (case do_max_connections opts of Some n \<Rightarrow> us\<lparr>us_max_connections := max n 1\<rparr> | None \<Rightarrow> us);
          us = (if do_busy_check opts then us\<lparr>us_busy_check := True\<rparr> else us)
      in us\<lparr>us_listeners := us_listeners us @ do_listeners opts\<rparr>)"

text \<open>
  \<open>Blueprint\<close>: what was registered on a server, for the servers of the connections. The store of the
  server it is taken from stays behind; only its configuration goes along.
\<close>

record 'c blueprint =
  bp_config :: server_config
  bp_tools :: "(string, 'c tool_entry) table"
  bp_resources :: "(string, resource_def) table"
  bp_resource_templates :: "resource_template list"
  bp_prompts :: "(string, prompt_def) table"
  bp_tasks :: "(task_config \<times> (unit \<Rightarrow> 'c)) option"
  bp_task_context :: task_context

definition into_blueprint :: "'c server \<Rightarrow> task_store \<Rightarrow> 'c blueprint" where
  "into_blueprint sv store = \<lparr>bp_config = sv_config sv, bp_tools = sv_tools sv, bp_resources = sv_resources sv,
     bp_resource_templates = sv_resource_templates sv, bp_prompts = sv_prompts sv,
     bp_tasks = map_option (\<lambda>make_context. (config store, make_context)) (sv_tasks sv),
     bp_task_context = sv_task_context sv\<rparr>"

definition apply_blueprint :: "'c blueprint \<Rightarrow> 'c server \<Rightarrow> 'c server \<times> task_store option" where
  "apply_blueprint bp sv =
     (sv\<lparr>sv_tools := bp_tools bp, sv_resources := bp_resources bp,
         sv_resource_templates := bp_resource_templates bp, sv_prompts := bp_prompts bp,
         sv_tasks := map_option snd (bp_tasks bp), sv_task_context := bp_task_context bp\<rparr>,
      map_option (\<lambda>(cfg, _). new_store cfg) (bp_tasks bp))"

section \<open>Launching\<close>

datatype upstream_link = OverTcp nat | OverUnix nat

text \<open>
  The acts of a launch. \<open>Daemonize\<close> is the two forks: the process that goes on is the grandchild,
  the others exit. \<open>ProxyStdio\<close> is \<open>Bridge::run\<close> between the standard streams and a link (\<open>Bridge\<close>).
\<close>

datatype 'c launch =
    Exit "unit result"
  | Resolve string "os_error + nat list \<Rightarrow> 'c launch"
  | DialTcp nat nat "os_error + unit \<Rightarrow> 'c launch"
  | CloneTcp nat "os_error + unit \<Rightarrow> 'c launch"
  | PrepareDir "unit result prog" "unit result \<Rightarrow> 'c launch"
  | CurrentExe "os_error + string \<Rightarrow> 'c launch"
  | AutoStart "string list" "nat result prog" "nat result \<Rightarrow> 'c launch"
  | Daemonize "os_error + unit \<Rightarrow> 'c launch"
  | ServeDaemon "'c unix_server" "unit result prog"
  | ProxyStdio upstream_link "shim_transform option"

text \<open>\<open>TcpTransport::connect_timeout\<close>: every address the name resolves to, in order, the last failure reported.\<close>

fun dial_each :: "os_error option \<Rightarrow> nat list \<Rightarrow> (nat result \<Rightarrow> 'c launch) \<Rightarrow> 'c launch" where
  "dial_each last_failure [] k =
     k (Inl (Io (case last_failure of None \<Rightarrow> ''the address resolved to nothing'' | Some e \<Rightarrow> os_text e)))"
| "dial_each last_failure (a # as) k =
     DialTcp a CONNECT_TIMEOUT (\<lambda>r. case r of
         Inl e \<Rightarrow> dial_each (Some e) as k
       | Inr _ \<Rightarrow> CloneTcp a (\<lambda>r. k (case r of Inl e \<Rightarrow> Inl (Io (os_text e)) | Inr _ \<Rightarrow> Inr a)))"

definition connect_timeout :: "string \<Rightarrow> (nat result \<Rightarrow> 'c launch) \<Rightarrow> 'c launch" where
  "connect_timeout addr k = Resolve addr (\<lambda>r. case r of Inl e \<Rightarrow> k (Inl (Io (os_text e))) | Inr as \<Rightarrow> dial_each None as k)"

definition connect_remote :: "remote_addr \<Rightarrow> (nat result \<Rightarrow> 'c launch) \<Rightarrow> 'c launch" where
  "connect_remote addr k = connect_timeout (addr_text addr) (\<lambda>r.
     k (case r of Inl e \<Rightarrow> Inl (Internal (''cannot connect to '' @ addr_text addr @ '': '' @ show_error e)) | Inr a \<Rightarrow> Inr a))"

definition remote_shim :: "remote_addr \<Rightarrow> 'c launch" where
  "remote_shim addr = connect_remote addr (\<lambda>r. case r of Inl e \<Rightarrow> Exit (Inl e) | Inr a \<Rightarrow> ProxyStdio (OverTcp a) None)"

text \<open>A path as text; what a path that is not UTF-8 looks like in a message is the parameter \<open>lossy\<close>.\<close>

definition utf8_path :: "(string \<Rightarrow> string) \<Rightarrow> string \<Rightarrow> string \<Rightarrow> string result" where
  "utf8_path lossy p what =
     (if utf8_valid p then Inr p
      else Inl (Internal (what @ '' is not valid UTF-8, so it cannot be passed to the daemon: '' @ lossy p)))"

definition start_upstream :: "(string \<Rightarrow> string) \<Rightarrow> place \<Rightarrow> (nat result \<Rightarrow> 'c launch) \<Rightarrow> 'c launch" where
  "start_upstream lossy pl k = CurrentExe (\<lambda>r. case r of
       Inl e \<Rightarrow> k (Inl (Internal (''cannot find the running executable: '' @ os_text e)))
     | Inr exe \<Rightarrow>
         (case utf8_path lossy exe ''the running executable'' of
            Inl e \<Rightarrow> k (Inl e)
          | Inr exe \<Rightarrow>
              (case utf8_path lossy (socket_path pl) ''the socket path'' of
                 Inl e \<Rightarrow> k (Inl e)
               | Inr socket \<Rightarrow> AutoStart [DAEMON_FLAG, SOCKET_FLAG, socket] (auto_start pl exe) k)))"

text \<open>\<open>shim\<close>, and \<open>transformed_shim\<close> when there is a transform.\<close>

definition local_shim :: "(string \<Rightarrow> string) \<Rightarrow> place \<Rightarrow> shim_transform option \<Rightarrow> 'c launch" where
  "local_shim lossy pl transform =
     start_upstream lossy pl (\<lambda>r. case r of Inl e \<Rightarrow> Exit (Inl e) | Inr i \<Rightarrow> ProxyStdio (OverUnix i) transform)"

text \<open>
  The daemon a server becomes: every connection's server is set up from the blueprint. \<open>serve_daemon\<close>
  of \<open>UnixServer\<close> forks before it runs and keeps a PID file.
\<close>

definition daemon_of :: "daemon_options \<Rightarrow> 'c server \<Rightarrow> task_store \<Rightarrow> 'c unix_server" where
  "daemon_of opts sv store =
     (let bp = into_blueprint sv store
      in configure opts ((new_unix_server (bp_config bp))\<lparr>us_setup := Some (\<lambda>sv. (Inr (), apply_blueprint bp sv))\<rparr>))"

definition serve_socket :: "mode \<Rightarrow> daemon_options \<Rightarrow> place \<Rightarrow> 'c server \<Rightarrow> task_store \<Rightarrow> 'c launch" where
  "serve_socket m opts pl sv store =
     (let us = daemon_of opts sv store
      in case m of
           ModeDaemon \<Rightarrow> Daemonize (\<lambda>r. case r of
               Inl e \<Rightarrow> Exit (Inl (Io (os_text e)))
             | Inr _ \<Rightarrow> ServeDaemon us (run_daemon pl True))
         | _ \<Rightarrow> ServeDaemon us (run_daemon pl False))"

text \<open>\<open>pl\<close> is the socket path of the options with the user it belongs to.\<close>

definition serve_daemon_from :: "(string \<Rightarrow> string) \<Rightarrow> string list \<Rightarrow> daemon_options \<Rightarrow> place \<Rightarrow> 'c server \<Rightarrow> task_store \<Rightarrow>
    'c launch" where
  "serve_daemon_from lossy argv opts pl sv store =
     (case launch_mode argv of
        Inl e \<Rightarrow> Exit (Inl e)
      | Inr (ModeRemote addr) \<Rightarrow> remote_shim addr
      | Inr m \<Rightarrow> PrepareDir (ensure_private_parent_dir pl) (\<lambda>r. case r of
            Inl e \<Rightarrow> Exit (Inl e)
          | Inr _ \<Rightarrow> if m = ModeShim then local_shim lossy pl (do_shim_transform opts) else serve_socket m opts pl sv store))"

section \<open>Reading the command line\<close>

lemma names_flag_iff: "names_flag arg flag \<longleftrightarrow> arg = flag \<or> (\<exists>v. arg = flag @ ''='' @ v)"
  by (auto simp: names_flag_def starts_with_iff)

text \<open>Whether a command line says \<open>--connect\<close> at all, the program's name aside.\<close>

definition says_connect :: "string list \<Rightarrow> bool" where
  "says_connect argv \<longleftrightarrow> list_ex (\<lambda>a. names_flag a CONNECT_FLAG) (drop 1 argv)"

text \<open>The value of a \<open>--connect\<close>: the argument after the flag, or what follows its equals sign.\<close>

definition given :: "string \<Rightarrow> string list \<Rightarrow> bool" where
  "given v args \<longleftrightarrow> (\<exists>before after. args = before @ CONNECT_FLAG # v # after) \<or> CONNECT_FLAG @ ''='' @ v \<in> set args"

lemma given_append: "given v after \<Longrightarrow> given v (before @ after)"
  by (auto simp: given_def) (metis append.assoc)

lemma parsed_text: "parse_remote_addr v = Inr addr \<Longrightarrow> addr = RemoteAddr v"
  by (auto simp: parse_remote_addr_def Let_def split: if_splits option.splits nat.splits prod.splits)

lemma accepted_value:
  "accept_value found v = Inr addr \<Longrightarrow> found = None \<and> addr = RemoteAddr v \<and> parse_remote_addr v = Inr addr"
  by (auto simp: accept_value_def dest: parsed_text split: if_splits sum.splits)

lemma connect_loop_Cons:
  obtains "arg = CONNECT_FLAG" "args = []" "connect_loop found (arg # args) = Inl needs_address"
  | v rest where "names_flag arg CONNECT_FLAG" "given v (arg # args)" "\<exists>before. args = before @ rest"
      "connect_loop found (arg # args) =
         (case accept_value found v of Inl e \<Rightarrow> Inl e | Inr addr \<Rightarrow> connect_loop (Some addr) rest)"
  | "\<not> names_flag arg CONNECT_FLAG" "connect_loop found (arg # args) = connect_loop found args"
proof (cases "arg = CONNECT_FLAG")
  case True
  show thesis
  proof (cases args)
    case (Cons v rest)
    have "given v (arg # args)" unfolding given_def True Cons by blast
    moreover have "\<exists>before. args = before @ rest" unfolding Cons by (rule exI [of _ "[v]"]) simp
    ultimately show thesis using True Cons by (intro that(2)) (simp_all add: names_flag_def)
  qed (use True that(1) in simp)
next
  case False
  show thesis
  proof (cases "strip_prefix (CONNECT_FLAG @ ''='') arg")
    case None
    then have "\<not> names_flag arg CONNECT_FLAG" using False by (auto simp: names_flag_def starts_with_def)
    then show thesis using None False by (intro that(3)) simp_all
  next
    case (Some v)
    then have "arg = CONNECT_FLAG @ ''='' @ v" by (simp add: strip_prefix_iff)
    then show thesis using Some False
      by (intro that(2) [of v args]) (auto simp: given_def names_flag_iff simp del: append.simps)
  qed
qed

lemma connect_loop_none:
  "connect_loop found args = Inr None \<longleftrightarrow> found = None \<and> \<not> list_ex (\<lambda>a. names_flag a CONNECT_FLAG) args"
proof (induction args arbitrary: found rule: length_induct)
  case (1 args)
  show ?case
  proof (cases args)
    case (Cons arg rest)
    show ?thesis unfolding Cons
      by (rule connect_loop_Cons [of arg rest found])
         (use 1 Cons in \<open>auto simp: names_flag_def split: sum.splits simp del: connect_loop.simps(2)\<close>)
  qed simp
qed

lemma connect_loop_some:
  "connect_loop found args = Inr (Some addr) \<Longrightarrow>
     found = Some addr \<or> (\<exists>v. addr = RemoteAddr v \<and> parse_remote_addr v = Inr addr \<and> given v args)"
proof (induction args arbitrary: found rule: length_induct)
  case (1 args)
  show ?case
  proof (cases args)
    case (Cons arg rest)
    have more: "given v rest' \<Longrightarrow> \<exists>before. rest = before @ rest' \<Longrightarrow> given v (arg # rest)" for v rest'
      using given_append [of v rest'] given_append [of v rest "[arg]"] by auto
    show ?thesis
    proof (rule connect_loop_Cons [of arg rest found])
      fix v rest'
      assume v: "given v (arg # rest)" "\<exists>before. rest = before @ rest'"
        and eq: "connect_loop found (arg # rest) =
          (case accept_value found v of Inl e \<Rightarrow> Inl e | Inr addr \<Rightarrow> connect_loop (Some addr) rest')"
      from eq 1(2) Cons obtain a where a: "accept_value found v = Inr a" "connect_loop (Some a) rest' = Inr (Some addr)"
        by (auto split: sum.splits)
      have "length rest' < length args" using Cons v(2) by auto
      from 1(1) [rule_format, OF this a(2)]
      have "a = addr \<or> (\<exists>v. addr = RemoteAddr v \<and> parse_remote_addr v = Inr addr \<and> given v rest')" by blast
      moreover have "parse_remote_addr v = Inr a" "a = RemoteAddr v" using accepted_value [OF a(1)] by simp_all
      ultimately show ?thesis using Cons v(1) more [OF _ v(2)] by metis
    next
      assume "connect_loop found (arg # rest) = connect_loop found rest"
      with 1(2) Cons have loop: "connect_loop found rest = Inr (Some addr)" by (simp only:)
      have "length rest < length args" using Cons by simp
      from 1(1) [rule_format, OF this loop] more [of _ rest] Cons show ?thesis by auto
    qed (use 1(2) Cons in \<open>simp only: sum.distinct\<close>)
  qed (use 1(2) in simp)
qed

lemma launch_mode_cases:
  "launch_mode argv = Inr m \<Longrightarrow>
     (if says_connect argv then \<exists>v. m = ModeRemote (RemoteAddr v) \<and> parse_remote_addr v = Inr (RemoteAddr v) \<and> given v (drop 1 argv)
      else m = mode_from_args argv)"
proof -
  assume m: "launch_mode argv = Inr m"
  then obtain found where f: "connect_loop None (drop 1 argv) = Inr found"
    by (auto simp: launch_mode_def connect_from_args_def split: sum.splits)
  show ?thesis
  proof (cases found)
    case None
    with f m have "m = mode_from_args argv" by (auto simp: launch_mode_def connect_from_args_def)
    moreover have "\<not> says_connect argv" using None f connect_loop_none [of None "drop 1 argv"] by (auto simp: says_connect_def)
    ultimately show ?thesis by simp
  next
    case (Some addr)
    then have says: "says_connect argv" using f connect_loop_none [of None "drop 1 argv"] by (auto simp: says_connect_def)
    from Some f m have "m = ModeRemote addr"
      by (auto simp: launch_mode_def connect_from_args_def split: option.splits)
    with says connect_loop_some [of None "drop 1 argv" addr] f Some show ?thesis by (auto dest: parsed_text)
  qed
qed

lemma mode_from_args_local: "mode_from_args argv \<noteq> ModeRemote addr"
proof -
  have "local_mode args \<noteq> ModeRemote addr" for args by (induction args) auto
  then show ?thesis by (simp add: mode_from_args_def)
qed

section \<open>What a launch does\<close>

text \<open>That an act is of some kind, throughout a launch, whatever the world replies.\<close>

primrec throughout :: "('c launch \<Rightarrow> bool) \<Rightarrow> 'c launch \<Rightarrow> bool" where
  "throughout P (Exit r) = P (Exit r)"
| "throughout P (Resolve n k) = (P (Resolve n k) \<and> (\<forall>r. throughout P (k r)))"
| "throughout P (DialTcp a t k) = (P (DialTcp a t k) \<and> (\<forall>r. throughout P (k r)))"
| "throughout P (CloneTcp a k) = (P (CloneTcp a k) \<and> (\<forall>r. throughout P (k r)))"
| "throughout P (PrepareDir c k) = (P (PrepareDir c k) \<and> (\<forall>r. throughout P (k r)))"
| "throughout P (CurrentExe k) = (P (CurrentExe k) \<and> (\<forall>r. throughout P (k r)))"
| "throughout P (AutoStart args c k) = (P (AutoStart args c k) \<and> (\<forall>r. throughout P (k r)))"
| "throughout P (Daemonize k) = (P (Daemonize k) \<and> (\<forall>r. throughout P (k r)))"
| "throughout P (ServeDaemon us c) = P (ServeDaemon us c)"
| "throughout P (ProxyStdio l tr) = P (ProxyStdio l tr)"

text \<open>
  A launch that is nothing but a shim to \<open>v\<close>: the only name it resolves is \<open>v\<close>, it dials only what that
  resolved to, within the time allowed, and it relays only over a connection it opened so. \<open>found\<close> are the
  addresses \<open>v\<close> was found at, \<open>opened\<close> those that took the call.
\<close>

primrec shim_to :: "string \<Rightarrow> nat set \<Rightarrow> nat set \<Rightarrow> 'c launch \<Rightarrow> bool" where
  "shim_to v found opened (Exit r) = True"
| "shim_to v found opened (Resolve n k) =
     (n = v \<and> (\<forall>r. shim_to v (case r of Inl _ \<Rightarrow> {} | Inr as \<Rightarrow> set as) opened (k r)))"
| "shim_to v found opened (DialTcp a t k) =
     (a \<in> found \<and> t = CONNECT_TIMEOUT \<and> (\<forall>r. shim_to v found (if isl r then opened else insert a opened) (k r)))"
| "shim_to v found opened (CloneTcp a k) = (a \<in> opened \<and> (\<forall>r. shim_to v found opened (k r)))"
| "shim_to v found opened (ProxyStdio l tr) = (tr = None \<and> (\<exists>a \<in> opened. l = OverTcp a))"
| "shim_to v found opened (PrepareDir c k) = False"
| "shim_to v found opened (CurrentExe k) = False"
| "shim_to v found opened (AutoStart args c k) = False"
| "shim_to v found opened (Daemonize k) = False"
| "shim_to v found opened (ServeDaemon us c) = False"

text \<open>The acts of a launch on this machine.\<close>

fun local_act :: "'c launch \<Rightarrow> bool" where
  "local_act (Resolve n k) = False"
| "local_act (DialTcp a t k) = False"
| "local_act (CloneTcp a k) = False"
| "local_act (ProxyStdio l tr) = (\<exists>i. l = OverUnix i)"
| "local_act _ = True"

lemma shim_dials:
  assumes "\<And>e opened. shim_to v found opened (k (Inl e))" and "\<And>a opened. a \<in> opened \<Longrightarrow> shim_to v found opened (k (Inr a))"
  shows "set as \<subseteq> found \<Longrightarrow> shim_to v found opened (dial_each e as k)"
  by (induction as arbitrary: e opened) (use assms in \<open>auto split: sum.split option.split\<close>)

lemma remote_shim_acts: "shim_to v {} {} (remote_shim (RemoteAddr v) :: 'c launch)"
  by (auto simp: remote_shim_def connect_remote_def connect_timeout_def split: sum.split intro!: shim_dials)

lemma local_shim_acts: "throughout local_act (local_shim lossy pl tr :: 'c launch)"
  by (auto simp: local_shim_def start_upstream_def split: sum.split)

lemma serve_socket_acts: "throughout local_act (serve_socket m opts pl sv store)"
  by (cases m) (auto simp: serve_socket_def Let_def split: sum.split)

lemma throughout_launch:
  assumes "\<And>r. P (Exit r)" and "\<And>addr. launch_mode argv = Inr (ModeRemote addr) \<Longrightarrow> throughout P (remote_shim addr)"
    and "\<And>m. launch_mode argv = Inr m \<Longrightarrow> \<forall>addr. m \<noteq> ModeRemote addr \<Longrightarrow>
      (\<forall>c k. P (PrepareDir c k)) \<and> throughout P (local_shim lossy pl (do_shim_transform opts)) \<and>
      throughout P (serve_socket m opts pl sv store)"
  shows "throughout P (serve_daemon_from lossy argv opts pl sv store)"
proof (cases "launch_mode argv")
  case (Inr m)
  with assms(1) assms(2) assms(3) [OF Inr] show ?thesis
    by (cases m) (auto simp: serve_daemon_from_def split: sum.split)
qed (simp add: serve_daemon_from_def assms(1))

text \<open>
  C14: A process told to connect elsewhere does nothing on this machine. If \<open>--connect\<close> stands anywhere on
  the command line, then whatever the rest of it says, whatever the options and whatever the world
  replies, no directory is made, no socket or PID file is looked at, no daemon is started and none
  becomes: it ends with an error at once, or it is a shim to the value of the flag, which resolves that
  \<open>host:port\<close>, dials only addresses it resolved to and relays over a connection to one of them. Without the
  flag nothing is resolved or dialled.
\<close>

theorem remote_shim_stays_remote:
  "if says_connect argv
   then (\<exists>e. serve_daemon_from lossy argv opts pl sv store = Exit (Inl e)) \<or>
     (\<exists>v. given v (drop 1 argv) \<and> parse_remote_addr v = Inr (RemoteAddr v) \<and>
        shim_to v {} {} (serve_daemon_from lossy argv opts pl sv store :: 'c launch))
   else throughout local_act (serve_daemon_from lossy argv opts pl sv store)"
  for sv :: "'c server"
proof (cases "launch_mode argv")
  case (Inl e)
  then show ?thesis by (simp add: serve_daemon_from_def)
next
  case (Inr m)
  show ?thesis
  proof (cases "says_connect argv")
    case True
    with launch_mode_cases [OF Inr] obtain v where "m = ModeRemote (RemoteAddr v)" "given v (drop 1 argv)"
      "parse_remote_addr v = Inr (RemoteAddr v)" by auto
    with Inr True remote_shim_acts show ?thesis by (auto simp: serve_daemon_from_def)
  next
    case False
    with launch_mode_cases [OF Inr] have "m = mode_from_args argv" by simp
    then have "launch_mode argv \<noteq> Inr (ModeRemote addr)" for addr using Inr mode_from_args_local by simp
    then have "throughout local_act (serve_daemon_from lossy argv opts pl sv store)"
      by (intro throughout_launch) (simp, blast, simp add: local_shim_acts serve_socket_acts)
    with False show ?thesis by simp
  qed
qed

text \<open>
  C31: A shim starts daemons that know what they are: for each start of a launch, the command line it uses
  makes of the same program a daemon, detached, on the socket the shim then waits for, whatever the
  executable is called and whatever else is on the shim's own command line. The socket's path must
  not itself look like \<open>--connect\<close>, which an absolute path never does.
\<close>

theorem spawned_daemon_serves:
  assumes "\<not> names_flag (socket_path pl) CONNECT_FLAG"
  shows "throughout (\<lambda>act. \<forall>args c k. act = AutoStart args c k \<longrightarrow>
      (\<exists>exe. c = auto_start pl exe) \<and>
      (\<forall>exe. serve_daemon_from lossy (exe # args) opts pl sv store =
          PrepareDir (ensure_private_parent_dir pl) (\<lambda>r. case r of
              Inl e \<Rightarrow> Exit (Inl e)
            | Inr _ \<Rightarrow> Daemonize (\<lambda>r. case r of
                  Inl e \<Rightarrow> Exit (Inl (Io (os_text e)))
                | Inr _ \<Rightarrow> ServeDaemon (daemon_of opts sv store) (run_daemon pl True)))))
    (serve_daemon_from lossy argv opts pl sv store)"
    (is "throughout ?ok _")
proof -
  have flags: "\<not> names_flag DAEMON_FLAG CONNECT_FLAG" "\<not> names_flag SOCKET_FLAG CONNECT_FLAG"
    by (simp_all add: names_flag_def starts_with_def DAEMON_FLAG_def SOCKET_FLAG_def CONNECT_FLAG_def)
  have none: "connect_from_args [DAEMON_FLAG, SOCKET_FLAG, socket_path pl] = Inr None"
    unfolding connect_from_args_def connect_loop_none using flags assms by simp
  then have "launch_mode (exe # [DAEMON_FLAG, SOCKET_FLAG, socket_path pl]) = Inr ModeDaemon" for exe
    by (simp add: launch_mode_def mode_from_args_def)
  then have "serve_daemon_from lossy (exe # [DAEMON_FLAG, SOCKET_FLAG, socket_path pl]) opts pl sv store =
      PrepareDir (ensure_private_parent_dir pl) (\<lambda>r. case r of
          Inl e \<Rightarrow> Exit (Inl e) | Inr _ \<Rightarrow> serve_socket ModeDaemon opts pl sv store)" for exe
    by (simp add: serve_daemon_from_def)
  then have "throughout ?ok (local_shim lossy pl tr)" for tr
    by (auto simp: local_shim_def start_upstream_def serve_socket_def utf8_path_def split: sum.split)
  moreover have "throughout ?ok (remote_shim addr)" for addr
  proof -
    have "throughout ?ok (dial_each e as k)" if "\<And>r. throughout ?ok (k r)" for e as k
      using that by (induction as arbitrary: e) (auto split: sum.split)
    then show ?thesis by (auto simp: remote_shim_def connect_remote_def connect_timeout_def split: sum.split)
  qed
  moreover have "throughout ?ok (serve_socket m opts pl sv store)" for m
    by (cases m) (auto simp: serve_socket_def Let_def split: sum.split)
  ultimately show ?thesis by (intro throughout_launch) blast+
qed

lemma shim_starts:
  assumes "throughout P (local_shim lossy pl tr)" and "utf8_valid exe" and "utf8_valid (socket_path pl)"
  shows "\<exists>k. P (AutoStart [DAEMON_FLAG, SOCKET_FLAG, socket_path pl] (auto_start pl exe) k)"
  using conjunct2 [OF assms(1) [unfolded local_shim_def start_upstream_def throughout.simps], THEN spec [of _ "Inr exe"]]
    assms(2,3) by (auto simp: utf8_path_def)

lemma launch_shims:
  assumes "throughout P (serve_daemon_from lossy argv opts pl sv store)" and "launch_mode argv = Inr ModeShim"
  shows "throughout P (local_shim lossy pl (do_shim_transform opts))"
  using assms by (auto simp: serve_daemon_from_def split_sum_all)

definition sample_daemon_server :: "unit server" where
  "sample_daemon_server = new_server (default_server_config ''1'')"

theorem spawned_daemon_serves_witness:
  "serve_daemon_from (\<lambda>p. p) [''d'', ''--daemon'', ''--socket'', ''s''] (new_options ''s'') sample_place sample_daemon_server
     (new_store default_task_config) =
   PrepareDir (ensure_private_parent_dir sample_place) (\<lambda>r. case r of
       Inl e \<Rightarrow> Exit (Inl e)
     | Inr _ \<Rightarrow> Daemonize (\<lambda>r. case r of
           Inl e \<Rightarrow> Exit (Inl (Io (os_text e)))
         | Inr _ \<Rightarrow> ServeDaemon (daemon_of (new_options ''s'') sample_daemon_server (new_store default_task_config))
             (run_daemon sample_place True)))"
proof -
  have path: "socket_path sample_place = ''s''" by (simp add: sample_place_def)
  then have plain: "\<not> names_flag (socket_path sample_place) CONNECT_FLAG"
    by (simp add: names_flag_def starts_with_def CONNECT_FLAG_def)
  have mode: "launch_mode [''d''] = Inr ModeShim"
    by (simp add: launch_mode_def connect_from_args_def mode_from_args_def)
  have "utf8_valid ''d''" and "utf8_valid ''s''" by (simp_all add: byte_in_def)
  with shim_starts [OF launch_shims [OF spawned_daemon_serves [OF plain, of "\<lambda>p. p" "new_options ''s''" sample_daemon_server
      "new_store default_task_config"] mode], of "''d''"] path
  show ?thesis by (auto simp: DAEMON_FLAG_def SOCKET_FLAG_def)
qed

end
