(* ===== verification/Connections.thy ===== *)
theory Connections
  imports Server_Progress Launch
begin

text \<open>
  What a daemon does with a connection it admitted (\<open>handle_connection\<close> in \<open>transport/unix_server.rs\<close>): a
  fresh server with what was registered on the server the daemon was made from, a context from the
  application's factory, the server's loop on the connection, and the slot given back whatever
  happened. The properties: every connection gets its slot back to the daemon, is answered in full,
  and sees nothing of the session or the tasks of any other.
\<close>

definition conn_id :: "nat \<Rightarrow> string" where
  "conn_id n = ''conn-'' @ show_nat n"

lemma conn_id_inject: "conn_id m = conn_id n \<longleftrightarrow> m = n"
  by (simp add: conn_id_def)

text \<open>The server of a connection, with the task store it is given when the runtime is enabled.\<close>

definition connection_server :: "'c unix_server \<Rightarrow> unit result \<times> 'c server \<times> task_store option" where
  "connection_server us =
     (case us_setup us of
        None \<Rightarrow> (Inr (), new_server (us_config us), None)
      | Some setup \<Rightarrow> setup (new_server (us_config us)))"

text \<open>
  The thread of a connection: how it ends, the world it leaves, and the daemon's state \<open>s\<close> once its
  guard is dropped, which happens on every way out. \<open>None\<close> when the turns given do not suffice.
  The broker is the server's own, as is the store of a server that runs tasks.
\<close>

definition handle_connection :: "host \<Rightarrow> nat \<Rightarrow> bool \<Rightarrow> 'c unix_server \<Rightarrow> (string \<Rightarrow> 'c run) \<Rightarrow> string \<Rightarrow> world \<Rightarrow> shared \<Rightarrow>
    (unit result run \<times> world \<times> shared) option" where
  "handle_connection h turns splits us factory cid w s =
     (case factory cid of
        Unwound p \<Rightarrow> Some (Unwound p, w, drop_active_guard s)
      | Finished ctx \<Rightarrow>
          (case connection_server us of
             (Inl e, sv, store) \<Rightarrow> Some (Finished (Inl e), w, drop_active_guard s)
           | (Inr _, sv, store) \<Rightarrow>
               (case start h turns splits sv ctx
                       (w\<lparr>broker_of := new_broker, store_of := (case store of Some t \<Rightarrow> t | None \<Rightarrow> store_of w)\<rparr>) of
                  None \<Rightarrow> None
                | Some (r, sv, ctx, w) \<Rightarrow> Some (r, w, drop_active_guard s))))"

section \<open>What the connections of a daemon have in common\<close>

text \<open>What was configured and registered; everything else of a server belongs to a session.\<close>

definition offers :: "'c server \<Rightarrow> 'c server" where
  "offers sv = sv\<lparr>sv_transport := False, sv_can_pump := False, sv_initialized := False,
     sv_log_level := cfg_default_log_level (sv_config sv), sv_client_capabilities := no_capabilities,
     sv_negotiated_version := None, sv_gates := []\<rparr>"

lemma configure_keeps [simp]: "us_config (configure opts us) = us_config us" "us_setup (configure opts us) = us_setup us"
  by (auto simp: configure_def Let_def split: option.split)

lemma daemon_connection:
  "connection_server (daemon_of opts sv store) =
     (Inr (), offers sv, if sv_tasks sv = None then None else Some (new_store (config store)))"
  by (cases "sv_tasks sv"; cases sv)
     (simp_all add: connection_server_def daemon_of_def Let_def into_blueprint_def apply_blueprint_def
       new_unix_server_def new_server_def offers_def)

text \<open>
  Every connection of a daemon offers what was registered on the server the daemon was made from, and
  nothing of that server's session, nor of its task store but the configuration, reaches it: two
  servers that differ only there make daemons whose connections are answered alike, byte by byte.
\<close>

theorem connections_see_registrations_only:
  assumes "offers sv' = offers sv" and "sv_tasks sv \<noteq> None \<longrightarrow> config store' = config store"
  shows "handle_connection h turns splits (daemon_of opts' sv' store') = handle_connection h turns splits (daemon_of opts sv store)"
proof -
  have "sv_tasks (offers sv') = sv_tasks (offers sv)" by (simp only: assms(1))
  then have "sv_tasks sv' = sv_tasks sv" by (simp add: offers_def)
  with assms have "connection_server (daemon_of opts' sv' store') = connection_server (daemon_of opts sv store)"
    by (simp add: daemon_connection)
  then show ?thesis by (simp add: handle_connection_def fun_eq_iff split: run.split)
qed

text \<open>The world a connection's server starts in.\<close>

definition opened_world :: "'c server \<Rightarrow> task_store \<Rightarrow> world \<Rightarrow> world" where
  "opened_world sv store w =
     w\<lparr>broker_of := new_broker, store_of := (if sv_tasks sv = None then store_of w else new_store (config store))\<rparr>"

lemma opened_books: "account (opened_world sv store w) = answered w + unread w" "sound_link (opened_world sv store w) = sound_link w"
  by (simp_all add: account_def unread_def queued_def answered_def sound_link_def writable_def opened_world_def new_broker_def)

lemma connection_runs:
  "factory cid = Finished ctx \<Longrightarrow>
   handle_connection h turns splits (daemon_of opts sv store) factory cid w s =
     map_option (\<lambda>(r, sv, ctx, w). (r, w, drop_active_guard s)) (start h turns splits (offers sv) ctx (opened_world sv store w))"
  by (auto simp: handle_connection_def daemon_connection opened_world_def split: option.split prod.split)

text \<open>
  C23: A connection of a daemon is served to the end. When its thread is over, however it ended, its slot
  is the daemon's again; and when it ended because the peer hung up, the responses written to it are
  those owed for the requests read from it, each once.
\<close>

theorem connection_served:
  assumes "handle_connection h turns splits (daemon_of opts sv store) factory cid w s = Some (r, w', s')"
    and "sound_link w" and "modest (amb_sched h)"
  shows "(\<not> lock_poisoned s \<longrightarrow> active (conn s') = active (conn s) - 1) \<and>
    (r = Finished (Inr ()) \<longrightarrow> answered w' + unread w' = answered w + unread w)"
proof (cases "factory cid")
  case (Unwound p)
  with assms(1) show ?thesis by (auto simp: handle_connection_def shared_defs)
next
  case (Finished ctx)
  with assms(1) obtain sv' ctx' where st: "start h turns splits (offers sv) ctx (opened_world sv store w) = Some (r, sv', ctx', w')"
    and s': "s' = drop_active_guard s" by (auto simp: connection_runs)
  have "answered w' + unread w' = answered w + unread w" if "r = Finished (Inr ())"
    using start_settles [OF st [unfolded that]] assms(2,3) opened_books [of sv store w] by (auto simp: account_def ac_simps)
  with s' show ?thesis by (auto simp: shared_defs)
qed

text \<open>
  And it does end: without tasks, on a connection whose peer says finitely much, the thread is over
  after as many turns as there is work, so a daemon gets every slot back.
\<close>

theorem connection_ends:
  assumes "sv_tasks sv = None" and "modest (amb_sched h)" and "read_timeout_armed (wire_link w) \<noteq> Some 0"
    and "sum_list (map (\<lambda>a. fst a + 2) (inbox (wire_link w))) < turns"
  shows "\<exists>r w'. handle_connection h turns splits (daemon_of opts sv store) factory cid w s = Some (r, w', drop_active_guard s)"
proof (cases "factory cid")
  case (Unwound p)
  then show ?thesis by (simp add: handle_connection_def)
next
  case (Finished ctx)
  have "sv_tasks (offers sv) = None" "armed_ok (opened_world sv store w)" "Server_Progress.pending (opened_world sv store w) < turns"
    using assms(1,3,4) by (simp_all add: offers_def armed_ok_def Server_Progress.pending_def opened_world_def new_broker_def)
  from start_returns [OF this(1) assms(2) this(2,3)] show ?thesis
    by (auto simp: connection_runs [of factory cid, OF Finished] map_option_case split: option.split)
qed

text \<open>A connection that sends one ping and hangs up.\<close>

definition ping_daemon :: "unit unix_server" where
  "ping_daemon = daemon_of (new_options ''s'') sample_server (new_store default_task_config)"

definition one_busy :: shared where
  "one_busy = new_shared\<lparr>conn := (conn new_shared)\<lparr>active := 1\<rparr>\<rparr>"

theorem connections_see_registrations_only_witness:
  "handle_connection sample_host 8 True
     (daemon_of (new_options ''t'') (sample_server\<lparr>sv_initialized := True, sv_negotiated_version := Some ''1''\<rparr>)
       (new_store default_task_config)) =
   handle_connection sample_host 8 True ping_daemon"
  unfolding ping_daemon_def
  by (rule connections_see_registrations_only) (simp_all add: offers_def sample_server_def new_server_def)

theorem connection_ends_witness:
  "\<exists>r w'. handle_connection sample_host 8 True ping_daemon (\<lambda>_. Finished ()) (conn_id 0) sample_world one_busy =
     Some (r, w', drop_active_guard one_busy)"
  unfolding ping_daemon_def
  by (rule connection_ends)
     (simp_all add: sample_server_def new_server_def sample_host_def modest_def sample_world_def sample_link_def)

theorem connection_served_witness:
  "\<exists>w' s'. handle_connection sample_host 2 True ping_daemon (\<lambda>_. Finished ()) (conn_id 0) sample_world one_busy =
     Some (Finished (Inr ()), w', s') \<and> active (conn s') = 0 \<and> answered w' = {#IdNumber 1#}"
proof -
  obtain sv' w' where run: "start sample_host 2 True sample_server () sample_world = Some (Finished (Inr ()), sv', (), w')"
    and un: "unread w' = {#}" using sample_run by blast
  have "offers sample_server = sample_server" "opened_world sample_server t sample_world = sample_world" for t
    by (simp_all add: offers_def sample_server_def new_server_def opened_world_def sample_world_def)
  with run have conn: "handle_connection sample_host 2 True ping_daemon (\<lambda>_. Finished ()) (conn_id 0) sample_world one_busy =
      Some (Finished (Inr ()), w', drop_active_guard one_busy)"
    by (simp add: ping_daemon_def connection_runs)
  from connection_served [OF conn [unfolded ping_daemon_def] sample_books(1,2)] un sample_books(3,4) conn
  show ?thesis by (simp add: one_busy_def new_shared_def)
qed

end
