(* ===== verification/Listeners.thy ===== *)
theory Listeners
  imports Daemon Origin Line
begin

text \<open>
  Where a daemon's connections come from (\<open>transport/listener.rs\<close>) and how its accept threads are run and ended
  (\<open>serve_listeners\<close> of \<open>transport/unix_server.rs\<close>, \<open>request_shutdown\<close> of \<open>transport/daemon_state.rs\<close>).
  The threads of a daemon are the accept loops, the thread that runs \<open>serve_listeners\<close>, and the two
  watchers, the one of signals and the one of idleness, that may ask it to stop; a step is what one of them does between two
  points at which the others may move. What a listener's \<open>accept\<close> and \<open>wake\<close> come to is the system's. The
  property: a daemon whose listeners can be woken, once told to stop, is never stuck and returns after boundedly
  many steps of its own, whatever its clients do.
\<close>

section \<open>Listeners\<close>

record sock_addr =
  sa_ip :: ip_addr
  sa_port :: nat

definition WAKE_TIMEOUT :: nat where "WAKE_TIMEOUT = 1000"

fun is_unspecified :: "ip_addr \<Rightarrow> bool" where
  "is_unspecified (V4 octets) = (octets = [0, 0, 0, 0])"
| "is_unspecified (V6 groups) = (groups = [0, 0, 0, 0, 0, 0, 0, 0])"

definition connectable :: "sock_addr \<Rightarrow> sock_addr" where
  "connectable addr =
     (if \<not> is_unspecified (sa_ip addr) then addr
      else \<lparr>sa_ip = (case sa_ip addr of V4 _ \<Rightarrow> V4 [127, 0, 0, 1] | V6 _ \<Rightarrow> V6 [0, 0, 0, 0, 0, 0, 0, 1]),
            sa_port = sa_port addr\<rparr>)"

text \<open>The two built-in listeners, and an application's own by its name.\<close>

datatype listener =
    UnixSocketListener string
  | TcpSocketListener sock_addr
  | OtherListener string

text \<open>\<open>TcpSocketListener::bind\<close> and \<open>from_listener\<close>, by the replies of the system.\<close>

definition from_listener :: "io_error + sock_addr \<Rightarrow> listener result" where
  "from_listener local_addr =
     (case local_addr of
        Inl e \<Rightarrow> Inl (Internal (''a TCP listener with no local address: '' @ description e))
      | Inr addr \<Rightarrow> Inr (TcpSocketListener addr))"

definition bind_tcp :: "io_error option \<Rightarrow> io_error + sock_addr \<Rightarrow> listener result" where
  "bind_tcp bound local_addr =
     (case bound of
        Some e \<Rightarrow> Inl (Internal (''failed to bind a TCP listener: '' @ description e))
      | None \<Rightarrow> from_listener local_addr)"

text \<open>
  \<open>accept\<close>: what the socket's own accept gives, and then cloning the descriptor for the transport, whose failure
  is an error of another kind.
\<close>

definition accept_stream :: "io_error + unit \<Rightarrow> io_error option \<Rightarrow> io_error + unit" where
  "accept_stream accepted cloned =
     (case accepted of
        Inl e \<Rightarrow> Inl e
      | Inr _ \<Rightarrow> (case cloned of None \<Rightarrow> Inr () | Some e \<Rightarrow> Inl (IoError OtherKind (show_error (Io (description e))))))"

definition accept_event_of :: "io_error + unit \<Rightarrow> accept_event" where
  "accept_event_of r =
     (case r of Inr _ \<Rightarrow> Connection | Inl e \<Rightarrow> if kind e = Interrupted then AcceptInterrupted else AcceptError)"

text \<open>Whom \<open>wake\<close> connects to.\<close>

datatype knock = KnockPath string | KnockAddr sock_addr nat | KnockOther string

fun wake :: "listener \<Rightarrow> knock" where
  "wake (UnixSocketListener path) = KnockPath path"
| "wake (TcpSocketListener addr) = KnockAddr (connectable addr) WAKE_TIMEOUT"
| "wake (OtherListener name) = KnockOther name"

fun describe_listener :: "(sock_addr \<Rightarrow> string) \<Rightarrow> listener \<Rightarrow> string" where
  "describe_listener show_addr (UnixSocketListener path) = ''unix:'' @ path"
| "describe_listener show_addr (TcpSocketListener addr) = ''tcp://'' @ show_addr addr"
| "describe_listener show_addr (OtherListener name) = name"

definition describe_listeners :: "(sock_addr \<Rightarrow> string) \<Rightarrow> listener list \<Rightarrow> string" where
  "describe_listeners show_addr ls = join '', '' (List.map (describe_listener show_addr) ls)"

text \<open>
  A connection to an address arrives at a socket bound to it, or to every address of its family on that
  port. So what a TCP listener knocks at is itself.
\<close>

fun same_family :: "ip_addr \<Rightarrow> ip_addr \<Rightarrow> bool" where
  "same_family (V4 _) (V4 _) = True"
| "same_family (V6 _) (V6 _) = True"
| "same_family _ _ = False"

definition arrives_at :: "sock_addr \<Rightarrow> sock_addr \<Rightarrow> bool" where
  "arrives_at to bound \<longleftrightarrow>
     sa_port to = sa_port bound \<and> \<not> is_unspecified (sa_ip to) \<and>
     (sa_ip to = sa_ip bound \<or> is_unspecified (sa_ip bound) \<and> same_family (sa_ip to) (sa_ip bound))"

lemma tcp_knock_arrives: "arrives_at (connectable addr) addr"
  by (cases "sa_ip addr") (auto simp: arrives_at_def connectable_def)

section \<open>The threads of a daemon\<close>

datatype accept_thread = NotStarted | Parked | Accepted accept_event | Ended "unit result"

datatype serving_phase =
    Starting nat
  | Accepting
  | Flagging "unit result"
  | Knocking nat "unit result"
  | Joining nat "unit result"
  | Returned "unit result"

text \<open>Another thread that may call \<open>request_shutdown\<close>: before it, or with the flag up and about to wake a listener.\<close>

datatype requester = Quiet | Raised nat

record daemon_setup =
  ds_listeners :: "listener list"
  ds_max :: nat
  ds_reached :: "knock \<Rightarrow> nat option"

record serving =
  se_shared :: shared
  se_threads :: "accept_thread list"
  se_waiting :: "nat list"
  se_phase :: serving_phase
  se_requesters :: "requester list"

text \<open>The thread of the first listener is the one that runs \<open>serve_listeners\<close>.\<close>

definition begin_serving :: "daemon_setup \<Rightarrow> nat \<Rightarrow> serving" where
  "begin_serving ds watchers =
     (let n = length (ds_listeners ds) in
      \<lparr>se_shared = new_shared, se_threads = replicate n NotStarted, se_waiting = replicate n 0,
       se_phase = Starting 1, se_requesters = replicate watchers Quiet\<rparr>)"

definition start_thread :: "nat \<Rightarrow> serving \<Rightarrow> serving" where
  "start_thread k d = d\<lparr>se_threads := (se_threads d)[k := Parked], se_phase := Starting (k + 1)\<rparr>"

definition start_refused :: "(sock_addr \<Rightarrow> string) \<Rightarrow> daemon_setup \<Rightarrow> nat \<Rightarrow> io_error \<Rightarrow> serving \<Rightarrow> serving" where
  "start_refused show_addr ds k e d = d\<lparr>se_phase := Flagging (Inl (Internal
     (''failed to spawn an accept thread for '' @ describe_listener show_addr (ds_listeners ds ! k) @ '': '' @ description e)))\<rparr>"

definition start_primary :: "serving \<Rightarrow> serving" where
  "start_primary d = d\<lparr>se_threads := (se_threads d)[0 := Parked], se_phase := Accepting\<rparr>"

text \<open>A knock puts a connection in front of the listener it arrives at.\<close>

definition knock_at :: "daemon_setup \<Rightarrow> nat \<Rightarrow> serving \<Rightarrow> serving" where
  "knock_at ds k d =
     (case ds_reached ds (wake (ds_listeners ds ! k)) of
        Some i \<Rightarrow> d\<lparr>se_waiting := (se_waiting d)[i := se_waiting d ! i + 1]\<rparr>
      | None \<Rightarrow> d)"

definition raise_flag :: "serving \<Rightarrow> serving" where
  "raise_flag d = d\<lparr>se_shared := request_shutdown (se_shared d)\<rparr>"

text \<open>
  \<open>accept\<close> returns with what it made of a waiting connection, and the loop does what it has to, up to its
  next \<open>accept\<close>. \<open>spawned\<close> is whether the platform gives a thread for a connection.
\<close>

definition take_connection :: "nat \<Rightarrow> accept_event \<Rightarrow> serving \<Rightarrow> serving" where
  "take_connection i ev d =
     d\<lparr>se_waiting := (se_waiting d)[i := se_waiting d ! i - 1], se_threads := (se_threads d)[i := Accepted ev]\<rparr>"

definition take_turn :: "daemon_setup \<Rightarrow> nat \<Rightarrow> accept_event \<Rightarrow> bool \<Rightarrow> serving \<Rightarrow> serving" where
  "take_turn ds i ev spawned d =
     (case accept_turn (se_shared d) (ds_max ds) ev of
        (Continue, s) \<Rightarrow> d\<lparr>se_shared := s, se_threads := (se_threads d)[i := Parked]\<rparr>
      | (Spawn, s) \<Rightarrow> d\<lparr>se_shared := after_spawn s spawned, se_threads := (se_threads d)[i := Parked]\<rparr>
      | (Stop r, s) \<Rightarrow> d\<lparr>se_shared := s, se_threads := (se_threads d)[i := Ended r]\<rparr>)"

fun thread_over :: "accept_thread \<Rightarrow> bool" where
  "thread_over (Ended r) = True"
| "thread_over NotStarted = True"
| "thread_over _ = False"

text \<open>
  The steps, marked \<open>True\<close> where it is the daemon that moves. Clients come, connections end, a panic may poison
  the lock, and an \<open>accept\<close> may be interrupted or fail without a connection, on the outside's account.
\<close>

inductive serving_step :: "(sock_addr \<Rightarrow> string) \<Rightarrow> daemon_setup \<Rightarrow> serving \<Rightarrow> bool \<Rightarrow> serving \<Rightarrow> bool" for show_addr ds where
  client_comes: "i < length (se_waiting d) \<Longrightarrow>
    serving_step show_addr ds d False (d\<lparr>se_waiting := (se_waiting d)[i := se_waiting d ! i + 1]\<rparr>)"
| connection_ends: "serving_step show_addr ds d False (d\<lparr>se_shared := drop_active_guard (se_shared d)\<rparr>)"
| lock_breaks: "serving_step show_addr ds d False (d\<lparr>se_shared := (se_shared d)\<lparr>lock_poisoned := True\<rparr>\<rparr>)"
| accept_interrupted: "i < length (se_threads d) \<Longrightarrow> se_threads d ! i = Parked \<Longrightarrow>
    serving_step show_addr ds d False (take_turn ds i AcceptInterrupted spawned d)"
| accept_returns: "i < length (se_threads d) \<Longrightarrow> se_threads d ! i = Parked \<Longrightarrow> 0 < se_waiting d ! i \<Longrightarrow>
    ev \<in> {Connection, AcceptError} \<Longrightarrow> serving_step show_addr ds d True (take_connection i ev d)"
| accept_fails: "i < length (se_threads d) \<Longrightarrow> se_threads d ! i = Parked \<Longrightarrow>
    serving_step show_addr ds d False (d\<lparr>se_threads := (se_threads d)[i := Accepted AcceptError]\<rparr>)"
| turn_taken: "i < length (se_threads d) \<Longrightarrow> se_threads d ! i = Accepted ev \<Longrightarrow>
    serving_step show_addr ds d True (take_turn ds i ev spawned d)"
| started: "se_phase d = Starting k \<Longrightarrow> k < length (ds_listeners ds) \<Longrightarrow> serving_step show_addr ds d True (start_thread k d)"
| start_fails: "se_phase d = Starting k \<Longrightarrow> k < length (ds_listeners ds) \<Longrightarrow>
    serving_step show_addr ds d True (start_refused show_addr ds k e d)"
| all_started: "se_phase d = Starting k \<Longrightarrow> \<not> k < length (ds_listeners ds) \<Longrightarrow> serving_step show_addr ds d True (start_primary d)"
| primary_ends: "se_phase d = Accepting \<Longrightarrow> se_threads d ! 0 = Ended r \<Longrightarrow>
    serving_step show_addr ds d True (d\<lparr>se_phase := Flagging r\<rparr>)"
| flagged: "se_phase d = Flagging r \<Longrightarrow> serving_step show_addr ds d True ((raise_flag d)\<lparr>se_phase := Knocking 0 r\<rparr>)"
| knocked: "se_phase d = Knocking k r \<Longrightarrow> k < length (ds_listeners ds) \<Longrightarrow>
    serving_step show_addr ds d True ((knock_at ds k d)\<lparr>se_phase := Knocking (k + 1) r\<rparr>)"
| all_knocked: "se_phase d = Knocking k r \<Longrightarrow> \<not> k < length (ds_listeners ds) \<Longrightarrow>
    serving_step show_addr ds d True (d\<lparr>se_phase := Joining 1 r\<rparr>)"
| joined: "se_phase d = Joining k r \<Longrightarrow> k < length (ds_listeners ds) \<Longrightarrow> thread_over (se_threads d ! k) \<Longrightarrow>
    serving_step show_addr ds d True (d\<lparr>se_phase := Joining (k + 1) r\<rparr>)"
| all_joined: "se_phase d = Joining k r \<Longrightarrow> \<not> k < length (ds_listeners ds) \<Longrightarrow>
    serving_step show_addr ds d True (d\<lparr>se_phase := Returned r\<rparr>)"
| requested: "j < length (se_requesters d) \<Longrightarrow> se_requesters d ! j = Quiet \<Longrightarrow>
    serving_step show_addr ds d True ((raise_flag d)\<lparr>se_requesters := (se_requesters d)[j := Raised 0]\<rparr>)"
| requester_knocks: "j < length (se_requesters d) \<Longrightarrow> se_requesters d ! j = Raised k \<Longrightarrow> k < length (ds_listeners ds) \<Longrightarrow>
    serving_step show_addr ds d True ((knock_at ds k d)\<lparr>se_requesters := (se_requesters d)[j := Raised (k + 1)]\<rparr>)"

inductive serving_run :: "(sock_addr \<Rightarrow> string) \<Rightarrow> daemon_setup \<Rightarrow> serving \<Rightarrow> bool list \<Rightarrow> serving \<Rightarrow> bool" for show_addr ds d where
  serving_here: "serving_run show_addr ds d [] d"
| serving_on: "serving_run show_addr ds d es d' \<Longrightarrow> serving_step show_addr ds d' e d'' \<Longrightarrow> serving_run show_addr ds d (es @ [e]) d''"

inductive_cases serving_stepE: "serving_step show_addr ds d e d'"

definition listening :: "(sock_addr \<Rightarrow> string) \<Rightarrow> daemon_setup \<Rightarrow> serving \<Rightarrow> bool" where
  "listening show_addr ds d \<longleftrightarrow> ds_listeners ds \<noteq> [] \<and> (\<exists>watchers es. serving_run show_addr ds (begin_serving ds watchers) es d)"

section \<open>Being told to stop\<close>

text \<open>The contract of \<open>wake\<close>: it makes its own listener's \<open>accept\<close> return.\<close>

definition wakeable :: "daemon_setup \<Rightarrow> bool" where
  "wakeable ds \<longleftrightarrow>
     list_all (\<lambda>k. ds_reached ds (wake (ds_listeners ds ! k)) = Some k) [0..<length (ds_listeners ds)]"

fun passed :: "nat \<Rightarrow> requester \<Rightarrow> bool" where
  "passed i (Raised k) = (i < k)"
| "passed i Quiet = False"

fun phase_passed :: "nat \<Rightarrow> serving_phase \<Rightarrow> bool" where
  "phase_passed i (Knocking k r) = (i < k)"
| "phase_passed i (Joining k r) = True"
| "phase_passed i (Returned r) = True"
| "phase_passed i _ = False"

fun phase_told :: "serving_phase \<Rightarrow> bool" where
  "phase_told (Knocking k r) = True"
| "phase_told (Joining k r) = True"
| "phase_told (Returned r) = True"
| "phase_told _ = False"

definition told :: "serving \<Rightarrow> bool" where
  "told d \<longleftrightarrow> phase_told (se_phase d) \<or> list_ex (\<lambda>r. r \<noteq> Quiet) (se_requesters d)"

definition knocked_for :: "serving \<Rightarrow> nat \<Rightarrow> bool" where
  "knocked_for d i \<longleftrightarrow> phase_passed i (se_phase d) \<or> list_ex (passed i) (se_requesters d)"

definition down :: "shared \<Rightarrow> bool" where
  "down s \<longleftrightarrow> lock_poisoned s \<or> shutdown (conn s)"

fun returned :: "serving_phase \<Rightarrow> bool" where
  "returned (Returned r) = True"
| "returned _ = False"

text \<open>What is left to do, in steps.\<close>

fun thread_left :: "accept_thread \<Rightarrow> nat" where
  "thread_left NotStarted = 3"
| "thread_left Parked = 2"
| "thread_left (Accepted e) = 1"
| "thread_left (Ended r) = 0"

fun phase_left :: "nat \<Rightarrow> serving_phase \<Rightarrow> nat" where
  "phase_left n (Starting k) = (n - k) + 2 * n + 8"
| "phase_left n Accepting = 2 * n + 7"
| "phase_left n (Flagging r) = 2 * n + 6"
| "phase_left n (Knocking k r) = (n - k) + n + 4"
| "phase_left n (Joining k r) = (n - k) + 2"
| "phase_left n (Returned r) = 0"

fun requester_left :: "nat \<Rightarrow> requester \<Rightarrow> nat" where
  "requester_left n Quiet = n + 1"
| "requester_left n (Raised k) = n - k"

definition steps_left :: "daemon_setup \<Rightarrow> serving \<Rightarrow> nat" where
  "steps_left ds d =
     (let n = length (ds_listeners ds)
      in sum_list (List.map thread_left (se_threads d)) + phase_left n (se_phase d) + sum_list (List.map (requester_left n) (se_requesters d)))"

section \<open>The invariant\<close>

fun phase_ok :: "nat \<Rightarrow> accept_thread list \<Rightarrow> serving_phase \<Rightarrow> bool" where
  "phase_ok n ts (Starting k) \<longleftrightarrow> 0 < k \<and> k \<le> n \<and> (\<forall>i<n. i = 0 \<or> k \<le> i \<longrightarrow> ts ! i = NotStarted)"
| "phase_ok n ts Accepting \<longleftrightarrow> ts ! 0 \<noteq> NotStarted"
| "phase_ok n ts (Flagging r) \<longleftrightarrow> thread_over (ts ! 0)"
| "phase_ok n ts (Knocking k r) \<longleftrightarrow> k \<le> n \<and> thread_over (ts ! 0)"
| "phase_ok n ts (Joining k r) \<longleftrightarrow> 0 < k \<and> k \<le> n \<and> (\<forall>i<k. thread_over (ts ! i))"
| "phase_ok n ts (Returned r) \<longleftrightarrow> (\<forall>i<n. thread_over (ts ! i))"

fun requester_ok :: "nat \<Rightarrow> requester \<Rightarrow> bool" where
  "requester_ok n (Raised k) \<longleftrightarrow> k \<le> n"
| "requester_ok n Quiet \<longleftrightarrow> True"

definition well_fed :: "daemon_setup \<Rightarrow> serving \<Rightarrow> bool" where
  "well_fed ds d \<longleftrightarrow> (\<forall>i < length (ds_listeners ds). wakeable ds \<longrightarrow> knocked_for d i \<longrightarrow>
     se_threads d ! i \<in> {Parked, NotStarted} \<longrightarrow> 0 < se_waiting d ! i)"

definition serving_ok :: "daemon_setup \<Rightarrow> serving \<Rightarrow> bool" where
  "serving_ok ds d \<longleftrightarrow>
     (let n = length (ds_listeners ds) in
      0 < n \<and> length (se_threads d) = n \<and> length (se_waiting d) = n \<and>
      Accepted AcceptInterrupted \<notin> set (se_threads d) \<and>
      phase_ok n (se_threads d) (se_phase d) \<and> list_all (requester_ok n) (se_requesters d) \<and>
      (told d \<longrightarrow> down (se_shared d)) \<and> well_fed ds d)"

lemma begin_ok: "ds_listeners ds \<noteq> [] \<Longrightarrow> serving_ok ds (begin_serving ds watchers)"
  by (auto simp: serving_ok_def begin_serving_def told_def well_fed_def knocked_for_def Let_def list_all_iff list_ex_iff
      Suc_le_eq)

lemma request_down [simp]: "down (request_shutdown s)" "lock_poisoned (request_shutdown s) = lock_poisoned s"
  by (auto simp: down_def request_shutdown_def)

lemma guard_down [simp]: "down (drop_active_guard s) = down s"
  by (simp add: down_def drop_active_guard_def)

text \<open>Once the daemon is told to stop, a turn ends its thread.\<close>

lemma turn_when_down:
  "down (se_shared d) \<Longrightarrow> ev \<noteq> AcceptInterrupted \<Longrightarrow>
    \<exists>r. take_turn ds i ev spawned d = d\<lparr>se_threads := (se_threads d)[i := Ended r]\<rparr>"
  by (cases ev) (auto simp: take_turn_def accept_turn_def admit_def admit_conn_def shutdown_requested_def down_def)

lemma turn_keeps:
  "se_waiting (take_turn ds i ev spawned d) = se_waiting d" "se_phase (take_turn ds i ev spawned d) = se_phase d"
  "se_requesters (take_turn ds i ev spawned d) = se_requesters d"
  "\<exists>t. (t = Parked \<or> (\<exists>r. t = Ended r)) \<and> se_threads (take_turn ds i ev spawned d) = (se_threads d)[i := t]"
  by (auto simp: take_turn_def split: turn.split prod.split)

lemma turn_down: "down (se_shared d) \<Longrightarrow> down (se_shared (take_turn ds i ev spawned d))"
  by (auto simp: take_turn_def accept_turn_def admit_def admit_conn_def shutdown_requested_def down_def after_spawn_def release_def
      split: accept_event.split)

lemma interrupted_turn: "se_threads d ! i = Parked \<Longrightarrow> take_turn ds i AcceptInterrupted spawned d = d"
  using list_update_id [of "se_threads d" i] by (simp add: take_turn_def accept_turn_def)

lemma phase_keeps_over:
  "phase_ok n ts p \<Longrightarrow> length ts = n \<Longrightarrow> i < n \<Longrightarrow> \<not> thread_over (ts ! i) \<Longrightarrow> t \<noteq> NotStarted \<Longrightarrow> phase_ok n (ts[i := t]) p"
  by (cases p; cases "i = 0") (auto simp: nth_list_update)

lemma told_knocked: "knocked_for d i \<Longrightarrow> told d"
  by (cases "se_phase d") (auto simp: knocked_for_def told_def list_ex_iff elim!: passed.elims)

lemma knock_keeps [simp]:
  "se_shared (knock_at ds k d) = se_shared d" "se_threads (knock_at ds k d) = se_threads d" "se_phase (knock_at ds k d) = se_phase d"
  "se_requesters (knock_at ds k d) = se_requesters d" "length (se_waiting (knock_at ds k d)) = length (se_waiting d)"
  by (auto simp: knock_at_def split: option.split)

lemma knock_only: "knock_at ds k d = d\<lparr>se_shared := se_shared d, se_waiting := se_waiting (knock_at ds k d)\<rparr>"
  by (auto simp: knock_at_def split: option.split)

lemma knock_more: "i < length (se_waiting d) \<Longrightarrow> se_waiting d ! i \<le> se_waiting (knock_at ds k d) ! i"
  by (auto simp: knock_at_def split: option.split) (metis le_SucI nth_list_update_eq nth_list_update_neq order_refl)

lemma knock_arrives:
  "wakeable ds \<Longrightarrow> k < length (ds_listeners ds) \<Longrightarrow> length (se_waiting d) = length (ds_listeners ds) \<Longrightarrow>
    0 < se_waiting (knock_at ds k d) ! k"
  by (auto simp: knock_at_def wakeable_def list_all_iff)

lemma passed_later: "list_ex (passed i) (rs[j := r]) \<Longrightarrow> list_ex (passed i) rs \<or> passed i r"
  using set_update_subset_insert [of rs j r] by (auto simp: list_ex_iff)

lemma quiet_later: "list_ex (\<lambda>r. r \<noteq> Quiet) (rs[j := r]) \<Longrightarrow> list_ex (\<lambda>r. r \<noteq> Quiet) rs \<or> r \<noteq> Quiet"
  using set_update_subset_insert [of rs j r] by (auto simp: list_ex_iff)

lemma requesters_ok_update: "list_all (requester_ok n) rs \<Longrightarrow> requester_ok n r \<Longrightarrow> list_all (requester_ok n) (rs[j := r])"
  using set_update_subset_insert [of rs j r] by (auto simp: list_all_iff)

lemma not_interrupted_update:
  "Accepted AcceptInterrupted \<notin> set ts \<Longrightarrow> t \<noteq> Accepted AcceptInterrupted \<Longrightarrow> Accepted AcceptInterrupted \<notin> set (ts[i := t])"
  using set_update_subset_insert [of ts i t] by auto

text \<open>A thread that moves on leaves the rest as it was.\<close>

lemma thread_moves:
  assumes "serving_ok ds d" and "i < length (se_threads d)" and "\<not> thread_over (se_threads d ! i)"
    and "t \<noteq> NotStarted" and "t \<noteq> Accepted AcceptInterrupted" and "d' = d\<lparr>se_shared := s, se_waiting := ws, se_threads := (se_threads d)[i := t]\<rparr>"
    and "down (se_shared d) \<longrightarrow> down s" and "length ws = length (se_waiting d)"
    and "\<And>j. j \<noteq> i \<Longrightarrow> ws ! j = se_waiting d ! j" and "t = Parked \<Longrightarrow> told d \<Longrightarrow> se_threads d ! i = Parked \<and> ws = se_waiting d"
  shows "serving_ok ds d'"
proof -
  have "phase_ok (length (ds_listeners ds)) ((se_threads d)[i := t]) (se_phase d)"
    using assms by (intro phase_keeps_over) (auto simp: serving_ok_def Let_def)
  moreover have "well_fed ds d'"
    using assms told_knocked [of d]
    by (auto simp: well_fed_def serving_ok_def Let_def knocked_for_def nth_list_update)
  ultimately show ?thesis
    using assms not_interrupted_update [of "se_threads d" t i] by (auto simp: serving_ok_def Let_def told_def)
qed

lemma phase_moves:
  assumes "serving_ok ds d" and "phase_ok (length (ds_listeners ds)) (se_threads d) p"
    and "phase_told p \<Longrightarrow> down s" and "down (se_shared d) \<Longrightarrow> down s"
    and "\<And>i. i < length (ds_listeners ds) \<Longrightarrow> wakeable ds \<Longrightarrow> phase_passed i p \<Longrightarrow> phase_passed i (se_phase d) \<or> 0 < ws ! i"
    and "length ws = length (se_waiting d)" and "\<And>i. i < length (se_waiting d) \<Longrightarrow> se_waiting d ! i \<le> ws ! i"
  shows "serving_ok ds (d\<lparr>se_shared := s, se_waiting := ws, se_phase := p\<rparr>)"
proof -
  let ?d = "d\<lparr>se_shared := s, se_waiting := ws, se_phase := p\<rparr>"
  have "well_fed ds ?d"
    unfolding well_fed_def
  proof (intro allI impI)
    fix i assume i: "i < length (ds_listeners ds)" "wakeable ds" and kn: "knocked_for ?d i"
      and st: "se_threads ?d ! i \<in> {Parked, NotStarted}"
    from kn assms(5) [OF i] consider "0 < ws ! i" | "knocked_for d i" by (auto simp: knocked_for_def)
    then show "0 < se_waiting ?d ! i"
    proof cases
      case 2
      with i st assms(1) have "0 < se_waiting d ! i" by (auto simp: serving_ok_def well_fed_def Let_def)
      with assms(7) [of i] i(1) assms(1) show ?thesis by (auto simp: serving_ok_def Let_def)
    qed simp
  qed
  with assms(1-4,6) show ?thesis by (auto simp: serving_ok_def Let_def told_def)
qed

lemma requester_moves:
  assumes "serving_ok ds d" and "requester_ok (length (ds_listeners ds)) r" and "down s"
    and "\<And>i. i < length (ds_listeners ds) \<Longrightarrow> wakeable ds \<Longrightarrow> passed i r \<Longrightarrow> knocked_for d i \<or> 0 < ws ! i"
    and "length ws = length (se_waiting d)" and "\<And>i. i < length (se_waiting d) \<Longrightarrow> se_waiting d ! i \<le> ws ! i"
  shows "serving_ok ds (d\<lparr>se_shared := s, se_waiting := ws, se_requesters := (se_requesters d)[j := r]\<rparr>)"
proof -
  let ?d = "d\<lparr>se_shared := s, se_waiting := ws, se_requesters := (se_requesters d)[j := r]\<rparr>"
  have "well_fed ds ?d"
    unfolding well_fed_def
  proof (intro allI impI)
    fix i assume i: "i < length (ds_listeners ds)" "wakeable ds" and kn: "knocked_for ?d i"
      and st: "se_threads ?d ! i \<in> {Parked, NotStarted}"
    from kn assms(4) [OF i] passed_later [of i "se_requesters d" j r] consider "0 < ws ! i" | "knocked_for d i"
      by (auto simp: knocked_for_def)
    then show "0 < se_waiting ?d ! i"
    proof cases
      case 2
      with i st assms(1) have "0 < se_waiting d ! i" by (auto simp: serving_ok_def well_fed_def Let_def)
      with assms(6) [of i] i(1) assms(1) show ?thesis by (auto simp: serving_ok_def Let_def)
    qed simp
  qed
  with assms(1-3,5) requesters_ok_update [of _ "se_requesters d" r j] show ?thesis by (auto simp: serving_ok_def Let_def)
qed

lemma serving_ok_lengths:
  "serving_ok ds d \<Longrightarrow> length (se_threads d) = length (ds_listeners ds)" "serving_ok ds d \<Longrightarrow> length (se_waiting d) = length (ds_listeners ds)"
  "serving_ok ds d \<Longrightarrow> 0 < length (ds_listeners ds)"
  "serving_ok ds d \<Longrightarrow> phase_ok (length (ds_listeners ds)) (se_threads d) (se_phase d)"
  "serving_ok ds d \<Longrightarrow> told d \<Longrightarrow> down (se_shared d)"
  by (auto simp: serving_ok_def Let_def)

lemma turn_ok:
  assumes "serving_ok ds d" and "i < length (se_threads d)" and "se_threads d ! i = Accepted ev"
  shows "serving_ok ds (take_turn ds i ev spawned d)"
proof -
  obtain t where t: "t = Parked \<or> (\<exists>r. t = Ended r)" "se_threads (take_turn ds i ev spawned d) = (se_threads d)[i := t]"
    using turn_keeps(4) [of ds i ev spawned d] by auto
  have ev: "ev \<noteq> AcceptInterrupted" using assms nth_mem [OF assms(2)] by (auto simp: serving_ok_def Let_def)
  show ?thesis
  proof (rule thread_moves [OF assms(1,2)])
    show "take_turn ds i ev spawned d = d\<lparr>se_shared := se_shared (take_turn ds i ev spawned d),
        se_waiting := se_waiting d, se_threads := (se_threads d)[i := t]\<rparr>"
      by (intro serving.equality) (simp_all add: turn_keeps(1-3) t(2))
    show "t = Parked \<Longrightarrow> told d \<Longrightarrow> se_threads d ! i = Parked \<and> se_waiting d = se_waiting d"
      using turn_when_down [OF serving_ok_lengths(5) [OF assms(1)] ev, of ds i spawned] t(2) assms(2)
      by (auto dest: arg_cong [where f = "\<lambda>ts. ts ! i"])
  qed (use assms(3) t turn_down in auto)
qed

lemma serving_ok_step: "serving_step show_addr ds d e d' \<Longrightarrow> serving_ok ds d \<Longrightarrow> serving_ok ds d'"
proof (induction rule: serving_step.induct)
  case (client_comes i d)
  then show ?case
    by (auto simp: serving_ok_def Let_def told_def well_fed_def knocked_for_def nth_list_update)
next
  case (connection_ends d)
  then show ?case by (auto simp: serving_ok_def Let_def told_def well_fed_def knocked_for_def)
next
  case (lock_breaks d)
  then show ?case by (auto simp: serving_ok_def Let_def told_def well_fed_def knocked_for_def down_def)
next
  case (accept_interrupted i d spawned)
  then show ?case by (simp add: interrupted_turn)
next
  case (accept_returns i d ev)
  show ?case
    by (rule thread_moves [where d = d and i = i and t = "Accepted ev" and s = "se_shared d" and ws = "(se_waiting d)[i := se_waiting d ! i - 1]"])
      (use accept_returns in \<open>auto simp: take_connection_def\<close>)
next
  case (accept_fails i d)
  show ?case
    by (rule thread_moves [where d = d and i = i and t = "Accepted AcceptError" and s = "se_shared d" and ws = "se_waiting d"])
      (use accept_fails in auto)
next
  case (turn_taken i d ev spawned)
  then show ?case by (simp add: turn_ok)
next
  case (requested j d)
  then show ?case
    using requester_moves [of ds d "Raised 0" "request_shutdown (se_shared d)" "se_waiting d" j] by (simp add: raise_flag_def)
next
  case (requester_knocks j d k)
  have "knocked_for d i" if "i < k" for i
    using that requester_knocks by (auto simp: knocked_for_def list_ex_iff intro!: bexI [OF _ nth_mem [of j]])
  moreover have "told d" using requester_knocks by (auto simp: told_def list_ex_iff intro!: bexI [OF _ nth_mem [of j]])
  ultimately have "serving_ok ds (d\<lparr>se_shared := se_shared d, se_waiting := se_waiting (knock_at ds k d),
      se_requesters := (se_requesters d)[j := Raised (k + 1)]\<rparr>)"
    using requester_knocks knock_arrives [of ds k d] knock_more [of _ d ds k] serving_ok_lengths [of ds d]
    by (intro requester_moves) (auto simp: less_Suc_eq)
  then show ?case by (subst knock_only) simp
next
  case (started d k)
  then show ?case
    by (auto simp: start_thread_def serving_ok_def Let_def told_def well_fed_def knocked_for_def nth_list_update
        not_interrupted_update)
next
  case (start_fails d k e)
  then have "serving_ok ds (d\<lparr>se_phase := Flagging r\<rparr>)" for r
    using phase_moves [of ds d "Flagging r" "se_shared d" "se_waiting d"] serving_ok_lengths [of ds d] by fastforce
  then show ?case by (simp only: start_refused_def)
next
  case (all_started d k)
  then show ?case
    by (auto simp: start_primary_def serving_ok_def Let_def told_def well_fed_def knocked_for_def nth_list_update
        not_interrupted_update)
next
  case (primary_ends d r)
  then show ?case using phase_moves [of ds d "Flagging r" "se_shared d" "se_waiting d"] by simp
next
  case (flagged d r)
  then show ?case
    using phase_moves [of ds d "Knocking 0 r" "request_shutdown (se_shared d)" "se_waiting d"] serving_ok_lengths(4) [of ds d]
    by (simp add: raise_flag_def)
next
  case (knocked d k r)
  then have told: "told d" by (simp add: told_def)
  have "serving_ok ds (d\<lparr>se_shared := se_shared d, se_waiting := se_waiting (knock_at ds k d), se_phase := Knocking (k + 1) r\<rparr>)"
    using knocked told knock_arrives [of ds k d] knock_more [of _ d ds k] serving_ok_lengths [of ds d]
    by (intro phase_moves) (auto simp: less_Suc_eq)
  then show ?case by (subst knock_only) simp
next
  case (all_knocked d k r)
  then show ?case
    using phase_moves [of ds d "Joining 1 r" "se_shared d" "se_waiting d"] serving_ok_lengths [of ds d]
    by (auto simp: told_def Suc_le_eq)
next
  case (joined d k r)
  then show ?case
    using phase_moves [of ds d "Joining (k + 1) r" "se_shared d" "se_waiting d"] serving_ok_lengths [of ds d]
    by (auto simp: told_def less_Suc_eq)
next
  case (all_joined d k r)
  then show ?case
    using phase_moves [of ds d "Returned r" "se_shared d" "se_waiting d"] serving_ok_lengths [of ds d]
    by (auto simp: told_def)
qed


lemma listening_ok: "listening show_addr ds d \<Longrightarrow> serving_ok ds d"
proof -
  have "serving_run show_addr ds b es d \<Longrightarrow> serving_ok ds b \<Longrightarrow> serving_ok ds d" for b es
    by (induction rule: serving_run.induct) (auto intro: serving_ok_step)
  then show "listening show_addr ds d \<Longrightarrow> serving_ok ds d" using begin_ok by (auto simp: listening_def)
qed

section \<open>Progress\<close>

lemma sum_list_update_add:
  "i < length xs \<Longrightarrow> sum_list (List.map f (xs[i := y])) + f (xs ! i) = sum_list (List.map f xs) + (f y :: nat)"
  by (induction xs arbitrary: i) (auto split: nat.split)

lemma told_update: "told d \<Longrightarrow> se_phase d' = se_phase d \<Longrightarrow> se_requesters d' = se_requesters d \<Longrightarrow> told d'"
  by (simp add: told_def)

lemma raised_update: "list_ex (\<lambda>r. r \<noteq> Quiet) rs \<Longrightarrow> r \<noteq> Quiet \<Longrightarrow> list_ex (\<lambda>r. r \<noteq> Quiet) (rs[j := r])"
  by (induction rs arbitrary: j) (auto split: nat.split)

lemma told_step: "serving_step show_addr ds d e d' \<Longrightarrow> told d \<Longrightarrow> told d'"
  by (induction rule: serving_step.induct)
    (auto simp: told_def turn_keeps take_connection_def start_thread_def start_refused_def start_primary_def raise_flag_def
      intro: raised_update)

lemma step_left:
  assumes "serving_step show_addr ds d e d'" and "serving_ok ds d" and "told d"
  shows "steps_left ds d' + (if e then 1 else 0) \<le> steps_left ds d"
  using assms
proof (induction rule: serving_step.induct)
  case (accept_interrupted i d spawned)
  then show ?case by (simp add: interrupted_turn)
next
  case (accept_returns i d ev)
  then show ?case
    using sum_list_update_add [of i "se_threads d" thread_left "Accepted ev"] by (simp add: steps_left_def take_connection_def Let_def)
next
  case (accept_fails i d)
  then show ?case
    using sum_list_update_add [of i "se_threads d" thread_left "Accepted AcceptError"] by (simp add: steps_left_def Let_def)
next
  case (turn_taken i d ev spawned)
  have "ev \<noteq> AcceptInterrupted" using turn_taken nth_mem [of i "se_threads d"] by (auto simp: serving_ok_def Let_def)
  with turn_when_down [OF serving_ok_lengths(5)] turn_taken obtain r where
    "take_turn ds i ev spawned d = d\<lparr>se_threads := (se_threads d)[i := Ended r]\<rparr>" by blast
  then show ?case
    using turn_taken sum_list_update_add [of i "se_threads d" thread_left "Ended r"] by (simp add: steps_left_def Let_def)
next
  case (started d k)
  then have "se_threads d ! k = NotStarted" "k < length (se_threads d)" using serving_ok_lengths [of ds d] by auto
  then show ?case
    using started sum_list_update_add [of k "se_threads d" thread_left Parked] by (simp add: steps_left_def start_thread_def Let_def)
next
  case (all_started d k)
  then have "se_threads d ! 0 = NotStarted" "0 < length (se_threads d)" using serving_ok_lengths [of ds d] by auto
  then show ?case
    using all_started sum_list_update_add [of 0 "se_threads d" thread_left Parked] by (simp add: steps_left_def start_primary_def Let_def)
next
  case (requested j d)
  then show ?case
    using sum_list_update_add [of j "se_requesters d" "requester_left (length (ds_listeners ds))" "Raised 0"]
    by (simp add: steps_left_def raise_flag_def Let_def)
next
  case (requester_knocks j d k)
  then show ?case
    using sum_list_update_add [of j "se_requesters d" "requester_left (length (ds_listeners ds))" "Raised (k + 1)"]
    by (simp add: steps_left_def Let_def)
qed (use serving_ok_lengths in \<open>auto simp: steps_left_def start_refused_def raise_flag_def Let_def Suc_diff_Suc\<close>)

text \<open>A thread that waits to be woken, is: it can take its next step.\<close>

lemma thread_can_step:
  assumes "serving_ok ds d" and "wakeable ds" and "i < length (ds_listeners ds)" and "knocked_for d i"
    and "\<not> thread_over (se_threads d ! i)"
  shows "\<exists>d'. serving_step show_addr ds d True d'"
proof (cases "se_threads d ! i")
  case Parked
  with assms have "0 < se_waiting d ! i" by (auto simp: serving_ok_def well_fed_def Let_def)
  with Parked assms serving_ok_lengths [OF assms(1)] show ?thesis by (metis accept_returns insertCI)
next
  case (Accepted ev)
  with assms serving_ok_lengths [OF assms(1)] show ?thesis by (metis turn_taken)
qed (use assms in auto)

lemma told_can_step:
  assumes ok: "serving_ok ds d" and wk: "wakeable ds" and told: "told d" and "\<not> returned (se_phase d)"
  shows "\<exists>d'. serving_step show_addr ds d True d'"
proof (cases "se_phase d")
  case (Starting k)
  then show ?thesis by (metis started all_started)
next
  case Accepting
  with told obtain r where "r \<in> set (se_requesters d)" "r \<noteq> Quiet" by (auto simp: told_def list_ex_iff)
  then obtain j k where j: "j < length (se_requesters d)" "se_requesters d ! j = Raised k"
    by (metis in_set_conv_nth requester.exhaust)
  show ?thesis
  proof (cases "k < length (ds_listeners ds)")
    case True
    with j show ?thesis by (metis requester_knocks)
  next
    case False
    then have "0 < k" using serving_ok_lengths(3) [OF ok] by linarith
    then have "knocked_for d 0"
      using j by (auto simp: knocked_for_def list_ex_iff intro!: bexI [OF _ nth_mem [OF j(1)]])
    show ?thesis
    proof (cases "thread_over (se_threads d ! 0)")
      case True
      with Accepting serving_ok_lengths(4) [OF ok] obtain r where "se_threads d ! 0 = Ended r"
        by (cases "se_threads d ! 0") auto
      with Accepting show ?thesis by (metis primary_ends)
    next
      case False
      with \<open>knocked_for d 0\<close> show ?thesis
        using thread_can_step [OF ok wk serving_ok_lengths(3) [OF ok]] by blast
    qed
  qed
next
  case (Flagging r)
  then show ?thesis by (metis flagged)
next
  case (Knocking k r)
  then show ?thesis by (metis knocked all_knocked)
next
  case (Joining k r)
  then have "knocked_for d k" by (simp add: knocked_for_def)
  with Joining show ?thesis
    using thread_can_step [OF ok wk, of k] by (cases "k < length (ds_listeners ds)") (metis joined, metis all_joined)
qed (use assms in auto)

lemma told_run:
  assumes "serving_run show_addr ds d es d'" and "serving_ok ds d" and "told d"
  shows "serving_ok ds d' \<and> told d' \<and> steps_left ds d' + length (filter id es) \<le> steps_left ds d"
  using assms
proof (induction rule: serving_run.induct)
  case (serving_on es d' e d'')
  with step_left [OF serving_on(2)] told_step [OF serving_on(2)] serving_ok_step [OF serving_on(2)] show ?case by auto
qed simp

lemma nothing_left: "serving_ok ds d \<Longrightarrow> steps_left ds d = 0 \<Longrightarrow> returned (se_phase d)"
  by (cases "se_phase d") (auto simp: steps_left_def Let_def)

lemma all_over: "serving_ok ds d \<Longrightarrow> returned (se_phase d) \<Longrightarrow> list_all thread_over (se_threads d)"
  by (cases "se_phase d") (auto simp: serving_ok_def Let_def list_all_length)

section \<open>Properties\<close>

text \<open>
  C25: A daemon whose listeners can be woken and which has been told to stop, by the end of its first accept loop, a
  signal or its idle watcher, is never stuck: however its clients and threads move, it has returned with all
  its accept threads ended, or it can take one of the boundedly many steps left to it.
\<close>

theorem told_daemon_returns:
  assumes "listening show_addr ds d" and "told d" and "wakeable ds" and "serving_run show_addr ds d es d'"
  shows "returned (se_phase d') \<and> list_all thread_over (se_threads d') \<or>
    length (filter id es) < steps_left ds d \<and> (\<exists>d''. serving_step show_addr ds d' True d'')"
proof -
  from told_run [OF assms(4) listening_ok [OF assms(1)] assms(2)] have run: "serving_ok ds d'" "told d'"
    "steps_left ds d' + length (filter id es) \<le> steps_left ds d" by blast+
  show ?thesis
  proof (cases "returned (se_phase d')")
    case True
    with run(1) all_over show ?thesis by blast
  next
    case False
    with nothing_left [OF run(1)] have "0 < steps_left ds d'" by blast
    with run(3) told_can_step [OF run(1) assms(3) run(2) False] show ?thesis by auto
  qed
qed

section \<open>Trying it out\<close>

definition two_doors :: daemon_setup where
  "two_doors = \<lparr>ds_listeners = [UnixSocketListener ''/s'', TcpSocketListener \<lparr>sa_ip = V4 [0, 0, 0, 0], sa_port = 7743\<rparr>], ds_max = 4,
     ds_reached = (\<lambda>k. if k = KnockPath ''/s'' then Some 0
       else if k = KnockAddr \<lparr>sa_ip = V4 [127, 0, 0, 1], sa_port = 7743\<rparr> WAKE_TIMEOUT then Some 1 else None)\<rparr>"

theorem told_daemon_returns_witness:
  "\<exists>d d''. listening (\<lambda>_. []) two_doors d \<and> se_shared d = new_shared\<lparr>conn := \<lparr>active = 0, generation = 0, shutdown = True\<rparr>\<rparr> \<and>
     wakeable two_doors \<and> serving_step (\<lambda>_. []) two_doors d True d''"
proof -
  let ?b = "begin_serving two_doors 1"
  let ?d = "(raise_flag ?b)\<lparr>se_requesters := (se_requesters ?b)[0 := Raised 0]\<rparr>"
  have "serving_step (\<lambda>_. []) two_doors ?b True ?d" by (rule requested) (simp_all add: begin_serving_def Let_def)
  from serving_on [OF serving_here this] have "listening (\<lambda>_. []) two_doors ?d"
    unfolding listening_def by (intro conjI exI) (simp_all add: two_doors_def)
  moreover have wk: "wakeable two_doors"
    by (simp add: wakeable_def two_doors_def connectable_def upt_rec)
  moreover have flag: "se_shared ?d = new_shared\<lparr>conn := \<lparr>active = 0, generation = 0, shutdown = True\<rparr>\<rparr>"
    by (simp add: raise_flag_def begin_serving_def request_shutdown_def new_shared_def Let_def)
  moreover have "told ?d" by (simp add: told_def begin_serving_def raise_flag_def Let_def)
  moreover have "\<not> returned (se_phase ?d)" by (simp add: begin_serving_def raise_flag_def Let_def)
  ultimately show ?thesis using told_daemon_returns [of "\<lambda>_. []" two_doors ?d "[]" ?d] serving_here by blast
qed

text \<open>Without the contract a daemon that was told to stop may wait for a client for ever.\<close>

definition deaf_door :: daemon_setup where
  "deaf_door = \<lparr>ds_listeners = [OtherListener ''deaf''], ds_max = 4, ds_reached = (\<lambda>_. None)\<rparr>"

lemma deaf_listener_stuck:
  "\<exists>d. listening (\<lambda>_. []) deaf_door d \<and> told d \<and> \<not> returned (se_phase d) \<and> (\<nexists>d'. serving_step (\<lambda>_. []) deaf_door d True d')"
proof -
  let ?b = "begin_serving deaf_door 1"
  let ?d1 = "start_primary ?b"
  let ?d2 = "(raise_flag ?d1)\<lparr>se_requesters := (se_requesters ?d1)[0 := Raised 0]\<rparr>"
  let ?d3 = "(knock_at deaf_door 0 ?d2)\<lparr>se_requesters := (se_requesters ?d2)[0 := Raised (0 + 1)]\<rparr>"
  note defs = begin_serving_def deaf_door_def start_primary_def raise_flag_def knock_at_def
  have "serving_step (\<lambda>_. []) deaf_door ?b True ?d1" by (rule all_started [where k = 1]) (simp_all add: defs Let_def)
  moreover have "serving_step (\<lambda>_. []) deaf_door ?d1 True ?d2" by (rule requested) (simp_all add: defs Let_def)
  moreover have "serving_step (\<lambda>_. []) deaf_door ?d2 True ?d3" by (rule requester_knocks) (simp_all add: defs Let_def)
  ultimately have "serving_run (\<lambda>_. []) deaf_door ?b ((([] @ [True]) @ [True]) @ [True]) ?d3"
    using serving_on [OF serving_on [OF serving_on [OF serving_here]]] by blast
  then have "listening (\<lambda>_. []) deaf_door ?d3"
    unfolding listening_def by (intro conjI exI) (simp add: deaf_door_def)
  moreover have "told ?d3" "\<not> returned (se_phase ?d3)" by (simp_all add: told_def defs Let_def)
  moreover have "\<not> serving_step (\<lambda>_. []) deaf_door ?d3 True d'" for d'
    by (rule notI, erule serving_stepE) (auto simp: defs Let_def)
  ultimately show ?thesis by blast
qed

end
