(* ===== verification/Process_Setup.thy ===== *)
theory Process_Setup
  imports Socket_Claim
begin

text \<open>
  What a daemon arranges in its process: the signals that ask it to stop (\<open>transport/signals.rs\<close>), its PID file
  (\<open>transport/pid_file.rs\<close>), and the forks and redirections that detach it (\<open>transport/unix_server.rs\<close>). The
  dispositions of the two signals, the published descriptor and the pipe are a record; a signal that is
  delivered, the watcher thread and the dropping of the guard are functions on it. The properties: after the
  guard is dropped everything is as before, and the callback ran if and only if a signal came; and a PID file is never
  seen incomplete.
\<close>

section \<open>Signals\<close>

datatype signal = SIGTERM | SIGINT

text \<open>What a signal does: the default, some other handler of the process, or ours.\<close>

datatype disposition = DefaultAction | OtherHandler nat | ShutdownHandler

record sig_state =
  on_sigterm :: disposition
  on_sigint :: disposition
  signal_write_fd :: int
  open_fds :: "int list"
  piped :: nat

text \<open>Whether the watcher waits in its \<open>read\<close>, or is over, and then whether it ran the callback.\<close>

datatype signal_watcher = Reading | Over bool

record signal_guard =
  sg_write_fd :: int
  sg_read_fd :: int
  sg_prev_term :: disposition
  sg_prev_int :: disposition

definition close_fd :: "int \<Rightarrow> sig_state \<Rightarrow> sig_state" where
  "close_fd fd st = st\<lparr>open_fds := removeAll fd (open_fds st)\<rparr>"

definition create_signal_pipe :: "os_error + int \<times> int \<Rightarrow> sig_state \<Rightarrow> (int \<times> int) result \<times> sig_state" where
  "create_signal_pipe r st =
     (case r of
        Inl e \<Rightarrow> (Inl (Io (os_text e)), st)
      | Inr (r, w) \<Rightarrow> (Inr (r, w), st\<lparr>open_fds := r # w # open_fds st, piped := 0\<rparr>))"

fun shutdown_signal_handler :: "sig_state \<Rightarrow> sig_state" where
  "shutdown_signal_handler st =
     (if 0 \<le> signal_write_fd st \<and> signal_write_fd st \<in> set (open_fds st) then st\<lparr>piped := piped st + 1\<rparr> else st)"

definition restore_signal_handlers :: "disposition \<Rightarrow> disposition \<Rightarrow> int \<Rightarrow> sig_state \<Rightarrow> sig_state" where
  "restore_signal_handlers prev_term prev_int write_fd st =
     close_fd write_fd (st\<lparr>on_sigterm := prev_term, on_sigint := prev_int, signal_write_fd := -1\<rparr>)"

text \<open>The replies are those of \<open>pipe\<close> and of spawning the watcher.\<close>

definition install_signal_handlers :: "os_error + int \<times> int \<Rightarrow> os_error option \<Rightarrow> sig_state \<Rightarrow> signal_guard result \<times> sig_state" where
  "install_signal_handlers pipe spawned st =
     (case create_signal_pipe pipe st of
        (Inl e, st) \<Rightarrow> (Inl e, st)
      | (Inr (r, w), st) \<Rightarrow>
          (let prev_term = on_sigterm st; prev_int = on_sigint st;
               st = st\<lparr>signal_write_fd := w, on_sigterm := ShutdownHandler, on_sigint := ShutdownHandler\<rparr>
           in case spawned of
                Some e \<Rightarrow> (Inl (Internal (''failed to spawn signal watcher: '' @ os_text e)),
                  close_fd r (restore_signal_handlers prev_term prev_int w st))
              | None \<Rightarrow> (Inr \<lparr>sg_write_fd = w, sg_read_fd = r, sg_prev_term = prev_term, sg_prev_int = prev_int\<rparr>, st)))"

text \<open>The watcher's \<open>read\<close> returns with a byte, or empty once the other end is closed; until then it waits.\<close>

fun watcher_turn :: "signal_guard \<Rightarrow> sig_state \<times> signal_watcher \<Rightarrow> sig_state \<times> signal_watcher" where
  "watcher_turn g (st, Over fired) = (st, Over fired)"
| "watcher_turn g (st, Reading) =
     (if 0 < piped st then (close_fd (sg_read_fd g) (st\<lparr>piped := piped st - 1\<rparr>), Over True)
      else if sg_write_fd g \<notin> set (open_fds st) then (close_fd (sg_read_fd g) st, Over False)
      else (st, Reading))"

text \<open>A signal whose disposition is not ours does nothing that is modelled.\<close>

definition deliver_signal :: "signal \<Rightarrow> sig_state \<Rightarrow> sig_state" where
  "deliver_signal s st =
     (if (case s of SIGTERM \<Rightarrow> on_sigterm st | SIGINT \<Rightarrow> on_sigint st) = ShutdownHandler then shutdown_signal_handler st else st)"

text \<open>Dropping the guard puts things back, closes the pipe and waits for the watcher.\<close>

definition drop_signal_guard :: "signal_guard \<Rightarrow> sig_state \<times> signal_watcher \<Rightarrow> sig_state \<times> signal_watcher" where
  "drop_signal_guard g sw =
     watcher_turn g (restore_signal_handlers (sg_prev_term g) (sg_prev_int g) (sg_write_fd g) (fst sw), snd sw)"

datatype signal_event = Delivered signal | WatcherRuns

fun signal_step :: "signal_guard \<Rightarrow> sig_state \<times> signal_watcher \<Rightarrow> signal_event \<Rightarrow> sig_state \<times> signal_watcher" where
  "signal_step g (st, w) (Delivered s) = (deliver_signal s st, w)"
| "signal_step g sw WatcherRuns = watcher_turn g sw"

text \<open>What holds while the guard lives, given whether a signal has come.\<close>

definition guard_holds :: "signal_guard \<Rightarrow> int list \<Rightarrow> bool \<Rightarrow> sig_state \<times> signal_watcher \<Rightarrow> bool" where
  "guard_holds g fds came sw \<longleftrightarrow>
     (case sw of (st, w) \<Rightarrow>
        on_sigterm st = ShutdownHandler \<and> on_sigint st = ShutdownHandler \<and> signal_write_fd st = sg_write_fd g \<and>
        (case w of
           Reading \<Rightarrow> open_fds st = sg_read_fd g # sg_write_fd g # fds \<and> (0 < piped st \<longleftrightarrow> came)
         | Over fired \<Rightarrow> open_fds st = sg_write_fd g # fds \<and> fired \<and> came))"

definition own_ends :: "signal_guard \<Rightarrow> int list \<Rightarrow> bool" where
  "own_ends g fds \<longleftrightarrow> 0 \<le> sg_write_fd g \<and> sg_read_fd g \<noteq> sg_write_fd g \<and> sg_read_fd g \<notin> set fds \<and> sg_write_fd g \<notin> set fds"

lemma guard_holds_step:
  "own_ends g fds \<Longrightarrow> guard_holds g fds came sw \<Longrightarrow>
    guard_holds g fds (came \<or> (case e of Delivered s \<Rightarrow> True | WatcherRuns \<Rightarrow> False)) (signal_step g sw e)"
  by (cases sw; cases "snd sw"; cases e)
    (auto simp: guard_holds_def own_ends_def deliver_signal_def close_fd_def removeAll_id split: signal.split)

lemma guard_holds_run:
  "own_ends g fds \<Longrightarrow> guard_holds g fds came sw \<Longrightarrow>
    guard_holds g fds (came \<or> list_ex (\<lambda>e. e \<noteq> WatcherRuns) es) (foldl (signal_step g) sw es)"
proof (induction es arbitrary: came sw)
  case (Cons e es)
  from Cons.IH [OF Cons.prems(1) guard_holds_step [OF Cons.prems, of e]] show ?case
    by (cases e) (simp_all add: disj_assoc)
qed simp

lemma drop_settles:
  "own_ends g fds \<Longrightarrow> guard_holds g fds came sw \<Longrightarrow>
    \<exists>st. drop_signal_guard g sw = (st, Over came) \<and> on_sigterm st = sg_prev_term g \<and> on_sigint st = sg_prev_int g \<and>
      signal_write_fd st = -1 \<and> open_fds st = fds"
  by (cases sw; cases "snd sw")
    (auto simp: guard_holds_def own_ends_def drop_signal_guard_def restore_signal_handlers_def close_fd_def removeAll_id)

text \<open>
  C27: Signals while a daemon serves: after its guard is dropped the former handlers are back, no descriptor of it is left
  open or published, its watcher is over, and the watcher has run its callback exactly when a signal
  came.
\<close>

theorem signals_settle:
  assumes "install_signal_handlers (Inr (r, w)) None st = (Inr g, st')"
    and "0 \<le> w" and "r \<noteq> w" and "r \<notin> set (open_fds st)" and "w \<notin> set (open_fds st)"
  shows "\<exists>after. drop_signal_guard g (foldl (signal_step g) (st', Reading) es) = (after, Over (list_ex (\<lambda>e. e \<noteq> WatcherRuns) es)) \<and>
    on_sigterm after = on_sigterm st \<and> on_sigint after = on_sigint st \<and> signal_write_fd after = -1 \<and>
    open_fds after = open_fds st"
proof -
  from assms(1) have g: "g = \<lparr>sg_write_fd = w, sg_read_fd = r, sg_prev_term = on_sigterm st, sg_prev_int = on_sigint st\<rparr>"
    and st': "guard_holds g (open_fds st) False (st', Reading)"
    by (auto simp: install_signal_handlers_def create_signal_pipe_def guard_holds_def Let_def)
  have own: "own_ends g (open_fds st)" using assms(2-5) g by (simp add: own_ends_def)
  from drop_settles [OF own guard_holds_run [OF own st', of es]] g show ?thesis by auto
qed

text \<open>An installation that fails leaves nothing behind.\<close>

lemma install_undone:
  assumes "install_signal_handlers pipe spawned st = (Inl e, st')" and "signal_write_fd st = -1"
    and "\<And>r w. pipe = Inr (r, w) \<Longrightarrow> r \<notin> set (open_fds st) \<and> w \<notin> set (open_fds st)"
  shows "st' = st\<lparr>piped := piped st'\<rparr>"
proof (cases pipe)
  case (Inr rw)
  with assms show ?thesis
    by (cases rw) (auto simp: install_signal_handlers_def create_signal_pipe_def restore_signal_handlers_def close_fd_def
        removeAll_id Let_def split: option.splits)
qed (use assms in \<open>auto simp: install_signal_handlers_def create_signal_pipe_def\<close>)

text \<open>
  A guard that is dropped while an older one lives, as where two servers run in one process, takes the older
  one's descriptor away with its own: its handler is back and does nothing.
\<close>

lemma nested_guard_deafens:
  assumes "on_sigterm st = ShutdownHandler" and "install_signal_handlers (Inr (r, w)) None st = (Inr g, st')"
  shows "deliver_signal SIGTERM (fst (drop_signal_guard g (st', Over fired))) = fst (drop_signal_guard g (st', Over fired)) \<and>
    on_sigterm (fst (drop_signal_guard g (st', Over fired))) = ShutdownHandler"
  using assms
  by (auto simp: install_signal_handlers_def create_signal_pipe_def drop_signal_guard_def restore_signal_handlers_def
      close_fd_def deliver_signal_def Let_def)

section \<open>The PID file\<close>

text \<open>
  The files of a directory, and the replies to the operations of \<open>write_pid_file\<close>: the entropy, and failures with, for the
  write, how many bytes made it. \<open>create_new\<close> fails on a file that is there. What follows the failures
  listed succeeds.
\<close>

record pid_replies =
  pr_random :: "os_error + nat"
  pr_create :: "os_error option"
  pr_write :: "(nat \<times> os_error) option"
  pr_flush :: "os_error option"
  pr_rename :: "os_error option"
  pr_remove :: "os_error option"

type_synonym pid_dir = "string \<Rightarrow> string option"

definition hex32 :: "nat \<Rightarrow> string" where
  "hex32 n = List.map (\<lambda>i. hex_char (n div 16 ^ i mod 16)) (rev [0..<32])"

definition pending_path :: "string \<Rightarrow> nat \<Rightarrow> string" where
  "pending_path dest nonce =
     path_join (case parent_of dest of Some p \<Rightarrow> if p = [] then ''.'' else p | None \<Rightarrow> ''.'') (''.sml-mcps-pid-'' @ hex32 nonce)"

text \<open>\<open>PendingPid::create\<close>.\<close>

definition create_pending :: "pid_replies \<Rightarrow> string \<Rightarrow> pid_dir \<Rightarrow> string result \<times> pid_dir" where
  "create_pending r dest fs =
     (case pr_random r of
        Inl e \<Rightarrow> (Inl (Io (os_text e)), fs)
      | Inr nonce \<Rightarrow>
          (let p = pending_path dest nonce in
           case pr_create r of
             Some e \<Rightarrow> (Inl (Io (os_text e)), fs)
           | None \<Rightarrow> if fs p \<noteq> None then (Inl (Io ''File exists''), fs) else (Inr p, fs(p \<mapsto> []))))"

text \<open>\<open>PendingPid::drop\<close>.\<close>

definition drop_pending :: "pid_replies \<Rightarrow> string \<Rightarrow> pid_dir \<Rightarrow> pid_dir" where
  "drop_pending r p fs = (if pr_remove r = None then fs(p := None) else fs)"

text \<open>\<open>PendingPid::publish\<close>, up to the drop: the result and the directory.\<close>

definition publish_pending :: "pid_replies \<Rightarrow> string \<Rightarrow> string \<Rightarrow> pid_dir \<Rightarrow> unit result \<times> pid_dir" where
  "publish_pending r p dest fs =
     (case pr_flush r of
        Some e \<Rightarrow> (Inl (Io (os_text e)), fs)
      | None \<Rightarrow>
          (case pr_rename r of
             Some e \<Rightarrow> (Inl (Io (os_text e)), fs)
           | None \<Rightarrow> (Inr (), fs(dest := fs p, p := None))))"

definition pid_line :: "nat \<Rightarrow> string" where
  "pid_line pid = show_nat pid @ [CHR 0x0A]"

text \<open>\<open>write_pid_file\<close>, with every directory there is on the way, the moments of the write included.\<close>

definition write_pid_file :: "pid_replies \<Rightarrow> nat \<Rightarrow> string \<Rightarrow> pid_dir \<Rightarrow> unit result \<times> pid_dir list" where
  "write_pid_file r pid dest fs =
     (case create_pending r dest fs of
        (Inl e, fs) \<Rightarrow> (Inl e, [fs])
      | (Inr p, created) \<Rightarrow>
          (let t = pid_line pid;
               made = (case pr_write r of Some (n, _) \<Rightarrow> min n (length t) | None \<Rightarrow> length t);
               writing = List.map (\<lambda>n. created(p \<mapsto> take n t)) [0..<made + 1];
               written = created(p \<mapsto> take made t)
           in case pr_write r of
                Some (_, e) \<Rightarrow> (Inl (Io (os_text e)), [fs] @ writing @ [drop_pending r p written])
              | None \<Rightarrow>
                  (case publish_pending r p dest written of
                     (res, published) \<Rightarrow> (res, [fs] @ writing @ [published, drop_pending r p published]))))"

text \<open>
  C28: A PID file is published whole: at every moment of writing it the file is what it was before or the complete
  new line, no file but the pending one is touched, a success means that the line is there, and unless
  its removal fails nothing pending is left.
\<close>

theorem pid_file_published_whole:
  assumes "write_pid_file r pid dest fs = (res, trace)"
    and "pr_random r = Inr nonce" and "pending_path dest nonce \<noteq> dest" and "fs (pending_path dest nonce) = None"
  shows "list_all (\<lambda>now. now dest = fs dest \<or> now dest = Some (pid_line pid)) trace \<and>
    list_all (\<lambda>now. \<forall>p. p = dest \<or> p = pending_path dest nonce \<or> now p = fs p) trace \<and>
    last trace dest = (if res = Inr () then Some (pid_line pid) else fs dest) \<and>
    (pr_remove r = None \<longrightarrow> last trace (pending_path dest nonce) = None)"
  using assms
  by (auto simp: write_pid_file_def create_pending_def publish_pending_def drop_pending_def list_all_iff Let_def
      split: option.splits if_splits)

section \<open>Detaching\<close>

text \<open>What a fork returns, and to whom; the process that started it all prints the child's number and exits, the child exits.\<close>

datatype fork_reply = ForkFails os_error | InChild | InParent nat

datatype fork_fate = ExitsPrinting "string option" | GoesOn "unit result"

definition daemonize_fork :: "fork_reply \<Rightarrow> os_error option \<Rightarrow> fork_reply \<Rightarrow> fork_fate" where
  "daemonize_fork first session second =
     (case first of
        ForkFails e \<Rightarrow> GoesOn (Inl (Io (os_text e)))
      | InParent child \<Rightarrow> ExitsPrinting (Some (pid_line child))
      | InChild \<Rightarrow>
          (case session of
             Some e \<Rightarrow> GoesOn (Inl (Io (os_text e)))
           | None \<Rightarrow>
               (case second of
                  ForkFails e \<Rightarrow> GoesOn (Inl (Io (os_text e)))
                | InParent _ \<Rightarrow> ExitsPrinting None
                | InChild \<Rightarrow> GoesOn (Inr ()))))"

text \<open>The three standard descriptors, by what lies behind them, and the replies to opening \<open>/dev/null\<close> and to each duplication.\<close>

fun redirect_each :: "os_error option list \<Rightarrow> nat \<Rightarrow> (nat \<Rightarrow> string) \<Rightarrow> unit result \<times> (nat \<Rightarrow> string)" where
  "redirect_each [] fd tbl = (Inr (), tbl)"
| "redirect_each (Some e # rs) fd tbl = (Inl (Io (os_text e)), tbl)"
| "redirect_each (None # rs) fd tbl = redirect_each rs (fd + 1) (tbl(fd := ''/dev/null''))"

definition redirect_stdio_to_devnull :: "os_error option \<Rightarrow> os_error option \<times> os_error option \<times> os_error option \<Rightarrow>
    (nat \<Rightarrow> string) \<Rightarrow> unit result \<times> (nat \<Rightarrow> string)" where
  "redirect_stdio_to_devnull opened dups tbl =
     (case opened of
        Some e \<Rightarrow> (Inl (Io (os_text e)), tbl)
      | None \<Rightarrow> (case dups of (a, b, c) \<Rightarrow> redirect_each [a, b, c] 0 tbl))"

text \<open>A daemon whose redirection succeeded holds no terminal.\<close>

lemma redirected_each:
  "redirect_each rs fd tbl = (Inr (), tbl') \<Longrightarrow> tbl' i = (if fd \<le> i \<and> i < fd + length rs then ''/dev/null'' else tbl i)"
  by (induction rs fd tbl rule: redirect_each.induct) (auto simp: le_Suc_eq)

lemma redirected: "redirect_stdio_to_devnull opened dups tbl = (Inr (), tbl') \<Longrightarrow> fd < 3 \<Longrightarrow> tbl' fd = ''/dev/null''"
  by (cases dups) (auto simp: redirect_stdio_to_devnull_def simp del: redirect_each.simps dest!: redirected_each [where i = fd] split: option.splits)

section \<open>Trying them out\<close>

theorem signals_settle_witness:
  "\<exists>g st' after. install_signal_handlers (Inr (5, 6)) None
      \<lparr>on_sigterm = DefaultAction, on_sigint = OtherHandler 3, signal_write_fd = -1, open_fds = [0, 1, 2], piped = 0\<rparr> = (Inr g, st') \<and>
    drop_signal_guard g (foldl (signal_step g) (st', Reading) [Delivered SIGINT, Delivered SIGTERM]) = (after, Over True) \<and>
    on_sigint after = OtherHandler 3 \<and> open_fds after = [0, 1, 2]"
proof -
  let ?st = "\<lparr>on_sigterm = DefaultAction, on_sigint = OtherHandler 3, signal_write_fd = -1, open_fds = [0, 1, 2], piped = 0\<rparr>"
  obtain g st' where inst: "install_signal_handlers (Inr (5, 6)) None ?st = (Inr g, st')"
    by (simp add: install_signal_handlers_def create_signal_pipe_def Let_def)
  from signals_settle [OF inst, of "[Delivered SIGINT, Delivered SIGTERM]"] inst show ?thesis by auto
qed

theorem pid_file_published_whole_witness:
  "\<exists>res trace. write_pid_file \<lparr>pr_random = Inr 7, pr_create = None, pr_write = Some (1, \<lparr>raw_os_error = None, os_text = ''full''\<rparr>),
      pr_flush = None, pr_rename = None, pr_remove = None\<rparr> 4711 ''d.pid'' [''d.pid'' \<mapsto> ''old''] = (res, trace) \<and>
    last trace ''d.pid'' = Some ''old'' \<and> last trace (pending_path ''d.pid'' 7) = None"
proof -
  let ?r = "\<lparr>pr_random = Inr 7, pr_create = None, pr_write = Some (1, \<lparr>raw_os_error = None, os_text = ''full''\<rparr>),
      pr_flush = None, pr_rename = None, pr_remove = None\<rparr>"
  obtain res trace where run: "write_pid_file ?r 4711 ''d.pid'' [''d.pid'' \<mapsto> ''old''] = (res, trace)" by fastforce
  have other: "pending_path ''d.pid'' 7 \<noteq> ''d.pid''"
    by (simp add: pending_path_def path_join_def parent_of_def trim_tail.simps Let_def starts_with_def)
  with run have "res \<noteq> Inr ()" by (auto simp: write_pid_file_def create_pending_def Let_def)
  with pid_file_published_whole [OF run, of 7] run other show ?thesis by auto
qed

end
