(* ===== verification/Daemon_Options.thy ===== *)
theory Daemon_Options
  imports Launch
begin

text \<open>
  The setters of \<open>DaemonOptions\<close> (\<open>daemon.rs\<close>) and of \<open>UnixServer\<close> (\<open>transport/unix_server.rs\<close>), and the two short
  ways into \<open>serve_daemon_from\<close>. The property: settings made on the options and then handed over are
  the same settings made on the server itself.
\<close>

section \<open>On the options\<close>

definition option_idle_timeout :: "nat \<Rightarrow> daemon_options \<Rightarrow> daemon_options" where
  "option_idle_timeout t opts = opts\<lparr>do_idle_timeout := Some t\<rparr>"

definition option_max_connections :: "nat \<Rightarrow> daemon_options \<Rightarrow> daemon_options" where
  "option_max_connections n opts = opts\<lparr>do_max_connections := Some n\<rparr>"

definition option_listener :: "nat \<Rightarrow> daemon_options \<Rightarrow> daemon_options" where
  "option_listener l opts = opts\<lparr>do_listeners := do_listeners opts @ [l]\<rparr>"

definition option_busy_check :: "daemon_options \<Rightarrow> daemon_options" where
  "option_busy_check opts = opts\<lparr>do_busy_check := True\<rparr>"

definition option_shim_transform :: "shim_transform \<Rightarrow> daemon_options \<Rightarrow> daemon_options" where
  "option_shim_transform tr opts = opts\<lparr>do_shim_transform := Some tr\<rparr>"

text \<open>What \<open>serve_daemon\<close> makes of its arguments before \<open>serve_daemon_with\<close>, which adds the process's own.\<close>

definition serve_daemon :: "(string \<Rightarrow> string) \<Rightarrow> string list \<Rightarrow> string \<Rightarrow> nat \<Rightarrow> place \<Rightarrow> 'c server \<Rightarrow> task_store \<Rightarrow> 'c launch" where
  "serve_daemon lossy argv path idle pl sv store =
     serve_daemon_from lossy argv (option_idle_timeout idle (new_options path)) pl sv store"

section \<open>On the server\<close>

definition server_with_tools :: "('c server \<Rightarrow> unit result \<times> 'c server \<times> task_store option) \<Rightarrow> 'c unix_server \<Rightarrow> 'c unix_server" where
  "server_with_tools setup us = us\<lparr>us_setup := Some setup\<rparr>"

definition server_idle_timeout :: "nat \<Rightarrow> 'c unix_server \<Rightarrow> 'c unix_server" where
  "server_idle_timeout t us = us\<lparr>us_idle_timeout := Some t\<rparr>"

definition server_max_connections :: "nat \<Rightarrow> 'c unix_server \<Rightarrow> 'c unix_server" where
  "server_max_connections n us = us\<lparr>us_max_connections := max n 1\<rparr>"

definition server_listener :: "nat \<Rightarrow> 'c unix_server \<Rightarrow> 'c unix_server" where
  "server_listener l us = us\<lparr>us_listeners := us_listeners us @ [l]\<rparr>"

definition server_busy_check :: "'c unix_server \<Rightarrow> 'c unix_server" where
  "server_busy_check us = us\<lparr>us_busy_check := True\<rparr>"

section \<open>Either way is the same\<close>

datatype daemon_setting = SetIdleTimeout nat | SetMaxConnections nat | SetListener nat | SetBusyCheck | SetTransform shim_transform

fun set_option :: "daemon_options \<Rightarrow> daemon_setting \<Rightarrow> daemon_options" where
  "set_option opts (SetIdleTimeout t) = option_idle_timeout t opts"
| "set_option opts (SetMaxConnections n) = option_max_connections n opts"
| "set_option opts (SetListener l) = option_listener l opts"
| "set_option opts SetBusyCheck = option_busy_check opts"
| "set_option opts (SetTransform tr) = option_shim_transform tr opts"

text \<open>The transform is the shim's and not the daemon's.\<close>

fun set_server :: "'c unix_server \<Rightarrow> daemon_setting \<Rightarrow> 'c unix_server" where
  "set_server us (SetIdleTimeout t) = server_idle_timeout t us"
| "set_server us (SetMaxConnections n) = server_max_connections n us"
| "set_server us (SetListener l) = server_listener l us"
| "set_server us SetBusyCheck = server_busy_check us"
| "set_server us (SetTransform tr) = us"

lemma configure_set: "configure (set_option opts c) us = set_server (configure opts us) c"
  by (cases c) (auto simp: configure_def option_idle_timeout_def option_max_connections_def option_listener_def
      option_busy_check_def option_shim_transform_def server_idle_timeout_def server_max_connections_def
      server_listener_def server_busy_check_def Let_def split: option.split)

text \<open>However many settings are made, and in whatever order.\<close>

theorem options_configure_server: "configure (foldl set_option (new_options path) cs) us = foldl set_server us cs"
proof (induction cs rule: rev_induct)
  case Nil
  show ?case by (simp add: configure_def new_options_def Let_def)
qed (simp add: configure_set)

end
