(* ===== verification/Streams.thy ===== *)
theory Streams
  imports Line
begin

text \<open>
  The transports over byte streams (\<open>transport/socket_stream.rs\<close>, \<open>stdio.rs\<close>, \<open>stream.rs\<close>): a reader of
  lines over an incoming stream, and writes to an outgoing one that may fail after any number of bytes. The
  Unix and the TCP transport are the socket transport. The printer of JSON text is a parameter. The
  lemmas: lines that were written are read back; and a write either puts its whole line on the stream or fails having put a
  part of it.
\<close>

section \<open>Writing\<close>

text \<open>
  An outgoing stream, with what becomes of the operations on it: a failure says how many of the
  bytes were taken before. An operation beyond those listed succeeds. \<open>sunk\<close> is what the stream has taken, buffered or
  sent.
\<close>

record sink =
  sunk :: bytes
  sink_faults :: "(nat \<times> io_error) option list"

definition emit :: "bytes \<Rightarrow> sink \<Rightarrow> (io_error + unit) \<times> sink" where
  "emit bs s =
     (case sink_faults s of
        Some (n, e) # fs \<Rightarrow> (Inl e, s\<lparr>sunk := sunk s @ take n bs, sink_faults := fs\<rparr>)
      | None # fs \<Rightarrow> (Inr (), s\<lparr>sunk := sunk s @ bs, sink_faults := fs\<rparr>)
      | [] \<Rightarrow> (Inr (), s\<lparr>sunk := sunk s @ bs\<rparr>))"

text \<open>The text, the newline, the flush; a failure inside the serializer is its error.\<close>

definition write_line :: "(json \<Rightarrow> string) \<Rightarrow> jsonrpc_message \<Rightarrow> sink \<Rightarrow> unit result \<times> sink" where
  "write_line print m s =
     (case emit (print (message_to_value m)) s of
        (Inl e, s) \<Rightarrow> (Inl (Json (description e)), s)
      | (Inr _, s) \<Rightarrow>
          (case emit [newline] s of
             (Inl e, s) \<Rightarrow> (Inl (Io (description e)), s)
           | (Inr _, s) \<Rightarrow>
               (case emit [] s of (Inl e, s) \<Rightarrow> (Inl (Io (description e)), s) | (Inr _, s) \<Rightarrow> (Inr (), s))))"

section \<open>The socket transport\<close>

text \<open>
  Both ends of a connected socket, with the read timeout for the next read. \<open>halves\<close> is what has been
  shut down.
\<close>

datatype shutdown_how = ShutWrite | ShutBoth

record socket_transport =
  so_reader :: line_reader
  so_source :: byte_source
  so_writer :: sink
  so_read_timeout :: "nat option"
  so_halves :: "shutdown_how list"

text \<open>\<open>try_from_stream\<close>, given what cloning the descriptor returns.\<close>

definition socket_of :: "io_error option \<Rightarrow> byte_source \<Rightarrow> sink \<Rightarrow> socket_transport result" where
  "socket_of cloned src s =
     (case cloned of
        Some e \<Rightarrow> Inl (Io (description e))
      | None \<Rightarrow> Inr \<lparr>so_reader = new_reader, so_source = src, so_writer = s, so_read_timeout = None, so_halves = []\<rparr>)"

text \<open>
  A text decoder with the wording of its errors, the clock reading at the start, and the passes of
  the reader's loop, in which an armed deadline is put on the socket by \<open>remaining\<close>.
\<close>

record decoder =
  de_from_str :: "string \<Rightarrow> string + json"
  de_render :: "de_error \<Rightarrow> string"
  de_utf8 :: "bytes \<Rightarrow> string"
  de_duration :: "nat \<Rightarrow> string"

definition socket_read :: "decoder \<Rightarrow> nat \<Rightarrow> (nat \<times> io_error option) list \<Rightarrow> socket_transport \<Rightarrow>
    jsonrpc_message result option \<times> socket_transport" where
  "socket_read dc start passes t =
     (case read_message (de_from_str dc) (de_render dc) (de_utf8 dc) (de_duration dc) (so_read_timeout t) start
         (so_reader t) (so_source t) passes of
        (r, reader, src) \<Rightarrow> (r, t\<lparr>so_reader := reader, so_source := src\<rparr>))"

text \<open>\<open>TimedStream::set_deadline\<close>, in nanoseconds: a socket takes a timeout of zero for none.\<close>

definition remaining :: "nat option \<Rightarrow> nat \<Rightarrow> nat option" where
  "remaining deadline now = map_option (\<lambda>dl. max (dl - now) 1) deadline"

definition socket_write :: "(json \<Rightarrow> string) \<Rightarrow> jsonrpc_message \<Rightarrow> socket_transport \<Rightarrow> unit result \<times> socket_transport" where
  "socket_write print m t = (case write_line print m (so_writer t) of (r, s) \<Rightarrow> (r, t\<lparr>so_writer := s\<rparr>))"

text \<open>What \<open>shutdown\<close> returns; \<open>NotConnected\<close> is told apart.\<close>

datatype shut_reply = ShutDone | NotConnected | ShutFailed io_error

definition shut_result :: "shut_reply \<Rightarrow> unit result" where
  "shut_result r = (case r of ShutFailed e \<Rightarrow> Inl (Io (description e)) | _ \<Rightarrow> Inr ())"

definition socket_close :: "shut_reply \<Rightarrow> socket_transport \<Rightarrow> unit result \<times> socket_transport" where
  "socket_close r t = (shut_result r, if r = ShutDone then t\<lparr>so_halves := so_halves t @ [ShutBoth]\<rparr> else t)"

definition socket_close_write :: "shut_reply \<Rightarrow> socket_transport \<Rightarrow> unit result \<times> socket_transport" where
  "socket_close_write r t = (shut_result r, if r = ShutDone then t\<lparr>so_halves := so_halves t @ [ShutWrite]\<rparr> else t)"

text \<open>\<open>try_clone_writer\<close>: two clones, either of which may fail; the new transport has a reader of its own.\<close>

definition socket_clone_writer :: "io_error option \<Rightarrow> io_error option \<Rightarrow> socket_transport \<Rightarrow> socket_transport option" where
  "socket_clone_writer first second t =
     (case first of
        Some _ \<Rightarrow> None
      | None \<Rightarrow> (case socket_of second (so_source t) (so_writer t) of Inl _ \<Rightarrow> None | Inr t \<Rightarrow> Some t))"

definition socket_set_timeout :: "nat option \<Rightarrow> socket_transport \<Rightarrow> bool result \<times> socket_transport" where
  "socket_set_timeout d t = (Inr True, t\<lparr>so_read_timeout := d\<rparr>)"

definition socket_set_limit :: "nat \<Rightarrow> socket_transport \<Rightarrow> socket_transport" where
  "socket_set_limit m t = t\<lparr>so_reader := set_limit (so_reader t) m\<rparr>"

section \<open>Standard streams\<close>

text \<open>\<open>poll\<close> takes whole milliseconds, and a remainder below one is rounded up.\<close>

definition poll_millis :: "nat \<Rightarrow> nat" where
  "poll_millis nanos =
     (let millis = min (nanos div 1000000) (2 ^ 31 - 1)
      in if millis = 0 \<and> nanos \<noteq> 0 then 1 else millis)"

text \<open>
  \<open>poll_readable\<close> by the answer of \<open>poll\<close>, and a read of the descriptor: the bytes it yields, or an error.
\<close>

definition poll_readable :: "io_error + nat \<Rightarrow> io_error + bool" where
  "poll_readable ready =
     (case ready of
        Inr n \<Rightarrow> Inr (0 < n)
      | Inl e \<Rightarrow> if kind e = Interrupted then Inr True else Inl e)"

definition stdin_read :: "nat option \<Rightarrow> nat \<Rightarrow> (nat \<Rightarrow> io_error + nat) \<Rightarrow> io_error + bytes \<Rightarrow> io_error + bytes" where
  "stdin_read deadline now poll descriptor =
     (case deadline of
        None \<Rightarrow> descriptor
      | Some dl \<Rightarrow>
          (case poll_readable (poll (poll_millis (dl - now))) of
             Inl e \<Rightarrow> Inl e
           | Inr readable \<Rightarrow> if readable then descriptor else Inl (IoError WouldBlock [])))"

record stdio_transport =
  std_reader :: line_reader
  std_source :: byte_source
  std_out :: sink
  std_read_timeout :: "nat option"

definition new_stdio :: "byte_source \<Rightarrow> sink \<Rightarrow> stdio_transport" where
  "new_stdio src s = \<lparr>std_reader = new_reader, std_source = src, std_out = s, std_read_timeout = None\<rparr>"

definition stdio_read :: "decoder \<Rightarrow> nat \<Rightarrow> (nat \<times> io_error option) list \<Rightarrow> stdio_transport \<Rightarrow>
    jsonrpc_message result option \<times> stdio_transport" where
  "stdio_read dc start passes t =
     (case read_message (de_from_str dc) (de_render dc) (de_utf8 dc) (de_duration dc) (std_read_timeout t) start
         (std_reader t) (std_source t) passes of
        (r, reader, src) \<Rightarrow> (r, t\<lparr>std_reader := reader, std_source := src\<rparr>))"

definition stdio_write :: "(json \<Rightarrow> string) \<Rightarrow> jsonrpc_message \<Rightarrow> stdio_transport \<Rightarrow> unit result \<times> stdio_transport" where
  "stdio_write print m t = (case write_line print m (std_out t) of (r, s) \<Rightarrow> (r, t\<lparr>std_out := s\<rparr>))"

text \<open>On unix, where deadlines are honored. Closing does nothing.\<close>

definition stdio_set_timeout :: "nat option \<Rightarrow> stdio_transport \<Rightarrow> bool result \<times> stdio_transport" where
  "stdio_set_timeout d t = (Inr True, t\<lparr>std_read_timeout := d\<rparr>)"

definition stdio_close_write :: "stdio_transport \<Rightarrow> unit result \<times> stdio_transport" where
  "stdio_close_write t = (Inr (), t)"

text \<open>The process has one standard output, so the new transport writes to the same; it has a reader of its own.\<close>

definition stdio_clone_writer :: "stdio_transport \<Rightarrow> stdio_transport option" where
  "stdio_clone_writer t = Some (new_stdio (std_source t) (std_out t))"

definition stdio_close :: "stdio_transport \<Rightarrow> unit result \<times> stdio_transport" where
  "stdio_close t = (Inr (), t)"

definition stdio_set_limit :: "nat \<Rightarrow> stdio_transport \<Rightarrow> stdio_transport" where
  "stdio_set_limit m t = t\<lparr>std_reader := set_limit (std_reader t) m\<rparr>"

section \<open>A stream that came wrapped\<close>

record stream_transport =
  sm_reader :: line_reader
  sm_source :: byte_source
  sm_out :: sink

definition new_stream :: "byte_source \<Rightarrow> sink \<Rightarrow> stream_transport" where
  "new_stream src s = \<lparr>sm_reader = new_reader, sm_source = src, sm_out = s\<rparr>"

definition stream_read :: "decoder \<Rightarrow> (nat \<times> io_error option) list \<Rightarrow> stream_transport \<Rightarrow>
    jsonrpc_message result option \<times> stream_transport" where
  "stream_read dc passes t =
     (case read_message (de_from_str dc) (de_render dc) (de_utf8 dc) (de_duration dc) None 0 (sm_reader t) (sm_source t) passes of
        (r, reader, src) \<Rightarrow> (r, t\<lparr>sm_reader := reader, sm_source := src\<rparr>))"

definition stream_write :: "(json \<Rightarrow> string) \<Rightarrow> jsonrpc_message \<Rightarrow> stream_transport \<Rightarrow> unit result \<times> stream_transport" where
  "stream_write print m t = (case write_line print m (sm_out t) of (r, s) \<Rightarrow> (r, t\<lparr>sm_out := s\<rparr>))"

definition stream_close :: "stream_transport \<Rightarrow> unit result \<times> stream_transport" where
  "stream_close t = (Inr (), t\<lparr>sm_out := snd (emit [] (sm_out t))\<rparr>)"

definition stream_clone_writer :: "stream_transport \<Rightarrow> stream_transport option" where
  "stream_clone_writer t = None"

definition stream_set_timeout :: "nat option \<Rightarrow> stream_transport \<Rightarrow> bool result \<times> stream_transport" where
  "stream_set_timeout d t = (Inr False, t)"

definition stream_set_limit :: "nat \<Rightarrow> stream_transport \<Rightarrow> stream_transport" where
  "stream_set_limit m t = t\<lparr>sm_reader := set_limit (sm_reader t) m\<rparr>"

section \<open>What the transports promise\<close>

text \<open>The bytes of a message on the wire.\<close>

definition wire_line :: "(json \<Rightarrow> string) \<Rightarrow> jsonrpc_message \<Rightarrow> bytes" where
  "wire_line print m = print (message_to_value m) @ [newline]"

fun write_all :: "(jsonrpc_message \<Rightarrow> 't \<Rightarrow> unit result \<times> 't) \<Rightarrow> jsonrpc_message list \<Rightarrow> 't \<Rightarrow> unit result \<times> 't" where
  "write_all put [] t = (Inr (), t)"
| "write_all put (m # ms) t = (case put m t of (Inl e, t) \<Rightarrow> (Inl e, t) | (Inr _, t) \<Rightarrow> write_all put ms t)"

text \<open>Reading one message after another, without a deadline; each has passes enough for the whole source.\<close>

fun read_all :: "((nat \<times> io_error option) list \<Rightarrow> 't \<Rightarrow> jsonrpc_message result option \<times> 't) \<Rightarrow> ('t \<Rightarrow> byte_source) \<Rightarrow> nat \<Rightarrow> 't \<Rightarrow>
    jsonrpc_message result option list" where
  "read_all get src_of 0 t = []"
| "read_all get src_of (Suc n) t =
     (case get (replicate (length (src_of t) + 1) (0, None)) t of (r, t) \<Rightarrow> r # read_all get src_of n t)"

locale line_writer =
  fixes put :: "jsonrpc_message \<Rightarrow> 't \<Rightarrow> unit result \<times> 't"
    and out_of :: "'t \<Rightarrow> bytes"
    and print :: "json \<Rightarrow> string"
  assumes put_whole: "put m t = (Inr u, t') \<Longrightarrow> out_of t' = out_of t @ wire_line print m"
    and put_part: "put m t = (Inl e, t') \<Longrightarrow> \<exists>n. out_of t' = out_of t @ take n (wire_line print m)"
begin

lemma put_all_whole: "write_all put ms t = (Inr u, t') \<Longrightarrow> out_of t' = out_of t @ concat (map (wire_line print) ms)"
  by (induction ms arbitrary: t) (auto split: prod.splits sum.splits dest: put_whole)

text \<open>A failure leaves whole lines and a part of the next one.\<close>

lemma put_all_part:
  "write_all put ms t = (Inl e, t') \<Longrightarrow>
    \<exists>done m rest n. ms = done @ m # rest \<and> out_of t' = out_of t @ concat (map (wire_line print) done) @ take n (wire_line print m)"
proof (induction ms arbitrary: t)
  case (Cons m ms)
  obtain r t1 where p: "put m t = (r, t1)" by fastforce
  show ?case
  proof (cases r)
    case (Inl e1)
    with Cons.prems p put_part [of m t e1 t1] obtain n where "out_of t' = out_of t @ take n (wire_line print m)" by auto
    then show ?thesis by (intro exI [of _ "[]"] exI [of _ m] exI [of _ ms] exI [of _ n]) simp
  next
    case (Inr u)
    with Cons.prems p have "write_all put ms t1 = (Inl e, t')" by simp
    from Cons.IH [OF this] put_whole [OF p [unfolded Inr]] obtain ds k rest n where
      "ms = ds @ k # rest" "out_of t' = out_of t @ wire_line print m @ concat (map (wire_line print) ds) @ take n (wire_line print k)"
      by auto
    then show ?thesis by (intro exI [of _ "m # ds"] exI [of _ k] exI [of _ rest] exI [of _ n]) simp
  qed
qed simp

end

locale line_source =
  fixes get :: "(nat \<times> io_error option) list \<Rightarrow> 't \<Rightarrow> jsonrpc_message result option \<times> 't"
    and reader_of :: "'t \<Rightarrow> line_reader" and source_of :: "'t \<Rightarrow> byte_source" and untimed :: "'t \<Rightarrow> bool" and dc :: decoder
  assumes get_reads: "untimed t \<Longrightarrow> get passes t = (r, t') \<Longrightarrow> untimed t' \<and>
    read_message (de_from_str dc) (de_render dc) (de_utf8 dc) (de_duration dc) None 0 (reader_of t) (source_of t) passes =
      (r, reader_of t', source_of t')"
begin

lemma get_all: "untimed t \<Longrightarrow> read_all get source_of n t =
    read_messages (de_from_str dc) (de_render dc) (de_utf8 dc) (de_duration dc) n (reader_of t) (source_of t)"
proof (induction n arbitrary: t)
  case (Suc n)
  obtain r t1 where g: "get (replicate (length (source_of t) + 1) (0, None)) t = (r, t1)" by fastforce
  from get_reads [OF Suc.prems g] Suc.IH [of t1] g show ?case by simp
qed simp

end

lemma emit_ok: "emit bs s = (Inr u, s') \<Longrightarrow> sunk s' = sunk s @ bs"
  by (auto simp: emit_def split: list.splits option.splits)

lemma emit_part: "emit bs s = (Inl e, s') \<Longrightarrow> \<exists>n. sunk s' = sunk s @ take n bs"
  by (auto simp: emit_def split: list.splits option.splits)

lemma write_line_whole: "write_line print m s = (Inr u, s') \<Longrightarrow> sunk s' = sunk s @ wire_line print m"
  by (auto simp: write_line_def wire_line_def split: prod.splits sum.splits dest!: emit_ok)

lemma write_line_part:
  assumes "write_line print m s = (Inl e, s')"
  shows "\<exists>n. sunk s' = sunk s @ take n (wire_line print m)"
proof -
  let ?text = "print (message_to_value m)"
  obtain r1 s1 where one: "emit ?text s = (r1, s1)" by fastforce
  show ?thesis
  proof (cases r1)
    case (Inl e1)
    with one emit_part [of ?text s e1 s1] assms obtain n where "sunk s' = sunk s @ take n ?text"
      by (auto simp: write_line_def)
    then show ?thesis by (intro exI [of _ "min n (length ?text)"]) (simp add: wire_line_def min_def)
  next
    case (Inr u1)
    obtain r2 s2 where two: "emit [newline] s1 = (r2, s2)" by fastforce
    have body: "sunk s1 = sunk s @ ?text" using emit_ok [OF one [unfolded Inr]] .
    show ?thesis
    proof (cases r2)
      case (Inl e2)
      with one two Inr emit_part [of "[newline]" s1 e2 s2] assms body obtain n where "sunk s' = sunk s @ ?text @ take n [newline]"
        by (auto simp: write_line_def)
      then show ?thesis by (intro exI [of _ "length ?text + n"]) (simp add: wire_line_def)
    next
      case (Inr u2)
      obtain r3 s3 where three: "emit [] s2 = (r3, s3)" by fastforce
      have "sunk s3 = sunk s2" using three emit_ok [of "[]" s2] emit_part [of "[]" s2] by (cases r3) auto
      with one two three \<open>r1 = Inr u1\<close> Inr assms body emit_ok [OF two [unfolded Inr]]
      have "sunk s' = sunk s @ wire_line print m" by (auto simp: write_line_def wire_line_def split: sum.splits)
      then show ?thesis by (intro exI [of _ "length (wire_line print m)"]) simp
    qed
  qed
qed

interpretation socket_writer: line_writer "socket_write print" "\<lambda>t. sunk (so_writer t)" print for print
  by unfold_locales (auto simp: socket_write_def split: prod.splits dest: write_line_whole write_line_part)

interpretation stdio_writer: line_writer "stdio_write print" "\<lambda>t. sunk (std_out t)" print for print
  by unfold_locales (auto simp: stdio_write_def split: prod.splits dest: write_line_whole write_line_part)

interpretation stream_writer: line_writer "stream_write print" "\<lambda>t. sunk (sm_out t)" print for print
  by unfold_locales (auto simp: stream_write_def split: prod.splits dest: write_line_whole write_line_part)

interpretation socket_source: line_source "socket_read dc 0" so_reader so_source "\<lambda>t. so_read_timeout t = None" dc for dc
  by unfold_locales (auto simp: socket_read_def split: prod.splits)

interpretation stdio_source: line_source "stdio_read dc 0" std_reader std_source "\<lambda>t. std_read_timeout t = None" dc for dc
  by unfold_locales (auto simp: stdio_read_def split: prod.splits)

interpretation stream_source: line_source "stream_read dc" sm_reader sm_source "\<lambda>_. True" dc for dc
  by unfold_locales (auto simp: stream_read_def split: prod.splits)

section \<open>Properties\<close>

text \<open>
  What is asked of the JSON library, message by message: its text is one line of UTF-8 within the ceiling, an
  object, and reads back as the value it was printed from.
\<close>

definition prints_well :: "(json \<Rightarrow> string) \<Rightarrow> decoder \<Rightarrow> jsonrpc_message \<Rightarrow> bool" where
  "prints_well print dc m \<longleftrightarrow>
     (let t = print (message_to_value m) in
      newline \<notin> set t \<and> utf8_valid (t @ [newline]) \<and> length t < MAX_MESSAGE_BYTES \<and>
      \<not> starts_with ''['' (trim_start (t @ [newline])) \<and> de_from_str dc (t @ [newline]) = Inr (message_to_value m))"

lemma line_read_back:
  assumes "prints_well print dc m" and "wf_message m"
  shows "line_result (de_from_str dc) (de_render dc) (de_utf8 dc) MAX_MESSAGE_BYTES (wire_line print m) = Inr m"
  using assms from_value_to_value [OF assms(2)]
  by (simp add: prints_well_def line_result_def wire_line_def decode_line_def parse_def Let_def)

lemma lines_read_back:
  assumes "list_all (prints_well print dc) ms" and "list_all wf_message ms"
    and "list_all (\<lambda>x. \<exists>bs. x = Inr bs \<and> bs \<noteq> []) src" and "bytes_of src = concat (map (wire_line print) ms)"
  shows "read_messages (de_from_str dc) (de_render dc) (de_utf8 dc) (de_duration dc) (length ms) new_reader src =
    map (\<lambda>m. Some (Inr m)) ms"
proof -
  let ?lines = "map (\<lambda>m. print (message_to_value m)) ms"
  have "stream new_reader src = concat (map (\<lambda>l. l @ [newline]) ?lines)"
    using assms(4) by (simp add: stream_def new_reader_def with_limit_def wire_line_def [abs_def] comp_def)
  moreover have "\<forall>l \<in> set ?lines. newline \<notin> set l" using assms(1) by (auto simp: prints_well_def list_all_iff Let_def)
  moreover have "max_bytes new_reader = MAX_MESSAGE_BYTES" by (simp add: new_reader_def with_limit_def MAX_MESSAGE_BYTES_def)
  moreover have "midline new_reader []" unfolding new_reader_def by (rule midline_new)
  ultimately have "read_messages (de_from_str dc) (de_render dc) (de_utf8 dc) (de_duration dc) (length ms) new_reader src =
      map (\<lambda>m. Some (line_result (de_from_str dc) (de_render dc) (de_utf8 dc) MAX_MESSAGE_BYTES (wire_line print m))) ms"
    using read_messages_lines [of new_reader src ?lines] assms(3) by (simp add: comp_def wire_line_def)
  also have "\<dots> = map (\<lambda>m. Some (Inr m)) ms"
    using assms(1,2) line_read_back by (auto simp: list_all_iff)
  finally show ?thesis .
qed

text \<open>A write that fails leaves a part of its line on the stream, after whole lines.\<close>

lemma socket_write_fails:
  "write_all (socket_write print) ms t = (Inl e, t') \<Longrightarrow>
    \<exists>done m rest n. ms = done @ m # rest \<and>
      sunk (so_writer t') = sunk (so_writer t) @ concat (map (wire_line print) done) @ take n (wire_line print m)"
  by (rule socket_writer.put_all_part)

text \<open>A poll waits for no longer than what remains, up to a millisecond, and not for nothing while some remains.\<close>

lemma poll_patience: "poll_millis nanos = 0 \<longleftrightarrow> nanos = 0" "poll_millis nanos * 1000000 \<le> nanos + 999999"
  by (auto simp: poll_millis_def Let_def min_def)

end
