(* ===== verification/Transports.thy ===== *)
theory Transports
  imports Streams
begin

text \<open>
  The transports a program uses (\<open>transport/unix.rs\<close>, \<open>tcp.rs\<close>) and the boxed transport that stands for any of them
  (\<open>transport/mod.rs\<close>): every operation, forwarded to the transport there is, or the default the trait gives
  it. The property: what one side writes the other reads, whatever transport each side has and however the
  bytes are cut up.
\<close>

section \<open>Unix and TCP\<close>

datatype transport =
    UnixT socket_transport
  | TcpT socket_transport
  | StdioT stdio_transport
  | StreamT stream_transport

text \<open>By the replies to connecting and to cloning; that a socket does not take \<open>nodelay\<close> is ignored.\<close>

definition unix_from :: "io_error option \<Rightarrow> byte_source \<Rightarrow> sink \<Rightarrow> transport result" where
  "unix_from cloned src s = (case socket_of cloned src s of Inl e \<Rightarrow> Inl e | Inr t \<Rightarrow> Inr (UnixT t))"

definition unix_connect :: "io_error + byte_source \<times> sink \<Rightarrow> io_error option \<Rightarrow> transport result" where
  "unix_connect connected cloned =
     (case connected of Inl e \<Rightarrow> Inl (Io (description e)) | Inr (src, s) \<Rightarrow> unix_from cloned src s)"

definition tcp_from :: "io_error option \<Rightarrow> io_error option \<Rightarrow> byte_source \<Rightarrow> sink \<Rightarrow> transport result" where
  "tcp_from nodelay cloned src s = (case socket_of cloned src s of Inl e \<Rightarrow> Inl e | Inr t \<Rightarrow> Inr (TcpT t))"

definition tcp_connect :: "io_error + byte_source \<times> sink \<Rightarrow> io_error option \<Rightarrow> io_error option \<Rightarrow> transport result" where
  "tcp_connect connected nodelay cloned =
     (case connected of Inl e \<Rightarrow> Inl (Io (description e)) | Inr (src, s) \<Rightarrow> tcp_from nodelay cloned src s)"

section \<open>Any transport\<close>

fun through :: "('a \<times> 's) \<Rightarrow> ('s \<Rightarrow> transport) \<Rightarrow> 'a \<times> transport" where
  "through (r, t) wrap = (r, wrap t)"

fun boxed_read :: "decoder \<Rightarrow> nat \<Rightarrow> (nat \<times> io_error option) list \<Rightarrow> transport \<Rightarrow> jsonrpc_message result option \<times> transport" where
  "boxed_read dc start passes (UnixT t) = through (socket_read dc start passes t) UnixT"
| "boxed_read dc start passes (TcpT t) = through (socket_read dc start passes t) TcpT"
| "boxed_read dc start passes (StdioT t) = through (stdio_read dc start passes t) StdioT"
| "boxed_read dc start passes (StreamT t) = through (stream_read dc passes t) StreamT"

fun boxed_write :: "(json \<Rightarrow> string) \<Rightarrow> jsonrpc_message \<Rightarrow> transport \<Rightarrow> unit result \<times> transport" where
  "boxed_write print m (UnixT t) = through (socket_write print m t) UnixT"
| "boxed_write print m (TcpT t) = through (socket_write print m t) TcpT"
| "boxed_write print m (StdioT t) = through (stdio_write print m t) StdioT"
| "boxed_write print m (StreamT t) = through (stream_write print m t) StreamT"

fun boxed_close :: "shut_reply \<Rightarrow> transport \<Rightarrow> unit result \<times> transport" where
  "boxed_close r (UnixT t) = through (socket_close r t) UnixT"
| "boxed_close r (TcpT t) = through (socket_close r t) TcpT"
| "boxed_close r (StdioT t) = through (stdio_close t) StdioT"
| "boxed_close r (StreamT t) = through (stream_close t) StreamT"

text \<open>A wrapped stream has no half-close of its own, and the trait's default closes it.\<close>

definition default_close_write :: "('t \<Rightarrow> unit result \<times> 't) \<Rightarrow> 't \<Rightarrow> unit result \<times> 't" where
  "default_close_write close t = close t"

fun boxed_close_write :: "shut_reply \<Rightarrow> transport \<Rightarrow> unit result \<times> transport" where
  "boxed_close_write r (UnixT t) = through (socket_close_write r t) UnixT"
| "boxed_close_write r (TcpT t) = through (socket_close_write r t) TcpT"
| "boxed_close_write r (StdioT t) = through (stdio_close_write t) StdioT"
| "boxed_close_write r (StreamT t) = default_close_write (boxed_close r) (StreamT t)"

fun boxed_clone_writer :: "io_error option \<Rightarrow> io_error option \<Rightarrow> transport \<Rightarrow> transport option" where
  "boxed_clone_writer first second (UnixT t) = map_option UnixT (socket_clone_writer first second t)"
| "boxed_clone_writer first second (TcpT t) = map_option TcpT (socket_clone_writer first second t)"
| "boxed_clone_writer first second (StdioT t) = map_option StdioT (stdio_clone_writer t)"
| "boxed_clone_writer first second (StreamT t) = map_option StreamT (stream_clone_writer t)"

fun boxed_set_timeout :: "nat option \<Rightarrow> transport \<Rightarrow> bool result \<times> transport" where
  "boxed_set_timeout d (UnixT t) = through (socket_set_timeout d t) UnixT"
| "boxed_set_timeout d (TcpT t) = through (socket_set_timeout d t) TcpT"
| "boxed_set_timeout d (StdioT t) = through (stdio_set_timeout d t) StdioT"
| "boxed_set_timeout d (StreamT t) = through (stream_set_timeout d t) StreamT"

fun boxed_set_limit :: "nat \<Rightarrow> transport \<Rightarrow> transport" where
  "boxed_set_limit n (UnixT t) = UnixT (socket_set_limit n t)"
| "boxed_set_limit n (TcpT t) = TcpT (socket_set_limit n t)"
| "boxed_set_limit n (StdioT t) = StdioT (stdio_set_limit n t)"
| "boxed_set_limit n (StreamT t) = StreamT (stream_set_limit n t)"

section \<open>It keeps the contracts\<close>

fun boxed_out :: "transport \<Rightarrow> bytes" where
  "boxed_out (UnixT t) = sunk (so_writer t)"
| "boxed_out (TcpT t) = sunk (so_writer t)"
| "boxed_out (StdioT t) = sunk (std_out t)"
| "boxed_out (StreamT t) = sunk (sm_out t)"

fun boxed_reader :: "transport \<Rightarrow> line_reader" where
  "boxed_reader (UnixT t) = so_reader t"
| "boxed_reader (TcpT t) = so_reader t"
| "boxed_reader (StdioT t) = std_reader t"
| "boxed_reader (StreamT t) = sm_reader t"

fun boxed_source :: "transport \<Rightarrow> byte_source" where
  "boxed_source (UnixT t) = so_source t"
| "boxed_source (TcpT t) = so_source t"
| "boxed_source (StdioT t) = std_source t"
| "boxed_source (StreamT t) = sm_source t"

fun boxed_untimed :: "transport \<Rightarrow> bool" where
  "boxed_untimed (UnixT t) = (so_read_timeout t = None)"
| "boxed_untimed (TcpT t) = (so_read_timeout t = None)"
| "boxed_untimed (StdioT t) = (std_read_timeout t = None)"
| "boxed_untimed (StreamT t) = True"

lemma through_iff [simp]: "through x wrap = (r, t') \<longleftrightarrow> (\<exists>t. x = (r, t) \<and> t' = wrap t)"
  by (cases x) auto

interpretation boxed_writer: line_writer "boxed_write print" boxed_out print for print
proof
  show "boxed_write print m t = (Inr u, t') \<Longrightarrow> boxed_out t' = boxed_out t @ wire_line print m" for m t u t'
    by (cases t) (auto dest: socket_writer.put_whole stdio_writer.put_whole stream_writer.put_whole)
  show "boxed_write print m t = (Inl e, t') \<Longrightarrow> \<exists>n. boxed_out t' = boxed_out t @ take n (wire_line print m)" for m t e t'
    by (cases t) (auto dest: socket_writer.put_part stdio_writer.put_part stream_writer.put_part)
qed

interpretation boxed_lines: line_source "boxed_read dc 0" boxed_reader boxed_source boxed_untimed dc for dc
proof
  show "boxed_untimed t \<Longrightarrow> boxed_read dc 0 passes t = (r, t') \<Longrightarrow> boxed_untimed t' \<and>
      read_message (de_from_str dc) (de_render dc) (de_utf8 dc) (de_duration dc) None 0 (boxed_reader t) (boxed_source t) passes =
        (r, boxed_reader t', boxed_source t')" for t passes r t'
    by (cases t) (auto dest: socket_source.get_reads stdio_source.get_reads stream_source.get_reads [OF TrueI])
qed

text \<open>A transport that has just been opened on a stream.\<close>

datatype transport_kind = Unix | Tcp | Stdio | Stream

fun opened :: "transport_kind \<Rightarrow> byte_source \<Rightarrow> sink \<Rightarrow> transport result" where
  "opened Unix src s = unix_from None src s"
| "opened Tcp src s = tcp_from None None src s"
| "opened Stdio src s = Inr (StdioT (new_stdio src s))"
| "opened Stream src s = Inr (StreamT (new_stream src s))"

lemma opened_fresh:
  "opened k src s = Inr t \<Longrightarrow> boxed_reader t = new_reader \<and> boxed_source t = src \<and> boxed_untimed t \<and> boxed_out t = sunk s"
  by (cases k) (auto simp: unix_from_def tcp_from_def socket_of_def new_stdio_def new_stream_def)

section \<open>Properties\<close>

text \<open>
  C40: Messages cross a connection: what one side has written without an error, delivered to the other in
  pieces of any size, is what the other reads, message by message, whatever transport each of them has.
\<close>

theorem messages_cross:
  assumes "opened near here there = Inr t" and "write_all (boxed_write print) ms t = (Inr u, t')" and "sunk there = []"
    and "list_all (\<lambda>x. \<exists>bs. x = Inr bs \<and> bs \<noteq> []) src" and "bytes_of src = boxed_out t'"
    and "list_all (prints_well print dc) ms" and "list_all wf_message ms"
    and "opened far src back = Inr peer"
  shows "read_all (boxed_read dc 0) boxed_source (length ms) peer = map (\<lambda>m. Some (Inr m)) ms"
proof -
  have "bytes_of src = concat (map (wire_line print) ms)"
    using boxed_writer.put_all_whole [OF assms(2)] assms(3,5) opened_fresh [OF assms(1)] by simp
  from lines_read_back [OF assms(6,7,4) this] opened_fresh [OF assms(8)] show ?thesis
    using boxed_lines.get_all [of peer dc "length ms"] by simp
qed

text \<open>Only a transport that can be split is, and only one that honors deadlines says so.\<close>

lemma split_and_timed:
  "boxed_clone_writer None None t = None \<longleftrightarrow> (\<exists>st. t = StreamT st)"
  "fst (boxed_set_timeout d t) = Inr False \<longleftrightarrow> (\<exists>st. t = StreamT st)"
  by (cases t; simp add: socket_clone_writer_def socket_of_def stdio_clone_writer_def stream_clone_writer_def
      socket_set_timeout_def stdio_set_timeout_def stream_set_timeout_def)+

section \<open>Trying them out\<close>

definition sample_decoder :: "jsonrpc_message \<Rightarrow> decoder" where
  "sample_decoder m = \<lparr>de_from_str = (\<lambda>_. Inr (message_to_value m)), de_render = (\<lambda>_. []), de_utf8 = (\<lambda>_. []), de_duration = (\<lambda>_. [])\<rparr>"

definition sample_ping_message :: jsonrpc_message where
  "sample_ping_message = request (IdNumber 1) ''ping'' None"

theorem messages_cross_witness:
  "\<exists>t t' peer. opened Tcp [] \<lparr>sunk = [], sink_faults = []\<rparr> = Inr t \<and>
    write_all (boxed_write (\<lambda>_. ''{}'')) [sample_ping_message] t = (Inr (), t') \<and>
    opened Stream [Inr ''{'', Inr [CHR ''}'', newline]] \<lparr>sunk = [], sink_faults = []\<rparr> = Inr peer \<and>
    read_all (boxed_read (sample_decoder sample_ping_message) 0) boxed_source 1 peer = [Some (Inr sample_ping_message)]"
proof -
  let ?s = "\<lparr>sunk = [], sink_faults = []\<rparr>"
  obtain t where near: "opened Tcp [] ?s = Inr t" by (simp add: tcp_from_def socket_of_def)
  then obtain t' where put: "write_all (boxed_write (\<lambda>_. ''{}'')) [sample_ping_message] t = (Inr (), t')"
    and out: "boxed_out t' = ''{}'' @ [newline]"
    by (auto simp: tcp_from_def socket_of_def socket_write_def write_line_def emit_def)
  obtain peer where far: "opened Stream [Inr ''{'', Inr [CHR ''}'', newline]] ?s = Inr peer" by simp
  have "newline \<notin> set ''{}''" "utf8_valid (''{}'' @ [newline])" "\<not> starts_with ''['' (trim_start (''{}'' @ [newline]))"
    unfolding newline_def by code_simp+
  then have "prints_well (\<lambda>_. ''{}'') (sample_decoder sample_ping_message) sample_ping_message"
    by (simp add: prints_well_def sample_decoder_def MAX_MESSAGE_BYTES_def Let_def)
  moreover have "wf_message sample_ping_message" by (simp add: sample_ping_message_def request_def)
  ultimately have "read_all (boxed_read (sample_decoder sample_ping_message) 0) boxed_source (length [sample_ping_message]) peer =
      map (\<lambda>m. Some (Inr m)) [sample_ping_message]"
    using messages_cross [OF near put, of "[Inr ''{'', Inr [CHR ''}'', newline]]" "sample_decoder sample_ping_message" Stream ?s peer] out far
    by simp
  with near put far show ?thesis by (auto simp del: read_all.simps boxed_read.simps)
qed

end
