(* ===== verification/Config_Files.thy ===== *)
theory Config_Files
  imports Launch
begin

text \<open>
  How a client's configuration file is read and replaced (\<open>cli/install/mod.rs\<close>): programs over the
  file system, an operation at a time, with a branch for every reply, and the machine that runs
  them, in which any operation may fail, a write or a copy may be seen half done and the process
  may stop anywhere. Paths are strings and name regular files. The property: whatever fails and
  wherever it stops, the configuration is the old one or the complete new one.
\<close>

section \<open>Programs over files\<close>

datatype 'a file_prog =
    Ret 'a
  | ReadText string "os_error + string \<Rightarrow> 'a file_prog"
  | FileMode string "nat option \<Rightarrow> 'a file_prog"
  | PathExists string "bool \<Rightarrow> 'a file_prog"
  | CreateDirs string "os_error + unit \<Rightarrow> 'a file_prog"
  | CopyFile string string "os_error + unit \<Rightarrow> 'a file_prog"
  | WriteText string string "os_error + unit \<Rightarrow> 'a file_prog"
  | SetMode string nat "os_error + unit \<Rightarrow> 'a file_prog"
  | RenameFile string string "os_error + unit \<Rightarrow> 'a file_prog"
  | RemoveFile string "os_error + unit \<Rightarrow> 'a file_prog"

primrec file_bind :: "'a file_prog \<Rightarrow> ('a \<Rightarrow> 'b file_prog) \<Rightarrow> 'b file_prog" where
  "file_bind (Ret x) f = f x"
| "file_bind (ReadText p k) f = ReadText p (\<lambda>r. file_bind (k r) f)"
| "file_bind (FileMode p k) f = FileMode p (\<lambda>r. file_bind (k r) f)"
| "file_bind (PathExists p k) f = PathExists p (\<lambda>r. file_bind (k r) f)"
| "file_bind (CreateDirs p k) f = CreateDirs p (\<lambda>r. file_bind (k r) f)"
| "file_bind (CopyFile p q k) f = CopyFile p q (\<lambda>r. file_bind (k r) f)"
| "file_bind (WriteText p t k) f = WriteText p t (\<lambda>r. file_bind (k r) f)"
| "file_bind (SetMode p m k) f = SetMode p m (\<lambda>r. file_bind (k r) f)"
| "file_bind (RenameFile p q k) f = RenameFile p q (\<lambda>r. file_bind (k r) f)"
| "file_bind (RemoveFile p k) f = RemoveFile p (\<lambda>r. file_bind (k r) f)"

datatype install_error =
    IoFailure os_error
  | ParseFailure string
  | SerializeFailure string

fun show_install_error :: "install_error \<Rightarrow> string" where
  "show_install_error (IoFailure e) = os_text e"
| "show_install_error (ParseFailure detail) =
     detail @ '' - it was left untouched. Fix or move it and try again, or add the entry by hand.''"
| "show_install_error (SerializeFailure detail) = ''could not serialize the config: '' @ detail"

definition backup_path :: "string \<Rightarrow> string" where
  "backup_path p = p @ ''.bak''"

definition staging_path :: "nat \<Rightarrow> string \<Rightarrow> string" where
  "staging_path pid p = p @ ''.sml_mcps.'' @ show_nat pid @ ''.tmp''"

definition read_config_text :: "string \<Rightarrow> (install_error + string option) file_prog" where
  "read_config_text p = ReadText p (\<lambda>r. Ret (case r of
       Inr contents \<Rightarrow> Inr (if trim contents = [] then None else Some contents)
     | Inl e \<Rightarrow> if raw_os_error e = Some ENOENT then Inr None else Inl (IoFailure e)))"

text \<open>\<open>staged\<close>: the error of a step, once the staging file has been removed as far as it can be.\<close>

definition unstage :: "string \<Rightarrow> os_error \<Rightarrow> (install_error + unit) file_prog" where
  "unstage staging e = RemoveFile staging (\<lambda>_. Ret (Inl (IoFailure e)))"

definition stage :: "string \<Rightarrow> string \<Rightarrow> string \<Rightarrow> nat option \<Rightarrow> (install_error + unit) file_prog" where
  "stage staging p contents mode =
     (let commit = RenameFile staging p (\<lambda>r. case r of Inl e \<Rightarrow> unstage staging e | Inr _ \<Rightarrow> Ret (Inr ()))
      in WriteText staging contents (\<lambda>r. case r of
           Inl e \<Rightarrow> unstage staging e
         | Inr _ \<Rightarrow>
             (case mode of
                None \<Rightarrow> commit
              | Some m \<Rightarrow> SetMode staging m (\<lambda>r. case r of Inl e \<Rightarrow> unstage staging e | Inr _ \<Rightarrow> commit))))"

definition write_atomically :: "nat \<Rightarrow> string \<Rightarrow> string \<Rightarrow> (install_error + unit) file_prog" where
  "write_atomically pid p contents =
     (let swap = FileMode p (\<lambda>mode. PathExists p (\<lambda>there.
            if there
            then CopyFile p (backup_path p) (\<lambda>r. case r of
                Inl e \<Rightarrow> Ret (Inl (IoFailure e))
              | Inr _ \<Rightarrow> stage (staging_path pid p) p contents mode)
            else stage (staging_path pid p) p contents mode))
      in case parent_of p of
           None \<Rightarrow> swap
         | Some dir \<Rightarrow> CreateDirs dir (\<lambda>r. case r of Inl e \<Rightarrow> Ret (Inl (IoFailure e)) | Inr _ \<Rightarrow> swap))"

section \<open>The machine\<close>

record cfg_file =
  f_text :: string
  f_mode :: nat

record disk =
  files :: "string \<Rightarrow> cfg_file option"
  dirs :: "string \<Rightarrow> bool"

text \<open>A text put into a file: one that exists keeps its mode, a new one gets the default mode \<open>um\<close>.\<close>

definition put_text :: "nat \<Rightarrow> string \<Rightarrow> string \<Rightarrow> disk \<Rightarrow> disk" where
  "put_text um p t d =
     d\<lparr>files := (files d)(p \<mapsto> \<lparr>f_text = t, f_mode = (case files d p of Some f \<Rightarrow> f_mode f | None \<Rightarrow> um)\<rparr>)\<rparr>"

definition put_file :: "string \<Rightarrow> cfg_file option \<Rightarrow> disk \<Rightarrow> disk" where
  "put_file p f d = d\<lparr>files := (files d)(p := f)\<rparr>"

definition path_exists :: "disk \<Rightarrow> string \<Rightarrow> bool" where
  "path_exists d p \<longleftrightarrow> files d p \<noteq> None \<or> dirs d p"

text \<open>
  An operation is a step, and so is getting on with a write or a copy. A reply that a file does not
  exist is true; \<open>metadata\<close> and \<open>exists\<close> tell the truth. Making directories may stop half way.
\<close>

inductive file_step :: "nat \<Rightarrow> 'a file_prog \<Rightarrow> disk \<Rightarrow> 'a file_prog \<Rightarrow> disk \<Rightarrow> bool" for um where
  read_done: "files d p = Some f \<Longrightarrow> utf8_valid (f_text f) \<Longrightarrow> file_step um (ReadText p k) d (k (Inr (f_text f))) d"
| read_fails: "(raw_os_error e = Some ENOENT \<Longrightarrow> files d p = None) \<Longrightarrow> file_step um (ReadText p k) d (k (Inl e)) d"
| mode_told: "file_step um (FileMode p k) d (k (map_option f_mode (files d p))) d"
| existence_told: "file_step um (PathExists p k) d (k (path_exists d p)) d"
| dirs_made: "dirs d \<le> ds \<Longrightarrow> ds p \<Longrightarrow> file_step um (CreateDirs p k) d (k (Inr ())) (d\<lparr>dirs := ds\<rparr>)"
| dirs_fail: "dirs d \<le> ds \<Longrightarrow> file_step um (CreateDirs p k) d (k (Inl e)) (d\<lparr>dirs := ds\<rparr>)"
| copying: "files d p = Some f \<Longrightarrow> f_text f = t @ rest \<Longrightarrow>
    file_step um (CopyFile p q k) d (CopyFile p q k) (put_file q (Some (f\<lparr>f_text := t\<rparr>)) d)"
| copy_done: "files d p = Some f \<Longrightarrow> file_step um (CopyFile p q k) d (k (Inr ())) (put_file q (Some f) d)"
| copy_fails: "file_step um (CopyFile p q k) d (k (Inl e)) d"
| writing: "contents = t @ rest \<Longrightarrow> file_step um (WriteText p contents k) d (WriteText p contents k) (put_text um p t d)"
| write_done: "file_step um (WriteText p contents k) d (k (Inr ())) (put_text um p contents d)"
| write_fails: "file_step um (WriteText p contents k) d (k (Inl e)) d"
| mode_set: "files d p = Some f \<Longrightarrow> file_step um (SetMode p m k) d (k (Inr ())) (put_file p (Some (f\<lparr>f_mode := m\<rparr>)) d)"
| mode_fails: "file_step um (SetMode p m k) d (k (Inl e)) d"
| renamed: "files d p = Some f \<Longrightarrow> p \<noteq> q \<Longrightarrow>
    file_step um (RenameFile p q k) d (k (Inr ())) (put_file p None (put_file q (Some f) d))"
| rename_fails: "file_step um (RenameFile p q k) d (k (Inl e)) d"
| removed: "file_step um (RemoveFile p k) d (k (Inr ())) (put_file p None d)"
| remove_fails: "file_step um (RemoveFile p k) d (k (Inl e)) d"

inductive file_run :: "nat \<Rightarrow> 'a file_prog \<Rightarrow> disk \<Rightarrow> 'a file_prog \<Rightarrow> disk \<Rightarrow> bool" for um c d where
  run_start: "file_run um c d c d"
| run_step: "file_run um c d c' d' \<Longrightarrow> file_step um c' d' c'' d'' \<Longrightarrow> file_run um c d c'' d''"

section \<open>What holds along a run\<close>

text \<open>
  \<open>ever\<close>: that a condition holds of the disk at every moment of a program run from it, whatever
  fails, and another of its result.
\<close>

fun told :: "disk \<Rightarrow> string \<Rightarrow> os_error + string \<Rightarrow> bool" where
  "told d p (Inr t) \<longleftrightarrow> utf8_valid t \<and> (\<exists>m. files d p = Some \<lparr>f_text = t, f_mode = m\<rparr>)"
| "told d p (Inl e) \<longleftrightarrow> raw_os_error e = Some ENOENT \<longrightarrow> files d p = None"

definition half_copied :: "string \<Rightarrow> string \<Rightarrow> disk \<Rightarrow> disk \<Rightarrow> bool" where
  "half_copied p q d d' \<longleftrightarrow> d' = d \<or>
     (\<exists>f t rest. files d p = Some f \<and> f_text f = t @ rest \<and> d' = put_file q (Some (f\<lparr>f_text := t\<rparr>)) d)"

definition half_written :: "nat \<Rightarrow> string \<Rightarrow> string \<Rightarrow> disk \<Rightarrow> disk \<Rightarrow> bool" where
  "half_written um p contents d d' \<longleftrightarrow> d' = d \<or> (\<exists>t rest. contents = t @ rest \<and> d' = put_text um p t d)"

primrec ever :: "nat \<Rightarrow> (disk \<Rightarrow> bool) \<Rightarrow> ('a \<Rightarrow> disk \<Rightarrow> bool) \<Rightarrow> 'a file_prog \<Rightarrow> disk \<Rightarrow> bool" where
  "ever um I Q (Ret x) d \<longleftrightarrow> I d \<and> Q x d"
| "ever um I Q (ReadText p k) d \<longleftrightarrow> I d \<and> (\<forall>r. told d p r \<longrightarrow> ever um I Q (k r) d)"
| "ever um I Q (FileMode p k) d \<longleftrightarrow> I d \<and> ever um I Q (k (map_option f_mode (files d p))) d"
| "ever um I Q (PathExists p k) d \<longleftrightarrow> I d \<and> ever um I Q (k (path_exists d p)) d"
| "ever um I Q (CreateDirs p k) d \<longleftrightarrow> I d \<and>
     (\<forall>r ds. dirs d \<le> ds \<and> (r = Inr () \<longrightarrow> ds p) \<longrightarrow> ever um I Q (k r) (d\<lparr>dirs := ds\<rparr>))"
| "ever um I Q (CopyFile p q k) d \<longleftrightarrow> p \<noteq> q \<and>
     (\<forall>d'. half_copied p q d d' \<longrightarrow> I d' \<and> (\<forall>e. ever um I Q (k (Inl e)) d')) \<and>
     (\<forall>f. files d p = Some f \<longrightarrow> ever um I Q (k (Inr ())) (put_file q (Some f) d))"
| "ever um I Q (WriteText p contents k) d \<longleftrightarrow>
     (\<forall>d'. half_written um p contents d d' \<longrightarrow> I d' \<and> (\<forall>e. ever um I Q (k (Inl e)) d')) \<and>
     ever um I Q (k (Inr ())) (put_text um p contents d)"
| "ever um I Q (SetMode p m k) d \<longleftrightarrow> I d \<and> (\<forall>e. ever um I Q (k (Inl e)) d) \<and>
     (\<forall>f. files d p = Some f \<longrightarrow> ever um I Q (k (Inr ())) (put_file p (Some (f\<lparr>f_mode := m\<rparr>)) d))"
| "ever um I Q (RenameFile p q k) d \<longleftrightarrow> I d \<and> (\<forall>e. ever um I Q (k (Inl e)) d) \<and>
     (\<forall>f. files d p = Some f \<longrightarrow> p \<noteq> q \<longrightarrow> ever um I Q (k (Inr ())) (put_file p None (put_file q (Some f) d)))"
| "ever um I Q (RemoveFile p k) d \<longleftrightarrow> I d \<and> (\<forall>e. ever um I Q (k (Inl e)) d) \<and>
     ever um I Q (k (Inr ())) (put_file p None d)"

lemma ever_now: "ever um I Q c d \<Longrightarrow> I d"
  by (cases c) (auto simp: half_copied_def half_written_def)

lemma ever_bind [simp]: "ever um I Q (file_bind c f) d = ever um I (\<lambda>x d. ever um I Q (f x) d) c d"
  by (induction c arbitrary: d) (auto dest: ever_now)

lemma put_file_files [simp]: "files (put_file p f d) q = (if q = p then f else files d q)" "dirs (put_file p f d) = dirs d"
  by (simp_all add: put_file_def)

lemma put_file_twice [simp]: "put_file p f (put_file p f' d) = put_file p f d"
  by (simp add: put_file_def)

lemma put_text_twice [simp]: "put_text um p t (put_text um p t' d) = put_text um p t d"
  by (simp add: put_text_def split: option.split)

lemma half_copied_trans:
  assumes "p \<noteq> q" and one: "half_copied p q d d1" and two: "half_copied p q d1 d2"
  shows "half_copied p q d d2"
proof -
  have same: "files d1 p = files d p" "put_file q x d1 = put_file q x d" for x
    using assms(1) one by (auto simp: half_copied_def)
  from two consider "d2 = d1" | f t rest where "files d1 p = Some f" "f_text f = t @ rest" "d2 = put_file q (Some (f\<lparr>f_text := t\<rparr>)) d1"
    by (auto simp: half_copied_def)
  then show ?thesis
  proof cases
    case 2
    then show ?thesis unfolding half_copied_def same by blast
  qed (use one in simp)
qed

lemma half_copied_source: "p \<noteq> q \<Longrightarrow> half_copied p q d d' \<Longrightarrow> files d' p = files d p \<and> put_file q f d' = put_file q f d"
  by (auto simp: half_copied_def)

lemma half_written_trans:
  "half_written um p c d d1 \<Longrightarrow> half_written um p c d1 d2 \<Longrightarrow> half_written um p c d d2"
  by (auto simp: half_written_def)

lemma half_written_put: "half_written um p c d d' \<Longrightarrow> put_text um p t d' = put_text um p t d"
  by (auto simp: half_written_def)

lemma ever_step: "file_step um c d c' d' \<Longrightarrow> ever um I Q c d \<Longrightarrow> ever um I Q c' d'"
proof (induction rule: file_step.induct)
  case (read_done d p f k)
  then show ?case by (cases f) auto
next
  case (copying d p f t rest q k)
  let ?d = "put_file q (Some (f\<lparr>f_text := t\<rparr>)) d"
  have half: "half_copied p q d ?d" using copying(1,2) by (auto simp: half_copied_def)
  from copying(3) have "p \<noteq> q" by simp
  note more = half_copied_trans [OF this half] half_copied_source [OF this half]
  show ?case using copying(3) more by simp
next
  case (writing contents t rest p k d)
  let ?d = "put_text um p t d"
  have half: "half_written um p contents d ?d" using writing(1) by (auto simp: half_written_def)
  show ?case using writing(2) half_written_trans [OF half] half_written_put [OF half] by simp
qed (simp_all add: half_copied_def half_written_def)

lemma ever_run: "file_run um c d c' d' \<Longrightarrow> ever um I Q c d \<Longrightarrow> ever um I Q c' d'"
  by (induction rule: file_run.induct) (auto dest: ever_step)

text \<open>Directories are only ever made.\<close>

lemma ever_dirs:
  "ever um I Q c d \<Longrightarrow> ds \<le> dirs d \<Longrightarrow> ever um (\<lambda>d. I d \<and> ds \<le> dirs d) (\<lambda>x d. Q x d \<and> ds \<le> dirs d) c d"
proof (induction c arbitrary: d)
  case (CreateDirs p k)
  then show ?case by (fastforce intro: order_trans)
next
  case (CopyFile p q k)
  have "ds \<le> dirs d'" if "half_copied p q d d'" for d' using that CopyFile.prems(2) by (auto simp: half_copied_def)
  with CopyFile show ?case by simp
next
  case (WriteText p t k)
  have "ds \<le> dirs d'" if "half_written um p t d d'" for d'
    using that WriteText.prems(2) by (auto simp: half_written_def put_text_def)
  moreover have "ds \<le> dirs (put_text um p t d)" using WriteText.prems(2) by (simp add: put_text_def)
  ultimately show ?case using WriteText by simp
qed simp_all

section \<open>Replacing a configuration\<close>

text \<open>
  What may be seen of the disk, started from \<open>d0\<close>: other files are not touched, the configuration is
  as it was, or it is complete, with the mode it had, and its old contents are in the backup.
\<close>

definition others_kept :: "nat \<Rightarrow> string \<Rightarrow> disk \<Rightarrow> disk \<Rightarrow> bool" where
  "others_kept pid p d0 d \<longleftrightarrow> (\<forall>q. q \<notin> {p, backup_path p, staging_path pid p} \<longrightarrow> files d q = files d0 q)"

definition renewed :: "string \<Rightarrow> string \<Rightarrow> disk \<Rightarrow> disk \<Rightarrow> bool" where
  "renewed p contents d0 d \<longleftrightarrow>
     (\<exists>m. files d p = Some \<lparr>f_text = contents, f_mode = m\<rparr> \<and> (\<forall>f. files d0 p = Some f \<longrightarrow> m = f_mode f))"

definition saved :: "string \<Rightarrow> disk \<Rightarrow> disk \<Rightarrow> bool" where
  "saved p d0 d \<longleftrightarrow> (\<forall>f. files d0 p = Some f \<longrightarrow> files d (backup_path p) = Some f)"

definition seen :: "nat \<Rightarrow> string \<Rightarrow> string \<Rightarrow> disk \<Rightarrow> disk \<Rightarrow> bool" where
  "seen pid p contents d0 d \<longleftrightarrow> others_kept pid p d0 d \<and>
     (files d p = files d0 p \<or> renewed p contents d0 d \<and> saved p d0 d)"

definition written :: "nat \<Rightarrow> string \<Rightarrow> string \<Rightarrow> disk \<Rightarrow> install_error + unit \<Rightarrow> disk \<Rightarrow> bool" where
  "written pid p contents d0 r d \<longleftrightarrow> others_kept pid p d0 d \<and>
     (case r of
        Inl e \<Rightarrow> files d p = files d0 p
      | Inr _ \<Rightarrow> renewed p contents d0 d \<and> saved p d0 d \<and> files d (staging_path pid p) = None)"

lemma three_files [simp]: "backup_path p \<noteq> p" "staging_path pid p \<noteq> p" "staging_path pid p \<noteq> backup_path p"
  "p \<noteq> backup_path p" "p \<noteq> staging_path pid p" "backup_path p \<noteq> staging_path pid p"
  by (simp_all add: backup_path_def staging_path_def)

text \<open>The configuration still as it was, and with it the backup.\<close>

definition untouched :: "nat \<Rightarrow> string \<Rightarrow> disk \<Rightarrow> disk \<Rightarrow> bool" where
  "untouched pid p d0 d \<longleftrightarrow> others_kept pid p d0 d \<and> files d p = files d0 p"

lemma untouched_seen: "untouched pid p d0 d \<Longrightarrow> seen pid p contents d0 d"
  by (simp add: untouched_def seen_def)

lemma untouched_put [simp]:
  "untouched pid p d0 d \<Longrightarrow> untouched pid p d0 (put_file (backup_path p) f d)"
  "untouched pid p d0 d \<Longrightarrow> untouched pid p d0 (put_file (staging_path pid p) f d)"
  "untouched pid p d0 d \<Longrightarrow> untouched pid p d0 (put_text um (staging_path pid p) t d)"
  "untouched pid p d0 d \<Longrightarrow> untouched pid p d0 (d\<lparr>dirs := ds\<rparr>)"
  by (auto simp: untouched_def others_kept_def put_text_def)

lemma saved_put [simp]:
  "saved p d0 (put_file (staging_path pid p) f d) = saved p d0 d"
  "saved p d0 (put_text um (staging_path pid p) t d) = saved p d0 d"
  by (simp_all add: saved_def put_text_def)

lemma ever_unstage:
  "untouched pid p d0 d \<Longrightarrow> ever um (seen pid p contents d0) (written pid p contents d0) (unstage (staging_path pid p) e) d"
  by (auto simp: unstage_def untouched_seen) (auto simp: written_def untouched_def others_kept_def)

lemma ever_commit:
  assumes "untouched pid p d0 d" and "saved p d0 d"
    and "files d (staging_path pid p) = Some \<lparr>f_text = contents, f_mode = m\<rparr>" and "\<forall>f. files d0 p = Some f \<longrightarrow> m = f_mode f"
  shows "ever um (seen pid p contents d0) (written pid p contents d0)
    (RenameFile (staging_path pid p) p (\<lambda>r. case r of Inl e \<Rightarrow> unstage (staging_path pid p) e | Inr _ \<Rightarrow> Ret (Inr ()))) d"
proof -
  let ?d = "put_file (staging_path pid p) None (put_file p (Some \<lparr>f_text = contents, f_mode = m\<rparr>) d)"
  have "others_kept pid p d0 ?d" using assms(1) by (simp add: untouched_def others_kept_def)
  moreover have "renewed p contents d0 ?d" "saved p d0 ?d" "files ?d (staging_path pid p) = None"
    using assms(2,4) by (simp_all add: renewed_def saved_def)
  ultimately have "seen pid p contents d0 ?d" "written pid p contents d0 (Inr ()) ?d"
    by (simp_all add: seen_def written_def)
  then show ?thesis
    using assms(1,3) by (simp add: ever_unstage untouched_seen)
qed

lemma ever_stage:
  assumes "untouched pid p d0 d" and "saved p d0 d"
  shows "ever um (seen pid p contents d0) (written pid p contents d0)
    (stage (staging_path pid p) p contents (map_option f_mode (files d0 p))) d"
proof -
  have half: "untouched pid p d0 d'" if "half_written um (staging_path pid p) contents d d'" for d'
    using that assms(1) by (auto simp: half_written_def)
  let ?d = "put_text um (staging_path pid p) contents d"
  have d: "untouched pid p d0 ?d" "saved p d0 ?d" using assms by simp_all
  obtain m where m: "files ?d (staging_path pid p) = Some \<lparr>f_text = contents, f_mode = m\<rparr>"
    by (simp add: put_text_def)
  show ?thesis
  proof (cases "files d0 p")
    case None
    then show ?thesis
      using half ever_commit [OF d m] d(1) by (auto simp: stage_def Let_def intro: untouched_seen ever_unstage)
  next
    case (Some f)
    let ?d' = "put_file (staging_path pid p) (Some \<lparr>f_text = contents, f_mode = f_mode f\<rparr>) ?d"
    have d': "untouched pid p d0 ?d'" "saved p d0 ?d'"
      "files ?d' (staging_path pid p) = Some \<lparr>f_text = contents, f_mode = f_mode f\<rparr>" using d by simp_all
    show ?thesis
      using half ever_commit [OF d'] d(1) m Some by (auto simp: stage_def Let_def intro: untouched_seen ever_unstage)
  qed
qed

lemma ever_write:
  "ever um (seen pid p contents d) (written pid p contents d) (write_atomically pid p contents) d"
proof -
  have swap: "ever um (seen pid p contents d) (written pid p contents d) (FileMode p (\<lambda>mode. PathExists p (\<lambda>there.
      if there
      then CopyFile p (backup_path p) (\<lambda>r. case r of
          Inl e \<Rightarrow> Ret (Inl (IoFailure e)) | Inr _ \<Rightarrow> stage (staging_path pid p) p contents mode)
      else stage (staging_path pid p) p contents mode))) d'"
    if d': "untouched pid p d d'" "files d' = files d" for d'
  proof -
    have err: "seen pid p contents d d'' \<and> written pid p contents d (Inl (IoFailure e)) d''"
      if "half_copied p (backup_path p) d' d''" for d'' e
    proof -
      have "untouched pid p d d''" using that d' by (auto simp: half_copied_def)
      then show ?thesis by (auto simp: untouched_seen) (simp add: written_def untouched_def)
    qed
    have "ever um (seen pid p contents d) (written pid p contents d)
        (stage (staging_path pid p) p contents (Some (f_mode f))) (put_file (backup_path p) (Some f) d')"
      if "files d p = Some f" for f
      using that ever_stage [of pid p d "put_file (backup_path p) (Some f) d'" um contents] d'(1) by (simp add: saved_def)
    moreover have "ever um (seen pid p contents d) (written pid p contents d)
        (stage (staging_path pid p) p contents (map_option f_mode (files d p))) d'" if "\<not> path_exists d' p"
      using that d' by (intro ever_stage) (auto simp: saved_def path_exists_def)
    ultimately show ?thesis
      using err d' untouched_seen [OF d'(1)] by auto
  qed
  have d: "untouched pid p d (d\<lparr>dirs := ds\<rparr>)" for ds by (simp add: untouched_def others_kept_def)
  then have "written pid p contents d (Inl (IoFailure e)) (d\<lparr>dirs := ds\<rparr>)" for e ds
    by (simp add: written_def untouched_def)
  with d swap [of "d\<lparr>dirs := ds\<rparr>" for ds] swap [OF d [of "dirs d"]] show ?thesis
    by (auto simp: write_atomically_def Let_def untouched_seen split: option.split sum.split)
qed

text \<open>
  C6: A configuration is never torn. Started from any disk, whatever fails and wherever the process
  stops, at every moment the file is exactly what it was, or it is the complete new text with the
  mode it had and its old contents safe in the backup; no other file but the backup and the
  staging file is touched. Success means the new text is there and nothing is left over; an error
  means the configuration is as it was.
\<close>

theorem config_never_torn:
  assumes "file_run um (write_atomically pid p contents) d c d'"
  shows "seen pid p contents d d' \<and> (\<forall>r. c = Ret r \<longrightarrow> written pid p contents d r d')"
  using ever_run [OF assms ever_write] by (auto dest: ever_now)

text \<open>Steps from the front, and the way to the point where the new text is staged.\<close>

lemma run_front: "file_step um c d c1 d1 \<Longrightarrow> file_run um c1 d1 c' d' \<Longrightarrow> file_run um c d c' d'"
proof (rotate_tac, induction rule: file_run.induct)
  case run_start
  then show ?case by (rule run_step [OF file_run.run_start])
next
  case (run_step c2 d2 c3 d3)
  then show ?case by (blast intro: file_run.run_step)
qed

definition before_commit :: "nat \<Rightarrow> string \<Rightarrow> nat \<Rightarrow> (install_error + unit) file_prog" where
  "before_commit pid p m = SetMode (staging_path pid p) m (\<lambda>r. case r of
       Inl e \<Rightarrow> unstage (staging_path pid p) e
     | Inr _ \<Rightarrow> RenameFile (staging_path pid p) p (\<lambda>r. case r of
           Inl e \<Rightarrow> unstage (staging_path pid p) e | Inr _ \<Rightarrow> Ret (Inr ())))"

definition staged_disk :: "nat \<Rightarrow> nat \<Rightarrow> string \<Rightarrow> string \<Rightarrow> disk \<Rightarrow> disk" where
  "staged_disk um pid p contents d =
     put_text um (staging_path pid p) contents (put_file (backup_path p) (files d p) d)"

lemma staging_run:
  assumes "files d p = Some f" and "parent_of p = Some dir" and "dirs d dir"
  shows "file_run um (write_atomically pid p contents) d (before_commit pid p (f_mode f)) (staged_disk um pid p contents d)"
proof -
  have here: "path_exists d p" using assms(1) by (simp add: path_exists_def)
  show ?thesis
    unfolding write_atomically_def Let_def assms(2) option.case
    apply (rule run_front, rule dirs_made, rule order_refl, rule assms(3))
    apply (simp, rule run_front, rule mode_told, rule run_front, rule existence_told)
    apply (simp add: here assms(1), rule run_front, rule copy_done, rule assms(1))
    apply (simp add: stage_def, rule run_front, rule write_done)
    apply (simp add: before_commit_def staged_disk_def assms(1) file_run.run_start)
    done
qed

lemma commit_run:
  "files d (staging_path pid p) = Some f \<Longrightarrow> file_run um (before_commit pid p m) d (Ret (Inr ()))
     (put_file (staging_path pid p) None (put_file p (Some (f\<lparr>f_mode := m\<rparr>)) d))"
  unfolding before_commit_def
  apply (rule run_front, rule mode_set, assumption)
  apply (simp, rule run_front, rule renamed)
    apply simp_all
  apply (simp add: put_file_def fun_upd_twist file_run.run_start)
  done

lemma file_run_trans: "file_run um c d c1 d1 \<Longrightarrow> file_run um c1 d1 c2 d2 \<Longrightarrow> file_run um c d c2 d2"
  by (rotate_tac, induction rule: file_run.induct) (blast intro: file_run.run_step)+

lemma write_succeeds:
  assumes "files d p = Some f" and "parent_of p = Some dir" and "dirs d dir"
  shows "\<exists>d'. file_run um (write_atomically pid p contents) d (Ret (Inr ())) d'"
proof -
  obtain g where "files (staged_disk um pid p contents d) (staging_path pid p) = Some g"
    by (simp add: staged_disk_def put_text_def)
  from file_run_trans [OF staging_run [OF assms] commit_run [OF this]] show ?thesis by blast
qed

definition sample_disk :: disk where
  "sample_disk = \<lparr>files = [''c'' \<mapsto> \<lparr>f_text = ''old'', f_mode = 384\<rparr>], dirs = (\<lambda>p. p = [])\<rparr>"

theorem config_never_torn_witness:
  "\<exists>d'. file_run 420 (write_atomically 7 ''c'' ''new'') sample_disk (Ret (Inr ())) d' \<and>
     files d' ''c'' = Some \<lparr>f_text = ''new'', f_mode = 384\<rparr> \<and> files d' (backup_path ''c'') = files sample_disk ''c''"
proof -
  have c: "files sample_disk ''c'' = Some \<lparr>f_text = ''old'', f_mode = 384\<rparr>" by (simp add: sample_disk_def)
  have "parent_of ''c'' = Some []" "dirs sample_disk []" by (simp_all add: parent_of_def sample_disk_def)
  from write_succeeds [OF c this, of 420 7 "''new''"]
  obtain d' where run: "file_run 420 (write_atomically 7 ''c'' ''new'') sample_disk (Ret (Inr ())) d'" by blast
  from config_never_torn [OF run] have "written 7 ''c'' ''new'' sample_disk (Inr ()) d'" by blast
  with run c show ?thesis by (auto simp: written_def renewed_def saved_def)
qed

text \<open>
  What the mode is carried across for is not quite achieved: a configuration only its owner may
  read is, in full, in a staging file everyone may read, from the write until the mode is set.
\<close>

lemma staged_readable:
  "\<exists>c d'. file_run 420 (write_atomically 7 ''c'' ''new'') sample_disk c d' \<and>
     files d' ''c'' = Some \<lparr>f_text = ''old'', f_mode = 384\<rparr> \<and>
     files d' (staging_path 7 ''c'') = Some \<lparr>f_text = ''new'', f_mode = 420\<rparr>"
proof -
  have c: "files sample_disk ''c'' = Some \<lparr>f_text = ''old'', f_mode = 384\<rparr>" by (simp add: sample_disk_def)
  have "parent_of ''c'' = Some []" "dirs sample_disk []" by (simp_all add: parent_of_def sample_disk_def)
  note run = staging_run [OF c this, of 420 7 "''new''"]
  have "files (staged_disk 420 7 ''c'' ''new'' sample_disk) ''c'' = Some \<lparr>f_text = ''old'', f_mode = 384\<rparr>"
    by (simp add: staged_disk_def put_text_def sample_disk_def)
  moreover have "files (staged_disk 420 7 ''c'' ''new'' sample_disk) (staging_path 7 ''c'') = Some \<lparr>f_text = ''new'', f_mode = 420\<rparr>"
    by (simp add: staged_disk_def put_text_def sample_disk_def)
  ultimately show ?thesis using run by blast
qed

end
