(* ===== verification/Clients.thy ===== *)
theory Clients
  imports Config_Files
begin

text \<open>
  What is written into the configuration of an MCP client (\<open>cli/install/mod.rs\<close>, \<open>json_client.rs\<close>,
  \<open>codex_client.rs\<close>): the entry of a server, the clients that keep their servers in JSON and the one
  that keeps them in TOML, what each says about an entry, and how it is put in and taken out. The
  codecs of the two formats are a library's: parameters that parse a text and print a document.
  The contract both clients meet is the locale \<open>config_editor\<close>. The properties: an edit settles what
  it is for, keeps everything else, leaves alone what it cannot read, and writes nothing twice.
\<close>

section \<open>The entry of a server\<close>

record server_entry =
  se_name :: string
  se_args :: "string list"
  se_env :: "(string \<times> string) list"
  se_auto_approve :: bool
  se_connect :: "string option"

definition new_entry :: "string \<Rightarrow> string list \<Rightarrow> server_entry" where
  "new_entry n args = \<lparr>se_name = n, se_args = args, se_env = [], se_auto_approve = False, se_connect = None\<rparr>"

definition with_env :: "string \<Rightarrow> string \<Rightarrow> server_entry \<Rightarrow> server_entry" where
  "with_env k v e = e\<lparr>se_env := se_env e @ [(k, v)]\<rparr>"

definition with_connect :: "string \<Rightarrow> server_entry \<Rightarrow> server_entry" where
  "with_connect a e = e\<lparr>se_connect := Some a\<rparr>"

definition with_auto_approve :: "server_entry \<Rightarrow> server_entry" where
  "with_auto_approve e = e\<lparr>se_auto_approve := True\<rparr>"

text \<open>\<open>exe\<close> is the path of the running binary, where it can be known.\<close>

definition command :: "string option \<Rightarrow> server_entry \<Rightarrow> string" where
  "command exe e = (case exe of Some p \<Rightarrow> p | None \<Rightarrow> se_name e)"

definition arguments :: "server_entry \<Rightarrow> string list" where
  "arguments e = se_args e @ (case se_connect e of None \<Rightarrow> [] | Some a \<Rightarrow> [CONNECT_FLAG, a])"

text \<open>The pinned environment as a map: the last value of a key wins.\<close>

definition env_map :: "server_entry \<Rightarrow> (string, string) table" where
  "env_map e = foldl (\<lambda>m (k, v). table_insert k v m) [] (se_env e)"

definition json_entry :: "string option \<Rightarrow> server_entry \<Rightarrow> json" where
  "json_entry exe e = jobject [(''command'', JString (command exe e)), (''args'', JArray (map JString (arguments e))),
     (''env'', JObject (foldl (\<lambda>m (k, v). obj_insert k (JString v) m) [] (se_env e)))]"

definition snippet :: "(json \<Rightarrow> string + string) \<Rightarrow> string option \<Rightarrow> server_entry \<Rightarrow> string" where
  "snippet pretty exe e =
     (case pretty (jobject [(''mcpServers'', jobject [(se_name e, json_entry exe e)])]) of Inl _ \<Rightarrow> [] | Inr t \<Rightarrow> t)"

datatype install_status = NotInstalled | Installed | NeedsRefresh | NeedsUpdate string | ClientNotFound

fun wants_install :: "install_status \<Rightarrow> bool" where
  "wants_install NotInstalled = True"
| "wants_install NeedsRefresh = True"
| "wants_install (NeedsUpdate _) = True"
| "wants_install _ = False"

fun has_entry :: "install_status \<Rightarrow> bool" where
  "has_entry Installed = True"
| "has_entry NeedsRefresh = True"
| "has_entry (NeedsUpdate _) = True"
| "has_entry _ = False"

fun show_status :: "install_status \<Rightarrow> string" where
  "show_status NotInstalled = ''not configured''"
| "show_status Installed = ''configured''"
| "show_status NeedsRefresh = ''outdated''"
| "show_status (NeedsUpdate p) = ''outdated (pointing at '' @ p @ '')''"
| "show_status ClientNotFound = ''client not installed''"

section \<open>Reading and editing a configuration\<close>

record 'd codec =
  parse_doc :: "string \<Rightarrow> string + 'd"
  print_doc :: "'d \<Rightarrow> string + string"

text \<open>\<open>read_config\<close> of both clients; \<open>none\<close> is what a file that is missing or blank says.\<close>

definition read_config :: "'d codec \<Rightarrow> 'd \<Rightarrow> string \<Rightarrow> (install_error + 'd) file_prog" where
  "read_config cd none p = file_bind (read_config_text p) (\<lambda>r. Ret (case r of
       Inl e \<Rightarrow> Inl e
     | Inr None \<Rightarrow> Inr none
     | Inr (Some t) \<Rightarrow> (case parse_doc cd t of Inl e \<Rightarrow> Inl (ParseFailure (p @ '': '' @ e)) | Inr doc \<Rightarrow> Inr doc)))"

definition write_config :: "'d codec \<Rightarrow> nat \<Rightarrow> string \<Rightarrow> 'd \<Rightarrow> (install_error + unit) file_prog" where
  "write_config cd pid p doc =
     (case print_doc cd doc of Inl e \<Rightarrow> Ret (Inl (SerializeFailure e)) | Inr t \<Rightarrow> write_atomically pid p t)"

text \<open>The course of \<open>install\<close> and \<open>uninstall\<close>: an edit that has nothing to do writes nothing.\<close>

definition edit_config :: "'d codec \<Rightarrow> 'd \<Rightarrow> nat \<Rightarrow> string \<Rightarrow> ('d \<Rightarrow> install_error + 'd option) \<Rightarrow> (install_error + unit) file_prog" where
  "edit_config cd none pid p edit = file_bind (read_config cd none p) (\<lambda>r.
     case r of
       Inl e \<Rightarrow> Ret (Inl e)
     | Inr doc \<Rightarrow>
         (case edit doc of
            Inl e \<Rightarrow> Ret (Inl e)
          | Inr None \<Rightarrow> Ret (Inr ())
          | Inr (Some doc') \<Rightarrow> write_config cd pid p doc'))"

text \<open>The course of \<open>check_existing\<close>, once the client has been detected.\<close>

definition check_config :: "'d codec \<Rightarrow> 'd \<Rightarrow> string \<Rightarrow> ('d \<Rightarrow> install_status) \<Rightarrow> bool \<Rightarrow> install_status file_prog" where
  "check_config cd none p status_in there =
     (if \<not> there then Ret ClientNotFound
      else file_bind (read_config cd none p) (\<lambda>r. Ret (case r of Inl _ \<Rightarrow> NotInstalled | Inr doc \<Rightarrow> status_in doc)))"

section \<open>Clients that keep their servers in JSON\<close>

record json_client =
  jc_name :: string
  jc_config_path :: string
  jc_servers_key :: string
  jc_detect_path :: "string option"

definition new_json_client :: "string \<Rightarrow> string \<Rightarrow> string \<Rightarrow> json_client" where
  "new_json_client n p k = \<lparr>jc_name = n, jc_config_path = p, jc_servers_key = k, jc_detect_path = None\<rparr>"

text \<open>The text is pretty-printed and ends with a newline.\<close>

definition json_codec :: "(string \<Rightarrow> string + json) \<Rightarrow> (json \<Rightarrow> string + string) \<Rightarrow> json codec" where
  "json_codec decode pretty = \<lparr>parse_doc = decode, print_doc = (\<lambda>d. map_ok (\<lambda>t. t @ [CHR 0x0A]) (pretty d))\<rparr>"

definition json_existing :: "json_client \<Rightarrow> server_entry \<Rightarrow> json \<Rightarrow> json option" where
  "json_existing c e doc = Option.bind (json_get (jc_servers_key c) doc) (json_get (se_name e))"

definition json_status :: "string option \<Rightarrow> json_client \<Rightarrow> server_entry \<Rightarrow> json \<Rightarrow> install_status" where
  "json_status exe c e doc =
     (case json_existing c e doc of
        None \<Rightarrow> NotInstalled
      | Some existing \<Rightarrow>
          let their = (case json_get ''command'' existing of Some (JString s) \<Rightarrow> s | _ \<Rightarrow> [])
          in if their \<noteq> command exe e then NeedsUpdate their
             else if existing = json_entry exe e then Installed
             else NeedsRefresh)"

definition json_install :: "string option \<Rightarrow> json_client \<Rightarrow> server_entry \<Rightarrow> json \<Rightarrow> install_error + json option" where
  "json_install exe c e doc =
     (case doc of
        JObject members \<Rightarrow>
          let key = jc_servers_key c;
              members = (if map_of members key = None then obj_insert key (JObject []) members else members)
          in (case map_of members key of
                Some (JObject servers) \<Rightarrow>
                  if map_of servers (se_name e) = Some (json_entry exe e) then Inr None
                  else Inr (Some (JObject (obj_insert key (JObject (obj_insert (se_name e) (json_entry exe e) servers)) members)))
              | _ \<Rightarrow> Inl (ParseFailure (jc_config_path c @ '': `'' @ key @ ''` is not a JSON object'')))
      | _ \<Rightarrow> Inl (ParseFailure (jc_config_path c @ '': the top level is not a JSON object'')))"

text \<open>\<open>uninstall\<close>: \<open>None\<close> when there was no entry to remove.\<close>

definition json_uninstall :: "json_client \<Rightarrow> server_entry \<Rightarrow> json \<Rightarrow> json option" where
  "json_uninstall c e doc =
     (case doc of
        JObject members \<Rightarrow>
          (case map_of members (jc_servers_key c) of
             Some (JObject servers) \<Rightarrow>
               if map_of servers (se_name e) = None then None
               else Some (JObject (obj_insert (jc_servers_key c) (JObject (table_remove (se_name e) servers)) members))
           | _ \<Rightarrow> None)
      | _ \<Rightarrow> None)"

text \<open>\<open>McpClient::detect\<close>, the default one and that of a JSON client with a marker of its own.\<close>

definition detect_config :: "string \<Rightarrow> (bool \<Rightarrow> 'a file_prog) \<Rightarrow> 'a file_prog" where
  "detect_config p k = PathExists p (\<lambda>there.
     if there then k True
     else case parent_of p of None \<Rightarrow> k False | Some dir \<Rightarrow> PathExists dir k)"

definition json_detect :: "json_client \<Rightarrow> (bool \<Rightarrow> 'a file_prog) \<Rightarrow> 'a file_prog" where
  "json_detect c k =
     (case jc_detect_path c of
        Some p \<Rightarrow> PathExists p (\<lambda>there. if there then k True else PathExists (jc_config_path c) k)
      | None \<Rightarrow> detect_config (jc_config_path c) k)"
section \<open>Codex, which keeps its servers in TOML\<close>

text \<open>
  A TOML item as data; layout and comments, which the editing library keeps, are not part of it. A
  table is one whether it was written as a section or inline.
\<close>

datatype toml =
    TomlString string
  | TomlArray "toml list"
  | TomlTable "(string, toml) table"
  | TomlOther string

definition SERVERS_TABLE :: string where "SERVERS_TABLE = ''mcp_servers''"
definition APPROVAL_MODE_KEY :: string where "APPROVAL_MODE_KEY = ''default_tools_approval_mode''"
definition APPROVAL_MODE_AUTO :: string where "APPROVAL_MODE_AUTO = ''auto''"

fun toml_str :: "toml \<Rightarrow> string option" where
  "toml_str (TomlString s) = Some s"
| "toml_str _ = None"

fun toml_table :: "toml \<Rightarrow> (string, toml) table option" where
  "toml_table (TomlTable t) = Some t"
| "toml_table _ = None"

fun toml_array :: "toml \<Rightarrow> toml list option" where
  "toml_array (TomlArray xs) = Some xs"
| "toml_array _ = None"

text \<open>Collecting options: all or nothing.\<close>

fun collect_all :: "'a option list \<Rightarrow> 'a list option" where
  "collect_all [] = Some []"
| "collect_all (x # xs) =
     (case x of None \<Rightarrow> None | Some a \<Rightarrow> (case collect_all xs of None \<Rightarrow> None | Some as \<Rightarrow> Some (a # as)))"

definition codex_codec :: "(string \<Rightarrow> string + (string, toml) table) \<Rightarrow> ((string, toml) table \<Rightarrow> string) \<Rightarrow> (string, toml) table codec" where
  "codex_codec decode render = \<lparr>parse_doc = decode, print_doc = (\<lambda>d. Inr (render d))\<rparr>"

definition codex_existing :: "server_entry \<Rightarrow> (string, toml) table \<Rightarrow> toml option" where
  "codex_existing e doc =
     Option.bind (Option.bind (table_get doc SERVERS_TABLE) toml_table) (\<lambda>servers. table_get servers (se_name e))"

definition approval_mode_of :: "toml \<Rightarrow> string option" where
  "approval_mode_of existing =
     Option.bind (Option.bind (toml_table existing) (\<lambda>t. table_get t APPROVAL_MODE_KEY)) toml_str"

definition wanted_approval_mode :: "server_entry \<Rightarrow> string option \<Rightarrow> string option" where
  "wanted_approval_mode e their = (if se_auto_approve e then Some APPROVAL_MODE_AUTO else their)"

definition build_entry :: "string option \<Rightarrow> server_entry \<Rightarrow> string option \<Rightarrow> (string, toml) table" where
  "build_entry exe e their =
     (let t = table_insert ''command'' (TomlString (command exe e)) [];
          t = table_insert ''args'' (TomlArray (map TomlString (arguments e))) t;
          t = (case wanted_approval_mode e their of None \<Rightarrow> t | Some m \<Rightarrow> table_insert APPROVAL_MODE_KEY (TomlString m) t)
      in table_insert ''env'' (TomlTable (foldl (\<lambda>m (k, v). table_insert k (TomlString v) m) [] (se_env e))) t)"

definition codex_matches :: "string option \<Rightarrow> server_entry \<Rightarrow> toml \<Rightarrow> bool" where
  "codex_matches exe e existing \<longleftrightarrow>
     (case toml_table existing of
        None \<Rightarrow> False
      | Some t \<Rightarrow>
          Option.bind (table_get t ''command'') toml_str = Some (command exe e) \<and>
          Option.bind (Option.bind (table_get t ''args'') toml_array) (\<lambda>xs. collect_all (map toml_str xs)) = Some (arguments e) \<and>
          (case Option.bind (table_get t ''env'') toml_table of
             None \<Rightarrow> False
           | Some env \<Rightarrow> length env = length (env_map e) \<and>
               list_all (\<lambda>(k, v). Option.bind (table_get env k) toml_str = Some v) (env_map e)) \<and>
          (\<not> se_auto_approve e \<or> approval_mode_of existing = Some APPROVAL_MODE_AUTO))"

definition codex_status :: "string option \<Rightarrow> server_entry \<Rightarrow> (string, toml) table \<Rightarrow> install_status" where
  "codex_status exe e doc =
     (case codex_existing e doc of
        None \<Rightarrow> NotInstalled
      | Some existing \<Rightarrow>
          let their = (case Option.bind (Option.bind (toml_table existing) (\<lambda>t. table_get t ''command'')) toml_str of
                         Some s \<Rightarrow> s | None \<Rightarrow> [])
          in if their \<noteq> command exe e then NeedsUpdate their
             else if codex_matches exe e existing then Installed
             else NeedsRefresh)"

definition codex_install :: "string option \<Rightarrow> string \<Rightarrow> server_entry \<Rightarrow> (string, toml) table \<Rightarrow>
    install_error + (string, toml) table option" where
  "codex_install exe p e doc =
     (if (case codex_existing e doc of None \<Rightarrow> False | Some existing \<Rightarrow> codex_matches exe e existing) then Inr None
      else
        let their = Option.bind (codex_existing e doc) approval_mode_of;
            doc = (if table_get doc SERVERS_TABLE = None then table_insert SERVERS_TABLE (TomlTable []) doc else doc)
        in (case Option.bind (table_get doc SERVERS_TABLE) toml_table of
              None \<Rightarrow> Inl (ParseFailure (p @ '': `'' @ SERVERS_TABLE @ ''` is not a table''))
            | Some servers \<Rightarrow>
                Inr (Some (table_insert SERVERS_TABLE
                  (TomlTable (table_insert (se_name e) (TomlTable (build_entry exe e their)) servers)) doc))))"

definition codex_uninstall :: "server_entry \<Rightarrow> (string, toml) table \<Rightarrow> (string, toml) table option" where
  "codex_uninstall e doc =
     (case Option.bind (table_get doc SERVERS_TABLE) toml_table of
        None \<Rightarrow> None
      | Some servers \<Rightarrow>
          if table_get servers (se_name e) = None then None
          else Some (table_insert SERVERS_TABLE (TomlTable (table_remove (se_name e) servers)) doc))"

section \<open>The operations of the clients\<close>

text \<open>
  What a client needs of the world: the codecs of the two formats, the path of the running binary and
  the process's id.
\<close>

record client_host =
  ch_json :: "json codec"
  ch_toml :: "(string, toml) table codec"
  ch_exe :: "string option"
  ch_pid :: nat

definition json_check_prog :: "client_host \<Rightarrow> json_client \<Rightarrow> server_entry \<Rightarrow> install_status file_prog" where
  "json_check_prog h c e =
     json_detect c (check_config (ch_json h) (JObject []) (jc_config_path c) (json_status (ch_exe h) c e))"

definition json_install_prog :: "client_host \<Rightarrow> json_client \<Rightarrow> server_entry \<Rightarrow> (install_error + unit) file_prog" where
  "json_install_prog h c e = edit_config (ch_json h) (JObject []) (ch_pid h) (jc_config_path c) (json_install (ch_exe h) c e)"

definition json_uninstall_prog :: "client_host \<Rightarrow> json_client \<Rightarrow> server_entry \<Rightarrow> (install_error + unit) file_prog" where
  "json_uninstall_prog h c e =
     edit_config (ch_json h) (JObject []) (ch_pid h) (jc_config_path c) (\<lambda>doc. Inr (json_uninstall c e doc))"

definition codex_check_prog :: "client_host \<Rightarrow> string \<Rightarrow> server_entry \<Rightarrow> install_status file_prog" where
  "codex_check_prog h p e = detect_config p (check_config (ch_toml h) [] p (codex_status (ch_exe h) e))"

definition codex_install_prog :: "client_host \<Rightarrow> string \<Rightarrow> server_entry \<Rightarrow> (install_error + unit) file_prog" where
  "codex_install_prog h p e = edit_config (ch_toml h) [] (ch_pid h) p (codex_install (ch_exe h) p e)"

definition codex_uninstall_prog :: "client_host \<Rightarrow> string \<Rightarrow> server_entry \<Rightarrow> (install_error + unit) file_prog" where
  "codex_uninstall_prog h p e = edit_config (ch_toml h) [] (ch_pid h) p (\<lambda>doc. Inr (codex_uninstall e doc))"

section \<open>The document in a file\<close>

text \<open>What a configuration file says, if it can be read; and that a document survives being written.\<close>

definition document :: "'d codec \<Rightarrow> 'd \<Rightarrow> string \<Rightarrow> disk \<Rightarrow> 'd option" where
  "document cd none p d =
     (case files d p of
        None \<Rightarrow> Some none
      | Some f \<Rightarrow>
          if \<not> utf8_valid (f_text f) then None
          else if trim (f_text f) = [] then Some none
          else (case parse_doc cd (f_text f) of Inl _ \<Rightarrow> None | Inr doc \<Rightarrow> Some doc))"

definition reads_back :: "'d codec \<Rightarrow> 'd \<Rightarrow> bool" where
  "reads_back cd doc \<longleftrightarrow>
     (\<forall>t. print_doc cd doc = Inr t \<longrightarrow> utf8_valid t \<and> trim t \<noteq> [] \<and> parse_doc cd t = Inr doc)"

definition edits_read_back :: "'d codec \<Rightarrow> 'd \<Rightarrow> string \<Rightarrow> ('d \<Rightarrow> install_error + 'd option) \<Rightarrow> disk \<Rightarrow> bool" where
  "edits_read_back cd none p edit d \<longleftrightarrow>
     (\<forall>doc doc'. document cd none p d = Some doc \<longrightarrow> edit doc = Inr (Some doc') \<longrightarrow> reads_back cd doc')"

lemma document_same: "files d' p = files d p \<Longrightarrow> document cd none p d' = document cd none p d"
  by (simp add: document_def)

lemma document_renewed:
  "renewed p t d0 d \<Longrightarrow> print_doc cd doc = Inr t \<Longrightarrow> reads_back cd doc \<Longrightarrow> document cd none p d = Some doc"
  by (auto simp: renewed_def document_def reads_back_def)

lemma ever_read_config:
  assumes "I d" and "\<And>e. ever um I Q (f (Inl e)) d"
    and "\<And>doc. document cd none p d = Some doc \<Longrightarrow> ever um I Q (f (Inr doc)) d"
  shows "ever um I Q (file_bind (read_config cd none p) f) d"
proof -
  have "ever um I Q (f (case (case r of
        Inr contents \<Rightarrow> Inr (if trim contents = [] then None else Some contents)
      | Inl e \<Rightarrow> if raw_os_error e = Some ENOENT then Inr None else Inl (IoFailure e)) of
        Inl e \<Rightarrow> Inl e
      | Inr None \<Rightarrow> Inr none
      | Inr (Some t) \<Rightarrow> (case parse_doc cd t of Inl e \<Rightarrow> Inl (ParseFailure (p @ '': '' @ e)) | Inr doc \<Rightarrow> Inr doc))) d"
    if "told d p r" for r
    using that assms(2,3) by (cases r) (auto simp: document_def split: sum.split)
  with assms(1) show ?thesis by (simp add: read_config_def read_config_text_def)
qed

text \<open>What may be seen of the disk while a document is edited, and at the end.\<close>

definition edit_seen :: "'d codec \<Rightarrow> 'd \<Rightarrow> nat \<Rightarrow> string \<Rightarrow> ('d \<Rightarrow> install_error + 'd option) \<Rightarrow> disk \<Rightarrow> disk \<Rightarrow> bool" where
  "edit_seen cd none pid p edit d0 d \<longleftrightarrow> files d = files d0 \<or>
     (\<exists>doc doc' t. document cd none p d0 = Some doc \<and> edit doc = Inr (Some doc') \<and> print_doc cd doc' = Inr t \<and>
       seen pid p t d0 d)"

definition edit_done :: "'d codec \<Rightarrow> 'd \<Rightarrow> nat \<Rightarrow> string \<Rightarrow> ('d \<Rightarrow> install_error + 'd option) \<Rightarrow> disk \<Rightarrow> install_error + unit \<Rightarrow> disk \<Rightarrow> bool" where
  "edit_done cd none pid p edit d0 r d \<longleftrightarrow>
     (case r of
        Inl e \<Rightarrow> files d p = files d0 p
      | Inr _ \<Rightarrow> \<exists>doc. document cd none p d0 = Some doc \<and>
          (edit doc = Inr None \<or>
           (\<exists>doc' t. edit doc = Inr (Some doc') \<and> print_doc cd doc' = Inr t \<and> renewed p t d0 d)))"

text \<open>
  That an edit has brought a document to a state: it was there already and the file is as it was, or
  the file holds the text of the edited document, with the mode it had. What the text says when it is
  read again is the codec's affair; that it still has the state is \<open>stays_in\<close>.
\<close>

definition brought_to :: "install_status \<Rightarrow> 'd codec \<Rightarrow> 'd \<Rightarrow> string \<Rightarrow> ('d \<Rightarrow> install_status) \<Rightarrow>
    ('d \<Rightarrow> install_error + 'd option) \<Rightarrow> disk \<Rightarrow> disk \<Rightarrow> bool" where
  "brought_to st cd none p status_in edit d0 d \<longleftrightarrow>
     (\<exists>doc. document cd none p d0 = Some doc \<and>
        (if status_in doc = st then files d p = files d0 p
         else \<exists>doc' t. edit doc = Inr (Some doc') \<and> status_in doc' = st \<and> print_doc cd doc' = Inr t \<and> renewed p t d0 d))"

definition stays_in :: "install_status \<Rightarrow> 'd codec \<Rightarrow> 'd \<Rightarrow> string \<Rightarrow> ('d \<Rightarrow> install_status) \<Rightarrow>
    ('d \<Rightarrow> install_error + 'd option) \<Rightarrow> disk \<Rightarrow> bool" where
  "stays_in st cd none p status_in edit d0 \<longleftrightarrow>
     (\<forall>doc doc' t. document cd none p d0 = Some doc \<longrightarrow> edit doc = Inr (Some doc') \<longrightarrow> print_doc cd doc' = Inr t \<longrightarrow>
        utf8_valid t \<and> trim t \<noteq> [] \<and> (\<exists>doc''. parse_doc cd t = Inr doc'' \<and> status_in doc'' = st))"

lemma brought_to_stays:
  assumes "brought_to st cd none p status_in edit d0 d" and "stays_in st cd none p status_in edit d0"
  shows "\<exists>doc. document cd none p d = Some doc \<and> status_in doc = st"
proof -
  from assms(1) obtain doc where doc: "document cd none p d0 = Some doc"
    and "(status_in doc = st \<and> files d p = files d0 p) \<or>
      (\<exists>doc' t. edit doc = Inr (Some doc') \<and> print_doc cd doc' = Inr t \<and> renewed p t d0 d)"
    by (auto simp: brought_to_def split: if_splits)
  then consider "status_in doc = st" "files d p = files d0 p"
    | doc' t where "edit doc = Inr (Some doc')" "print_doc cd doc' = Inr t" "renewed p t d0 d" by blast
  then show ?thesis
  proof cases
    case 1
    with doc document_same [of d p d0 cd none] show ?thesis by simp
  next
    case 2
    with assms(2) doc show ?thesis by (force simp: stays_in_def renewed_def document_def)
  qed
qed

lemma brought_to_same:
  "files d0' p = files d0 p \<Longrightarrow> files d' p = files d p \<Longrightarrow>
    brought_to st cd none p status_in edit d0' d' = brought_to st cd none p status_in edit d0 d"
  by (simp add: brought_to_def renewed_def document_same [of d0' p d0])

lemma brought_to_idle:
  "document cd none p d = Some doc \<Longrightarrow> status_in doc = st \<Longrightarrow> brought_to st cd none p status_in edit d d"
  by (auto simp: brought_to_def)

lemma ever_mono:
  "ever um I Q c d \<Longrightarrow> (\<And>d. I d \<Longrightarrow> J d) \<Longrightarrow> (\<And>x d. Q x d \<Longrightarrow> R x d) \<Longrightarrow> ever um J R c d"
  by (induction c arbitrary: d) auto

lemma ever_strengthen: "ever um I Q c d \<Longrightarrow> ever um I (\<lambda>x d. I d \<and> Q x d) c d"
  by (induction c arbitrary: d) auto

lemma ever_edit_config:
  "ever um (edit_seen cd none pid p edit d) (edit_done cd none pid p edit d) (edit_config cd none pid p edit) d"
  unfolding edit_config_def
proof (rule ever_read_config)
  fix doc
  assume doc: "document cd none p d = Some doc"
  have here: "edit_seen cd none pid p edit d d" by (simp add: edit_seen_def)
  have "ever um (edit_seen cd none pid p edit d) (edit_done cd none pid p edit d) (write_atomically pid p t) d"
    if "edit doc = Inr (Some doc')" "print_doc cd doc' = Inr t" for doc' t
    by (rule ever_mono [OF ever_write [of um pid p t d]])
       (use doc that in \<open>auto simp: edit_seen_def edit_done_def written_def split: sum.splits\<close>)
  with doc here show "ever um (edit_seen cd none pid p edit d) (edit_done cd none pid p edit d)
      (case Inr doc of
         Inl e \<Rightarrow> Ret (Inl e)
       | Inr doc \<Rightarrow>
           (case edit doc of
              Inl e \<Rightarrow> Ret (Inl e)
            | Inr None \<Rightarrow> Ret (Inr ())
            | Inr (Some doc') \<Rightarrow> write_config cd pid p doc')) d"
    by (auto simp: write_config_def edit_done_def split: sum.split option.split)
qed (simp_all add: edit_seen_def edit_done_def)

section \<open>The contract of a client\<close>

text \<open>
  What the commands rely on: an entry needs putting exactly when it is not up to date, and is up to
  date once put; there is something to take exactly when there is an entry, and none once taken;
  and the rest of the document is not touched. \<open>status\<close>, \<open>put\<close> and \<open>take_out\<close> are the edits of a
  document, \<open>rest\<close> is all of it but the entry.
\<close>

locale config_editor =
  fixes status_in :: "'e \<Rightarrow> 'd \<Rightarrow> install_status"
    and put :: "'e \<Rightarrow> 'd \<Rightarrow> install_error + 'd option"
    and take_out :: "'e \<Rightarrow> 'd \<Rightarrow> 'd option"
    and rest :: "'e \<Rightarrow> 'd \<Rightarrow> 'x"
  assumes put_idle: "put e doc = Inr None \<longleftrightarrow> status_in e doc = Installed"
    and put_settles: "put e doc = Inr (Some doc') \<Longrightarrow> status_in e doc' = Installed \<and> rest e doc' = rest e doc"
    and take_idle: "take_out e doc = None \<longleftrightarrow> status_in e doc = NotInstalled"
    and take_settles: "take_out e doc = Some doc' \<Longrightarrow> status_in e doc' = NotInstalled \<and> rest e doc' = rest e doc"
begin

definition edit :: "bool \<Rightarrow> 'e \<Rightarrow> 'd \<Rightarrow> install_error + 'd option" where
  "edit add e doc = (if add then put e doc else Inr (take_out e doc))"

definition goal :: "bool \<Rightarrow> install_status" where
  "goal add = (if add then Installed else NotInstalled)"

lemma edit_idle: "edit add e doc = Inr None \<longleftrightarrow> status_in e doc = goal add"
  using put_idle take_idle by (auto simp: edit_def goal_def)

lemma edit_settles: "edit add e doc = Inr (Some doc') \<Longrightarrow> status_in e doc' = goal add \<and> rest e doc' = rest e doc"
  using put_settles take_settles by (auto simp: edit_def goal_def split: if_splits)

lemma edit_twice: "edit add e doc = Inr (Some doc') \<Longrightarrow> edit add e doc' = Inr None"
  using edit_settles edit_idle by blast

definition edit_step :: "'e \<Rightarrow> 'd \<Rightarrow> bool \<Rightarrow> 'd" where
  "edit_step e doc add = (case edit add e doc of Inr (Some doc') \<Rightarrow> doc' | _ \<Rightarrow> doc)"

lemma edit_step_rest: "rest e (edit_step e doc add) = rest e doc"
  using edit_settles by (auto simp: edit_step_def split: sum.split option.split)

text \<open>
  The same on a file, wherever the run stands: a file that cannot be read is left alone; otherwise it
  says what it said but for the entry, it is not written to when there is nothing to do, and success
  means the edit has been made.
\<close>

lemma edit_run:
  assumes run: "file_run um (edit_config cd none pid p (edit add e)) d c d'"
    and reads: "edits_read_back cd none p (edit add e) d"
  shows "case document cd none p d of
      None \<Rightarrow> files d' = files d
    | Some doc \<Rightarrow>
        (\<exists>doc'. document cd none p d' = Some doc' \<and> rest e doc' = rest e doc \<and>
           (c = Ret (Inr ()) \<longrightarrow> status_in e doc' = goal add)) \<and>
        (status_in e doc = goal add \<longrightarrow> files d' = files d)"
    and "c = Ret (Inl err) \<Longrightarrow> files d' p = files d p"
proof -
  note end_of_run = ever_run [OF run ever_edit_config]
  have at_end: "edit_done cd none pid p (edit add e) d r d'" if "c = Ret r" for r using end_of_run that by simp
  then show "c = Ret (Inl err) \<Longrightarrow> files d' p = files d p" by (simp add: edit_done_def)
  have on_way: "edit_seen cd none pid p (edit add e) d d'" by (rule ever_now [OF end_of_run])
  show "case document cd none p d of
      None \<Rightarrow> files d' = files d
    | Some doc \<Rightarrow>
        (\<exists>doc'. document cd none p d' = Some doc' \<and> rest e doc' = rest e doc \<and>
           (c = Ret (Inr ()) \<longrightarrow> status_in e doc' = goal add)) \<and>
        (status_in e doc = goal add \<longrightarrow> files d' = files d)"
  proof (cases "document cd none p d")
    case None
    with on_way show ?thesis by (auto simp: edit_seen_def)
  next
    case (Some doc)
    have new: "document cd none p d' = Some doc' \<and> rest e doc' = rest e doc \<and> status_in e doc' = goal add"
      if "edit add e doc = Inr (Some doc')" "print_doc cd doc' = Inr t" "renewed p t d d'" for doc' t
      using document_renewed [OF that(3,2)] reads Some that(1) edit_settles [OF that(1)] unfolding edits_read_back_def by blast
    have idle: "status_in e doc = goal add \<longrightarrow> files d' = files d"
      using on_way Some edit_idle [of add e doc] by (auto simp: edit_seen_def)
    show ?thesis
    proof (cases "c = Ret (Inr ())")
      case True
      from at_end [OF this] Some consider "edit add e doc = Inr None"
        | doc' t where "edit add e doc = Inr (Some doc')" "print_doc cd doc' = Inr t" "renewed p t d d'"
        by (auto simp: edit_done_def)
      then show ?thesis
      proof cases
        case 1
        with idle edit_idle have "status_in e doc = goal add" "files d' = files d" by blast+
        with Some document_same [of d' p d cd none] show ?thesis by simp
      qed (use new Some idle in auto)
    next
      case False
      from on_way Some consider "files d' p = files d p"
        | doc' t where "edit add e doc = Inr (Some doc')" "print_doc cd doc' = Inr t" "renewed p t d d'"
        by (auto simp: edit_seen_def seen_def)
      then show ?thesis
      proof cases
        case 1
        with Some document_same [of d' p d cd none] False idle show ?thesis by simp
      qed (use new Some idle False in auto)
    qed
  qed
qed

lemma edit_ever:
  "ever um (others_kept pid p d)
    (\<lambda>r d'. others_kept pid p d d' \<and> (r = Inr () \<longrightarrow> brought_to (goal add) cd none p (status_in e) (edit add e) d d'))
    (edit_config cd none pid p (edit add e)) d"
proof (rule ever_mono [OF ever_strengthen [OF ever_edit_config]])
  fix d'
  assume "edit_seen cd none pid p (edit add e) d d'"
  then show "others_kept pid p d d'" by (auto simp: edit_seen_def seen_def others_kept_def)
next
  fix r d'
  assume sd: "edit_seen cd none pid p (edit add e) d d' \<and> edit_done cd none pid p (edit add e) d r d'"
  then have "others_kept pid p d d'" by (auto simp: edit_seen_def seen_def others_kept_def)
  moreover have "brought_to (goal add) cd none p (status_in e) (edit add e) d d'" if "r = Inr ()"
  proof -
    from sd that obtain doc where doc: "document cd none p d = Some doc"
      and "edit add e doc = Inr None \<or>
        (\<exists>doc' t. edit add e doc = Inr (Some doc') \<and> print_doc cd doc' = Inr t \<and> renewed p t d d')"
      by (auto simp: edit_done_def)
    then consider "edit add e doc = Inr None"
      | doc' t where "edit add e doc = Inr (Some doc')" "print_doc cd doc' = Inr t" "renewed p t d d'" by blast
    then show ?thesis
    proof cases
      case 1
      with sd doc have "files d' = files d" by (auto simp: edit_seen_def)
      with 1 doc edit_idle show ?thesis by (auto simp: brought_to_def)
    next
      case 2
      then have "status_in e doc \<noteq> goal add" using edit_idle [of add e doc] by auto
      with 2 doc edit_settles [OF 2(1)] show ?thesis by (auto simp: brought_to_def)
    qed
  qed
  ultimately show "others_kept pid p d d' \<and>
      (r = Inr () \<longrightarrow> brought_to (goal add) cd none p (status_in e) (edit add e) d d')" by blast
qed

end

sublocale config_editor \<subseteq> edits: machine "edit_step e" "\<lambda>doc. rest e doc = kept" for e kept
  by unfold_locales (simp add: edit_step_rest)

section \<open>The two clients meet it\<close>

definition members_of :: "json option \<Rightarrow> string \<Rightarrow> json option" where
  "members_of v = (case v of Some (JObject m) \<Rightarrow> map_of m | _ \<Rightarrow> (\<lambda>_. None))"

text \<open>All of a document but the entry: the other members, and the other servers.\<close>

definition json_rest :: "json_client \<Rightarrow> server_entry \<Rightarrow> json \<Rightarrow> (string \<Rightarrow> json option) \<times> (string \<Rightarrow> json option)" where
  "json_rest c e doc =
     ((members_of (Some doc))(jc_servers_key c := None),
      (members_of (members_of (Some doc) (jc_servers_key c)))(se_name e := None))"

lemma json_entry_command [simp]: "json_get ''command'' (json_entry exe e) = Some (JString (command exe e))"
  by (simp add: json_entry_def)

lemma json_status_installed: "json_status exe c e doc = Installed \<longleftrightarrow> json_existing c e doc = Some (json_entry exe e)"
  by (auto simp: json_status_def Let_def split: option.split)

lemma json_existing_put [simp]:
  "json_existing c e (JObject (obj_insert (jc_servers_key c) (JObject servers) members)) = map_of servers (se_name e)"
  by (simp add: json_existing_def map_of_obj_insert)

lemma json_install_writes:
  assumes "json_install exe c e doc = Inr (Some doc')"
  obtains members servers members' where "doc = JObject members"
    and "doc' = JObject (obj_insert (jc_servers_key c) (JObject (obj_insert (se_name e) (json_entry exe e) servers)) members')"
    and "map_of servers = members_of (map_of members (jc_servers_key c))"
    and "(map_of members')(jc_servers_key c := None) = (map_of members)(jc_servers_key c := None)"
proof (cases doc)
  case (JObject members)
  show thesis
  proof (cases "map_of members (jc_servers_key c)")
    case None
    with assms JObject show thesis
      by (intro that [of members "[]" "obj_insert (jc_servers_key c) (JObject []) members"])
         (auto simp: json_install_def Let_def map_of_obj_insert members_of_def)
  next
    case (Some v)
    with assms JObject show thesis
      by (cases v) (auto simp: json_install_def Let_def members_of_def split: if_splits intro!: that)
  qed
qed (use assms in \<open>simp_all add: json_install_def\<close>)

lemma json_uninstall_writes:
  assumes "json_uninstall c e doc = Some doc'"
  obtains members servers where "doc = JObject members" and "map_of members (jc_servers_key c) = Some (JObject servers)"
    and "doc' = JObject (obj_insert (jc_servers_key c) (JObject (table_remove (se_name e) servers)) members)"
  using assms by (auto simp: json_uninstall_def split: json.splits option.splits if_splits)

interpretation json_editor: config_editor "json_status exe c" "json_install exe c" "json_uninstall c" "json_rest c" for exe c
proof
  fix e doc doc'
  show "json_install exe c e doc = Inr None \<longleftrightarrow> json_status exe c e doc = Installed"
    unfolding json_status_installed
    by (auto simp: json_install_def json_existing_def Let_def map_of_obj_insert split: json.splits option.splits if_splits
        Option.bind_splits)
  show "json_uninstall c e doc = None \<longleftrightarrow> json_status exe c e doc = NotInstalled"
    by (auto simp: json_uninstall_def json_status_def json_existing_def Let_def split: json.splits option.splits
        Option.bind_splits)
  show "json_install exe c e doc = Inr (Some doc') \<Longrightarrow> json_status exe c e doc' = Installed \<and> json_rest c e doc' = json_rest c e doc"
    unfolding json_status_installed
    by (erule json_install_writes) (simp add: map_of_obj_insert json_rest_def members_of_def)
  show "json_uninstall c e doc = Some doc' \<Longrightarrow> json_status exe c e doc' = NotInstalled \<and> json_rest c e doc' = json_rest c e doc"
    by (erule json_uninstall_writes)
       (simp add: json_status_def map_of_obj_insert json_rest_def members_of_def delete_conv')
qed

definition toml_members :: "toml option \<Rightarrow> string \<Rightarrow> toml option" where
  "toml_members v = (case v of Some (TomlTable t) \<Rightarrow> table_get t | _ \<Rightarrow> (\<lambda>_. None))"

definition codex_rest :: "server_entry \<Rightarrow> (string, toml) table \<Rightarrow> (string \<Rightarrow> toml option) \<times> (string \<Rightarrow> toml option)" where
  "codex_rest e doc =
     ((table_get doc)(SERVERS_TABLE := None), (toml_members (table_get doc SERVERS_TABLE))(se_name e := None))"

text \<open>What is built matches, however often the entry pins a variable.\<close>

lemma collected [simp]: "collect_all (map (toml_str \<circ> TomlString) xs) = Some xs"
  by (induction xs) auto

lemma pinned_env:
  "map_of (foldl (\<lambda>m (k, v). table_insert k (TomlString v) m) (map (apsnd TomlString) m) kvs) =
     map_of (map (apsnd TomlString) (foldl (\<lambda>m (k, v). table_insert k v m) m kvs)) \<and>
   length (foldl (\<lambda>m (k, v). table_insert k (TomlString v) m) (map (apsnd TomlString) m) kvs) =
     length (foldl (\<lambda>m (k, v). table_insert k v m) m kvs)"
proof (induction kvs arbitrary: m)
  case (Cons kv kvs)
  have "table_insert k (TomlString v) (map (apsnd TomlString) m) = map (apsnd TomlString) (table_insert k v m)" for k v
    by (induction m) (auto split: if_splits)
  with Cons show ?case by (cases kv) simp
qed simp

lemma env_map_distinct: "wf_table (env_map e)"
proof -
  have "wf_table m \<Longrightarrow> wf_table (foldl (\<lambda>m (k, v). table_insert k v m) m kvs)" for m :: "(string, string) table" and kvs
    by (induction kvs arbitrary: m) auto
  then show ?thesis by (simp add: env_map_def)
qed

lemma pinned_env_matches:
  "length (foldl (\<lambda>m (k, v). table_insert k (TomlString v) m) [] (se_env e)) = length (env_map e)"
  "list_all (\<lambda>(k, v). Option.bind (table_get (foldl (\<lambda>m (k, v). table_insert k (TomlString v) m) [] (se_env e)) k) toml_str = Some v)
     (env_map e)"
proof -
  note pinned = pinned_env [of "[]" "se_env e", simplified, folded env_map_def]
  show "length (foldl (\<lambda>m (k, v). table_insert k (TomlString v) m) [] (se_env e)) = length (env_map e)"
    using pinned by simp
  have "map_of (map (apsnd TomlString) (env_map e)) k = Some (TomlString v)" if "(k, v) \<in> set (env_map e)" for k v
    using that env_map_distinct [of e] by (auto simp: wf_table_def apsnd_def map_prod_def map_of_map)
  with pinned show "list_all (\<lambda>(k, v). Option.bind (table_get (foldl (\<lambda>m (k, v). table_insert k (TomlString v) m) [] (se_env e)) k)
      toml_str = Some v) (env_map e)" by (auto simp: list_all_iff)
qed

lemma built_matches: "codex_matches exe e (TomlTable (build_entry exe e their))"
proof -
  let ?env = "foldl (\<lambda>m (k, v). table_insert k (TomlString v) m) [] (se_env e)"
  have get: "table_get (build_entry exe e their) ''command'' = Some (TomlString (command exe e))"
    "table_get (build_entry exe e their) ''args'' = Some (TomlArray (map TomlString (arguments e)))"
    "table_get (build_entry exe e their) ''env'' = Some (TomlTable ?env)"
    "table_get (build_entry exe e their) APPROVAL_MODE_KEY = map_option TomlString (wanted_approval_mode e their)"
    by (simp_all add: build_entry_def Let_def table_get_insert APPROVAL_MODE_KEY_def split: option.split)
  show ?thesis
    using pinned_env_matches [of e]
    by (simp add: codex_matches_def get approval_mode_of_def wanted_approval_mode_def)
qed

lemma codex_status_installed:
  "codex_status exe e doc = Installed \<longleftrightarrow> (\<exists>x. codex_existing e doc = Some x \<and> codex_matches exe e x)"
  by (auto simp: codex_status_def codex_matches_def Let_def split: option.splits)

lemma codex_not_installed: "codex_status exe e doc = NotInstalled \<longleftrightarrow> codex_existing e doc = None"
  by (auto simp: codex_status_def Let_def split: option.splits)

lemma codex_install_writes:
  assumes "codex_install exe p e doc = Inr (Some doc')"
  obtains servers doc1 where
    "doc' = table_insert SERVERS_TABLE (TomlTable (table_insert (se_name e)
       (TomlTable (build_entry exe e (Option.bind (codex_existing e doc) approval_mode_of))) servers)) doc1"
    and "table_get servers = toml_members (table_get doc SERVERS_TABLE)"
    and "(table_get doc1)(SERVERS_TABLE := None) = (table_get doc)(SERVERS_TABLE := None)"
proof (cases "table_get doc SERVERS_TABLE")
  case None
  with assms show thesis
    by (intro that [of "[]" "table_insert SERVERS_TABLE (TomlTable []) doc"])
       (auto simp: codex_install_def Let_def table_get_insert toml_members_def codex_existing_def)
next
  case (Some v)
  with assms obtain servers where "v = TomlTable servers" by (cases v) (auto simp: codex_install_def Let_def split: if_splits)
  with assms Some show thesis
    by (intro that [of servers doc]) (auto simp: codex_install_def Let_def toml_members_def split: if_splits)
qed

lemma codex_existing_put [simp]:
  "codex_existing e (table_insert SERVERS_TABLE (TomlTable servers) doc) = table_get servers (se_name e)"
  by (simp add: codex_existing_def table_get_insert)

interpretation codex_editor: config_editor "codex_status exe" "codex_install exe p" codex_uninstall codex_rest for exe p
proof
  fix e doc doc'
  show "codex_install exe p e doc = Inr None \<longleftrightarrow> codex_status exe e doc = Installed"
    unfolding codex_status_installed by (auto simp: codex_install_def Let_def split: option.splits if_splits)
  show "codex_uninstall e doc = None \<longleftrightarrow> codex_status exe e doc = NotInstalled"
  proof (cases "table_get doc SERVERS_TABLE")
    case (Some v)
    then show ?thesis unfolding codex_not_installed by (cases v) (auto simp: codex_uninstall_def codex_existing_def)
  qed (simp add: codex_uninstall_def codex_not_installed codex_existing_def)
  show "codex_install exe p e doc = Inr (Some doc') \<Longrightarrow> codex_status exe e doc' = Installed \<and> codex_rest e doc' = codex_rest e doc"
    unfolding codex_status_installed
    by (erule codex_install_writes) (simp add: built_matches codex_rest_def toml_members_def update_conv')
  show "codex_uninstall e doc = Some doc' \<Longrightarrow> codex_status exe e doc' = NotInstalled \<and> codex_rest e doc' = codex_rest e doc"
    unfolding codex_not_installed
    by (auto simp: codex_uninstall_def codex_rest_def toml_members_def update_conv' delete_conv'
        split: option.splits toml.splits if_splits Option.bind_splits)
qed

section \<open>Properties\<close>

text \<open>
  C13: Installing into a client that keeps its servers in JSON, and uninstalling from it. Wherever the run
  stands and whatever fails: a file that cannot be read is left as it is; any other says what it
  said but for this server's entry, and reads as such; when there is nothing to do nothing is
  written; success means that the client's own check answers so; and an error means that the file is
  as it was. What is written must read back as the document it was printed from.
\<close>

theorem json_edit_settles:
  assumes "file_run um (if add then json_install_prog h c e else json_uninstall_prog h c e) d prog d'"
    and "edits_read_back (ch_json h) (JObject []) (jc_config_path c)
      (if add then json_install (ch_exe h) c e else (\<lambda>doc. Inr (json_uninstall c e doc))) d"
  shows "(case document (ch_json h) (JObject []) (jc_config_path c) d of
      None \<Rightarrow> files d' = files d
    | Some doc \<Rightarrow>
        (\<exists>doc'. document (ch_json h) (JObject []) (jc_config_path c) d' = Some doc' \<and> json_rest c e doc' = json_rest c e doc \<and>
           (prog = Ret (Inr ()) \<longrightarrow> json_status (ch_exe h) c e doc' = (if add then Installed else NotInstalled))) \<and>
        (json_status (ch_exe h) c e doc = (if add then Installed else NotInstalled) \<longrightarrow> files d' = files d)) \<and>
    (\<forall>err. prog = Ret (Inl err) \<longrightarrow> files d' (jc_config_path c) = files d (jc_config_path c))"
proof -
  have edit: "json_editor.edit (ch_exe h) c add e = (if add then json_install (ch_exe h) c e else (\<lambda>doc. Inr (json_uninstall c e doc)))"
    by (auto simp: json_editor.edit_def)
  have run: "file_run um (edit_config (ch_json h) (JObject []) (ch_pid h) (jc_config_path c) (json_editor.edit (ch_exe h) c add e)) d prog d'"
    using assms(1) by (simp add: edit json_install_prog_def json_uninstall_prog_def split: if_splits)
  note settled = json_editor.edit_run [OF run assms(2) [folded edit]]
  show ?thesis using settled unfolding json_editor.goal_def by blast
qed

text \<open>
  The same of Codex: its TOML keeps every other server and setting, and says what was asked for once an
  edit succeeds.
\<close>

theorem codex_edit_settles:
  assumes "file_run um (if add then codex_install_prog h p e else codex_uninstall_prog h p e) d prog d'"
    and "edits_read_back (ch_toml h) [] p (if add then codex_install (ch_exe h) p e else (\<lambda>doc. Inr (codex_uninstall e doc))) d"
  shows "(case document (ch_toml h) [] p d of
      None \<Rightarrow> files d' = files d
    | Some doc \<Rightarrow>
        (\<exists>doc'. document (ch_toml h) [] p d' = Some doc' \<and> codex_rest e doc' = codex_rest e doc \<and>
           (prog = Ret (Inr ()) \<longrightarrow> codex_status (ch_exe h) e doc' = (if add then Installed else NotInstalled))) \<and>
        (codex_status (ch_exe h) e doc = (if add then Installed else NotInstalled) \<longrightarrow> files d' = files d)) \<and>
    (\<forall>err. prog = Ret (Inl err) \<longrightarrow> files d' p = files d p)"
proof -
  have edit: "codex_editor.edit (ch_exe h) p add e = (if add then codex_install (ch_exe h) p e else (\<lambda>doc. Inr (codex_uninstall e doc)))"
    by (auto simp: codex_editor.edit_def)
  have run: "file_run um (edit_config (ch_toml h) [] (ch_pid h) p (codex_editor.edit (ch_exe h) p add e)) d prog d'"
    using assms(1) by (simp add: edit codex_install_prog_def codex_uninstall_prog_def split: if_splits)
  note settled = codex_editor.edit_run [OF run assms(2) [folded edit]]
  show ?thesis using settled unfolding codex_editor.goal_def by blast
qed

text \<open>
  An approval mode is never taken away: what Codex's entry says after an install is what was asked
  for, or else what it said before.
\<close>

lemma approval_kept:
  assumes "codex_install exe p e doc = Inr (Some doc')"
  shows "Option.bind (codex_existing e doc') approval_mode_of =
    (if se_auto_approve e then Some APPROVAL_MODE_AUTO else Option.bind (codex_existing e doc) approval_mode_of)"
proof -
  have "approval_mode_of (TomlTable (build_entry exe e their)) = wanted_approval_mode e their" for their
    by (simp add: approval_mode_of_def build_entry_def Let_def table_get_insert APPROVAL_MODE_KEY_def split: option.split)
  with assms show ?thesis by (elim codex_install_writes) (simp add: wanted_approval_mode_def table_get_insert)
qed

lemma no_empty_address: "parse_remote_addr [] \<noteq> Inr addr"
  by (auto simp: parse_remote_addr_def Let_def rsplit_once_def split_once.simps [of "[CHR '':'']" "[]"])

text \<open>
  What \<open>install --connect\<close> writes is what the binary understands: launched with the arguments of the
  entry, it is a shim to that address and nothing else, provided the author's own arguments do not
  name one of the daemon's flags.
\<close>

theorem installed_shim_dials:
  assumes "parse_remote_addr a = Inr (RemoteAddr a)"
    and "list_all (\<lambda>x. \<not> list_ex (names_flag x) [CONNECT_FLAG, DAEMON_FLAG, FOREGROUND_FLAG, SOCKET_FLAG]) (se_args e @ [a])"
  shows "serve_daemon_from lossy (exe # arguments (with_connect a e)) opts pl sv store = remote_shim (RemoteAddr a)"
proof -
  have skip: "connect_loop None (xs @ [CONNECT_FLAG, a]) = Inr (Some (RemoteAddr a))"
    if "list_all (\<lambda>x. \<not> names_flag x CONNECT_FLAG) xs" for xs
    using that
  proof (induction xs)
    case Nil
    have "a \<noteq> []" using assms(1) no_empty_address by metis
    with assms(1) show ?case by (simp add: accept_value_def)
  next
    case (Cons x xs)
    then have "x \<noteq> CONNECT_FLAG" "strip_prefix (CONNECT_FLAG @ ''='') x = None"
      by (auto simp: names_flag_def starts_with_def)
    with Cons show ?case by (simp del: connect_loop.simps add: connect_loop.simps(2))
  qed
  have plain: "local_flag xs = None" if "list_all (\<lambda>x. \<not> list_ex (names_flag x) [DAEMON_FLAG, FOREGROUND_FLAG, SOCKET_FLAG]) xs" for xs
    using that by (induction xs) (simp_all add: local_flag.simps)
  have "\<not> list_ex (names_flag CONNECT_FLAG) [DAEMON_FLAG, FOREGROUND_FLAG, SOCKET_FLAG]"
    by (simp add: names_flag_def starts_with_def CONNECT_FLAG_def DAEMON_FLAG_def FOREGROUND_FLAG_def SOCKET_FLAG_def)
  with assms(2) have "local_flag (se_args e @ [CONNECT_FLAG, a]) = None"
    by (intro plain) (auto simp: list_all_iff)
  moreover have "connect_loop None (se_args e @ [CONNECT_FLAG, a]) = Inr (Some (RemoteAddr a))"
    using assms(2) by (intro skip) (auto simp: list_all_iff)
  ultimately have "launch_mode (exe # arguments (with_connect a e)) = Inr (ModeRemote (RemoteAddr a))"
    by (simp add: launch_mode_def connect_from_args_def arguments_def with_connect_def)
  then show ?thesis by (simp add: serve_daemon_from_def)
qed

section \<open>Trying them out\<close>

lemma edit_runs:
  assumes "files d p = Some f" and "utf8_valid (f_text f)" and "trim (f_text f) \<noteq> []" and "parse_doc cd (f_text f) = Inr doc"
    and "edit doc = Inr (Some doc')" and "print_doc cd doc' = Inr t" and "parent_of p = Some dir" and "dirs d dir"
  shows "\<exists>d'. file_run um (edit_config cd none pid p edit) d (Ret (Inr ())) d'"
proof -
  from write_succeeds [OF assms(1,7,8)] obtain d' where "file_run um (write_atomically pid p t) d (Ret (Inr ())) d'" by blast
  moreover have "file_step um (edit_config cd none pid p edit) d (write_atomically pid p t) d"
    using read_done [OF assms(1,2), of um "\<lambda>r. case (case (case r of
          Inr contents \<Rightarrow> Inr (if trim contents = [] then None else Some contents)
        | Inl e \<Rightarrow> if raw_os_error e = Some ENOENT then Inr None else Inl (IoFailure e)) of
          Inl e \<Rightarrow> Inl e
        | Inr None \<Rightarrow> Inr none
        | Inr (Some t) \<Rightarrow> (case parse_doc cd t of Inl e \<Rightarrow> Inl (ParseFailure (p @ '': '' @ e)) | Inr doc \<Rightarrow> Inr doc)) of
        Inl e \<Rightarrow> Ret (Inl e)
      | Inr doc \<Rightarrow> (case edit doc of Inl e \<Rightarrow> Ret (Inl e) | Inr None \<Rightarrow> Ret (Inr ()) | Inr (Some doc') \<Rightarrow> write_config cd pid p doc')"]
      assms(3-6)
    by (simp add: edit_config_def read_config_def read_config_text_def write_config_def)
  ultimately show ?thesis by (blast intro: run_front)
qed

lemma check_runs:
  assumes "files d p = Some f" and "utf8_valid (f_text f)" and "trim (f_text f) \<noteq> []" and "parse_doc cd (f_text f) = Inr doc"
  shows "file_step um (check_config cd none p status_in True) d (Ret (status_in doc)) d"
  using read_done [OF assms(1,2), of um "\<lambda>r. Ret (case (case (case r of
        Inr contents \<Rightarrow> Inr (if trim contents = [] then None else Some contents)
      | Inl e \<Rightarrow> if raw_os_error e = Some ENOENT then Inr None else Inl (IoFailure e)) of
        Inl e \<Rightarrow> Inl e
      | Inr None \<Rightarrow> Inr none
      | Inr (Some t) \<Rightarrow> (case parse_doc cd t of Inl e \<Rightarrow> Inl (ParseFailure (p @ '': '' @ e)) | Inr doc \<Rightarrow> Inr doc)) of
      Inl _ \<Rightarrow> NotInstalled | Inr doc \<Rightarrow> status_in doc)"] assms(3,4)
  by (simp add: check_config_def read_config_def read_config_text_def)

text \<open>Codecs that know two texts each.\<close>

definition sample_entry :: server_entry where "sample_entry = new_entry ''m'' [''serve'']"
definition sample_json_client :: json_client where "sample_json_client = new_json_client ''C'' ''c'' ''mcpServers''"

definition two_texts :: "'d \<Rightarrow> 'd \<Rightarrow> 'd codec" where
  "two_texts a b = \<lparr>parse_doc = (\<lambda>t. if t = ''old'' then Inr a else if t = ''new'' then Inr b else Inl ''syntax''),
     print_doc = (\<lambda>d. if d = a then Inr ''old'' else if d = b then Inr ''new'' else Inl ''shape'')\<rparr>"

definition installed_json :: json where
  "installed_json = JObject [(''mcpServers'', JObject [(''m'', json_entry None sample_entry)])]"

definition installed_toml :: "(string, toml) table" where
  "installed_toml = [(SERVERS_TABLE, TomlTable [(''m'', TomlTable (build_entry None sample_entry None))])]"

definition sample_client_host :: client_host where
  "sample_client_host = \<lparr>ch_json = two_texts (JObject []) installed_json, ch_toml = two_texts [] installed_toml,
     ch_exe = None, ch_pid = 7\<rparr>"

lemma two_texts_read_back: "reads_back (two_texts a b) doc"
proof -
  have "utf8_valid ''old''" "utf8_valid ''new''" "trim ''old'' \<noteq> []" "trim ''new'' \<noteq> []" by code_simp+
  then show ?thesis by (auto simp: reads_back_def two_texts_def split: if_splits)
qed

lemma sample_file: "files sample_disk ''c'' = Some \<lparr>f_text = ''old'', f_mode = 384\<rparr>" "parent_of ''c'' = Some []" "dirs sample_disk []"
  "utf8_valid ''old''" "trim ''old'' \<noteq> []"
  by (simp_all add: sample_disk_def parent_of_def) code_simp+

lemma sample_codec:
  "ch_json sample_client_host = two_texts (JObject []) installed_json" "ch_exe sample_client_host = None"
  "parse_doc (two_texts a b) ''old'' = Inr a"
  by (simp_all add: sample_client_host_def two_texts_def)

lemma sample_put: "jc_servers_key c = ''mcpServers'' \<Longrightarrow> json_install None c sample_entry (JObject []) = Inr (Some installed_json)"
  by (simp add: json_install_def installed_json_def sample_entry_def new_entry_def Let_def)

lemma sample_document: "files d p = Some \<lparr>f_text = ''old'', f_mode = m\<rparr> \<Longrightarrow> document (two_texts a b) none p d = Some a"
  using sample_file(4,5) by (simp add: document_def sample_codec del: utf8_valid.simps)

lemma sample_installs:
  assumes "jc_servers_key c = ''mcpServers''" and "files d (jc_config_path c) = Some \<lparr>f_text = ''old'', f_mode = m\<rparr>"
    and "parent_of (jc_config_path c) = Some dir" and "dirs d dir"
  shows "\<exists>d'. file_run um (json_install_prog sample_client_host c sample_entry) d (Ret (Inr ())) d'"
proof -
  have "print_doc (two_texts (JObject []) installed_json) installed_json = Inr ''new''"
    by (simp add: two_texts_def installed_json_def)
  then show ?thesis
    unfolding json_install_prog_def sample_codec
    by (intro edit_runs [where edit = "json_install None c sample_entry" and doc = "JObject []", OF assms(2) _ _ _ sample_put [OF assms(1)] _ assms(3,4)])
       (use sample_file(4,5) in \<open>simp_all add: sample_codec del: utf8_valid.simps\<close>)
qed

theorem json_edit_settles_witness:
  "\<exists>d' doc'. file_run 420 (json_install_prog sample_client_host sample_json_client sample_entry) sample_disk (Ret (Inr ())) d' \<and>
     document (two_texts (JObject []) installed_json) (JObject []) ''c'' d' = Some doc' \<and>
     json_status None sample_json_client sample_entry doc' = Installed"
proof -
  have c: "jc_config_path sample_json_client = ''c''" "jc_servers_key sample_json_client = ''mcpServers''"
    by (simp_all add: sample_json_client_def new_json_client_def)
  obtain d' where run: "file_run 420 (json_install_prog sample_client_host sample_json_client sample_entry) sample_disk (Ret (Inr ())) d'"
    using sample_installs [of sample_json_client] c sample_file by fastforce
  have doc: "document (two_texts (JObject []) installed_json) (JObject []) ''c'' sample_disk = Some (JObject [])"
    using sample_file(1) by (rule sample_document)
  from json_edit_settles [of 420 True, OF _ , of sample_client_host sample_json_client sample_entry sample_disk "Ret (Inr ())" d']
    run doc c sample_codec(1,2)
  show ?thesis by (auto simp: edits_read_back_def two_texts_read_back)
qed

theorem codex_edit_settles_witness:
  "\<exists>d' doc'. file_run 420 (codex_install_prog sample_client_host ''c'' sample_entry) sample_disk (Ret (Inr ())) d' \<and>
     document (two_texts [] installed_toml) [] ''c'' d' = Some doc' \<and> codex_status None sample_entry doc' = Installed"
proof -
  have put: "codex_install None ''c'' sample_entry [] = Inr (Some installed_toml)"
    by (simp add: codex_install_def codex_existing_def installed_toml_def sample_entry_def new_entry_def Let_def table_get_insert)
  have h: "ch_toml sample_client_host = two_texts [] installed_toml" "ch_exe sample_client_host = None"
    by (simp_all add: sample_client_host_def)
  have "\<exists>d'. file_run 420 (codex_install_prog sample_client_host ''c'' sample_entry) sample_disk (Ret (Inr ())) d'"
    unfolding codex_install_prog_def h
    by (rule edit_runs [where edit = "codex_install None ''c'' sample_entry" and doc = "[]", OF sample_file(1) _ _ _ put _ sample_file(2,3)])
       (use sample_file in \<open>simp_all add: two_texts_def installed_toml_def\<close>)
  then obtain d' where run: "file_run 420 (codex_install_prog sample_client_host ''c'' sample_entry) sample_disk (Ret (Inr ())) d'" ..
  have doc: "document (two_texts [] installed_toml) [] ''c'' sample_disk = Some []"
    using sample_file by (simp add: document_def two_texts_def)
  from codex_edit_settles [of 420 True, OF _ , of sample_client_host "''c''" sample_entry sample_disk "Ret (Inr ())" d'] run doc h
  show ?thesis by (auto simp: edits_read_back_def two_texts_read_back)
qed

theorem installed_shim_dials_witness:
  "serve_daemon_from (\<lambda>p. p) (''m'' # arguments (with_connect ''h:1'' sample_entry)) (new_options ''s'') sample_place
     sample_daemon_server (new_store default_task_config) = remote_shim (RemoteAddr ''h:1'')"
proof (rule installed_shim_dials)
  have "show_nat 1 = ''1''" by (subst show_nat.simps) (simp add: digit_char_def, code_simp)
  with parse_uint_show_nat [of "2 ^ 16" 1] have "parse_uint (2 ^ 16) ''1'' = Some 1" by (simp only:) simp
  moreover have "rsplit_once CHR '':'' ''h:1'' = Some (''h'', ''1'')"
    using split_once_append [of "[CHR '':'']" "''1''" "''h''"] by (simp add: rsplit_once_def)
  moreover have "\<not> has_whitespace ''h:1''"
    by (simp add: has_whitespace_def whitespace_encodings_def split_once_None)
  ultimately show "parse_remote_addr ''h:1'' = Inr (RemoteAddr ''h:1'')" by (simp add: parse_remote_addr_def Let_def)
  show "list_all (\<lambda>x. \<not> list_ex (names_flag x) [CONNECT_FLAG, DAEMON_FLAG, FOREGROUND_FLAG, SOCKET_FLAG]) (se_args sample_entry @ [''h:1''])"
    by code_simp
qed

end
