(* ===== verification/Cli_Commands.thy ===== *)
theory Cli_Commands
  imports Clients
begin

text \<open>
  The commands \<open>install\<close> and \<open>uninstall\<close> (\<open>cli/commands.rs\<close>) over the known clients
  (\<open>cli/install/clients.rs\<close>): which clients a command line selects, the loop over them and the report.
  A command is a program over files that ends in its report. Paths are shown as they are. The
  property: a command touches the configurations of the clients it selects, and no other file.
\<close>

section \<open>The clients\<close>

datatype mcp_client = Json_Client json_client | Codex_Client string

fun client_name :: "mcp_client \<Rightarrow> string" where
  "client_name (Json_Client c) = jc_name c"
| "client_name (Codex_Client p) = ''Codex''"

fun config_path :: "mcp_client \<Rightarrow> string" where
  "config_path (Json_Client c) = jc_config_path c"
| "config_path (Codex_Client p) = p"

fun check_existing :: "client_host \<Rightarrow> server_entry \<Rightarrow> mcp_client \<Rightarrow> install_status file_prog" where
  "check_existing h e (Json_Client c) = json_check_prog h c e"
| "check_existing h e (Codex_Client p) = codex_check_prog h p e"

fun install_client :: "client_host \<Rightarrow> server_entry \<Rightarrow> mcp_client \<Rightarrow> (install_error + unit) file_prog" where
  "install_client h e (Json_Client c) = json_install_prog h c e"
| "install_client h e (Codex_Client p) = codex_install_prog h p e"

fun uninstall_client :: "client_host \<Rightarrow> server_entry \<Rightarrow> mcp_client \<Rightarrow> (install_error + unit) file_prog" where
  "uninstall_client h e (Json_Client c) = json_uninstall_prog h c e"
| "uninstall_client h e (Codex_Client p) = codex_uninstall_prog h p e"

text \<open>The name lowercased with spaces hyphenated, and reduced to letters and digits; names are ASCII.\<close>

definition client_slug :: "mcp_client \<Rightarrow> string" where
  "client_slug c = map (\<lambda>x. if x = CHR '' '' then CHR ''-'' else x) (to_ascii_lowercase (client_name c))"

definition squashed :: "string \<Rightarrow> string" where
  "squashed n = to_ascii_lowercase (filter is_ascii_alphanumeric n)"

definition matches_selector :: "mcp_client \<Rightarrow> string \<Rightarrow> bool" where
  "matches_selector c selector =
     (let wanted = squashed selector
      in wanted \<noteq> [] \<and> (squashed (client_name c) = wanted \<or> squashed (client_slug c) = wanted))"

definition with_detect_path :: "string \<Rightarrow> json_client \<Rightarrow> json_client" where
  "with_detect_path p c = c\<lparr>jc_detect_path := Some p\<rparr>"

definition clients_under :: "bool \<Rightarrow> string \<Rightarrow> mcp_client list" where
  "clients_under macos home =
     (let claude_desktop = path_join home (if macos then ''Library/Application Support/Claude/claude_desktop_config.json''
            else ''.config/Claude/claude_desktop_config.json'');
          vscode = path_join home (if macos then ''Library/Application Support/Code/User/mcp.json'' else ''.config/Code/User/mcp.json'')
      in [Json_Client (new_json_client ''Claude Desktop'' claude_desktop ''mcpServers''),
          Json_Client (with_detect_path (path_join home ''.claude'')
            (new_json_client ''Claude Code'' (path_join home ''.claude.json'') ''mcpServers'')),
          Json_Client (new_json_client ''Cursor'' (path_join home ''.cursor/mcp.json'') ''mcpServers''),
          Json_Client (new_json_client ''Windsurf'' (path_join home ''.codeium/windsurf/mcp_config.json'') ''mcpServers''),
          Json_Client (new_json_client ''VS Code'' vscode ''servers''),
          Codex_Client (path_join home ''.codex/config.toml'')])"

text \<open>\<open>home_dir\<close> on the value of \<open>HOME\<close>, and \<open>all_clients\<close>.\<close>

definition home_from :: "string option \<Rightarrow> string option" where
  "home_from v = (case v of Some h \<Rightarrow> if h = [] then None else Some h | None \<Rightarrow> None)"

definition all_clients :: "bool \<Rightarrow> string option \<Rightarrow> mcp_client list" where
  "all_clients macos home_var = (case home_from home_var of None \<Rightarrow> [] | Some home \<Rightarrow> clients_under macos home)"

section \<open>Selecting\<close>

definition selector_error :: "mcp_client list \<Rightarrow> string list \<Rightarrow> string option" where
  "selector_error cs selectors =
     (if cs = [] then None
      else map_option (\<lambda>s. ''unknown client `'' @ s @ ''`. Known clients: '' @ join '', '' (map client_slug cs))
             (find (\<lambda>s. \<not> list_ex (\<lambda>c. matches_selector c s) cs) selectors))"

definition select :: "mcp_client list \<Rightarrow> string list \<Rightarrow> string + mcp_client list" where
  "select cs selectors =
     (if selectors = [] then Inr cs
      else case selector_error cs selectors of
        Some m \<Rightarrow> Inl m
      | None \<Rightarrow> Inr (filter (\<lambda>c. list_ex (matches_selector c) selectors) cs))"

section \<open>The two commands\<close>

datatype outcome = Finished_Well | Went_Wrong | Usage_Wrong

record report =
  rp_text :: string
  rp_outcome :: outcome

definition NL :: string where "NL = [CHR 0x0A]"

definition report_of :: "outcome \<Rightarrow> string \<Rightarrow> report" where
  "report_of oc t = \<lparr>rp_text = (if ends_with NL t then t else t @ NL), rp_outcome = oc\<rparr>"

definition changed_line :: "string \<Rightarrow> install_status \<Rightarrow> string \<Rightarrow> string" where
  "changed_line n st p =
     (case st of
        NeedsUpdate was \<Rightarrow> ''  '' @ n @ '': updated '' @ [CHR 0xE2, CHR 0x80, CHR 0x94] @ '' was pointing at '' @ was @ '' ('' @ p @ '')'' @ NL
      | NeedsRefresh \<Rightarrow> ''  '' @ n @ '': updated ('' @ p @ '')'' @ NL
      | _ \<Rightarrow> ''  '' @ n @ '': configured ('' @ p @ '')'' @ NL)"

definition fallback :: "(json \<Rightarrow> string + string) \<Rightarrow> client_host \<Rightarrow> server_entry \<Rightarrow> string" where
  "fallback pretty h e =
     NL @ ''Add this to your client's MCP configuration by hand:'' @ NL @ NL @ snippet pretty (ch_exe h) e @ NL"

text \<open>What the loop over the clients has come to: the text so far, how many were found and changed.\<close>

record tally =
  tl_text :: string
  tl_detected :: nat
  tl_changed :: nat
  tl_failed :: bool

definition say :: "string \<Rightarrow> tally \<Rightarrow> tally" where
  "say t y = y\<lparr>tl_text := tl_text y @ t\<rparr>"

text \<open>The body of the loop, and the loop.\<close>

definition install_one :: "client_host \<Rightarrow> server_entry \<Rightarrow> mcp_client \<Rightarrow> tally \<Rightarrow> tally file_prog" where
  "install_one h e c y = file_bind (check_existing h e c) (\<lambda>st.
     if st = ClientNotFound then Ret (say (''  '' @ client_name c @ '': not installed'' @ NL) y)
     else let y = y\<lparr>tl_detected := Suc (tl_detected y)\<rparr> in
       if \<not> wants_install st
       then Ret (say (''  '' @ client_name c @ '': up to date ('' @ config_path c @ '')'' @ NL) y)
       else file_bind (install_client h e c) (\<lambda>r. Ret
         (case r of
            Inr _ \<Rightarrow> say (changed_line (client_name c) st (config_path c)) (y\<lparr>tl_changed := Suc (tl_changed y)\<rparr>)
          | Inl err \<Rightarrow> say (''  '' @ client_name c @ '': could not be configured - '' @ show_install_error err @ NL)
              (y\<lparr>tl_failed := True\<rparr>))))"

fun over_clients :: "(mcp_client \<Rightarrow> tally \<Rightarrow> tally file_prog) \<Rightarrow> mcp_client list \<Rightarrow> tally \<Rightarrow> tally file_prog" where
  "over_clients f [] y = Ret y"
| "over_clients f (c # cs) y = file_bind (f c y) (over_clients f cs)"

definition install_summary :: "(json \<Rightarrow> string + string) \<Rightarrow> client_host \<Rightarrow> server_entry \<Rightarrow> bool \<Rightarrow> tally \<Rightarrow> string" where
  "install_summary pretty h e all y =
     NL @
     (if tl_detected y = 0
      then (if all then ''No supported MCP clients detected.'' else ''None of the named MCP clients are installed.'') @ NL @
        fallback pretty h e
      else if 0 < tl_changed y
      then ''Detected '' @ show_nat (tl_detected y) @ '' client(s), changed '' @ show_nat (tl_changed y) @ ''.'' @ NL @
        ''Restart your MCP client to pick up the change.'' @ NL
      else if tl_failed y then ''Detected '' @ show_nat (tl_detected y) @ '' client(s), changed 0.'' @ NL
      else ''Detected '' @ show_nat (tl_detected y) @ '' client(s), all up to date.'' @ NL)"

definition install_command :: "(json \<Rightarrow> string + string) \<Rightarrow> client_host \<Rightarrow> server_entry \<Rightarrow> mcp_client list \<Rightarrow> string list \<Rightarrow> report file_prog" where
  "install_command pretty h e cs selectors =
     (let intro = ''Installing '' @ command (ch_exe h) e @ '' as `'' @ se_name e @ ''`.'' @ NL @ NL in
      if cs = []
      then Ret \<lparr>rp_text = intro @ ''MCP clients: could not look for them - no home directory.'' @ NL @ fallback pretty h e,
                rp_outcome = Went_Wrong\<rparr>
      else case select cs selectors of
        Inl m \<Rightarrow> Ret (report_of Usage_Wrong m)
      | Inr cs \<Rightarrow> file_bind (over_clients (install_one h e) cs
            \<lparr>tl_text = intro @ ''MCP clients:'' @ NL, tl_detected = 0, tl_changed = 0, tl_failed = False\<rparr>) (\<lambda>y.
          Ret \<lparr>rp_text = tl_text y @ install_summary pretty h e (selectors = []) y,
               rp_outcome = (if tl_failed y then Went_Wrong else Finished_Well)\<rparr>))"

text \<open>Here \<open>tl_changed\<close> counts the removals.\<close>

definition uninstall_one :: "client_host \<Rightarrow> server_entry \<Rightarrow> mcp_client \<Rightarrow> tally \<Rightarrow> tally file_prog" where
  "uninstall_one h e c y = file_bind (check_existing h e c) (\<lambda>st.
     if st = ClientNotFound then Ret y
     else file_bind (uninstall_client h e c) (\<lambda>r. Ret
       (case r of
          Inr _ \<Rightarrow>
            if has_entry st
            then say (''  '' @ client_name c @ '': removed ('' @ config_path c @ '')'' @ NL) (y\<lparr>tl_changed := Suc (tl_changed y)\<rparr>)
            else y
        | Inl err \<Rightarrow> say (''  '' @ client_name c @ '': could not be changed - '' @ show_install_error err @ NL)
            (y\<lparr>tl_failed := True\<rparr>))))"

definition uninstall_command :: "client_host \<Rightarrow> server_entry \<Rightarrow> mcp_client list \<Rightarrow> string list \<Rightarrow> report file_prog" where
  "uninstall_command h e cs selectors =
     (if cs = [] then Ret (report_of Went_Wrong ''MCP clients: could not look for them - no home directory.'')
      else case select cs selectors of
        Inl m \<Rightarrow> Ret (report_of Usage_Wrong m)
      | Inr cs \<Rightarrow> file_bind (over_clients (uninstall_one h e) cs
            \<lparr>tl_text = ''Removing `'' @ se_name e @ ''` from MCP clients:'' @ NL, tl_detected = 0, tl_changed = 0, tl_failed = False\<rparr>) (\<lambda>y.
          Ret \<lparr>rp_text = tl_text y @ NL @
                 (if tl_changed y = 0 \<and> \<not> tl_failed y
                  then ''Nothing to remove - no client had an entry for `'' @ se_name e @ ''`.'' @ NL
                  else ''Removed from '' @ show_nat (tl_changed y) @ '' client(s).'' @ NL),
               rp_outcome = (if tl_failed y then Went_Wrong else Finished_Well)\<rparr>))"

section \<open>What a command touches, and what it leaves\<close>

definition footprint :: "nat \<Rightarrow> mcp_client \<Rightarrow> string set" where
  "footprint pid c = {config_path c, backup_path (config_path c), staging_path pid (config_path c)}"

text \<open>The paths a client is detected by.\<close>

fun probes :: "mcp_client \<Rightarrow> string list" where
  "probes (Json_Client c) =
     (case jc_detect_path c of
        Some m \<Rightarrow> [m, jc_config_path c]
      | None \<Rightarrow> jc_config_path c # (case parent_of (jc_config_path c) of None \<Rightarrow> [] | Some dir \<Rightarrow> [dir]))"
| "probes (Codex_Client p) = p # (case parent_of p of None \<Rightarrow> [] | Some dir \<Rightarrow> [dir])"

definition client_detected :: "disk \<Rightarrow> mcp_client \<Rightarrow> bool" where
  "client_detected d c \<longleftrightarrow> list_ex (path_exists d) (probes c)"

definition apart :: "nat \<Rightarrow> mcp_client list \<Rightarrow> bool" where
  "apart pid cs \<longleftrightarrow> distinct cs \<and>
     (\<forall>c \<in> set cs. \<forall>c' \<in> set cs. c \<noteq> c' \<longrightarrow> footprint pid c' \<inter> (insert (config_path c) (set (probes c))) = {})"

text \<open>That a client's own check would say the entry is there and current.\<close>

fun settled :: "client_host \<Rightarrow> server_entry \<Rightarrow> mcp_client \<Rightarrow> disk \<Rightarrow> bool" where
  "settled h e (Json_Client c) d \<longleftrightarrow>
     (\<exists>doc. document (ch_json h) (JObject []) (jc_config_path c) d = Some doc \<and> json_status (ch_exe h) c e doc = Installed)"
| "settled h e (Codex_Client p) d \<longleftrightarrow>
     (\<exists>doc. document (ch_toml h) [] p d = Some doc \<and> codex_status (ch_exe h) e doc = Installed)"

text \<open>
  That the entry was put in from \<open>d0\<close> to \<open>d\<close>, as the text of the configuration; and that the text still has the
  entry when it is read, for the one document there is to write.
\<close>

fun installed_in :: "client_host \<Rightarrow> server_entry \<Rightarrow> mcp_client \<Rightarrow> disk \<Rightarrow> disk \<Rightarrow> bool" where
  "installed_in h e (Json_Client c) d0 d = brought_to Installed (ch_json h) (JObject []) (jc_config_path c)
     (json_status (ch_exe h) c e) (json_install (ch_exe h) c e) d0 d"
| "installed_in h e (Codex_Client p) d0 d = brought_to Installed (ch_toml h) [] p
     (codex_status (ch_exe h) e) (codex_install (ch_exe h) p e) d0 d"

fun entry_survives :: "client_host \<Rightarrow> server_entry \<Rightarrow> mcp_client \<Rightarrow> disk \<Rightarrow> bool" where
  "entry_survives h e (Json_Client c) d0 = stays_in Installed (ch_json h) (JObject []) (jc_config_path c)
     (json_status (ch_exe h) c e) (json_install (ch_exe h) c e) d0"
| "entry_survives h e (Codex_Client p) d0 = stays_in Installed (ch_toml h) [] p
     (codex_status (ch_exe h) e) (codex_install (ch_exe h) p e) d0"

lemma installed_survives: "installed_in h e c d0 d \<Longrightarrow> entry_survives h e c d0 \<Longrightarrow> settled h e c d"
  by (cases c) (simp_all, (rule brought_to_stays; assumption)+)

lemma installed_same:
  "files d0' (config_path c) = files d0 (config_path c) \<Longrightarrow> files d' (config_path c) = files d (config_path c) \<Longrightarrow>
    installed_in h e c d0' d' = installed_in h e c d0 d"
  by (cases c) (simp_all add: brought_to_same [of d0' _ d0 d' d])

lemma settled_idle: "settled h e c d \<Longrightarrow> installed_in h e c d d"
  by (cases c) (auto intro: brought_to_idle)

lemma ever_check_config:
  assumes "I d" and "\<not> there \<Longrightarrow> Q ClientNotFound d" and "there \<Longrightarrow> Q NotInstalled d"
    and "\<And>doc. there \<Longrightarrow> document cd none p d = Some doc \<Longrightarrow> Q (status_in doc) d"
  shows "ever um I Q (check_config cd none p status_in there) d"
proof (cases there)
  case True
  have "ever um I Q (file_bind (read_config cd none p)
      (\<lambda>r. Ret (case r of Inl _ \<Rightarrow> NotInstalled | Inr doc \<Rightarrow> status_in doc))) d"
    by (rule ever_read_config) (use assms True in simp_all)
  with True show ?thesis unfolding check_config_def by (simp only: not_True_eq_False if_False)
qed (use assms in \<open>simp add: check_config_def\<close>)

lemma status_found [simp]: "json_status exe c e doc \<noteq> ClientNotFound" "codex_status exe e table \<noteq> ClientNotFound"
  by (auto simp: json_status_def codex_status_def Let_def split: option.split)

lemma ever_check:
  assumes "I d" and "\<And>st. (st = ClientNotFound \<longleftrightarrow> \<not> client_detected d c) \<Longrightarrow> (st = Installed \<Longrightarrow> settled h e c d) \<Longrightarrow> Q st d"
  shows "ever um I Q (check_existing h e c) d"
proof (cases c)
  case (Json_Client jc)
  have "ever um I Q (check_config (ch_json h) (JObject []) (jc_config_path jc) (json_status (ch_exe h) jc e) there) d"
    if "there \<longleftrightarrow> client_detected d c" for there
    using assms that by (intro ever_check_config) (auto simp: Json_Client)
  then show ?thesis
    using assms(1) Json_Client
    by (auto simp: json_check_prog_def json_detect_def detect_config_def client_detected_def split: option.split)
next
  case (Codex_Client p)
  have "ever um I Q (check_config (ch_toml h) [] p (codex_status (ch_exe h) e) there) d"
    if "there \<longleftrightarrow> client_detected d c" for there
    using assms that by (intro ever_check_config) (auto simp: Codex_Client)
  then show ?thesis
    using assms(1) Codex_Client
    by (auto simp: codex_check_prog_def detect_config_def client_detected_def split: option.split)
qed

lemma ever_install_client:
  "ever um (others_kept (ch_pid h) (config_path c) d)
    (\<lambda>r d'. others_kept (ch_pid h) (config_path c) d d' \<and> (r = Inr () \<longrightarrow> installed_in h e c d d')) (install_client h e c) d"
proof (cases c)
  case (Json_Client jc)
  have edit: "json_editor.edit (ch_exe h) jc True e = json_install (ch_exe h) jc e" by (simp add: json_editor.edit_def fun_eq_iff)
  with Json_Client json_editor.edit_ever [of um "ch_pid h" "jc_config_path jc" d True "ch_json h" "JObject []" "ch_exe h" jc e]
  show ?thesis by (simp add: json_install_prog_def json_editor.goal_def)
next
  case (Codex_Client p)
  have edit: "codex_editor.edit (ch_exe h) p True e = codex_install (ch_exe h) p e" by (simp add: codex_editor.edit_def fun_eq_iff)
  with Codex_Client codex_editor.edit_ever [of um "ch_pid h" p d True "ch_toml h" "[]" "ch_exe h" e p]
  show ?thesis by (simp add: codex_install_prog_def codex_editor.goal_def)
qed

definition framed :: "nat \<Rightarrow> mcp_client list \<Rightarrow> disk \<Rightarrow> disk \<Rightarrow> bool" where
  "framed pid cs d0 d \<longleftrightarrow> (\<forall>q. files d q \<noteq> files d0 q \<longrightarrow> (\<exists>c \<in> set cs. q \<in> footprint pid c)) \<and> dirs d0 \<le> dirs d"

lemma framed_step:
  "framed pid cs d0 d \<Longrightarrow> c \<in> set cs \<Longrightarrow> others_kept pid (config_path c) d d' \<Longrightarrow> dirs d \<le> dirs d' \<Longrightarrow> framed pid cs d0 d'"
  by (auto simp: framed_def others_kept_def footprint_def)

definition as_before :: "disk \<Rightarrow> disk \<Rightarrow> mcp_client \<Rightarrow> bool" where
  "as_before d0 d c \<longleftrightarrow> (\<forall>q \<in> insert (config_path c) (set (probes c)). files d q = files d0 q)"

lemma detected_before: "as_before d0 d c \<Longrightarrow> dirs d0 \<le> dirs d \<Longrightarrow> client_detected d0 c \<Longrightarrow> client_detected d c"
  by (auto simp: as_before_def client_detected_def path_exists_def list_ex_iff le_fun_def)

definition fulfilled :: "client_host \<Rightarrow> server_entry \<Rightarrow> disk \<Rightarrow> disk \<Rightarrow> mcp_client \<Rightarrow> bool" where
  "fulfilled h e d0 d c \<longleftrightarrow> installed_in h e c d0 d \<or> \<not> client_detected d0 c"

text \<open>The books of the loop: what it has touched, and that no failure means every client is done.\<close>

lemma ever_install_one:
  "ever um (\<lambda>d'. others_kept (ch_pid h) (config_path c) d d' \<and> dirs d \<le> dirs d')
      (\<lambda>y' d'. (others_kept (ch_pid h) (config_path c) d d' \<and> dirs d \<le> dirs d') \<and>
        (\<not> tl_failed y' \<longrightarrow> \<not> tl_failed y \<and> (installed_in h e c d d' \<or> \<not> client_detected d c)))
      (install_one h e c y) d"
  unfolding install_one_def ever_bind
proof (rule ever_check)
  show here: "others_kept (ch_pid h) (config_path c) d d \<and> dirs d \<le> dirs d" by (simp add: others_kept_def)
  fix st
  assume found: "st = ClientNotFound \<longleftrightarrow> \<not> client_detected d c" and up: "st = Installed \<Longrightarrow> settled h e c d"
  have change: "ever um (\<lambda>d'. others_kept (ch_pid h) (config_path c) d d' \<and> dirs d \<le> dirs d')
      (\<lambda>r d'. (others_kept (ch_pid h) (config_path c) d d' \<and> dirs d \<le> dirs d') \<and> (r = Inr () \<longrightarrow> installed_in h e c d d'))
      (install_client h e c) d"
    by (rule ever_mono [OF ever_dirs [OF ever_install_client]]) auto
  show "ever um (\<lambda>d'. others_kept (ch_pid h) (config_path c) d d' \<and> dirs d \<le> dirs d')
      (\<lambda>y' d'. (others_kept (ch_pid h) (config_path c) d d' \<and> dirs d \<le> dirs d') \<and>
        (\<not> tl_failed y' \<longrightarrow> \<not> tl_failed y \<and> (installed_in h e c d d' \<or> \<not> client_detected d c)))
      (if st = ClientNotFound then Ret (say (''  '' @ client_name c @ '': not installed'' @ NL) y)
       else let y = y\<lparr>tl_detected := Suc (tl_detected y)\<rparr> in
         if \<not> wants_install st
         then Ret (say (''  '' @ client_name c @ '': up to date ('' @ config_path c @ '')'' @ NL) y)
         else file_bind (install_client h e c) (\<lambda>r. Ret
           (case r of
              Inr _ \<Rightarrow> say (changed_line (client_name c) st (config_path c)) (y\<lparr>tl_changed := Suc (tl_changed y)\<rparr>)
            | Inl err \<Rightarrow> say (''  '' @ client_name c @ '': could not be configured - '' @ show_install_error err @ NL)
                (y\<lparr>tl_failed := True\<rparr>)))) d"
    using found settled_idle [OF up] here
    by (cases st) (auto simp: say_def Let_def intro!: ever_mono [OF change] split: sum.splits)
qed

lemma ever_install_loop:
  assumes "apart (ch_pid h) (ds @ cs)" and "framed (ch_pid h) (ds @ cs) d0 d"
    and "\<forall>c \<in> set cs. as_before d0 d c"
    and "\<not> tl_failed y \<longrightarrow> (\<forall>c \<in> set ds. fulfilled h e d0 d c)"
  shows "ever um (framed (ch_pid h) (ds @ cs) d0)
    (\<lambda>y d. framed (ch_pid h) (ds @ cs) d0 d \<and> (\<not> tl_failed y \<longrightarrow> (\<forall>c \<in> set (ds @ cs). fulfilled h e d0 d c)))
    (over_clients (install_one h e) cs y) d"
  using assms
proof (induction cs arbitrary: ds y d)
  case Nil
  then show ?case by simp
next
  case (Cons c cs)
  let ?all = "ds @ c # cs"
  have here: "as_before d0 d c" "dirs d0 \<le> dirs d" and there: "files d (config_path c) = files d0 (config_path c)"
    using Cons.prems by (auto simp: framed_def as_before_def)
  have kept: "framed (ch_pid h) ?all d0 d'" if "others_kept (ch_pid h) (config_path c) d d'" "dirs d \<le> dirs d'" for d'
    using framed_step [OF Cons.prems(2) _ that] by simp
  have after: "ever um (framed (ch_pid h) ?all d0)
      (\<lambda>y d. framed (ch_pid h) ?all d0 d \<and> (\<not> tl_failed y \<longrightarrow> (\<forall>c \<in> set ?all. fulfilled h e d0 d c)))
      (over_clients (install_one h e) cs y') d'"
    if step: "others_kept (ch_pid h) (config_path c) d d'" "dirs d \<le> dirs d'"
      and ok: "\<not> tl_failed y' \<longrightarrow> \<not> tl_failed y \<and> (installed_in h e c d d' \<or> \<not> client_detected d c)" for y' d'
  proof -
    have same: "as_before d d' c'" if "c' \<in> set (ds @ cs)" for c'
    proof -
      from that Cons.prems(1) have "footprint (ch_pid h) c \<inter> insert (config_path c') (set (probes c')) = {}"
        by (auto simp: apart_def)
      then have "q \<notin> footprint (ch_pid h) c" if "q \<in> insert (config_path c') (set (probes c'))" for q using that by blast
      with step(1) show ?thesis by (simp add: as_before_def others_kept_def footprint_def)
    qed
    have "as_before d0 d' c'" if "c' \<in> set cs" for c'
      using same [of c'] that Cons.prems(3) by (simp add: as_before_def)
    moreover have "fulfilled h e d0 d' c" if "\<not> tl_failed y'"
      using ok that detected_before [OF here] installed_same [OF there refl] by (auto simp: fulfilled_def)
    moreover have "fulfilled h e d0 d' c'" if "\<not> tl_failed y'" "c' \<in> set ds" for c'
      using ok that Cons.prems(4) same [of c'] installed_same [OF refl, of d' c' d h e d0] by (auto simp: fulfilled_def as_before_def)
    ultimately show ?thesis
      using Cons.IH [of "ds @ [c]" d' y'] Cons.prems(1,3) kept [OF step] by simp
  qed
  show ?case
    unfolding over_clients.simps ever_bind
    by (rule ever_mono [OF ever_install_one]) (use kept after in blast)+
qed

section \<open>The clients in a home directory\<close>

text \<open>No client is detected by, or kept in, a file that another's installation writes.\<close>

lemma join_home: "home \<noteq> [] \<Longrightarrow> \<exists>pre. \<forall>p. \<not> starts_with ''/'' p \<longrightarrow> path_join home p = pre @ p"
  by (rule exI [of _ "if ends_with ''/'' home then home else home @ ''/''"]) (simp add: path_join_def)

lemma footprint_extends: "q \<in> footprint pid c \<Longrightarrow> starts_with (config_path c) q"
  by (auto simp: footprint_def backup_path_def staging_path_def starts_with_iff)

lemma starts_with_same: "starts_with (pre @ a) (pre @ b) = starts_with a b"
  by (simp add: starts_with_iff)

lemma starts_with_literal:
  "starts_with (a # as) (b # bs) \<longleftrightarrow> a = b \<and> starts_with as bs" "starts_with [] bs" "\<not> starts_with (a # as) []"
  by (auto simp: starts_with_iff)

text \<open>A place is what a client is kept in and what it is detected by.\<close>

definition place_of_client :: "mcp_client \<Rightarrow> string \<times> string list" where
  "place_of_client c = (config_path c, config_path c # probes c)"

lemma apart_by_prefix:
  assumes "distinct (map fst ps)" and "map place_of_client cs = ps"
    and "list_all (\<lambda>(a, _). list_all (\<lambda>(b, qs). a = b \<or> list_all (\<lambda>q. \<not> starts_with a q) qs) ps) ps"
  shows "apart pid cs"
  unfolding apart_def
proof (intro conjI ballI impI)
  from assms(1,2) have "distinct (map (fst \<circ> place_of_client) cs)" by auto
  then have inj: "distinct cs" "inj_on (fst \<circ> place_of_client) (set cs)" by (simp_all add: distinct_map)
  then show "distinct cs" by simp
  fix c c'
  assume c: "c \<in> set cs" "c' \<in> set cs" "c \<noteq> c'"
  with inj(2) have "config_path c \<noteq> config_path c'" by (auto simp: inj_on_def place_of_client_def)
  moreover have "config_path c' = config_path c \<or> list_all (\<lambda>q. \<not> starts_with (config_path c') q) (config_path c # probes c)"
    using assms(3) c(1,2) unfolding assms(2) [symmetric] by (fastforce simp: list_all_iff place_of_client_def)
  ultimately show "footprint pid c' \<inter> insert (config_path c) (set (probes c)) = {}"
    using footprint_extends [of _ pid c'] by (auto simp: list_all_iff)
qed

lemma known_clients_apart:
  assumes "home \<noteq> []"
  shows "apart pid (clients_under macos home)"
proof -
  from join_home [OF assms] obtain pre where pre: "\<And>p. \<not> starts_with ''/'' p \<Longrightarrow> path_join home p = pre @ p" by blast
  have joined: "path_join home (CHR ''.'' # p) = pre @ CHR ''.'' # p" "path_join home (CHR ''L'' # p) = pre @ CHR ''L'' # p" for p
    by (simp_all add: pre starts_with_def)
  let ?in = "\<lambda>dir file. (pre @ dir @ file, [pre @ dir @ file, pre @ dir @ file, pre @ butlast dir])"
  let ?conf = "if macos then ''Library/Application Support/'' else ''.config/''"
  let ?ps = "[?in (?conf @ ''Claude/'') ''claude_desktop_config.json'',
    (pre @ ''.claude.json'', [pre @ ''.claude.json'', pre @ ''.claude'', pre @ ''.claude.json'']),
    ?in ''.cursor/'' ''mcp.json'', ?in ''.codeium/windsurf/'' ''mcp_config.json'', ?in (?conf @ ''Code/User/'') ''mcp.json'',
    ?in ''.codex/'' ''config.toml'']"
  have places: "map place_of_client (clients_under macos home) = ?ps"
    by (cases macos)
       (simp_all add: place_of_client_def clients_under_def joined Let_def new_json_client_def with_detect_path_def parent_of_def)
  show ?thesis
  proof (rule apart_by_prefix [OF _ places])
    show "distinct (map fst ?ps)" by (cases macos) simp_all
    show "list_all (\<lambda>(a, _). list_all (\<lambda>(b, qs). a = b \<or> list_all (\<lambda>q. \<not> starts_with a q) qs) ?ps) ?ps"
      by (cases macos) (simp_all add: starts_with_same starts_with_literal)
  qed
qed

section \<open>A whole command\<close>

text \<open>
  What \<open>install\<close> does to the machine, whatever fails and wherever it stops: no file changes but the
  configurations of the clients it selected, their backups and their staging files; and if it
  finishes well, every selected client that had been detected has the server in its configuration. The clients must keep to their own files, as the known ones do.
\<close>

lemma install_command_settles:
  assumes "file_run um (install_command pretty h e cs selectors) d prog d'" and "select cs selectors = Inr chosen"
    and "apart (ch_pid h) chosen"
  shows "(\<forall>q. files d' q \<noteq> files d q \<longrightarrow> (\<exists>c \<in> set chosen. q \<in> footprint (ch_pid h) c)) \<and>
    (\<forall>r. prog = Ret r \<and> rp_outcome r = Finished_Well \<longrightarrow>
       (\<forall>c \<in> set chosen. client_detected d c \<longrightarrow> installed_in h e c d d'))"
proof -
  have here: "framed (ch_pid h) chosen d d" by (simp add: framed_def)
  have "as_before d d c" for c by (simp add: as_before_def)
  with assms(3) here have loop: "ever um (framed (ch_pid h) chosen d)
      (\<lambda>y d'. framed (ch_pid h) chosen d d' \<and> (\<not> tl_failed y \<longrightarrow> (\<forall>c \<in> set chosen. fulfilled h e d d' c)))
      (over_clients (install_one h e) chosen y) d" for y
    using ever_install_loop [where h = h and ds = "[]" and cs = chosen and ?d0.0 = d and d = d and e = e and y = y and um = um] by (simp add: list_all_iff)
  have "ever um (framed (ch_pid h) chosen d)
      (\<lambda>r d'. framed (ch_pid h) chosen d d' \<and>
        (rp_outcome r = Finished_Well \<longrightarrow> (\<forall>c \<in> set chosen. fulfilled h e d d' c)))
      (install_command pretty h e cs selectors) d"
    using here assms(2) by (auto simp: install_command_def Let_def intro!: ever_mono [OF loop])
  from ever_run [OF assms(1) this] have "ever um (framed (ch_pid h) chosen d)
      (\<lambda>r d'. framed (ch_pid h) chosen d d' \<and>
        (rp_outcome r = Finished_Well \<longrightarrow> (\<forall>c \<in> set chosen. fulfilled h e d d' c))) prog d'" .
  with ever_now [OF this] show ?thesis by (auto simp: framed_def fulfilled_def)
qed

section \<open>Trying them out\<close>

lemma step_bind: "file_step um c d c' d' \<Longrightarrow> file_step um (file_bind c f) d (file_bind c' f) d'"
  by (induction rule: file_step.induct) (auto intro: file_step.intros)

lemma run_bind: "file_run um c d c' d' \<Longrightarrow> file_run um (file_bind c f) d (file_bind c' f) d'"
  by (induction rule: file_run.induct) (auto intro: file_run.intros step_bind)


text \<open>A client whose configuration is there and says nothing yet, on the sample host.\<close>

definition ready :: "json_client \<Rightarrow> disk \<Rightarrow> bool" where
  "ready c d \<longleftrightarrow> jc_servers_key c = ''mcpServers'' \<and> jc_detect_path c = None \<and>
     (\<exists>m. files d (jc_config_path c) = Some \<lparr>f_text = ''old'', f_mode = m\<rparr>) \<and>
     (\<exists>dir. parent_of (jc_config_path c) = Some dir \<and> dirs d dir)"

lemma sample_check:
  assumes "ready c d"
  shows "file_run um (check_existing sample_client_host sample_entry (Json_Client c)) d (Ret NotInstalled) d"
proof -
  let ?check = "check_config (ch_json sample_client_host) (JObject []) (jc_config_path c) (json_status None c sample_entry)"
  from assms obtain m where there: "files d (jc_config_path c) = Some \<lparr>f_text = ''old'', f_mode = m\<rparr>"
    and plain: "jc_detect_path c = None"
    by (auto simp: ready_def)
  have "file_step um (check_existing sample_client_host sample_entry (Json_Client c)) d (?check True) d"
    using existence_told [of um "jc_config_path c" "\<lambda>there. if there then ?check True
        else case parent_of (jc_config_path c) of None \<Rightarrow> ?check False | Some dir \<Rightarrow> PathExists dir ?check" d] there plain
    by (simp add: json_check_prog_def json_detect_def detect_config_def path_exists_def sample_codec(2))
  moreover have "file_step um (?check True) d (Ret NotInstalled) d"
    using check_runs [OF there, of "ch_json sample_client_host" "JObject []" um "JObject []" "json_status None c sample_entry"] sample_file(4,5)
    by (simp add: sample_codec json_status_def json_existing_def del: utf8_valid.simps)
  ultimately show ?thesis by (blast intro: run_front file_run.run_start)
qed

lemma sample_one:
  assumes "ready c d" and "\<not> tl_failed y"
  shows "\<exists>y' d'. \<not> tl_failed y' \<and> file_run um (install_one sample_client_host sample_entry (Json_Client c) y) d (Ret y') d'"
proof -
  let ?c = "Json_Client c" and ?y = "y\<lparr>tl_detected := Suc (tl_detected y)\<rparr>"
  let ?done = "say (changed_line (client_name ?c) NotInstalled (config_path ?c)) (?y\<lparr>tl_changed := Suc (tl_changed ?y)\<rparr>)"
  obtain d' where installed: "file_run um (install_client sample_client_host sample_entry ?c) d (Ret (Inr ())) d'"
    using sample_installs [of c d] assms(1) unfolding ready_def by fastforce
  have "file_run um (install_one sample_client_host sample_entry ?c y) d (Ret ?done) d'"
    unfolding install_one_def
    by (rule file_run_trans [OF run_bind [OF sample_check [OF assms(1)]]])
       (use run_bind [OF installed, of "\<lambda>r. Ret (case r of
            Inr _ \<Rightarrow> ?done
          | Inl err \<Rightarrow> say (''  '' @ client_name ?c @ '': could not be configured - '' @ show_install_error err @ NL)
              (?y\<lparr>tl_failed := True\<rparr>))"] in \<open>simp add: Let_def\<close>)
  then show ?thesis using assms(2) by (intro exI [of _ ?done] exI [of _ d']) (simp add: say_def)
qed

lemma sample_command:
  assumes "ready c d" and "select cs selectors = Inr [Json_Client c]" and "cs \<noteq> []"
  shows "\<exists>t d'. file_run um (install_command pretty sample_client_host sample_entry cs selectors) d
    (Ret \<lparr>rp_text = t, rp_outcome = Finished_Well\<rparr>) d'"
proof -
  let ?h = sample_client_host and ?e = sample_entry
  define y where "y = \<lparr>tl_text = ''Installing '' @ command (ch_exe ?h) ?e @ '' as `'' @ se_name ?e @ ''`.'' @ NL @ NL @
      ''MCP clients:'' @ NL, tl_detected = 0, tl_changed = 0, tl_failed = False\<rparr>"
  from sample_one [OF assms(1), of y um] obtain y' d' where y': "\<not> tl_failed y'"
    "file_run um (install_one ?h ?e (Json_Client c) y) d (Ret y') d'"
    by (auto simp: y_def)
  from run_bind [OF y'(2), of "over_clients (install_one ?h ?e) []"]
  have "file_run um (over_clients (install_one ?h ?e) [Json_Client c] y) d (Ret y') d'" by simp
  from run_bind [OF this, of "\<lambda>y. Ret \<lparr>rp_text = tl_text y @ install_summary pretty ?h ?e (selectors = []) y,
      rp_outcome = (if tl_failed y then Went_Wrong else Finished_Well)\<rparr>"] y'(1) assms(2,3)
  show ?thesis by (auto simp: install_command_def y_def)
qed

end
