(* ===== verification/Health.thy ===== *)
theory Health
  imports Client_Requests Launch
begin

text \<open>
  The remote health check (\<open>cli/health.rs\<close>): the client's half of a session over a transport, which is
  the \<open>link\<close> of the tool environment: what it will deliver and when, what became of the messages sent,
  and a clock. The properties: the probe vouches only for a peer that answered a handshake and a
  ping, and it vouches for this crate's own server.
\<close>

section \<open>The probe\<close>

definition PROBE_TIMEOUT :: nat where "PROBE_TIMEOUT = 10000"

record probe_report =
  pr_address :: string
  pr_name :: string
  pr_version :: string

definition show_probe_report :: "probe_report \<Rightarrow> string" where
  "show_probe_report r = ''ok - '' @ pr_address r @ '' is serving '' @ pr_name r @ '' '' @ pr_version r"

definition send :: "remote_addr \<Rightarrow> jsonrpc_message \<Rightarrow> string \<Rightarrow> link \<Rightarrow> unit result \<times> link" where
  "send addr m what l =
     (case link_write m l of
        (Inl e, l) \<Rightarrow> (Inl (Internal (addr_text addr @ '' hung up while being sent `'' @ what @ ''`: '' @ show_error e)), l)
      | (Inr _, l) \<Rightarrow> (Inr (), l))"

text \<open>The debug form of a message is a parameter.\<close>

lemma link_read_inbox: "link_read l = (Inr m, l') \<Longrightarrow> \<exists>d. inbox l = (d, Inr m) # inbox l'"
  by (auto simp: link_read_def split: list.splits option.splits if_splits)

function answer :: "(jsonrpc_message \<Rightarrow> string) \<Rightarrow> remote_addr \<Rightarrow> string \<Rightarrow> link \<Rightarrow> json result \<times> link" where
  "answer debug addr what l =
     (let refused = (\<lambda>why. Inl (Internal (addr_text addr @ why))) in
      case link_read l of (r, l') \<Rightarrow>
      case r of
        Inr (Response r) \<Rightarrow>
          (case (rs_result r, rs_error r) of
             (Some v, _) \<Rightarrow> (Inr v, l')
           | (None, Some e) \<Rightarrow> (refused ('' answered `'' @ what @ ''` with an error: '' @ message e), l')
           | (None, None) \<Rightarrow> (Inr JNull, l'))
      | Inr (Notification _) \<Rightarrow> answer debug addr what l'
      | Inr m \<Rightarrow> (refused ('' answered `'' @ what @ ''` with something that is not a response: '' @ debug m), l')
      | Inl TransportClosed \<Rightarrow> (refused ('' hung up before answering `'' @ what @ ''`''), l')
      | Inl (Timeout _) \<Rightarrow> (refused ('' did not answer `'' @ what @ ''` within 10s''), l')
      | Inl e \<Rightarrow> (Inl e, l'))"
  by pat_completeness auto
termination
  by (relation "measure (\<lambda>(_, _, _, l). length (inbox l))") (auto dest!: link_read_inbox [OF sym])

declare answer.simps [simp del]

text \<open>\<open>Value\<close> indexed by a key, and a member as text.\<close>

definition json_index :: "json \<Rightarrow> string \<Rightarrow> json" where
  "json_index v k = (case json_get k v of Some x \<Rightarrow> x | None \<Rightarrow> JNull)"

fun text_or_unknown :: "json \<Rightarrow> string" where
  "text_or_unknown (JString s) = s"
| "text_or_unknown _ = ''?''"

definition probe_initialize :: jsonrpc_message where
  "probe_initialize = request (IdNumber 1) ''initialize'' (Some (jobject
     [(''protocolVersion'', JString PROTOCOL_VERSION), (''capabilities'', jobject []),
      (''clientInfo'', jobject [(''name'', JString ''sml_mcps health''), (''version'', JString ''0.7.3'')])]))"

definition probe_initialized :: jsonrpc_message where
  "probe_initialized = notification ''notifications/initialized'' None"

definition probe_ping :: jsonrpc_message where
  "probe_ping = request (IdNumber 2) ''ping'' None"

definition probe_transport :: "(jsonrpc_message \<Rightarrow> string) \<Rightarrow> remote_addr \<Rightarrow> link \<Rightarrow> probe_report result \<times> link" where
  "probe_transport debug addr l =
     (case set_read_timeout (Some PROBE_TIMEOUT) l of
        (Inl e, l) \<Rightarrow> (Inl e, l)
      | (Inr False, l) \<Rightarrow> (Inl (Internal ''remote health transport must support read deadlines''), l)
      | (Inr True, l) \<Rightarrow>
          (case send addr probe_initialize ''initialize'' l of
             (Inl e, l) \<Rightarrow> (Inl e, l)
           | (Inr _, l) \<Rightarrow>
          (case answer debug addr ''initialize'' l of
             (Inl e, l) \<Rightarrow> (Inl e, l)
           | (Inr handshake, l) \<Rightarrow>
          (case send addr probe_initialized ''initialized'' l of
             (Inl e, l) \<Rightarrow> (Inl e, l)
           | (Inr _, l) \<Rightarrow>
          (case send addr probe_ping ''ping'' l of
             (Inl e, l) \<Rightarrow> (Inl e, l)
           | (Inr _, l) \<Rightarrow>
          (case answer debug addr ''ping'' l of
             (Inl e, l) \<Rightarrow> (Inl e, l)
           | (Inr _, l) \<Rightarrow>
               let info = json_index handshake ''serverInfo''
               in (Inr \<lparr>pr_address = addr_text addr, pr_name = text_or_unknown (json_index info ''name''),
                        pr_version = text_or_unknown (json_index info ''version'')\<rparr>, l)))))))"

section \<open>What the probe has seen\<close>

text \<open>What a transport has delivered between two moments.\<close>

definition delivered :: "jsonrpc_message list \<Rightarrow> link \<Rightarrow> link \<Rightarrow> bool" where
  "delivered ms l l' \<longleftrightarrow> (\<exists>read. inbox l = read @ inbox l' \<and> map snd read = map Inr ms) \<and> sent l' = sent l"

lemma delivered_Nil: "delivered [] l l"
  by (simp add: delivered_def)

lemma delivered_read: "link_read l = (Inr m, l') \<Longrightarrow> delivered [m] l l'"
  by (auto simp: delivered_def link_read_def split: list.splits option.splits if_splits)

lemma delivered_trans: "delivered ms l l1 \<Longrightarrow> delivered ms' l1 l2 \<Longrightarrow> delivered (ms @ ms') l l2"
  unfolding delivered_def by (metis append.assoc map_append)

text \<open>What a response counts for.\<close>

definition response_verdict :: "jsonrpc_response \<Rightarrow> json option" where
  "response_verdict r = (if rs_result r \<noteq> None then rs_result r else if rs_error r = None then Some JNull else None)"

lemma answer_ok:
  "answer debug addr what l = (Inr v, l') \<Longrightarrow>
    \<exists>ns r. delivered (map Notification ns @ [Response r]) l l' \<and> response_verdict r = Some v"
proof (induction debug addr what l arbitrary: l' rule: answer.induct)
  case (1 debug addr what l)
  obtain r l1 where rd: "link_read l = (r, l1)" by fastforce
  note run = "1.prems" [unfolded answer.simps [of debug addr what l] rd Let_def]
  show ?case
  proof (cases r)
    case (Inl e)
    with run show ?thesis by (cases e) auto
  next
    case (Inr m)
    note read = delivered_read [OF rd [unfolded Inr]]
    show ?thesis
    proof (cases m)
      case (Response a)
      with run Inr read show ?thesis
        by (intro exI [of _ "[]"] exI [of _ a]) (auto simp: response_verdict_def split: option.splits)
    next
      case (Notification n)
      with run Inr "1.IH" [OF refl rd [symmetric] Inr Notification] obtain ns a where
        "delivered (map Notification ns @ [Response a]) l1 l'" "response_verdict a = Some v" by auto
      with delivered_trans [OF read this(1)] Notification show ?thesis
        by (intro exI [of _ "n # ns"] exI [of _ a]) simp
    qed (use run Inr in simp)
  qed
qed

lemma send_ok: "send addr m what l = (Inr u, l') \<Longrightarrow> inbox l' = inbox l \<and> sent l' = sent l @ [m]"
  by (auto simp: send_def link_write_def split: sum.splits if_splits list.splits option.splits prod.splits)

lemma deadline_set: "set_read_timeout t l = (r, l') \<Longrightarrow> inbox l' = inbox l \<and> sent l' = sent l"
  by (auto simp: set_read_timeout_def split: if_splits list.splits option.splits)

section \<open>Properties\<close>

text \<open>
  The probe says ok only of a peer that took a handshake, its confirmation and a ping, in this
  order, and delivered, notifications aside, one response and then another, neither of them an
  error; the name and the version reported are those of the first.
\<close>

theorem probe_vouches:
  assumes "probe_transport debug addr l = (Inr report, l')"
  shows "sent l' = sent l @ [probe_initialize, probe_initialized, probe_ping] \<and>
    (\<exists>read ns r ns' r' v v'. inbox l = read @ inbox l' \<and>
       map snd read = map Inr (map Notification ns @ Response r # map Notification ns' @ [Response r']) \<and>
       response_verdict r = Some v \<and> response_verdict r' = Some v' \<and>
       report = \<lparr>pr_address = addr_text addr, pr_name = text_or_unknown (json_index (json_index v ''serverInfo'') ''name''),
         pr_version = text_or_unknown (json_index (json_index v ''serverInfo'') ''version'')\<rparr>)"
proof -
  from assms obtain u1 u2 u3 l0 l1 l2 l3 l4 v v' where
    steps: "set_read_timeout (Some PROBE_TIMEOUT) l = (Inr True, l0)"
      "send addr probe_initialize ''initialize'' l0 = (Inr u1, l1)" "answer debug addr ''initialize'' l1 = (Inr v, l2)"
      "send addr probe_initialized ''initialized'' l2 = (Inr u2, l3)" "send addr probe_ping ''ping'' l3 = (Inr u3, l4)"
      "answer debug addr ''ping'' l4 = (Inr v', l')"
    and report: "report = \<lparr>pr_address = addr_text addr, pr_name = text_or_unknown (json_index (json_index v ''serverInfo'') ''name''),
      pr_version = text_or_unknown (json_index (json_index v ''serverInfo'') ''version'')\<rparr>"
    by (auto simp: probe_transport_def Let_def split: sum.splits bool.splits prod.splits)
  note sends = deadline_set [OF steps(1)] steps(2,4,5) [THEN send_ok]
  from answer_ok [OF steps(3)] obtain ns r where one: "delivered (map Notification ns @ [Response r]) l1 l2" "response_verdict r = Some v" by blast
  from answer_ok [OF steps(6)] obtain ns' r' where two: "delivered (map Notification ns' @ [Response r']) l4 l'" "response_verdict r' = Some v'" by blast
  from one(1) two(1) obtain read read' where
    "inbox l1 = read @ inbox l2" "map snd read = map Inr (map Notification ns @ [Response r])" "sent l2 = sent l1"
    "inbox l4 = read' @ inbox l'" "map snd read' = map Inr (map Notification ns' @ [Response r'])" "sent l' = sent l4"
    by (auto simp: delivered_def)
  then have "inbox l = (read @ read') @ inbox l'" "sent l' = sent l @ [probe_initialize, probe_initialized, probe_ping]"
    "map snd (read @ read') = map Inr (map Notification ns @ Response r # map Notification ns' @ [Response r'])"
    using sends by simp_all
  then show ?thesis using one(2) two(2) report by blast
qed

text \<open>The answers of a server that is given messages one by one.\<close>

fun answers_of :: "host \<Rightarrow> 'c server \<Rightarrow> 'c \<Rightarrow> world \<Rightarrow> jsonrpc_message list \<Rightarrow> jsonrpc_message list option" where
  "answers_of h sv ctx w [] = Some []"
| "answers_of h sv ctx w (m # ms) =
     (case handle_message h sv m ctx w of
        Some (Finished a, sv, ctx, w) \<Rightarrow> map_option (append (case a of Some m \<Rightarrow> [m] | None \<Rightarrow> [])) (answers_of h sv ctx w ms)
      | _ \<Rightarrow> None)"

lemma probe_params: "\<exists>p. initialize_params_of (jobject
     [(''protocolVersion'', JString PROTOCOL_VERSION), (''capabilities'', jobject []),
      (''clientInfo'', jobject [(''name'', JString ''sml_mcps health''), (''version'', JString ''0.7.3'')])]) = Inr p"
  (is "\<exists>p. ?params = Inr p")
proof -
  have "isl ?params = False" by code_simp
  then show ?thesis by (cases ?params) auto
qed

lemma initialize_result_info:
  "json_index (initialize_result_to_value r) ''serverInfo'' = implementation_to_value (ir_server_info r)"
  by (cases "ir_instructions r") (simp_all add: json_index_def initialize_result_to_value_def jopt_def)

lemma implementation_named:
  "json_index (implementation_to_value i) ''name'' = JString (im_name i)"
  "json_index (implementation_to_value i) ''version'' = JString (im_version i)"
  by (cases "im_title i"; cases "im_description i"; cases "im_website_url i";
      simp add: json_index_def implementation_to_value_def jopt_def jlist_def)+

text \<open>A transport that works, on which the answers come in time.\<close>

definition timely :: "jsonrpc_message list \<Rightarrow> link \<Rightarrow> bool" where
  "timely ms l \<longleftrightarrow> honors_deadlines l \<and> arm_errors l = [] \<and> send_errors l = [] \<and> \<not> one_answer l \<and>
     map snd (inbox l) = map Inr ms \<and> list_all (\<lambda>(d, _). d \<le> PROBE_TIMEOUT) (inbox l)"

lemma timely_deadline: "timely ms l \<Longrightarrow> set_read_timeout (Some PROBE_TIMEOUT) l = (Inr True, l\<lparr>read_timeout_armed := Some PROBE_TIMEOUT\<rparr>)"
  by (simp add: timely_def set_read_timeout_def)

lemma timely_send: "timely ms l \<Longrightarrow> send addr m what l = (Inr (), (blocked l)\<lparr>sent := sent l @ [m]\<rparr>)"
  by (simp add: timely_def send_def link_write_def)

lemma timely_update [simp]:
  "timely ms (l\<lparr>sent := ss\<rparr>) = timely ms l" "timely ms (l\<lparr>read_timeout_armed := t\<rparr>) = timely ms l"
  "timely ms (blocked l) = timely ms l"
  by (simp_all add: timely_def)

lemma timely_answer:
  assumes "timely (response i v # ms) l" and "read_timeout_armed l = Some PROBE_TIMEOUT"
  shows "\<exists>l'. answer debug addr what l = (Inr v, l') \<and> timely ms l' \<and> read_timeout_armed l' = Some PROBE_TIMEOUT"
proof -
  from assms(1) obtain d rest where "inbox l = (d, Inr (response i v)) # rest" "d \<le> PROBE_TIMEOUT"
    by (auto simp: timely_def map_eq_Cons_conv)
  with assms(2) have "link_read l = (Inr (response i v), l\<lparr>inbox := rest, link.clock := link.clock l + d\<rparr>)"
    by (simp add: link_read_def)
  then show ?thesis using assms \<open>inbox l = _\<close> by (simp add: answer.simps [of debug addr what l] response_def timely_def)
qed

lemma own_answers:
  assumes "\<not> sv_initialized sv" and "answers_of h sv ctx w [probe_initialize, probe_initialized, probe_ping] = Some answers"
  shows "\<exists>r. answers = [response (IdNumber 1) (initialize_result_to_value r), response (IdNumber 2) (jobject [])] \<and>
    ir_server_info r = server_info sv"
  using assms probe_params
  by (auto simp: probe_initialize_def probe_initialized_def probe_ping_def request_def notification_def handle_message_def
      handle_request_def dispatch_request_def check_initialized_def handle_initialize_def handle_ping_def answer_to_def server_info_def Let_def
      split: if_splits)

text \<open>
  C32: A server of this crate that has not shaken hands yet passes the probe, whatever is registered on it, and is
  reported under the name and version it was configured with.
\<close>

theorem own_server_is_healthy:
  assumes "\<not> sv_initialized sv"
    and "answers_of h sv ctx w [probe_initialize, probe_initialized, probe_ping] = Some answers" and "timely answers l"
  shows "fst (probe_transport debug addr l) = Inr \<lparr>pr_address = addr_text addr,
    pr_name = cfg_name (sv_config sv), pr_version = cfg_version (sv_config sv)\<rparr>"
proof -
  from own_answers [OF assms(1,2)] obtain r where
    answers: "answers = [response (IdNumber 1) (initialize_result_to_value r), response (IdNumber 2) (jobject [])]"
    and info: "ir_server_info r = server_info sv" by blast
  let ?l1 = "(blocked (l\<lparr>read_timeout_armed := Some PROBE_TIMEOUT\<rparr>))\<lparr>sent := sent l @ [probe_initialize]\<rparr>"
  from timely_answer [of "IdNumber 1" _ _ ?l1 debug addr "''initialize''"] assms(3) answers obtain l2 where
    one: "answer debug addr ''initialize'' ?l1 = (Inr (initialize_result_to_value r), l2)"
      "timely [response (IdNumber 2) (jobject [])] l2" "read_timeout_armed l2 = Some PROBE_TIMEOUT" by auto
  let ?l3 = "(blocked l2)\<lparr>sent := sent l2 @ [probe_initialized]\<rparr>"
  let ?l4 = "(blocked ?l3)\<lparr>sent := (sent l2 @ [probe_initialized]) @ [probe_ping]\<rparr>"
  from timely_answer [of "IdNumber 2" _ _ ?l4 debug addr "''ping''"] one(2,3) obtain l5 where
    two: "answer debug addr ''ping'' ?l4 = (Inr (jobject []), l5)" by auto
  show ?thesis
    using assms(3) one two timely_send [of _ "l\<lparr>read_timeout_armed := Some PROBE_TIMEOUT\<rparr>"] timely_send [OF one(2)]
      timely_send [of _ ?l3]
    by (simp add: probe_transport_def timely_deadline Let_def initialize_result_info implementation_named info server_info_def)
qed

text \<open>Neither the id of a response nor the time it takes altogether is looked at.\<close>

lemma chatter_outlasts_deadline:
  "inbox l = replicate n (9000, Inr (Notification m)) @ (0, Inr (response i v)) # rest \<Longrightarrow> read_timeout_armed l = Some PROBE_TIMEOUT \<Longrightarrow>
    answer debug addr what l = (Inr v, l\<lparr>inbox := rest, link.clock := link.clock l + n * 9000\<rparr>)"
proof (induction n arbitrary: l)
  case 0
  then show ?case by (simp add: answer.simps [of debug addr what l] link_read_def response_def)
next
  case (Suc n)
  let ?l = "l\<lparr>inbox := replicate n (9000, Inr (Notification m)) @ (0, Inr (response i v)) # rest, link.clock := link.clock l + 9000\<rparr>"
  have "answer debug addr what l = answer debug addr what ?l"
    using Suc.prems by (simp add: answer.simps [of debug addr what l] link_read_def PROBE_TIMEOUT_def)
  then show ?case using Suc.IH [of ?l] Suc.prems(2) by (simp add: add.assoc)
qed

section \<open>Trying them out\<close>

definition probed_host :: host where
  "probed_host = \<lparr>amb_duration = (\<lambda>_. []), amb_json = (\<lambda>_. []), amb_sched = (\<lambda>_. []), amb_polls = 5,
     h_entropy = (\<lambda>_. replicate 16 0), h_spawn = (\<lambda>_. None), h_nap = (\<lambda>_. 1), h_encode = (\<lambda>s. s),
     h_decode = Some, h_render = (\<lambda>_. []), h_compile = (\<lambda>_. Inl [])\<rparr>"

definition probed_server :: "unit server" where
  "probed_server = new_server ((default_server_config ''3.2.1'')\<lparr>cfg_name := ''probed''\<rparr>)"

definition quick_link :: "jsonrpc_message list \<Rightarrow> link" where
  "quick_link ms = sample_link\<lparr>inbox := map (\<lambda>m. (5, Inr m)) ms, sent := []\<rparr>"

lemma quick_link_timely: "timely ms (quick_link ms)"
  by (simp add: timely_def quick_link_def sample_link_def PROBE_TIMEOUT_def list_all_iff comp_def)

theorem own_server_is_healthy_witness:
  "\<exists>answers. answers_of probed_host probed_server () sample_world [probe_initialize, probe_initialized, probe_ping] = Some answers \<and>
     fst (probe_transport (\<lambda>_. []) (RemoteAddr ''h:1'') (quick_link answers)) =
       Inr \<lparr>pr_address = ''h:1'', pr_name = ''probed'', pr_version = ''3.2.1''\<rparr>"
proof -
  have fresh: "\<not> sv_initialized probed_server" "\<not> cfg_require_initialization (sv_config probed_server)"
    "cfg_name (sv_config probed_server) = ''probed''" "cfg_version (sv_config probed_server) = ''3.2.1''"
    by (simp_all add: probed_server_def new_server_def default_server_config_def)
  obtain answers where "answers_of probed_host probed_server () sample_world [probe_initialize, probe_initialized, probe_ping] = Some answers"
    using probe_params fresh(2)
    by (auto simp: probe_initialize_def probe_initialized_def probe_ping_def request_def notification_def handle_message_def
        handle_request_def dispatch_request_def check_initialized_def handle_initialize_def handle_ping_def Let_def)
  with own_server_is_healthy [OF fresh(1) this quick_link_timely, of "\<lambda>_. []" "RemoteAddr ''h:1''"] fresh(3,4)
  show ?thesis by auto
qed

text \<open>The probe vouches for any pair of responses, such as these two, whose ids it has not asked with.\<close>

theorem probe_vouches_witness:
  "\<exists>report l'. probe_transport (\<lambda>_. []) (RemoteAddr ''h:1'') (quick_link [response IdNull JNull, response (IdNumber 7) JNull]) = (Inr report, l') \<and>
     pr_name report = ''?'' \<and> sent l' = [probe_initialize, probe_initialized, probe_ping]"
proof -
  let ?l = "quick_link [response IdNull JNull, response (IdNumber 7) JNull]"
  have "\<exists>report l'. probe_transport (\<lambda>_. []) (RemoteAddr ''h:1'') ?l = (Inr report, l') \<and> pr_name report = ''?''"
    by (simp add: quick_link_def sample_link_def probe_transport_def set_read_timeout_def send_def link_write_def link_read_def
        answer.simps response_def PROBE_TIMEOUT_def Let_def json_index_def)
  then obtain report l' where run: "probe_transport (\<lambda>_. []) (RemoteAddr ''h:1'') ?l = (Inr report, l')" "pr_name report = ''?''" by blast
  with probe_vouches [OF run(1)] show ?thesis by (simp add: quick_link_def)
qed

end
