(* ===== verification/Cli.thy ===== *)
theory Cli
  imports Cli_Commands Health
begin

text \<open>
  The command line of a server (\<open>cli/mod.rs\<close>): the commands and their help, what a command line asks
  for, and a run of it, act by act: what it prints and complains of, the author's handlers, the files
  the built-in commands edit and the links it opens. A handler is a name for a closure: what it does
  is the world's, its result a branch. Texts are ASCII, so that a width counts characters.
  The properties: help lists exactly the commands that dispatch knows; what \<open>install\<close> writes starts
  the server; and an \<open>install\<close> that exits with success has installed.
\<close>

section \<open>Commands\<close>

record sub_command =
  sub_name :: string
  sub_description :: string
  sub_flags :: "(string \<times> string) list"

definition new_sub_command :: "string \<Rightarrow> string \<Rightarrow> sub_command" where
  "new_sub_command n d = \<lparr>sub_name = n, sub_description = d, sub_flags = []\<rparr>"

definition with_flag :: "string \<Rightarrow> string \<Rightarrow> sub_command \<Rightarrow> sub_command" where
  "with_flag f d c = c\<lparr>sub_flags := sub_flags c @ [(f, d)]\<rparr>"

definition column_width :: "nat list \<Rightarrow> nat" where
  "column_width ns = fold max ns 0 + 4"

definition padded :: "nat \<Rightarrow> string \<Rightarrow> string" where
  "padded n s = s @ replicate (n - length s) CHR '' ''"

definition sub_help :: "string \<Rightarrow> sub_command \<Rightarrow> string" where
  "sub_help program c =
     sub_description c @ NL @ NL @
     (if sub_flags c = [] then ''USAGE: '' @ program @ '' '' @ sub_name c @ NL
      else ''USAGE: '' @ program @ '' '' @ sub_name c @ '' [OPTIONS]'' @ NL @ NL @ ''OPTIONS:'' @ NL @
        (let width = column_width (map (length \<circ> fst) (sub_flags c))
         in concat (map (\<lambda>(f, d). ''    '' @ padded width f @ d @ NL) (sub_flags c))))"

datatype builtin = Install | Uninstall | Serve | Health

fun builtin_command :: "builtin \<Rightarrow> sub_command" where
  "builtin_command Install =
     with_flag ''--connect <host:port>'' ''Point clients at a daemon on another machine, over TCP''
       (with_flag ''--client <name>'' ''Only configure the named client (repeatable)''
         (new_sub_command ''install'' ''Install this server into MCP client configs''))"
| "builtin_command Uninstall =
     with_flag ''--client <name>'' ''Only remove from the named client (repeatable)''
       (new_sub_command ''uninstall'' ''Remove this server from MCP client configs'')"
| "builtin_command Serve = new_sub_command ''serve'' ''Start the MCP server''"
| "builtin_command Health =
     with_flag ''--connect <host:port>'' ''Probe a daemon on another machine instead of checking locally''
       (new_sub_command ''health'' ''Run health checks'')"

text \<open>\<open>'h\<close> names the author's closures.\<close>

record 'h cli =
  cl_entry :: server_entry
  cl_description :: "string option"
  cl_bin_name :: "string option"
  cl_serve :: "'h option"
  cl_health :: "'h option"
  cl_before_install :: "'h option"
  cl_after_uninstall :: "'h option"
  cl_custom :: "(sub_command \<times> 'h) list"
  cl_remote_connector :: "'h option"

definition new_cli :: "server_entry \<Rightarrow> 'h cli" where
  "new_cli e = \<lparr>cl_entry = e, cl_description = None, cl_bin_name = None, cl_serve = None, cl_health = None,
     cl_before_install = None, cl_after_uninstall = None, cl_custom = [], cl_remote_connector = None\<rparr>"

definition add_command :: "sub_command \<Rightarrow> 'h \<Rightarrow> 'h cli \<Rightarrow> 'h cli" where
  "add_command c f cl = cl\<lparr>cl_custom := cl_custom cl @ [(c, f)]\<rparr>"

text \<open>\<open>file_stem\<close> of the module: the file name of a path, without its extension.\<close>

definition path_stem :: "string \<Rightarrow> string option" where
  "path_stem p =
     (let n = rev (takeWhile (\<lambda>c. c \<noteq> CHR ''/'') (trim_tail (rev p)))
      in if n \<in> {[], ''.'', ''..''} then None else Some (file_stem n))"

definition named_by :: "string list \<Rightarrow> 'h cli \<Rightarrow> 'h cli" where
  "named_by argv cl =
     (if cl_bin_name cl = None
      then cl\<lparr>cl_bin_name := (case argv of [] \<Rightarrow> None | p # _ \<Rightarrow> path_stem p)\<rparr> else cl)"

text \<open>What a run reads of its surroundings; \<open>ce_exe\<close> is the path of the running binary.\<close>

record cli_env =
  ce_exe :: "string option"
  ce_home :: "string option"
  ce_macos :: bool
  ce_host :: client_host
  ce_pretty :: "json \<Rightarrow> string + string"
  ce_debug :: "jsonrpc_message \<Rightarrow> string"

definition program :: "cli_env \<Rightarrow> 'h cli \<Rightarrow> string" where
  "program env cl =
     (case cl_bin_name cl of
        Some n \<Rightarrow> n
      | None \<Rightarrow> (case Option.bind (ce_exe env) path_stem of Some n \<Rightarrow> n | None \<Rightarrow> se_name (cl_entry cl)))"

section \<open>Dispatch\<close>

definition command_list :: "'h cli \<Rightarrow> sub_command list" where
  "command_list cl =
     (let builtins = [Install, Uninstall] @ (if cl_serve cl \<noteq> None then [Serve] else []) @ (if cl_health cl \<noteq> None then [Health] else [])
      in filter (\<lambda>b. \<not> list_ex (\<lambda>(c, _). sub_name c = sub_name b) (cl_custom cl)) (map builtin_command builtins) @
         map fst (cl_custom cl))"

definition command_help :: "cli_env \<Rightarrow> 'h cli \<Rightarrow> string \<Rightarrow> string option" where
  "command_help env cl n = map_option (sub_help (program env cl)) (List.find (\<lambda>c. sub_name c = n) (command_list cl))"

definition cli_help :: "cli_env \<Rightarrow> 'h cli \<Rightarrow> string" where
  "cli_help env cl =
     (let p = program env cl; cs = command_list cl; width = column_width (map (length \<circ> sub_name) cs) in
      (case cl_description cl of
         Some d \<Rightarrow> p @ '' '' @ [CHR 0xE2, CHR 0x80, CHR 0x94] @ '' '' @ d @ NL @ NL
       | None \<Rightarrow> p @ NL @ NL) @
      ''USAGE: '' @ p @ '' <COMMAND>'' @ NL @ NL @ ''COMMANDS:'' @ NL @
      concat (map (\<lambda>c. ''    '' @ padded width (sub_name c) @ sub_description c @ NL) cs))"

datatype target = TargetBuiltin builtin | TargetCustom nat

fun position :: "('a \<Rightarrow> bool) \<Rightarrow> 'a list \<Rightarrow> nat option" where
  "position P [] = None"
| "position P (x # xs) = (if P x then Some 0 else map_option Suc (position P xs))"

definition find_command :: "'h cli \<Rightarrow> string \<Rightarrow> target option" where
  "find_command cl n =
     (case position (\<lambda>(c, _). sub_name c = n) (cl_custom cl) of
        Some i \<Rightarrow> Some (TargetCustom i)
      | None \<Rightarrow>
          if n = ''install'' then Some (TargetBuiltin Install)
          else if n = ''uninstall'' then Some (TargetBuiltin Uninstall)
          else if n = ''serve'' \<and> cl_serve cl \<noteq> None then Some (TargetBuiltin Serve)
          else if n = ''health'' \<and> cl_health cl \<noteq> None then Some (TargetBuiltin Health)
          else None)"

datatype plan =
    PlanHelp
  | PlanCommandHelp string
  | PlanBuiltin builtin "string list"
  | PlanCustom nat "string list"
  | PlanUnknown string

definition is_help_flag :: "string \<Rightarrow> bool" where
  "is_help_flag a \<longleftrightarrow> a = ''--help'' \<or> a = ''-h''"

definition is_connect_flag :: "string \<Rightarrow> bool" where
  "is_connect_flag a \<longleftrightarrow> a = CONNECT_FLAG \<or> starts_with (CONNECT_FLAG @ ''='') a"

definition plan_of :: "'h cli \<Rightarrow> string list \<Rightarrow> plan" where
  "plan_of cl args =
     (let bare = se_args (cl_entry cl) = [] \<and> cl_serve cl \<noteq> None in
      case args of
        [] \<Rightarrow> if bare then PlanBuiltin Serve [] else PlanHelp
      | a # rest \<Rightarrow>
          if bare \<and> is_connect_flag a then PlanBuiltin Serve args
          else if is_help_flag a \<or> a = ''help''
          then (case rest of
                  n # _ \<Rightarrow> if find_command cl n \<noteq> None then PlanCommandHelp n else PlanHelp
                | [] \<Rightarrow> PlanHelp)
          else (case find_command cl a of
                  None \<Rightarrow> PlanUnknown a
                | Some t \<Rightarrow>
                    if list_ex is_help_flag rest then PlanCommandHelp a
                    else (case t of TargetBuiltin b \<Rightarrow> PlanBuiltin b rest | TargetCustom i \<Rightarrow> PlanCustom i rest)))"

text \<open>\<open>HarnessArgs::parse\<close>: the selectors, and the address of \<open>--connect\<close>.\<close>

fun selectors_loop :: "string list \<Rightarrow> string + string list" where
  "selectors_loop [] = Inr []"
| "selectors_loop (a # args) =
     (let needs = Inl ''`--client` needs a client name'';
          with_value = (\<lambda>v r. if v = [] then needs else map_sum id (Cons v) r) in
      if a = CONNECT_FLAG then selectors_loop (drop 1 args)
      else if is_connect_flag a then selectors_loop args
      else if a = ''--client''
      then (case args of [] \<Rightarrow> needs | v # args \<Rightarrow> with_value v (selectors_loop args))
      else case strip_prefix ''--client='' a of
        Some v \<Rightarrow> with_value v (selectors_loop args)
      | None \<Rightarrow> Inl (''unknown argument `'' @ a @ ''`''))"

definition parse_harness_args :: "string list \<Rightarrow> string + string list \<times> remote_addr option" where
  "parse_harness_args args =
     (case connect_from_args args of
        Inl e \<Rightarrow> Inl e
      | Inr addr \<Rightarrow> map_sum id (\<lambda>s. (s, addr)) (selectors_loop args))"

section \<open>Running\<close>

datatype exit_code = ExitSuccess | ExitFailure | ExitUsage

text \<open>
  The acts of a run. \<open>OpenLink\<close> is the author's connector or, without one, \<open>RemoteAddr::connect\<close>
  (\<open>Launch.connect_remote\<close>); a link is given with what its far end will do. \<open>BridgeStdio\<close> is
  \<open>Bridge::run\<close> between the standard streams and a link. \<open>Print\<close> and \<open>Complain\<close> are the two streams.
\<close>

datatype 'h cli_run =
    ExitWith exit_code
  | Print string "'h cli_run"
  | Complain string "'h cli_run"
  | CallHandler 'h "string list" "string + unit \<Rightarrow> 'h cli_run"
  | EditFiles "report file_prog" "report \<Rightarrow> 'h cli_run"
  | OpenLink "'h option" remote_addr "link result \<Rightarrow> 'h cli_run"
  | BridgeStdio link "unit result \<Rightarrow> 'h cli_run"

definition finish_with :: "string + unit \<Rightarrow> 'h cli_run" where
  "finish_with r = (case r of Inr _ \<Rightarrow> ExitWith ExitSuccess | Inl e \<Rightarrow> Complain (''error: '' @ e @ NL) (ExitWith ExitFailure))"

definition hook_failure :: "'h option \<Rightarrow> string list \<Rightarrow> (exit_code option \<Rightarrow> 'h cli_run) \<Rightarrow> 'h cli_run" where
  "hook_failure hook args k =
     (case hook of
        None \<Rightarrow> k None
      | Some f \<Rightarrow> CallHandler f args (\<lambda>r. case r of Inr _ \<Rightarrow> k None | Inl e \<Rightarrow> Complain (''error: '' @ e @ NL) (k (Some ExitFailure))))"

definition unknown_command :: "cli_env \<Rightarrow> 'h cli \<Rightarrow> string \<Rightarrow> 'h cli_run" where
  "unknown_command env cl n =
     Complain (''error: unknown command `'' @ n @ ''`'' @ NL) (Complain NL (Complain (cli_help env cl) (ExitWith ExitUsage)))"

definition usage_error :: "cli_env \<Rightarrow> 'h cli \<Rightarrow> string \<Rightarrow> string \<Rightarrow> 'h cli_run" where
  "usage_error env cl m n =
     Complain (''error: '' @ m @ NL)
       (case command_help env cl n of
          Some t \<Rightarrow> Complain NL (Complain t (ExitWith ExitUsage))
        | None \<Rightarrow> ExitWith ExitUsage)"

text \<open>\<open>Cli::report\<close>, which hands its exit code on.\<close>

definition give_report :: "report \<Rightarrow> (exit_code \<Rightarrow> 'h cli_run) \<Rightarrow> 'h cli_run" where
  "give_report r k =
     (case rp_outcome r of
        Finished_Well \<Rightarrow> Print (rp_text r) (k ExitSuccess)
      | Went_Wrong \<Rightarrow> Print (rp_text r) (k ExitFailure)
      | Usage_Wrong \<Rightarrow> Complain (''error: '' @ rp_text r) (k ExitUsage))"

definition known_clients :: "cli_env \<Rightarrow> mcp_client list" where
  "known_clients env = all_clients (ce_macos env) (ce_home env)"

definition with_address :: "remote_addr option \<Rightarrow> server_entry \<Rightarrow> server_entry" where
  "with_address addr e = (case addr of Some a \<Rightarrow> with_connect (addr_text a) e | None \<Rightarrow> e)"

definition cli_install :: "cli_env \<Rightarrow> 'h cli \<Rightarrow> string list \<Rightarrow> 'h cli_run" where
  "cli_install env cl args =
     (case parse_harness_args args of
        Inl m \<Rightarrow> usage_error env cl m ''install''
      | Inr (selectors, addr) \<Rightarrow>
          (let clients = known_clients env in
           case selector_error clients selectors of
             Some m \<Rightarrow> give_report (report_of Usage_Wrong m) ExitWith
           | None \<Rightarrow> hook_failure (cl_before_install cl) args (\<lambda>failed. case failed of
                 Some failure \<Rightarrow> ExitWith failure
               | None \<Rightarrow>
                   EditFiles (install_command (ce_pretty env) (ce_host env) (with_address addr (cl_entry cl)) clients selectors)
                     (\<lambda>r. give_report r ExitWith))))"

definition cli_uninstall :: "cli_env \<Rightarrow> 'h cli \<Rightarrow> string list \<Rightarrow> 'h cli_run" where
  "cli_uninstall env cl args =
     (case parse_harness_args args of
        Inl m \<Rightarrow> usage_error env cl m ''uninstall''
      | Inr (selectors, _) \<Rightarrow>
          (let clients = known_clients env in
           case selector_error clients selectors of
             Some m \<Rightarrow> give_report (report_of Usage_Wrong m) ExitWith
           | None \<Rightarrow>
               EditFiles (uninstall_command (ce_host env) (cl_entry cl) clients selectors) (\<lambda>r. give_report r (\<lambda>removals.
                 hook_failure (cl_after_uninstall cl) args (\<lambda>failed.
                   ExitWith (case failed of Some failure \<Rightarrow> failure | None \<Rightarrow> removals))))))"

definition cli_health :: "cli_env \<Rightarrow> 'h cli \<Rightarrow> 'h \<Rightarrow> string list \<Rightarrow> 'h cli_run" where
  "cli_health env cl f args =
     (case connect_from_args args of
        Inr (Some addr) \<Rightarrow> OpenLink (cl_remote_connector cl) addr (\<lambda>l.
          case (case l of Inl e \<Rightarrow> Inl e | Inr l \<Rightarrow> fst (probe_transport (ce_debug env) addr l)) of
            Inr r \<Rightarrow> Print (show_probe_report r @ NL) (finish_with (Inr ()))
          | Inl e \<Rightarrow> finish_with (Inl (show_error e)))
      | Inr None \<Rightarrow> CallHandler f args finish_with
      | Inl m \<Rightarrow> usage_error env cl m ''health'')"

text \<open>\<open>serve\<close>, when a connector is given: to a remote daemon if the line names one.\<close>

definition cli_serve :: "cli_env \<Rightarrow> 'h cli \<Rightarrow> string list \<Rightarrow> 'h cli_run" where
  "cli_serve env cl args =
     (let locally = (case cl_serve cl of Some f \<Rightarrow> CallHandler f args finish_with | None \<Rightarrow> unknown_command env cl ''serve'') in
      case cl_remote_connector cl of
        None \<Rightarrow> locally
      | Some connector \<Rightarrow>
          (case connect_from_args args of
             Inl m \<Rightarrow> usage_error env cl m ''serve''
           | Inr None \<Rightarrow> locally
           | Inr (Some addr) \<Rightarrow>
               if list_ex (\<lambda>a. a \<in> {''--daemon'', ''--foreground'', ''--socket''} \<or> starts_with ''--socket='' a) args
               then usage_error env cl ''--connect cannot be combined with daemon or socket flags'' ''serve''
               else OpenLink (Some connector) addr (\<lambda>l.
                 case l of
                   Inl e \<Rightarrow> finish_with (Inl (show_error e))
                 | Inr l \<Rightarrow> BridgeStdio l (\<lambda>r. finish_with (case r of Inl e \<Rightarrow> Inl (show_error e) | Inr _ \<Rightarrow> Inr ())))))"

definition run_plan :: "cli_env \<Rightarrow> 'h cli \<Rightarrow> plan \<Rightarrow> 'h cli_run" where
  "run_plan env cl p =
     (case p of
        PlanHelp \<Rightarrow> Print (cli_help env cl) (ExitWith ExitSuccess)
      | PlanCommandHelp n \<Rightarrow>
          (case command_help env cl n of Some t \<Rightarrow> Print t (ExitWith ExitSuccess) | None \<Rightarrow> unknown_command env cl n)
      | PlanBuiltin Install args \<Rightarrow> cli_install env cl args
      | PlanBuiltin Uninstall args \<Rightarrow> cli_uninstall env cl args
      | PlanBuiltin Serve args \<Rightarrow> cli_serve env cl args
      | PlanBuiltin Health args \<Rightarrow>
          (case cl_health cl of Some f \<Rightarrow> cli_health env cl f args | None \<Rightarrow> unknown_command env cl ''health'')
      | PlanCustom i args \<Rightarrow> CallHandler (snd (cl_custom cl ! i)) args finish_with
      | PlanUnknown n \<Rightarrow> unknown_command env cl n)"

definition run_from :: "cli_env \<Rightarrow> 'h cli \<Rightarrow> string list \<Rightarrow> 'h cli_run" where
  "run_from env cl argv = (let cl = named_by argv cl in run_plan env cl (plan_of cl (drop 1 argv)))"

section \<open>What runs do\<close>

text \<open>\<open>Called\<close> says what became of a handler, and the disk it left.\<close>

datatype 'h cli_event =
    Printed string
  | Complained string
  | Called 'h "string list" "string + unit" disk
  | Touched
  | Opened remote_addr
  | Bridged

inductive cli_does :: "nat \<Rightarrow> 'h cli_run \<Rightarrow> disk \<Rightarrow> 'h cli_event list \<Rightarrow> 'h cli_run \<Rightarrow> disk \<Rightarrow> bool" for um where
  stopped: "cli_does um c d [] c d"
| prints: "cli_does um c d es c' d' \<Longrightarrow> cli_does um (Print t c) d (Printed t # es) c' d'"
| complains: "cli_does um c d es c' d' \<Longrightarrow> cli_does um (Complain t c) d (Complained t # es) c' d'"
| calls: "cli_does um (k r) d1 es c' d' \<Longrightarrow> cli_does um (CallHandler f args k) d (Called f args r d1 # es) c' d'"
| edits: "file_step um p d p1 d1 \<Longrightarrow> cli_does um (EditFiles p1 k) d1 es c' d' \<Longrightarrow> cli_does um (EditFiles p k) d (Touched # es) c' d'"
| edited: "cli_does um (k r) d es c' d' \<Longrightarrow> cli_does um (EditFiles (Ret r) k) d es c' d'"
| opens: "cli_does um (k l) d es c' d' \<Longrightarrow> cli_does um (OpenLink f a k) d (Opened a # es) c' d'"
| bridges: "cli_does um (k r) d es c' d' \<Longrightarrow> cli_does um (BridgeStdio l k) d (Bridged # es) c' d'"

inductive_simps cli_does_simps [simp]:
  "cli_does um (ExitWith x) d es c' d'"
  "cli_does um (Print t c) d es c' d'"
  "cli_does um (Complain t c) d es c' d'"
  "cli_does um (CallHandler f args k) d es c' d'"
  "cli_does um (OpenLink f a k) d es c' d'"
  "cli_does um (BridgeStdio l k) d es c' d'"

lemma edit_course:
  assumes "cli_does um (EditFiles p k) d es c' d'"
  obtains (during) n p1 where "es = replicate n Touched" "c' = EditFiles p1 k" "file_run um p d p1 d'"
  | (after) n r d1 es' where "es = replicate n Touched @ es'" "file_run um p d (Ret r) d1" "cli_does um (k r) d1 es' c' d'"
proof -
  have "(\<exists>n p1. es = replicate n Touched \<and> c' = EditFiles p1 k \<and> file_run um p d p1 d') \<or>
      (\<exists>n r d1 es'. es = replicate n Touched @ es' \<and> file_run um p d (Ret r) d1 \<and> cli_does um (k r) d1 es' c' d')"
    using assms
  proof (induction "EditFiles p k" d es c' d' arbitrary: p rule: cli_does.induct)
    case (stopped d)
    then show ?case by (intro disjI1 exI [of _ 0] exI [of _ p]) (simp add: file_run.run_start)
  next
    case (edits p d p1 d1 es c' d')
    from edits(3) show ?case
    proof
      assume "\<exists>n p2. es = replicate n Touched \<and> c' = EditFiles p2 k \<and> file_run um p1 d1 p2 d'"
      then obtain n p2 where "es = replicate n Touched" "c' = EditFiles p2 k" "file_run um p1 d1 p2 d'" by blast
      with run_front [OF edits(1)] show ?case by (intro disjI1 exI [of _ "Suc n"] exI [of _ p2]) simp
    next
      assume "\<exists>n r d2 es'. es = replicate n Touched @ es' \<and> file_run um p1 d1 (Ret r) d2 \<and> cli_does um (k r) d2 es' c' d'"
      then obtain n r d2 es' where "es = replicate n Touched @ es'" "file_run um p1 d1 (Ret r) d2" "cli_does um (k r) d2 es' c' d'" by blast
      with run_front [OF edits(1)] show ?case by (intro disjI2 exI [of _ "Suc n"] exI [of _ r] exI [of _ d2] exI [of _ es']) simp
    qed
  next
    case (edited r d es c' d')
    then show ?case by (intro disjI2 exI [of _ 0] exI [of _ r] exI [of _ d] exI [of _ es]) (simp add: file_run.run_start)
  qed
  with during after show thesis by blast
qed

section \<open>Names and plans\<close>

lemma named_by_fields [simp]:
  "cl_entry (named_by argv cl) = cl_entry cl" "cl_serve (named_by argv cl) = cl_serve cl" "cl_health (named_by argv cl) = cl_health cl"
  "cl_custom (named_by argv cl) = cl_custom cl" "cl_remote_connector (named_by argv cl) = cl_remote_connector cl"
  "cl_before_install (named_by argv cl) = cl_before_install cl" "cl_after_uninstall (named_by argv cl) = cl_after_uninstall cl"
  by (simp_all add: named_by_def)

lemma find_named_by [simp]: "find_command (named_by argv cl) = find_command cl"
  by (rule ext) (simp only: find_command_def named_by_fields)

lemma position_None: "position P xs = None \<longleftrightarrow> \<not> list_ex P xs"
  by (induction xs) auto

lemma position_Some: "position P xs = Some i \<Longrightarrow> i < length xs \<and> P (xs ! i)"
  by (induction xs arbitrary: i) (auto split: if_splits)

lemma find_None: "List.find P xs = None \<longleftrightarrow> \<not> list_ex P xs"
  by (induction xs) auto

lemma builtin_names [simp]: "sub_name (builtin_command Install) = ''install''" "sub_name (builtin_command Uninstall) = ''uninstall''"
  "sub_name (builtin_command Serve) = ''serve''" "sub_name (builtin_command Health) = ''health''"
  by (simp_all add: with_flag_def new_sub_command_def)

lemma list_ex_filter: "(\<And>x. P x \<Longrightarrow> Q x) \<Longrightarrow> list_ex P (filter Q xs) = list_ex P xs"
  by (induction xs) auto

lemma listed_names: "list_ex (\<lambda>c. sub_name c = n) (command_list cl) \<longleftrightarrow> find_command cl n \<noteq> None"
proof (cases "list_ex (\<lambda>(c, _). sub_name c = n) (cl_custom cl)")
  case True
  then have "list_ex (\<lambda>c. sub_name c = n) (map fst (cl_custom cl))" by (simp add: list_ex_iff case_prod_unfold)
  moreover from True have "find_command cl n \<noteq> None"
    by (cases "position (\<lambda>(c, _). sub_name c = n) (cl_custom cl)") (simp_all add: find_command_def position_None)
  ultimately show ?thesis by (simp add: command_list_def Let_def)
next
  case False
  then have "\<not> list_ex (\<lambda>c. sub_name c = n) (map fst (cl_custom cl))" by (auto simp: list_ex_iff)
  moreover have "list_ex (\<lambda>c. sub_name c = n) (filter (\<lambda>b. \<not> list_ex (\<lambda>(c, _). sub_name c = sub_name b) (cl_custom cl)) bs)
      = list_ex (\<lambda>c. sub_name c = n) bs" for bs
    using False by (intro list_ex_filter) auto
  ultimately have "list_ex (\<lambda>c. sub_name c = n) (command_list cl) \<longleftrightarrow> list_ex (\<lambda>c. sub_name c = n) (map builtin_command
      ([Install, Uninstall] @ (if cl_serve cl \<noteq> None then [Serve] else []) @ (if cl_health cl \<noteq> None then [Health] else [])))"
    by (simp only: command_list_def Let_def list_ex_append simp_thms)
  moreover from False have "position (\<lambda>(c, _). sub_name c = n) (cl_custom cl) = None" by (simp only: position_None not_False_eq_True)
  then have "find_command cl n \<noteq> None \<longleftrightarrow> n = ''install'' \<or> n = ''uninstall'' \<or> n = ''serve'' \<and> cl_serve cl \<noteq> None \<or>
      n = ''health'' \<and> cl_health cl \<noteq> None"
    by (simp add: find_command_def)
  ultimately show ?thesis by (auto simp del: builtin_command.simps)
qed

lemma found_custom:
  assumes "find_command cl m = Some (TargetCustom i)"
  shows "i < length (cl_custom cl)" "sub_name (fst (cl_custom cl ! i)) = m"
proof -
  have "position (\<lambda>(c, _). sub_name c = m) (cl_custom cl) = Some i"
    using assms by (simp add: find_command_def split: option.splits if_splits)
  from position_Some [OF this] show "i < length (cl_custom cl)" "sub_name (fst (cl_custom cl ! i)) = m"
    by (simp_all add: case_prod_unfold)
qed

text \<open>
  Help and dispatch agree: a name is dispatched exactly when the list of commands has it, which is when it
  has a help screen; a plan to show a command's help names a command that has one, and a plan to run
  a command of the author's is one of that name.
\<close>

theorem help_matches_dispatch:
  "(find_command cl n \<noteq> None \<longleftrightarrow> n \<in> sub_name ` set (command_list cl)) \<and>
   (find_command cl n \<noteq> None \<longleftrightarrow> command_help env cl n \<noteq> None) \<and>
   (case plan_of cl args of
      PlanCommandHelp m \<Rightarrow> command_help env cl m \<noteq> None
    | PlanCustom i rest \<Rightarrow> i < length (cl_custom cl) \<and> args = sub_name (fst (cl_custom cl ! i)) # rest
    | PlanUnknown m \<Rightarrow> command_help env cl m = None
    | _ \<Rightarrow> True)"
proof -
  have helped: "command_help env cl n = None \<longleftrightarrow> find_command cl n = None" for n
    using listed_names [of n cl] by (simp add: command_help_def find_None)
  have "n \<in> sub_name ` set (command_list cl) \<longleftrightarrow> find_command cl n \<noteq> None"
    unfolding listed_names [symmetric] by (auto simp: list_ex_iff)
  moreover have "case plan_of cl args of
      PlanCommandHelp m \<Rightarrow> command_help env cl m \<noteq> None
    | PlanCustom i rest \<Rightarrow> i < length (cl_custom cl) \<and> args = sub_name (fst (cl_custom cl ! i)) # rest
    | PlanUnknown m \<Rightarrow> command_help env cl m = None
    | _ \<Rightarrow> True"
  proof (cases args)
    case (Cons a rest)
    show ?thesis
    proof (cases "find_command cl a")
      case None
      with Cons helped show ?thesis by (cases rest) (simp_all add: plan_of_def Let_def)
    next
      case (Some t)
      with Cons helped found_custom [of cl a] show ?thesis
        by (cases t; cases rest) (simp_all add: plan_of_def Let_def)
    qed
  qed (simp add: plan_of_def)
  ultimately show ?thesis using helped by simp
qed

lemma serve_found:
  assumes "cl_serve cl = Some f" and "\<not> list_ex (\<lambda>(c, _). sub_name c = ''serve'') (cl_custom cl)"
  shows "find_command cl ''serve'' = Some (TargetBuiltin Serve)"
  using assms by (simp add: find_command_def position_None [THEN iffD2])

lemma not_help: "parse_remote_addr v = Inr a \<Longrightarrow> \<not> is_help_flag v"
proof -
  have "rsplit_once CHR '':'' ''--help'' = None" "rsplit_once CHR '':'' ''-h'' = None" by code_simp+
  then show "parse_remote_addr v = Inr a \<Longrightarrow> \<not> is_help_flag v"
    by (auto simp: is_help_flag_def parse_remote_addr_def Let_def split: if_splits)
qed

text \<open>
  C33: What \<open>install\<close> writes starts the server. For a program with a \<open>serve\<close> of its own whose entry takes no
  arguments, or just \<open>serve\<close>: launched with the arguments of the entry that an install line makes, it
  calls that \<open>serve\<close> with nothing, or with the address to dial; with a connector it dials itself.
\<close>

theorem installed_entry_serves:
  assumes "cl_serve cl = Some f" and "\<not> list_ex (\<lambda>(c, _). sub_name c = ''serve'') (cl_custom cl)"
    and "se_args (cl_entry cl) = [] \<or> se_args (cl_entry cl) = [''serve'']" and "se_connect (cl_entry cl) = None"
    and "parse_harness_args line = Inr (selectors, addr)" and "\<And>a. addr = Some a \<Longrightarrow> \<not> starts_with ''--socket='' (addr_text a)"
  shows "run_from env cl (exe # arguments (with_address addr (cl_entry cl))) =
    (case addr of
       None \<Rightarrow> CallHandler f [] finish_with
     | Some a \<Rightarrow>
         (case cl_remote_connector cl of
            None \<Rightarrow> CallHandler f [CONNECT_FLAG, addr_text a] finish_with
          | Some connector \<Rightarrow> OpenLink (Some connector) a (\<lambda>l.
              case l of
                Inl e \<Rightarrow> finish_with (Inl (show_error e))
              | Inr l \<Rightarrow> BridgeStdio l (\<lambda>r. finish_with (case r of Inl e \<Rightarrow> Inl (show_error e) | Inr _ \<Rightarrow> Inr ())))))"
proof -
  let ?cl = "named_by (exe # arguments (with_address addr (cl_entry cl))) cl"
  have same: "cl_entry ?cl = cl_entry cl" "cl_serve ?cl = Some f" "cl_remote_connector ?cl = cl_remote_connector cl"
    "find_command ?cl ''serve'' = Some (TargetBuiltin Serve)"
    using assms(1) serve_found [OF assms(1,2)] by simp_all
  have plain: "\<not> is_help_flag ''serve''" "\<not> is_help_flag CONNECT_FLAG" "is_connect_flag CONNECT_FLAG" "CONNECT_FLAG \<noteq> ''help''"
    by (simp_all add: is_help_flag_def is_connect_flag_def CONNECT_FLAG_def)
  show ?thesis
  proof (cases addr)
    case None
    then have "plan_of ?cl (arguments (with_address addr (cl_entry cl))) = PlanBuiltin Serve []"
      using assms(3,4) same by (auto simp: plan_of_def arguments_def with_address_def is_help_flag_def is_connect_flag_def starts_with_def CONNECT_FLAG_def)
    with None same show ?thesis
      by (auto simp: run_from_def run_plan_def cli_serve_def connect_from_args_def Let_def split: option.split)
  next
    case (Some a)
    from assms(5) Some have "connect_from_args line = Inr (Some a)"
      by (cases "connect_from_args line"; cases "selectors_loop line") (auto simp: parse_harness_args_def)
    then obtain v where v: "a = RemoteAddr v" "parse_remote_addr v = Inr a"
      using connect_loop_some [of None line a] by (auto simp: connect_from_args_def)
    have "plan_of ?cl (arguments (with_address addr (cl_entry cl))) = PlanBuiltin Serve [CONNECT_FLAG, v]"
      using assms(3) same Some v(1) plain not_help [OF v(2)]
      by (auto simp: plan_of_def arguments_def with_address_def with_connect_def)
    moreover have "connect_from_args [CONNECT_FLAG, v] = Inr (Some a)"
      using v no_empty_address [of a] by (auto simp: connect_from_args_def accept_value_def)
    moreover have "rsplit_once CHR '':'' ''--daemon'' = None" "rsplit_once CHR '':'' ''--foreground'' = None"
      "rsplit_once CHR '':'' ''--socket'' = None" by code_simp+
    then have "v \<notin> {''--daemon'', ''--foreground'', ''--socket''}"
      using v(2) by (auto simp: parse_remote_addr_def Let_def split: if_splits)
    moreover have "\<not> starts_with ''--socket='' v" using assms(6) Some v(1) by simp
    moreover have "CONNECT_FLAG \<notin> {''--daemon'', ''--foreground'', ''--socket''}" "\<not> starts_with ''--socket='' CONNECT_FLAG"
      by (simp_all add: CONNECT_FLAG_def starts_with_def)
    ultimately show ?thesis
      using Some same v(1) by (simp add: run_from_def run_plan_def cli_serve_def Let_def split: option.split)
  qed
qed

section \<open>What a run of install comes to\<close>

lemma usage_error_ends: "cli_does um (usage_error env cl m n) d es c' d' \<Longrightarrow>
    d' = d \<and> (\<forall>e \<in> set es. \<exists>t. e = Complained t) \<and> c' \<noteq> ExitWith ExitSuccess \<and> c' \<noteq> ExitWith ExitFailure"
  by (auto simp: usage_error_def split: option.splits)

lemma report_ends: "cli_does um (give_report r ExitWith) d es (ExitWith x) d' \<Longrightarrow>
    d' = d \<and> x = (case rp_outcome r of Finished_Well \<Rightarrow> ExitSuccess | Went_Wrong \<Rightarrow> ExitFailure | Usage_Wrong \<Rightarrow> ExitUsage)"
  by (cases "rp_outcome r") (auto simp: give_report_def)

lemma report_silent: "cli_does um (give_report r ExitWith) d es c' d' \<Longrightarrow>
    d' = d \<and> (\<forall>e \<in> set es. \<exists>t. e = Complained t \<or> e = Printed t)"
  by (cases "rp_outcome r") (auto simp: give_report_def)

lemma called_course:
  assumes "cli_does um (CallHandler f args k) d es c' d'"
  obtains "es = []" "c' = CallHandler f args k" "d' = d"
  | r d1 es' where "es = Called f args r d1 # es'" "cli_does um (k r) d1 es' c' d'"
  using assms by (cases rule: cli_does.cases) auto

lemma hook_first:
  "hook_failure (Some f) args (\<lambda>failed. case failed of Some failure \<Rightarrow> ExitWith failure | None \<Rightarrow> c) =
    CallHandler f args (\<lambda>r. case r of Inr _ \<Rightarrow> c | Inl e \<Rightarrow> Complain (''error: '' @ e @ NL) (ExitWith ExitFailure))"
  by (simp add: hook_failure_def cong: sum.case_cong)

definition line_refused :: "cli_env \<Rightarrow> string list \<Rightarrow> bool" where
  "line_refused env args \<longleftrightarrow>
     (case parse_harness_args args of Inl _ \<Rightarrow> True | Inr (selectors, _) \<Rightarrow> selector_error (known_clients env) selectors \<noteq> None)"

text \<open>
  C34: An \<open>install\<close> works in this order: a line that is refused calls nothing and edits nothing; the author's own
  work, where there is some, is called before any file is touched, and only if it succeeds is one touched.
\<close>

theorem install_in_order:
  assumes "cli_does um (cli_install env cl args) d es c' d'"
  shows "if line_refused env args then d' = d \<and> (\<forall>e \<in> set es. \<exists>t. e = Complained t)
    else case cl_before_install cl of
      None \<Rightarrow> \<not> (\<exists>f as r d1. Called f as r d1 \<in> set es)
    | Some f \<Rightarrow> es = [] \<and> d' = d \<or>
        (\<exists>r d1 es'. es = Called f args r d1 # es' \<and> \<not> (\<exists>f as r d1. Called f as r d1 \<in> set es') \<and>
           (r \<noteq> Inr () \<longrightarrow> d' = d1 \<and> Touched \<notin> set es'))"
proof -
  have edits: "\<not> (\<exists>f as r d1. Called f as r d1 \<in> set es1)"
    if "cli_does um (EditFiles p (\<lambda>r. give_report r ExitWith)) d1 es1 c1 d2" for p d1 es1 c1 d2
    using that
  proof (cases rule: edit_course)
    case (after n r d3 es2)
    with report_silent [OF after(3)] show ?thesis by fastforce
  qed auto
  show ?thesis
  proof (cases "parse_harness_args args")
    case (Inl m)
    with assms usage_error_ends show ?thesis by (fastforce simp: cli_install_def line_refused_def)
  next
    case (Inr line)
    obtain selectors addr where line: "line = (selectors, addr)" by fastforce
    show ?thesis
    proof (cases "selector_error (known_clients env) selectors")
      case None
      note run = assms [unfolded cli_install_def Inr line]
      show ?thesis
      proof (cases "cl_before_install cl")
        case None
        with run Inr line edits \<open>selector_error _ _ = None\<close> show ?thesis
          by (simp add: line_refused_def hook_failure_def)
      next
        case (Some f)
        let ?edit = "EditFiles (install_command (ce_pretty env) (ce_host env) (with_address addr (cl_entry cl)) (known_clients env) selectors)
              (\<lambda>r. give_report r ExitWith)"
        have ok: "\<not> (\<exists>f as r d1. Called f as r d1 \<in> set es1) \<and> (r \<noteq> Inr () \<longrightarrow> d2 = d1 \<and> Touched \<notin> set es1)"
          if "cli_does um (case r of Inr _ \<Rightarrow> ?edit | Inl e \<Rightarrow> Complain (''error: '' @ e @ NL) (ExitWith ExitFailure)) d1 es1 c1 d2"
          for r d1 es1 c1 d2
          using that edits [of _ d1 es1 c1 d2] by (cases r) auto
        have "cli_does um (CallHandler f args (\<lambda>r. case r of
            Inr _ \<Rightarrow> ?edit | Inl e \<Rightarrow> Complain (''error: '' @ e @ NL) (ExitWith ExitFailure))) d es c' d'"
          using run Some \<open>selector_error _ _ = None\<close> by (simp only: Let_def sum.case prod.case option.case hook_first)
        then have "es = [] \<and> d' = d \<or> (\<exists>r d1 es'. es = Called f args r d1 # es' \<and>
            \<not> (\<exists>f as r d1. Called f as r d1 \<in> set es') \<and> (r \<noteq> Inr () \<longrightarrow> d' = d1 \<and> Touched \<notin> set es'))"
        proof (cases rule: called_course)
          case (2 r d1 es1)
          from 2(1) ok [OF 2(2)] show ?thesis by blast
        qed simp
        with Some Inr line \<open>selector_error _ _ = None\<close> show ?thesis by (simp add: line_refused_def)
      qed
    next
      case (Some m)
      with assms Inr line show ?thesis
        by (auto simp: cli_install_def line_refused_def give_report_def report_of_def)
    qed
  qed
qed

lemma found_in_home: "home_from v = Some home \<Longrightarrow> home \<noteq> []"
  by (auto simp: home_from_def split: option.splits if_splits)

lemma apart_known: "apart pid (known_clients env)"
  by (cases "home_from (ce_home env)")
     (simp_all add: known_clients_def all_clients_def known_clients_apart [OF found_in_home] apart_def [of pid "[]"])

lemma apart_filter: "apart pid cs \<Longrightarrow> apart pid (filter P cs)"
  by (auto simp: apart_def)

text \<open>
  C7: A run of \<open>install\<close> that exits with success has installed. Its line was understood; from the disk that the author's own work
  left, no file was changed but the selected clients' configurations, their backups and staging
  files; and every selected client that was there either had the server, by its own check, and was
  left as it was, or now holds, in a file of the same mode, the text of its document edited so that the
  check finds the server, dialing the address if the line named one. Where that text still has the
  entry when it is read, the client's check, asked again, says so.
\<close>

theorem successful_install:
  assumes "cli_does um (run_from env cl (exe # ''install'' # args)) d es (ExitWith ExitSuccess) d'"
    and "\<not> list_ex (\<lambda>(c, _). sub_name c = ''install'') (cl_custom cl)" and "\<not> list_ex is_help_flag args"
  shows "\<exists>selectors addr chosen d0. parse_harness_args args = Inr (selectors, addr) \<and>
    select (known_clients env) selectors = Inr chosen \<and>
    (case cl_before_install cl of None \<Rightarrow> d0 = d | Some f \<Rightarrow> Called f args (Inr ()) d0 \<in> set es) \<and>
    (\<forall>q. files d' q \<noteq> files d0 q \<longrightarrow> (\<exists>c \<in> set chosen. q \<in> footprint (ch_pid (ce_host env)) c)) \<and>
    (\<forall>c \<in> set chosen. client_detected d0 c \<longrightarrow>
       installed_in (ce_host env) (with_address addr (cl_entry cl)) c d0 d' \<and>
       (entry_survives (ce_host env) (with_address addr (cl_entry cl)) c d0 \<longrightarrow>
          settled (ce_host env) (with_address addr (cl_entry cl)) c d'))"
proof -
  let ?cl = "named_by (exe # ''install'' # args) cl"
  have "find_command cl ''install'' = Some (TargetBuiltin Install)"
    using assms(2) by (simp add: find_command_def position_None [THEN iffD2])
  moreover have "\<not> is_connect_flag ''install''" "\<not> is_help_flag ''install''"
    by (simp_all add: is_connect_flag_def is_help_flag_def starts_with_def CONNECT_FLAG_def)
  ultimately have "plan_of ?cl (''install'' # args) = PlanBuiltin Install args"
    using assms(3) by (simp add: plan_of_def)
  with assms(1) have run: "cli_does um (cli_install env ?cl args) d es (ExitWith ExitSuccess) d'"
    by (simp add: run_from_def run_plan_def Let_def)
  obtain line where "parse_harness_args args = Inr line"
    using run by (cases "parse_harness_args args") (auto simp: cli_install_def dest: usage_error_ends)
  then obtain selectors addr where parsed: "parse_harness_args args = Inr (selectors, addr)" by (cases line) auto
  have fine: "selector_error (known_clients env) selectors = None"
    using run parsed by (auto simp: cli_install_def Let_def report_of_def split: option.splits dest: report_ends)
  let ?e = "with_address addr (cl_entry cl)"
  let ?prog = "install_command (ce_pretty env) (ce_host env) ?e (known_clients env) selectors"
  obtain d0 and es0 :: "'a cli_event list" where edits: "cli_does um (EditFiles ?prog (\<lambda>r. give_report r ExitWith)) d0 es0 (ExitWith ExitSuccess) d'"
    and before: "case cl_before_install cl of None \<Rightarrow> d0 = d | Some f \<Rightarrow> Called f args (Inr ()) d0 \<in> set es"
  proof (cases "cl_before_install cl")
    case None
    with run parsed fine that [of d es] show ?thesis by (simp add: cli_install_def Let_def hook_failure_def)
  next
    case (Some f)
    with run parsed fine have "cli_does um (CallHandler f args (\<lambda>r. case r of
        Inr _ \<Rightarrow> EditFiles ?prog (\<lambda>r. give_report r ExitWith)
      | Inl e \<Rightarrow> Complain (''error: '' @ e @ NL) (ExitWith ExitFailure))) d es (ExitWith ExitSuccess) d'"
      by (simp only: cli_install_def named_by_fields Let_def sum.case prod.case option.case hook_first)
    then obtain r d1 es1 where es: "es = Called f args r d1 # es1"
      and rest: "cli_does um (case r of
          Inr _ \<Rightarrow> EditFiles ?prog (\<lambda>r. give_report r ExitWith)
        | Inl e \<Rightarrow> Complain (''error: '' @ e @ NL) (ExitWith ExitFailure)) d1 es1 (ExitWith ExitSuccess) d'"
      by (cases rule: called_course) auto
    from rest have "r = Inr ()" "cli_does um (EditFiles ?prog (\<lambda>r. give_report r ExitWith)) d1 es1 (ExitWith ExitSuccess) d'"
      by (cases r; simp)+
    with Some es that [of d1 es1] show ?thesis by simp
  qed
  from edits obtain r where r: "file_run um ?prog d0 (Ret r) d'" "rp_outcome r = Finished_Well"
  proof (cases rule: edit_course)
    case (after n r d3 es2)
    from report_ends [OF after(3)] after(2) that [of r] show ?thesis by (cases "rp_outcome r") auto
  qed simp
  let ?chosen = "if selectors = [] then known_clients env else filter (\<lambda>c. list_ex (matches_selector c) selectors) (known_clients env)"
  have chosen: "select (known_clients env) selectors = Inr ?chosen" using fine by (simp add: select_def)
  have "apart (ch_pid (ce_host env)) ?chosen" using apart_known by (simp add: apart_filter)
  then show ?thesis
    using install_command_settles [OF r(1) chosen] r(2) parsed chosen before installed_survives by blast
qed

text \<open>
  A daemon cannot be started through this command line: what a shim starts (\<open>Launch.start_upstream\<close>) is a
  usage error, unless the author has a command of that name.
\<close>

lemma daemon_line_unknown:
  assumes "\<not> list_ex (\<lambda>(c, _). sub_name c = DAEMON_FLAG) (cl_custom cl)"
  shows "run_from env cl (exe # [DAEMON_FLAG, SOCKET_FLAG, socket]) =
    unknown_command env (named_by (exe # [DAEMON_FLAG, SOCKET_FLAG, socket]) cl) DAEMON_FLAG"
proof -
  have "find_command cl DAEMON_FLAG = None"
    using assms by (simp add: find_command_def position_None [THEN iffD2] DAEMON_FLAG_def)
  moreover have "\<not> is_connect_flag DAEMON_FLAG" "\<not> is_help_flag DAEMON_FLAG" "DAEMON_FLAG \<noteq> ''help''"
    by (simp_all add: is_connect_flag_def is_help_flag_def starts_with_def CONNECT_FLAG_def DAEMON_FLAG_def)
  ultimately have "plan_of (named_by (exe # [DAEMON_FLAG, SOCKET_FLAG, socket]) cl) [DAEMON_FLAG, SOCKET_FLAG, socket] = PlanUnknown DAEMON_FLAG"
    by (simp add: plan_of_def)
  then show ?thesis by (simp add: run_from_def run_plan_def Let_def)
qed

section \<open>Trying them out\<close>

lemma edited_through:
  "file_run um p d p1 d1 \<Longrightarrow> cli_does um (EditFiles p1 k) d1 es c' d' \<Longrightarrow> \<exists>n. cli_does um (EditFiles p k) d (replicate n Touched @ es) c' d'"
proof (induction arbitrary: es rule: file_run.induct)
  case run_start
  then show ?case by (intro exI [of _ 0]) simp
next
  case (run_step p1 d1 p2 d2)
  from run_step.IH [OF edits [OF run_step.hyps(2) run_step.prems]] obtain n where
    "cli_does um (EditFiles p k) d (replicate n Touched @ Touched # es) c' d'" by blast
  then show ?case by (intro exI [of _ "Suc n"]) (simp add: replicate_app_Cons_same)
qed

definition install_env :: cli_env where
  "install_env = \<lparr>ce_exe = None, ce_home = Some ''/h'', ce_macos = False, ce_host = sample_client_host,
     ce_pretty = (\<lambda>_. Inr ''{}''), ce_debug = (\<lambda>_. [])\<rparr>"

definition sample_cli :: "nat cli" where
  "sample_cli = (new_cli sample_entry)\<lparr>cl_serve := Some 1\<rparr>"

definition sample_cursor :: json_client where
  "sample_cursor = new_json_client ''Cursor'' ''/h/.cursor/mcp.json'' ''mcpServers''"

definition cursor_disk :: disk where
  "cursor_disk = \<lparr>files = [''/h/.cursor/mcp.json'' \<mapsto> \<lparr>f_text = ''old'', f_mode = 384\<rparr>], dirs = (\<lambda>p. p = ''/h/.cursor'')\<rparr>"

lemma cursor_line:
  "parse_harness_args [''--client'', ''cursor''] = Inr ([''cursor''], None)"
  "select (known_clients install_env) [''cursor''] = Inr [Json_Client sample_cursor]"
  "selector_error (known_clients install_env) [''cursor''] = None"
  "known_clients install_env \<noteq> []"
  by code_simp+

lemma cursor_ready: "ready sample_cursor cursor_disk"
proof -
  have "parent_of ''/h/.cursor/mcp.json'' = Some ''/h/.cursor''" by code_simp
  then show ?thesis by (simp add: ready_def sample_cursor_def new_json_client_def cursor_disk_def)
qed

theorem successful_install_witness:
  "\<exists>es d'. cli_does 420 (run_from install_env sample_cli [''/bin/m'', ''install'', ''--client'', ''cursor'']) cursor_disk es (ExitWith ExitSuccess) d' \<and>
     settled sample_client_host sample_entry (Json_Client sample_cursor) d'"
proof -
  have env: "ce_host install_env = sample_client_host" "cl_entry sample_cli = sample_entry" "cl_custom sample_cli = []" "cl_before_install sample_cli = None"
    by (simp_all add: install_env_def sample_cli_def new_cli_def)
  obtain t d' where run: "file_run 420 (install_command (ce_pretty install_env) sample_client_host sample_entry (known_clients install_env) [''cursor'']) cursor_disk
      (Ret \<lparr>rp_text = t, rp_outcome = Finished_Well\<rparr>) d'"
    using sample_command [OF cursor_ready cursor_line(2,4)] by blast
  have "cli_does 420 (EditFiles (Ret \<lparr>rp_text = t, rp_outcome = Finished_Well\<rparr>) (\<lambda>r. give_report r ExitWith) :: nat cli_run) d' [Printed t] (ExitWith ExitSuccess) d'"
    by (rule edited) (simp add: give_report_def)
  from edited_through [OF run this] obtain n where edits: "cli_does 420 (EditFiles (install_command (ce_pretty install_env) sample_client_host sample_entry
      (known_clients install_env) [''cursor'']) (\<lambda>r. give_report r ExitWith) :: nat cli_run) cursor_disk (replicate n Touched @ [Printed t]) (ExitWith ExitSuccess) d'" by blast
  have plan: "plan_of (named_by [''/bin/m'', ''install'', ''--client'', ''cursor''] sample_cli) [''install'', ''--client'', ''cursor''] =
      PlanBuiltin Install [''--client'', ''cursor'']" by code_simp
  have does: "cli_does 420 (run_from install_env sample_cli [''/bin/m'', ''install'', ''--client'', ''cursor'']) cursor_disk
      (replicate n Touched @ [Printed t]) (ExitWith ExitSuccess) d'"
    using edits plan by (simp add: run_from_def run_plan_def cli_install_def cursor_line env hook_failure_def with_address_def Let_def)
  have survives: "entry_survives sample_client_host sample_entry (Json_Client sample_cursor) cursor_disk"
    using two_texts_read_back [of "JObject []" installed_json] json_editor.put_settles [of None sample_cursor sample_entry]
    by (auto simp: stays_in_def reads_back_def sample_codec)
  have detected: "client_detected cursor_disk (Json_Client sample_cursor)"
    by (simp add: client_detected_def path_exists_def sample_cursor_def new_json_client_def cursor_disk_def)
  have "\<not> list_ex is_help_flag [''--client'', ''cursor'']" by code_simp
  from successful_install [OF does _ this] have "settled sample_client_host sample_entry (Json_Client sample_cursor) d'"
    using detected survives by (simp add: env cursor_line with_address_def)
  with does show ?thesis by blast
qed

theorem install_in_order_witness:
  "\<exists>es. cli_does 420 (cli_install install_env (sample_cli\<lparr>cl_before_install := Some 2\<rparr>) [''--client'', ''cursor'']) cursor_disk es (ExitWith ExitFailure) cursor_disk \<and>
     Touched \<notin> set es"
proof -
  let ?es = "[Called 2 [''--client'', ''cursor''] (Inl ''no'') cursor_disk, Complained (''error: no'' @ NL)]"
  have does: "cli_does 420 (cli_install install_env (sample_cli\<lparr>cl_before_install := Some 2\<rparr>) [''--client'', ''cursor'']) cursor_disk
      ?es (ExitWith ExitFailure) cursor_disk"
    by (simp add: cli_install_def cursor_line hook_first Let_def)
  have "\<not> line_refused install_env [''--client'', ''cursor'']" by (simp add: line_refused_def cursor_line)
  with install_in_order [OF does] have "Touched \<notin> set ?es" by auto
  with does show ?thesis by blast
qed

theorem installed_entry_serves_witness:
  "run_from install_env sample_cli (''/bin/m'' # arguments (with_address None (cl_entry sample_cli))) = CallHandler 1 [] finish_with"
proof -
  have "run_from install_env sample_cli (''/bin/m'' # arguments (with_address None (cl_entry sample_cli))) =
      (case None of None \<Rightarrow> CallHandler 1 [] finish_with | Some a \<Rightarrow>
         (case cl_remote_connector sample_cli of
            None \<Rightarrow> CallHandler 1 [CONNECT_FLAG, addr_text a] finish_with
          | Some connector \<Rightarrow> OpenLink (Some connector) a (\<lambda>l.
              case l of
                Inl e \<Rightarrow> finish_with (Inl (show_error e))
              | Inr l \<Rightarrow> BridgeStdio l (\<lambda>r. finish_with (case r of Inl e \<Rightarrow> Inl (show_error e) | Inr _ \<Rightarrow> Inr ())))))"
    by (rule installed_entry_serves [OF _ _ _ _ cursor_line(1)])
       (simp_all add: sample_cli_def new_cli_def sample_entry_def new_entry_def)
  then show ?thesis by simp
qed

end
