(* ===== verification/Cli_Builder.thy ===== *)
theory Cli_Builder
  imports Cli
begin

text \<open>
  The builder methods of \<open>Cli\<close> (\<open>cli/mod.rs\<close>): what an author says of the binary. The lemmas: words change
  nothing of what a command line does, hooks change nothing of what is dispatched, and a command that is
  added takes no command from one that was added before.
\<close>

definition describe_cli :: "string \<Rightarrow> 'h cli \<Rightarrow> 'h cli" where
  "describe_cli d cl = cl\<lparr>cl_description := Some d\<rparr>"

definition bin_name :: "string \<Rightarrow> 'h cli \<Rightarrow> 'h cli" where
  "bin_name n cl = cl\<lparr>cl_bin_name := Some n\<rparr>"

definition on_serve :: "'h \<Rightarrow> 'h cli \<Rightarrow> 'h cli" where
  "on_serve f cl = cl\<lparr>cl_serve := Some f\<rparr>"

definition on_health :: "'h \<Rightarrow> 'h cli \<Rightarrow> 'h cli" where
  "on_health f cl = cl\<lparr>cl_health := Some f\<rparr>"

definition remote_connector :: "'h \<Rightarrow> 'h cli \<Rightarrow> 'h cli" where
  "remote_connector f cl = cl\<lparr>cl_remote_connector := Some f\<rparr>"

definition on_install :: "'h \<Rightarrow> 'h cli \<Rightarrow> 'h cli" where
  "on_install f cl = cl\<lparr>cl_before_install := Some f\<rparr>"

definition on_uninstall :: "'h \<Rightarrow> 'h cli \<Rightarrow> 'h cli" where
  "on_uninstall f cl = cl\<lparr>cl_after_uninstall := Some f\<rparr>"

lemmas cli_setters = describe_cli_def bin_name_def remote_connector_def on_install_def on_uninstall_def cli.select_convs cli.update_convs

lemma find_unchanged:
  "find_command (describe_cli d cl) = find_command cl" "find_command (bin_name n cl) = find_command cl"
  "find_command (remote_connector f cl) = find_command cl" "find_command (on_install f cl) = find_command cl"
  "find_command (on_uninstall f cl) = find_command cl"
  by (rule ext, cases cl, simp only: find_command_def cli_setters)+

lemma dispatch_unchanged:
  "plan_of (describe_cli d cl) = plan_of cl" "plan_of (bin_name n cl) = plan_of cl"
  "plan_of (remote_connector f cl) = plan_of cl" "plan_of (on_install f cl) = plan_of cl"
  "plan_of (on_uninstall f cl) = plan_of cl"
  by (rule ext, simp only: plan_of_def find_unchanged, cases cl, simp only: cli_setters)+

lemma position_append:
  "position P (xs @ ys) = (case position P xs of Some i \<Rightarrow> Some i | None \<Rightarrow> map_option ((+) (length xs)) (position P ys))"
  by (induction xs; cases "position P ys") (auto split: option.split)

text \<open>An added command is found under its name, in front of a built-in one, unless an earlier one has the name.\<close>

lemma command_added:
  "find_command (add_command c f cl) n =
     (case position (\<lambda>(c, _). sub_name c = n) (cl_custom cl) of
        Some i \<Rightarrow> Some (TargetCustom i)
      | None \<Rightarrow> if sub_name c = n then Some (TargetCustom (length (cl_custom cl))) else find_command cl n)"
  by (auto simp: find_command_def add_command_def position_append split: option.split)

text \<open>A binary that can serve does so on a bare line, and otherwise shows its help.\<close>

lemma bare_line: "se_args (cl_entry cl) = [] \<Longrightarrow> plan_of (on_serve f cl) [] = PlanBuiltin Serve []" "cl_serve cl = None \<Longrightarrow> plan_of cl [] = PlanHelp"
  by (simp_all add: plan_of_def on_serve_def Let_def)

end
