(* ===== verification/Spec2Isabelle.thy ===== *)
theory Spec2Isabelle
  imports Http_Answers Http_Serve Server_Settings Client_Requests Builders Connections Listeners Process_Setup
    Daemon_Options Transports Cli_Builder
begin

text \<open>
  A verification of \<open>sml_mcps\<close>, a Rust library for servers of the Model Context Protocol. A program built
  on it speaks JSON-RPC with a client over its standard streams, a local socket, TCP or HTTP;
  registers tools, resources and prompts; may run tools as tasks in the background; may live as a
  daemon that short-lived shims connect a client to; and has a command line that writes itself into
  the configurations of the clients on a machine. All paths below are under \<open>src/src/\<close>.

  \<^bold>\<open>How the code is read.\<close> A struct is a record, an enum a datatype, an error a value of a sum; a panic is
  \<open>Unwound\<close>, or a reason, where it can happen. A \<open>String\<close> is a list of bytes (\<open>Prelude\<close>), a \<open>usize\<close> that can
  overflow a word, every other count a natural number. Code that acts on one structure under a lock is a
  function on the record of that structure, and interleaving is a sequence of such calls. Code that talks to the
  operating system is a tree: an operation, and a continuation for every reply, so that a property of a
  tree speaks of every failure. What lies outside \<open>src/\<close> is a parameter: the decoder and the printer of JSON text
  and of TOML, \<open>httparse\<close>, the compiler of schemas, the decoder of tokens, base64, entropy and clocks, and the
  author's tools, hooks and handlers; the records \<open>ambient\<close>, \<open>host\<close>, \<open>http_host\<close>, \<open>client_host\<close> and \<open>cli_env\<close> gather
  them.

  \<^bold>\<open>Messages and data.\<close>
  \<^item> \<open>Prelude\<close>: bytes, decimal numbers, tables kept sorted, splitting; the locales shared by the state
    machines.
  \<^item> \<open>Json\<close>, \<open>JsonRpc\<close> (\<open>types/jsonrpc.rs\<close>, \<open>types/error.rs\<close>): the envelope, its classification, the errors and
    their codes. The round trip of messages.
  \<^item> \<open>Pagination\<close> (\<open>pagination.rs\<close>): cursors and pages. A walk along the cursors lists everything once.
  \<^item> \<open>Protocol\<close>, \<open>Elicitation\<close>, \<open>Sampling\<close> (\<open>types/protocol.rs\<close>, \<open>types/elicitation.rs\<close>, \<open>types/sampling.rs\<close>): the types on the
    wire and what is checked of them; each check is shown to accept exactly what a description of it says. \<open>Builders\<close>: the
    methods by which an author puts such values together.
  \<^item> \<open>SchemaCheck\<close> (\<open>schema_check.rs\<close>): arguments and results against their schemas.
  \<^item> \<open>Line\<close> (\<open>transport/line.rs\<close>): the reader of lines with its ceiling and deadline. Refined to the lines of
    the stream, however the bytes arrive. \<open>Streams\<close> (\<open>transport/socket_stream.rs\<close>, \<open>stdio.rs\<close>, \<open>stream.rs\<close>): the
    transports over it. \<open>Transports\<close> (\<open>unix.rs\<close>, \<open>tcp.rs\<close>, \<open>mod.rs\<close>): the boxed transport that stands for any of them. Messages
    cross a connection.

  \<^bold>\<open>A server's state.\<close>
  \<^item> \<open>Tasks\<close> (\<open>tasks.rs\<close>): the store of background work. Its invariant, that a terminal record never
    changes, its ceilings, and that a requestor sees only its own and meets others only in a full store.
  \<^item> \<open>Broker\<close> (\<open>broker.rs\<close>): the server's own requests and the messages set aside meanwhile. Bounds, and that a
    waiter gets the first answer.
  \<^item> \<open>Auth\<close>, \<open>Origin\<close> (\<open>auth/\<close>, \<open>transport/origin.rs\<close>): tokens, audiences, metadata and challenges; the \<open>Origin\<close> policies.

  \<^bold>\<open>The server.\<close>
  \<^item> \<open>ToolEnv\<close>, \<open>Client_Requests\<close>, \<open>Server\<close> (\<open>server.rs\<close>): what a running tool may do, as a tree of acts run in a world
    of a transport, a broker, a store and a clock, in which reads, writes and naps take time; registration, every handler, the workers of tasks,
    the pump of \<open>tasks/result\<close> and the loop of \<open>start\<close>.
  \<^item> \<open>Server_Steps\<close>: a relation kept by the few kinds of moves is kept by tools and handlers (locale
    \<open>steady\<close>).
  \<^item> \<open>Server_Session\<close>: dispatch refines the lifecycle of a session, on a strict server and on the default one; registrations; a task's end and a call's end
    agree but for the tag. \<open>Server_Answers\<close>: the books over a run, each request answered once. \<open>Server_Progress\<close>: the loop ends.

  \<^bold>\<open>HTTP.\<close>
  \<^item> \<open>Http1\<close>, \<open>Http1_Requests\<close> (\<open>transport/http1.rs\<close>): heads, framing, bodies, limits and slots; what a whole request takes
    off the wire and what it may cost.
  \<^item> \<open>Http_Sessions\<close>, \<open>Http\<close>, \<open>Http_Answers\<close> (\<open>transport/http.rs\<close>): the table of sessions, the checks before a message is
    handled, and the form of the answer. \<open>Server_Settings\<close>: the setters a session is restored by,
    and the gate of a task's worker. \<open>Http_Serve\<close> (\<open>serve\<close> of \<open>http1.rs\<close>, \<open>listen\<close> of \<open>http.rs\<close>): the accept loop, its
    slots and the refusals. Every accepted connection is accounted for.

  \<^bold>\<open>Daemons and shims.\<close>
  \<^item> \<open>Daemon\<close> (\<open>transport/daemon_state.rs\<close>, the accept loop of \<open>transport/unix_server.rs\<close>): slots, shutdown, the idle watcher.
  \<^item> \<open>Listeners\<close> (\<open>transport/listener.rs\<close>, \<open>serve_listeners\<close>): the accept threads, whom \<open>wake\<close> knocks at, and the way down. A daemon told to
    stop stops. \<open>Process_Setup\<close> (\<open>transport/signals.rs\<close>, \<open>transport/pid_file.rs\<close>): signals, PID file, detaching.
  \<^item> \<open>Socket_Claim\<close> (\<open>socket.rs\<close>, the life of a daemon in \<open>unix_server.rs\<close>, \<open>Bridge::auto_start\<close>): programs over system calls,
    run by any number of processes that may die anywhere. A daemon that serves is alone and reachable.
  \<^item> \<open>Bridge\<close> (\<open>bridge.rs\<close>): the two pumps of a shim under every schedule, with the hook.
  \<^item> \<open>Launch\<close> (\<open>daemon.rs\<close>, \<open>remote.rs\<close>): what a command line makes of a process. \<open>Daemon_Options\<close>: the
    setters of a daemon. \<open>Connections\<close>: \<open>handle_connection\<close>, joining the
    blueprint, the server's loop and the slot.

  \<^bold>\<open>The command line.\<close>
  \<^item> \<open>Config_Files\<close> (\<open>cli/install/mod.rs\<close>): programs over files and the machine that runs them, in which any operation may
    fail or be cut short. \<open>Clients\<close> (\<open>json_client.rs\<close>, \<open>codex_client.rs\<close>): the edits of a configuration.
  \<^item> \<open>Cli_Commands\<close> (\<open>cli/commands.rs\<close>, \<open>cli/install/clients.rs\<close>), \<open>Health\<close> (\<open>cli/health.rs\<close>), \<open>Cli\<close>, \<open>Cli_Builder\<close> (\<open>cli/mod.rs\<close>): selecting clients, the
    two commands, the probe, dispatch and runs.

  \<^bold>\<open>Interfaces.\<close> \<open>machine\<close> and \<open>monotone_machine\<close> (an invariant, a measure of progress, kept over any sequence of
    operations) are interpreted on the broker, the store, the daemon, the HTTP listener, the proxy, the schema builder
    and the edits of a document; \<open>fifo\<close> on the queue of deferred messages; \<open>evicting\<close> on the room made in the store
    and in the table of sessions; \<open>admission\<close> on the slots of the daemon and of HTTP; \<open>steady\<close> on the books of
    requests, on progress, and on requests that write nothing; \<open>line_writer\<close> and \<open>line_source\<close> on the three kinds of
    transport and on the boxed one; \<open>config_editor\<close> on JSON clients and on Codex.

  \<^bold>\<open>Bounds and fuel.\<close> A tool polls at most \<open>amb_polls\<close> times between two of its acts. The loop of \<open>start\<close> has a turn
    for each message and one more, which \<open>server_loop_ends\<close> shows to be enough for a peer that says finitely much.
    A wait with a deadline has fuel \<open>polls_for\<close> its time, since each poll sleeps; the trees of \<open>Socket_Claim\<close> end in \<open>Spent\<close>
    where the fuel would run out, and \<open>shim_returns\<close> shows that they never do. The threads of a daemon that was told to stop have
    \<open>steps_left\<close> steps to go. Everything else recurs on its input.

  \<^bold>\<open>Not modelled.\<close> Threads and forks as such: they appear as the order of steps. TLS and the
    sockets' own behaviour; the time the lock of a transport is waited for before a read; a clock without bound; symbolic links; diagnostics on the standard error
    stream, except those of the command line; \<open>Debug\<close> forms; accessors that only read a field.
\<close>

end
